(* ===== verification/Prelude.thy ===== *)
theory Prelude
  imports Main "HOL-Library.AList" "HOL-Library.List_Lexorder" "HOL-Library.Char_ord"
    "HOL-Library.Sublist" "HOL-Library.Multiset"
begin

text \<open>
  Shared vocabulary of the development: the string operations of the Rust standard library that
  the sources use (\<^verbatim>\<open>str::split\<close>, \<^verbatim>\<open>split_once\<close>, \<^verbatim>\<open>strip_prefix\<close>, \<^verbatim>\<open>strip_suffix\<close>,
  \<^verbatim>\<open>trim_start_matches\<close>), the models of \<^verbatim>\<open>BTreeMap\<close> (an association list sorted by key, the
  representation behind \<^verbatim>\<open>serde_json::Map\<close>) and of \<^verbatim>\<open>HashMap\<close> (an association list with
  distinct keys), the contract both satisfy, and the lifting of a one-step invariant to runs.

  Strings are byte sequences (\<^typ>\<open>string\<close>): every separator the sources split on is an ASCII
  byte, so splitting a UTF-8 text at such a byte is splitting its bytes.

  A Rust panic is the value \<^term>\<open>None\<close> of an option; a \<^verbatim>\<open>Result\<close> is a sum with the error on
  the left.
\<close>

named_theorems str_simps \<open>evaluation of the string operations of the standard library\<close>
named_theorems inv_intros \<open>the operations that keep a component's invariant\<close>

type_synonym 'a panics = "'a option"

section \<open>Strings\<close>

abbreviation slash :: char where "slash \<equiv> CHR ''/''"

text \<open>\<^verbatim>\<open>str::split(c)\<close>: always at least one part.\<close>

fun split_on :: "char \<Rightarrow> string \<Rightarrow> string list" where
  "split_on c [] = [[]]"
| "split_on c (x # xs) =
     (if x = c then [] # split_on c xs
      else (case split_on c xs of [] \<Rightarrow> [[x]] | p # ps \<Rightarrow> (x # p) # ps))"

text \<open>\<^verbatim>\<open>str::split_once(c)\<close>: the parts before and after the first occurrence.\<close>

fun split_once :: "char \<Rightarrow> string \<Rightarrow> (string \<times> string) option" where
  "split_once c [] = None"
| "split_once c (x # xs) =
     (if x = c then Some ([], xs)
      else map_option (\<lambda>(a, b). (x # a, b)) (split_once c xs))"

text \<open>\<^verbatim>\<open>str::strip_prefix\<close> and \<^verbatim>\<open>str::strip_suffix\<close>.\<close>

fun strip_prefix :: "string \<Rightarrow> string \<Rightarrow> string option" where
  "strip_prefix [] s = Some s"
| "strip_prefix (p # ps) [] = None"
| "strip_prefix (p # ps) (x # xs) = (if p = x then strip_prefix ps xs else None)"

definition strip_suffix :: "string \<Rightarrow> string \<Rightarrow> string option" where
  "strip_suffix p s = map_option rev (strip_prefix (rev p) (rev s))"

text \<open>\<^verbatim>\<open>str::split_once\<close> with a string pattern.\<close>

fun split_once_str :: "string \<Rightarrow> string \<Rightarrow> (string \<times> string) option" where
  "split_once_str p s =
     (case strip_prefix p s of
        Some rest \<Rightarrow> Some ([], rest)
      | None \<Rightarrow> (case s of
            [] \<Rightarrow> None
          | x # xs \<Rightarrow> map_option (\<lambda>(a, b). (x # a, b)) (split_once_str p xs)))"

declare split_once_str.simps [simp del]

text \<open>Joining with a separator, as the \<^verbatim>\<open>format!\<close> calls of the sources do.\<close>

fun join_with :: "char \<Rightarrow> string list \<Rightarrow> string" where
  "join_with c [] = []"
| "join_with c [p] = p"
| "join_with c (p # q # ps) = p @ c # join_with c (q # ps)"

lemma split_on_not_Nil [simp]: "split_on c s \<noteq> []"
  by (induction s) (auto split: list.splits)

lemma split_on_none [simp]: "c \<notin> set s \<Longrightarrow> split_on c s = [s]"
  by (induction s) auto

lemma split_on_append [simp]: "c \<notin> set p \<Longrightarrow> split_on c (p @ c # s) = p # split_on c s"
  by (induction p) auto

lemma join_Cons: "ps \<noteq> [] \<Longrightarrow> join_with c (p # ps) = p @ c # join_with c ps"
  by (cases ps) auto

lemma join_Cons_cases:
  "join_with c (p # ps) = (if ps = [] then p else p @ c # join_with c ps)"
  by (cases ps) auto

lemma join_split [simp]: "join_with c (split_on c s) = s"
proof (induction s)
  case (Cons x xs)
  obtain p ps where "split_on c xs = p # ps" by (cases "split_on c xs") auto
  with Cons show ?case by (auto simp: join_Cons_cases)
qed simp

lemma split_join:
  "ps \<noteq> [] \<Longrightarrow> \<forall>p \<in> set ps. c \<notin> set p \<Longrightarrow> split_on c (join_with c ps) = ps"
  by (induction c ps rule: join_with.induct) auto

lemma split_on_parts: "p \<in> set (split_on c s) \<Longrightarrow> c \<notin> set p"
proof (induction s arbitrary: p)
  case (Cons x xs)
  obtain q qs where "split_on c xs = q # qs" by (cases "split_on c xs") auto
  with Cons show ?case by (auto split: if_splits)
qed simp

lemma set_split_on_parts: "p \<in> set (split_on c s) \<Longrightarrow> set p \<subseteq> set s"
proof (induction s arbitrary: p)
  case (Cons x xs)
  obtain q qs where "split_on c xs = q # qs" by (cases "split_on c xs") auto
  with Cons show ?case by (fastforce split: if_splits)
qed simp

lemma length_split_on: "length (split_on c s) = Suc (count_list s c)"
proof (induction s)
  case (Cons x xs)
  obtain q qs where "split_on c xs = q # qs" by (cases "split_on c xs") auto
  with Cons show ?case by auto
qed simp

lemma split_once_append [simp]: "c \<notin> set a \<Longrightarrow> split_once c (a @ c # b) = Some (a, b)"
  by (induction a) auto

lemma split_once_None_iff: "split_once c s = None \<longleftrightarrow> c \<notin> set s"
  by (induction s) auto

lemma split_once_Some: "split_once c s = Some (a, b) \<Longrightarrow> s = a @ c # b \<and> c \<notin> set a"
  by (induction s arbitrary: a b) (auto split: if_splits)

lemma strip_prefix_append [simp]: "strip_prefix p (p @ s) = Some s"
  by (induction p) auto

lemma strip_prefix_Some_iff: "strip_prefix p s = Some r \<longleftrightarrow> s = p @ r"
  by (induction p s rule: strip_prefix.induct) auto

lemma strip_suffix_Some_iff: "strip_suffix p s = Some r \<longleftrightarrow> s = r @ p"
  unfolding strip_suffix_def
  by (auto simp: strip_prefix_Some_iff rev_eq_append_conv intro: exI [of _ "rev r"])

lemma strip_suffix_append [simp]: "strip_suffix p (s @ p) = Some s"
  by (simp add: strip_suffix_Some_iff)

lemma split_once_str_Some: "split_once_str p s = Some (a, b) \<Longrightarrow> s = a @ p @ b"
proof (induction s arbitrary: a b)
  case Nil
  then show ?case
    by (subst (asm) split_once_str.simps) (auto simp: strip_prefix_Some_iff split: option.splits)
next
  case (Cons x xs)
  show ?case
  proof (cases "strip_prefix p (x # xs)")
    case None
    with Cons.prems obtain a' where "split_once_str p xs = Some (a', b)" "a = x # a'"
      by (subst (asm) split_once_str.simps) auto
    with Cons.IH show ?thesis by simp
  next
    case (Some r)
    with Cons.prems show ?thesis
      by (subst (asm) split_once_str.simps) (auto simp: strip_prefix_Some_iff)
  qed
qed

text \<open>A text whose first byte occurs nowhere before the pattern splits at the pattern.\<close>

lemma split_once_str_skip:
  assumes "x \<notin> set a"
  shows "split_once_str (x # p) (a @ (x # p) @ b) = Some (a, b)"
  using assms
proof (induction a)
  case Nil
  show ?case by (subst split_once_str.simps) (simp add: strip_prefix_Some_iff)
next
  case (Cons y ys)
  then have "strip_prefix (x # p) ((y # ys) @ (x # p) @ b) = None" by simp
  with Cons show ?case by (subst split_once_str.simps) simp
qed

text \<open>Case analysis on the number of parts of a split text, up to four.\<close>

lemma parts_cases:
  obtains (none) "xs = []" | (one) a where "xs = [a]" | (two) a b where "xs = [a, b]"
  | (three) a b c where "xs = [a, b, c]" | (more) a b c d r where "xs = a # b # c # d # r"
  by (metis neq_Nil_conv)

lemmas [str_simps] = split_on_append split_once_append strip_prefix_append strip_suffix_append

text \<open>The decimal text of a number.\<close>

fun decimal :: "nat \<Rightarrow> string" where
  "decimal n = (if n < 10 then [char_of (48 + n)] else decimal (n div 10) @ [char_of (48 + n mod 10)])"

declare decimal.simps [simp del]

definition is_digit :: "char \<Rightarrow> bool" where
  "is_digit c \<longleftrightarrow> 48 \<le> (of_char c :: nat) \<and> of_char c \<le> (57 :: nat)"

lemma decimal_digits: "c \<in> set (decimal n) \<Longrightarrow> is_digit c"
proof (induction n rule: decimal.induct)
  case (1 n)
  show ?case
  proof (cases "n < 10")
    case True
    with "1.prems" show ?thesis by (simp add: decimal.simps [of n] is_digit_def)
  next
    case False
    then have "c \<in> set (decimal (n div 10)) \<or> c = char_of (48 + n mod 10)"
      using "1.prems" by (subst (asm) decimal.simps) auto
    moreover have "is_digit (char_of (48 + n mod 10))" by (simp add: is_digit_def)
    ultimately show ?thesis using "1.IH" False by blast
  qed
qed

lemma decimal_nonempty [simp]: "decimal n \<noteq> []"
  by (subst decimal.simps) simp

section \<open>\<^verbatim>\<open>BTreeMap\<close>: association lists sorted by key\<close>

type_synonym ('k, 'v) btree = "('k \<times> 'v) list"

fun bt_insert :: "'k::linorder \<Rightarrow> 'v \<Rightarrow> ('k, 'v) btree \<Rightarrow> ('k, 'v) btree" where
  "bt_insert k v [] = [(k, v)]"
| "bt_insert k v ((k', v') # m) =
     (if k < k' then (k, v) # (k', v') # m
      else if k = k' then (k, v) # m
      else (k', v') # bt_insert k v m)"

definition bt_remove :: "'k \<Rightarrow> ('k, 'v) btree \<Rightarrow> ('k, 'v) btree" where
  "bt_remove k m = filter (\<lambda>(k', _). k' \<noteq> k) m"

abbreviation bt_get :: "('k, 'v) btree \<Rightarrow> 'k \<Rightarrow> 'v option" where
  "bt_get \<equiv> map_of"

text \<open>\<^verbatim>\<open>extend\<close> and \<^verbatim>\<open>append\<close>: the entries of the second map are inserted in order.\<close>

definition bt_extend :: "('k::linorder, 'v) btree \<Rightarrow> ('k, 'v) btree \<Rightarrow> ('k, 'v) btree" where
  "bt_extend m m' = fold (\<lambda>(k, v). bt_insert k v) m' m"

definition bt_wf :: "('k::linorder, 'v) btree \<Rightarrow> bool" where
  "bt_wf m \<longleftrightarrow> sorted_wrt (<) (map fst m)"

lemma bt_wf_Nil [simp]: "bt_wf []"
  by (simp add: bt_wf_def)

lemma bt_wf_single [simp]: "bt_wf [(k, v)]"
  by (simp add: bt_wf_def)

lemma bt_wf_Cons [simp]: "bt_wf ((k, v) # m) \<longleftrightarrow> (\<forall>x \<in> fst ` set m. k < x) \<and> bt_wf m"
  by (auto simp: bt_wf_def)

lemma bt_insert_get [simp]: "bt_get (bt_insert k v m) = (bt_get m)(k \<mapsto> v)"
  by (induction k v m rule: bt_insert.induct) (auto simp: fun_eq_iff)

lemma bt_insert_keys [simp]: "fst ` set (bt_insert k v m) = insert k (fst ` set m)"
  by (induction k v m rule: bt_insert.induct) auto

lemma bt_insert_wf [simp, intro]: "bt_wf m \<Longrightarrow> bt_wf (bt_insert k v m)"
  by (induction k v m rule: bt_insert.induct) auto

lemma bt_remove_get [simp]: "bt_get (bt_remove k m) = (bt_get m)(k := None)"
  by (induction m) (auto simp: bt_remove_def fun_eq_iff)

lemma bt_remove_wf [simp, intro]: "bt_wf m \<Longrightarrow> bt_wf (bt_remove k m)"
  by (induction m) (auto simp: bt_remove_def)

lemma bt_extend_get [simp]:
  "bt_get (bt_extend m m') k =
     (case map_of (rev m') k of None \<Rightarrow> bt_get m k | Some v \<Rightarrow> Some v)"
proof (induction m' arbitrary: m)
  case (Cons x xs)
  then show ?case
    by (cases x) (auto simp: bt_extend_def map_add_def split: option.splits)
qed (simp add: bt_extend_def)

lemma bt_extend_wf [simp, intro]: "bt_wf m \<Longrightarrow> bt_wf (bt_extend m m')"
  by (induction m' arbitrary: m) (auto simp: bt_extend_def)

lemma bt_wf_distinct: "bt_wf m \<Longrightarrow> distinct (map fst m)"
  by (induction m) force+

lemma bt_wf_map_of_rev: "bt_wf m \<Longrightarrow> map_of (rev m) = map_of m"
proof (induction m)
  case (Cons x m)
  obtain k v where x: "x = (k, v)" by (cases x)
  with Cons.prems have "map_of m k = None"
    by (metis bt_wf_Cons map_of_eq_None_iff order_less_irrefl)
  with Cons x show ?case by (auto simp: map_add_def fun_eq_iff split: option.splits)
qed simp

text \<open>Two sorted lists with the same lookups are equal: list equality is map equality.\<close>

lemma bt_eqI:
  "bt_wf m \<Longrightarrow> bt_wf m' \<Longrightarrow> bt_get m = bt_get m' \<Longrightarrow> m = m'"
proof (induction m arbitrary: m')
  case Nil
  then show ?case by (simp add: map_of_eq_empty_iff)
next
  case (Cons x xs)
  obtain k v where x: "x = (k, v)" by (cases x)
  from Cons.prems(3) have "m' \<noteq> []" by (metis list.distinct(1) map_of_eq_empty_iff)
  then obtain k' v' ys where m': "m' = (k', v') # ys" by (cases m') auto
  have dom: "insert k (fst ` set xs) = insert k' (fst ` set ys)"
    using Cons.prems(3) x m' by (metis dom_map_of_conv_image_fst list.simps(15) image_insert fst_conv)
  have kk: "k = k'"
  proof (rule ccontr)
    assume "k \<noteq> k'"
    with dom have "k \<in> fst ` set ys" "k' \<in> fst ` set xs" by auto
    with Cons.prems(1,2) x m' show False by fastforce
  qed
  have "bt_get xs = bt_get ys"
  proof
    fix a
    show "bt_get xs a = bt_get ys a"
    proof (cases "a = k")
      case True
      with Cons.prems(1,2) x m' kk show ?thesis
        by (metis bt_wf_Cons map_of_eq_None_iff order_less_irrefl)
    next
      case False
      with Cons.prems(3) x m' kk show ?thesis by (metis fun_upd_apply map_of_Cons_code(2))
    qed
  qed
  moreover have "v = v'" using Cons.prems(3) x m' kk by (metis map_of_Cons_code(2) option.inject)
  ultimately show ?case using Cons x m' kk by simp
qed

section \<open>The contract of a map and its two models\<close>

text \<open>
  What a client of a \<^verbatim>\<open>HashMap\<close> or a \<^verbatim>\<open>BTreeMap\<close> relies on: lookups after an insertion or a
  removal, and the invariant of the representation.
\<close>

locale map_model =
  fixes get :: "'m \<Rightarrow> 'k \<Rightarrow> 'v option"
    and put :: "'k \<Rightarrow> 'v \<Rightarrow> 'm \<Rightarrow> 'm"
    and del :: "'k \<Rightarrow> 'm \<Rightarrow> 'm"
    and wf :: "'m \<Rightarrow> bool"
  assumes get_put: "wf m \<Longrightarrow> get (put k v m) = (get m)(k \<mapsto> v)"
    and get_del: "wf m \<Longrightarrow> get (del k m) = (get m)(k := None)"
    and wf_put: "wf m \<Longrightarrow> wf (put k v m)"
    and wf_del: "wf m \<Longrightarrow> wf (del k m)"
begin

lemma put_put: "wf m \<Longrightarrow> get (put k v (put k w m)) = get (put k v m)"
  by (simp add: get_put wf_put)

lemma del_put: "wf m \<Longrightarrow> get (del k (put k v m)) = get (del k m)"
  by (simp add: get_put get_del wf_put wf_del)

lemma dom_put: "wf m \<Longrightarrow> dom (get (put k v m)) = insert k (dom (get m))"
  by (simp add: get_put)

lemma dom_del: "wf m \<Longrightarrow> dom (get (del k m)) = dom (get m) - {k}"
  by (simp add: get_del)

end

type_synonym ('k, 'v) hmap = "('k \<times> 'v) list"

abbreviation hm_get :: "('k, 'v) hmap \<Rightarrow> 'k \<Rightarrow> 'v option" where
  "hm_get \<equiv> map_of"

abbreviation hm_insert :: "'k \<Rightarrow> 'v \<Rightarrow> ('k, 'v) hmap \<Rightarrow> ('k, 'v) hmap" where
  "hm_insert \<equiv> AList.update"

abbreviation hm_remove :: "'k \<Rightarrow> ('k, 'v) hmap \<Rightarrow> ('k, 'v) hmap" where
  "hm_remove \<equiv> AList.delete"

definition hm_contains :: "('k, 'v) hmap \<Rightarrow> 'k \<Rightarrow> bool" where
  "hm_contains m k \<longleftrightarrow> map_of m k \<noteq> None"

abbreviation hm_wf :: "('k, 'v) hmap \<Rightarrow> bool" where
  "hm_wf m \<equiv> distinct (map fst m)"

interpretation bt: map_model bt_get bt_insert bt_remove bt_wf
  by unfold_locales auto

interpretation hm: map_model hm_get hm_insert hm_remove hm_wf
  by unfold_locales (auto simp: update_conv' delete_conv' distinct_update distinct_delete)

lemma hm_contains_iff: "hm_contains m k \<longleftrightarrow> k \<in> dom (hm_get m)"
  by (auto simp: hm_contains_def)

lemma length_delete_less: "map_of m k = Some v \<Longrightarrow> length (AList.delete k m) < length m"
  by (induction m) (auto simp: AList.delete_eq le_imp_less_Suc)

lemmas hm_simps = update_conv' delete_conv' distinct_update distinct_delete hm_contains_iff

text \<open>Entries with new keys are inserted in their order.\<close>

lemma fold_insert_new:
  assumes "distinct (map f xs)" "set (map f xs) \<inter> fst ` set acc = {}"
  shows "fold (\<lambda>x. hm_insert (f x) (g x)) xs acc = acc @ map (\<lambda>x. (f x, g x)) xs"
  using assms
proof (induction xs arbitrary: acc)
  case (Cons x xs)
  have new: "hm_insert (f x) (g x) acc = acc @ [(f x, g x)]"
    using Cons.prems(2) by (induction acc) auto
  have "set (map f xs) \<inter> fst ` set (acc @ [(f x, g x)]) = {}" using Cons.prems by auto
  with Cons.IH [of "acc @ [(f x, g x)]"] Cons.prems(1) new show ?case by simp
qed simp

section \<open>Runs of a state machine\<close>

text \<open>
  A run of a component over a sequence of inputs; a step that panics ends the program, and the run
  has no state.  An invariant of one step is an invariant of every run.
\<close>

fun run :: "('s \<Rightarrow> 'e \<Rightarrow> 's panics) \<Rightarrow> 's \<Rightarrow> 'e list \<Rightarrow> 's panics" where
  "run step s [] = Some s"
| "run step s (e # es) = (case step s e of None \<Rightarrow> None | Some s' \<Rightarrow> run step s' es)"

locale step_invariant =
  fixes step :: "'s \<Rightarrow> 'e \<Rightarrow> 's panics"
    and ok :: "'e \<Rightarrow> bool"
    and inv :: "'s \<Rightarrow> bool"
  assumes step_inv: "inv s \<Longrightarrow> ok e \<Longrightarrow> step s e = Some s' \<Longrightarrow> inv s'"
begin

lemma run_inv: "inv s \<Longrightarrow> list_all ok es \<Longrightarrow> run step s es = Some s' \<Longrightarrow> inv s'"
  by (induction es arbitrary: s) (auto split: option.splits dest: step_inv)

end

text \<open>A step that never panics on the states of an invariant has every run return.\<close>

locale total_step = step_invariant +
  assumes step_total: "inv s \<Longrightarrow> ok e \<Longrightarrow> step s e \<noteq> None"
begin

lemma run_total: "inv s \<Longrightarrow> list_all ok es \<Longrightarrow> \<exists>s'. run step s es = Some s' \<and> inv s'"
proof (induction es arbitrary: s)
  case (Cons e es)
  then obtain s' where "step s e = Some s'" using step_total by fastforce
  with Cons step_inv show ?case by auto
qed simp

end

lemma run_append:
  "run step s (es @ es') = (case run step s es of None \<Rightarrow> None | Some s' \<Rightarrow> run step s' es')"
  by (induction es arbitrary: s) (auto split: option.splits)

section \<open>Refinement\<close>

text \<open>
  A component refines an abstract machine if each of its steps, from a state of its invariant, is a step of the
  machine on the abstraction of the state.  Then so is every run.
\<close>

inductive steps :: "('a \<Rightarrow> 'e \<Rightarrow> 'a \<Rightarrow> bool) \<Rightarrow> 'a \<Rightarrow> 'e list \<Rightarrow> 'a \<Rightarrow> bool" for R where
  steps_Nil: "steps R a [] a"
| steps_Cons: "R a e b \<Longrightarrow> steps R b es c \<Longrightarrow> steps R a (e # es) c"

locale simulation =
  fixes step :: "'e \<Rightarrow> 's \<Rightarrow> 's"
    and astep :: "'a \<Rightarrow> 'e \<Rightarrow> 'a \<Rightarrow> bool"
    and abs :: "'s \<Rightarrow> 'a"
    and inv :: "'s \<Rightarrow> bool"
    and ok :: "'e \<Rightarrow> bool"
  assumes simulates: "inv s \<Longrightarrow> ok e \<Longrightarrow> inv (step e s) \<and> astep (abs s) e (abs (step e s))"
begin

lemma fold_simulates: "inv s \<Longrightarrow> list_all ok es \<Longrightarrow> inv (fold step es s) \<and> steps astep (abs s) es (abs (fold step es s))"
proof (induction es arbitrary: s)
  case (Cons e es)
  then have e: "inv (step e s)" "astep (abs s) e (abs (step e s))" using simulates by auto
  from Cons.IH [OF e(1)] Cons.prems(2) e(2) show ?case by (auto intro: steps_Cons)
qed (simp add: steps_Nil)

end

end
