(* ===== verification/Mqtt_Channel.thy ===== *)
theory Mqtt_Channel
  imports Prelude
begin

text \<open>
  The MQTT vocabulary of the crate \<^verbatim>\<open>mqtt_channel\<close>: topics and topic filters
  (\<^verbatim>\<open>src/topics.rs\<close>) and messages (\<^verbatim>\<open>src/messages.rs\<close>).

  The rules of MQTT themselves (which names are valid topics, which topics match a pattern) are
  code of the \<^verbatim>\<open>rumqttc\<close> package: the record \<open>rumqttc\<close> holds those three functions as
  parameters, and the theorems name what they need of them.
\<close>

record rumqttc =
  valid_topic :: "string \<Rightarrow> bool"
  valid_filter :: "string \<Rightarrow> bool"
  matches :: "string \<Rightarrow> string \<Rightarrow> bool"

text \<open>The documented rule of \<^verbatim>\<open>valid_topic\<close>: a topic name holds no wildcard.\<close>

definition no_wildcard :: "string \<Rightarrow> bool" where
  "no_wildcard s \<longleftrightarrow> CHR ''+'' \<notin> set s \<and> CHR ''#'' \<notin> set s"

definition topic_rule :: "rumqttc \<Rightarrow> bool" where
  "topic_rule L \<longleftrightarrow> (\<forall>s. valid_topic L s \<longleftrightarrow> no_wildcard s)"

lemma topic_ruleD: "topic_rule L \<Longrightarrow> valid_topic L s \<longleftrightarrow> no_wildcard s"
  by (simp add: topic_rule_def)

text \<open>
  What a pattern that covers another pattern means: every topic of the covered pattern is a topic
  of the covering one, and a pattern covers what it covers through a third one.
\<close>

definition matches_rule :: "rumqttc \<Rightarrow> bool" where
  "matches_rule L \<longleftrightarrow> (\<forall>t p q. matches L t p \<longrightarrow> matches L p q \<longrightarrow> matches L t q)"

section \<open>Topics\<close>

record topic =
  topic_name :: string

datatype mqtt_error = InvalidTopic string | InvalidFilter string

datatype qos = AtMostOnce | AtLeastOnce | ExactlyOnce

definition topic_new :: "rumqttc \<Rightarrow> string \<Rightarrow> mqtt_error + topic" where
  "topic_new L s =
     (if valid_topic L s then Inr \<lparr>topic_name = s\<rparr> else Inl (InvalidTopic s))"

definition topic_new_unchecked :: "string \<Rightarrow> topic" where
  "topic_new_unchecked s = \<lparr>topic_name = s\<rparr>"

section \<open>Topic filters\<close>

record topic_filter =
  patterns :: "string list"
  filter_qos :: qos

definition filter_of_topic :: "topic \<Rightarrow> topic_filter" where
  "filter_of_topic t = \<lparr>patterns = [topic_name t], filter_qos = AtLeastOnce\<rparr>"

definition filter_new :: "rumqttc \<Rightarrow> string \<Rightarrow> mqtt_error + topic_filter" where
  "filter_new L p =
     (if valid_filter L p then Inr \<lparr>patterns = [p], filter_qos = AtLeastOnce\<rparr>
      else Inl (InvalidFilter p))"

definition filter_empty :: topic_filter where
  "filter_empty = \<lparr>patterns = [], filter_qos = AtLeastOnce\<rparr>"

definition filter_new_unchecked :: "string \<Rightarrow> topic_filter" where
  "filter_new_unchecked p = \<lparr>patterns = [p], filter_qos = AtLeastOnce\<rparr>"

definition filter_add :: "rumqttc \<Rightarrow> string \<Rightarrow> topic_filter \<Rightarrow> mqtt_error + topic_filter" where
  "filter_add L p f =
     (if valid_filter L p then Inr (f\<lparr>patterns := patterns f @ [p]\<rparr>)
      else Inl (InvalidFilter p))"

definition filter_add_unchecked :: "string \<Rightarrow> topic_filter \<Rightarrow> topic_filter" where
  "filter_add_unchecked p f = f\<lparr>patterns := patterns f @ [p]\<rparr>"

definition filter_add_all :: "topic_filter \<Rightarrow> topic_filter \<Rightarrow> topic_filter" where
  "filter_add_all other f = fold (\<lambda>p g. g\<lparr>patterns := patterns g @ [p]\<rparr>) (patterns other) f"

definition accept_topic :: "rumqttc \<Rightarrow> topic_filter \<Rightarrow> topic \<Rightarrow> bool" where
  "accept_topic L f t = list_ex (\<lambda>p. matches L (topic_name t) p) (patterns f)"

definition include_topic :: "rumqttc \<Rightarrow> topic_filter \<Rightarrow> string \<Rightarrow> bool" where
  "include_topic L f sub_pattern = list_ex (\<lambda>p. matches L sub_pattern p) (patterns f)"

text \<open>
  One turn of the loop of \<^verbatim>\<open>remove_overlapping_patterns\<close>: a pattern that is already covered is
  removed; otherwise the patterns it covers are removed, in order, and it is kept last.
\<close>

definition overlap_step ::
  "rumqttc \<Rightarrow> string \<Rightarrow> topic_filter \<times> string list \<Rightarrow> topic_filter \<times> string list" where
  "overlap_step L p = (\<lambda>(f, removed).
     if include_topic L f p then (f, removed @ [p])
     else (f\<lparr>patterns := filter (\<lambda>s. \<not> matches L s p) (patterns f) @ [p]\<rparr>,
           removed @ filter (\<lambda>s. matches L s p) (patterns f)))"

definition remove_overlapping_patterns ::
  "rumqttc \<Rightarrow> topic_filter \<Rightarrow> topic_filter \<times> string list" where
  "remove_overlapping_patterns L f =
     fold (overlap_step L) (patterns f) (f\<lparr>patterns := []\<rparr>, [])"

definition filter_with_qos :: "qos \<Rightarrow> topic_filter \<Rightarrow> topic_filter" where
  "filter_with_qos q f = f\<lparr>filter_qos := q\<rparr>"

text \<open>The \<^verbatim>\<open>SubscribeFilter\<close>s given to the client: one per pattern, with the quality of service.\<close>

definition subscribe_filters :: "topic_filter \<Rightarrow> (string \<times> qos) list" where
  "subscribe_filters f = map (\<lambda>p. (p, filter_qos f)) (patterns f)"

definition filter_from_iter :: "topic_filter list \<Rightarrow> topic_filter" where
  "filter_from_iter fs = fold filter_add_all fs filter_empty"

text \<open>\<^verbatim>\<open>TryInto<TopicFilter>\<close> for a vector of patterns: stops at the first invalid one.\<close>

fun filter_add_patterns :: "rumqttc \<Rightarrow> string list \<Rightarrow> topic_filter \<Rightarrow> mqtt_error + topic_filter" where
  "filter_add_patterns L [] f = Inr f"
| "filter_add_patterns L (p # ps) f =
     (case filter_add L p f of Inl e \<Rightarrow> Inl e | Inr g \<Rightarrow> filter_add_patterns L ps g)"

definition filter_try_into :: "rumqttc \<Rightarrow> string list \<Rightarrow> mqtt_error + topic_filter" where
  "filter_try_into L ps = filter_add_patterns L ps filter_empty"

section \<open>Messages\<close>

record mqtt_message =
  mm_topic :: topic
  mm_payload :: string
  mm_qos :: qos
  mm_retain :: bool

definition message_new :: "topic \<Rightarrow> string \<Rightarrow> mqtt_message" where
  "message_new t p = \<lparr>mm_topic = t, mm_payload = p, mm_qos = AtLeastOnce, mm_retain = False\<rparr>"

definition with_qos :: "qos \<Rightarrow> mqtt_message \<Rightarrow> mqtt_message" where
  "with_qos q m = m\<lparr>mm_qos := q\<rparr>"

definition with_retain :: "mqtt_message \<Rightarrow> mqtt_message" where
  "with_retain m = m\<lparr>mm_retain := True\<rparr>"

definition with_retain_flag :: "bool \<Rightarrow> mqtt_message \<Rightarrow> mqtt_message" where
  "with_retain_flag b m = m\<lparr>mm_retain := b\<rparr>"

text \<open>\<^verbatim>\<open>DebugPayload::as_bytes\<close>: the bytes of the payload except one trailing null byte.\<close>

definition payload_bytes :: "mqtt_message \<Rightarrow> string" where
  "payload_bytes m =
     (case strip_suffix [CHR 0x00] (mm_payload m) of Some p \<Rightarrow> p | None \<Rightarrow> mm_payload m)"

definition accept_message :: "rumqttc \<Rightarrow> topic_filter \<Rightarrow> mqtt_message \<Rightarrow> bool" where
  "accept_message L f m = accept_topic L f (mm_topic m)"

fun serialize_qos :: "qos \<Rightarrow> nat" where
  "serialize_qos AtMostOnce = 0"
| "serialize_qos AtLeastOnce = 1"
| "serialize_qos ExactlyOnce = 2"

definition deserialize_qos :: "nat \<Rightarrow> string + qos" where
  "deserialize_qos v =
     (if v = 0 then Inr AtMostOnce
      else if v = 1 then Inr AtLeastOnce
      else if v = 2 then Inr ExactlyOnce
      else Inl ''Invalid QoS value'')"

lemma deserialize_serialize_qos [simp]: "deserialize_qos (serialize_qos q) = Inr q"
  by (cases q) (auto simp: deserialize_qos_def)

lemma payload_bytes_text:
  "p = [] \<or> last p \<noteq> CHR 0x00 \<Longrightarrow> mm_payload m = p \<Longrightarrow> payload_bytes m = p"
  unfolding payload_bytes_def
  by (auto simp: strip_suffix_Some_iff split: option.splits)

lemma message_fields [simp]:
  "mm_topic (message_new t p) = t" "mm_payload (message_new t p) = p"
  "mm_topic (with_retain m) = mm_topic m" "mm_payload (with_retain m) = mm_payload m"
  "mm_topic (with_qos q m) = mm_topic m" "mm_payload (with_qos q m) = mm_payload m"
  "mm_retain (with_retain m)"
  by (simp_all add: message_new_def with_retain_def with_qos_def)

section \<open>What removing overlapping patterns keeps\<close>

definition covered :: "rumqttc \<Rightarrow> string list \<Rightarrow> string \<Rightarrow> bool" where
  "covered L ps t = list_ex (\<lambda>p. matches L t p) ps"

text \<open>No pattern of the list covers another one.\<close>

definition antichain :: "rumqttc \<Rightarrow> string list \<Rightarrow> bool" where
  "antichain L ps \<longleftrightarrow>
     (\<forall>i j. i < length ps \<longrightarrow> j < length ps \<longrightarrow> i \<noteq> j \<longrightarrow> \<not> matches L (ps ! i) (ps ! j))"

lemma antichain_sorted_wrt:
  "antichain L ps \<longleftrightarrow> sorted_wrt (\<lambda>p q. \<not> matches L p q \<and> \<not> matches L q p) ps"
proof
  assume "antichain L ps"
  then show "sorted_wrt (\<lambda>p q. \<not> matches L p q \<and> \<not> matches L q p) ps"
    by (auto simp: antichain_def sorted_wrt_iff_nth_less)
next
  assume "sorted_wrt (\<lambda>p q. \<not> matches L p q \<and> \<not> matches L q p) ps"
  then have *: "\<And>i j. i < j \<Longrightarrow> j < length ps \<Longrightarrow>
      \<not> matches L (ps ! i) (ps ! j) \<and> \<not> matches L (ps ! j) (ps ! i)"
    by (auto simp: sorted_wrt_iff_nth_less)
  show "antichain L ps"
    unfolding antichain_def
  proof (intro allI impI)
    fix i j assume "i < length ps" "j < length ps" "i \<noteq> j"
    then show "\<not> matches L (ps ! i) (ps ! j)" using * [of i j] * [of j i] by linarith
  qed
qed

lemma overlap_step_covered:
  assumes "matches_rule L"
  shows "covered L (patterns (fst (overlap_step L p s))) t
           \<longleftrightarrow> covered L (patterns (fst s)) t \<or> matches L t p"
proof (cases s)
  case (Pair f removed)
  have trans: "\<And>q. matches L t q \<Longrightarrow> matches L q p \<Longrightarrow> matches L t p"
    "\<And>q. matches L t p \<Longrightarrow> matches L p q \<Longrightarrow> matches L t q"
    using assms by (auto simp: matches_rule_def)
  show ?thesis
    unfolding Pair overlap_step_def covered_def include_topic_def
    by (auto simp: list_ex_iff dest: trans)
qed

lemma overlap_step_mset:
  "mset (patterns (fst (overlap_step L p s))) + mset (snd (overlap_step L p s))
     = add_mset p (mset (patterns (fst s)) + mset (snd s))"
proof (cases s)
  case (Pair f removed)
  have "mset (filter (\<lambda>s. \<not> matches L s p) (patterns f))
          + mset (filter (\<lambda>s. matches L s p) (patterns f)) = mset (patterns f)"
    using multiset_partition [of "mset (patterns f)" "\<lambda>s. matches L s p"] by (simp add: ac_simps)
  then show ?thesis
    unfolding Pair overlap_step_def by (auto simp: ac_simps)
qed

lemma overlap_step_antichain:
  "antichain L (patterns (fst s)) \<Longrightarrow> antichain L (patterns (fst (overlap_step L p s)))"
  unfolding antichain_sorted_wrt overlap_step_def include_topic_def
  by (cases s) (auto simp: sorted_wrt_append sorted_wrt_filter list_ex_iff)

lemma overlap_fold:
  assumes "matches_rule L"
  shows "covered L (patterns (fst (fold (overlap_step L) ps s))) t
           \<longleftrightarrow> covered L (patterns (fst s)) t \<or> covered L ps t"
    and "mset (patterns (fst (fold (overlap_step L) ps s))) + mset (snd (fold (overlap_step L) ps s))
           = mset ps + mset (patterns (fst s)) + mset (snd s)"
    and "antichain L (patterns (fst s))
           \<Longrightarrow> antichain L (patterns (fst (fold (overlap_step L) ps s)))"
proof (induction ps arbitrary: s)
  case (Cons p ps)
  { case 1 show ?case using Cons.IH(1) [of "overlap_step L p s"]
      by (auto simp: overlap_step_covered [OF assms]) (auto simp: covered_def)
  next
    case 2 show ?case using Cons.IH(2) [of "overlap_step L p s"] overlap_step_mset [of L p s]
      by (simp add: ac_simps)
  next
    case 3 then show ?case using Cons.IH(3) [of "overlap_step L p s"]
      by (simp add: overlap_step_antichain)
  }
qed (simp_all add: covered_def)

lemma overlap_step_qos [simp]: "filter_qos (fst (overlap_step L p s)) = filter_qos (fst s)"
  by (cases s) (simp add: overlap_step_def)

lemma overlap_fold_qos [simp]:
  "filter_qos (fst (fold (overlap_step L) ps s)) = filter_qos (fst s)"
  by (induction ps arbitrary: s) auto

text \<open>
  Removing the overlapping patterns of a filter keeps exactly the topics it accepts, leaves no
  pattern that is covered by another one, and splits the original patterns into the kept and the
  removed ones, for a matching relation that composes through covering patterns.
\<close>

lemma remove_overlapping_patterns_spec:
  assumes "matches_rule L" "remove_overlapping_patterns L f = (g, removed)"
  shows "(\<forall>t. accept_topic L g t \<longleftrightarrow> accept_topic L f t) \<and> antichain L (patterns g)
    \<and> mset (patterns g) + mset removed = mset (patterns f) \<and> filter_qos g = filter_qos f"
proof -
  let ?s = "(f\<lparr>patterns := []\<rparr>, [])"
  have eq: "fold (overlap_step L) (patterns f) ?s = (g, removed)"
    using assms(2) by (simp add: remove_overlapping_patterns_def)
  have "covered L (patterns g) t \<longleftrightarrow> covered L (patterns f) t" for t
    using overlap_fold(1) [OF assms(1), of "patterns f" ?s t] eq by (simp add: covered_def)
  moreover have "antichain L (patterns g)"
    using overlap_fold(3) [OF assms(1), of ?s "patterns f"] eq by (simp add: antichain_def)
  moreover have "mset (patterns g) + mset removed = mset (patterns f)"
    using overlap_fold(2) [OF assms(1), of "patterns f" ?s] eq by simp
  moreover have "filter_qos g = filter_qos f"
    using overlap_fold_qos [of L "patterns f" ?s] eq by simp
  ultimately show ?thesis by (simp add: accept_topic_def covered_def)
qed

text \<open>
  For the witness, the covering of patterns by the multi-level wildcard alone: a pattern covers
  itself, and \<^verbatim>\<open>#\<close> covers everything.
\<close>

definition hash_mqtt :: rumqttc where
  "hash_mqtt =
     \<lparr>valid_topic = no_wildcard, valid_filter = (\<lambda>p. p \<noteq> []), matches = (\<lambda>t p. t = p \<or> p = ''#'')\<rparr>"

lemma remove_overlapping_patterns_spec_instance:
  "antichain hash_mqtt [''#'']
   \<and> (\<forall>t. accept_topic hash_mqtt \<lparr>patterns = [''#''], filter_qos = AtLeastOnce\<rparr> t \<longleftrightarrow>
         accept_topic hash_mqtt \<lparr>patterns = [''a/b'', ''#'', ''c''], filter_qos = AtLeastOnce\<rparr> t)"
proof -
  have r: "matches_rule hash_mqtt" by (auto simp: matches_rule_def hash_mqtt_def)
  have e: "remove_overlapping_patterns hash_mqtt
        \<lparr>patterns = [''a/b'', ''#'', ''c''], filter_qos = AtLeastOnce\<rparr>
      = (\<lparr>patterns = [''#''], filter_qos = AtLeastOnce\<rparr>, [''a/b'', ''c''])"
    by (simp add: remove_overlapping_patterns_def overlap_step_def include_topic_def hash_mqtt_def)
  show ?thesis using remove_overlapping_patterns_spec [OF r e] by simp
qed

end
