(* ===== verification/Topic_Schema.thy ===== *)
theory Topic_Schema
  imports Mqtt_Channel
begin

text \<open>
  The topic schema of thin-edge (\<^verbatim>\<open>tedge_api/src/mqtt_topics.rs\<close>): a topic is a root prefix, the
  four segments of an entity topic identifier and a channel.  The operations are the construction
  of a topic for an entity channel (\<^verbatim>\<open>topic_for\<close>), the parsing of a topic (\<^verbatim>\<open>entity_channel_of\<close>),
  the parsers and printers of identifiers, channels and operation names, the topic filters, and the
  generator of command identifiers.  \<^verbatim>\<open>topic_for\<close> unwraps the check of the topic name, so it may
  panic.
\<close>

section \<open>Operation names\<close>

datatype operation_type =
    Restart | SoftwareList | SoftwareUpdate | LogUpload | ConfigSnapshot | ConfigUpdate
  | FirmwareUpdate | Health_op | DeviceProfile | Custom string

definition operation_of_str :: "string \<Rightarrow> operation_type" where
  "operation_of_str s =
     (if s = ''restart'' then Restart
      else if s = ''software_list'' then SoftwareList
      else if s = ''software_update'' then SoftwareUpdate
      else if s = ''log_upload'' then LogUpload
      else if s = ''config_snapshot'' then ConfigSnapshot
      else if s = ''config_update'' then ConfigUpdate
      else if s = ''firmware_update'' then FirmwareUpdate
      else if s = ''device_profile'' then DeviceProfile
      else Custom s)"

fun operation_to_str :: "operation_type \<Rightarrow> string" where
  "operation_to_str Restart = ''restart''"
| "operation_to_str SoftwareList = ''software_list''"
| "operation_to_str SoftwareUpdate = ''software_update''"
| "operation_to_str LogUpload = ''log_upload''"
| "operation_to_str ConfigSnapshot = ''config_snapshot''"
| "operation_to_str ConfigUpdate = ''config_update''"
| "operation_to_str FirmwareUpdate = ''firmware_update''"
| "operation_to_str Health_op = ''health''"
| "operation_to_str DeviceProfile = ''device_profile''"
| "operation_to_str (Custom s) = s"

section \<open>Channels\<close>

datatype channel =
    EntityMetadata
  | EntityTwinData string
  | Measurement string
  | Event string
  | Alarm string
  | Command operation_type string
  | MeasurementMetadata string
  | EventMetadata string
  | AlarmMetadata string
  | CommandMetadata operation_type
  | Health

datatype channel_error = TooShort | InvalidCategory string

definition channel_of_str :: "string \<Rightarrow> channel_error + channel" where
  "channel_of_str s =
     (case split_on slash s of
        [a] \<Rightarrow> if a = '''' then Inr EntityMetadata else Inl (InvalidCategory s)
      | [a, b] \<Rightarrow>
          if a = ''twin'' then Inr (EntityTwinData b)
          else if a = ''m'' then Inr (Measurement b)
          else if a = ''e'' then Inr (Event b)
          else if a = ''a'' then Inr (Alarm b)
          else if a = ''cmd'' then Inr (CommandMetadata (operation_of_str b))
          else if a = ''status'' \<and> b = ''health'' then Inr Health
          else Inl (InvalidCategory s)
      | [a, b, c] \<Rightarrow>
          if a = ''m'' \<and> c = ''meta'' then Inr (MeasurementMetadata b)
          else if a = ''e'' \<and> c = ''meta'' then Inr (EventMetadata b)
          else if a = ''a'' \<and> c = ''meta'' then Inr (AlarmMetadata b)
          else if a = ''cmd'' then Inr (Command (operation_of_str b) c)
          else Inl (InvalidCategory s)
      | _ \<Rightarrow> Inl (InvalidCategory s))"

fun channel_to_str :: "channel \<Rightarrow> string" where
  "channel_to_str EntityMetadata = []"
| "channel_to_str (EntityTwinData k) = ''twin/'' @ k"
| "channel_to_str (Measurement t) = ''m/'' @ t"
| "channel_to_str (MeasurementMetadata t) = ''m/'' @ t @ ''/meta''"
| "channel_to_str (Event t) = ''e/'' @ t"
| "channel_to_str (EventMetadata t) = ''e/'' @ t @ ''/meta''"
| "channel_to_str (Alarm t) = ''a/'' @ t"
| "channel_to_str (AlarmMetadata t) = ''a/'' @ t @ ''/meta''"
| "channel_to_str (Command op cid) = ''cmd/'' @ operation_to_str op @ ''/'' @ cid"
| "channel_to_str (CommandMetadata op) = ''cmd/'' @ operation_to_str op"
| "channel_to_str Health = ''status/health''"

definition is_entity_metadata :: "channel \<Rightarrow> bool" where
  "is_entity_metadata c = (case c of EntityMetadata \<Rightarrow> True | _ \<Rightarrow> False)"

definition is_measurement :: "channel \<Rightarrow> bool" where
  "is_measurement c = (case c of Measurement _ \<Rightarrow> True | _ \<Rightarrow> False)"

definition is_health :: "channel \<Rightarrow> bool" where
  "is_health c = (case c of Health \<Rightarrow> True | _ \<Rightarrow> False)"

section \<open>Entity topic identifiers\<close>

type_synonym entity_topic_id = string

datatype topic_id_error = TooLong | InvalidMqttTopic

abbreviation ENTITY_ID_SEGMENTS :: nat where "ENTITY_ID_SEGMENTS \<equiv> 4"

definition entity_id_of_str :: "rumqttc \<Rightarrow> string \<Rightarrow> topic_id_error + entity_topic_id" where
  "entity_id_of_str L s =
     (let segments = count_list s slash + 1 in
      if segments > ENTITY_ID_SEGMENTS then Inl TooLong
      else let topic_id = s @ replicate (ENTITY_ID_SEGMENTS - segments) slash in
           case topic_new L topic_id of
             Inl _ \<Rightarrow> Inl InvalidMqttTopic
           | Inr _ \<Rightarrow> Inr topic_id)"

definition default_main_device :: entity_topic_id where
  "default_main_device = ''device/main//''"

definition default_child_device :: "rumqttc \<Rightarrow> string \<Rightarrow> topic_id_error + entity_topic_id" where
  "default_child_device L child = entity_id_of_str L (''device/'' @ child @ ''//'')"

definition default_main_service :: "rumqttc \<Rightarrow> string \<Rightarrow> topic_id_error + entity_topic_id" where
  "default_main_service L service = entity_id_of_str L (''device/main/service/'' @ service)"

definition default_child_service ::
  "rumqttc \<Rightarrow> string \<Rightarrow> string \<Rightarrow> topic_id_error + entity_topic_id" where
  "default_child_service L child service =
     entity_id_of_str L (''device/'' @ child @ ''/service/'' @ service)"

definition default_device_name :: "entity_topic_id \<Rightarrow> string option" where
  "default_device_name e =
     (case split_on slash e of
        [a, b, c, d] \<Rightarrow>
          if a = ''device'' \<and> c = ''service'' then Some b
          else if a = ''device'' \<and> c = '''' \<and> d = '''' then Some b
          else None
      | _ \<Rightarrow> None)"

definition default_service_name :: "entity_topic_id \<Rightarrow> string option" where
  "default_service_name e =
     (case split_on slash e of
        [a, b, c, d] \<Rightarrow> if a = ''device'' \<and> c = ''service'' then Some d else None
      | _ \<Rightarrow> None)"

definition default_service_parent_identifier :: "entity_topic_id \<Rightarrow> entity_topic_id option" where
  "default_service_parent_identifier e =
     (case split_on slash e of
        [a, b, c, d] \<Rightarrow>
          if a = ''device'' \<and> c = ''service'' then Some (''device/'' @ b @ ''//'') else None
      | _ \<Rightarrow> None)"

definition is_default_main_device :: "entity_topic_id \<Rightarrow> bool" where
  "is_default_main_device e \<longleftrightarrow> e = default_main_device"

definition default_service_for_device ::
  "rumqttc \<Rightarrow> entity_topic_id \<Rightarrow> string \<Rightarrow> entity_topic_id option" where
  "default_service_for_device L e service =
     (case default_device_name e of
        None \<Rightarrow> None
      | Some device \<Rightarrow> (case default_child_service L device service of
          Inl _ \<Rightarrow> None | Inr s \<Rightarrow> Some s))"

text \<open>The four segments; the code unwraps each of the first four parts.\<close>

definition segments :: "entity_topic_id \<Rightarrow> (string \<times> string \<times> string \<times> string) panics" where
  "segments e =
     (case split_on slash e of a # b # c # d # _ \<Rightarrow> Some (a, b, c, d) | _ \<Rightarrow> None)"

section \<open>The schema\<close>

record mqtt_schema =
  root :: string

definition with_root :: "string \<Rightarrow> mqtt_schema" where
  "with_root r = \<lparr>root = r\<rparr>"

definition schema_new :: mqtt_schema where
  "schema_new = with_root ''te''"

definition schema_from_topic :: "string \<Rightarrow> mqtt_schema" where
  "schema_from_topic t =
     with_root (case split_once slash t of Some (r, _) \<Rightarrow> r | None \<Rightarrow> t)"

definition topic_for :: "rumqttc \<Rightarrow> mqtt_schema \<Rightarrow> entity_topic_id \<Rightarrow> channel \<Rightarrow> topic panics" where
  "topic_for L S e c =
     (let ch = channel_to_str c;
          t = (if ch = [] then root S @ ''/'' @ e else root S @ ''/'' @ e @ ''/'' @ ch)
      in case topic_new L t of Inl _ \<Rightarrow> None | Inr t' \<Rightarrow> Some t')"

datatype entity_topic_error =
    RootError string string
  | TopicIdError topic_id_error
  | ChannelError channel_error

text \<open>
  \<^verbatim>\<open>match_indices('/').nth(n)\<close>, or the length of the text when there are fewer separators.
\<close>

fun separator_index :: "nat \<Rightarrow> string \<Rightarrow> nat" where
  "separator_index n [] = 0"
| "separator_index n (x # xs) =
     (if x = slash then (case n of 0 \<Rightarrow> 0 | Suc m \<Rightarrow> Suc (separator_index m xs))
      else Suc (separator_index n xs))"

definition entity_channel_of ::
  "rumqttc \<Rightarrow> mqtt_schema \<Rightarrow> string \<Rightarrow> entity_topic_error + (entity_topic_id \<times> channel)" where
  "entity_channel_of L S t =
     (case split_once slash t of
        None \<Rightarrow> Inl (RootError (root S) t)
      | Some (r, rest) \<Rightarrow>
          if r \<noteq> root S then Inl (RootError (root S) r)
          else
            let i = separator_index 3 rest in
            case entity_id_of_str L (take i rest) of
              Inl err \<Rightarrow> Inl (TopicIdError err)
            | Inr e \<Rightarrow>
                (case channel_of_str (dropWhile (\<lambda>x. x = slash) (drop i rest)) of
                   Inl err \<Rightarrow> Inl (ChannelError err)
                 | Inr c \<Rightarrow> Inr (e, c)))"

definition get_root_prefix :: "string \<Rightarrow> string option" where
  "get_root_prefix t = (case split_on slash t of r # _ \<Rightarrow> Some r | _ \<Rightarrow> None)"

definition get_entity_id :: "string \<Rightarrow> string option" where
  "get_entity_id t =
     (case split_on slash t of
        _ # t1 # t2 # t3 # t4 # _ \<Rightarrow> Some (t1 @ ''/'' @ t2 @ ''/'' @ t3 @ ''/'' @ t4)
      | _ \<Rightarrow> None)"

definition get_operation_name :: "string \<Rightarrow> string option" where
  "get_operation_name t =
     (case split_on slash t of
        _ # _ # _ # _ # _ # c # op # _ \<Rightarrow> if c = ''cmd'' then Some op else None
      | _ \<Rightarrow> None)"

definition get_command_id :: "string \<Rightarrow> string option" where
  "get_command_id t =
     (case split_on slash t of
        [_, _, _, _, _, c, _, cid] \<Rightarrow> if c = ''cmd'' then Some cid else None
      | _ \<Rightarrow> None)"

definition capability_topic_for ::
  "rumqttc \<Rightarrow> mqtt_schema \<Rightarrow> entity_topic_id \<Rightarrow> operation_type \<Rightarrow> topic panics" where
  "capability_topic_for L S target op = topic_for L S target (CommandMetadata op)"

definition error_topic :: "mqtt_schema \<Rightarrow> topic" where
  "error_topic S = topic_new_unchecked (root S @ ''/errors'')"

section \<open>Filters over entities and channels\<close>

datatype entity_filter = AnyEntity | Entity entity_topic_id

datatype channel_filter =
    F_EntityMetadata | F_EntityTwinData | F_Measurement | F_Event | F_Alarm | F_AnyCommand
  | F_Command operation_type | F_MeasurementMetadata | F_EventMetadata | F_AlarmMetadata
  | F_AnyCommandMetadata | F_CommandMetadata operation_type | F_Health

fun entity_filter_str :: "entity_filter \<Rightarrow> string" where
  "entity_filter_str AnyEntity = ''+/+/+/+''"
| "entity_filter_str (Entity e) = e"

fun channel_filter_str :: "channel_filter \<Rightarrow> string" where
  "channel_filter_str F_EntityMetadata = []"
| "channel_filter_str F_EntityTwinData = ''/twin/+''"
| "channel_filter_str F_Measurement = ''/m/+''"
| "channel_filter_str F_MeasurementMetadata = ''/m/+/meta''"
| "channel_filter_str F_Event = ''/e/+''"
| "channel_filter_str F_EventMetadata = ''/e/+/meta''"
| "channel_filter_str F_Alarm = ''/a/+''"
| "channel_filter_str F_AlarmMetadata = ''/a/+/meta''"
| "channel_filter_str F_AnyCommand = ''/cmd/+/+''"
| "channel_filter_str (F_Command op) = ''/cmd/'' @ operation_to_str op @ ''/+''"
| "channel_filter_str F_AnyCommandMetadata = ''/cmd/+''"
| "channel_filter_str (F_CommandMetadata op) = ''/cmd/'' @ operation_to_str op"
| "channel_filter_str F_Health = ''/status/health''"

definition topics :: "mqtt_schema \<Rightarrow> entity_filter \<Rightarrow> channel_filter \<Rightarrow> topic_filter" where
  "topics S e c = filter_new_unchecked (root S @ ''/'' @ entity_filter_str e @ channel_filter_str c)"

fun channel_filter_of :: "channel \<Rightarrow> channel_filter" where
  "channel_filter_of EntityMetadata = F_EntityMetadata"
| "channel_filter_of (EntityTwinData _) = F_EntityTwinData"
| "channel_filter_of (Measurement _) = F_Measurement"
| "channel_filter_of (Event _) = F_Event"
| "channel_filter_of (Alarm _) = F_Alarm"
| "channel_filter_of (Command op _) = F_Command op"
| "channel_filter_of (MeasurementMetadata _) = F_MeasurementMetadata"
| "channel_filter_of (EventMetadata _) = F_EventMetadata"
| "channel_filter_of (AlarmMetadata _) = F_AlarmMetadata"
| "channel_filter_of (CommandMetadata op) = F_CommandMetadata op"
| "channel_filter_of Health = F_Health"

section \<open>Command identifiers\<close>

record id_generator =
  id_prefix :: string

definition id_generator_new :: "string \<Rightarrow> id_generator" where
  "id_generator_new p = \<lparr>id_prefix = p\<rparr>"

text \<open>The current time, formatted, is an argument.\<close>

definition new_id :: "string \<Rightarrow> id_generator \<Rightarrow> string" where
  "new_id now g = id_prefix g @ ''-'' @ now"

definition new_id_with_str :: "id_generator \<Rightarrow> string \<Rightarrow> string" where
  "new_id_with_str g v = id_prefix g @ ''-'' @ v"

definition is_generator_of :: "id_generator \<Rightarrow> string \<Rightarrow> bool" where
  "is_generator_of g cmd_id = sublist (id_prefix g) cmd_id"

definition get_value :: "id_generator \<Rightarrow> string \<Rightarrow> string option" where
  "get_value g cmd_id = Option.bind (strip_prefix (id_prefix g) cmd_id) (strip_prefix ''-'')"


section \<open>Identifiers are four segments\<close>

definition wf_entity_id :: "entity_topic_id \<Rightarrow> bool" where
  "wf_entity_id e \<longleftrightarrow> count_list e slash = 3 \<and> no_wildcard e"

lemma no_wildcard_append [simp]: "no_wildcard (a @ b) \<longleftrightarrow> no_wildcard a \<and> no_wildcard b"
  by (auto simp: no_wildcard_def)

lemma no_wildcard_Cons [simp]:
  "no_wildcard (x # b) \<longleftrightarrow> x \<noteq> CHR ''+'' \<and> x \<noteq> CHR ''#'' \<and> no_wildcard b"
  by (auto simp: no_wildcard_def)

lemma no_wildcard_Nil [simp]: "no_wildcard []"
  by (simp add: no_wildcard_def)

lemma no_wildcard_subset: "set a \<subseteq> set b \<Longrightarrow> no_wildcard b \<Longrightarrow> no_wildcard a"
  by (auto simp: no_wildcard_def)

lemma count_list_replicate [simp]: "count_list (replicate n x) y = (if x = y then n else 0)"
  by (induction n) auto

lemma entity_id_of_str_Inr:
  "entity_id_of_str L s = Inr e \<longleftrightarrow>
     count_list s slash \<le> 3 \<and> e = s @ replicate (3 - count_list s slash) slash \<and> valid_topic L e"
  by (auto simp: entity_id_of_str_def Let_def topic_new_def)

lemma wf_entity_id_of_str:
  "topic_rule L \<Longrightarrow> entity_id_of_str L s = Inr e \<Longrightarrow> wf_entity_id e"
  by (auto simp: entity_id_of_str_Inr wf_entity_id_def topic_ruleD)

lemma entity_id_of_str_wf:
  "topic_rule L \<Longrightarrow> wf_entity_id e \<Longrightarrow> entity_id_of_str L e = Inr e"
  by (simp add: entity_id_of_str_Inr wf_entity_id_def topic_ruleD)

lemma wf_entity_id_split:
  assumes "wf_entity_id e"
  obtains a b c d where "split_on slash e = [a, b, c, d]" "e = a @ ''/'' @ b @ ''/'' @ c @ ''/'' @ d"
    "slash \<notin> set a" "slash \<notin> set b" "slash \<notin> set c" "slash \<notin> set d"
proof -
  have "length (split_on slash e) = 4"
    using assms by (simp add: length_split_on wf_entity_id_def)
  then obtain a b c d where sp: "split_on slash e = [a, b, c, d]"
    by (auto simp: numeral_eq_Suc length_Suc_conv)
  have "e = join_with slash [a, b, c, d]" using sp by (metis join_split)
  then have "e = a @ ''/'' @ b @ ''/'' @ c @ ''/'' @ d" by simp
  moreover have "slash \<notin> set a" "slash \<notin> set b" "slash \<notin> set c" "slash \<notin> set d"
    using sp split_on_parts [of _ slash e] by auto
  ultimately show thesis using sp that by blast
qed

lemma segments_wf: "wf_entity_id e \<Longrightarrow> segments e \<noteq> None"
  by (auto simp: segments_def elim!: wf_entity_id_split)

text \<open>
  An entity topic identifier obtained by parsing has exactly four segments, none of them a
  wildcard, and is the given text padded with separators; parsing it again gives it back; a text
  with more than four segments is rejected as too long and one with a wildcard as invalid.
\<close>

lemma entity_id_of_str_spec:
  assumes "topic_rule L"
  shows "entity_id_of_str L s =
      (if count_list s slash > 3 then Inl TooLong
       else if \<not> no_wildcard s then Inl InvalidMqttTopic
       else Inr (s @ replicate (3 - count_list s slash) slash))
    \<and> (\<forall>e. entity_id_of_str L s = Inr e \<longrightarrow>
         wf_entity_id e \<and> length (split_on slash e) = 4 \<and> entity_id_of_str L e = Inr e)"
proof -
  have w: "no_wildcard (replicate n slash)" for n
    by (induction n) auto
  have "entity_id_of_str L s =
      (if count_list s slash > 3 then Inl TooLong
       else if \<not> no_wildcard s then Inl InvalidMqttTopic
       else Inr (s @ replicate (3 - count_list s slash) slash))"
    using assms w by (auto simp: entity_id_of_str_def Let_def topic_new_def topic_ruleD)
  moreover have "wf_entity_id e \<and> length (split_on slash e) = 4 \<and> entity_id_of_str L e = Inr e"
    if "entity_id_of_str L s = Inr e" for e
    using wf_entity_id_of_str [OF assms that] entity_id_of_str_wf [OF assms]
    by (auto simp: length_split_on wf_entity_id_def)
  ultimately show ?thesis by blast
qed

text \<open>A concrete instance of the MQTT rules, for the witnesses.\<close>

definition wildcard_free_mqtt :: rumqttc where
  "wildcard_free_mqtt =
     \<lparr>valid_topic = no_wildcard, valid_filter = (\<lambda>p. p \<noteq> []), matches = (\<lambda>t p. t = p)\<rparr>"

lemma wildcard_free_mqtt_rule [simp]: "topic_rule wildcard_free_mqtt"
  by (simp add: topic_rule_def wildcard_free_mqtt_def)

lemma entity_id_of_str_spec_instance:
  "entity_id_of_str wildcard_free_mqtt ''device/main'' = Inr ''device/main//''
     \<and> entity_id_of_str wildcard_free_mqtt ''device/main//'' = Inr ''device/main//''"
  using entity_id_of_str_spec [OF wildcard_free_mqtt_rule, of "''device/main''"]
  by (simp add: numeral_eq_Suc)

section \<open>Round trips of names, channels and topics\<close>

text \<open>
  The operations whose name stands for them: not the health operation, whose name is read as the name of
  a custom one, and no custom operation with the name of a built-in one.
\<close>

definition built_in_names :: "string set" where
  "built_in_names = {''restart'', ''software_list'', ''software_update'', ''log_upload'', ''config_snapshot'',
     ''config_update'', ''firmware_update'', ''device_profile''}"

definition canonical_op :: "operation_type \<Rightarrow> bool" where
  "canonical_op op \<longleftrightarrow> op \<noteq> Health_op \<and> op \<notin> Custom ` built_in_names"

lemma canonical_op_iff: "canonical_op op \<longleftrightarrow> operation_of_str (operation_to_str op) = op"
  by (cases op) (auto simp: canonical_op_def built_in_names_def operation_of_str_def image_iff)

lemma operation_to_of_str [simp]: "operation_to_str (operation_of_str s) = s"
  by (simp add: operation_of_str_def)

lemma canonical_operation_of_str [simp]: "canonical_op (operation_of_str s)"
  by (simp add: canonical_op_iff)

text \<open>The names in a channel hold no separator and the name of its operation stands for it.\<close>

fun wf_channel :: "channel \<Rightarrow> bool" where
  "wf_channel EntityMetadata = True"
| "wf_channel (EntityTwinData k) = (slash \<notin> set k)"
| "wf_channel (Measurement t) = (slash \<notin> set t)"
| "wf_channel (Event t) = (slash \<notin> set t)"
| "wf_channel (Alarm t) = (slash \<notin> set t)"
| "wf_channel (MeasurementMetadata t) = (slash \<notin> set t)"
| "wf_channel (EventMetadata t) = (slash \<notin> set t)"
| "wf_channel (AlarmMetadata t) = (slash \<notin> set t)"
| "wf_channel (Command op cid) =
     (canonical_op op \<and> slash \<notin> set (operation_to_str op) \<and> slash \<notin> set cid)"
| "wf_channel (CommandMetadata op) = (canonical_op op \<and> slash \<notin> set (operation_to_str op))"
| "wf_channel Health = True"

lemma channel_to_str_eq_Nil [simp]: "channel_to_str c = [] \<longleftrightarrow> c = EntityMetadata"
  by (cases c) auto

lemma channel_roundtrip: "wf_channel c \<Longrightarrow> channel_of_str (channel_to_str c) = Inr c"
  by (cases c) (simp_all add: channel_of_str_def canonical_op_iff)

lemma channel_of_str_two:
  assumes "channel_of_str s = Inr c" "split_on slash s = [a, b]"
  obtains "a = ''twin''" "c = EntityTwinData b" | "a = ''m''" "c = Measurement b"
  | "a = ''e''" "c = Event b" | "a = ''a''" "c = Alarm b"
  | "a = ''cmd''" "c = CommandMetadata (operation_of_str b)"
  | "a = ''status''" "b = ''health''" "c = Health"
  using assms unfolding channel_of_str_def
  by (simp split: if_split_asm)

lemma channel_of_str_three:
  assumes "channel_of_str s = Inr c" "split_on slash s = [a, b, d]"
  obtains "a = ''m''" "d = ''meta''" "c = MeasurementMetadata b"
  | "a = ''e''" "d = ''meta''" "c = EventMetadata b"
  | "a = ''a''" "d = ''meta''" "c = AlarmMetadata b"
  | "a = ''cmd''" "c = Command (operation_of_str b) d"
  using assms unfolding channel_of_str_def
  by (simp split: if_split_asm)

lemma channel_of_str_wf:
  assumes "channel_of_str s = Inr c"
  shows "wf_channel c" "channel_to_str c = s"
proof -
  have "wf_channel c \<and> channel_to_str c = s"
  proof (cases "split_on slash s" rule: parts_cases)
    case (one a)
    moreover have "s = a" using join_split [of slash s] one by simp
    ultimately show ?thesis using assms by (simp add: channel_of_str_def split: if_splits)
  next
    case (two a b)
    moreover have "s = a @ ''/'' @ b" using join_split [of slash s] two by simp
    moreover have "slash \<notin> set b" using split_on_parts [of b slash s] two by simp
    ultimately show ?thesis
      using assms by (elim channel_of_str_two) auto
  next
    case (three a b d)
    moreover have "s = a @ ''/'' @ b @ ''/'' @ d" using join_split [of slash s] three by simp
    moreover have "slash \<notin> set b" "slash \<notin> set d"
      using split_on_parts [of _ slash s] three by auto
    ultimately show ?thesis
      using assms by (elim channel_of_str_three) auto
  qed (use assms in \<open>simp_all add: channel_of_str_def\<close>)
  then show "wf_channel c" "channel_to_str c = s" by blast+
qed

lemma trim_channel_to_str: "dropWhile (\<lambda>x. x = slash) (channel_to_str c) = channel_to_str c"
  by (cases c) auto

lemma separator_index_less:
  "count_list s slash \<le> n \<Longrightarrow> separator_index n s = length s"
  by (induction n s rule: separator_index.induct) (auto split: nat.splits)

lemma separator_index_append:
  "count_list s slash = n \<Longrightarrow> separator_index n (s @ slash # r) = length s"
  by (induction n s rule: separator_index.induct) (auto split: nat.splits)

lemma count_list_take_separator_index: "count_list (take (separator_index n s) s) slash \<le> n"
  by (induction n s rule: separator_index.induct) (auto split: nat.splits)

definition wf_root :: "string \<Rightarrow> bool" where
  "wf_root r \<longleftrightarrow> slash \<notin> set r \<and> no_wildcard r"

definition topic_text :: "mqtt_schema \<Rightarrow> entity_topic_id \<Rightarrow> channel \<Rightarrow> string" where
  "topic_text S e c =
     root S @ ''/'' @ e @ (if c = EntityMetadata then [] else ''/'' @ channel_to_str c)"

lemma topic_for_Some_iff:
  "topic_rule L \<Longrightarrow>
   topic_for L S e c = Some t \<longleftrightarrow> no_wildcard (topic_text S e c) \<and> topic_name t = topic_text S e c"
  by (cases t) (auto simp: topic_for_def topic_text_def topic_new_def topic_ruleD Let_def)

lemma topic_for_None_iff:
  "topic_rule L \<Longrightarrow> topic_for L S e c = None \<longleftrightarrow> \<not> no_wildcard (topic_text S e c)"
  by (auto simp: topic_for_def topic_text_def topic_new_def topic_ruleD Let_def)

lemma entity_channel_of_topic_text:
  assumes "topic_rule L" "slash \<notin> set (root S)" "wf_entity_id e" "wf_channel c"
  shows "entity_channel_of L S (topic_text S e c) = Inr (e, c)"
proof (cases "c = EntityMetadata")
  case True
  with assms show ?thesis
    by (simp add: topic_text_def entity_channel_of_def separator_index_less wf_entity_id_def
        entity_id_of_str_wf [unfolded wf_entity_id_def] channel_of_str_def)
next
  case False
  with assms show ?thesis
    by (simp add: topic_text_def entity_channel_of_def separator_index_append wf_entity_id_def
        entity_id_of_str_wf [unfolded wf_entity_id_def] trim_channel_to_str channel_roundtrip)
qed

lemma entity_channel_of_Inr:
  assumes "topic_rule L" "entity_channel_of L S t = Inr (e, c)"
  shows "wf_entity_id e" "wf_channel c"
  using assms wf_entity_id_of_str [OF assms(1)] channel_of_str_wf
  by (auto simp: entity_channel_of_def Let_def split: option.splits prod.splits if_splits sum.splits)

text \<open>
  C35. The topic of an entity and a channel, for a root prefix and names without wildcards: building it does not
  panic, and it is parsed back to the same entity and channel exactly when no name in the channel has a separator and the operation
  of a command is neither the health operation nor a custom one with the name of a built-in one.
\<close>

theorem topic_for_roundtrip:
  assumes "topic_rule L" "wf_root (root S)" "wf_entity_id e" "no_wildcard (channel_to_str c)"
  shows "\<exists>t. topic_for L S e c = Some t \<and> (entity_channel_of L S (topic_name t) = Inr (e, c) \<longleftrightarrow> wf_channel c)"
proof -
  have "no_wildcard (topic_text S e c)"
    using assms by (simp add: topic_text_def wf_root_def wf_entity_id_def)
  then obtain t where t: "topic_for L S e c = Some t"
    using assms(1) by (metis not_None_eq topic_for_None_iff)
  then have "topic_name t = topic_text S e c" using topic_for_Some_iff [OF assms(1)] by blast
  moreover have "wf_channel c" if "entity_channel_of L S (topic_name t) = Inr (e, c)"
    by (rule entity_channel_of_Inr(2) [OF assms(1) that])
  ultimately show ?thesis
    using t assms entity_channel_of_topic_text [OF assms(1), of S e c] by (auto simp: wf_root_def)
qed

theorem topic_for_roundtrip_witness:
  "(\<exists>t. topic_for wildcard_free_mqtt schema_new ''device/main//'' (Command Restart ''c8y-1'') = Some t
     \<and> entity_channel_of wildcard_free_mqtt schema_new (topic_name t)
       = Inr (''device/main//'', Command Restart ''c8y-1''))
   \<and> (\<exists>t. topic_for wildcard_free_mqtt schema_new ''device/main//'' (CommandMetadata Health_op) = Some t
     \<and> entity_channel_of wildcard_free_mqtt schema_new (topic_name t)
       \<noteq> Inr (''device/main//'', CommandMetadata Health_op))"
proof -
  have wf: "wf_root (root schema_new)" "wf_entity_id ''device/main//''"
    "no_wildcard (channel_to_str (Command Restart ''c8y-1''))" "no_wildcard (channel_to_str (CommandMetadata Health_op))"
    "wf_channel (Command Restart ''c8y-1'')" "\<not> wf_channel (CommandMetadata Health_op)"
    by (simp_all add: wf_root_def wf_entity_id_def schema_new_def with_root_def canonical_op_def image_iff)
  from topic_for_roundtrip [OF wildcard_free_mqtt_rule wf(1-3)]
    topic_for_roundtrip [OF wildcard_free_mqtt_rule wf(1,2,4)] wf(5,6)
  show ?thesis by blast
qed

lemma command_topic_parts:
  assumes "topic_rule L" "wf_root (root S)" "wf_entity_id e"
    and "slash \<notin> set (operation_to_str op)" "slash \<notin> set cid"
    and "topic_for L S e (Command op cid) = Some t"
  shows "get_root_prefix (topic_name t) = Some (root S)" "get_entity_id (topic_name t) = Some e"
    "get_operation_name (topic_name t) = Some (operation_to_str op)"
    "get_command_id (topic_name t) = Some cid" "schema_from_topic (topic_name t) = S"
proof -
  obtain a b c d where e: "e = a @ ''/'' @ b @ ''/'' @ c @ ''/'' @ d"
    and ns: "slash \<notin> set a" "slash \<notin> set b" "slash \<notin> set c" "slash \<notin> set d"
    using assms(3) by (rule wf_entity_id_split)
  have t: "topic_name t = topic_text S e (Command op cid)"
    using assms(1,6) topic_for_Some_iff by blast
  have "split_on slash (topic_name t) = [root S, a, b, c, d, ''cmd'', operation_to_str op, cid]"
    using t e ns assms(2,4,5) by (simp add: topic_text_def wf_root_def)
  then show "get_root_prefix (topic_name t) = Some (root S)" "get_entity_id (topic_name t) = Some e"
    "get_operation_name (topic_name t) = Some (operation_to_str op)"
    "get_command_id (topic_name t) = Some cid"
    using e
    by (simp_all add: get_root_prefix_def get_entity_id_def get_operation_name_def get_command_id_def)
  show "schema_from_topic (topic_name t) = S"
    using t assms(2) by (simp add: topic_text_def schema_from_topic_def wf_root_def with_root_def)
qed

text \<open>
  On the topic of a command the ad-hoc extractors of the root, the entity, the operation and
  the command identifier agree with what the topic was built from.
\<close>

lemma command_topic_extractors:
  assumes "topic_rule L" "wf_root (root S)" "wf_entity_id e" "wf_channel (Command op cid)"
    and "topic_for L S e (Command op cid) = Some t"
  shows "get_root_prefix (topic_name t) = Some (root S) \<and> get_entity_id (topic_name t) = Some e
    \<and> get_operation_name (topic_name t) = Some (operation_to_str op)
    \<and> get_command_id (topic_name t) = Some cid
    \<and> schema_from_topic (topic_name t) = S"
  using command_topic_parts [OF assms(1-3) _ _ assms(5)] assms(4) by simp

lemma command_topic_extractors_instance:
  "\<exists>t. topic_for wildcard_free_mqtt schema_new ''device/main//'' (Command Restart ''c8y-1'') = Some t
     \<and> get_operation_name (topic_name t) = Some ''restart''
     \<and> get_command_id (topic_name t) = Some ''c8y-1''"
proof -
  have wf: "wf_root (root schema_new)" "wf_entity_id ''device/main//''"
    "wf_channel (Command Restart ''c8y-1'')"
    by (simp_all add: wf_root_def wf_entity_id_def schema_new_def with_root_def canonical_op_def image_iff
        operation_of_str_def)
  have "topic_for wildcard_free_mqtt schema_new ''device/main//'' (Command Restart ''c8y-1'') \<noteq> None"
    by (simp add: topic_for_None_iff topic_text_def schema_new_def with_root_def)
  then obtain t where
    "topic_for wildcard_free_mqtt schema_new ''device/main//'' (Command Restart ''c8y-1'') = Some t"
    by blast
  with command_topic_extractors [OF wildcard_free_mqtt_rule wf this] show ?thesis by simp
qed

lemma get_value_new_id [simp]: "get_value g (new_id_with_str g v) = Some v"
  by (simp add: get_value_def new_id_with_str_def)

lemma is_generator_of_new_id [simp]: "is_generator_of g (new_id_with_str g v)"
  by (auto simp: is_generator_of_def new_id_with_str_def sublist_def)

end
