(* ===== verification/Json.thy ===== *)
theory Json
  imports Prelude
begin

text \<open>
  JSON values as \<^verbatim>\<open>serde_json::Value\<close> has them, and the accessors the sources call on them.  An
  object is a \<^verbatim>\<open>BTreeMap\<close> from strings to values: \<open>json_wf\<close> says that its keys are sorted, at
  every depth.  The text of a value is produced and read by \<^verbatim>\<open>serde_json\<close>, a package outside the
  repository: the record \<open>serde\<close> holds its printer and its parser as parameters, and
  \<open>serde_rule\<close> states what the sources rely on, that a value is read back from its text.
\<close>

datatype jnumber = PosInt nat | NegInt int | Float string

datatype json =
    JNull
  | JBool bool
  | JNumber jnumber
  | JString string
  | JArray "json list"
  | JObject "(string \<times> json) list"

type_synonym jmap = "(string, json) btree"

fun json_wf :: "json \<Rightarrow> bool" where
  "json_wf (JArray vs) = (\<forall>v \<in> set vs. json_wf v)"
| "json_wf (JObject m) = (bt_wf m \<and> (\<forall>kv \<in> set m. json_wf (snd kv)))"
| "json_wf _ = True"

fun as_object :: "json \<Rightarrow> jmap option" where
  "as_object (JObject m) = Some m"
| "as_object _ = None"

fun as_array :: "json \<Rightarrow> json list option" where
  "as_array (JArray vs) = Some vs"
| "as_array _ = None"

fun as_str :: "json \<Rightarrow> string option" where
  "as_str (JString s) = Some s"
| "as_str _ = None"

fun as_bool :: "json \<Rightarrow> bool option" where
  "as_bool (JBool b) = Some b"
| "as_bool _ = None"

text \<open>
  \<^verbatim>\<open>PosInt\<close> holds a \<^verbatim>\<open>u64\<close> in the code, which bounds the numbers that are read.  The model leaves it unbounded: the
  indices that the workflows write are positions in an array, which has fewer than \<open>2 ^ 64\<close> elements.
\<close>

fun as_u64 :: "json \<Rightarrow> nat option" where
  "as_u64 (JNumber (PosInt n)) = Some n"
| "as_u64 _ = None"

definition is_null :: "json \<Rightarrow> bool" where
  "is_null v \<longleftrightarrow> v = JNull"

text \<open>\<^verbatim>\<open>Value::get\<close> with a string key: nothing for a value that is not an object.\<close>

definition json_get :: "json \<Rightarrow> string \<Rightarrow> json option" where
  "json_get v k = Option.bind (as_object v) (\<lambda>m. bt_get m k)"

text \<open>
  \<^verbatim>\<open>value[key] = x\<close> (\<^verbatim>\<open>IndexMut\<close>): inserts into an object, turns null into an object, and panics on
  any other value.
\<close>

fun json_set :: "string \<Rightarrow> json \<Rightarrow> json \<Rightarrow> json panics" where
  "json_set k x (JObject m) = Some (JObject (bt_insert k x m))"
| "json_set k x JNull = Some (JObject [(k, x)])"
| "json_set k x _ = None"

definition jmap_wf :: "jmap \<Rightarrow> bool" where
  "jmap_wf m \<longleftrightarrow> json_wf (JObject m)"

lemma jmap_wf_Nil [simp]: "jmap_wf []"
  by (simp add: jmap_wf_def)

lemma jmap_wf_bt [dest]: "jmap_wf m \<Longrightarrow> bt_wf m"
  by (simp add: jmap_wf_def)

lemma set_bt_insert: "set (bt_insert k v m) \<subseteq> insert (k, v) (set m)"
  by (induction k v m rule: bt_insert.induct) auto

lemma jmap_wf_insert [intro]: "jmap_wf m \<Longrightarrow> json_wf v \<Longrightarrow> jmap_wf (bt_insert k v m)"
  using set_bt_insert [of k v m] by (fastforce simp: jmap_wf_def)

lemma jmap_wf_remove [intro]: "jmap_wf m \<Longrightarrow> jmap_wf (bt_remove k m)"
  by (auto simp: jmap_wf_def bt_remove_def intro: bt_remove_wf [unfolded bt_remove_def])

lemma jmap_wf_extend_values:
  "jmap_wf m \<Longrightarrow> \<forall>kv \<in> set xs. json_wf (snd kv) \<Longrightarrow> jmap_wf (bt_extend m xs)"
proof (induction xs arbitrary: m)
  case (Cons x xs)
  with jmap_wf_insert [of m "snd x" "fst x"] show ?case
    by (cases x) (auto simp: bt_extend_def)
qed (simp add: bt_extend_def)

lemma jmap_wf_extend [intro]: "jmap_wf m \<Longrightarrow> jmap_wf m' \<Longrightarrow> jmap_wf (bt_extend m m')"
  by (rule jmap_wf_extend_values) (simp_all add: jmap_wf_def)

section \<open>Texts\<close>

record serde =
  json_to_text :: "json \<Rightarrow> string"
  json_of_text :: "string \<Rightarrow> json option"

text \<open>
  The behaviour of \<^verbatim>\<open>serde_json\<close> the sources rely on: printing then parsing is the identity on
  values whose objects are sorted, and a text is neither empty nor ended by a null byte.
\<close>

definition serde_rule :: "serde \<Rightarrow> bool" where
  "serde_rule J \<longleftrightarrow>
     (\<forall>v. json_wf v \<longrightarrow> json_of_text J (json_to_text J v) = Some v)
     \<and> (\<forall>v. json_to_text J v \<noteq> [] \<and> last (json_to_text J v) \<noteq> CHR 0x00)"

lemma serde_roundtrip: "serde_rule J \<Longrightarrow> json_wf v \<Longrightarrow> json_of_text J (json_to_text J v) = Some v"
  by (simp add: serde_rule_def)

lemma serde_text: "serde_rule J \<Longrightarrow> json_to_text J v \<noteq> []"
  "serde_rule J \<Longrightarrow> last (json_to_text J v) \<noteq> CHR 0x00"
  by (simp_all add: serde_rule_def)

text \<open>
  A printer and a parser that satisfy the rule, for the witnesses: a prefix code, in which a string
  comes after its length in unary, and a final dot.
\<close>

definition code_nat :: "nat \<Rightarrow> string" where
  "code_nat n = replicate n CHR ''x'' @ '':''"

definition code_str :: "string \<Rightarrow> string" where
  "code_str s = code_nat (length s) @ s"

fun code_json :: "json \<Rightarrow> string" where
  "code_json JNull = ''n''"
| "code_json (JBool b) = (if b then ''t'' else ''f'')"
| "code_json (JNumber (PosInt n)) = ''p'' @ code_nat n"
| "code_json (JNumber (NegInt i)) = (if i < 0 then ''-'' else ''+'') @ code_nat (nat \<bar>i\<bar>)"
| "code_json (JNumber (Float s)) = ''d'' @ code_str s"
| "code_json (JString s) = ''s'' @ code_str s"
| "code_json (JArray vs) = ''['' @ concat (map code_json vs) @ '']''"
| "code_json (JObject m) =
     ''{'' @ concat (map (\<lambda>kv. ''k'' @ code_str (fst kv) @ code_json (snd kv)) m) @ ''}''"

definition decode_nat :: "string \<Rightarrow> nat \<times> string" where
  "decode_nat s = (let n = length (takeWhile (\<lambda>c. c = CHR ''x'') s) in (n, drop (Suc n) s))"

definition decode_str :: "string \<Rightarrow> string \<times> string" where
  "decode_str s = (case decode_nat s of (n, r) \<Rightarrow> (take n r, drop n r))"

fun decode_json :: "nat \<Rightarrow> string \<Rightarrow> (json \<times> string) option"
  and decode_array :: "nat \<Rightarrow> string \<Rightarrow> (json list \<times> string) option"
  and decode_object :: "nat \<Rightarrow> string \<Rightarrow> (jmap \<times> string) option" where
  "decode_json (Suc n) (c # s) =
     (if c = CHR ''n'' then Some (JNull, s)
      else if c = CHR ''t'' then Some (JBool True, s)
      else if c = CHR ''f'' then Some (JBool False, s)
      else if c = CHR ''p'' then Some (case decode_nat s of (k, r) \<Rightarrow> (JNumber (PosInt k), r))
      else if c = CHR ''-'' then Some (case decode_nat s of (k, r) \<Rightarrow> (JNumber (NegInt (- int k)), r))
      else if c = CHR ''+'' then Some (case decode_nat s of (k, r) \<Rightarrow> (JNumber (NegInt (int k)), r))
      else if c = CHR ''d'' then Some (case decode_str s of (t, r) \<Rightarrow> (JNumber (Float t), r))
      else if c = CHR ''s'' then Some (case decode_str s of (t, r) \<Rightarrow> (JString t, r))
      else if c = CHR ''['' then map_option (\<lambda>(vs, r). (JArray vs, r)) (decode_array n s)
      else if c = CHR ''{'' then
        map_option (\<lambda>(m, r). (JObject (bt_extend [] m), r)) (decode_object n s)
      else None)"
| "decode_json _ _ = None"
| "decode_array (Suc n) (c # s) =
     (if c = CHR '']'' then Some ([], s)
      else case decode_json n (c # s) of
             None \<Rightarrow> None
           | Some (v, r) \<Rightarrow> map_option (\<lambda>(vs, r'). (v # vs, r')) (decode_array n r))"
| "decode_array _ _ = None"
| "decode_object (Suc n) (c # s) =
     (if c = CHR ''}'' then Some ([], s)
      else if c = CHR ''k'' then
        (case decode_str s of (k, r) \<Rightarrow>
           case decode_json n r of
             None \<Rightarrow> None
           | Some (v, r') \<Rightarrow> map_option (\<lambda>(m, r''). ((k, v) # m, r'')) (decode_object n r'))
      else None)"
| "decode_object _ _ = None"

definition code_serde :: serde where
  "code_serde =
     \<lparr>json_to_text = (\<lambda>v. code_json v @ ''.''),
      json_of_text = (\<lambda>s. case decode_json (length s) s of
         None \<Rightarrow> None | Some (v, r) \<Rightarrow> if r = ''.'' then Some v else None)\<rparr>"

lemma decode_code_nat [simp]: "decode_nat (code_nat n @ r) = (n, r)"
proof -
  have "takeWhile (\<lambda>c. c = CHR ''x'') (replicate n CHR ''x'' @ CHR '':'' # r) = replicate n CHR ''x''"
    by (induction n) simp_all
  then show ?thesis by (simp add: decode_nat_def code_nat_def Let_def)
qed

lemma decode_code_str [simp]: "decode_str (code_str s @ r) = (s, r)"
  by (simp add: decode_str_def code_str_def)

lemma code_json_nonempty: "code_json v \<noteq> []" "hd (code_json v) \<noteq> CHR '']''" "0 < length (code_json v)"
  by (cases v rule: code_json.cases; simp)+

lemma decode_array_items:
  assumes "\<And>v n r. v \<in> set vs \<Longrightarrow> length (code_json v) \<le> n \<Longrightarrow> decode_json n (code_json v @ r) = Some (v, r)"
  shows "length (concat (map code_json vs)) < n
    \<Longrightarrow> decode_array n (concat (map code_json vs) @ CHR '']'' # r) = Some (vs, r)"
  using assms
proof (induction vs arbitrary: n)
  case Nil
  then show ?case by (cases n) simp_all
next
  case (Cons v vs)
  then obtain m where n: "n = Suc m" by (cases n) auto
  obtain c s where v: "code_json v = c # s" "c \<noteq> CHR '']''"
    using code_json_nonempty [of v] by (cases "code_json v") auto
  have "decode_json m (code_json v @ concat (map code_json vs) @ CHR '']'' # r)
      = Some (v, concat (map code_json vs) @ CHR '']'' # r)"
    using Cons.prems n by simp
  moreover have "decode_array m (concat (map code_json vs) @ CHR '']'' # r) = Some (vs, r)"
    using Cons.prems n v by (intro Cons.IH) auto
  ultimately show ?case using v n by simp
qed

lemma decode_object_items:
  assumes "\<And>kv n r. kv \<in> set m \<Longrightarrow> length (code_json (snd kv)) \<le> n
      \<Longrightarrow> decode_json n (code_json (snd kv) @ r) = Some (snd kv, r)"
  shows "length (concat (map (\<lambda>kv. ''k'' @ code_str (fst kv) @ code_json (snd kv)) m)) < n
    \<Longrightarrow> decode_object n (concat (map (\<lambda>kv. ''k'' @ code_str (fst kv) @ code_json (snd kv)) m)
          @ CHR ''}'' # r) = Some (m, r)"
  using assms
proof (induction m arbitrary: n)
  case Nil
  then show ?case by (cases n) simp_all
next
  case (Cons kv m)
  then obtain j where n: "n = Suc j" by (cases n) auto
  let ?rest = "concat (map (\<lambda>kv. ''k'' @ code_str (fst kv) @ code_json (snd kv)) m) @ CHR ''}'' # r"
  have "decode_json j (code_json (snd kv) @ ?rest) = Some (snd kv, ?rest)"
    using Cons.prems n by simp
  moreover have "decode_object j ?rest = Some (m, r)"
    using Cons.prems n by (intro Cons.IH) auto
  ultimately show ?case using n by (cases kv) simp
qed

lemma bt_extend_Nil: "bt_wf m \<Longrightarrow> bt_extend [] m = m"
  by (rule bt_eqI) (auto simp: bt_wf_map_of_rev fun_eq_iff split: option.split)

lemma decode_code_json:
  "json_wf v \<Longrightarrow> length (code_json v) \<le> n \<Longrightarrow> decode_json n (code_json v @ r) = Some (v, r)"
proof (induction v arbitrary: n r rule: code_json.induct)
  case (7 vs)
  then obtain m where "n = Suc m" by (cases n) auto
  with 7 decode_array_items [of vs m r] show ?case by simp
next
  case (8 m)
  then obtain j where "n = Suc j" by (cases n) auto
  with 8 decode_object_items [of m j r] show ?case by (simp add: bt_extend_Nil)
qed (auto simp: Suc_le_eq less_iff_Suc_add)

lemma decode_wf:
  "decode_json n s = Some (v, r) \<Longrightarrow> json_wf v"
  "decode_array n s = Some (vs, r) \<Longrightarrow> \<forall>v \<in> set vs. json_wf v"
  "decode_object n s = Some (m, r) \<Longrightarrow> \<forall>kv \<in> set m. json_wf (snd kv)"
proof (induction n s and n s and n s arbitrary: v r and vs r and m r
    rule: decode_json_decode_array_decode_object.induct)
  case (1 n c s)
  then show ?case
    using jmap_wf_extend_values [of "[]"]
    by (auto simp: jmap_wf_def split: if_splits prod.splits)
qed (fastforce split: if_splits prod.splits option.splits)+

lemma code_serde_wf: "json_of_text code_serde s = Some v \<Longrightarrow> json_wf v"
  by (auto simp: code_serde_def dest: decode_wf split: option.splits if_splits)

lemma code_serde_rule [simp]: "serde_rule code_serde"
proof -
  have "json_of_text code_serde (json_to_text code_serde v) = Some v" if "json_wf v" for v
    using decode_code_json [OF that, of "Suc (length (code_json v))" "''.''"] by (simp add: code_serde_def)
  then show ?thesis by (simp add: serde_rule_def code_serde_def)
qed

end
