(* ===== verification/Entity.thy ===== *)
theory Entity
  imports Topic_Schema Json "HOL-Library.Monad_Syntax"
begin

text \<open>
  Entities and their messages: the metadata of an entity (\<^verbatim>\<open>tedge_api/src/entity.rs\<close>), the
  registration and twin messages with their MQTT encodings (\<^verbatim>\<open>EntityRegistrationMessage\<close> and
  \<^verbatim>\<open>EntityTwinMessage\<close> of \<^verbatim>\<open>entity_store.rs\<close>), and the registrations derived from a topic of the
  default schema (\<^verbatim>\<open>default_topic_schema\<close> of \<^verbatim>\<open>mqtt_topics.rs\<close>).
\<close>

section \<open>Entity metadata\<close>

datatype entity_type = MainDevice | ChildDevice | Service

fun entity_type_as_str :: "entity_type \<Rightarrow> string" where
  "entity_type_as_str MainDevice = ''device''"
| "entity_type_as_str ChildDevice = ''child-device''"
| "entity_type_as_str Service = ''service''"

datatype invalid_entity_type = InvalidEntityType string

definition entity_type_of_str :: "string \<Rightarrow> invalid_entity_type + entity_type" where
  "entity_type_of_str s =
     (if s = ''device'' then Inr MainDevice
      else if s = ''child-device'' then Inr ChildDevice
      else if s = ''service'' then Inr Service
      else Inl (InvalidEntityType s))"

record entity_metadata =
  em_topic_id :: entity_topic_id
  em_parent :: "entity_topic_id option"
  em_type :: entity_type
  em_external_id :: "string option"
  em_twin_data :: jmap

definition metadata_main_device :: entity_metadata where
  "metadata_main_device =
     \<lparr>em_topic_id = default_main_device, em_parent = None, em_type = MainDevice,
      em_external_id = None, em_twin_data = []\<rparr>"

definition metadata_child_device :: "rumqttc \<Rightarrow> string \<Rightarrow> topic_id_error + entity_metadata" where
  "metadata_child_device L child =
     (case default_child_device L child of
        Inl err \<Rightarrow> Inl err
      | Inr tid \<Rightarrow> Inr
          \<lparr>em_topic_id = tid, em_parent = Some default_main_device, em_type = ChildDevice,
           em_external_id = Some child, em_twin_data = []\<rparr>)"

definition display_name :: "entity_metadata \<Rightarrow> string option" where
  "display_name e = bt_get (em_twin_data e) ''name'' \<bind> as_str"

definition display_type :: "entity_metadata \<Rightarrow> string option" where
  "display_type e = bt_get (em_twin_data e) ''type'' \<bind> as_str"

datatype insert_outcome = Unchanged | Updated | Inserted

section \<open>Registration messages\<close>

record registration =
  reg_topic_id :: entity_topic_id
  reg_external_id :: "string option"
  reg_type :: entity_type
  reg_parent :: "entity_topic_id option"
  reg_twin_data :: jmap

text \<open>The prefix the parser of registration messages expects, whatever the schema.\<close>

abbreviation MQTT_ROOT :: string where "MQTT_ROOT \<equiv> ''te''"

definition parse_entity_register_payload :: "serde \<Rightarrow> string \<Rightarrow> json option" where
  "parse_entity_register_payload J bytes = do {
     payload \<leftarrow> json_of_text J bytes;
     if json_get payload ''@type'' \<noteq> None then Some payload else None }"

definition ok :: "'e + 'a \<Rightarrow> 'a option" where
  "ok r = (case r of Inl _ \<Rightarrow> None | Inr x \<Rightarrow> Some x)"

definition registration_of_message :: "rumqttc \<Rightarrow> serde \<Rightarrow> mqtt_message \<Rightarrow> registration option" where
  "registration_of_message L J m = do {
     tid \<leftarrow> strip_prefix MQTT_ROOT (topic_name (mm_topic m)) \<bind> strip_prefix ''/'';
     payload \<leftarrow> parse_entity_register_payload J (payload_bytes m);
     props \<leftarrow> as_object payload;
     type_name \<leftarrow> bt_get props ''@type'' \<bind> as_str;
     rtype \<leftarrow>
       (if type_name = ''device'' then Some MainDevice
        else if type_name = ''child-device'' then Some ChildDevice
        else if type_name = ''service'' then Some Service
        else None);
     parent \<leftarrow>
       (case bt_get (bt_remove ''@type'' props) ''@parent'' of
          None \<Rightarrow> Some None
        | Some v \<Rightarrow> do { s \<leftarrow> as_str v; p \<leftarrow> ok (entity_id_of_str L s); Some (Some p) });
     eid \<leftarrow>
       (case bt_get (bt_remove ''@parent'' (bt_remove ''@type'' props)) ''@id'' of
          None \<Rightarrow> Some None
        | Some v \<Rightarrow> do { s \<leftarrow> as_str v; Some (Some s) });
     topic_id \<leftarrow> ok (entity_id_of_str L tid);
     Some \<lparr>reg_topic_id = topic_id, reg_external_id = eid, reg_type = rtype,
           reg_parent = (if rtype = ChildDevice \<or> rtype = Service then parent else None),
           reg_twin_data = bt_remove ''@id'' (bt_remove ''@parent'' (bt_remove ''@type'' props))\<rparr> }"

definition registration_new_custom :: "entity_topic_id \<Rightarrow> entity_type \<Rightarrow> registration" where
  "registration_new_custom tid ty =
     \<lparr>reg_topic_id = tid, reg_external_id = None, reg_type = ty, reg_parent = None,
      reg_twin_data = []\<rparr>"

definition with_parent :: "entity_topic_id \<Rightarrow> registration \<Rightarrow> registration" where
  "with_parent p r = r\<lparr>reg_parent := Some p\<rparr>"

definition with_external_id :: "string \<Rightarrow> registration \<Rightarrow> registration" where
  "with_external_id i r = r\<lparr>reg_external_id := Some i\<rparr>"

definition with_other_fragment :: "string \<Rightarrow> json \<Rightarrow> registration \<Rightarrow> registration" where
  "with_other_fragment k v r = r\<lparr>reg_twin_data := bt_insert k v (reg_twin_data r)\<rparr>"

definition registration_main_device :: "string option \<Rightarrow> registration" where
  "registration_main_device i =
     \<lparr>reg_topic_id = default_main_device, reg_external_id = i, reg_type = MainDevice,
      reg_parent = None, reg_twin_data = []\<rparr>"

definition registration_props :: "registration \<Rightarrow> jmap" where
  "registration_props r =
     (let props = bt_insert ''@type'' (JString (entity_type_as_str (reg_type r))) [];
          props = (case reg_external_id r of
                     None \<Rightarrow> props | Some i \<Rightarrow> bt_insert ''@id'' (JString i) props);
          props = (case reg_parent r of
                     None \<Rightarrow> props | Some p \<Rightarrow> bt_insert ''@parent'' (JString p) props)
      in bt_extend props (reg_twin_data r))"

definition registration_to_message ::
  "rumqttc \<Rightarrow> serde \<Rightarrow> mqtt_schema \<Rightarrow> registration \<Rightarrow> mqtt_message panics" where
  "registration_to_message L J S r = do {
     t \<leftarrow> topic_for L S (reg_topic_id r) EntityMetadata;
     Some (with_retain (message_new t (json_to_text J (JObject (registration_props r))))) }"

section \<open>Twin messages\<close>

record twin_message =
  tw_topic_id :: entity_topic_id
  tw_key :: string
  tw_value :: json

definition twin_message_new :: "entity_topic_id \<Rightarrow> string \<Rightarrow> json \<Rightarrow> twin_message" where
  "twin_message_new tid k v = \<lparr>tw_topic_id = tid, tw_key = k, tw_value = v\<rparr>"

definition twin_to_message ::
  "rumqttc \<Rightarrow> serde \<Rightarrow> mqtt_schema \<Rightarrow> twin_message \<Rightarrow> mqtt_message panics" where
  "twin_to_message L J S w = do {
     t \<leftarrow> topic_for L S (tw_topic_id w) (EntityTwinData (tw_key w));
     Some (with_retain (message_new t (json_to_text J (tw_value w)))) }"

section \<open>The default topic schema\<close>

text \<open>
  \<^verbatim>\<open>default_topic_schema::parse\<close>.  The recursive call of the source is on \<^verbatim>\<open>device/{device}//\<close>,
  which is not a service: \<open>default_device_registrations\<close> holds the two device cases and
  \<open>default_schema_parse_service\<close> (below) is the recursive equation of the source.
\<close>

definition default_device_registrations :: "entity_topic_id \<Rightarrow> registration list panics" where
  "default_device_registrations tid = do {
     segs \<leftarrow> segments tid;
     (case segs of (a, b, c, d) \<Rightarrow>
        if a = ''device'' \<and> b = ''main'' \<and> c = '''' \<and> d = '''' then
          Some [\<lparr>reg_topic_id = tid, reg_external_id = None, reg_type = MainDevice,
                 reg_parent = None, reg_twin_data = []\<rparr>]
        else if a = ''device'' \<and> c = '''' \<and> d = '''' \<and> b \<noteq> '''' then
          Some [\<lparr>reg_topic_id = tid, reg_external_id = None, reg_type = ChildDevice,
                 reg_parent = Some default_main_device, reg_twin_data = [(''name'', JString b)]\<rparr>]
        else Some []) }"

definition default_schema_parse :: "rumqttc \<Rightarrow> entity_topic_id \<Rightarrow> registration list panics" where
  "default_schema_parse L tid = do {
     segs \<leftarrow> segments tid;
     (case segs of (a, b, c, d) \<Rightarrow>
        if a = ''device'' \<and> c = ''service'' \<and> b \<noteq> '''' \<and> d \<noteq> '''' then do {
          device_topic_id \<leftarrow> ok (default_child_device L b);
          registrations \<leftarrow> default_device_registrations device_topic_id;
          Some (registrations @
            [\<lparr>reg_topic_id = tid, reg_external_id = None, reg_type = Service,
              reg_parent = Some device_topic_id, reg_twin_data = [(''name'', JString d)]\<rparr>]) }
        else default_device_registrations tid) }"

definition matches_default_topic_scheme :: "rumqttc \<Rightarrow> entity_topic_id \<Rightarrow> bool panics" where
  "matches_default_topic_scheme L tid = map_option (\<lambda>rs. rs \<noteq> []) (default_schema_parse L tid)"

section \<open>Messages are read back\<close>

lemma entity_type_roundtrip [simp]: "entity_type_of_str (entity_type_as_str t) = Inr t"
  by (cases t) (auto simp: entity_type_of_str_def)

definition reserved_free :: "jmap \<Rightarrow> bool" where
  "reserved_free m \<longleftrightarrow>
     bt_get m ''@type'' = None \<and> bt_get m ''@id'' = None \<and> bt_get m ''@parent'' = None"

text \<open>
  What the type of a registration guarantees, whatever its identifiers are: those of a request over HTTP are
  not validated (the deserialisation of \<^verbatim>\<open>EntityTopicId\<close> is transparent).
\<close>

definition typed_registration :: "registration \<Rightarrow> bool" where
  "typed_registration r \<longleftrightarrow> jmap_wf (reg_twin_data r)"

text \<open>What the parser of registration messages guarantees in addition.\<close>

definition wf_registration :: "registration \<Rightarrow> bool" where
  "wf_registration r \<longleftrightarrow>
     wf_entity_id (reg_topic_id r)
     \<and> (\<forall>p. reg_parent r = Some p \<longrightarrow> wf_entity_id p \<and> reg_type r \<noteq> MainDevice)
     \<and> jmap_wf (reg_twin_data r) \<and> reserved_free (reg_twin_data r)"

lemma wf_typed [simp]: "wf_registration r \<Longrightarrow> typed_registration r"
  by (simp add: wf_registration_def typed_registration_def)

lemma registration_props_get:
  assumes "wf_registration r"
  shows "bt_get (registration_props r) ''@type'' = Some (JString (entity_type_as_str (reg_type r)))"
    "bt_get (registration_props r) ''@id'' = map_option JString (reg_external_id r)"
    "bt_get (registration_props r) ''@parent'' = map_option JString (reg_parent r)"
    "k \<notin> {''@type'', ''@id'', ''@parent''} \<Longrightarrow>
       bt_get (registration_props r) k = bt_get (reg_twin_data r) k"
  using assms
  by (auto simp: registration_props_def wf_registration_def reserved_free_def bt_wf_map_of_rev
      jmap_wf_bt Let_def split: option.splits)

lemma registration_props_wf:
  assumes "wf_registration r" shows "jmap_wf (registration_props r)"
proof -
  have "jmap_wf (reg_twin_data r)" using assms by (simp add: wf_registration_def)
  then show ?thesis
    unfolding registration_props_def Let_def
    by (intro jmap_wf_extend) (auto simp: jmap_wf_def split: option.split)
qed

lemma registration_props_twin:
  assumes "wf_registration r"
  shows "bt_remove ''@id'' (bt_remove ''@parent'' (bt_remove ''@type'' (registration_props r)))
    = reg_twin_data r"
proof (rule bt_eqI)
  show "bt_wf (reg_twin_data r)" using assms by (auto simp: wf_registration_def)
  show "bt_wf (bt_remove ''@id'' (bt_remove ''@parent'' (bt_remove ''@type'' (registration_props r))))"
    using registration_props_wf [OF assms] by (auto dest: jmap_wf_bt)
  show "bt_get (bt_remove ''@id'' (bt_remove ''@parent'' (bt_remove ''@type'' (registration_props r))))
      = bt_get (reg_twin_data r)"
    using assms registration_props_get(4) [OF assms]
    by (auto simp: fun_eq_iff wf_registration_def reserved_free_def)
qed

lemma registration_to_message_Some:
  assumes "topic_rule L" "wf_root (root S)" "wf_registration r"
  shows "\<exists>t. topic_name t = root S @ ''/'' @ reg_topic_id r
    \<and> registration_to_message L J S r
      = Some (with_retain (message_new t (json_to_text J (JObject (registration_props r)))))"
proof -
  have "no_wildcard (topic_text S (reg_topic_id r) EntityMetadata)"
    using assms by (simp add: topic_text_def wf_root_def wf_registration_def wf_entity_id_def)
  then have "\<exists>t. topic_for L S (reg_topic_id r) EntityMetadata = Some t"
    using topic_for_None_iff [OF assms(1)] by (metis not_None_eq)
  then show ?thesis
    using topic_for_Some_iff [OF assms(1)]
    by (fastforce simp: registration_to_message_def topic_text_def)
qed

lemma registration_roundtrip:
  assumes "topic_rule L" "serde_rule J" "root S = MQTT_ROOT" "wf_registration r"
    and "registration_to_message L J S r = Some m"
  shows "registration_of_message L J m = Some r"
proof -
  have "wf_root (root S)" using assms(3) by (simp add: wf_root_def)
  from registration_to_message_Some [OF assms(1) this assms(4), of J] obtain t where
    t: "topic_name t = ''te/'' @ reg_topic_id r"
    and m: "m = with_retain (message_new t (json_to_text J (JObject (registration_props r))))"
    using assms(3,5) by auto
  have bytes: "payload_bytes m = json_to_text J (JObject (registration_props r))"
    using serde_text [OF assms(2)] by (intro payload_bytes_text) (auto simp: m)
  have payload: "parse_entity_register_payload J (payload_bytes m)
      = Some (JObject (registration_props r))"
    using registration_props_wf [OF assms(4)] serde_roundtrip [OF assms(2)]
    by (simp add: parse_entity_register_payload_def bytes json_get_def jmap_wf_def
        registration_props_get [OF assms(4)])
  have ids: "entity_id_of_str L (reg_topic_id r) = Inr (reg_topic_id r)"
    "reg_parent r = Some p \<Longrightarrow> entity_id_of_str L p = Inr p" for p
    using assms(1,4) entity_id_of_str_wf by (auto simp: wf_registration_def)
  have main: "reg_type r = MainDevice \<Longrightarrow> reg_parent r = None"
    using assms(4) by (cases "reg_parent r") (auto simp: wf_registration_def)
  show ?thesis
    unfolding registration_of_message_def
    by (cases "reg_type r"; cases "reg_parent r"; cases "reg_external_id r")
      (simp_all add: m t payload [unfolded m] registration_props_get [OF assms(4)] ids main ok_def
        registration_props_twin [OF assms(4)])
qed

text \<open>
  A well-formed registration survives its MQTT encoding: encoding it does not panic, and the
  message is parsed back to the same registration, under the root prefix \<^verbatim>\<open>te\<close>.
\<close>

lemma registration_message_roundtrip:
  assumes "topic_rule L" "serde_rule J" "root S = MQTT_ROOT" "wf_registration r"
  shows "\<exists>m. registration_to_message L J S r = Some m \<and> registration_of_message L J m = Some r
    \<and> mm_retain m"
proof -
  have "wf_root (root S)" using assms(3) by (simp add: wf_root_def)
  from registration_to_message_Some [OF assms(1) this assms(4), of J] obtain m where
    "registration_to_message L J S r = Some m" "mm_retain m" by auto
  with registration_roundtrip [OF assms] show ?thesis by blast
qed

definition example_registration :: registration where
  "example_registration =
     \<lparr>reg_topic_id = ''device/child1//'', reg_external_id = Some ''c1'', reg_type = ChildDevice,
      reg_parent = Some ''device/main//'', reg_twin_data = [(''name'', JString ''child1'')]\<rparr>"

lemma example_registration_wf [simp]: "wf_registration example_registration"
  by (simp add: wf_registration_def example_registration_def wf_entity_id_def reserved_free_def
      jmap_wf_def)

lemma registration_message_roundtrip_instance:
  "\<exists>m. registration_to_message wildcard_free_mqtt code_serde schema_new example_registration = Some m
     \<and> registration_of_message wildcard_free_mqtt code_serde m = Some example_registration
     \<and> mm_retain m"
  by (rule registration_message_roundtrip) (simp_all add: schema_new_def with_root_def)

text \<open>The parser of registrations yields well-formed ones, when parsed values are well-formed.\<close>

definition parses_wf :: "serde \<Rightarrow> bool" where
  "parses_wf J \<longleftrightarrow> (\<forall>s v. json_of_text J s = Some v \<longrightarrow> json_wf v)"

lemma register_payload_wf:
  "parses_wf J \<Longrightarrow> parse_entity_register_payload J b = Some v \<Longrightarrow> as_object v = Some m \<Longrightarrow> jmap_wf m"
  by (cases v) (auto simp: parses_wf_def parse_entity_register_payload_def jmap_wf_def
      simp del: json_wf.simps split: bind_splits if_splits)

lemma registration_of_message_wf:
  assumes "topic_rule L" "parses_wf J" "registration_of_message L J m = Some r"
  shows "wf_registration r"
  using assms(3)
  by (auto simp: registration_of_message_def wf_registration_def reserved_free_def ok_def
      intro!: jmap_wf_remove dest: wf_entity_id_of_str [OF assms(1)]
      intro: register_payload_wf [OF assms(2)]
      split: bind_splits option.splits if_splits sum.splits)

section \<open>Registrations of the default schema\<close>

lemma default_schema_parse_service:
  assumes "segments tid = Some (a, b, c, d)" "a = ''device''" "c = ''service''" "b \<noteq> []" "d \<noteq> []"
    and "default_child_device L b = Inr dev" "segments dev = Some (''device'', b, [], [])"
  shows "default_schema_parse L tid = do {
      registrations \<leftarrow> default_schema_parse L dev;
      Some (registrations @
        [\<lparr>reg_topic_id = tid, reg_external_id = None, reg_type = Service,
          reg_parent = Some dev, reg_twin_data = [(''name'', JString d)]\<rparr>]) }"
  using assms by (simp add: default_schema_parse_def ok_def)

lemma default_child_device_wf:
  assumes "topic_rule L" "slash \<notin> set b" "no_wildcard b"
  shows "default_child_device L b = Inr (''device/'' @ b @ ''//'')"
    "wf_entity_id (''device/'' @ b @ ''//'')"
    "segments (''device/'' @ b @ ''//'') = Some (''device'', b, [], [])"
proof -
  show wf: "wf_entity_id (''device/'' @ b @ ''//'')"
    using assms(2,3) by (simp add: wf_entity_id_def count_notin)
  show "default_child_device L b = Inr (''device/'' @ b @ ''//'')"
    using entity_id_of_str_wf [OF assms(1) wf] by (simp add: default_child_device_def)
  show "segments (''device/'' @ b @ ''//'') = Some (''device'', b, [], [])"
    using assms(2) by (simp add: segments_def)
qed

text \<open>
  The parents of a list of registrations are known or come earlier in the list.
\<close>

fun parents_first :: "entity_topic_id set \<Rightarrow> registration list \<Rightarrow> bool" where
  "parents_first known [] = True"
| "parents_first known (r # rs) =
     ((\<forall>p. reg_parent r = Some p \<longrightarrow> p \<in> known) \<and> parents_first (insert (reg_topic_id r) known) rs)"

lemma parents_first_known:
  "parents_first known rs \<Longrightarrow> r \<in> set rs \<Longrightarrow> reg_parent r = Some p \<Longrightarrow> p \<in> known \<union> reg_topic_id ` set rs"
  by (induction known rs rule: parents_first.induct) auto

lemma default_schema_parse_total:
  assumes "topic_rule L" "wf_entity_id tid"
  shows "\<exists>rs. default_schema_parse L tid = Some rs
    \<and> (rs = [] \<or> reg_topic_id (last rs) = tid)
    \<and> list_all wf_registration rs \<and> length rs \<le> 2
    \<and> parents_first {default_main_device} rs"
proof -
  obtain a b c d where sp: "split_on slash tid = [a, b, c, d]"
    and tid: "tid = a @ ''/'' @ b @ ''/'' @ c @ ''/'' @ d"
    and ns: "slash \<notin> set a" "slash \<notin> set b" "slash \<notin> set c" "slash \<notin> set d"
    using assms(2) by (rule wf_entity_id_split)
  have nw: "no_wildcard b" using assms(2) tid by (simp add: wf_entity_id_def)
  note dev = default_child_device_wf [OF assms(1) ns(2) nw]
  have segs: "segments tid = Some (a, b, c, d)" by (simp add: segments_def sp)
  have main: "wf_entity_id default_main_device"
    by (simp add: wf_entity_id_def default_main_device_def)
  show ?thesis
    using assms(2) main dev ns nw
    by (auto simp: default_schema_parse_def default_device_registrations_def segs ok_def
        wf_registration_def reserved_free_def jmap_wf_def default_main_device_def)
qed

text \<open>
  The registrations derived from a well-formed topic identifier of the default schema: no
  panic; nothing for an identifier outside the schema; otherwise well-formed registrations of
  which the last one is the entity itself, each parent being the main device or earlier in the
  list.
\<close>

lemma default_schema_parse_spec:
  assumes "topic_rule L" "wf_entity_id tid"
  shows "\<exists>rs. default_schema_parse L tid = Some rs
    \<and> (rs = [] \<or> reg_topic_id (last rs) = tid)
    \<and> list_all wf_registration rs \<and> length rs \<le> 2
    \<and> parents_first {default_main_device} rs"
  by (rule default_schema_parse_total [OF assms])

lemma default_schema_parse_spec_instance:
  "\<exists>rs. default_schema_parse wildcard_free_mqtt ''device/child1/service/app'' = Some rs
    \<and> map reg_topic_id rs = [''device/child1//'', ''device/child1/service/app'']
    \<and> parents_first {default_main_device} rs"
proof -
  have wf: "wf_entity_id ''device/child1/service/app''" by (simp add: wf_entity_id_def)
  have "map_option (map reg_topic_id)
      (default_schema_parse wildcard_free_mqtt ''device/child1/service/app'')
      = Some [''device/child1//'', ''device/child1/service/app'']"
    by code_simp
  with default_schema_parse_spec [OF wildcard_free_mqtt_rule wf] show ?thesis by auto
qed

end
