(* ===== verification/Ring_Buffer.thy ===== *)
theory Ring_Buffer
  imports Prelude
begin

text \<open>
  The bounded telemetry buffer (\<^verbatim>\<open>tedge_api/src/store/ring_buffer.rs\<close>).  The buffer is a
  \<^verbatim>\<open>VecDeque\<close> of the standard library with a size; the deque is its items and its allocated
  capacity, since \<^verbatim>\<open>RingBuffer::capacity\<close> returns the latter.  A new deque has capacity 0 and a
  push onto a full one at least doubles it.

  \<open>lossy_buffer\<close> is the contract the pending entity store relies on: a fresh buffer keeps what is
  pushed while there is room, then drops the oldest items.
\<close>

record 'a ring_buffer =
  buffer :: "'a list"
  allocated :: nat
  ring_size :: nat

definition vecdeque_grow :: "nat \<Rightarrow> nat" where
  "vecdeque_grow c = max 4 (2 * c)"

definition ring_new :: "nat \<Rightarrow> 'a ring_buffer" where
  "ring_new n = \<lparr>buffer = [], allocated = 0, ring_size = n\<rparr>"

definition ring_push :: "'a \<Rightarrow> 'a ring_buffer \<Rightarrow> 'a ring_buffer" where
  "ring_push x b =
     (let buf = (if length (buffer b) = ring_size b then drop 1 (buffer b) else buffer b) in
      b\<lparr>buffer := buf @ [x],
        allocated := (if length buf = allocated b then vecdeque_grow (allocated b)
                      else allocated b)\<rparr>)"

definition ring_capacity :: "'a ring_buffer \<Rightarrow> nat" where
  "ring_capacity b = allocated b"

definition ring_into_iter :: "'a ring_buffer \<Rightarrow> 'a list" where
  "ring_into_iter b = buffer b"

section \<open>The contract of a buffer that drops its oldest items\<close>

locale lossy_buffer =
  fixes new :: "nat \<Rightarrow> 'b"
    and push :: "'a \<Rightarrow> 'b \<Rightarrow> 'b"
    and items :: "'b \<Rightarrow> 'a list"
    and limit :: "'b \<Rightarrow> nat"
  assumes items_new: "items (new n) = []"
    and limit_new: "limit (new n) = n"
    and limit_push: "limit (push x b) = limit b"
    and items_push: "length (items b) < limit b \<Longrightarrow> items (push x b) = items b @ [x]"
    and items_push_full:
      "length (items b) = limit b \<Longrightarrow> 0 < limit b \<Longrightarrow> items (push x b) = tl (items b) @ [x]"
begin

lemma push_all:
  "length (items b) + length xs \<le> limit b \<Longrightarrow> items (fold push xs b) = items b @ xs"
  by (induction xs arbitrary: b) (auto simp: items_push limit_push)

lemma push_drop:
  assumes "0 < limit b" "length (items b) \<le> limit b"
  shows "items (push x b) = drop (Suc (length (items b)) - limit b) (items b @ [x])"
proof (cases "length (items b) = limit b")
  case True
  with assms show ?thesis
    by (cases "items b") (simp_all add: items_push_full drop_Cons')
next
  case False
  with assms show ?thesis by (simp add: items_push)
qed

lemma items_bound:
  assumes "0 < limit b" "length (items b) \<le> limit b"
  shows "length (items (fold push xs b)) \<le> limit b"
  using assms
proof (induction xs arbitrary: b)
  case (Cons x xs)
  have "length (items (push x b)) \<le> limit b"
    by (simp add: push_drop [OF Cons.prems])
  with Cons.prems Cons.IH [of "push x b"] show ?case by (simp add: limit_push)
qed simp

lemma items_last:
  assumes "0 < limit b" "length (items b) \<le> limit b"
  shows "items (fold push xs b)
    = drop (length (items b) + length xs - limit b) (items b @ xs)"
  using assms
proof (induction xs arbitrary: b)
  case (Cons x xs)
  let ?d = "Suc (length (items b)) - limit b"
  have px: "items (push x b) = drop ?d (items b @ [x])" by (rule push_drop [OF Cons.prems])
  have "items (fold push xs (push x b))
      = drop (length (items (push x b)) + length xs - limit b) (items (push x b) @ xs)"
    using Cons.prems Cons.IH [of "push x b"] by (simp add: limit_push px)
  also have "items (push x b) @ xs = drop ?d (items b @ x # xs)"
    using Cons.prems by (simp add: px)
  finally show ?case
    using Cons.prems by (simp add: px) (rule arg_cong2 [where f = drop], auto)
qed simp

lemma items_of_new: "0 < n \<Longrightarrow> items (fold push xs (new n)) = drop (length xs - n) xs"
  using items_last [of "new n" xs] by (simp add: items_new limit_new)

end

interpretation ring: lossy_buffer ring_new ring_push ring_into_iter ring_size
  by unfold_locales
    (auto simp: ring_new_def ring_push_def ring_into_iter_def Let_def drop_Suc)

text \<open>The deque's own invariant: what it holds fits in what it has allocated.\<close>

definition ring_wf :: "'a ring_buffer \<Rightarrow> bool" where
  "ring_wf b \<longleftrightarrow> length (buffer b) \<le> allocated b"

lemma ring_wf_new [simp]: "ring_wf (ring_new n)"
  by (simp add: ring_wf_def ring_new_def)

lemma ring_wf_push [simp, inv_intros]: "ring_wf b \<Longrightarrow> ring_wf (ring_push x b)"
  by (auto simp: ring_wf_def ring_push_def vecdeque_grow_def Let_def)

lemma ring_wf_fold [simp]: "ring_wf b \<Longrightarrow> ring_wf (fold ring_push xs b)"
  by (induction xs arbitrary: b) auto

text \<open>
  A telemetry buffer created with a positive size holds, after any sequence of messages, exactly
  the most recent ones up to that size, in order.
\<close>

lemma ring_buffer_keeps_latest:
  assumes "0 < n"
  shows "ring_into_iter (fold ring_push xs (ring_new n)) = drop (length xs - n) xs
    \<and> length (ring_into_iter (fold ring_push xs (ring_new n))) \<le> n"
  using ring.items_of_new [OF assms, of xs] by simp

lemma ring_buffer_keeps_latest_instance:
  "ring_into_iter (fold ring_push [1, 2, 3, 4 :: nat] (ring_new 3)) = [2, 3, 4]"
  using ring_buffer_keeps_latest [of 3 "[1, 2, 3, 4 :: nat]"] by simp

text \<open>With size 0 the length of the buffer never equals the size again, so nothing is dropped.\<close>

lemma ring_zero_unbounded:
  "ring_size b = 0 \<Longrightarrow> ring_into_iter (fold ring_push xs b) = ring_into_iter b @ xs"
proof (induction xs arbitrary: b)
  case (Cons x xs)
  have "ring_size (ring_push x b) = 0" "ring_into_iter (ring_push x b) = ring_into_iter b @ [x]"
    using Cons.prems by (auto simp: ring_push_def ring_into_iter_def Let_def)
  with Cons.IH [of "ring_push x b"] show ?case by simp
qed simp

end
