(* ===== verification/Pending_Store.thy ===== *)
theory Pending_Store
  imports Entity Ring_Buffer
begin

text \<open>
  The store of entities that are known only by early messages
  (\<^verbatim>\<open>tedge_api/src/store/pending_entity_store.rs\<close>): data received before the registration of an
  entity, and registrations received before that of the parent.  The two \<^verbatim>\<open>unwrap\<close> calls of the
  source (on the parent of a cached registration, on the registration of a cached orphan) are
  panics of the model.
\<close>

record pending_cache =
  pc_reg :: "registration option"
  pc_metadata :: "mqtt_message list"

definition pending_cache_new :: pending_cache where
  "pending_cache_new = \<lparr>pc_reg = None, pc_metadata = []\<rparr>"

record registered_data =
  rd_reg :: registration
  rd_messages :: "mqtt_message list"

definition registered_of_reg :: "registration \<Rightarrow> registered_data" where
  "registered_of_reg r = \<lparr>rd_reg = r, rd_messages = []\<rparr>"

record pending_store =
  ps_schema :: mqtt_schema
  ps_orphans :: "(entity_topic_id, entity_topic_id list) hmap"
  ps_entities :: "(entity_topic_id, pending_cache) hmap"
  ps_telemetry :: "mqtt_message ring_buffer"

definition pending_new :: "mqtt_schema \<Rightarrow> nat \<Rightarrow> pending_store" where
  "pending_new S n =
     \<lparr>ps_schema = S, ps_orphans = [], ps_entities = [], ps_telemetry = ring_new n\<rparr>"

text \<open>
  The telemetry of one entity is taken out of the buffer; the rest goes back, in order, into a new
  buffer whose size is the capacity of the old one.
\<close>

definition is_from :: "rumqttc \<Rightarrow> mqtt_schema \<Rightarrow> entity_topic_id \<Rightarrow> mqtt_message \<Rightarrow> bool" where
  "is_from L S tid m =
     (case entity_channel_of L S (topic_name (mm_topic m)) of
        Inr (t, _) \<Rightarrow> t = tid
      | Inl _ \<Rightarrow> False)"

definition telemetry_step ::
  "rumqttc \<Rightarrow> mqtt_schema \<Rightarrow> entity_topic_id \<Rightarrow> mqtt_message
     \<Rightarrow> mqtt_message list \<times> mqtt_message ring_buffer
     \<Rightarrow> mqtt_message list \<times> mqtt_message ring_buffer" where
  "telemetry_step L S tid m = (\<lambda>(messages, cache).
     if is_from L S tid m then (messages @ [m], cache) else (messages, ring_push m cache))"

definition take_cached_telemetry_data ::
  "rumqttc \<Rightarrow> entity_topic_id \<Rightarrow> pending_store \<Rightarrow> mqtt_message list \<times> pending_store" where
  "take_cached_telemetry_data L tid ps =
     (let capacity = ring_capacity (ps_telemetry ps);
          (messages, cache) =
            fold (telemetry_step L (ps_schema ps) tid) (ring_into_iter (ps_telemetry ps))
              ([], ring_new capacity)
      in (messages, ps\<lparr>ps_telemetry := cache\<rparr>))"

definition take_cached_entity_data ::
  "rumqttc \<Rightarrow> registration \<Rightarrow> pending_store \<Rightarrow> registered_data \<times> pending_store" where
  "take_cached_entity_data L r ps =
     (case hm_get (ps_entities ps) (reg_topic_id r) of
        None \<Rightarrow> (\<lparr>rd_reg = r, rd_messages = []\<rparr>, ps)
      | Some pending \<Rightarrow>
          let ps' = ps\<lparr>ps_entities := hm_remove (reg_topic_id r) (ps_entities ps)\<rparr>;
              (telemetry, ps'') = take_cached_telemetry_data L (reg_topic_id r) ps'
          in (\<lparr>rd_reg = r, rd_messages = pc_metadata pending @ telemetry\<rparr>, ps''))"

definition registered_data_from_cache ::
  "rumqttc \<Rightarrow> pending_cache \<Rightarrow> pending_store \<Rightarrow> (registered_data \<times> pending_store) panics" where
  "registered_data_from_cache L pc ps = do {
     r \<leftarrow> pc_reg pc;
     let (telemetry, ps') = take_cached_telemetry_data L (reg_topic_id r) ps;
     Some (\<lparr>rd_reg = r, rd_messages = pc_metadata pc @ telemetry\<rparr>, ps') }"

text \<open>The orphans waiting for an entity, taken out of the store.\<close>

definition take_orphans :: "entity_topic_id \<Rightarrow> pending_store \<Rightarrow> entity_topic_id list \<times> pending_store" where
  "take_orphans tid ps =
     (case hm_get (ps_orphans ps) tid of
        None \<Rightarrow> ([], ps)
      | Some children \<Rightarrow> (children, ps\<lparr>ps_orphans := hm_remove tid (ps_orphans ps)\<rparr>))"

text \<open>
  \<^verbatim>\<open>take_cached_child_entities_data\<close>: the depth-first walk of the source, with the children still
  to visit as an explicit list.  \<open>take_children_rec\<close> (below) shows that the walk satisfies the
  recursive equation of the source.
\<close>

lemma take_telemetry_entities [simp]:
  "ps_entities (snd (take_cached_telemetry_data L tid ps)) = ps_entities ps"
  "ps_orphans (snd (take_cached_telemetry_data L tid ps)) = ps_orphans ps"
  "ps_schema (snd (take_cached_telemetry_data L tid ps)) = ps_schema ps"
  by (simp_all add: take_cached_telemetry_data_def Let_def split: prod.split)

lemma take_telemetryD:
  "take_cached_telemetry_data L tid ps = (ms, ps') \<Longrightarrow>
     ps_entities ps' = ps_entities ps \<and> ps_orphans ps' = ps_orphans ps \<and> ps_schema ps' = ps_schema ps"
  by (metis snd_conv take_telemetry_entities)

lemma registered_data_entities:
  "registered_data_from_cache L pc ps = Some (d, ps') \<Longrightarrow>
     ps_entities ps' = ps_entities ps \<and> ps_orphans ps' = ps_orphans ps \<and> ps_schema ps' = ps_schema ps
     \<and> pc_reg pc = Some (rd_reg d)"
  by (auto simp: registered_data_from_cache_def dest: take_telemetryD
      split: bind_splits prod.splits)

lemma take_orphans_entities [simp]:
  "ps_entities (snd (take_orphans tid ps)) = ps_entities ps"
  "ps_schema (snd (take_orphans tid ps)) = ps_schema ps"
  "ps_telemetry (snd (take_orphans tid ps)) = ps_telemetry ps"
  by (simp_all add: take_orphans_def split: option.split)

function take_children ::
  "rumqttc \<Rightarrow> entity_topic_id list \<Rightarrow> pending_store \<Rightarrow> (registered_data list \<times> pending_store) panics" where
  "take_children L [] ps = Some ([], ps)"
| "take_children L (c # cs) ps =
     (case hm_get (ps_entities ps) c of
        None \<Rightarrow> take_children L cs ps
      | Some pc \<Rightarrow>
          (case registered_data_from_cache L pc
                  (ps\<lparr>ps_entities := hm_remove c (ps_entities ps)\<rparr>) of
             None \<Rightarrow> None
           | Some (d, ps1) \<Rightarrow>
               (case take_children L (fst (take_orphans c ps1) @ cs) (snd (take_orphans c ps1)) of
                  None \<Rightarrow> None
                | Some (ds, ps2) \<Rightarrow> Some (d # ds, ps2))))"
  by pat_completeness auto
termination
  by (relation "measures [\<lambda>(L, cs, ps). length (ps_entities ps), \<lambda>(L, cs, ps). length cs]")
    (auto dest!: registered_data_entities length_delete_less)

definition take_cached_child_entities_data ::
  "rumqttc \<Rightarrow> entity_topic_id \<Rightarrow> pending_store \<Rightarrow> (registered_data list \<times> pending_store) panics" where
  "take_cached_child_entities_data L tid ps =
     take_children L (fst (take_orphans tid ps)) (snd (take_orphans tid ps))"

definition cache_early_data_message :: "rumqttc \<Rightarrow> mqtt_message \<Rightarrow> pending_store \<Rightarrow> pending_store" where
  "cache_early_data_message L m ps =
     (case entity_channel_of L (ps_schema ps) (topic_name (mm_topic m)) of
        Inl _ \<Rightarrow> ps
      | Inr (tid, ch) \<Rightarrow>
          let entity_cache = (case hm_get (ps_entities ps) tid of
                                Some pc \<Rightarrow> pc | None \<Rightarrow> pending_cache_new)
          in case ch of
               Measurement _ \<Rightarrow> ps\<lparr>ps_entities := hm_insert tid entity_cache (ps_entities ps),
                                   ps_telemetry := ring_push m (ps_telemetry ps)\<rparr>
             | Event _ \<Rightarrow> ps\<lparr>ps_entities := hm_insert tid entity_cache (ps_entities ps),
                             ps_telemetry := ring_push m (ps_telemetry ps)\<rparr>
             | Alarm _ \<Rightarrow> ps\<lparr>ps_entities := hm_insert tid entity_cache (ps_entities ps),
                             ps_telemetry := ring_push m (ps_telemetry ps)\<rparr>
             | EntityMetadata \<Rightarrow> ps\<lparr>ps_entities := hm_insert tid entity_cache (ps_entities ps)\<rparr>
             | _ \<Rightarrow> ps\<lparr>ps_entities :=
                   hm_insert tid (entity_cache\<lparr>pc_metadata := pc_metadata entity_cache @ [m]\<rparr>)
                     (ps_entities ps)\<rparr>)"

definition cache_early_registration_message ::
  "registration \<Rightarrow> pending_store \<Rightarrow> pending_store panics" where
  "cache_early_registration_message r ps = do {
     parent \<leftarrow> reg_parent r;
     let source = reg_topic_id r;
     let siblings = (case hm_get (ps_orphans ps) parent of Some cs \<Rightarrow> cs | None \<Rightarrow> []);
     let cached = (case hm_get (ps_entities ps) source of
                     Some pc \<Rightarrow> pc | None \<Rightarrow> pending_cache_new);
     Some (ps\<lparr>ps_orphans := hm_insert parent (siblings @ [source]) (ps_orphans ps),
              ps_entities := hm_insert source (cached\<lparr>pc_reg := Some r\<rparr>) (ps_entities ps)\<rparr>) }"

section \<open>The walk is the recursion of the source\<close>

lemma take_children_append:
  "take_children L (cs @ cs') ps = do {
     (ds, ps1) \<leftarrow> take_children L cs ps;
     (ds', ps2) \<leftarrow> take_children L cs' ps1;
     Some (ds @ ds', ps2) }"
proof (induction L cs ps rule: take_children.induct)
  case (2 L c cs ps)
  show ?case
  proof (cases "hm_get (ps_entities ps) c")
    case None
    with 2(1) show ?thesis by simp
  next
    case (Some pc)
    show ?thesis
    proof (cases "registered_data_from_cache L pc (ps\<lparr>ps_entities := hm_remove c (ps_entities ps)\<rparr>)")
      case None
      with Some show ?thesis by simp
    next
      case (Some dp)
      obtain d ps1 where "dp = (d, ps1)" by (cases dp)
      with Some \<open>hm_get (ps_entities ps) c = Some pc\<close> 2(2) [OF _ Some] show ?thesis
        by (auto split: option.split bind_split)
    qed
  qed
qed (simp split: bind_split)

lemma take_children_rec:
  "take_children L (c # cs) ps =
     (case hm_get (ps_entities ps) c of
        None \<Rightarrow> take_children L cs ps
      | Some pc \<Rightarrow> do {
          (d, ps1) \<leftarrow> registered_data_from_cache L pc
                         (ps\<lparr>ps_entities := hm_remove c (ps_entities ps)\<rparr>);
          (sub, ps2) \<leftarrow> take_cached_child_entities_data L c ps1;
          (ds, ps3) \<leftarrow> take_children L cs ps2;
          Some (d # sub @ ds, ps3) })"
  by (auto simp: take_cached_child_entities_data_def take_children_append
      split: option.split bind_split)

section \<open>Telemetry is partitioned, without loss\<close>

lemma telemetry_fold:
  "fold (telemetry_step L S tid) ms (acc, cache) =
     (acc @ filter (is_from L S tid) ms, fold ring_push (filter (\<lambda>m. \<not> is_from L S tid m) ms) cache)"
  by (induction ms arbitrary: acc cache) (auto simp: telemetry_step_def)

lemma take_cached_telemetry_data_eq:
  "take_cached_telemetry_data L tid ps =
     (filter (is_from L (ps_schema ps) tid) (ring_into_iter (ps_telemetry ps)),
      ps\<lparr>ps_telemetry :=
           fold ring_push (filter (\<lambda>m. \<not> is_from L (ps_schema ps) tid m)
             (ring_into_iter (ps_telemetry ps))) (ring_new (ring_capacity (ps_telemetry ps)))\<rparr>)"
  by (simp add: take_cached_telemetry_data_def telemetry_fold)

text \<open>
  Taking the cached telemetry of an entity returns exactly the messages of that entity, in the
  order of their reception, and keeps all the others in order: rebuilding the buffer drops nothing.
\<close>

lemma take_cached_telemetry_lossless:
  assumes "ring_wf (ps_telemetry ps)" "take_cached_telemetry_data L tid ps = (messages, ps')"
  shows "messages = filter (is_from L (ps_schema ps) tid) (ring_into_iter (ps_telemetry ps))
    \<and> ring_into_iter (ps_telemetry ps')
      = filter (\<lambda>m. \<not> is_from L (ps_schema ps) tid m) (ring_into_iter (ps_telemetry ps))
    \<and> ring_wf (ps_telemetry ps')"
proof -
  let ?rest = "filter (\<lambda>m. \<not> is_from L (ps_schema ps) tid m) (ring_into_iter (ps_telemetry ps))"
  let ?cap = "ring_capacity (ps_telemetry ps)"
  have "length ?rest \<le> ?cap"
    using assms(1) le_trans [OF length_filter_le]
    by (auto simp: ring_wf_def ring_capacity_def ring_into_iter_def)
  then have "ring_into_iter (fold ring_push ?rest (ring_new ?cap)) = ?rest"
    using ring.push_all [of "ring_new ?cap" ?rest] by (simp add: ring.items_new ring.limit_new)
  with assms(2) show ?thesis by (auto simp: take_cached_telemetry_data_eq)
qed

text \<open>A measurement message of a default topic, for the witnesses.\<close>

definition example_message :: "string \<Rightarrow> string \<Rightarrow> mqtt_message" where
  "example_message t p = message_new (topic_new_unchecked t) p"

definition example_pending :: pending_store where
  "example_pending =
     fold (cache_early_data_message wildcard_free_mqtt)
       [example_message ''te/device/child1///m/env'' ''1'',
        example_message ''te/device/child2///m/env'' ''2'',
        example_message ''te/device/child1///m/env'' ''3'']
       (pending_new schema_new 2)"

lemma take_cached_telemetry_lossless_instance:
  "map mm_payload (fst (take_cached_telemetry_data wildcard_free_mqtt ''device/child1//''
       example_pending)) = [''3'']
   \<and> ring_wf (ps_telemetry (snd (take_cached_telemetry_data wildcard_free_mqtt ''device/child1//''
       example_pending)))"
proof -
  have wf: "ring_wf (ps_telemetry example_pending)" unfolding ring_wf_def by code_simp
  obtain ms ps' where eq: "take_cached_telemetry_data wildcard_free_mqtt ''device/child1//''
      example_pending = (ms, ps')"
    by (cases "take_cached_telemetry_data wildcard_free_mqtt ''device/child1//'' example_pending")
  have "map mm_payload (filter (is_from wildcard_free_mqtt (ps_schema example_pending)
      ''device/child1//'') (ring_into_iter (ps_telemetry example_pending))) = [''3'']"
    by code_simp
  with take_cached_telemetry_lossless [OF wf eq] show ?thesis by (simp add: eq)
qed

text \<open>Messages the store caches in the telemetry buffer.\<close>

definition is_telemetry :: "rumqttc \<Rightarrow> mqtt_schema \<Rightarrow> mqtt_message \<Rightarrow> bool" where
  "is_telemetry L S m =
     (case entity_channel_of L S (topic_name (mm_topic m)) of
        Inr (_, ch) \<Rightarrow> (case ch of Measurement _ \<Rightarrow> True | Event _ \<Rightarrow> True | Alarm _ \<Rightarrow> True | _ \<Rightarrow> False)
      | Inl _ \<Rightarrow> False)"

lemma cache_early_telemetry:
  "is_telemetry L (ps_schema ps) m \<Longrightarrow>
     ps_telemetry (cache_early_data_message L m ps) = ring_push m (ps_telemetry ps)"
  "ps_schema (cache_early_data_message L m ps) = ps_schema ps"
  by (auto simp: is_telemetry_def cache_early_data_message_def Let_def
      split: sum.splits channel.splits)

lemma cache_early_telemetry_fold:
  "list_all (is_telemetry L (ps_schema ps)) ms \<Longrightarrow>
     ps_telemetry (fold (cache_early_data_message L) ms ps) = fold ring_push ms (ps_telemetry ps)"
  by (induction ms arbitrary: ps) (auto simp: cache_early_telemetry)

text \<open>
  The bound of the telemetry cache is lost: when the data of an entity is taken while no
  telemetry was ever cached, the new buffer has the capacity of the old deque (zero) as its size,
  and from then on every telemetry message is kept, however many there are.
\<close>

lemma telemetry_bound_lost:
  assumes "ps_telemetry ps = ring_new n" "hm_get (ps_entities ps) (reg_topic_id r) \<noteq> None"
    and "list_all (is_telemetry L (ps_schema ps)) ms"
  shows "ring_into_iter (ps_telemetry
      (fold (cache_early_data_message L) ms (snd (take_cached_entity_data L r ps)))) = ms"
proof -
  have take: "ps_telemetry (snd (take_cached_entity_data L r ps)) = ring_new 0"
    "ps_schema (snd (take_cached_entity_data L r ps)) = ps_schema ps"
    using assms(1,2)
    by (auto simp: take_cached_entity_data_def take_cached_telemetry_data_eq ring_capacity_def
        ring_into_iter_def ring_new_def split: option.splits)
  then show ?thesis
    using assms(3) ring_zero_unbounded [of "ring_new 0" ms]
    by (simp add: cache_early_telemetry_fold ring.limit_new ring.items_new)
qed

lemma telemetry_bound_lost_instance:
  "length (ring_into_iter (ps_telemetry
     (fold (cache_early_data_message wildcard_free_mqtt)
        (replicate 5 (example_message ''te/device/child2///m/env'' ''2''))
        (snd (take_cached_entity_data wildcard_free_mqtt example_registration
           (cache_early_data_message wildcard_free_mqtt
              (example_message ''te/device/child1///twin/mode'' ''on'')
              (pending_new schema_new 2))))))) = 5"
proof -
  let ?ps = "cache_early_data_message wildcard_free_mqtt
      (example_message ''te/device/child1///twin/mode'' ''on'') (pending_new schema_new 2)"
  let ?ms = "replicate 5 (example_message ''te/device/child2///m/env'' ''2'')"
  have "ps_telemetry ?ps = ring_new 2" by code_simp
  moreover have "hm_get (ps_entities ?ps) (reg_topic_id example_registration) \<noteq> None" by code_simp
  moreover have "list_all (is_telemetry wildcard_free_mqtt (ps_schema ?ps)) ?ms" by code_simp
  ultimately show ?thesis
    using telemetry_bound_lost [of ?ps 2 example_registration wildcard_free_mqtt ?ms] by simp
qed

section \<open>Orphans come after their parents\<close>

text \<open>
  The orphans recorded for a parent that are pending have a cached registration under that parent.
\<close>

definition ps_consistent :: "pending_store \<Rightarrow> bool" where
  "ps_consistent ps \<longleftrightarrow>
     (\<forall>p cs c pc. hm_get (ps_orphans ps) p = Some cs \<longrightarrow> c \<in> set cs
        \<longrightarrow> hm_get (ps_entities ps) c = Some pc
        \<longrightarrow> (\<exists>r. pc_reg pc = Some r \<and> reg_topic_id r = c \<and> reg_parent r = Some p))"

definition visit_ok :: "entity_topic_id set \<Rightarrow> entity_topic_id list \<Rightarrow> pending_store \<Rightarrow> bool" where
  "visit_ok known cs ps \<longleftrightarrow> ps_consistent ps \<and> hm_wf (ps_entities ps)
     \<and> (\<forall>c \<in> set cs. \<forall>pc. hm_get (ps_entities ps) c = Some pc
          \<longrightarrow> (\<exists>r. pc_reg pc = Some r \<and> reg_topic_id r = c \<and> (\<exists>p \<in> known. reg_parent r = Some p)))"

abbreviation rd_ids :: "registered_data list \<Rightarrow> entity_topic_id list" where
  "rd_ids ds \<equiv> map (reg_topic_id \<circ> rd_reg) ds"

lemma visit_ok_orphans:
  assumes "ps_consistent ps" "hm_wf (ps_entities ps)"
  shows "visit_ok {tid} (fst (take_orphans tid ps)) (snd (take_orphans tid ps))"
  using assms
  by (auto simp: visit_ok_def ps_consistent_def take_orphans_def hm_simps split: option.splits if_splits)

lemma visit_ok_skip: "visit_ok known (c # cs) ps \<Longrightarrow> visit_ok known cs ps"
  by (auto simp: visit_ok_def)

lemma visit_ok_step:
  assumes "visit_ok known (c # cs) ps"
    and "registered_data_from_cache L pc (ps\<lparr>ps_entities := hm_remove c (ps_entities ps)\<rparr>) = Some (d, ps1)"
  shows "visit_ok (insert c known) (fst (take_orphans c ps1) @ cs) (snd (take_orphans c ps1))"
proof -
  have e: "ps_entities ps1 = hm_remove c (ps_entities ps)" "ps_orphans ps1 = ps_orphans ps"
    using registered_data_entities [OF assms(2)] by simp_all
  have "ps_consistent ps1" "hm_wf (ps_entities ps1)"
    using assms(1) e by (auto simp: visit_ok_def ps_consistent_def hm_simps split: if_splits)
  from visit_ok_orphans [OF this, of c] show ?thesis
    using assms(1) e by (fastforce simp: visit_ok_def hm_simps split: if_splits)
qed

lemma take_children_spec:
  assumes "visit_ok known cs ps"
  shows "\<exists>ds ps'. take_children L cs ps = Some (ds, ps')
    \<and> parents_first known (map rd_reg ds) \<and> list_all (\<lambda>d. reg_parent (rd_reg d) \<noteq> None) ds
    \<and> distinct (rd_ids ds)
    \<and> hm_get (ps_entities ps') = hm_get (ps_entities ps) |` (- set (rd_ids ds))
    \<and> set (rd_ids ds) \<subseteq> dom (hm_get (ps_entities ps))
    \<and> (\<forall>c \<in> set cs. hm_get (ps_entities ps') c = None)
    \<and> hm_get (ps_orphans ps') = hm_get (ps_orphans ps) |` (- set (rd_ids ds))
    \<and> (\<forall>q \<in> set (rd_ids ds). \<forall>xs. hm_get (ps_orphans ps) q = Some xs
         \<longrightarrow> (\<forall>x \<in> set xs. hm_get (ps_entities ps') x = None))
    \<and> hm_wf (ps_entities ps') \<and> ps_schema ps' = ps_schema ps"
  using assms
proof (induction L cs ps arbitrary: known rule: take_children.induct)
  case (2 L c cs ps)
  show ?case
  proof (cases "hm_get (ps_entities ps) c")
    case None
    with 2(1) [OF None visit_ok_skip [OF 2(3)]] show ?thesis
      by (auto simp: restrict_map_def)
  next
    case (Some pc)
    with 2(3) obtain r where r: "pc_reg pc = Some r" "reg_topic_id r = c" "\<exists>p \<in> known. reg_parent r = Some p"
      by (auto simp: visit_ok_def)
    let ?ps = "ps\<lparr>ps_entities := hm_remove c (ps_entities ps)\<rparr>"
    obtain d ps1 where d: "registered_data_from_cache L pc ?ps = Some (d, ps1)"
      using r(1)
      by (cases "take_cached_telemetry_data L (reg_topic_id r) ?ps")
        (auto simp: registered_data_from_cache_def)
    have e: "ps_entities ps1 = hm_remove c (ps_entities ps)" and dr: "rd_reg d = r"
      and o: "ps_orphans ps1 = ps_orphans ps" and sch: "ps_schema ps1 = ps_schema ps"
      using registered_data_entities [OF d] r(1) by simp_all
    have orph: "hm_get (ps_orphans (snd (take_orphans c ps1))) = (hm_get (ps_orphans ps))(c := None)"
      by (auto simp: take_orphans_def o delete_conv' fun_eq_iff split: option.split)
    have del: "hm_get (ps_entities (snd (take_orphans c ps1))) = (hm_get (ps_entities ps))(c := None)"
      by (simp add: e delete_conv')
    from 2(2) [OF Some d refl visit_ok_step [OF 2(3) d], unfolded del orph] obtain ds ps' where
      IH: "take_children L (fst (take_orphans c ps1) @ cs) (snd (take_orphans c ps1)) = Some (ds, ps')"
      "parents_first (insert c known) (map rd_reg ds)" "distinct (rd_ids ds)"
      "list_all (\<lambda>d. reg_parent (rd_reg d) \<noteq> None) ds"
      "hm_get (ps_entities ps') = (hm_get (ps_entities ps))(c := None) |` (- set (rd_ids ds))"
      "set (rd_ids ds) \<subseteq> dom ((hm_get (ps_entities ps))(c := None))"
      "\<forall>x \<in> set (fst (take_orphans c ps1) @ cs). hm_get (ps_entities ps') x = None"
      "hm_get (ps_orphans ps') = (hm_get (ps_orphans ps))(c := None) |` (- set (rd_ids ds))"
      "\<forall>q \<in> set (rd_ids ds). \<forall>xs. ((hm_get (ps_orphans ps))(c := None)) q = Some xs
         \<longrightarrow> (\<forall>x \<in> set xs. hm_get (ps_entities ps') x = None)"
      "hm_wf (ps_entities ps')" "ps_schema ps' = ps_schema (snd (take_orphans c ps1))"
      by blast
    have "c \<notin> set (rd_ids ds)" using IH(6) by auto
    then have "hm_get (ps_entities ps') = hm_get (ps_entities ps) |` (- set (rd_ids (d # ds)))"
      using IH(5) dr r(2) by (auto simp: restrict_map_def fun_eq_iff)
    moreover have "take_children L (c # cs) ps = Some (d # ds, ps')" using Some d IH(1) by simp
    moreover have "parents_first known (map rd_reg (d # ds))" using IH(2) dr r by auto
    moreover have "distinct (rd_ids (d # ds))" using IH(3) \<open>c \<notin> set (rd_ids ds)\<close> dr r(2) by simp
    moreover have "set (rd_ids (d # ds)) \<subseteq> dom (hm_get (ps_entities ps))" using IH(6) dr r(2) Some by auto
    moreover have "hm_get (ps_entities ps') c = None" by (simp add: IH(5) restrict_map_def)
    then have "\<forall>x \<in> set (c # cs). hm_get (ps_entities ps') x = None" using IH(7) by simp
    moreover have "list_all (\<lambda>d. reg_parent (rd_reg d) \<noteq> None) (d # ds)" using IH(4) dr r(3) by auto
    moreover have "hm_get (ps_orphans ps') = hm_get (ps_orphans ps) |` (- set (rd_ids (d # ds)))"
      using IH(8) dr r(2) by (auto simp: restrict_map_def fun_eq_iff)
    moreover have "\<forall>q \<in> set (rd_ids (d # ds)). \<forall>xs. hm_get (ps_orphans ps) q = Some xs
         \<longrightarrow> (\<forall>x \<in> set xs. hm_get (ps_entities ps') x = None)"
    proof -
      have "\<forall>x \<in> set xs. hm_get (ps_entities ps') x = None" if "hm_get (ps_orphans ps) c = Some xs" for xs
        using IH(7) that by (simp add: take_orphans_def o)
      then show ?thesis using IH(9) dr r(2) \<open>c \<notin> set (rd_ids ds)\<close> by (simp add: fun_upd_def) metis
    qed
    moreover have "ps_schema ps' = ps_schema ps" using IH(11) sch by simp
    ultimately show ?thesis using IH(10) by blast
  qed
qed (auto simp: restrict_map_def visit_ok_def)

text \<open>
  When the parent of cached orphans is registered, the walk over the pending children neither
  diverges nor panics: it returns each pending descendant once, every registration after the one of
  its parent, and none of the direct orphans stays pending.
\<close>

lemma take_cached_child_entities_ordered:
  assumes "ps_consistent ps" "hm_wf (ps_entities ps)"
  shows "\<exists>ds ps'. take_cached_child_entities_data L tid ps = Some (ds, ps')
    \<and> parents_first {tid} (map rd_reg ds) \<and> distinct (rd_ids ds)
    \<and> hm_get (ps_entities ps') = hm_get (ps_entities ps) |` (- set (rd_ids ds))
    \<and> (\<forall>cs. hm_get (ps_orphans ps) tid = Some cs
         \<longrightarrow> (\<forall>c \<in> set cs. hm_get (ps_entities ps') c = None))"
  using take_children_spec [OF visit_ok_orphans [OF assms, of tid], of L]
  by (fastforce simp: take_cached_child_entities_data_def take_orphans_def split: option.splits)

definition example_orphans :: pending_store where
  "example_orphans =
     (case cache_early_registration_message
             (with_parent ''device/c0//'' (registration_new_custom ''device/c00//'' ChildDevice))
             (pending_new schema_new 2) of
        None \<Rightarrow> pending_new schema_new 2
      | Some ps \<Rightarrow> (case cache_early_registration_message
             (with_parent ''device/c00//'' (registration_new_custom ''device/c000//'' ChildDevice)) ps of
          None \<Rightarrow> pending_new schema_new 2 | Some ps' \<Rightarrow> ps'))"

lemma take_cached_child_entities_ordered_instance:
  "\<exists>ds ps'. take_cached_child_entities_data wildcard_free_mqtt ''device/c0//'' example_orphans
      = Some (ds, ps')
    \<and> rd_ids ds = [''device/c00//'', ''device/c000//''] \<and> parents_first {''device/c0//''} (map rd_reg ds)"
proof -
  have o: "ps_orphans example_orphans
      = [(''device/c0//'', [''device/c00//'']), (''device/c00//'', [''device/c000//''])]"
    by code_simp
  have e: "ps_entities example_orphans =
      [(''device/c00//'', \<lparr>pc_reg = Some (with_parent ''device/c0//''
          (registration_new_custom ''device/c00//'' ChildDevice)), pc_metadata = []\<rparr>),
       (''device/c000//'', \<lparr>pc_reg = Some (with_parent ''device/c00//''
          (registration_new_custom ''device/c000//'' ChildDevice)), pc_metadata = []\<rparr>)]"
    by code_simp
  have "ps_consistent example_orphans" "hm_wf (ps_entities example_orphans)"
    by (auto simp: ps_consistent_def o e with_parent_def registration_new_custom_def
        split: if_splits)
  from take_cached_child_entities_ordered [OF this, of wildcard_free_mqtt "''device/c0//''"]
  obtain ds ps' where r: "take_cached_child_entities_data wildcard_free_mqtt ''device/c0//''
      example_orphans = Some (ds, ps')" "parents_first {''device/c0//''} (map rd_reg ds)" by blast
  have "map_option (rd_ids \<circ> fst)
      (take_cached_child_entities_data wildcard_free_mqtt ''device/c0//'' example_orphans)
    = Some [''device/c00//'', ''device/c000//'']"
    by code_simp
  with r show ?thesis by simp
qed

end
