(* ===== verification/Entity_Tree.thy ===== *)
theory Entity_Tree
  imports Entity
begin

text \<open>
  The in-memory tree of entities (\<^verbatim>\<open>EntityTree\<close>, \<^verbatim>\<open>EntityNode\<close> and \<^verbatim>\<open>ListFilters\<close> of
  \<^verbatim>\<open>tedge_api/src/entity_store.rs\<close>): every node has the metadata of an entity and the set of its
  children.  The set is a \<^verbatim>\<open>HashSet\<close>: a list without duplicates whose iteration order is the
  parameter \<open>iter\<close> of the operations that iterate over it.

  The listing loop of the source runs for ever on a cyclic tree: it is a partial function, whose
  value is nothing when it does not return.
\<close>

record entity_node =
  node_metadata :: entity_metadata
  node_children :: "entity_topic_id list"

type_synonym entities = "(entity_topic_id, entity_node) hmap"
type_synonym iteration = "entity_topic_id list \<Rightarrow> entity_topic_id list"

text \<open>Whatever the order, an iteration visits the elements of the set and no others.\<close>

definition iteration_rule :: "iteration \<Rightarrow> bool" where
  "iteration_rule iter \<longleftrightarrow> (\<forall>xs. set (iter xs) = set xs)"

lemma iteration_ruleD [simp]: "iteration_rule iter \<Longrightarrow> set (iter xs) = set xs"
  by (simp add: iteration_rule_def)

definition hs_insert :: "'a \<Rightarrow> 'a list \<Rightarrow> 'a list" where
  "hs_insert x xs = (if x \<in> set xs then xs else xs @ [x])"

lemma set_hs_insert [simp]: "set (hs_insert x xs) = insert x (set xs)"
  by (auto simp: hs_insert_def)

definition node_new :: "entity_metadata \<Rightarrow> entity_node" where
  "node_new m = \<lparr>node_metadata = m, node_children = []\<rparr>"

record entity_tree =
  tree_main :: entity_topic_id
  tree_entities :: entities

definition tree_new :: "entity_topic_id \<Rightarrow> entity_metadata \<Rightarrow> entity_tree" where
  "tree_new tid m = \<lparr>tree_main = tid, tree_entities = [(tid, node_new m)]\<rparr>"

definition tree_contains_key :: "entity_tree \<Rightarrow> entity_topic_id \<Rightarrow> bool" where
  "tree_contains_key t tid = hm_contains (tree_entities t) tid"

definition tree_topic_ids :: "entity_tree \<Rightarrow> entity_topic_id list" where
  "tree_topic_ids t = map fst (tree_entities t)"

definition tree_get :: "entity_tree \<Rightarrow> entity_topic_id \<Rightarrow> entity_metadata option" where
  "tree_get t tid = map_option node_metadata (hm_get (tree_entities t) tid)"

definition children_of ::
  "iteration \<Rightarrow> entities \<Rightarrow> entity_topic_id \<Rightarrow> (entity_topic_id \<times> entity_metadata) list" where
  "children_of iter es parent_id =
     (case hm_get es parent_id of
        None \<Rightarrow> []
      | Some node \<Rightarrow>
          List.map_filter (\<lambda>c. map_option (\<lambda>n. (c, node_metadata n)) (hm_get es c))
            (iter (node_children node)))"

definition tree_children ::
  "iteration \<Rightarrow> entity_tree \<Rightarrow> entity_topic_id \<Rightarrow> (entity_topic_id \<times> entity_metadata) list" where
  "tree_children iter t = children_of iter (tree_entities t)"

text \<open>The second half of \<^verbatim>\<open>insert\<close>: record the entity as a child of its parent.\<close>

definition link_child :: "entity_topic_id \<Rightarrow> entity_topic_id option \<Rightarrow> entities \<Rightarrow> entities" where
  "link_child tid maybe_parent es =
     (case maybe_parent of
        None \<Rightarrow> es
      | Some p \<Rightarrow> (case hm_get es p of
            None \<Rightarrow> es
          | Some pn \<Rightarrow>
              hm_insert p (pn\<lparr>node_children := hs_insert tid (node_children pn)\<rparr>) es))"

definition merge_metadata :: "entity_metadata \<Rightarrow> entity_metadata \<Rightarrow> entity_metadata" where
  "merge_metadata existing m =
     m\<lparr>em_twin_data := bt_extend (em_twin_data existing) (em_twin_data m)\<rparr>"

definition insert_entity ::
  "entity_topic_id \<Rightarrow> entity_metadata \<Rightarrow> entities \<Rightarrow> insert_outcome \<times> entities" where
  "insert_entity tid m es =
     (case hm_get es tid of
        Some node \<Rightarrow>
          let merged = merge_metadata (node_metadata node) m in
          if node_metadata node = merged then (Unchanged, link_child tid (em_parent m) es)
          else (Updated, link_child tid (em_parent m)
                 (hm_insert tid \<lparr>node_metadata = merged, node_children = node_children node\<rparr> es))
      | None \<Rightarrow> (Inserted, link_child tid (em_parent m) (hm_insert tid (node_new m) es)))"

definition tree_insert ::
  "entity_topic_id \<Rightarrow> entity_metadata \<Rightarrow> entity_tree \<Rightarrow> insert_outcome \<times> entity_tree" where
  "tree_insert tid m t =
     (case insert_entity tid m (tree_entities t) of
        (outcome, es) \<Rightarrow> (outcome, t\<lparr>tree_entities := es\<rparr>))"

text \<open>
  The recursive removal: depth first, with the nodes still to remove as an explicit list
  (\<open>remove_nodes_rec\<close> below is the recursive equation of the source).
\<close>

function remove_nodes ::
  "iteration \<Rightarrow> entity_topic_id list \<Rightarrow> entities \<Rightarrow> entity_metadata list
     \<Rightarrow> entities \<times> entity_metadata list" where
  "remove_nodes iter [] es removed = (es, removed)"
| "remove_nodes iter (c # cs) es removed =
     (case hm_get es c of
        None \<Rightarrow> remove_nodes iter cs es removed
      | Some node \<Rightarrow>
          remove_nodes iter (iter (node_children node) @ cs) (hm_remove c es)
            (removed @ [node_metadata node]))"
  by pat_completeness auto
termination
  by (relation "measures [\<lambda>(iter, cs, es, removed). length es, \<lambda>(iter, cs, es, removed). length cs]")
    (auto dest: length_delete_less)

definition tree_remove ::
  "iteration \<Rightarrow> entity_topic_id \<Rightarrow> entity_tree \<Rightarrow> entity_metadata list \<times> entity_tree" where
  "tree_remove iter tid t =
     (case remove_nodes iter [tid] (tree_entities t) [] of
        (es, removed) \<Rightarrow> (removed, t\<lparr>tree_entities := es\<rparr>))"

section \<open>Listing\<close>

record list_filters =
  lf_root :: "entity_topic_id option"
  lf_parent :: "entity_topic_id option"
  lf_type :: "entity_type option"

definition filter_matches :: "list_filters \<Rightarrow> entity_metadata \<Rightarrow> bool" where
  "filter_matches f m =
     (if (case lf_type f of Some ty \<Rightarrow> em_type m \<noteq> ty | None \<Rightarrow> False) then False
      else if (case lf_parent f of Some p \<Rightarrow> em_parent m \<noteq> Some p | None \<Rightarrow> False) then False
      else True)"

text \<open>Below which nodes the listing searches: only the parent, when a parent is given.\<close>

definition follows :: "list_filters \<Rightarrow> entity_topic_id \<Rightarrow> bool" where
  "follows f tid = (case lf_parent f of None \<Rightarrow> True | Some p \<Rightarrow> p = tid)"

partial_function (option) list_loop ::
  "iteration \<Rightarrow> entities \<Rightarrow> list_filters \<Rightarrow> entity_topic_id list \<Rightarrow> entity_metadata list
     \<Rightarrow> entity_metadata list panics option" where
  "list_loop iter es f queue acc =
     (case queue of
        [] \<Rightarrow> Some (Some acc)
      | tid # rest \<Rightarrow>
          (case hm_get es tid of
             None \<Rightarrow> Some None
           | Some node \<Rightarrow>
               list_loop iter es f
                 (rest @ (if follows f tid then map fst (children_of iter es tid) else []))
                 (if filter_matches f (node_metadata node) then acc @ [node_metadata node] else acc)))"

definition start_root :: "entity_tree \<Rightarrow> list_filters \<Rightarrow> entity_topic_id" where
  "start_root t f =
     (case lf_root f of
        Some r \<Rightarrow> r
      | None \<Rightarrow> (case lf_parent f of Some p \<Rightarrow> p | None \<Rightarrow> tree_main t))"

definition list_entity_tree ::
  "iteration \<Rightarrow> entity_tree \<Rightarrow> list_filters \<Rightarrow> entity_metadata list panics option" where
  "list_entity_tree iter t f =
     (if tree_contains_key t (start_root t f)
      then list_loop iter (tree_entities t) f [start_root t f] []
      else Some (Some []))"

section \<open>The removal is the recursion of the source\<close>

lemma remove_nodes_append:
  "remove_nodes iter (cs @ cs') es removed =
     (case remove_nodes iter cs es removed of (es', removed') \<Rightarrow> remove_nodes iter cs' es' removed')"
proof (induction iter cs es removed rule: remove_nodes.induct)
  case (2 iter c cs es removed)
  then show ?case by (cases "hm_get es c") simp_all
qed simp

lemma remove_nodes_rec:
  "remove_nodes iter [c] es removed =
     (case hm_get es c of
        None \<Rightarrow> (es, removed)
      | Some node \<Rightarrow>
          fold (\<lambda>sub (es', removed'). remove_nodes iter [sub] es' removed')
            (iter (node_children node)) (hm_remove c es, removed @ [node_metadata node]))"
proof -
  have "remove_nodes iter cs es' removed'
      = fold (\<lambda>sub (es', removed'). remove_nodes iter [sub] es' removed') cs (es', removed')"
    for cs es' removed'
  proof (induction cs arbitrary: es' removed')
    case (Cons c cs)
    have "remove_nodes iter (c # cs) es' removed' =
        (case remove_nodes iter [c] es' removed' of (x, y) \<Rightarrow> remove_nodes iter cs x y)"
      using remove_nodes_append [of iter "[c]" cs] by simp
    with Cons show ?case by (cases "remove_nodes iter [c] es' removed'") simp
  qed simp
  then show ?thesis by (simp split: option.split)
qed

section \<open>Descendants\<close>

inductive descends :: "entities \<Rightarrow> entity_topic_id \<Rightarrow> entity_topic_id \<Rightarrow> bool" for es where
  self: "hm_get es a \<noteq> None \<Longrightarrow> descends es a a"
| child: "descends es a b \<Longrightarrow> hm_get es b = Some node \<Longrightarrow> c \<in> set (node_children node)
    \<Longrightarrow> hm_get es c \<noteq> None \<Longrightarrow> descends es a c"

lemma descends_dom: "descends es a b \<Longrightarrow> hm_get es a \<noteq> None \<and> hm_get es b \<noteq> None"
  by (induction rule: descends.induct) auto

lemma descends_mono:
  assumes "descends es a b" "\<And>x. hm_get es x \<noteq> None \<Longrightarrow> hm_get es' x = hm_get es x"
  shows "descends es' a b"
  using assms by (induction rule: descends.induct) (auto intro: descends.intros)

lemma descends_through:
  "descends es a b \<Longrightarrow> descends es c a \<Longrightarrow> descends es c b"
  by (induction rule: descends.induct) (auto intro: descends.child)

text \<open>A descent either avoids a removed node or goes on below it.\<close>

lemma descends_avoid:
  assumes "descends es d x" "hm_get es c = Some node"
  shows "descends (hm_remove c es) d x \<or> x = c
    \<or> (\<exists>k \<in> set (node_children node). descends (hm_remove c es) k x)"
  using assms(1)
proof (induction rule: descends.induct)
  case (self a)
  then show ?case by (cases "a = c") (auto intro!: descends.self simp: delete_conv')
next
  case (child a b nb k)
  show ?case
  proof (cases "k = c")
    case False
    then have k: "hm_get (hm_remove c es) k \<noteq> None" using child(4) by (simp add: delete_conv')
    have b: "b \<noteq> c \<Longrightarrow> hm_get (hm_remove c es) b = Some nb" using child(2) by (simp add: delete_conv')
    from child(5) consider "b \<noteq> c" "descends (hm_remove c es) a b" | "b = c"
      | k0 where "b \<noteq> c" "k0 \<in> set (node_children node)" "descends (hm_remove c es) k0 b" by blast
    then show ?thesis
    proof cases
      case 1 then show ?thesis using descends.child [OF 1(2) b [OF 1(1)] child(3) k] by blast
    next
      case 2 then show ?thesis using child(2,3) assms(2) descends.self [OF k] by auto
    next
      case 3 then show ?thesis using descends.child [OF 3(3) b [OF 3(1)] child(3) k] by blast
    qed
  qed simp
qed

lemma descends_remove:
  assumes "hm_get es c = Some node"
  shows "(\<exists>d \<in> set (c # cs). descends es d x) \<longleftrightarrow>
    x = c \<or> (\<exists>d \<in> set (node_children node) \<union> set cs. descends (hm_remove c es) d x)"
    (is "?L \<longleftrightarrow> ?R")
proof
  have "\<not> descends (hm_remove c es) c x" using descends_dom by (fastforce simp: delete_conv')
  moreover assume ?L
  ultimately show ?R using descends_avoid [OF _ assms, of _ x] by auto
next
  have up: "descends (hm_remove c es) d y \<Longrightarrow> descends es d y" for d y
    by (erule descends_mono) (auto simp: delete_conv' split: if_splits)
  have self: "descends es c c" using assms by (auto intro: descends.self)
  assume ?R
  then consider "x = c" | d where "d \<in> set (node_children node)" "descends (hm_remove c es) d x"
    | d where "d \<in> set cs" "descends (hm_remove c es) d x" by blast
  then show ?L
  proof cases
    case 1 with self show ?thesis by simp
  next
    case 2
    have "descends es d x" using up [OF 2(2)] .
    moreover from this have "descends es c d"
      using descends.child [OF self assms 2(1)] descends_dom by blast
    ultimately have "descends es c x" by (rule descends_through)
    then show ?thesis by simp
  next
    case 3 with up show ?thesis by auto
  qed
qed

lemma remove_nodes_spec:
  assumes "iteration_rule iter" "hm_wf es" "remove_nodes iter cs es removed = (es', removed')"
  shows "hm_wf es' \<and> (\<forall>x. hm_get es' x = (if \<exists>c \<in> set cs. descends es c x then None else hm_get es x))
    \<and> (\<exists>ids. removed' = removed @ map (\<lambda>x. node_metadata (the (hm_get es x))) ids \<and> distinct ids
         \<and> set ids = {x. \<exists>c \<in> set cs. descends es c x})"
  using assms
proof (induction iter cs es removed rule: remove_nodes.induct)
  case (2 iter c cs es removed)
  show ?case
  proof (cases "hm_get es c")
    case None
    then have "(\<exists>d \<in> set (c # cs). descends es d x) \<longleftrightarrow> (\<exists>d \<in> set cs. descends es d x)" for x
      using descends_dom by fastforce
    with 2(1) [OF None 2(3,4)] 2(5) None show ?thesis by simp
  next
    case (Some node)
    have wf: "hm_wf (hm_remove c es)" using 2(4) by (simp add: hm_simps)
    have eq: "(\<exists>d \<in> set (c # cs). descends es d x) \<longleftrightarrow>
        x = c \<or> (\<exists>d \<in> set (iter (node_children node) @ cs). descends (hm_remove c es) d x)" for x
      using descends_remove [OF Some, of cs x] 2(3) by simp
    from 2(2) [OF Some 2(3) wf] 2(5) Some obtain ids where IH: "hm_wf es'"
      "\<forall>x. hm_get es' x = (if \<exists>d \<in> set (iter (node_children node) @ cs). descends (hm_remove c es) d x
         then None else hm_get (hm_remove c es) x)"
      "removed' = (removed @ [node_metadata node])
         @ map (\<lambda>x. node_metadata (the (hm_get (hm_remove c es) x))) ids" "distinct ids"
      "set ids = {x. \<exists>d \<in> set (iter (node_children node) @ cs). descends (hm_remove c es) d x}"
      by auto
    have c: "c \<notin> set ids" using IH(5) descends_dom by (fastforce simp: delete_conv')
    have "map (\<lambda>x. node_metadata (the (hm_get (hm_remove c es) x))) ids
        = map (\<lambda>x. node_metadata (the (hm_get es x))) ids"
      using c by (auto simp: delete_conv')
    then have "removed' = removed @ map (\<lambda>x. node_metadata (the (hm_get es x))) (c # ids)"
      using IH(3) Some by simp
    moreover have "distinct (c # ids)" using c IH(4) by simp
    moreover have "set (c # ids) = {x. \<exists>d \<in> set (c # cs). descends es d x}"
      using IH(5) unfolding eq by auto
    moreover have "\<forall>x. hm_get es' x = (if \<exists>d \<in> set (c # cs). descends es d x then None else hm_get es x)"
      using IH(2) unfolding eq by (auto simp: delete_conv')
    ultimately show ?thesis using IH(1) by blast
  qed
next
  case (1 iter es removed)
  then show ?case by (auto intro: exI [of _ "[]"])
qed

section \<open>The invariant of the tree\<close>

text \<open>
  Every entity is stored under its own topic identifier, and its parent, if any, is registered and
  knows it as a child.
\<close>

definition tree_wf :: "entities \<Rightarrow> bool" where
  "tree_wf es \<longleftrightarrow> hm_wf es \<and>
     (\<forall>x node. hm_get es x = Some node \<longrightarrow>
        em_topic_id (node_metadata node) = x \<and> jmap_wf (em_twin_data (node_metadata node))
        \<and> (\<forall>p. em_parent (node_metadata node) = Some p \<longrightarrow>
             (\<exists>pn. hm_get es p = Some pn \<and> x \<in> set (node_children pn))))"

lemma tree_wfD:
  assumes "tree_wf es"
  shows "hm_wf es"
    and "hm_get es x = Some node \<Longrightarrow> em_topic_id (node_metadata node) = x"
    and "hm_get es x = Some node \<Longrightarrow> jmap_wf (em_twin_data (node_metadata node))"
    and "hm_get es x = Some node \<Longrightarrow> em_parent (node_metadata node) = Some p
      \<Longrightarrow> \<exists>pn. hm_get es p = Some pn \<and> x \<in> set (node_children pn)"
  using assms unfolding tree_wf_def by blast+

lemma update_same: "map_of m k = Some v \<Longrightarrow> AList.update k v m = m"
  by (induction m) (auto split: if_splits)

lemma link_child_get:
  "hm_get (link_child tid par es) x =
     map_option (\<lambda>n. if par = Some x then n\<lparr>node_children := hs_insert tid (node_children n)\<rparr> else n)
       (hm_get es x)"
  by (cases "hm_get es x") (auto simp: link_child_def update_conv' split: option.splits)

lemma link_child_wf [simp]: "hm_wf es \<Longrightarrow> hm_wf (link_child tid par es)"
  by (auto simp: link_child_def distinct_update split: option.splits)

lemma link_child_same:
  assumes "\<And>p. par = Some p \<Longrightarrow> \<exists>pn. hm_get es p = Some pn \<and> tid \<in> set (node_children pn)"
  shows "link_child tid par es = es"
  using assms by (auto simp: link_child_def hs_insert_def update_same split: option.splits)

lemma insert_entity_get:
  assumes "insert_entity tid m es = (outcome, es')"
  shows "hm_get es' x = map_option
      (\<lambda>n. if em_parent m = Some x then n\<lparr>node_children := hs_insert tid (node_children n)\<rparr> else n)
      (if x \<noteq> tid then hm_get es x
       else case hm_get es tid of
           None \<Rightarrow> Some (node_new m)
         | Some node \<Rightarrow> Some (node\<lparr>node_metadata := merge_metadata (node_metadata node) m\<rparr>))"
  using assms
  by (auto simp: insert_entity_def link_child_get update_conv' Let_def split: option.splits if_splits)

lemma insert_entity_outcome:
  "fst (insert_entity tid m es) =
     (case hm_get es tid of
        None \<Rightarrow> Inserted
      | Some node \<Rightarrow> if node_metadata node = merge_metadata (node_metadata node) m then Unchanged
                     else Updated)"
  by (simp add: insert_entity_def Let_def split: option.split)

lemma insert_entity_hm_wf: "hm_wf es \<Longrightarrow> insert_entity tid m es = (outcome, es') \<Longrightarrow> hm_wf es'"
  by (auto simp: insert_entity_def Let_def distinct_update split: option.splits if_splits)

lemma insert_entity_unchanged:
  assumes "tree_wf es" "insert_entity tid m es = (Unchanged, es')"
  shows "es' = es"
proof -
  from assms(2) obtain node where n: "hm_get es tid = Some node"
    "node_metadata node = merge_metadata (node_metadata node) m"
    "es' = link_child tid (em_parent m) es"
    by (auto simp: insert_entity_def Let_def split: option.splits if_splits)
  then have "em_parent m = em_parent (node_metadata node)"
    by (metis entity_metadata.select_convs(2) entity_metadata.surjective
        entity_metadata.update_convs(5) merge_metadata_def)
  with n tree_wfD(4) [OF assms(1)] show ?thesis by (auto intro!: link_child_same)
qed

lemma tree_wf_insert [inv_intros]:
  assumes "tree_wf es" "em_topic_id m = tid" "jmap_wf (em_twin_data m)"
    and "\<And>p. em_parent m = Some p \<Longrightarrow> hm_contains es p"
    and "insert_entity tid m es = (outcome, es')"
  shows "tree_wf es'"
  unfolding tree_wf_def
proof (intro conjI allI impI)
  show "hm_wf es'" using tree_wfD(1) [OF assms(1)] assms(5) insert_entity_hm_wf by blast
next
  fix x node assume "hm_get es' x = Some node"
  then show "em_topic_id (node_metadata node) = x"
    using assms(2) tree_wfD(2) [OF assms(1)] insert_entity_get [OF assms(5), of x]
    by (auto simp: node_new_def merge_metadata_def split: if_splits option.splits)
next
  fix x node assume "hm_get es' x = Some node"
  then show "jmap_wf (em_twin_data (node_metadata node))"
    using assms(3) tree_wfD(3) [OF assms(1)] insert_entity_get [OF assms(5), of x]
    by (auto simp: node_new_def merge_metadata_def jmap_wf_extend split: if_splits option.splits)
next
  fix x node p assume x: "hm_get es' x = Some node" and p: "em_parent (node_metadata node) = Some p"
  show "\<exists>pn. hm_get es' p = Some pn \<and> x \<in> set (node_children pn)"
  proof (cases "x = tid")
    case True
    then have par: "em_parent m = Some p"
      using x p insert_entity_get [OF assms(5), of x]
      by (auto simp: node_new_def merge_metadata_def split: if_splits option.splits)
    then have "hm_get es p \<noteq> None" using assms(4) by (simp add: hm_contains_def)
    with par True show ?thesis
      using insert_entity_get [OF assms(5), of p] by (auto split: option.splits)
  next
    case False
    then obtain node' where "hm_get es x = Some node'" "node_metadata node = node_metadata node'"
      using x insert_entity_get [OF assms(5), of x] by (auto split: if_splits)
    with tree_wfD(4) [OF assms(1)] p obtain pn where
      "hm_get es p = Some pn" "x \<in> set (node_children pn)" by metis
    then show ?thesis
      using insert_entity_get [OF assms(5), of p] by (auto split: option.splits)
  qed
qed

lemma tree_wf_remove [inv_intros]:
  assumes "iteration_rule iter" "tree_wf es" "remove_nodes iter cs es removed = (es', removed')"
  shows "tree_wf es'"
proof -
  note wf = tree_wfD(1) [OF assms(2)]
  note spec = remove_nodes_spec [OF assms(1) wf assms(3)]
  have "\<exists>pn. hm_get es' p = Some pn \<and> x \<in> set (node_children pn)"
    if x: "hm_get es' x = Some node" and p: "em_parent (node_metadata node) = Some p" for x node p
  proof -
    from x spec have kept: "\<nexists>c. c \<in> set cs \<and> descends es c x" "hm_get es x = Some node"
      by (auto split: if_splits)
    with tree_wfD(4) [OF assms(2)] p obtain pn where
      pn: "hm_get es p = Some pn" "x \<in> set (node_children pn)" by blast
    have "\<nexists>c. c \<in> set cs \<and> descends es c p"
      using kept pn descends.child by (metis option.distinct(1))
    with pn spec show ?thesis by auto
  qed
  moreover have "hm_get es' x = Some node \<Longrightarrow> hm_get es x = Some node" for x node
    using spec by (auto split: if_splits)
  ultimately show ?thesis
    using spec tree_wfD(2,3) [OF assms(2)] unfolding tree_wf_def by blast
qed

text \<open>A main device with a child device and a service of that child.\<close>

definition example_metadata :: "entity_topic_id \<Rightarrow> entity_topic_id \<Rightarrow> entity_type \<Rightarrow> entity_metadata" where
  "example_metadata tid p ty =
     \<lparr>em_topic_id = tid, em_parent = Some p, em_type = ty, em_external_id = None, em_twin_data = []\<rparr>"

definition example_tree :: entity_tree where
  "example_tree = \<lparr>tree_main = ''device/main//'', tree_entities =
     [(''device/main//'', \<lparr>node_metadata = metadata_main_device, node_children = [''device/c1//'']\<rparr>),
      (''device/c1//'', \<lparr>node_metadata = example_metadata ''device/c1//'' ''device/main//'' ChildDevice,
         node_children = [''device/c1/service/s'']\<rparr>),
      (''device/c1/service/s'',
         \<lparr>node_metadata = example_metadata ''device/c1/service/s'' ''device/c1//'' Service,
          node_children = []\<rparr>)]\<rparr>"

lemma example_tree_built:
  "example_tree = snd (tree_insert ''device/c1/service/s''
     (example_metadata ''device/c1/service/s'' ''device/c1//'' Service)
     (snd (tree_insert ''device/c1//'' (example_metadata ''device/c1//'' ''device/main//'' ChildDevice)
       (tree_new default_main_device metadata_main_device))))"
  by code_simp

lemma iteration_rule_id [simp]: "iteration_rule (\<lambda>xs. xs)"
  by (simp add: iteration_rule_def)

lemma example_tree_wf [simp]: "tree_wf (tree_entities example_tree)"
  by (auto simp: tree_wf_def example_tree_def metadata_main_device_def example_metadata_def
      default_main_device_def)

text \<open>
  C33. Deregistering an entity removes it and exactly its descendants, returns the metadata of each
  removed entity once, leaves every other entity as it was, and never leaves an entity whose parent
  is gone.
\<close>

theorem tree_remove_spec:
  assumes "iteration_rule iter" "tree_wf (tree_entities t)" "tree_remove iter tid t = (removed, t')"
  shows "tree_wf (tree_entities t')
    \<and> (\<forall>x. tree_get t' x = (if descends (tree_entities t) tid x then None else tree_get t x))
    \<and> distinct (map em_topic_id removed)
    \<and> set removed = {m. \<exists>x. descends (tree_entities t) tid x \<and> tree_get t x = Some m}"
proof -
  obtain es' where r: "remove_nodes iter [tid] (tree_entities t) [] = (es', removed)"
    and t': "t' = t\<lparr>tree_entities := es'\<rparr>"
    using assms(3) by (auto simp: tree_remove_def split: prod.splits)
  note wf = tree_wfD(1) [OF assms(2)]
  from remove_nodes_spec [OF assms(1) wf r] obtain ids where
    get: "\<forall>x. hm_get es' x = (if descends (tree_entities t) tid x then None else hm_get (tree_entities t) x)"
    and ids: "removed = map (\<lambda>x. node_metadata (the (hm_get (tree_entities t) x))) ids" "distinct ids"
      "set ids = {x. descends (tree_entities t) tid x}"
    by auto
  have own: "em_topic_id (node_metadata (the (hm_get (tree_entities t) x))) = x" if "x \<in> set ids" for x
    using that ids(3) descends_dom tree_wfD(2) [OF assms(2)] by fastforce
  have "map em_topic_id removed = ids"
    using own ids(1) by (auto intro: map_idI)
  moreover have "set removed = {m. \<exists>x. descends (tree_entities t) tid x \<and> tree_get t x = Some m}"
    using ids(1,3) descends_dom by (fastforce simp: tree_get_def image_iff)
  moreover have "tree_wf es'" by (rule tree_wf_remove [OF assms(1,2) r])
  ultimately show ?thesis using get ids(2) t' by (auto simp: tree_get_def)
qed

theorem tree_remove_spec_witness:
  "tree_remove (\<lambda>xs. xs) ''device/c1//'' example_tree =
     ([example_metadata ''device/c1//'' ''device/main//'' ChildDevice,
       example_metadata ''device/c1/service/s'' ''device/c1//'' Service],
      snd (tree_remove (\<lambda>xs. xs) ''device/c1//'' example_tree))
   \<and> tree_wf (tree_entities (snd (tree_remove (\<lambda>xs. xs) ''device/c1//'' example_tree)))"
proof -
  let ?r = "tree_remove (\<lambda>xs. xs) ''device/c1//'' example_tree"
  have "fst ?r = [example_metadata ''device/c1//'' ''device/main//'' ChildDevice,
       example_metadata ''device/c1/service/s'' ''device/c1//'' Service]" by code_simp
  moreover have "tree_wf (tree_entities (snd ?r))"
    using tree_remove_spec [OF iteration_rule_id example_tree_wf prod.collapse [symmetric]] by blast
  ultimately show ?thesis by (metis prod.collapse)
qed

section \<open>Listing a tree without cycles\<close>

definition acyclic_tree :: "entities \<Rightarrow> bool" where
  "acyclic_tree es \<longleftrightarrow> (\<exists>rank :: entity_topic_id \<Rightarrow> nat.
     \<forall>a n c. hm_get es a = Some n \<longrightarrow> c \<in> set (node_children n) \<longrightarrow> hm_get es c \<noteq> None
       \<longrightarrow> rank a < rank c)"

lemma acyclic_insert_new:
  assumes "acyclic_tree es" "hm_get es tid = None" "em_parent m \<noteq> Some tid"
    and "insert_entity tid m es = (outcome, es')"
  shows "acyclic_tree es'"
proof -
  from assms(1) obtain rank :: "entity_topic_id \<Rightarrow> nat" where
    rank: "\<And>a n c. hm_get es a = Some n \<Longrightarrow> c \<in> set (node_children n) \<Longrightarrow> hm_get es c \<noteq> None
      \<Longrightarrow> rank a < rank c"
    unfolding acyclic_tree_def by blast
  obtain N where N: "\<And>a. a \<in> dom (hm_get es) \<Longrightarrow> rank a < N"
    using finite_nat_set_iff_bounded [of "rank ` dom (hm_get es)"] by (auto simp: finite_dom_map_of)
  have "(rank(tid := N)) a < (rank(tid := N)) c"
    if "hm_get es' a = Some n" "c \<in> set (node_children n)" "hm_get es' c \<noteq> None" for a n c
    using that assms(2,3) insert_entity_get [OF assms(4), of a] insert_entity_get [OF assms(4), of c]
      rank [of a _ c] N [of a]
    by (auto simp: node_new_def split: if_splits option.splits)
  then show ?thesis unfolding acyclic_tree_def by blast
qed

lemma acyclic_subtree:
  "acyclic_tree es \<Longrightarrow> (\<And>x n. hm_get es' x = Some n \<Longrightarrow> hm_get es x = Some n) \<Longrightarrow> acyclic_tree es'"
  unfolding acyclic_tree_def by (metis not_None_eq)

inductive visits :: "entities \<Rightarrow> list_filters \<Rightarrow> entity_topic_id \<Rightarrow> entity_topic_id \<Rightarrow> bool" for es f where
  here: "hm_get es a \<noteq> None \<Longrightarrow> visits es f a a"
| below: "hm_get es a = Some node \<Longrightarrow> follows f a \<Longrightarrow> c \<in> set (node_children node)
    \<Longrightarrow> visits es f c x \<Longrightarrow> visits es f a x"

lemma visits_dom: "visits es f a x \<Longrightarrow> hm_get es a \<noteq> None \<and> hm_get es x \<noteq> None"
  by (induction rule: visits.induct) auto

lemma visits_step:
  "hm_get es a = Some node \<Longrightarrow>
   visits es f a x \<longleftrightarrow> x = a \<or> follows f a \<and> (\<exists>c \<in> set (node_children node). visits es f c x)"
  by (subst visits.simps) auto

lemma visits_descends:
  assumes "lf_parent f = None"
  shows "visits es f a x \<longleftrightarrow> descends es a x"
proof
  assume "visits es f a x"
  then show "descends es a x"
  proof (induction rule: visits.induct)
    case (below a node c x)
    then have "descends es a c"
      using descends_dom by (blast intro: descends.intros)
    with below show ?case by (blast intro: descends_through)
  qed (auto intro: descends.self)
next
  have snoc: "visits es f a b \<Longrightarrow> hm_get es b = Some n \<Longrightarrow> c \<in> set (node_children n)
      \<Longrightarrow> hm_get es c \<noteq> None \<Longrightarrow> visits es f a c" for a b n c
  proof (induction rule: visits.induct)
    case (here a)
    have "follows f a" by (simp add: follows_def assms)
    from visits.below [OF here(2) this here(3) visits.here [OF here(4)]] show ?case .
  qed (blast intro: visits.below)
  assume "descends es a x"
  then show "visits es f a x"
    by (induction rule: descends.induct) (auto intro: visits.here snoc)
qed

lemma children_of_ids:
  "iteration_rule iter \<Longrightarrow> hm_get es a = Some node \<Longrightarrow>
   set (map fst (children_of iter es a)) = {c \<in> set (node_children node). hm_get es c \<noteq> None}"
  by (force simp: children_of_def map_filter_def image_iff)

lemma list_loop_total:
  assumes "iteration_rule iter" "acyclic_tree es" "\<forall>q \<in> set queue. hm_get es q \<noteq> None"
  shows "\<exists>ms. list_loop iter es f queue acc = Some (Some ms)
    \<and> set ms = set acc \<union> {node_metadata n | n x. hm_get es x = Some n
         \<and> (\<exists>q \<in> set queue. visits es f q x) \<and> filter_matches f (node_metadata n)}"
proof -
  from assms(2) obtain rank :: "entity_topic_id \<Rightarrow> nat" where
    rank: "\<And>a n c. hm_get es a = Some n \<Longrightarrow> c \<in> set (node_children n) \<Longrightarrow> hm_get es c \<noteq> None
      \<Longrightarrow> rank a < rank c"
    unfolding acyclic_tree_def by blast
  obtain N where N: "\<And>a. hm_get es a \<noteq> None \<Longrightarrow> rank a < N"
    using finite_nat_set_iff_bounded [of "rank ` dom (hm_get es)"] by (auto simp: finite_dom_map_of)
  let ?w = "\<lambda>q. N - rank q"
  have wf: "wf (inv_image (mult1 less_than) (\<lambda>q. mset (map ?w q)))"
    by (intro wf_inv_image wf_mult1 wf_less_than)
  from wf assms(3) show ?thesis
  proof (induction queue arbitrary: acc rule: wf_induct_rule)
    case (less queue)
    show ?case
    proof (cases queue)
      case Nil
      then show ?thesis by (simp add: list_loop.simps)
    next
      case (Cons tid rest)
      with less.prems obtain node where node: "hm_get es tid = Some node" by auto
      let ?kids = "if follows f tid then map fst (children_of iter es tid) else []"
      let ?acc = "if filter_matches f (node_metadata node) then acc @ [node_metadata node] else acc"
      have kids: "set ?kids = {c \<in> set (node_children node). follows f tid \<and> hm_get es c \<noteq> None}"
        using children_of_ids [OF assms(1) node] by auto
      have "\<forall>c \<in> set ?kids. ?w c < ?w tid"
        using kids rank [OF node] N by (force intro: diff_less_mono2)
      then have "(mset (map ?w (rest @ ?kids)), mset (map ?w queue)) \<in> mult1 less_than"
        using Cons by (intro mult1I [where a = "?w tid" and ?M0.0 = "mset (map ?w rest)"
              and K = "mset (map ?w ?kids)"]) auto
      then have "(rest @ ?kids, queue) \<in> inv_image (mult1 less_than) (\<lambda>q. mset (map ?w q))"
        by simp
      moreover have "\<forall>q \<in> set (rest @ ?kids). hm_get es q \<noteq> None"
        using less.prems Cons kids by auto
      ultimately obtain ms where ms: "list_loop iter es f (rest @ ?kids) ?acc = Some (Some ms)"
        "set ms = set ?acc \<union> {node_metadata n | n x. hm_get es x = Some n
           \<and> (\<exists>q \<in> set (rest @ ?kids). visits es f q x) \<and> filter_matches f (node_metadata n)}"
        using less.IH [of "rest @ ?kids" ?acc] by blast
      have "list_loop iter es f queue acc = Some (Some ms)"
        using Cons node ms(1) by (simp add: list_loop.simps [of iter es f "tid # rest"])
      moreover have "(\<exists>q \<in> set queue. visits es f q x)
          \<longleftrightarrow> x = tid \<or> (\<exists>q \<in> set (rest @ ?kids). visits es f q x)" for x
      proof -
        have "visits es f tid x \<longleftrightarrow> x = tid \<or> (\<exists>q \<in> set ?kids. visits es f q x)"
          unfolding visits_step [OF node] kids using visits_dom [of es f _ x] by blast
        then show ?thesis unfolding Cons set_append list.set bex_Un by blast
      qed
      moreover have "set ms = set acc \<union> {node_metadata n | n x. hm_get es x = Some n
          \<and> (x = tid \<or> (\<exists>q \<in> set (rest @ ?kids). visits es f q x))
          \<and> filter_matches f (node_metadata n)}"
        unfolding ms(2) using node by (cases "filter_matches f (node_metadata node)") fastforce+
      ultimately show ?thesis by (intro exI [of _ ms]) simp
    qed
  qed
qed

text \<open>
  C34. On a tree without cycles the listing returns, without panic, exactly the entities below its
  starting point that match the filters; with a parent filter and no root these are all the
  registered entities with that parent and the requested type.
\<close>

theorem list_entity_tree_complete:
  assumes "iteration_rule iter" "acyclic_tree (tree_entities t)" "tree_wf (tree_entities t)"
  shows "\<exists>ms. list_entity_tree iter t f = Some (Some ms)
    \<and> (lf_parent f = None \<longrightarrow> set ms = {m. \<exists>x. descends (tree_entities t) (start_root t f) x
          \<and> tree_get t x = Some m \<and> filter_matches f m})
    \<and> (lf_root f = None \<longrightarrow> lf_parent f \<noteq> None \<longrightarrow>
          set ms = {m. \<exists>x. tree_get t x = Some m \<and> filter_matches f m})"
proof (cases "hm_get (tree_entities t) (start_root t f)")
  case None
  then have "list_entity_tree iter t f = Some (Some [])"
    by (simp add: list_entity_tree_def tree_contains_key_def hm_contains_def)
  moreover have "\<not> filter_matches f m"
    if "lf_root f = None" "lf_parent f = Some p" "tree_get t x = Some m" for p x m
  proof
    assume "filter_matches f m"
    with that have "em_parent m = Some p" by (simp add: filter_matches_def split: if_splits)
    moreover from that(3) obtain node where "hm_get (tree_entities t) x = Some node" "m = node_metadata node"
      by (auto simp: tree_get_def)
    ultimately show False using tree_wfD(4) [OF assms(3)] None that by (fastforce simp: start_root_def)
  qed
  ultimately show ?thesis using None descends_dom by (fastforce intro!: exI [of _ "[]"])
next
  case (Some node)
  let ?r = "start_root t f"
  from Some have q: "\<forall>q \<in> set [?r]. hm_get (tree_entities t) q \<noteq> None" by simp
  from list_loop_total [OF assms(1,2) q, of f "[]"] obtain ms where
    ms: "list_loop iter (tree_entities t) f [?r] [] = Some (Some ms)"
    "set ms = {node_metadata n | n x. hm_get (tree_entities t) x = Some n
       \<and> visits (tree_entities t) f ?r x \<and> filter_matches f (node_metadata n)}"
    by auto
  have "list_entity_tree iter t f = Some (Some ms)"
    using Some ms(1) by (simp add: list_entity_tree_def tree_contains_key_def hm_contains_def)
  moreover have "lf_parent f = None \<longrightarrow> set ms = {m. \<exists>x. descends (tree_entities t) ?r x
          \<and> tree_get t x = Some m \<and> filter_matches f m}"
    using ms(2) visits_descends [of f] by (auto simp: tree_get_def)
  moreover have all: "visits (tree_entities t) f ?r x"
    if "lf_root f = None" "lf_parent f = Some p" "hm_get (tree_entities t) x = Some n"
      "filter_matches f (node_metadata n)" for p x n
  proof -
    have p: "?r = p" "follows f p" using that by (simp_all add: start_root_def follows_def)
    have "em_parent (node_metadata n) = Some p"
      using that by (simp add: filter_matches_def split: if_splits)
    with tree_wfD(4) [OF assms(3) that(3)] obtain pn where
      "hm_get (tree_entities t) p = Some pn" "x \<in> set (node_children pn)" by blast
    with p that(3) show ?thesis by (auto intro: visits.intros)
  qed
  moreover have "set ms = {m. \<exists>x. tree_get t x = Some m \<and> filter_matches f m}"
    if "lf_root f = None" "lf_parent f \<noteq> None"
    using all that unfolding ms(2) tree_get_def by fastforce
  ultimately show ?thesis by (intro exI [of _ ms]) simp
qed

lemma example_tree_acyclic [simp]: "acyclic_tree (tree_entities example_tree)"
  unfolding acyclic_tree_def
  by (rule exI [of _ "\<lambda>x. if x = ''device/main//'' then 0 else if x = ''device/c1//'' then 1 else 2"])
    (auto simp: example_tree_def split: if_splits)

theorem list_entity_tree_complete_witness:
  "\<exists>ms. list_entity_tree (\<lambda>xs. xs) example_tree
        \<lparr>lf_root = None, lf_parent = Some ''device/c1//'', lf_type = Some Service\<rparr> = Some (Some ms)
     \<and> set ms = {m. \<exists>x. tree_get example_tree x = Some m \<and> filter_matches
        \<lparr>lf_root = None, lf_parent = Some ''device/c1//'', lf_type = Some Service\<rparr> m}"
  using list_entity_tree_complete [OF iteration_rule_id example_tree_acyclic example_tree_wf,
      of "\<lparr>lf_root = None, lf_parent = Some ''device/c1//'', lf_type = Some Service\<rparr>"]
  by simp

text \<open>A node that is its own child is visited again and again.\<close>

lemma list_loop_diverges:
  assumes "iteration_rule iter" "lf_parent f = None" "hm_get es x = Some node" "x \<in> set (node_children node)"
    and "x \<in> set queue" "\<forall>q \<in> set queue. hm_get es q \<noteq> None"
  shows "list_loop iter es f queue acc = None"
proof (rule ccontr)
  assume "list_loop iter es f queue acc \<noteq> None"
  then obtain r where ret: "list_loop iter es f queue acc = Some r" by blast
  have "\<not> (x \<in> set queue \<and> (\<forall>q \<in> set queue. hm_get es q \<noteq> None)
      \<and> iteration_rule iter \<and> lf_parent f = None \<and> hm_get es x = Some node
      \<and> x \<in> set (node_children node))"
  proof (rule list_loop.raw_induct [where P = "\<lambda>iter es f queue acc r.
      \<not> (x \<in> set queue \<and> (\<forall>q \<in> set queue. hm_get es q \<noteq> None)
      \<and> iteration_rule iter \<and> lf_parent f = None \<and> hm_get es x = Some node
      \<and> x \<in> set (node_children node))", OF _ ret])
    fix loop iter es f queue acc r
    assume IH: "\<And>iter es f queue acc r. loop iter es f queue acc = Some r \<Longrightarrow>
        \<not> (x \<in> set queue \<and> (\<forall>q \<in> set queue. hm_get es q \<noteq> None) \<and> iteration_rule iter
          \<and> lf_parent f = None \<and> hm_get es x = Some node \<and> x \<in> set (node_children node))"
      and eq: "(case queue of [] \<Rightarrow> Some (Some acc)
        | tid # rest \<Rightarrow> (case hm_get es tid of None \<Rightarrow> Some None
           | Some n \<Rightarrow> loop iter es f
               (rest @ (if follows f tid then map fst (children_of iter es tid) else []))
               (if filter_matches f (node_metadata n) then acc @ [node_metadata n] else acc))) = Some r"
    show "\<not> (x \<in> set queue \<and> (\<forall>q \<in> set queue. hm_get es q \<noteq> None) \<and> iteration_rule iter
          \<and> lf_parent f = None \<and> hm_get es x = Some node \<and> x \<in> set (node_children node))"
    proof
      assume A: "x \<in> set queue \<and> (\<forall>q \<in> set queue. hm_get es q \<noteq> None) \<and> iteration_rule iter
          \<and> lf_parent f = None \<and> hm_get es x = Some node \<and> x \<in> set (node_children node)"
      then obtain tid rest n where q: "queue = tid # rest" "hm_get es tid = Some n"
        by (cases queue) auto
      have f: "follows f tid" using A by (simp add: follows_def)
      have kids: "set (map fst (children_of iter es tid))
          = {c \<in> set (node_children n). hm_get es c \<noteq> None}"
        using A q children_of_ids by blast
      have "loop iter es f (rest @ map fst (children_of iter es tid))
          (if filter_matches f (node_metadata n) then acc @ [node_metadata n] else acc) = Some r"
        using eq q f by simp
      from IH [OF this] show False using A q kids by auto
    qed
  qed
  with assms show False by blast
qed

end
