(* ===== verification/Message_Log.thy ===== *)
theory Message_Log
  imports Mqtt_Channel
begin

text \<open>
  The persistent log of MQTT messages (\<^verbatim>\<open>tedge_api/src/store/message_log.rs\<close>): a header line, then
  one JSON line per message.  The writer is buffered: a line reaches the file when a flush succeeds.
  The outcomes of the file operations are inputs of the model (\<open>log_io\<close>, one outcome per appended
  message, success once the list is exhausted).  The serialisation of a message as a line is derived
  code of \<^verbatim>\<open>serde\<close>: a parameter.
\<close>

record log_codec =
  line_of_message :: "mqtt_message \<Rightarrow> string"
  message_of_line :: "string \<Rightarrow> mqtt_message option"
  is_utf8 :: "string \<Rightarrow> bool"

text \<open>
  What the log relies on: a line is a text, a message whose payload is a text is read back from its line,
  and an empty payload is a text.
\<close>

definition codec_rule :: "log_codec \<Rightarrow> bool" where
  "codec_rule C \<longleftrightarrow>
     (\<forall>m. is_utf8 C (line_of_message C m)
        \<and> (is_utf8 C (mm_payload m) \<longrightarrow> message_of_line C (line_of_message C m) = Some m)) \<and> is_utf8 C []"

text \<open>The message of a line, when the line can be read as a text and parsed.\<close>

definition line_message :: "log_codec \<Rightarrow> string \<Rightarrow> mqtt_message option" where
  "line_message C line = (if is_utf8 C line then message_of_line C line else None)"

lemma codec_roundtrip:
  "codec_rule C \<Longrightarrow> is_utf8 C (mm_payload m) \<Longrightarrow> line_message C (line_of_message C m) = Some m"
  by (simp add: codec_rule_def line_message_def)

datatype io_outcome = Io_ok | Flush_failed | Sync_failed

record message_log =
  log_file :: "string list"
  log_buffer :: "string list"
  log_io :: "io_outcome list"

abbreviation LOG_HEADER :: string where
  "LOG_HEADER \<equiv> ''{\"version\":\"1.0\"}''"

definition log_writer_new :: "string list \<Rightarrow> io_outcome list \<Rightarrow> message_log" where
  "log_writer_new file io =
     \<lparr>log_file = file, log_buffer = (if file = [] then [LOG_HEADER] else []), log_io = io\<rparr>"

definition log_writer_new_truncated :: "string list \<Rightarrow> io_outcome list \<Rightarrow> message_log" where
  "log_writer_new_truncated file io = log_writer_new [] io"

definition append_message ::
  "log_codec \<Rightarrow> mqtt_message \<Rightarrow> message_log \<Rightarrow> (unit + unit) \<times> message_log" where
  "append_message C m w =
     (let buffer = log_buffer w @ [line_of_message C m];
          outcome = (case log_io w of [] \<Rightarrow> Io_ok | o1 # _ \<Rightarrow> o1);
          w' = w\<lparr>log_io := tl (log_io w)\<rparr>
      in case outcome of
           Io_ok \<Rightarrow> (Inr (), w'\<lparr>log_file := log_file w @ buffer, log_buffer := []\<rparr>)
         | Flush_failed \<Rightarrow> (Inl (), w'\<lparr>log_buffer := buffer\<rparr>)
         | Sync_failed \<Rightarrow> (Inl (), w'\<lparr>log_file := log_file w @ buffer, log_buffer := []\<rparr>))"

text \<open>
  A reader holds the lines still to be read; its constructor skips the header line without looking
  at it.
\<close>

definition log_reader_new :: "string list \<Rightarrow> string list" where
  "log_reader_new file = drop 1 file"

datatype log_entry_error = FromStdIo_entry | FromSerdeJson_entry string

text \<open>
  A line that is no valid text is an error of \<^verbatim>\<open>read_line\<close>, after which the reader stands at the next line.
  A file whose reads fail again and again (a broken disk) is not modelled: the loop of the store would not end.
\<close>

fun next_message ::
  "log_codec \<Rightarrow> string list \<Rightarrow> (log_entry_error + mqtt_message option) \<times> string list" where
  "next_message C [] = (Inr None, [])"
| "next_message C (line # rest) =
     (if \<not> is_utf8 C line then (Inl FromStdIo_entry, rest)
      else case message_of_line C line of
             None \<Rightarrow> (Inl (FromSerdeJson_entry line), rest)
           | Some m \<Rightarrow> (Inr (Some m), rest))"

lemma next_message_less:
  "next_message C reader = (x, rest) \<Longrightarrow> x \<noteq> Inr None \<Longrightarrow> length rest < length reader"
  by (cases reader) (auto split: option.splits if_splits)

text \<open>All the messages a reader returns, in order; lines that cannot be read or parsed are skipped.\<close>

definition log_messages :: "log_codec \<Rightarrow> string list \<Rightarrow> mqtt_message list" where
  "log_messages C file = List.map_filter (line_message C) (log_reader_new file)"

section \<open>What is appended is read back\<close>

definition log_synced :: "message_log \<Rightarrow> bool" where
  "log_synced w \<longleftrightarrow> (if log_file w = [] then log_buffer w = [LOG_HEADER] else log_buffer w = [])"

text \<open>What the file holds once the buffer is flushed, as the drop of the writer does.\<close>

definition log_contents :: "message_log \<Rightarrow> string list" where
  "log_contents w = log_file w @ log_buffer w"

lemma log_writer_new_contents [simp]:
  "log_contents (log_writer_new file io) = (if file = [] then [LOG_HEADER] else file)"
  by (simp add: log_contents_def log_writer_new_def)

lemma append_message_contents [simp]:
  "log_contents (snd (append_message C m w)) = log_contents w @ [line_of_message C m]"
  by (auto simp: append_message_def log_contents_def Let_def split: io_outcome.split list.split)

lemma append_message_no_faults:
  "log_io w = [] \<Longrightarrow> fst (append_message C m w) = Inr () \<and> log_io (snd (append_message C m w)) = []"
  by (simp add: append_message_def Let_def)

lemma log_messages_append:
  assumes "codec_rule C" "is_utf8 C (mm_payload m)" "file \<noteq> []"
  shows "log_messages C (file @ [line_of_message C m]) = log_messages C file @ [m]"
proof -
  obtain h t where "file = h # t" using assms(3) by (meson neq_Nil_conv)
  with codec_roundtrip [OF assms(1,2)] show ?thesis
    by (simp add: log_messages_def log_reader_new_def map_filter_def)
qed

fun append_all :: "log_codec \<Rightarrow> mqtt_message list \<Rightarrow> message_log \<Rightarrow> message_log" where
  "append_all C [] w = w"
| "append_all C (m # ms) w = append_all C ms (snd (append_message C m w))"

lemma append_all_contents:
  "log_contents (append_all C ms w) = log_contents w @ map (line_of_message C) ms"
  by (induction ms arbitrary: w) simp_all

text \<open>
  The log loses and reorders nothing, whatever the outcomes of the flushes: once the writer is
  closed, a reader of the file returns the messages that were in it followed by the appended ones, in
  order; a truncating writer starts from an empty log.
\<close>

lemma message_log_append_and_retrieve:
  assumes "codec_rule C" "\<forall>m \<in> set ms. is_utf8 C (mm_payload m)"
  shows "log_messages C (log_contents (append_all C ms (log_writer_new file io)))
      = log_messages C file @ ms
    \<and> log_messages C (log_contents (append_all C ms (log_writer_new_truncated file io))) = ms"
proof -
  have read: "List.map_filter (line_message C) (map (line_of_message C) ms) = ms"
    using assms(2) codec_roundtrip [OF assms(1)] by (induction ms) (auto simp: map_filter_simps)
  have tail: "log_messages C (contents @ map (line_of_message C) ms)
      = log_messages C contents @ ms" if "contents \<noteq> []" for contents
    using that read by (auto simp: neq_Nil_conv log_messages_def log_reader_new_def map_filter_def)
  have "log_messages C [] = []" "log_messages C [LOG_HEADER] = []"
    by (simp_all add: log_messages_def log_reader_new_def map_filter_simps)
  then show ?thesis
    using tail [of "file"] tail [of "[LOG_HEADER]"] by (simp add: append_all_contents log_writer_new_truncated_def)
qed

text \<open>A codec that satisfies the rule: the length of the topic comes first, in unary.\<close>

definition flag_char :: "bool \<Rightarrow> char" where
  "flag_char b = (if b then CHR ''1'' else CHR ''0'')"

definition length_codec :: log_codec where
  "length_codec =
     \<lparr>line_of_message = (\<lambda>m. flag_char (mm_retain m) # flag_char (mm_qos m = AtMostOnce)
          # flag_char (mm_qos m = ExactlyOnce)
          # replicate (length (topic_name (mm_topic m))) CHR ''x''
          @ CHR '':'' # topic_name (mm_topic m) @ mm_payload m),
      message_of_line = (\<lambda>l. case l of
          r # q0 # q2 # rest \<Rightarrow>
            (let n = length (takeWhile (\<lambda>c. c = CHR ''x'') rest); body = drop (Suc n) rest
             in Some \<lparr>mm_topic = \<lparr>topic_name = take n body\<rparr>, mm_payload = drop n body,
                      mm_qos = (if q0 = CHR ''1'' then AtMostOnce
                                else if q2 = CHR ''1'' then ExactlyOnce else AtLeastOnce),
                      mm_retain = (r = CHR ''1'')\<rparr>)
        | _ \<Rightarrow> None),
      is_utf8 = (\<lambda>_. True)\<rparr>"

lemma length_codec_rule [simp]: "codec_rule length_codec"
proof -
  have unary: "takeWhile (\<lambda>c. c = CHR ''x'') (replicate n CHR ''x'' @ CHR '':'' # s)
      = replicate n CHR ''x''" for n and s :: string
    by (induction n) simp_all
  have "message_of_line length_codec (line_of_message length_codec m) = Some m" for m
    by (cases m; cases "mm_topic m"; cases "mm_qos m")
      (simp_all add: length_codec_def flag_char_def unary Let_def)
  moreover have "is_utf8 length_codec l" for l by (simp add: length_codec_def)
  ultimately show ?thesis by (simp add: codec_rule_def)
qed

lemma is_utf8_length_codec [simp]: "is_utf8 length_codec s"
  by (simp add: length_codec_def)

lemma message_log_append_and_retrieve_instance:
  "log_messages length_codec (log_contents (append_all length_codec
       [message_new (topic_new_unchecked ''topic1'') ''payload1'',
        message_new (topic_new_unchecked ''topic2'') ''payload2'']
       (log_writer_new [] [Flush_failed, Io_ok])))
     = [message_new (topic_new_unchecked ''topic1'') ''payload1'',
        message_new (topic_new_unchecked ''topic2'') ''payload2'']"
proof -
  have "log_messages length_codec [] = []" by code_simp
  then show ?thesis
    using message_log_append_and_retrieve [OF length_codec_rule,
        of "[message_new (topic_new_unchecked ''topic1'') ''payload1'',
        message_new (topic_new_unchecked ''topic2'') ''payload2'']" "[]" "[Flush_failed, Io_ok]"]
    by (simp add: is_utf8_length_codec)
qed

end
