(* ===== verification/Entity_Store.thy ===== *)
theory Entity_Store
  imports Pending_Store Entity_Tree Message_Log
begin

text \<open>
  The store of registered entities (\<^verbatim>\<open>EntityStore\<close> of \<^verbatim>\<open>tedge_api/src/entity_store.rs\<close>): the tree of
  entities, the pending store for early messages and the persistent log.  Operations take the state
  and return a result (an error or a value) with the new state; a panic of the source is a missing
  outcome.  The libraries the store calls are the fields of an environment.
\<close>

record env =
  env_mqtt :: rumqttc
  env_json :: serde
  env_codec :: log_codec
  env_iter :: iteration

datatype store_error =
    NoParent string
  | NoMainDevice
  | MainDeviceAlreadyRegistered string
  | EntityAlreadyRegistered entity_topic_id
  | UnknownEntity string
  | NonDefaultTopicScheme entity_topic_id
  | EntityRegistrationOtherNotMap
  | FromStdIoError
  | FromSerdeJson

datatype init_error = InitCustom string

record entity_store =
  st_schema :: mqtt_schema
  st_main :: entity_topic_id
  st_tree :: entity_tree
  st_pending :: pending_store
  st_log :: message_log

type_synonym 'a outcome = "(store_error + 'a) \<times> entity_store"

abbreviation registered :: "entity_store \<Rightarrow> entity_topic_id \<Rightarrow> bool" where
  "registered s tid \<equiv> tree_contains_key (st_tree s) tid"

section \<open>Queries\<close>

definition store_get :: "entity_store \<Rightarrow> entity_topic_id \<Rightarrow> entity_metadata option" where
  "store_get s tid = tree_get (st_tree s) tid"

definition store_try_get :: "entity_store \<Rightarrow> entity_topic_id \<Rightarrow> store_error + entity_metadata" where
  "store_try_get s tid =
     (case store_get s tid of None \<Rightarrow> Inl (UnknownEntity tid) | Some m \<Rightarrow> Inr m)"

definition child_devices :: "env \<Rightarrow> entity_store \<Rightarrow> entity_topic_id \<Rightarrow> entity_topic_id list" where
  "child_devices E s tid =
     map fst (filter (\<lambda>(_, e). em_type e = ChildDevice) (tree_children (env_iter E) (st_tree s) tid))"

definition services :: "env \<Rightarrow> entity_store \<Rightarrow> entity_topic_id \<Rightarrow> entity_topic_id list" where
  "services E s tid =
     map fst (filter (\<lambda>(_, e). em_type e = Service) (tree_children (env_iter E) (st_tree s) tid))"

definition store_list_entity_tree ::
  "env \<Rightarrow> list_filters \<Rightarrow> entity_store \<Rightarrow> entity_metadata list panics option" where
  "store_list_entity_tree E f s = list_entity_tree (env_iter E) (st_tree s) f"

section \<open>Registration\<close>

text \<open>The parent of the registered entity: explicit, derived from the topic, or the main device.\<close>

definition effective_parent :: "entity_topic_id \<Rightarrow> registration \<Rightarrow> entity_topic_id option" where
  "effective_parent main r =
     (case reg_type r of
        MainDevice \<Rightarrow> None
      | ChildDevice \<Rightarrow> (case reg_parent r of Some p \<Rightarrow> Some p | None \<Rightarrow> Some main)
      | Service \<Rightarrow> (case reg_parent r of
            Some p \<Rightarrow> Some p
          | None \<Rightarrow> (case default_service_parent_identifier (reg_topic_id r) of
                Some p \<Rightarrow> Some p | None \<Rightarrow> Some main)))"

definition registration_metadata :: "entity_topic_id \<Rightarrow> registration \<Rightarrow> entity_metadata" where
  "registration_metadata main r =
     \<lparr>em_topic_id = reg_topic_id r, em_parent = effective_parent main r, em_type = reg_type r,
      em_external_id = reg_external_id r, em_twin_data = reg_twin_data r\<rparr>"

definition register_entity :: "registration \<Rightarrow> entity_store \<Rightarrow> entity_topic_id list outcome" where
  "register_entity r s =
     (let parent = effective_parent (st_main s) r in
      case parent of
        Some p \<Rightarrow>
          if \<not> registered s p then (Inl (NoParent p), s)
          else (case tree_insert (reg_topic_id r) (registration_metadata (st_main s) r) (st_tree s) of
                  (outcome, t) \<Rightarrow>
                    (Inr (case outcome of Unchanged \<Rightarrow> [] | Inserted \<Rightarrow> [p]
                          | Updated \<Rightarrow> [p, reg_topic_id r]), s\<lparr>st_tree := t\<rparr>))
      | None \<Rightarrow>
          (case tree_insert (reg_topic_id r) (registration_metadata (st_main s) r) (st_tree s) of
             (outcome, t) \<Rightarrow>
               (Inr (case outcome of Unchanged \<Rightarrow> [] | Inserted \<Rightarrow> [] | Updated \<Rightarrow> [reg_topic_id r]),
                s\<lparr>st_tree := t\<rparr>)))"

text \<open>Append to the log; an error of the file is an error of the store.\<close>

definition persist :: "env \<Rightarrow> mqtt_message \<Rightarrow> 'a \<Rightarrow> entity_store \<Rightarrow> 'a outcome" where
  "persist E m x s =
     (case append_message (env_codec E) m (st_log s) of
        (Inl _, w) \<Rightarrow> (Inl FromStdIoError, s\<lparr>st_log := w\<rparr>)
      | (Inr _, w) \<Rightarrow> (Inr x, s\<lparr>st_log := w\<rparr>))"

definition register_and_persist_entity ::
  "env \<Rightarrow> registration \<Rightarrow> entity_store \<Rightarrow> entity_topic_id list outcome panics" where
  "register_and_persist_entity E r s =
     (case register_entity r s of
        (Inl e, s') \<Rightarrow> Some (Inl e, s')
      | (Inr affected, s') \<Rightarrow>
          if affected = [] then Some (Inr [], s')
          else do {
            m \<leftarrow> registration_to_message (env_mqtt E) (env_json E) (st_schema s') r;
            Some (persist E m affected s') })"

text \<open>The loop of \<^verbatim>\<open>update\<close> over the pending children; the first error ends it.\<close>

fun register_pending ::
  "env \<Rightarrow> registered_data list \<Rightarrow> registered_data list \<Rightarrow> entity_store
     \<Rightarrow> registered_data list outcome panics" where
  "register_pending E [] acc s = Some (Inr acc, s)"
| "register_pending E (d # ds) acc s = do {
     (res, s') \<leftarrow> register_and_persist_entity E (rd_reg d) s;
     (case res of
        Inl e \<Rightarrow> Some (Inl e, s')
      | Inr _ \<Rightarrow> register_pending E ds (acc @ [d]) s') }"

definition store_update :: "env \<Rightarrow> registration \<Rightarrow> entity_store \<Rightarrow> registered_data list outcome panics" where
  "store_update E r s = do {
     (res, s1) \<leftarrow> register_and_persist_entity E r s;
     (case res of
        Inr affected \<Rightarrow>
          if affected = [] then Some (Inr [], s1)
          else (case take_cached_entity_data (env_mqtt E) r (st_pending s1) of (current, ps1) \<Rightarrow> do {
            (children, ps2) \<leftarrow>
              take_cached_child_entities_data (env_mqtt E) (reg_topic_id r) ps1;
            register_pending E children [current] (s1\<lparr>st_pending := ps2\<rparr>) })
      | Inl (NoParent _) \<Rightarrow> do {
          ps \<leftarrow> cache_early_registration_message r (st_pending s1);
          Some (Inr [], s1\<lparr>st_pending := ps\<rparr>) }
      | Inl e \<Rightarrow> Some (Inl e, s1)) }"

fun auto_register_loop ::
  "env \<Rightarrow> registration list \<Rightarrow> registration list \<Rightarrow> entity_store \<Rightarrow> registration list outcome panics" where
  "auto_register_loop E [] acc s = Some (Inr acc, s)"
| "auto_register_loop E (r # rs) acc s =
     (if reg_type r \<noteq> MainDevice \<and> store_get s (reg_topic_id r) = None then do {
        (res, s') \<leftarrow> store_update E r s;
        (case res of
           Inl e \<Rightarrow> Some (Inl e, s')
         | Inr _ \<Rightarrow> auto_register_loop E rs (acc @ [r]) s') }
      else auto_register_loop E rs acc s)"

definition auto_register_entity ::
  "env \<Rightarrow> entity_topic_id \<Rightarrow> entity_store \<Rightarrow> registration list outcome panics" where
  "auto_register_entity E tid s = do {
     auto_entities \<leftarrow> default_schema_parse (env_mqtt E) tid;
     if auto_entities = [] then Some (Inl (NonDefaultTopicScheme tid), s)
     else auto_register_loop E auto_entities [] s }"

section \<open>Deregistration\<close>

definition deregister_entity :: "env \<Rightarrow> entity_topic_id \<Rightarrow> entity_store \<Rightarrow> entity_metadata list \<times> entity_store" where
  "deregister_entity E tid s =
     (case tree_remove (env_iter E) tid (st_tree s) of (removed, t) \<Rightarrow> (removed, s\<lparr>st_tree := t\<rparr>))"

definition deregister_and_persist_entity ::
  "env \<Rightarrow> entity_topic_id \<Rightarrow> entity_store \<Rightarrow> entity_metadata list outcome panics" where
  "deregister_and_persist_entity E tid s =
     (case deregister_entity E tid s of (removed, s') \<Rightarrow>
        if removed = [] then Some (Inr [], s')
        else do {
          t \<leftarrow> topic_for (env_mqtt E) (st_schema s') tid EntityMetadata;
          Some (persist E (with_qos AtLeastOnce (with_retain (message_new t []))) removed s') })"

section \<open>Twin data\<close>

definition update_twin_fragment :: "string \<Rightarrow> json \<Rightarrow> entity_metadata \<Rightarrow> bool \<times> entity_metadata" where
  "update_twin_fragment k v e =
     (let existing = bt_get (em_twin_data e) k in
      if is_null v then
        (existing \<noteq> None, e\<lparr>em_twin_data := bt_remove k (em_twin_data e)\<rparr>)
      else
        (existing \<noteq> Some v, e\<lparr>em_twin_data := bt_insert k v (em_twin_data e)\<rparr>))"

definition register_twin_data :: "twin_message \<Rightarrow> entity_store \<Rightarrow> bool outcome" where
  "register_twin_data w s =
     (case hm_get (tree_entities (st_tree s)) (tw_topic_id w) of
        None \<Rightarrow> (Inl (UnknownEntity (tw_topic_id w)), s)
      | Some node \<Rightarrow>
          (case update_twin_fragment (tw_key w) (tw_value w) (node_metadata node) of (updated, e) \<Rightarrow>
             (Inr updated,
              s\<lparr>st_tree := (st_tree s)\<lparr>tree_entities :=
                 hm_insert (tw_topic_id w) (node\<lparr>node_metadata := e\<rparr>) (tree_entities (st_tree s))\<rparr>\<rparr>)))"

definition register_and_persist_twin_data :: "env \<Rightarrow> twin_message \<Rightarrow> entity_store \<Rightarrow> bool outcome panics" where
  "register_and_persist_twin_data E w s =
     (case register_twin_data w s of
        (Inl e, s') \<Rightarrow> Some (Inl e, s')
      | (Inr updated, s') \<Rightarrow>
          if \<not> updated then Some (Inr updated, s')
          else do {
            m \<leftarrow> twin_to_message (env_mqtt E) (env_json E) (st_schema s') w;
            Some (persist E m updated s') })"

definition update_twin_data :: "env \<Rightarrow> twin_message \<Rightarrow> entity_store \<Rightarrow> bool outcome panics" where
  "update_twin_data E w s = register_and_persist_twin_data E w s"

definition store_cache_early_data_message :: "env \<Rightarrow> mqtt_message \<Rightarrow> entity_store \<Rightarrow> entity_store" where
  "store_cache_early_data_message E m s =
     s\<lparr>st_pending := cache_early_data_message (env_mqtt E) m (st_pending s)\<rparr>"

section \<open>Restart\<close>

text \<open>What the loading loop does with one message; every error is logged and ignored.\<close>

definition restore_message :: "env \<Rightarrow> mqtt_message \<Rightarrow> entity_store \<Rightarrow> entity_store" where
  "restore_message E m s =
     (case entity_channel_of (env_mqtt E) (st_schema s) (topic_name (mm_topic m)) of
        Inl _ \<Rightarrow> s
      | Inr (source, ch) \<Rightarrow>
          (case ch of
             EntityMetadata \<Rightarrow>
               (case registration_of_message (env_mqtt E) (env_json E) m of
                  None \<Rightarrow> s
                | Some r \<Rightarrow> snd (register_entity r s))
           | EntityTwinData k \<Rightarrow>
               (case (if payload_bytes m = [] then Some JNull
                      else json_of_text (env_json E) (payload_bytes m)) of
                  None \<Rightarrow> s
                | Some v \<Rightarrow> snd (register_twin_data (twin_message_new source k v) s))
           | _ \<Rightarrow> s))"

function load_loop :: "env \<Rightarrow> string list \<Rightarrow> entity_store \<Rightarrow> entity_store" where
  "load_loop E reader s =
     (case next_message (env_codec E) reader of
        (Inl _, rest) \<Rightarrow> load_loop E rest s
      | (Inr None, rest) \<Rightarrow> s
      | (Inr (Some m), rest) \<Rightarrow> load_loop E rest (restore_message E m s))"
  by pat_completeness auto
termination
  by (relation "measure (\<lambda>(E, reader, s). length reader)")
    (auto dest: next_message_less [OF sym])

declare load_loop.simps [simp del]

definition load_from_message_log :: "env \<Rightarrow> string list \<Rightarrow> entity_store \<Rightarrow> entity_store" where
  "load_from_message_log E file s = load_loop E (log_reader_new file) s"

text \<open>
  The constructor, for a log file with the given lines, whose opening succeeds or fails: for the writer this is
  an error of the constructor, for the reader (which also reads the header) an empty log.  The reader sees the
  lines that are in the file, not those of the buffer of the writer.
\<close>

datatype log_access = Log_open | Log_unreadable | Log_unwritable string

definition initial_store :: "mqtt_schema \<Rightarrow> registration \<Rightarrow> nat \<Rightarrow> message_log \<Rightarrow> entity_store" where
  "initial_store S main_device telemetry_cache_size log =
     \<lparr>st_schema = S, st_main = reg_topic_id main_device,
      st_tree = tree_new (reg_topic_id main_device)
        \<lparr>em_topic_id = reg_topic_id main_device, em_parent = None, em_type = reg_type main_device,
         em_external_id = None, em_twin_data = reg_twin_data main_device\<rparr>,
      st_pending = pending_new S telemetry_cache_size, st_log = log\<rparr>"

definition with_main_device ::
  "env \<Rightarrow> mqtt_schema \<Rightarrow> registration \<Rightarrow> nat \<Rightarrow> log_access \<Rightarrow> string list \<Rightarrow> io_outcome list \<Rightarrow> bool
     \<Rightarrow> init_error + entity_store" where
  "with_main_device E S main_device telemetry_cache_size access file io clean_start =
     (if reg_type main_device \<noteq> MainDevice then
        Inl (InitCustom ''Provided main device is not of type main-device'')
      else
        let log = (if clean_start then log_writer_new_truncated file io else log_writer_new file io);
            s = initial_store S main_device telemetry_cache_size log
        in (case access of
              Log_unwritable err \<Rightarrow> Inl (InitCustom (''Loading the entity store log for writes failed with '' @ err))
            | Log_unreadable \<Rightarrow> Inr s
            | Log_open \<Rightarrow> Inr (load_from_message_log E (log_file log) s)))"

section \<open>Every entity has its parent in the tree\<close>

text \<open>
  The invariant of the store: the tree is well-formed and so are the registrations that wait for
  their parent.
\<close>

definition pending_regs :: "(registration \<Rightarrow> bool) \<Rightarrow> pending_store \<Rightarrow> bool" where
  "pending_regs good ps \<longleftrightarrow>
     (\<forall>c pc r. hm_get (ps_entities ps) c = Some pc \<longrightarrow> pc_reg pc = Some r \<longrightarrow> good r)"

abbreviation store_entities :: "entity_store \<Rightarrow> entities" where
  "store_entities s \<equiv> tree_entities (st_tree s)"

definition store_inv :: "entity_store \<Rightarrow> bool" where
  "store_inv s \<longleftrightarrow> tree_wf (store_entities s) \<and> pending_regs typed_registration (st_pending s)"

lemma take_cached_entity_data_regs:
  "pending_regs good ps \<Longrightarrow> take_cached_entity_data L r ps = (d, ps') \<Longrightarrow> pending_regs good ps'"
  unfolding pending_regs_def take_cached_entity_data_def
  by (auto simp: Let_def delete_conv' dest!: take_telemetryD split: option.splits prod.splits if_splits)

lemma take_children_regs:
  "pending_regs good ps \<Longrightarrow> take_children L cs ps = Some (ds, ps')
    \<Longrightarrow> pending_regs good ps' \<and> list_all (good \<circ> rd_reg) ds"
proof (induction L cs ps arbitrary: ds ps' rule: take_children.induct)
  case (2 L c cs ps)
  show ?case
  proof (cases "hm_get (ps_entities ps) c")
    case None
    with 2 show ?thesis by simp
  next
    case (Some pc)
    let ?ps = "ps\<lparr>ps_entities := hm_remove c (ps_entities ps)\<rparr>"
    from Some 2(4) obtain d ps1 ds' where d: "registered_data_from_cache L pc ?ps = Some (d, ps1)"
      and rest: "take_children L (fst (take_orphans c ps1) @ cs) (snd (take_orphans c ps1)) = Some (ds', ps')"
      and ds: "ds = d # ds'"
      by (auto split: option.splits)
    have e: "ps_entities ps1 = hm_remove c (ps_entities ps)" "pc_reg pc = Some (rd_reg d)"
      using registered_data_entities [OF d] by simp_all
    have "pending_regs good (snd (take_orphans c ps1))"
      using 2(3) by (auto simp: pending_regs_def e(1) delete_conv' split: if_splits)
    from 2(2) [OF Some d refl this rest] show ?thesis
      using 2(3) Some e(2) by (auto simp: ds pending_regs_def)
  qed
qed simp

lemma take_cached_child_entities_regs:
  "pending_regs good ps \<Longrightarrow> take_cached_child_entities_data L tid ps = Some (ds, ps')
    \<Longrightarrow> pending_regs good ps' \<and> list_all (good \<circ> rd_reg) ds"
  unfolding take_cached_child_entities_data_def
  by (rule take_children_regs) (auto simp: pending_regs_def)

lemma cache_early_regs:
  "pending_regs good ps \<Longrightarrow> pending_regs good (cache_early_data_message L m ps)"
  "pending_regs good ps \<Longrightarrow> good r \<Longrightarrow> cache_early_registration_message r ps = Some ps'
    \<Longrightarrow> pending_regs good ps'"
  by (auto simp: pending_regs_def cache_early_data_message_def cache_early_registration_message_def
      Let_def update_conv' pending_cache_new_def
      split: sum.splits channel.splits option.splits if_splits bind_splits)

lemma register_entity_eq:
  "register_entity r s =
     (case effective_parent (st_main s) r of
        Some p \<Rightarrow> if registered s p then
            (Inr (case fst (tree_insert (reg_topic_id r) (registration_metadata (st_main s) r) (st_tree s)) of
                 Unchanged \<Rightarrow> [] | Inserted \<Rightarrow> [p] | Updated \<Rightarrow> [p, reg_topic_id r]),
             s\<lparr>st_tree := snd (tree_insert (reg_topic_id r) (registration_metadata (st_main s) r) (st_tree s))\<rparr>)
          else (Inl (NoParent p), s)
      | None \<Rightarrow>
            (Inr (case fst (tree_insert (reg_topic_id r) (registration_metadata (st_main s) r) (st_tree s)) of
                 Unchanged \<Rightarrow> [] | Inserted \<Rightarrow> [] | Updated \<Rightarrow> [reg_topic_id r]),
             s\<lparr>st_tree := snd (tree_insert (reg_topic_id r) (registration_metadata (st_main s) r) (st_tree s))\<rparr>))"
  by (simp add: register_entity_def Let_def split: option.split prod.split)

lemma tree_insert_parts:
  "fst (tree_insert tid m t) = fst (insert_entity tid m (tree_entities t))"
  "tree_entities (snd (tree_insert tid m t)) = snd (insert_entity tid m (tree_entities t))"
  "tree_main (snd (tree_insert tid m t)) = tree_main t"
  by (simp_all add: tree_insert_def split: prod.split)

lemma register_entity_keeps:
  assumes "register_entity r s = (res, s')"
  shows "st_schema s' = st_schema s" "st_main s' = st_main s" "st_pending s' = st_pending s"
    "st_log s' = st_log s" "tree_main (st_tree s') = tree_main (st_tree s)"
  using assms by (auto simp: register_entity_eq tree_insert_parts split: option.splits if_splits)

lemma register_entity_tree_wf:
  assumes "tree_wf (store_entities s)" "jmap_wf (reg_twin_data r)" "register_entity r s = (res, s')"
  shows "tree_wf (store_entities s')"
proof (cases res)
  case (Inl e)
  then have "s' = s" using assms(3) by (auto simp: register_entity_eq split: option.splits if_splits)
  then show ?thesis using assms(1) by simp
next
  case (Inr a)
  have par: "hm_contains (store_entities s) p" if "effective_parent (st_main s) r = Some p" for p
    using assms(3) that Inr by (auto simp: register_entity_eq tree_contains_key_def split: if_splits)
  have "store_entities s' = snd (insert_entity (reg_topic_id r) (registration_metadata (st_main s) r) (store_entities s))"
    using assms(3) Inr by (auto simp: register_entity_eq tree_insert_parts split: option.splits if_splits)
  then show ?thesis
    using tree_wf_insert [OF assms(1), of "registration_metadata (st_main s) r" "reg_topic_id r", OF _ _ _ prod.collapse [symmetric]]
      par assms(2) by (simp add: registration_metadata_def)
qed

lemma registered_insert:
  "registered s x \<Longrightarrow> registered (snd (register_entity r s)) x"
  using insert_entity_get [OF prod.collapse [symmetric],
      of "reg_topic_id r" "registration_metadata (st_main s) r" "store_entities s" x]
  by (auto simp: register_entity_eq tree_insert_parts tree_contains_key_def hm_contains_def
      split: option.splits)

lemma persist_keeps [simp]:
  "st_tree (snd (persist E m x s)) = st_tree s" "st_pending (snd (persist E m x s)) = st_pending s"
  "st_schema (snd (persist E m x s)) = st_schema s" "st_main (snd (persist E m x s)) = st_main s"
  by (simp_all add: persist_def split: prod.split sum.split)

lemma register_and_persist_keeps:
  assumes "register_and_persist_entity E r s = Some (res, s')"
  shows "st_tree s' = st_tree (snd (register_entity r s))" "st_pending s' = st_pending s"
    "st_schema s' = st_schema s" "st_main s' = st_main s"
proof -
  obtain x s1 where reg: "register_entity r s = (x, s1)" by (cases "register_entity r s")
  have "s' = s1 \<or> (\<exists>m a. persist E m a s1 = (res, s'))"
    using assms reg
    by (auto simp: register_and_persist_entity_def split: sum.splits if_splits bind_splits)
  then have "st_tree s' = st_tree s1 \<and> st_pending s' = st_pending s1
      \<and> st_schema s' = st_schema s1 \<and> st_main s' = st_main s1"
    by (metis persist_keeps snd_conv)
  then show "st_tree s' = st_tree (snd (register_entity r s))" "st_pending s' = st_pending s"
    "st_schema s' = st_schema s" "st_main s' = st_main s"
    using register_entity_keeps [OF reg] reg by simp_all
qed

lemma store_update_cases:
  assumes "store_update E r s = Some (res, s')"
  obtains (unchanged) "register_and_persist_entity E r s = Some (Inr [], s')" "res = Inr []"
  | (added) affected s1 d ps1 ds ps2 where
      "register_and_persist_entity E r s = Some (Inr affected, s1)" "affected \<noteq> []"
      "take_cached_entity_data (env_mqtt E) r (st_pending s1) = (d, ps1)"
      "take_cached_child_entities_data (env_mqtt E) (reg_topic_id r) ps1 = Some (ds, ps2)"
      "register_pending E ds [d] (s1\<lparr>st_pending := ps2\<rparr>) = Some (res, s')"
  | (early) p s1 ps where "register_and_persist_entity E r s = Some (Inl (NoParent p), s1)"
      "cache_early_registration_message r (st_pending s1) = Some ps" "res = Inr []"
      "s' = s1\<lparr>st_pending := ps\<rparr>"
  | (failed) e where "register_and_persist_entity E r s = Some (Inl e, s')" "res = Inl e"
      "\<And>p. e \<noteq> NoParent p"
proof -
  obtain x s1 where reg: "register_and_persist_entity E r s = Some (x, s1)"
    using assms by (auto simp: store_update_def split: bind_splits)
  show thesis
  proof (cases x)
    case (Inl e)
    show thesis
    proof (cases "\<exists>p. e = NoParent p")
      case True
      with Inl reg assms early show thesis by (auto simp: store_update_def split: bind_splits)
    next
      case False
      then have "store_update E r s = Some (Inl e, s1)"
        using Inl reg by (cases e) (simp_all add: store_update_def)
      with False Inl reg assms failed show thesis by auto
    qed
  next
    case (Inr affected)
    obtain d ps1 where "take_cached_entity_data (env_mqtt E) r (st_pending s1) = (d, ps1)"
      by (cases "take_cached_entity_data (env_mqtt E) r (st_pending s1)")
    with Inr reg assms unchanged added show thesis
      by (auto simp: store_update_def split: bind_splits if_splits)
  qed
qed

text \<open>
  The contract of registrations: what holds of the store, whatever is pending, and is kept by the
  registration of one entity, is kept by the operations that register several of them.
\<close>

locale registration_invariant =
  fixes E :: env
    and I :: "entity_store \<Rightarrow> bool"
    and good :: "registration \<Rightarrow> bool"
  assumes register_one: "I s \<Longrightarrow> good r \<Longrightarrow> register_and_persist_entity E r s = Some (res, s') \<Longrightarrow> I s'"
    and pending_irrelevant: "I (s\<lparr>st_pending := ps\<rparr>) = I s"
    and default_ok: "wf_registration r \<Longrightarrow> reg_type r \<noteq> MainDevice \<Longrightarrow> good r"
begin

lemma pending_keeps:
  "I s \<Longrightarrow> pending_regs good (st_pending s) \<Longrightarrow> list_all (good \<circ> rd_reg) ds
    \<Longrightarrow> register_pending E ds acc s = Some (res, s') \<Longrightarrow> I s' \<and> pending_regs good (st_pending s')"
proof (induction ds arbitrary: acc s)
  case (Cons d ds)
  from Cons.prems(4) obtain x s1 where reg: "register_and_persist_entity E (rd_reg d) s = Some (x, s1)"
    and rest: "(case x of Inl e \<Rightarrow> Some (Inl e, s1) | Inr _ \<Rightarrow> register_pending E ds (acc @ [d]) s1)
      = Some (res, s')"
    by (auto split: bind_splits)
  have "I s1" "pending_regs good (st_pending s1)"
    using register_one [OF Cons.prems(1) _ reg] register_and_persist_keeps(2) [OF reg] Cons.prems(2,3)
    by simp_all
  then show ?case
    using Cons.IH [of s1] Cons.prems rest by (auto split: sum.splits)
qed simp

lemma update_keeps:
  assumes "I s" "pending_regs good (st_pending s)" "good r" "store_update E r s = Some (res, s')"
  shows "I s' \<and> pending_regs good (st_pending s')"
  using assms(4)
proof (cases rule: store_update_cases)
  case unchanged
  then show ?thesis
    using register_one [OF assms(1,3)] register_and_persist_keeps(2) assms(2) by metis
next
  case (added affected s1 d ps1 ds ps2)
  have "I s1" "pending_regs good (st_pending s1)"
    using register_one [OF assms(1,3) added(1)] register_and_persist_keeps(2) [OF added(1)] assms(2)
    by simp_all
  moreover from this(2) have "pending_regs good ps2 \<and> list_all (good \<circ> rd_reg) ds"
    using take_cached_child_entities_regs [OF _ added(4)] take_cached_entity_data_regs [OF _ added(3)]
    by simp
  ultimately show ?thesis using pending_keeps [OF _ _ _ added(5)] by (simp add: pending_irrelevant)
next
  case (early p s1 ps)
  have "I s1" "pending_regs good (st_pending s1)"
    using register_one [OF assms(1,3) early(1)] register_and_persist_keeps(2) [OF early(1)] assms(2)
    by simp_all
  then show ?thesis
    using cache_early_regs(2) [of good "st_pending s1" r ps] assms(3) early(2) early(4) by (simp add: pending_irrelevant)
next
  case (failed e)
  then show ?thesis
    using register_one [OF assms(1,3)] register_and_persist_keeps(2) assms(2) by metis
qed

lemma auto_loop_keeps:
  "I s \<Longrightarrow> pending_regs good (st_pending s) \<Longrightarrow> list_all wf_registration rs
    \<Longrightarrow> auto_register_loop E rs acc s = Some (res, s') \<Longrightarrow> I s' \<and> pending_regs good (st_pending s')"
proof (induction rs arbitrary: acc s)
  case (Cons r rs)
  show ?case
  proof (cases "reg_type r \<noteq> MainDevice \<and> store_get s (reg_topic_id r) = None")
    case True
    with Cons.prems(4) obtain x s1 where up: "store_update E r s = Some (x, s1)"
      and rest: "(case x of Inl e \<Rightarrow> Some (Inl e, s1) | Inr _ \<Rightarrow> auto_register_loop E rs (acc @ [r]) s1)
        = Some (res, s')"
      by (auto split: bind_splits)
    have "I s1 \<and> pending_regs good (st_pending s1)"
      using update_keeps [OF Cons.prems(1,2) _ up] Cons.prems(3) True default_ok by simp
    then show ?thesis using Cons.IH [of s1] Cons.prems rest by (auto split: sum.splits)
  qed (use Cons in auto)
qed simp

lemma auto_register_keeps:
  assumes "topic_rule (env_mqtt E)" "wf_entity_id tid" "I s" "pending_regs good (st_pending s)"
    and "auto_register_entity E tid s = Some (res, s')"
  shows "I s' \<and> pending_regs good (st_pending s')"
proof -
  obtain rs where "default_schema_parse (env_mqtt E) tid = Some rs" "list_all wf_registration rs"
    using default_schema_parse_total [OF assms(1,2)] by blast
  then show ?thesis
    using assms(3-5) auto_loop_keeps [of s rs "[]" res s']
    by (simp add: auto_register_entity_def split: if_splits)
qed

end

interpretation reg_tree: registration_invariant E "\<lambda>s. tree_wf (store_entities s)" typed_registration for E
proof
  fix s r res s'
  assume "tree_wf (store_entities s)" "typed_registration r" "register_and_persist_entity E r s = Some (res, s')"
  then show "tree_wf (store_entities s')"
    using register_entity_tree_wf [OF _ _ prod.collapse [symmetric], of s r]
      register_and_persist_keeps(1) [of E r s] by (simp add: typed_registration_def)
qed simp_all

lemma deregister_inv [inv_intros]:
  assumes "iteration_rule (env_iter E)" "store_inv s" "deregister_entity E tid s = (removed, s')"
  shows "store_inv s'"
proof -
  obtain es' where es': "remove_nodes (env_iter E) [tid] (store_entities s) [] = (es', removed)"
    and s': "s' = s\<lparr>st_tree := (st_tree s)\<lparr>tree_entities := es'\<rparr>\<rparr>"
    using assms(3) by (auto simp: deregister_entity_def tree_remove_def split: prod.splits)
  show ?thesis using tree_wf_remove [OF assms(1) _ es'] assms(2) by (simp add: store_inv_def s')
qed

lemma deregister_and_persist_cases:
  assumes "deregister_and_persist_entity E tid s = Some (res, s')"
  obtains removed s1 where "deregister_entity E tid s = (removed, s1)"
    "st_tree s' = st_tree s1" "st_pending s' = st_pending s1"
proof -
  obtain removed s1 where d: "deregister_entity E tid s = (removed, s1)"
    by (cases "deregister_entity E tid s")
  then have "s' = s1 \<or> (\<exists>m a. persist E m a s1 = (res, s'))"
    using assms by (auto simp: deregister_and_persist_entity_def split: if_splits bind_splits)
  then have "st_tree s' = st_tree s1 \<and> st_pending s' = st_pending s1" by (metis persist_keeps snd_conv)
  with d that show thesis by blast
qed

lemma update_twin_fragment_keeps:
  assumes "update_twin_fragment k v e = (updated, e')"
  shows "em_topic_id e' = em_topic_id e" "em_parent e' = em_parent e" "em_type e' = em_type e"
    "em_external_id e' = em_external_id e"
  using assms by (auto simp: update_twin_fragment_def Let_def split: if_splits)

lemma update_twin_fragment_wf:
  assumes "update_twin_fragment k v e = (updated, e')" "jmap_wf (em_twin_data e)" "json_wf v"
  shows "jmap_wf (em_twin_data e')"
  using assms by (auto simp: update_twin_fragment_def Let_def split: if_splits)

lemma register_twin_data_get:
  assumes "register_twin_data w s = (res, s')"
  shows "hm_get (store_entities s') x =
    (if x = tw_topic_id w then map_option (\<lambda>n. n\<lparr>node_metadata :=
       snd (update_twin_fragment (tw_key w) (tw_value w) (node_metadata n))\<rparr>) (hm_get (store_entities s) x)
     else hm_get (store_entities s) x)"
  using assms by (auto simp: register_twin_data_def update_conv' split: option.splits prod.splits)

lemma register_twin_data_tree_wf:
  assumes "tree_wf (store_entities s)" "json_wf (tw_value w)" "register_twin_data w s = (res, s')"
  shows "tree_wf (store_entities s')"
proof -
  note get = register_twin_data_get [OF assms(3)]
  have wf: "hm_wf (store_entities s')"
    using assms(3) tree_wfD(1) [OF assms(1)]
    by (auto simp: register_twin_data_def distinct_update split: option.splits prod.splits)
  have old: "\<exists>n0. hm_get (store_entities s) x = Some n0 \<and> node_children n = node_children n0
      \<and> em_topic_id (node_metadata n) = em_topic_id (node_metadata n0)
      \<and> em_parent (node_metadata n) = em_parent (node_metadata n0)
      \<and> jmap_wf (em_twin_data (node_metadata n))"
    if x: "hm_get (store_entities s') x = Some n" for x n
  proof -
    obtain n0 where n0: "hm_get (store_entities s) x = Some n0"
      "n = n0 \<or> n = n0\<lparr>node_metadata := snd (update_twin_fragment (tw_key w) (tw_value w) (node_metadata n0))\<rparr>"
      using x get [of x] by (auto split: if_splits)
    let ?u = "update_twin_fragment (tw_key w) (tw_value w) (node_metadata n0)"
    have eq: "?u = (fst ?u, snd ?u)" by simp
    show ?thesis
      using n0 update_twin_fragment_keeps [OF eq] update_twin_fragment_wf [OF eq _ assms(2)]
        tree_wfD(3) [OF assms(1) n0(1)] by auto
  qed
  have new: "\<exists>pn'. hm_get (store_entities s') p = Some pn' \<and> node_children pn' = node_children pn"
    if "hm_get (store_entities s) p = Some pn" for p pn
    using get [of p] that by auto
  show ?thesis
    unfolding tree_wf_def
  proof (intro conjI allI impI)
    fix x n assume "hm_get (store_entities s') x = Some n"
    from old [OF this] show "em_topic_id (node_metadata n) = x" "jmap_wf (em_twin_data (node_metadata n))"
      using tree_wfD(2) [OF assms(1)] by auto
  next
    fix x n p assume "hm_get (store_entities s') x = Some n" "em_parent (node_metadata n) = Some p"
    with old [of x n] obtain n0 where "hm_get (store_entities s) x = Some n0"
      "em_parent (node_metadata n0) = Some p" by auto
    from tree_wfD(4) [OF assms(1) this] obtain pn where
      pn: "hm_get (store_entities s) p = Some pn" "x \<in> set (node_children pn)" by blast
    with new [OF pn(1)] show "\<exists>pn. hm_get (store_entities s') p = Some pn \<and> x \<in> set (node_children pn)"
      by auto
  qed (rule wf)
qed

lemma register_twin_data_keeps:
  assumes "register_twin_data w s = (res, s')"
  shows "st_schema s' = st_schema s" "st_main s' = st_main s" "st_pending s' = st_pending s"
    "st_log s' = st_log s" "tree_main (st_tree s') = tree_main (st_tree s)"
  using assms by (auto simp: register_twin_data_def split: option.splits prod.splits)

lemma register_and_persist_twin_cases:
  assumes "register_and_persist_twin_data E w s = Some (res, s')"
  obtains x s1 where "register_twin_data w s = (x, s1)"
    "st_tree s' = st_tree s1" "st_pending s' = st_pending s1"
proof -
  obtain x s1 where d: "register_twin_data w s = (x, s1)" by (cases "register_twin_data w s")
  then have "s' = s1 \<or> (\<exists>m a. persist E m a s1 = (res, s'))"
    using assms
    by (auto simp: register_and_persist_twin_data_def split: sum.splits if_splits bind_splits)
  then have "st_tree s' = st_tree s1 \<and> st_pending s' = st_pending s1" by (metis persist_keeps snd_conv)
  with d that show thesis by blast
qed

section \<open>Runs of the store\<close>

datatype store_op =
    Op_update registration
  | Op_auto_register entity_topic_id
  | Op_deregister entity_topic_id
  | Op_deregister_and_persist entity_topic_id
  | Op_update_twin twin_message
  | Op_early_data mqtt_message

fun store_step :: "env \<Rightarrow> entity_store \<Rightarrow> store_op \<Rightarrow> entity_store panics" where
  "store_step E s (Op_update r) = map_option snd (store_update E r s)"
| "store_step E s (Op_auto_register tid) = map_option snd (auto_register_entity E tid s)"
| "store_step E s (Op_deregister tid) = Some (snd (deregister_entity E tid s))"
| "store_step E s (Op_deregister_and_persist tid) =
     map_option snd (deregister_and_persist_entity E tid s)"
| "store_step E s (Op_update_twin w) = map_option snd (update_twin_data E w s)"
| "store_step E s (Op_early_data m) = Some (store_cache_early_data_message E m s)"

text \<open>The inputs the types and parsers of the program allow.\<close>

fun wf_op :: "store_op \<Rightarrow> bool" where
  "wf_op (Op_update r) = typed_registration r"
| "wf_op (Op_auto_register tid) = wf_entity_id tid"
| "wf_op (Op_deregister tid) = True"
| "wf_op (Op_deregister_and_persist tid) = True"
| "wf_op (Op_update_twin w) = json_wf (tw_value w)"
| "wf_op (Op_early_data m) = True"

definition libraries_ok :: "env \<Rightarrow> bool" where
  "libraries_ok E \<longleftrightarrow> topic_rule (env_mqtt E) \<and> iteration_rule (env_iter E)"

lemma store_step_inv:
  assumes "libraries_ok E" "store_inv s" "wf_op op" "store_step E s op = Some s'"
  shows "store_inv s'"
proof (cases op)
  case (Op_update r)
  with assms obtain res where "store_update E r s = Some (res, s')" by auto
  from reg_tree.update_keeps [OF _ _ _ this] Op_update assms show ?thesis by (simp add: store_inv_def)
next
  case (Op_auto_register tid)
  with assms obtain res where "auto_register_entity E tid s = Some (res, s')" by auto
  from reg_tree.auto_register_keeps [OF _ _ _ _ this] Op_auto_register assms show ?thesis
    by (simp add: store_inv_def libraries_ok_def)
next
  case (Op_deregister tid)
  then show ?thesis
    using assms deregister_inv [OF _ assms(2) prod.collapse [symmetric]] by (auto simp: libraries_ok_def)
next
  case (Op_deregister_and_persist tid)
  with assms(4) obtain res where "deregister_and_persist_entity E tid s = Some (res, s')" by auto
  then obtain removed s1 where d: "deregister_entity E tid s = (removed, s1)"
    and s': "st_tree s' = st_tree s1" "st_pending s' = st_pending s1"
    by (rule deregister_and_persist_cases)
  show ?thesis using deregister_inv [OF _ assms(2) d] assms(1)
    by (simp add: libraries_ok_def store_inv_def s')
next
  case (Op_update_twin w)
  with assms(4) obtain res where "register_and_persist_twin_data E w s = Some (res, s')"
    by (auto simp: update_twin_data_def)
  then obtain x s1 where w: "register_twin_data w s = (x, s1)"
    and s': "st_tree s' = st_tree s1" "st_pending s' = st_pending s1"
    by (rule register_and_persist_twin_cases)
  show ?thesis
    using register_twin_data_tree_wf [OF _ _ w] register_twin_data_keeps(3) [OF w] assms(2,3)
      Op_update_twin by (simp add: store_inv_def s')
next
  case (Op_early_data m)
  then show ?thesis using assms cache_early_regs(1) [of typed_registration "st_pending s" "env_mqtt E" m]
    by (auto simp: store_inv_def store_cache_early_data_message_def)
qed

lemma load_loop_fold:
  "load_loop E reader s =
     fold (restore_message E) (List.map_filter (line_message (env_codec E)) reader) s"
  by (induction reader arbitrary: s)
    (subst load_loop.simps; simp add: map_filter_simps line_message_def split: option.split)+

lemma restore_message_inv:
  assumes "topic_rule (env_mqtt E)" "parses_wf (env_json E)" "store_inv s"
  shows "store_inv (restore_message E m s)"
proof -
  have reg: "store_inv (snd (register_entity r s))" if "typed_registration r" for r
    using register_entity_tree_wf [OF _ _ prod.collapse [symmetric]]
      register_entity_keeps(3) [OF prod.collapse [symmetric]] that assms(3)
    by (simp add: store_inv_def typed_registration_def)
  have twin: "store_inv (snd (register_twin_data w s))" if "json_wf (tw_value w)" for w
    using register_twin_data_tree_wf [OF _ that prod.collapse [symmetric]]
      register_twin_data_keeps(3) [OF prod.collapse [symmetric]] assms(3)
    by (simp add: store_inv_def)
  show ?thesis
    using assms reg wf_typed [OF registration_of_message_wf [OF assms(1,2)]]
    by (auto simp: restore_message_def parses_wf_def intro!: twin
        split: sum.splits channel.splits option.splits if_splits)
      (simp_all add: twin_message_new_def)
qed

lemma load_inv:
  "topic_rule (env_mqtt E) \<Longrightarrow> parses_wf (env_json E) \<Longrightarrow> store_inv s
    \<Longrightarrow> store_inv (load_from_message_log E file s)"
  unfolding load_from_message_log_def load_loop_fold
  by (rule fold_invariant [where Q = "\<lambda>_. True"]) (auto intro: restore_message_inv)

lemma with_main_device_inv:
  assumes "topic_rule (env_mqtt E)" "parses_wf (env_json E)" "typed_registration r"
    and "with_main_device E S r n access file io clean = Inr s"
  shows "store_inv s"
proof -
  have "pending_regs typed_registration (pending_new S n)" by (simp add: pending_regs_def pending_new_def)
  moreover have "tree_wf (tree_entities (tree_new (reg_topic_id r)
      \<lparr>em_topic_id = reg_topic_id r, em_parent = None, em_type = reg_type r, em_external_id = None,
       em_twin_data = reg_twin_data r\<rparr>))"
    using assms(3) by (auto simp: tree_wf_def tree_new_def node_new_def typed_registration_def split: if_splits)
  ultimately show ?thesis
    using assms(4) load_inv [OF assms(1,2)]
    by (auto simp: with_main_device_def initial_store_def Let_def store_inv_def split: if_splits log_access.splits)
qed

interpretation store_run: step_invariant "store_step E" wf_op "\<lambda>s. libraries_ok E \<and> store_inv s" for E
  by unfold_locales (auto intro: store_step_inv)

lemma store_inv_no_orphan:
  assumes "libraries_ok E" "store_inv s" "store_get s x = Some m"
  shows "em_topic_id m = x
    \<and> (\<forall>p. em_parent m = Some p \<longrightarrow> registered s p
          \<and> (x, m) \<in> set (tree_children (env_iter E) (st_tree s) p))"
proof -
  have wf: "tree_wf (store_entities s)" using assms(2) by (simp add: store_inv_def)
  obtain node where x: "hm_get (store_entities s) x = Some node" and m: "m = node_metadata node"
    using assms(3) by (auto simp: store_get_def tree_get_def)
  have "registered s p \<and> (x, m) \<in> set (tree_children (env_iter E) (st_tree s) p)"
    if p: "em_parent m = Some p" for p
  proof -
    obtain pn where pn: "hm_get (store_entities s) p = Some pn" "x \<in> set (node_children pn)"
      using tree_wfD(4) [OF wf x] p m by blast
    have "set (env_iter E (node_children pn)) = set (node_children pn)"
      using assms(1) by (simp add: libraries_ok_def)
    then show ?thesis using pn x m
      by (force simp: tree_children_def children_of_def map_filter_def tree_contains_key_def
          hm_contains_def)
  qed
  with tree_wfD(2) [OF wf x] m show ?thesis by blast
qed

text \<open>
  C1. Whatever the log file a store is started from, and whatever the sequence of registrations (with any
  identifiers), auto-registrations, deregistrations, twin updates and early messages that follows, with failures of
  the log at any point, every registered entity has its own topic identifier as its key and, if it has
  a parent, the parent is registered and has the entity among its children.
\<close>

theorem store_run_no_orphan:
  assumes "libraries_ok E" "parses_wf (env_json E)" "typed_registration main"
    and "with_main_device E S main n access file io clean = Inr s0" "list_all wf_op ops"
    and "run (store_step E) s0 ops = Some s" "store_get s x = Some m"
  shows "em_topic_id m = x
    \<and> (\<forall>p. em_parent m = Some p \<longrightarrow> registered s p
          \<and> (x, m) \<in> set (tree_children (env_iter E) (st_tree s) p))"
proof (rule store_inv_no_orphan [OF assms(1) _ assms(7)])
  have "store_inv s0" using with_main_device_inv [OF _ assms(2,3,4)] assms(1) by (simp add: libraries_ok_def)
  then show "store_inv s" using store_run.run_inv [of E s0 ops s] assms(1,5,6) by blast
qed

definition example_env :: env where
  "example_env = \<lparr>env_mqtt = wildcard_free_mqtt, env_json = code_serde, env_codec = length_codec,
     env_iter = (\<lambda>xs. xs)\<rparr>"

lemma example_env_simps [simp]:
  "env_mqtt example_env = wildcard_free_mqtt" "env_json example_env = code_serde"
  "env_codec example_env = length_codec" "env_iter example_env = (\<lambda>xs. xs)"
  by (simp_all add: example_env_def)

lemma example_env_ok [simp]: "libraries_ok example_env" "parses_wf code_serde"
  by (simp_all add: libraries_ok_def parses_wf_def code_serde_wf)

definition example_store :: entity_store where
  "example_store =
     (case with_main_device example_env schema_new (registration_main_device None) 2 Log_open [] [] True of
        Inr s \<Rightarrow> s)"

definition example_child :: "string \<Rightarrow> string \<Rightarrow> registration" where
  "example_child c p = with_parent (''device/'' @ p @ ''//'')
     (registration_new_custom (''device/'' @ c @ ''//'') ChildDevice)"

lemma example_store_started:
  "with_main_device example_env schema_new (registration_main_device None) 2 Log_open [] [] True = Inr example_store"
  by code_simp

lemma example_main_wf [simp]: "wf_registration (registration_main_device None)"
  by (simp add: wf_registration_def registration_main_device_def wf_entity_id_def
      default_main_device_def reserved_free_def)

theorem store_run_no_orphan_witness:
  "\<exists>s m. run (store_step example_env) example_store
      [Op_update (example_child ''b'' ''a''), Op_update (example_child ''a'' ''main'')] = Some s
    \<and> store_get s ''device/b//'' = Some m \<and> em_parent m = Some ''device/a//'' \<and> registered s ''device/a//''"
proof -
  let ?ops = "[Op_update (example_child ''b'' ''a''), Op_update (example_child ''a'' ''main'')]"
  have "map_option (\<lambda>s. map_option em_parent (store_get s ''device/b//''))
      (run (store_step example_env) example_store ?ops) = Some (Some (Some ''device/a//''))"
    by code_simp
  then obtain s m where s: "run (store_step example_env) example_store ?ops = Some s"
    "store_get s ''device/b//'' = Some m" "em_parent m = Some ''device/a//''" by auto
  have "list_all wf_op ?ops"
    by (simp add: typed_registration_def example_child_def with_parent_def registration_new_custom_def)
  from store_run_no_orphan [OF example_env_ok(1) _ wf_typed [OF example_main_wf] example_store_started this s(1,2)] s
  show ?thesis by auto
qed

end
