(* ===== verification/Store_Persistence.thy ===== *)
theory Store_Persistence
  imports Entity_Store
begin

text \<open>
  A restarted store (\<^verbatim>\<open>EntityStore::with_main_device\<close> on the log of a previous run) against the store
  that wrote the log: registrations and twin data are restored exactly; deregistrations are not.
\<close>

section \<open>What the loading loop reads of the store\<close>

lemma restore_message_keeps [simp]:
  "st_schema (restore_message E m s) = st_schema s" "st_main (restore_message E m s) = st_main s"
  using register_entity_keeps(1,2) [OF prod.collapse [symmetric], of _ s]
    register_twin_data_keeps(1,2) [OF prod.collapse [symmetric], of _ s]
  by (simp_all add: restore_message_def split: sum.split channel.split option.split)

lemma restore_fold_keeps [simp]:
  "st_schema (fold (restore_message E) ms s) = st_schema s"
  "st_main (fold (restore_message E) ms s) = st_main s"
  by (induction ms arbitrary: s) simp_all

lemma register_entity_cong:
  "st_main s' = st_main s \<Longrightarrow> st_tree s' = st_tree s
    \<Longrightarrow> st_tree (snd (register_entity r s')) = st_tree (snd (register_entity r s))"
  by (simp add: register_entity_eq split: option.split)

lemma register_twin_data_cong:
  "st_tree s' = st_tree s
    \<Longrightarrow> st_tree (snd (register_twin_data w s')) = st_tree (snd (register_twin_data w s))"
  by (simp add: register_twin_data_def split: option.split prod.split)

lemma restore_registration:
  assumes "topic_rule (env_mqtt E)" "serde_rule (env_json E)" "root (st_schema s) = MQTT_ROOT"
    and "wf_registration r"
    and "registration_to_message (env_mqtt E) (env_json E) (st_schema s) r = Some m"
  shows "restore_message E m s = snd (register_entity r s)"
proof -
  have root: "wf_root (root (st_schema s))" by (simp add: assms(3) wf_root_def)
  have "topic_name (mm_topic m) = topic_text (st_schema s) (reg_topic_id r) EntityMetadata"
    using registration_to_message_Some [OF assms(1) root assms(4), of "env_json E"] assms(5)
    by (auto simp: topic_text_def with_retain_def message_new_def)
  then have "entity_channel_of (env_mqtt E) (st_schema s) (topic_name (mm_topic m))
      = Inr (reg_topic_id r, EntityMetadata)"
    using entity_channel_of_topic_text [OF assms(1), of "st_schema s" "reg_topic_id r" EntityMetadata]
      root assms(4) by (simp add: wf_root_def wf_registration_def)
  then show ?thesis
    using registration_roundtrip [OF assms] by (simp add: restore_message_def)
qed

lemma restore_twin_data:
  assumes "topic_rule (env_mqtt E)" "serde_rule (env_json E)" "wf_root (root (st_schema s))"
    and "wf_entity_id (tw_topic_id w)" "slash \<notin> set (tw_key w)" "json_wf (tw_value w)"
    and "twin_to_message (env_mqtt E) (env_json E) (st_schema s) w = Some m"
  shows "restore_message E m s = snd (register_twin_data w s)"
proof -
  obtain t where t: "topic_name t = topic_text (st_schema s) (tw_topic_id w) (EntityTwinData (tw_key w))"
    and m: "m = with_retain (message_new t (json_to_text (env_json E) (tw_value w)))"
    using assms(7) topic_for_Some_iff [OF assms(1)]
    by (auto simp: twin_to_message_def split: bind_splits)
  have "entity_channel_of (env_mqtt E) (st_schema s) (topic_name (mm_topic m))
      = Inr (tw_topic_id w, EntityTwinData (tw_key w))"
    using entity_channel_of_topic_text [OF assms(1), of "st_schema s" "tw_topic_id w"] assms(3-5) t
    by (simp add: m wf_root_def with_retain_def message_new_def)
  moreover have "payload_bytes m = json_to_text (env_json E) (tw_value w)"
    using serde_text [OF assms(2)]
    by (intro payload_bytes_text) (auto simp: m with_retain_def message_new_def)
  ultimately show ?thesis
    using serde_roundtrip [OF assms(2,6)] serde_text(1) [OF assms(2)]
    by (cases w) (simp add: restore_message_def twin_message_new_def)
qed

lemma update_twin_fragment_unchanged:
  assumes "jmap_wf (em_twin_data e)" "update_twin_fragment k v e = (False, e')"
  shows "e' = e"
proof -
  have "bt_wf (em_twin_data e)" using assms(1) by blast
  then have "em_twin_data e' = em_twin_data e"
    using assms(2) by (intro bt_eqI)
      (auto simp: update_twin_fragment_def Let_def fun_eq_iff split: if_splits)
  moreover have "e' = e\<lparr>em_twin_data := em_twin_data e'\<rparr>"
    using assms(2) by (auto simp: update_twin_fragment_def Let_def split: if_splits)
  ultimately show ?thesis by simp
qed

lemma register_twin_data_unchanged:
  assumes "tree_wf (store_entities s)" "register_twin_data w s = (Inr False, s')"
  shows "s' = s"
proof -
  obtain node e where n: "hm_get (store_entities s) (tw_topic_id w) = Some node"
    and e: "update_twin_fragment (tw_key w) (tw_value w) (node_metadata node) = (False, e)"
    and s': "s' = s\<lparr>st_tree := (st_tree s)\<lparr>tree_entities :=
         hm_insert (tw_topic_id w) (node\<lparr>node_metadata := e\<rparr>) (store_entities s)\<rparr>\<rparr>"
    using assms(2) by (auto simp: register_twin_data_def split: option.splits prod.splits)
  have "e = node_metadata node"
    using update_twin_fragment_unchanged [OF tree_wfD(3) [OF assms(1) n] e] .
  with n s' show ?thesis by (simp add: update_same)
qed

section \<open>The log restores the tree\<close>

definition log_env :: "env \<Rightarrow> entity_store \<Rightarrow> bool" where
  "log_env E i \<longleftrightarrow> topic_rule (env_mqtt E) \<and> serde_rule (env_json E) \<and> codec_rule (env_codec E)
     \<and> (\<forall>v. is_utf8 (env_codec E) (json_to_text (env_json E) v)) \<and> root (st_schema i) = MQTT_ROOT"

abbreviation restored :: "env \<Rightarrow> entity_store \<Rightarrow> message_log \<Rightarrow> entity_store" where
  "restored E i log \<equiv> fold (restore_message E) (log_messages (env_codec E) (log_contents log)) i"

text \<open>
  The messages of the log, applied to the initial store, give the tree of the store.
\<close>

definition persisted :: "env \<Rightarrow> entity_store \<Rightarrow> entity_store \<Rightarrow> bool" where
  "persisted E i s \<longleftrightarrow> log_env E i \<and> st_schema s = st_schema i \<and> st_main s = st_main i
     \<and> log_contents (st_log s) \<noteq> [] \<and> tree_wf (store_entities s) \<and> registered s (st_main i)
     \<and> st_tree (restored E i (st_log s)) = st_tree s"

lemma persist_log:
  "log_contents (st_log (snd (persist E m x s))) = log_contents (st_log s) @ [line_of_message (env_codec E) m]"
proof -
  obtain o1 w where w: "append_message (env_codec E) m (st_log s) = (o1, w)"
    by (cases "append_message (env_codec E) m (st_log s)")
  with append_message_contents [of "env_codec E" m "st_log s"] show ?thesis
    by (simp add: persist_def split: sum.split)
qed

lemma persist_logD:
  "persist E m x s = (res, s') \<Longrightarrow>
    log_contents (st_log s') = log_contents (st_log s) @ [line_of_message (env_codec E) m]"
  by (metis persist_log snd_conv)

lemma persisted_append:
  assumes "persisted E i s" "is_utf8 (env_codec E) (mm_payload m)"
    and "log_contents log = log_contents (st_log s) @ [line_of_message (env_codec E) m]"
  shows "restored E i log = restore_message E m (restored E i (st_log s))"
  using assms log_messages_append [of "env_codec E" m "log_contents (st_log s)"]
  by (simp add: persisted_def log_env_def)

lemma registered_twin:
  "registered (snd (register_twin_data w s)) x = registered s x"
  using register_twin_data_get [OF prod.collapse [symmetric], of w s x]
  by (auto simp: tree_contains_key_def hm_contains_def)

text \<open>Registrations of the main device under another topic are not logged: they are left out.\<close>

definition loggable :: "entity_topic_id \<Rightarrow> registration \<Rightarrow> bool" where
  "loggable main r \<longleftrightarrow> wf_registration r \<and> (reg_type r = MainDevice \<longrightarrow> reg_topic_id r = main)"

lemma effective_parent_None: "effective_parent main r = None \<longleftrightarrow> reg_type r = MainDevice"
  by (auto simp: effective_parent_def split: entity_type.splits option.splits)

lemma register_entity_unaffected:
  assumes "persisted E i s" "loggable (st_main i) r" "register_entity r s = (Inr [], s')"
  shows "st_tree s' = st_tree s"
proof -
  let ?m = "registration_metadata (st_main s) r"
  have "fst (insert_entity (reg_topic_id r) ?m (store_entities s)) = Unchanged"
  proof (cases "effective_parent (st_main s) r")
    case None
    then have "hm_get (store_entities s) (reg_topic_id r) \<noteq> None"
      using assms(1,2) by (simp add: effective_parent_None persisted_def loggable_def
          tree_contains_key_def hm_contains_def)
    then have "fst (insert_entity (reg_topic_id r) ?m (store_entities s)) \<noteq> Inserted"
      by (auto simp: insert_entity_outcome split: if_splits)
    then show ?thesis
      using assms(3) None by (simp add: register_entity_eq tree_insert_parts split: insert_outcome.splits)
  next
    case (Some p)
    then show ?thesis
      using assms(3)
      by (simp add: register_entity_eq tree_insert_parts split: insert_outcome.splits if_splits)
  qed
  then have "insert_entity (reg_topic_id r) ?m (store_entities s)
      = (Unchanged, snd (insert_entity (reg_topic_id r) ?m (store_entities s)))"
    by (simp add: prod_eq_iff)
  from insert_entity_unchanged [OF _ this] assms(1)
  have "snd (insert_entity (reg_topic_id r) ?m (store_entities s)) = store_entities s"
    by (simp add: persisted_def)
  then have "snd (tree_insert (reg_topic_id r) ?m (st_tree s)) = st_tree s"
    by (simp add: tree_insert_def case_prod_beta)
  then show ?thesis using assms(3) by (auto simp: register_entity_eq split: option.splits if_splits)
qed

lemma persisted_register:
  assumes "persisted E i s" "loggable (st_main i) r" "register_and_persist_entity E r s = Some (res, s')"
  shows "persisted E i s'"
proof -
  obtain x s1 where reg: "register_entity r s = (x, s1)" by (cases "register_entity r s")
  note keeps = register_entity_keeps [OF reg] and kept = register_and_persist_keeps [OF assms(3)]
  have wf: "tree_wf (store_entities s1)" "registered s1 (st_main i)"
    using register_entity_tree_wf [OF _ _ reg] registered_insert [of s "st_main i" r] reg assms(1,2)
    by (simp_all add: persisted_def loggable_def wf_registration_def)
  have "st_tree (restored E i (st_log s')) = st_tree s1"
  proof (cases "\<exists>a. x = Inr a \<and> a \<noteq> []")
    case False
    then have s': "s' = s1" and tree: "st_tree s1 = st_tree s"
      using assms(3) reg register_entity_unaffected [OF assms(1,2)]
      by (auto simp: register_and_persist_entity_def register_entity_eq split: sum.splits option.splits if_splits)
    then show ?thesis using assms(1) keeps(4) by (simp add: persisted_def)
  next
    case True
    with assms(3) reg obtain m a where
      m: "registration_to_message (env_mqtt E) (env_json E) (st_schema s) r = Some m"
      and s': "persist E m a s1 = (res, s')"
      using keeps(1) by (auto simp: register_and_persist_entity_def split: bind_splits)
    have "mm_payload m = json_to_text (env_json E) (JObject (registration_props r))"
      using m by (auto simp: registration_to_message_def with_retain_def message_new_def split: bind_splits)
    then have "is_utf8 (env_codec E) (mm_payload m)"
      using assms(1) by (simp add: persisted_def log_env_def)
    moreover have "log_contents (st_log s') = log_contents (st_log s) @ [line_of_message (env_codec E) m]"
      using persist_logD [OF s'] keeps(4) by simp
    ultimately have "restored E i (st_log s') = restore_message E m (restored E i (st_log s))"
      by (rule persisted_append [OF assms(1)])
    also have "\<dots> = snd (register_entity r (restored E i (st_log s)))"
      using assms(1,2) m by (intro restore_registration) (auto simp: persisted_def log_env_def loggable_def)
    finally show ?thesis
      using register_entity_cong [of "restored E i (st_log s)" s r] assms(1) reg
      by (simp add: persisted_def)
  qed
  moreover have "log_contents (st_log s') \<noteq> []"
    using assms(1,3) reg keeps(4)
    by (auto simp: register_and_persist_entity_def persisted_def dest!: persist_logD
        split: sum.splits if_splits bind_splits)
  ultimately show ?thesis
    using kept wf assms(1) reg by (simp add: persisted_def)
qed

lemma persisted_twin:
  assumes "persisted E i s" "wf_entity_id (tw_topic_id w)" "slash \<notin> set (tw_key w)" "json_wf (tw_value w)"
    and "register_and_persist_twin_data E w s = Some (res, s')"
  shows "persisted E i s'" "st_pending s' = st_pending s"
proof -
  obtain x s1 where reg: "register_twin_data w s = (x, s1)" by (cases "register_twin_data w s")
  note keeps = register_twin_data_keeps [OF reg]
  have wf: "tree_wf (store_entities s1)" "registered s1 (st_main i)"
    using register_twin_data_tree_wf [OF _ assms(4) reg] registered_twin [of w s] reg assms(1)
    by (simp_all add: persisted_def)
  have "persisted E i s' \<and> st_pending s' = st_pending s"
  proof (cases "x = Inr True")
    case False
    then have "s' = s1" using assms(5) reg
      by (auto simp: register_and_persist_twin_data_def split: sum.splits if_splits)
    moreover have "s1 = s"
    proof (cases x)
      case (Inl e)
      then show ?thesis using reg by (auto simp: register_twin_data_def split: option.splits prod.splits)
    next
      case (Inr b)
      then show ?thesis using False reg register_twin_data_unchanged [of s w s1] assms(1)
        by (simp add: persisted_def)
    qed
    ultimately show ?thesis using assms(1) by simp
  next
    case True
    with assms(5) reg obtain m where
      m: "twin_to_message (env_mqtt E) (env_json E) (st_schema s) w = Some m"
      and s': "persist E m True s1 = (res, s')"
      using keeps(1) by (auto simp: register_and_persist_twin_data_def split: bind_splits)
    have "mm_payload m = json_to_text (env_json E) (tw_value w)"
      using m by (auto simp: twin_to_message_def with_retain_def message_new_def split: bind_splits)
    then have "is_utf8 (env_codec E) (mm_payload m)"
      using assms(1) by (simp add: persisted_def log_env_def)
    moreover have log: "log_contents (st_log s') = log_contents (st_log s) @ [line_of_message (env_codec E) m]"
      using persist_logD [OF s'] keeps(4) by simp
    ultimately have "restored E i (st_log s') = restore_message E m (restored E i (st_log s))"
      by (rule persisted_append [OF assms(1)])
    also have "\<dots> = snd (register_twin_data w (restored E i (st_log s)))"
      using assms(1-4) m by (intro restore_twin_data) (auto simp: persisted_def log_env_def wf_root_def)
    finally have "st_tree (restored E i (st_log s')) = st_tree s1"
      using register_twin_data_cong [of "restored E i (st_log s)" s w] assms(1) reg
      by (simp add: persisted_def)
    moreover have "st_tree s' = st_tree s1" "st_pending s' = st_pending s1" "st_schema s' = st_schema s1"
      "st_main s' = st_main s1"
      using persist_keeps [of E m True s1] s' by simp_all
    ultimately show ?thesis using wf assms(1) keeps log by (simp add: persisted_def)
  qed
  then show "persisted E i s'" "st_pending s' = st_pending s" by simp_all
qed

interpretation reg_log: registration_invariant E "persisted E i" "loggable (st_main i)" for E i
proof
  show "persisted E i s \<Longrightarrow> loggable (st_main i) r
      \<Longrightarrow> register_and_persist_entity E r s = Some (res, s') \<Longrightarrow> persisted E i s'" for s r res s'
    by (rule persisted_register)
  show "persisted E i (s\<lparr>st_pending := ps\<rparr>) = persisted E i s" for s ps by (simp add: persisted_def)
qed (simp add: loggable_def)

fun loggable_op :: "entity_topic_id \<Rightarrow> store_op \<Rightarrow> bool" where
  "loggable_op main (Op_update r) = loggable main r"
| "loggable_op main (Op_auto_register tid) = wf_entity_id tid"
| "loggable_op main (Op_deregister tid) = False"
| "loggable_op main (Op_deregister_and_persist tid) = False"
| "loggable_op main (Op_update_twin w) =
     (wf_entity_id (tw_topic_id w) \<and> slash \<notin> set (tw_key w) \<and> json_wf (tw_value w))"
| "loggable_op main (Op_early_data m) = True"

lemma persisted_step:
  assumes "persisted E i s" "pending_regs (loggable (st_main i)) (st_pending s)"
    and "loggable_op (st_main i) op" "store_step E s op = Some s'"
  shows "persisted E i s' \<and> pending_regs (loggable (st_main i)) (st_pending s')"
proof (cases op)
  case (Op_update r)
  with assms(4) obtain res where "store_update E r s = Some (res, s')" by auto
  from reg_log.update_keeps [OF assms(1,2) _ this] Op_update assms(3) show ?thesis by simp
next
  case (Op_auto_register tid)
  with assms(4) obtain res where "auto_register_entity E tid s = Some (res, s')" by auto
  from reg_log.auto_register_keeps [OF _ _ assms(1,2) this] Op_auto_register assms(1,3) show ?thesis
    by (simp add: persisted_def log_env_def)
next
  case (Op_update_twin w)
  with assms(4) obtain res where "register_and_persist_twin_data E w s = Some (res, s')"
    by (auto simp: update_twin_data_def)
  from persisted_twin [OF assms(1) _ _ _ this] Op_update_twin assms(2,3) show ?thesis by simp
next
  case (Op_early_data m)
  have "persisted E i (s\<lparr>st_pending := ps\<rparr>) = persisted E i s" for ps by (simp add: persisted_def)
  then show ?thesis
    using assms Op_early_data cache_early_regs(1) [of "loggable (st_main i)" "st_pending s" "env_mqtt E" m]
    by (auto simp: store_cache_early_data_message_def)
qed (use assms(3) in simp_all)

interpretation log_run: step_invariant "store_step E" "loggable_op (st_main i)"
  "\<lambda>s. persisted E i s \<and> pending_regs (loggable (st_main i)) (st_pending s)" for E i
  by unfold_locales (use persisted_step in blast)

section \<open>A store after its restart\<close>

lemma restore_message_other [simp]:
  "st_pending (restore_message E m s) = st_pending s" "st_log (restore_message E m s) = st_log s"
  using register_entity_keeps(3,4) [OF prod.collapse [symmetric], of _ s]
    register_twin_data_keeps(3,4) [OF prod.collapse [symmetric], of _ s]
  by (simp_all add: restore_message_def split: sum.split channel.split option.split)

lemma restore_fold_other [simp]:
  "st_pending (fold (restore_message E) ms s) = st_pending s"
  "st_log (fold (restore_message E) ms s) = st_log s"
  by (induction ms arbitrary: s) simp_all

lemma restore_message_registered: "registered s x \<Longrightarrow> registered (restore_message E m s) x"
  by (auto simp: restore_message_def registered_insert registered_twin
      split: sum.split channel.split option.split)

lemma restore_fold_registered: "registered s x \<Longrightarrow> registered (fold (restore_message E) ms s) x"
  by (induction ms arbitrary: s) (auto intro: restore_message_registered)

lemma restore_message_cong:
  "st_schema s' = st_schema s \<Longrightarrow> st_main s' = st_main s \<Longrightarrow> st_tree s' = st_tree s
    \<Longrightarrow> st_tree (restore_message E m s') = st_tree (restore_message E m s)"
  using register_entity_cong [of s' s] register_twin_data_cong [of s' s]
  by (simp add: restore_message_def split: sum.split channel.split option.split)

lemma restore_fold_cong:
  "st_schema s' = st_schema s \<Longrightarrow> st_main s' = st_main s \<Longrightarrow> st_tree s' = st_tree s
    \<Longrightarrow> st_tree (fold (restore_message E) ms s') = st_tree (fold (restore_message E) ms s)"
proof (induction ms arbitrary: s s')
  case (Cons m ms)
  show ?case
    using Cons.IH [of "restore_message E m s'" "restore_message E m s"] Cons.prems
      restore_message_cong [OF Cons.prems] by simp
qed simp

lemma load_restored:
  "load_from_message_log E file s = fold (restore_message E) (log_messages (env_codec E) file) s"
  by (simp add: load_from_message_log_def load_loop_fold log_messages_def)

lemma started_persisted:
  assumes "log_env E (initial_store S main n log0)" "parses_wf (env_json E)" "wf_registration main"
    and "with_main_device E S main n Log_open file io clean = Inr s"
  shows "\<exists>log. persisted E (initial_store S main n log) s
    \<and> pending_regs (loggable (reg_topic_id main)) (st_pending s)"
proof -
  let ?log = "if clean then log_writer_new_truncated file io else log_writer_new file io"
  let ?i = "initial_store S main n ?log"
  have s: "s = fold (restore_message E) (log_messages (env_codec E) (log_file ?log)) ?i"
    using assms(4) by (auto simp: with_main_device_def Let_def load_restored split: if_splits)
  have read: "log_messages (env_codec E) (log_contents ?log) = log_messages (env_codec E) (log_file ?log)"
    by (auto simp: log_writer_new_truncated_def log_messages_def log_reader_new_def log_contents_def
        log_writer_new_def)
  have "registered s (reg_topic_id main)"
    unfolding s by (rule restore_fold_registered)
      (simp add: initial_store_def tree_new_def tree_contains_key_def hm_contains_def)
  moreover have "tree_wf (store_entities s)"
    using with_main_device_inv [OF _ assms(2) wf_typed [OF assms(3)] assms(4)] assms(1) by (simp add: log_env_def store_inv_def)
  moreover have "log_contents ?log \<noteq> []" by (simp add: log_writer_new_truncated_def)
  moreover have i: "st_log ?i = ?log" "st_main ?i = reg_topic_id main"
    "st_schema ?i = st_schema (initial_store S main n log0)" "st_pending ?i = pending_new S n"
    by (simp_all add: initial_store_def)
  ultimately have "persisted E ?i s"
    using assms(1) read s by (simp add: persisted_def log_env_def)
  moreover have "pending_regs (loggable (reg_topic_id main)) (st_pending s)"
    by (simp add: s i pending_regs_def pending_new_def)
  ultimately show ?thesis by blast
qed


definition example_ops :: "store_op list" where
  "example_ops = [Op_update (example_child ''b'' ''a''), Op_update (example_child ''a'' ''main''),
     Op_update_twin (twin_message_new ''device/a//'' ''mode'' (JString ''on''))]"

lemma example_ops_loggable: "list_all (loggable_op ''device/main//'') example_ops"
  by (simp add: example_ops_def loggable_def wf_registration_def example_child_def with_parent_def
      registration_new_custom_def wf_entity_id_def reserved_free_def twin_message_new_def)

lemma example_log_env: "log_env example_env (initial_store schema_new main n log)"
  by (simp add: log_env_def initial_store_def schema_new_def with_root_def)

lemma example_main_id: "reg_topic_id (registration_main_device None) = ''device/main//''"
  by (simp add: registration_main_device_def default_main_device_def)


text \<open>
  With another topic root than \<^verbatim>\<open>te\<close>, the registrations of the log are not restored: they are logged on topics with
  the root of the schema, and parsed with the constant \<^verbatim>\<open>te\<close>.
\<close>

lemma other_root_not_restored:
  assumes "topic_rule (env_mqtt E)" "wf_root (root (st_schema s))" "root (st_schema s) \<noteq> MQTT_ROOT" "wf_registration r"
    and "registration_to_message (env_mqtt E) (env_json E) (st_schema s) r = Some m"
  shows "restore_message E m s = s"
proof -
  let ?root = "root (st_schema s)"
  have topic: "topic_name (mm_topic m) = topic_text (st_schema s) (reg_topic_id r) EntityMetadata"
    using registration_to_message_Some [OF assms(1,2,4), of "env_json E"] assms(5)
    by (auto simp: topic_text_def with_retain_def message_new_def)
  then obtain rest where name: "topic_name (mm_topic m) = ?root @ ''/'' @ rest" by (auto simp: topic_text_def)
  have "strip_prefix MQTT_ROOT (topic_name (mm_topic m)) \<bind> strip_prefix ''/'' = None"
  proof (rule ccontr)
    assume "strip_prefix MQTT_ROOT (topic_name (mm_topic m)) \<bind> strip_prefix ''/'' \<noteq> None"
    then obtain tid where "?root @ slash # rest = MQTT_ROOT @ slash # tid"
      unfolding name by (auto simp: strip_prefix_Some_iff simp del: strip_prefix.simps split: bind_splits)
    moreover have "slash \<notin> set ?root" "slash \<notin> set MQTT_ROOT" using assms(2) by (simp_all add: wf_root_def)
    ultimately show False using assms(3) by (metis split_once_append option.inject prod.inject)
  qed
  then have "registration_of_message (env_mqtt E) (env_json E) m = None" by (simp add: registration_of_message_def)
  moreover have "entity_channel_of (env_mqtt E) (st_schema s) (topic_name (mm_topic m)) = Inr (reg_topic_id r, EntityMetadata)"
    unfolding topic using assms(2,4) by (intro entity_channel_of_topic_text [OF assms(1)]) (simp_all add: wf_root_def wf_registration_def)
  ultimately show ?thesis by (simp add: restore_message_def)
qed

section \<open>Deregistrations are not restored\<close>

lemma restore_deregistration:
  assumes "topic_rule (env_mqtt E)" "json_of_text (env_json E) [] = None" "slash \<notin> set (root (st_schema s))"
    and "wf_entity_id tid" "topic_for (env_mqtt E) S tid EntityMetadata = Some t" "S = st_schema s"
  shows "restore_message E (with_qos q (with_retain (message_new t []))) s = s"
proof -
  have t: "topic_name t = topic_text (st_schema s) tid EntityMetadata"
    using topic_for_Some_iff [OF assms(1)] assms(5,6) by blast
  have "registration_of_message (env_mqtt E) (env_json E) (with_qos q (with_retain (message_new t []))) = None"
    using assms(2)
    by (simp add: registration_of_message_def parse_entity_register_payload_def payload_bytes_def
        with_qos_def with_retain_def message_new_def strip_suffix_def split: bind_split)
  then show ?thesis
    using entity_channel_of_topic_text [OF assms(1,3,4), of EntityMetadata]
    by (simp add: restore_message_def t with_qos_def with_retain_def message_new_def)
qed

text \<open>
  C39. A deregistration is lost by a restart: although \<^verbatim>\<open>deregister_and_persist_entity\<close> logs it, the loading
  loop ignores the logged message (its payload is not a registration), and the restarted store has the
  tree from before the deregistration, with the entity and all its descendants.
\<close>

theorem deregistration_not_restored:
  assumes "log_env E (initial_store S main n log0)" "parses_wf (env_json E)" "wf_registration main"
    and "json_of_text (env_json E) [] = None" "wf_entity_id tid"
    and "with_main_device E S main n Log_open file io clean = Inr s0"
    and "list_all (loggable_op (reg_topic_id main)) ops" "run (store_step E) s0 ops = Some s"
    and "deregister_and_persist_entity E tid s = Some (Inr removed, s2)"
    and "with_main_device E S main n' Log_open (log_contents (st_log s2)) io' False = Inr s1"
  shows "st_tree s1 = st_tree s"
proof -
  obtain log where "persisted E (initial_store S main n log) s0"
    "pending_regs (loggable (reg_topic_id main)) (st_pending s0)"
    using started_persisted [OF assms(1,2,3,6)] by blast
  moreover have i: "st_main (initial_store S main n log) = reg_topic_id main"
    "st_schema (initial_store S main n log) = S" by (simp_all add: initial_store_def)
  ultimately have p: "persisted E (initial_store S main n log) s"
    using log_run.run_inv [of E "initial_store S main n log" s0 ops s] assms(7,8) by simp
  let ?i = "initial_store S main n log"
  obtain t where d: "deregister_entity E tid s = (removed, s\<lparr>st_tree := t\<rparr>)"
    using assms(9) by (auto simp: deregister_and_persist_entity_def deregister_entity_def persist_def
        split: prod.splits if_splits bind_splits sum.splits)
  have "st_tree (restored E ?i (st_log s2)) = st_tree s \<and> log_contents (st_log s2) \<noteq> []"
  proof (cases "removed = []")
    case True
    then have "st_log s2 = st_log s" using assms(9) d by (auto simp: deregister_and_persist_entity_def)
    with p show ?thesis by (simp add: persisted_def)
  next
    case False
    with assms(9) d obtain tp where tp: "topic_for (env_mqtt E) (st_schema s) tid EntityMetadata = Some tp"
      and s2: "persist E (with_qos AtLeastOnce (with_retain (message_new tp []))) removed (s\<lparr>st_tree := t\<rparr>)
        = (Inr removed, s2)"
      by (auto simp: deregister_and_persist_entity_def split: bind_splits)
    let ?m = "with_qos AtLeastOnce (with_retain (message_new tp []))"
    have utf: "is_utf8 (env_codec E) (mm_payload ?m)"
      using p by (simp add: persisted_def log_env_def codec_rule_def with_qos_def with_retain_def message_new_def)
    have log: "log_contents (st_log s2) = log_contents (st_log s) @ [line_of_message (env_codec E) ?m]"
      using persist_logD [OF s2] by simp
    have "restored E ?i (st_log s2) = restore_message E ?m (restored E ?i (st_log s))"
      by (rule persisted_append [OF p utf log])
    also have "\<dots> = restored E ?i (st_log s)"
      using p tp assms(1,4,5)
      by (intro restore_deregistration) (auto simp: persisted_def log_env_def initial_store_def)
    finally show ?thesis using p log by (simp add: persisted_def)
  qed
  moreover from this obtain log' where "s1 = fold (restore_message E)
      (log_messages (env_codec E) (log_contents (st_log s2))) (initial_store S main n' log')"
    using assms(10) by (auto simp: with_main_device_def Let_def load_restored log_writer_new_def split: if_splits)
  moreover have "st_tree (fold (restore_message E) (log_messages (env_codec E) (log_contents (st_log s2)))
        (initial_store S main n' log')) = st_tree (restored E ?i (st_log s2))"
    by (rule restore_fold_cong) (simp_all add: initial_store_def)
  ultimately show ?thesis by simp
qed

theorem deregistration_not_restored_witness:
  "\<exists>s removed s2 s1. run (store_step example_env) example_store example_ops = Some s
     \<and> deregister_and_persist_entity example_env ''device/a//'' s = Some (Inr removed, s2)
     \<and> \<not> registered s2 ''device/b//''
     \<and> with_main_device example_env schema_new (registration_main_device None) 2 Log_open
         (log_contents (st_log s2)) [] False = Inr s1
     \<and> st_tree s1 = st_tree s \<and> registered s1 ''device/b//''"
proof -
  have "map_option (\<lambda>s. registered s ''device/b//''
        \<and> map_option (\<lambda>(r, s2). isl r \<or> registered s2 ''device/b//'')
            (deregister_and_persist_entity example_env ''device/a//'' s) = Some False)
      (run (store_step example_env) example_store example_ops) = Some True"
    by code_simp
  then obtain s r s2 where s: "run (store_step example_env) example_store example_ops = Some s"
    "registered s ''device/b//''"
    and r: "deregister_and_persist_entity example_env ''device/a//'' s = Some (r, s2)"
    "\<not> isl r" "\<not> registered s2 ''device/b//''" by auto
  then obtain removed where d: "deregister_and_persist_entity example_env ''device/a//'' s = Some (Inr removed, s2)"
    by (cases r) auto
  obtain s1 where s1: "with_main_device example_env schema_new (registration_main_device None) 2 Log_open
      (log_contents (st_log s2)) [] False = Inr s1"
    by (simp add: with_main_device_def registration_main_device_def Let_def)
  have "json_of_text (env_json example_env) [] = None" by code_simp
  then have "st_tree s1 = st_tree s"
    by (rule deregistration_not_restored [OF example_log_env _ example_main_wf _ _ example_store_started _ s(1) d s1, rotated])
      (simp_all add: example_ops_loggable example_main_id wf_entity_id_def)
  with s d r s1 show ?thesis by auto
qed

end
