(* ===== verification/Store_Properties.thy ===== *)
theory Store_Properties
  imports Entity_Store
begin

text \<open>
  What the operations of the entity store promise: twin data, repeated registrations, registrations
  that arrive before the one of their parent, and what a registration under itself does to listings.
\<close>

section \<open>Twin data\<close>

lemma register_twin_data_spec:
  assumes "tree_wf (store_entities s)" "register_twin_data w s = (res, s')"
  shows "(store_get s (tw_topic_id w) = None \<longrightarrow> res = Inl (UnknownEntity (tw_topic_id w)) \<and> s' = s)
    \<and> (\<forall>e. store_get s (tw_topic_id w) = Some e \<longrightarrow>
        (\<exists>e'. store_get s' (tw_topic_id w) = Some e' \<and> res = Inr (e' \<noteq> e)
          \<and> bt_get (em_twin_data e') (tw_key w)
              = (if tw_value w = JNull then None else Some (tw_value w))
          \<and> (\<forall>k. k \<noteq> tw_key w \<longrightarrow> bt_get (em_twin_data e') k = bt_get (em_twin_data e) k)))
    \<and> (\<forall>x. x \<noteq> tw_topic_id w \<longrightarrow> store_get s' x = store_get s x)"
proof -
  have "\<exists>e'. store_get s' (tw_topic_id w) = Some e' \<and> res = Inr (e' \<noteq> e)
      \<and> bt_get (em_twin_data e') (tw_key w) = (if tw_value w = JNull then None else Some (tw_value w))
      \<and> (\<forall>k. k \<noteq> tw_key w \<longrightarrow> bt_get (em_twin_data e') k = bt_get (em_twin_data e) k)"
    if e: "store_get s (tw_topic_id w) = Some e" for e
  proof -
    obtain node where n: "hm_get (store_entities s) (tw_topic_id w) = Some node" "e = node_metadata node"
      using e by (auto simp: store_get_def tree_get_def)
    obtain b e' where u: "update_twin_fragment (tw_key w) (tw_value w) e = (b, e')"
      by (cases "update_twin_fragment (tw_key w) (tw_value w) e")
    have wf: "bt_wf (em_twin_data e)" using tree_wfD(3) [OF assms(1) n(1)] n(2) by blast
    have get: "store_get s' (tw_topic_id w) = Some e'" "res = Inr b"
      using assms(2) n u by (auto simp: register_twin_data_def store_get_def tree_get_def update_conv')
    have twin: "bt_get (em_twin_data e') k = (if k = tw_key w
        then if tw_value w = JNull then None else Some (tw_value w) else bt_get (em_twin_data e) k)" for k
      using u by (auto simp: update_twin_fragment_def Let_def is_null_def split: if_splits)
    have b: "b \<longleftrightarrow> bt_get (em_twin_data e) \<noteq> bt_get (em_twin_data e')"
      using u twin by (auto simp: update_twin_fragment_def Let_def is_null_def fun_eq_iff split: if_splits)
    have only: "e' = e\<lparr>em_twin_data := em_twin_data e'\<rparr>" and wf': "bt_wf (em_twin_data e')"
      using u wf by (auto simp: update_twin_fragment_def Let_def split: if_splits)
    have "e' = e" if "\<not> b"
    proof -
      have eq: "em_twin_data e' = em_twin_data e" using that b by (intro bt_eqI [OF wf' wf]) simp
      show ?thesis using only unfolding eq by simp
    qed
    then have "b \<longleftrightarrow> e' \<noteq> e" using b by blast
    then show ?thesis using get twin by auto
  qed
  moreover have "store_get s' x = store_get s x" if "x \<noteq> tw_topic_id w" for x
    using register_twin_data_get [OF assms(2), of x] that by (simp add: store_get_def tree_get_def)
  moreover have "store_get s (tw_topic_id w) = None
      \<Longrightarrow> res = Inl (UnknownEntity (tw_topic_id w)) \<and> s' = s"
    using assms(2) by (auto simp: store_get_def tree_get_def register_twin_data_def)
  ultimately show ?thesis by blast
qed

text \<open>
  Updating the twin data of an entity: an unknown entity is an error and nothing changes; otherwise
  the fragment has the new value, or is gone if the value is null, every other fragment and entity is
  as it was, the result tells whether anything changed, and exactly then one message is logged.
\<close>

lemma update_twin_data_spec:
  assumes "tree_wf (store_entities s)" "log_io (st_log s) = []" "update_twin_data E w s = Some (res, s')"
  shows "(store_get s (tw_topic_id w) = None \<longrightarrow> res = Inl (UnknownEntity (tw_topic_id w)) \<and> s' = s)
    \<and> (\<forall>e. store_get s (tw_topic_id w) = Some e \<longrightarrow>
        (\<exists>e'. store_get s' (tw_topic_id w) = Some e' \<and> res = Inr (e' \<noteq> e)
          \<and> bt_get (em_twin_data e') (tw_key w)
              = (if tw_value w = JNull then None else Some (tw_value w))
          \<and> (\<forall>k. k \<noteq> tw_key w \<longrightarrow> bt_get (em_twin_data e') k = bt_get (em_twin_data e) k)
          \<and> length (log_contents (st_log s')) = length (log_contents (st_log s)) + (if e' = e then 0 else 1)))
    \<and> (\<forall>x. x \<noteq> tw_topic_id w \<longrightarrow> store_get s' x = store_get s x)"
proof -
  obtain x s1 where reg: "register_twin_data w s = (x, s1)" by (cases "register_twin_data w s")
  have out: "res = x \<and> st_tree s' = st_tree s1 \<and> (\<forall>e. x = Inl e \<longrightarrow> s' = s1)
      \<and> (\<forall>b. x = Inr b \<longrightarrow> length (log_contents (st_log s')) = length (log_contents (st_log s)) + (if b then 1 else 0))"
  proof (cases "x = Inr True")
    case True
    with assms(3) reg obtain m where p: "persist E m True s1 = (res, s')"
      by (auto simp: update_twin_data_def register_and_persist_twin_data_def split: bind_splits)
    moreover have "st_log s1 = st_log s" by (rule register_twin_data_keeps(4) [OF reg])
    moreover obtain o1 log where a: "append_message (env_codec E) m (st_log s) = (o1, log)"
      by (cases "append_message (env_codec E) m (st_log s)")
    ultimately show ?thesis
      using append_message_no_faults [of "st_log s" "env_codec E" m]
        append_message_contents [of "env_codec E" m "st_log s"] assms(2) True
      by (auto simp: persist_def)
  next
    case False
    then have "s' = s1" "res = x" using assms(3) reg
      by (auto simp: update_twin_data_def register_and_persist_twin_data_def split: sum.splits if_splits)
    then show ?thesis using False register_twin_data_keeps(4) [OF reg] by simp
  qed
  then have get: "store_get s' = store_get s1" by (simp add: store_get_def fun_eq_iff)
  note spec = register_twin_data_spec [OF assms(1) reg]
  show ?thesis
  proof (intro conjI)
    show "store_get s (tw_topic_id w) = None \<longrightarrow> res = Inl (UnknownEntity (tw_topic_id w)) \<and> s' = s"
      using spec out by blast
    show "\<forall>x. x \<noteq> tw_topic_id w \<longrightarrow> store_get s' x = store_get s x" using spec get by simp
    show "\<forall>e. store_get s (tw_topic_id w) = Some e \<longrightarrow>
        (\<exists>e'. store_get s' (tw_topic_id w) = Some e' \<and> res = Inr (e' \<noteq> e)
          \<and> bt_get (em_twin_data e') (tw_key w)
              = (if tw_value w = JNull then None else Some (tw_value w))
          \<and> (\<forall>k. k \<noteq> tw_key w \<longrightarrow> bt_get (em_twin_data e') k = bt_get (em_twin_data e) k)
          \<and> length (log_contents (st_log s')) = length (log_contents (st_log s)) + (if e' = e then 0 else 1))"
    proof (intro allI impI)
      fix e assume "store_get s (tw_topic_id w) = Some e"
      with spec obtain e' where e': "store_get s1 (tw_topic_id w) = Some e'" "x = Inr (e' \<noteq> e)"
        "bt_get (em_twin_data e') (tw_key w) = (if tw_value w = JNull then None else Some (tw_value w))"
        "\<forall>k. k \<noteq> tw_key w \<longrightarrow> bt_get (em_twin_data e') k = bt_get (em_twin_data e) k" by blast
      have "length (log_contents (st_log s')) = length (log_contents (st_log s)) + (if e' = e then 0 else 1)"
        using out e'(2) by simp
      with e' out show "\<exists>e'. store_get s' (tw_topic_id w) = Some e' \<and> res = Inr (e' \<noteq> e)
          \<and> bt_get (em_twin_data e') (tw_key w)
              = (if tw_value w = JNull then None else Some (tw_value w))
          \<and> (\<forall>k. k \<noteq> tw_key w \<longrightarrow> bt_get (em_twin_data e') k = bt_get (em_twin_data e) k)
          \<and> length (log_contents (st_log s')) = length (log_contents (st_log s)) + (if e' = e then 0 else 1)"
        unfolding get by blast
    qed
  qed
qed

lemma example_store_simps:
  "store_entities example_store = [(''device/main//'', node_new metadata_main_device)]"
  "log_io (st_log example_store) = []"
  by code_simp+

lemma example_store_wf [simp]: "tree_wf (store_entities example_store)"
  by (simp add: example_store_simps tree_wf_def node_new_def metadata_main_device_def
      default_main_device_def)

lemma update_twin_data_spec_instance:
  "\<exists>s'. update_twin_data example_env (twin_message_new ''device/main//'' ''mode'' (JString ''on''))
       example_store = Some (Inr True, s')
     \<and> (\<exists>e. store_get s' ''device/main//'' = Some e \<and> bt_get (em_twin_data e) ''mode'' = Some (JString ''on''))"
proof -
  let ?w = "twin_message_new ''device/main//'' ''mode'' (JString ''on'')"
  have "map_option fst (update_twin_data example_env ?w example_store) = Some (Inr True)" by code_simp
  then obtain s' where s': "update_twin_data example_env ?w example_store = Some (Inr True, s')" by auto
  have "store_get example_store ''device/main//'' = Some metadata_main_device"
    by (simp add: store_get_def tree_get_def example_store_simps node_new_def)
  then show ?thesis
    using update_twin_data_spec [OF example_store_wf example_store_simps(2) s'] s'
    by (auto simp: twin_message_new_def)
qed

section \<open>A registration under itself\<close>

text \<open>
  C40. The store accepts the update of a registered entity that names the entity itself as its parent,
  and from then on the listing of the entities below it does not return.
\<close>

theorem self_parent_listing_diverges:
  assumes "iteration_rule (env_iter E)" "tree_wf (store_entities s)" "registered s x"
    and "reg_topic_id r = x" "reg_parent r = Some x" "reg_type r \<noteq> MainDevice"
  shows "\<exists>affected s'. register_entity r s = (Inr affected, s')
    \<and> store_list_entity_tree E \<lparr>lf_root = Some x, lf_parent = None, lf_type = ty\<rparr> s' = None"
proof -
  have parent: "effective_parent (st_main s) r = Some x"
    using assms(5,6) by (cases "reg_type r") (simp_all add: effective_parent_def)
  obtain affected s' where reg: "register_entity r s = (Inr affected, s')"
    and tree: "st_tree s' = snd (tree_insert x (registration_metadata (st_main s) r) (st_tree s))"
    using parent assms(3,4) by (simp add: register_entity_eq)
  obtain node where node: "hm_get (store_entities s) x = Some node"
    using assms(3) by (auto simp: tree_contains_key_def hm_contains_def)
  have "em_parent (registration_metadata (st_main s) r) = Some x"
    using parent by (simp add: registration_metadata_def)
  then obtain n where n: "hm_get (store_entities s') x = Some n" "x \<in> set (node_children n)"
    using insert_entity_get [OF prod.collapse [symmetric],
        of x "registration_metadata (st_main s) r" "store_entities s" x] node
    by (simp add: tree tree_insert_parts)
  have "list_loop (env_iter E) (store_entities s') \<lparr>lf_root = Some x, lf_parent = None, lf_type = ty\<rparr> [x] [] = None"
    by (rule list_loop_diverges [OF assms(1) _ n]) (simp_all add: n(1))
  then show ?thesis
    using reg n(1) by (simp add: store_list_entity_tree_def list_entity_tree_def start_root_def
        tree_contains_key_def hm_contains_def)
qed

theorem self_parent_listing_diverges_witness:
  "\<exists>affected s'. register_entity (example_child ''main'' ''main'') example_store = (Inr affected, s')
    \<and> store_list_entity_tree example_env
        \<lparr>lf_root = Some ''device/main//'', lf_parent = None, lf_type = None\<rparr> s' = None"
  by (rule self_parent_listing_diverges [OF _ example_store_wf])
    (simp_all add: example_child_def with_parent_def registration_new_custom_def example_store_simps
      tree_contains_key_def hm_contains_def)

section \<open>Repeated registrations\<close>

lemma bt_extend_self: "bt_wf m \<Longrightarrow> bt_wf m' \<Longrightarrow> bt_extend (bt_extend m m') m' = bt_extend m m'"
  by (rule bt_eqI) (auto simp: fun_eq_iff bt_wf_map_of_rev split: option.split)

lemma merge_idem:
  assumes "jmap_wf (em_twin_data e)" "jmap_wf (em_twin_data m)"
  shows "merge_metadata (merge_metadata e m) m = merge_metadata e m"
  using bt_extend_self [OF jmap_wf_bt jmap_wf_bt] assms by (simp add: merge_metadata_def)

lemma merge_self: "jmap_wf (em_twin_data m) \<Longrightarrow> merge_metadata m m = m"
  using bt_extend_self [of "[]" "em_twin_data m"]
  by (auto simp: merge_metadata_def bt_extend_Nil dest!: jmap_wf_bt)

lemma store_get_register:
  assumes "register_entity r s = (Inr a, s')"
  shows "store_get s' x =
    (if x = reg_topic_id r then Some (case store_get s x of
         None \<Rightarrow> registration_metadata (st_main s) r
       | Some e \<Rightarrow> merge_metadata e (registration_metadata (st_main s) r))
     else store_get s x)"
proof -
  have "store_entities s' = snd (insert_entity (reg_topic_id r) (registration_metadata (st_main s) r) (store_entities s))"
    using assms by (auto simp: register_entity_eq tree_insert_parts split: option.splits if_splits)
  then show ?thesis
    using insert_entity_get [OF prod.collapse [symmetric],
        of "reg_topic_id r" "registration_metadata (st_main s) r" "store_entities s" x]
    by (cases "hm_get (store_entities s) x"; cases "x = reg_topic_id r";
        cases "em_parent (registration_metadata (st_main s) r) = Some x")
      (simp_all add: store_get_def tree_get_def node_new_def)
qed

text \<open>A store in which a registration has been applied.\<close>

definition applied :: "registration \<Rightarrow> entity_store \<Rightarrow> bool" where
  "applied r s \<longleftrightarrow> (\<exists>e. store_get s (reg_topic_id r) = Some e
     \<and> merge_metadata e (registration_metadata (st_main s) r) = e)
     \<and> (\<forall>p. effective_parent (st_main s) r = Some p \<longrightarrow> registered s p)"

lemma registered_get: "registered s x \<longleftrightarrow> store_get s x \<noteq> None"
  by (simp add: store_get_def tree_get_def tree_contains_key_def hm_contains_def)

lemma applied_register:
  assumes "tree_wf (store_entities s)" "jmap_wf (reg_twin_data r)" "register_entity r s = (Inr a, s')"
  shows "applied r s'"
proof -
  have main: "st_main s' = st_main s" by (rule register_entity_keeps(2) [OF assms(3)])
  have "jmap_wf (em_twin_data e)" if "store_get s (reg_topic_id r) = Some e" for e
    using that tree_wfD(3) [OF assms(1)] by (auto simp: store_get_def tree_get_def)
  then have "\<exists>e. store_get s' (reg_topic_id r) = Some e
      \<and> merge_metadata e (registration_metadata (st_main s') r) = e"
    using merge_idem [of _ "registration_metadata (st_main s) r"]
      merge_self [of "registration_metadata (st_main s) r"] assms(2) main
    by (auto simp: store_get_register [OF assms(3)] registration_metadata_def split: option.split)
  moreover have "registered s' p" if "effective_parent (st_main s') r = Some p" for p
    using that assms(3) main store_get_register [OF assms(3), of p]
    by (auto simp: register_entity_eq registered_get split: if_splits)
  ultimately show ?thesis unfolding applied_def by blast
qed

lemma applied_other:
  assumes "applied r s" "register_entity d s = (Inr a, s')" "reg_topic_id d \<noteq> reg_topic_id r"
  shows "applied r s'"
  using assms store_get_register [OF assms(2)] register_entity_keeps(2) [OF assms(2)]
  unfolding applied_def registered_get by auto

lemma applied_unchanged:
  assumes "tree_wf (store_entities s)" "applied r s"
  shows "register_entity r s = (Inr [], s)"
proof -
  let ?m = "registration_metadata (st_main s) r"
  obtain node where "hm_get (store_entities s) (reg_topic_id r) = Some node"
    "merge_metadata (node_metadata node) ?m = node_metadata node"
    using assms(2) by (auto simp: applied_def store_get_def tree_get_def)
  then have out: "fst (insert_entity (reg_topic_id r) ?m (store_entities s)) = Unchanged"
    by (simp add: insert_entity_outcome)
  then have "insert_entity (reg_topic_id r) ?m (store_entities s)
      = (Unchanged, snd (insert_entity (reg_topic_id r) ?m (store_entities s)))" by (simp add: prod_eq_iff)
  from insert_entity_unchanged [OF assms(1) this]
  have "snd (tree_insert (reg_topic_id r) ?m (st_tree s)) = st_tree s"
    by (simp add: tree_insert_def case_prod_beta)
  then show ?thesis
    using assms(2) out
    by (auto simp: register_entity_eq tree_insert_parts applied_def split: option.split)
qed

lemma applied_tree: "st_tree s' = st_tree s \<Longrightarrow> st_main s' = st_main s \<Longrightarrow> applied r s' = applied r s"
  by (simp add: applied_def store_get_def)

lemma persist_result: "persist E m x s = (Inr y, s') \<Longrightarrow> y = x"
  by (auto simp: persist_def split: prod.splits sum.splits)

lemma register_and_persist_Inr:
  assumes "register_and_persist_entity E r s = Some (Inr a, s')"
  shows "\<exists>s1. register_entity r s = (Inr a, s1) \<and> st_tree s' = st_tree s1 \<and> st_main s' = st_main s1"
proof -
  obtain x s1 where reg: "register_entity r s = (x, s1)" by (cases "register_entity r s")
  have "x = Inr a"
    using assms reg
    by (auto simp: register_and_persist_entity_def dest: persist_result
        split: sum.splits if_splits bind_splits)
  then show ?thesis
    using reg register_and_persist_keeps [OF assms] register_entity_keeps(2) [OF reg] by simp
qed

lemma register_pending_result:
  "register_pending E ds acc s = Some (Inr res, s') \<Longrightarrow> res = acc @ ds"
proof (induction ds arbitrary: acc s)
  case (Cons d ds)
  from Cons.prems obtain s1 where "register_pending E ds (acc @ [d]) s1 = Some (Inr res, s')"
    by (auto split: bind_splits sum.splits)
  from Cons.IH [OF this] show ?case by simp
qed simp

lemma applied_pending:
  "applied r s \<Longrightarrow> \<forall>d \<in> set ds. reg_topic_id (rd_reg d) \<noteq> reg_topic_id r
    \<Longrightarrow> register_pending E ds acc s = Some (Inr res, s') \<Longrightarrow> applied r s'"
proof (induction ds arbitrary: acc s)
  case (Cons d ds)
  from Cons.prems(3) obtain a s1 where reg: "register_and_persist_entity E (rd_reg d) s = Some (Inr a, s1)"
    and rest: "register_pending E ds (acc @ [d]) s1 = Some (Inr res, s')"
    by (auto split: bind_splits sum.splits)
  obtain s2 where "register_entity (rd_reg d) s = (Inr a, s2)" "st_tree s1 = st_tree s2" "st_main s1 = st_main s2"
    using register_and_persist_Inr [OF reg] by blast
  then have "applied r s1"
    using applied_other [OF Cons.prems(1), of "rd_reg d"] Cons.prems(2) applied_tree [of s1 s2 r] by simp
  with Cons.IH [OF this _ rest] Cons.prems(2) show ?case by simp
qed simp

lemma store_update_applied:
  assumes "store_inv s" "typed_registration r" "store_update E r s = Some (Inr ds, s')" "ds \<noteq> []"
    and "reg_topic_id r \<notin> set (rd_ids (tl ds))"
  shows "applied r s'"
  using assms(3)
proof (cases rule: store_update_cases)
  case (added affected s1 d ps1 ch ps2)
  obtain s0 where s0: "register_entity r s = (Inr affected, s0)" "st_tree s1 = st_tree s0" "st_main s1 = st_main s0"
    using register_and_persist_Inr [OF added(1)] by blast
  have "applied r s0"
    using applied_register [OF _ _ s0(1)] assms(1,2) by (simp add: store_inv_def typed_registration_def)
  then have ap: "applied r (s1\<lparr>st_pending := ps2\<rparr>)"
    using applied_tree [of "s1\<lparr>st_pending := ps2\<rparr>" s0 r] s0 by simp
  have "ds = d # ch"
    using register_pending_result [OF added(5)] by simp
  then have "\<forall>c \<in> set ch. reg_topic_id (rd_reg c) \<noteq> reg_topic_id r" using assms(5) by force
  from applied_pending [OF ap this added(5)] show ?thesis .
qed (use assms(4) in simp_all)

text \<open>
  C5. Registering an entity twice is the same as registering it once, once the registration has been applied: after an update that
  took effect (it reported the entity, and not as one of its own pending descendants), the same registration is
  accepted, reports no new entity, and changes neither the tree, nor the log, nor the pending store.  For a
  registration that waits for its parent this does not hold: it is recorded twice (\<^verbatim>\<open>early_update_recorded_twice\<close>).
\<close>

theorem update_idempotent:
  assumes "store_inv s" "typed_registration r" "store_update E r s = Some (Inr ds, s')" "ds \<noteq> []"
    and "reg_topic_id r \<notin> set (rd_ids (tl ds))"
  shows "store_update E r s' = Some (Inr [], s')"
proof -
  have "tree_wf (store_entities s')"
    using reg_tree.update_keeps [OF _ _ assms(2,3)] assms(1) by (simp add: store_inv_def)
  then have "register_entity r s' = (Inr [], s')"
    using applied_unchanged store_update_applied [OF assms] by blast
  then show ?thesis by (simp add: store_update_def register_and_persist_entity_def)
qed

lemma example_store_inv [simp]: "store_inv example_store"
  by (rule with_main_device_inv [OF _ _ wf_typed [OF example_main_wf] example_store_started]) simp_all

lemma example_child_wf: "wf_registration (example_child ''a'' ''main'')" "wf_registration (example_child ''b'' ''a'')"
  by (simp_all add: wf_registration_def example_child_def with_parent_def registration_new_custom_def
      wf_entity_id_def reserved_free_def)

theorem update_idempotent_witness:
  "\<exists>ds s'. store_update example_env (example_child ''a'' ''main'') example_store = Some (Inr ds, s')
    \<and> rd_ids ds = [''device/a//'']
    \<and> store_update example_env (example_child ''a'' ''main'') s' = Some (Inr [], s')"
proof -
  have "map_option (\<lambda>(res, s). case res of Inr ds \<Rightarrow> rd_ids ds | Inl _ \<Rightarrow> [])
      (store_update example_env (example_child ''a'' ''main'') example_store) = Some [''device/a//'']"
    by code_simp
  then obtain res s' where r: "store_update example_env (example_child ''a'' ''main'') example_store
      = Some (res, s')" "(case res of Inr ds \<Rightarrow> rd_ids ds | Inl _ \<Rightarrow> []) = [''device/a//'']" by auto
  then obtain ds where ds: "store_update example_env (example_child ''a'' ''main'') example_store
      = Some (Inr ds, s')" "rd_ids ds = [''device/a//'']"
    by (cases res) auto
  have "ds \<noteq> []" "rd_ids (tl ds) = []" using ds(2) by (auto simp: map_tl)
  with update_idempotent [OF example_store_inv wf_typed [OF example_child_wf(1)] ds(1)] ds show ?thesis by auto
qed

lemma early_update_recorded_twice:
  "map_option (\<lambda>s. hm_get (ps_orphans (st_pending s)) ''device/a//'')
     (run (store_step example_env) example_store
       [Op_update (example_child ''b'' ''a''), Op_update (example_child ''b'' ''a'')])
   = Some (Some [''device/b//'', ''device/b//''])"
  by code_simp

section \<open>Registrations ahead of their parent\<close>

lemma persist_no_faults:
  "log_io (st_log s) = [] \<Longrightarrow> \<exists>s'. persist E m x s = (Inr x, s') \<and> log_io (st_log s') = []"
  using append_message_no_faults [of "st_log s" "env_codec E" m]
  by (cases "append_message (env_codec E) m (st_log s)") (auto simp: persist_def)

definition store_ready :: "env \<Rightarrow> entity_store \<Rightarrow> bool" where
  "store_ready E s \<longleftrightarrow> topic_rule (env_mqtt E) \<and> wf_root (root (st_schema s)) \<and> log_io (st_log s) = []"

lemma register_and_persist_total:
  assumes "store_ready E s" "wf_registration r"
    and "\<And>p. effective_parent (st_main s) r = Some p \<Longrightarrow> registered s p"
  shows "\<exists>a s'. register_and_persist_entity E r s = Some (Inr a, s') \<and> store_ready E s'
    \<and> (\<forall>x. registered s' x \<longleftrightarrow> x = reg_topic_id r \<or> registered s x)
    \<and> (store_get s (reg_topic_id r) = None \<longrightarrow> reg_type r \<noteq> MainDevice \<longrightarrow> a \<noteq> [])"
proof -
  obtain a s1 where reg: "register_entity r s = (Inr a, s1)"
    using assms(3) by (cases "effective_parent (st_main s) r") (simp_all add: register_entity_eq)
  note keeps = register_entity_keeps [OF reg]
  have ready: "store_ready E s1" using assms(1) keeps by (simp add: store_ready_def)
  have a: "a \<noteq> []" if "store_get s (reg_topic_id r) = None" "reg_type r \<noteq> MainDevice"
    using that reg assms(3)
    by (cases "reg_type r")
      (auto simp: register_entity_eq tree_insert_parts insert_entity_outcome store_get_def tree_get_def
        effective_parent_def split: option.splits if_splits)
  have reg': "registered s1 x \<longleftrightarrow> x = reg_topic_id r \<or> registered s x" for x
    using store_get_register [OF reg, of x] by (auto simp: registered_get)
  show ?thesis
  proof (cases "a = []")
    case True
    then show ?thesis using reg ready reg' a by (auto simp: register_and_persist_entity_def)
  next
    case False
    obtain m where m: "registration_to_message (env_mqtt E) (env_json E) (st_schema s1) r = Some m"
      using registration_to_message_Some [OF _ _ assms(2)] ready by (fastforce simp: store_ready_def)
    obtain s2 where s2: "persist E m a s1 = (Inr a, s2)" "log_io (st_log s2) = []"
      using persist_no_faults [of s1 E m a] ready by (auto simp: store_ready_def)
    have "st_tree s2 = st_tree s1" "st_schema s2 = st_schema s1"
      using persist_keeps [of E m a s1] s2(1) by simp_all
    then show ?thesis
      using reg False m s2 ready reg'
      by (auto simp: register_and_persist_entity_def store_ready_def)
  qed
qed

lemma register_pending_total:
  "store_ready E s \<Longrightarrow> list_all (wf_registration \<circ> rd_reg) ds
    \<Longrightarrow> list_all (\<lambda>d. reg_parent (rd_reg d) \<noteq> None) ds \<Longrightarrow> parents_first known (map rd_reg ds)
    \<Longrightarrow> \<forall>k \<in> known. registered s k
    \<Longrightarrow> \<exists>s'. register_pending E ds acc s = Some (Inr (acc @ ds), s')
      \<and> (\<forall>x. registered s' x \<longleftrightarrow> x \<in> set (rd_ids ds) \<or> registered s x)"
proof (induction ds arbitrary: acc s known)
  case (Cons d ds)
  obtain p where p: "reg_parent (rd_reg d) = Some p" "registered s p" using Cons.prems(3-5) by auto
  have "reg_type (rd_reg d) \<noteq> MainDevice" using Cons.prems(2) p(1) by (auto simp: wf_registration_def)
  then have "effective_parent (st_main s) (rd_reg d) = Some p"
    using p(1) by (cases "reg_type (rd_reg d)") (simp_all add: effective_parent_def)
  then obtain a s1 where s1: "register_and_persist_entity E (rd_reg d) s = Some (Inr a, s1)" "store_ready E s1"
    "\<forall>x. registered s1 x \<longleftrightarrow> x = reg_topic_id (rd_reg d) \<or> registered s x"
    using register_and_persist_total [OF Cons.prems(1), of "rd_reg d"] Cons.prems(2) p(2) by auto
  have "\<exists>s'. register_pending E ds (acc @ [d]) s1 = Some (Inr ((acc @ [d]) @ ds), s')
      \<and> (\<forall>x. registered s' x \<longleftrightarrow> x \<in> set (rd_ids ds) \<or> registered s1 x)"
    using Cons.prems s1(3) by (intro Cons.IH [OF s1(2), where known = "insert (reg_topic_id (rd_reg d)) known"]) auto
  then show ?case using s1(1,3) by auto
qed simp

text \<open>
  The invariant of a store whose entities (with identifiers in \<^term>\<open>N\<close>) are always registered under the same
  parent: the orphans recorded for a parent are cached registrations under it, and nobody waits for a registered entity.
\<close>

definition stable_registration :: "(entity_topic_id \<Rightarrow> entity_topic_id) \<Rightarrow> entity_topic_id set \<Rightarrow> registration \<Rightarrow> bool" where
  "stable_registration par N r \<longleftrightarrow> wf_registration r \<and> reg_parent r = Some (par (reg_topic_id r)) \<and> reg_topic_id r \<in> N"

definition waits_for :: "pending_store \<Rightarrow> entity_topic_id \<Rightarrow> entity_topic_id \<Rightarrow> bool" where
  "waits_for ps c p \<longleftrightarrow> (\<exists>cs. hm_get (ps_orphans ps) p = Some cs \<and> c \<in> set cs)"

definition orphans_ok :: "(entity_topic_id \<Rightarrow> entity_topic_id) \<Rightarrow> entity_topic_id set \<Rightarrow> pending_store \<Rightarrow> bool" where
  "orphans_ok par N ps \<longleftrightarrow> hm_wf (ps_entities ps) \<and> pending_regs (stable_registration par N) ps
     \<and> (\<forall>c p. waits_for ps c p \<longrightarrow> (\<exists>pc r. hm_get (ps_entities ps) c = Some pc \<and> pc_reg pc = Some r \<and> reg_topic_id r = c \<and> par c = p))"

definition settled :: "env \<Rightarrow> (entity_topic_id \<Rightarrow> entity_topic_id) \<Rightarrow> entity_topic_id set \<Rightarrow> entity_store \<Rightarrow> bool" where
  "settled E par N s \<longleftrightarrow> store_ready E s \<and> orphans_ok par N (st_pending s)
     \<and> (\<forall>p. hm_get (ps_orphans (st_pending s)) p \<noteq> None \<longrightarrow> \<not> registered s p)"

lemma orphans_okD:
  assumes "orphans_ok par N ps" "waits_for ps c p"
  obtains pc r where "hm_get (ps_entities ps) c = Some pc" "pc_reg pc = Some r" "reg_topic_id r = c" "par c = p"
  using assms unfolding orphans_ok_def by blast

lemma orphans_ok_consistent:
  assumes "orphans_ok par N ps"
  shows "ps_consistent ps"
  unfolding ps_consistent_def
proof (intro allI impI)
  fix p cs c pc
  assume "hm_get (ps_orphans ps) p = Some cs" "c \<in> set cs" and pc: "hm_get (ps_entities ps) c = Some pc"
  then have "waits_for ps c p" by (auto simp: waits_for_def)
  then obtain r where r: "pc_reg pc = Some r" "reg_topic_id r = c" "par c = p"
    using pc by (elim orphans_okD [OF assms]) simp
  have "stable_registration par N r" using assms pc r(1) unfolding orphans_ok_def pending_regs_def by blast
  with r show "\<exists>r. pc_reg pc = Some r \<and> reg_topic_id r = c \<and> reg_parent r = Some p"
    by (simp add: stable_registration_def)
qed

lemma register_entity_stable:
  assumes "stable_registration par N r" 
  shows "effective_parent m r = Some (par (reg_topic_id r))" "reg_type r \<noteq> MainDevice"
  using assms by (cases "reg_type r"; auto simp: stable_registration_def wf_registration_def effective_parent_def)+

lemma settled_early_data:
  assumes "settled E par N s"
  shows "settled E par N (store_cache_early_data_message E m s)"
proof -
  let ?ps = "st_pending s" and ?ps' = "cache_early_data_message (env_mqtt E) m (st_pending s)"
  have o: "ps_orphans ?ps' = ps_orphans ?ps"
    by (auto simp: cache_early_data_message_def Let_def split: sum.split channel.split)
  have "hm_wf (ps_entities ?ps) \<Longrightarrow> hm_wf (ps_entities ?ps')"
    by (auto simp: cache_early_data_message_def Let_def distinct_update split: sum.split channel.split)
  moreover have "\<exists>pc'. hm_get (ps_entities ?ps') c = Some pc' \<and> pc_reg pc' = pc_reg pc"
    if "hm_get (ps_entities ?ps) c = Some pc" for c pc
    using that by (auto simp: cache_early_data_message_def Let_def update_conv' split: sum.split channel.split)
  ultimately have "orphans_ok par N ?ps'"
    using assms cache_early_regs(1) [of "stable_registration par N" ?ps "env_mqtt E" m]
    unfolding settled_def orphans_ok_def waits_for_def o by metis
  then show ?thesis
    using assms o by (auto simp: settled_def store_ready_def store_cache_early_data_message_def)
qed

lemma orphans_ok_cache_early:
  assumes "orphans_ok par N ps" "stable_registration par N r"
  shows "\<exists>ps'. cache_early_registration_message r ps = Some ps' \<and> orphans_ok par N ps'
    \<and> (\<forall>c p. waits_for ps' c p \<longleftrightarrow> waits_for ps c p \<or> c = reg_topic_id r \<and> p = par (reg_topic_id r))
    \<and> (\<forall>p. hm_get (ps_orphans ps') p \<noteq> None \<longleftrightarrow> hm_get (ps_orphans ps) p \<noteq> None \<or> p = par (reg_topic_id r))"
proof -
  let ?x = "reg_topic_id r" and ?p = "par (reg_topic_id r)"
  have r: "reg_parent r = Some ?p" using assms(2) by (simp add: stable_registration_def)
  obtain ps' where ps': "cache_early_registration_message r ps = Some ps'"
    by (simp add: cache_early_registration_message_def r Let_def)
  then have o: "hm_get (ps_orphans ps') = (hm_get (ps_orphans ps))(?p \<mapsto>
      (case hm_get (ps_orphans ps) ?p of Some cs \<Rightarrow> cs | None \<Rightarrow> []) @ [?x])"
    and e: "\<exists>pc. ps_entities ps' = hm_insert ?x pc (ps_entities ps) \<and> pc_reg pc = Some r"
    by (auto simp: cache_early_registration_message_def r update_conv' Let_def)
  have waits: "waits_for ps' c p \<longleftrightarrow> waits_for ps c p \<or> c = ?x \<and> p = ?p" for c p
    unfolding waits_for_def o by (cases "hm_get (ps_orphans ps) ?p") (auto split: if_splits)
  have "pending_regs (stable_registration par N) ps'"
    by (rule cache_early_regs(2) [where good = "stable_registration par N", OF _ assms(2) ps']) (use assms(1) in \<open>simp add: orphans_ok_def\<close>)
  moreover have "hm_wf (ps_entities ps')" using e assms(1) by (auto simp: orphans_ok_def distinct_update)
  moreover have "\<exists>pc r'. hm_get (ps_entities ps') c = Some pc \<and> pc_reg pc = Some r' \<and> reg_topic_id r' = c \<and> par c = p"
    if "waits_for ps' c p" for c p
  proof (cases "c = ?x")
    case True
    have "par c = p" using that orphans_okD [OF assms(1), of c p] True unfolding waits by blast
    with e True show ?thesis by (auto simp: update_conv')
  next
    case False
    then have "waits_for ps c p" using that unfolding waits by blast
    with e False show ?thesis by (elim orphans_okD [OF assms(1)]) (auto simp: update_conv')
  qed
  ultimately have "orphans_ok par N ps'" by (simp add: orphans_ok_def)
  then show ?thesis using ps' waits o by auto
qed

lemma settled_update_early:
  assumes "settled E par N s" "stable_registration par N r" "\<not> registered s (par (reg_topic_id r))"
  shows "\<exists>s'. store_update E r s = Some (Inr [], s') \<and> settled E par N s' \<and> registered s' = registered s
    \<and> (\<forall>c p. waits_for (st_pending s') c p \<longleftrightarrow> waits_for (st_pending s) c p \<or> c = reg_topic_id r \<and> p = par (reg_topic_id r))"
proof -
  have reg: "register_and_persist_entity E r s = Some (Inl (NoParent (par (reg_topic_id r))), s)"
    using assms(3) by (simp add: register_and_persist_entity_def register_entity_def register_entity_stable [OF assms(2)])
  obtain ps' where ps': "cache_early_registration_message r (st_pending s) = Some ps'" "orphans_ok par N ps'"
    "\<forall>c p. waits_for ps' c p \<longleftrightarrow> waits_for (st_pending s) c p \<or> c = reg_topic_id r \<and> p = par (reg_topic_id r)"
    "\<forall>p. hm_get (ps_orphans ps') p \<noteq> None \<longleftrightarrow> hm_get (ps_orphans (st_pending s)) p \<noteq> None \<or> p = par (reg_topic_id r)"
    using orphans_ok_cache_early [OF _ assms(2), of "st_pending s"] assms(1) unfolding settled_def by blast
  have "settled E par N (s\<lparr>st_pending := ps'\<rparr>)"
    using assms(1,3) ps'(2,4) by (auto simp: settled_def store_ready_def)
  then show ?thesis using reg ps' by (simp add: store_update_def)
qed

text \<open>What is taken out of the pending store with an entity: its own data and all its pending descendants.\<close>

lemma take_pending_descendants:
  assumes "orphans_ok par N ps" "\<And>p. \<not> waits_for ps x p"
    and "take_cached_entity_data L r ps = (d, ps1)" "reg_topic_id r = x"
  shows "\<exists>ds ps2. take_cached_child_entities_data L x ps1 = Some (ds, ps2) \<and> rd_reg d = r \<and> orphans_ok par N ps2
    \<and> parents_first {x} (map rd_reg ds) \<and> list_all (\<lambda>d. reg_parent (rd_reg d) \<noteq> None) ds
    \<and> list_all (stable_registration par N \<circ> rd_reg) ds
    \<and> hm_get (ps_orphans ps2) = hm_get (ps_orphans ps) |` (- insert x (set (rd_ids ds)))
    \<and> (\<forall>c p. waits_for ps c p \<longrightarrow> p \<in> insert x (set (rd_ids ds)) \<longrightarrow> c \<in> set (rd_ids ds))"
proof -
  have take: "ps_entities ps1 = hm_remove x (ps_entities ps) \<or> ps_entities ps1 = ps_entities ps \<and> hm_get (ps_entities ps) x = None"
    "ps_orphans ps1 = ps_orphans ps" "rd_reg d = r"
    using assms(3,4) by (auto simp: take_cached_entity_data_def Let_def dest!: take_telemetryD
        split: option.splits prod.splits)
  then have e1: "hm_get (ps_entities ps1) = (hm_get (ps_entities ps))(x := None)" by (auto simp: delete_conv')
  have ok1: "orphans_ok par N ps1"
    using assms(1,2) take e1 take_cached_entity_data_regs [OF _ assms(3), of "stable_registration par N"]
    by (auto simp: orphans_ok_def waits_for_def distinct_delete)
  then have cons: "ps_consistent ps1" "hm_wf (ps_entities ps1)"
    using orphans_ok_consistent by (auto simp: orphans_ok_def)
  obtain ds ps2 where ds: "take_cached_child_entities_data L x ps1 = Some (ds, ps2)"
    "parents_first {x} (map rd_reg ds)" "list_all (\<lambda>d. reg_parent (rd_reg d) \<noteq> None) ds"
    "hm_get (ps_entities ps2) = hm_get (ps_entities ps1) |` (- set (rd_ids ds))"
    "\<forall>c \<in> set (fst (take_orphans x ps1)). hm_get (ps_entities ps2) c = None"
    "hm_get (ps_orphans ps2) = hm_get (ps_orphans (snd (take_orphans x ps1))) |` (- set (rd_ids ds))"
    "\<forall>q \<in> set (rd_ids ds). \<forall>xs. hm_get (ps_orphans (snd (take_orphans x ps1))) q = Some xs
         \<longrightarrow> (\<forall>c \<in> set xs. hm_get (ps_entities ps2) c = None)" "hm_wf (ps_entities ps2)"
    using take_children_spec [OF visit_ok_orphans [OF cons, of x], of L]
    by (auto simp: take_cached_child_entities_data_def)
  have regs: "pending_regs (stable_registration par N) ps2" "list_all (stable_registration par N \<circ> rd_reg) ds"
    using take_cached_child_entities_regs [OF _ ds(1)] ok1 by (auto simp: orphans_ok_def)
  have o: "hm_get (ps_orphans (snd (take_orphans x ps1))) = (hm_get (ps_orphans ps))(x := None)"
    by (auto simp: take_orphans_def take(2) delete_conv' fun_eq_iff split: option.split)
  have o2: "hm_get (ps_orphans ps2) = hm_get (ps_orphans ps) |` (- insert x (set (rd_ids ds)))"
    unfolding ds(6) o by (auto simp: restrict_map_def fun_eq_iff)
  have below: "c \<in> set (rd_ids ds)" if w: "waits_for ps c p" "p \<in> insert x (set (rd_ids ds))" for c p
  proof -
    obtain cs where cs: "hm_get (ps_orphans ps) p = Some cs" "c \<in> set cs" using w(1) by (auto simp: waits_for_def)
    have "c \<noteq> x" using w(1) assms(2) by blast
    then have "hm_get (ps_entities ps1) c \<noteq> None" using orphans_okD [OF assms(1) w(1)] unfolding e1 by (metis fun_upd_other option.distinct(1))
    moreover have "hm_get (ps_entities ps2) c = None"
    proof (cases "p = x")
      case True
      then show ?thesis using ds(5) cs take(2) by (simp add: take_orphans_def)
    next
      case False
      then show ?thesis using ds(7) cs w(2) o by auto
    qed
    ultimately show ?thesis using ds(4) by (auto simp: restrict_map_def split: if_splits)
  qed
  have "orphans_ok par N ps2"
    unfolding orphans_ok_def
  proof (intro conjI allI impI)
    fix c p
    assume "waits_for ps2 c p"
    then have w: "waits_for ps c p" "p \<notin> insert x (set (rd_ids ds))"
      by (auto simp: waits_for_def o2 restrict_map_def split: if_splits)
    obtain pc r' where pc: "hm_get (ps_entities ps) c = Some pc" "pc_reg pc = Some r'" "reg_topic_id r' = c" "par c = p"
      by (rule orphans_okD [OF assms(1) w(1)])
    have "c \<noteq> x" using w(1) assms(2) by blast
    moreover have "c \<notin> set (rd_ids ds)"
    proof
      assume "c \<in> set (rd_ids ds)"
      then obtain d' where d': "d' \<in> set ds" "reg_topic_id (rd_reg d') = c" by auto
      then have "par c \<in> insert x (set (rd_ids ds))"
        using parents_first_known [OF ds(2), of "rd_reg d'"] regs(2) by (auto simp: list_all_iff stable_registration_def)
      then show False using w(2) pc(4) by simp
    qed
    ultimately show "\<exists>pc r. hm_get (ps_entities ps2) c = Some pc \<and> pc_reg pc = Some r \<and> reg_topic_id r = c \<and> par c = p"
      using pc ds(4) e1 by (auto simp: restrict_map_def)
  qed (use regs ds(8) in simp_all)
  with ds(1-3) regs(2) take(3) o2 below show ?thesis by blast
qed

lemma register_pending_keeps:
  "register_pending E ds acc s = Some (Inr res, s') \<Longrightarrow> st_pending s' = st_pending s"
proof (induction ds arbitrary: acc s)
  case (Cons d ds)
  then obtain a s1 where "register_and_persist_entity E (rd_reg d) s = Some (Inr a, s1)"
    "register_pending E ds (acc @ [d]) s1 = Some (Inr res, s')" by (auto split: bind_splits sum.splits)
  with Cons.IH register_and_persist_keeps(2) show ?case by metis
qed simp

lemma register_pending_ready:
  assumes "store_ready E s" "register_pending E ds acc s = Some (Inr res, s')"
    and "list_all (wf_registration \<circ> rd_reg) ds"
  shows "store_ready E s'"
  using assms
proof (induction ds arbitrary: acc s)
  case (Cons d ds)
  obtain a s1 where s1: "register_and_persist_entity E (rd_reg d) s = Some (Inr a, s1)"
    "register_pending E ds (acc @ [d]) s1 = Some (Inr res, s')"
    using Cons.prems(2) by (auto split: bind_splits sum.splits)
  obtain s0 where "register_entity (rd_reg d) s = (Inr a, s0)" using register_and_persist_Inr [OF s1(1)] by blast
  then have "registered s p" if "effective_parent (st_main s) (rd_reg d) = Some p" for p
    using that by (auto simp: register_entity_eq split: if_splits)
  then have "store_ready E s1" using register_and_persist_total [OF Cons.prems(1), of "rd_reg d"] Cons.prems(3) s1(1) by auto
  from Cons.IH [OF this s1(2)] Cons.prems(3) show ?case by simp
qed simp

lemma parents_first_closed:
  "parents_first K rs \<Longrightarrow> K \<subseteq> R \<Longrightarrow> list_all (stable_registration par N) rs
    \<Longrightarrow> (\<forall>c \<in> N. par c \<in> R \<longrightarrow> c \<in> R) \<Longrightarrow> reg_topic_id ` set rs \<subseteq> R"
proof (induction K rs rule: parents_first.induct)
  case (2 known r rs)
  then have "reg_topic_id r \<in> R" by (auto simp: stable_registration_def)
  with 2 show ?case by auto
qed simp

text \<open>A registration under a registered parent registers all the pending descendants.\<close>

lemma settled_update_known:
  assumes "settled E par N s" "stable_registration par N r" "registered s (par (reg_topic_id r))"
  shows "\<exists>ds s'. store_update E r s = Some (Inr ds, s') \<and> settled E par N s'
    \<and> registered s' (reg_topic_id r) \<and> (\<forall>x. registered s x \<longrightarrow> registered s' x)
    \<and> (\<forall>R. (\<forall>x. registered s x \<longrightarrow> x \<in> R) \<longrightarrow> (\<forall>c \<in> N. par c \<in> R \<longrightarrow> c \<in> R) \<longrightarrow> (\<forall>x. registered s' x \<longrightarrow> x \<in> R))
    \<and> (\<forall>c p. waits_for (st_pending s) c p \<longrightarrow> waits_for (st_pending s') c p \<or> registered s' c)"
proof -
  let ?x = "reg_topic_id r"
  have inv: "store_ready E s" "orphans_ok par N (st_pending s)"
    "\<forall>p. hm_get (ps_orphans (st_pending s)) p \<noteq> None \<longrightarrow> \<not> registered s p"
    using assms(1) by (simp_all add: settled_def)
  have r: "wf_registration r" "?x \<in> N" using assms(2) by (simp_all add: stable_registration_def)
  obtain a s1 where s1: "register_and_persist_entity E r s = Some (Inr a, s1)" "store_ready E s1"
    "\<forall>x. registered s1 x \<longleftrightarrow> x = ?x \<or> registered s x" "store_get s ?x = None \<longrightarrow> a \<noteq> []"
    using register_and_persist_total [OF inv(1) r(1)] register_entity_stable [OF assms(2)] assms(3) by auto
  have pend: "st_pending s1 = st_pending s" by (rule register_and_persist_keeps(2) [OF s1(1)])
  show ?thesis
  proof (cases "a = []")
    case True
    have known: "registered s ?x" using s1(4) True by (simp add: registered_get)
    then have "registered s1 = registered s" using s1(3) by (auto simp: fun_eq_iff)
    then have "settled E par N s1" using inv s1(2) pend by (simp add: settled_def)
    then show ?thesis using True s1(1,3) known pend by (auto simp: store_update_def)
  next
    case False
    have free: "\<not> waits_for (st_pending s) ?x p" for p
      using inv(3) assms(3) orphans_okD [OF inv(2), of ?x p] unfolding waits_for_def by blast
    obtain d ps1 where d: "take_cached_entity_data (env_mqtt E) r (st_pending s) = (d, ps1)" by fastforce
    obtain ds ps2 where ds: "take_cached_child_entities_data (env_mqtt E) ?x ps1 = Some (ds, ps2)" "orphans_ok par N ps2"
      "parents_first {?x} (map rd_reg ds)" "list_all (\<lambda>d. reg_parent (rd_reg d) \<noteq> None) ds"
      "list_all (stable_registration par N \<circ> rd_reg) ds"
      "hm_get (ps_orphans ps2) = hm_get (ps_orphans (st_pending s)) |` (- insert ?x (set (rd_ids ds)))"
      "\<forall>c p. waits_for (st_pending s) c p \<longrightarrow> p \<in> insert ?x (set (rd_ids ds)) \<longrightarrow> c \<in> set (rd_ids ds)"
      using take_pending_descendants [OF inv(2) free d refl] by blast
    have wf: "list_all (wf_registration \<circ> rd_reg) ds" using ds(5) by (auto simp: list_all_iff stable_registration_def)
    obtain s' where s': "register_pending E ds [d] (s1\<lparr>st_pending := ps2\<rparr>) = Some (Inr ([d] @ ds), s')"
      "\<forall>x. registered s' x \<longleftrightarrow> x \<in> set (rd_ids ds) \<or> registered s1 x"
      using register_pending_total [OF _ wf ds(4,3), of E "s1\<lparr>st_pending := ps2\<rparr>" "[d]"] s1(2,3)
      by (auto simp: store_ready_def)
    have up: "store_update E r s = Some (Inr (d # ds), s')"
      using s1(1) False d ds(1) s'(1) pend by (simp add: store_update_def)
    have pend': "st_pending s' = ps2" using register_pending_keeps [OF s'(1)] by simp
    have regs: "registered s' x \<longleftrightarrow> x \<in> insert ?x (set (rd_ids ds)) \<or> registered s x" for x
      using s'(2) s1(3) by auto
    have "store_ready E s'"
      using register_pending_ready [OF _ s'(1) wf] s1(2) by (simp add: store_ready_def)
    moreover have "\<not> registered s' p" if "hm_get (ps_orphans ps2) p \<noteq> None" for p
      using that inv(3) unfolding ds(6) regs by (auto simp: restrict_map_def split: if_splits)
    ultimately have "settled E par N s'" using ds(2) pend' by (simp add: settled_def)
    moreover have "x \<in> R" if R: "\<forall>x. registered s x \<longrightarrow> x \<in> R" "\<forall>c \<in> N. par c \<in> R \<longrightarrow> c \<in> R"
      and x: "registered s' x" for R x
    proof -
      have "?x \<in> R" using R assms(3) r(2) by blast
      moreover from this have "set (rd_ids ds) \<subseteq> R"
        using parents_first_closed [OF ds(3), of R par N] ds(5) R(2) by (simp add: list_all_iff image_comp)
      ultimately show ?thesis using x R(1) unfolding regs by blast
    qed
    moreover have "waits_for ps2 c p \<or> registered s' c" if "waits_for (st_pending s) c p" for c p
      using that ds(7) unfolding regs waits_for_def ds(6) by (auto simp: restrict_map_def)
    ultimately show ?thesis using up pend' regs by blast
  qed
qed

text \<open>The operations of a run: registrations under stable parents, and early messages.\<close>

fun stable_op :: "(entity_topic_id \<Rightarrow> entity_topic_id) \<Rightarrow> entity_topic_id set \<Rightarrow> store_op \<Rightarrow> bool" where
  "stable_op par N (Op_update r) = stable_registration par N r"
| "stable_op par N (Op_early_data m) = True"
| "stable_op par N _ = False"

definition updated_ids :: "store_op list \<Rightarrow> entity_topic_id set" where
  "updated_ids ops = {reg_topic_id r |r. Op_update r \<in> set ops}"

lemma updated_ids_simps [simp]:
  "updated_ids [] = {}"
  "updated_ids (op # ops) = (case op of Op_update r \<Rightarrow> {reg_topic_id r} | _ \<Rightarrow> {}) \<union> updated_ids ops"
  by (auto simp: updated_ids_def split: store_op.split)

lemma settled_run:
  assumes "settled E par N s" "list_all (stable_op par N) ops"
  shows "\<exists>s'. run (store_step E) s ops = Some s' \<and> settled E par N s' \<and> (\<forall>x. registered s x \<longrightarrow> registered s' x)
    \<and> (\<forall>R. (\<forall>x. registered s x \<longrightarrow> x \<in> R) \<longrightarrow> (\<forall>c \<in> N. par c \<in> R \<longrightarrow> c \<in> R) \<longrightarrow> (\<forall>x. registered s' x \<longrightarrow> x \<in> R))
    \<and> (\<forall>c p. waits_for (st_pending s) c p \<longrightarrow> waits_for (st_pending s') c p \<or> registered s' c)
    \<and> (\<forall>c \<in> updated_ids ops. waits_for (st_pending s') c (par c) \<or> registered s' c)"
  using assms
proof (induction ops arbitrary: s)
  case Nil
  then show ?case by (auto simp: updated_ids_def)
next
  case (Cons op ops)
  have "\<exists>s1. store_step E s op = Some s1 \<and> settled E par N s1 \<and> (\<forall>x. registered s x \<longrightarrow> registered s1 x)
    \<and> (\<forall>R. (\<forall>x. registered s x \<longrightarrow> x \<in> R) \<longrightarrow> (\<forall>c \<in> N. par c \<in> R \<longrightarrow> c \<in> R) \<longrightarrow> (\<forall>x. registered s1 x \<longrightarrow> x \<in> R))
    \<and> (\<forall>c p. waits_for (st_pending s) c p \<longrightarrow> waits_for (st_pending s1) c p \<or> registered s1 c)
    \<and> (\<forall>r. op = Op_update r \<longrightarrow> waits_for (st_pending s1) (reg_topic_id r) (par (reg_topic_id r)) \<or> registered s1 (reg_topic_id r))"
  proof (cases op)
    case (Op_update r)
    then have r: "stable_registration par N r" using Cons.prems(2) by simp
    show ?thesis
    proof (cases "registered s (par (reg_topic_id r))")
      case True
      from settled_update_known [OF Cons.prems(1) r True] Op_update show ?thesis by auto
    next
      case False
      from settled_update_early [OF Cons.prems(1) r False] Op_update show ?thesis by auto
    qed
  next
    case (Op_early_data m)
    have "ps_orphans (cache_early_data_message (env_mqtt E) m (st_pending s)) = ps_orphans (st_pending s)"
      by (auto simp: cache_early_data_message_def Let_def split: sum.split channel.split)
    with settled_early_data [OF Cons.prems(1), of m] Op_early_data show ?thesis
      by (simp add: waits_for_def store_cache_early_data_message_def)
  qed (use Cons.prems(2) in simp_all)
  then obtain s1 where s1: "store_step E s op = Some s1" "settled E par N s1" "\<forall>x. registered s x \<longrightarrow> registered s1 x"
    "\<forall>R. (\<forall>x. registered s x \<longrightarrow> x \<in> R) \<longrightarrow> (\<forall>c \<in> N. par c \<in> R \<longrightarrow> c \<in> R) \<longrightarrow> (\<forall>x. registered s1 x \<longrightarrow> x \<in> R)"
    "\<forall>c p. waits_for (st_pending s) c p \<longrightarrow> waits_for (st_pending s1) c p \<or> registered s1 c"
    "\<forall>r. op = Op_update r \<longrightarrow> waits_for (st_pending s1) (reg_topic_id r) (par (reg_topic_id r)) \<or> registered s1 (reg_topic_id r)"
    by (elim exE conjE) (rule that)
  have "list_all (stable_op par N) ops" using Cons.prems(2) by simp
  from Cons.IH [OF s1(2) this] obtain s' where s': "run (store_step E) s1 ops = Some s'" "settled E par N s'"
    "\<forall>x. registered s1 x \<longrightarrow> registered s' x"
    "\<forall>R. (\<forall>x. registered s1 x \<longrightarrow> x \<in> R) \<longrightarrow> (\<forall>c \<in> N. par c \<in> R \<longrightarrow> c \<in> R) \<longrightarrow> (\<forall>x. registered s' x \<longrightarrow> x \<in> R)"
    "\<forall>c p. waits_for (st_pending s1) c p \<longrightarrow> waits_for (st_pending s') c p \<or> registered s' c"
    "\<forall>c \<in> updated_ids ops. waits_for (st_pending s') c (par c) \<or> registered s' c"
    by (elim exE conjE) (rule that)
  have "run (store_step E) s (op # ops) = Some s'" using s1(1) s'(1) by simp
  moreover note s'(2)
  moreover have "\<forall>x. registered s x \<longrightarrow> registered s' x" using s1(3) s'(3) by simp
  moreover have "\<forall>x. registered s' x \<longrightarrow> x \<in> R" if "\<forall>x. registered s x \<longrightarrow> x \<in> R" "\<forall>c \<in> N. par c \<in> R \<longrightarrow> c \<in> R" for R
    by (rule s'(4) [THEN spec, THEN mp, THEN mp, OF s1(4) [THEN spec, THEN mp, THEN mp, OF that] that(2)])
  then have "\<forall>R. (\<forall>x. registered s x \<longrightarrow> x \<in> R) \<longrightarrow> (\<forall>c \<in> N. par c \<in> R \<longrightarrow> c \<in> R) \<longrightarrow> (\<forall>x. registered s' x \<longrightarrow> x \<in> R)"
    by (intro allI impI) blast
  moreover have "\<forall>c p. waits_for (st_pending s) c p \<longrightarrow> waits_for (st_pending s') c p \<or> registered s' c"
    using s1(5) s'(3,5) by metis
  moreover have "\<forall>c \<in> updated_ids (op # ops). waits_for (st_pending s') c (par c) \<or> registered s' c"
    using s1(6) s'(3,5,6) by (auto split: store_op.splits)
  ultimately show ?case by (intro exI [of _ s'] conjI)
qed

lemma started_settled:
  assumes "topic_rule (env_mqtt E)" "wf_root (root S)" "with_main_device E S main n access file [] clean = Inr s"
  shows "settled E par N s"
proof -
  have restore: "st_schema (restore_message E m s0) = st_schema s0 \<and> st_log (restore_message E m s0) = st_log s0
      \<and> st_pending (restore_message E m s0) = st_pending s0" for m s0
    using register_entity_keeps(1,3,4) [OF prod.collapse [symmetric], of _ s0]
      register_twin_data_keeps [OF prod.collapse [symmetric], of _ s0]
    by (simp add: restore_message_def split: sum.split channel.split option.split)
  have "st_schema (fold (restore_message E) ms s0) = st_schema s0 \<and> st_log (fold (restore_message E) ms s0) = st_log s0
      \<and> st_pending (fold (restore_message E) ms s0) = st_pending s0" for ms s0
    by (induction ms arbitrary: s0) (simp_all add: restore)
  then have load: "st_schema (load_from_message_log E f s0) = st_schema s0 \<and> st_log (load_from_message_log E f s0) = st_log s0
      \<and> st_pending (load_from_message_log E f s0) = st_pending s0" for f s0
    by (simp add: load_from_message_log_def load_loop_fold)
  show ?thesis
    using assms load
    by (auto simp: settled_def store_ready_def orphans_ok_def waits_for_def pending_regs_def with_main_device_def
        initial_store_def pending_new_def log_writer_new_def log_writer_new_truncated_def Let_def
        split: if_splits log_access.splits)
qed

text \<open>
  C3. Registrations may arrive in any order.  A store is started, on whatever log, and receives registrations, each with an
  explicit parent and each entity always with the same one, mixed with early data messages.  If the appends to the log succeed, no update
  panics, and the entities that are registered at the end are exactly those that descend, through the registrations that
  were received, from an entity registered at the start: each registration that came before the one of its
  parent, at any depth, has been applied when the missing one arrived, and the order does not matter.
\<close>

theorem orphans_registered_with_parent:
  assumes "topic_rule (env_mqtt E)" "wf_root (root S)" "with_main_device E S main n access file [] clean = Inr s0"
    and "list_all (stable_op par (updated_ids ops)) ops"
  shows "\<exists>s. run (store_step E) s0 ops = Some s
    \<and> (\<forall>x. registered s x \<longleftrightarrow> (\<exists>a. registered s0 a \<and> (a, x) \<in> {(par c, c) |c. c \<in> updated_ids ops}\<^sup>*))"
proof -
  let ?N = "updated_ids ops" and ?below = "{(par c, c) |c. c \<in> updated_ids ops}"
  obtain s where s: "run (store_step E) s0 ops = Some s" "settled E par ?N s" "\<forall>x. registered s0 x \<longrightarrow> registered s x"
    "\<forall>R. (\<forall>x. registered s0 x \<longrightarrow> x \<in> R) \<longrightarrow> (\<forall>c \<in> ?N. par c \<in> R \<longrightarrow> c \<in> R) \<longrightarrow> (\<forall>x. registered s x \<longrightarrow> x \<in> R)"
    "\<forall>c \<in> ?N. waits_for (st_pending s) c (par c) \<or> registered s c"
    using settled_run [OF started_settled [OF assms(1-3)] assms(4)] by (elim exE conjE) (rule that)
  let ?R = "{x. \<exists>a. registered s0 a \<and> (a, x) \<in> ?below\<^sup>*}"
  have "\<forall>c \<in> ?N. par c \<in> ?R \<longrightarrow> c \<in> ?R" by (blast intro: rtrancl_into_rtrancl)
  from s(4) [THEN spec, THEN mp, THEN mp, OF _ this] have "x \<in> ?R" if "registered s x" for x using that by blast
  moreover have "registered s x" if "(a, x) \<in> ?below\<^sup>*" "registered s0 a" for a x
    using that
  proof (induction rule: rtrancl_induct)
    case base
    with s(3) show ?case by blast
  next
    case (step p c)
    then have "\<not> waits_for (st_pending s) c p" using s(2) by (auto simp: settled_def waits_for_def)
    with s(5) step.hyps(2) show ?case by blast
  qed
  ultimately show ?thesis using s(1) by blast
qed

definition example_par :: "entity_topic_id \<Rightarrow> entity_topic_id" where
  "example_par x = (if x = ''device/c//'' then ''device/b//'' else if x = ''device/b//'' then ''device/a//''
     else ''device/main//'')"

definition example_any_order :: "store_op list" where
  "example_any_order = [Op_update (example_child ''c'' ''b''), Op_update (example_child ''b'' ''a''),
     Op_update (example_child ''a'' ''main'')]"

theorem orphans_registered_with_parent_witness:
  "\<exists>s. run (store_step example_env) example_store example_any_order = Some s \<and> registered s ''device/c//''"
proof -
  have ids: "updated_ids example_any_order = {''device/a//'', ''device/b//'', ''device/c//''}"
    by (auto simp: example_any_order_def example_child_def with_parent_def registration_new_custom_def)
  have "list_all (stable_op example_par (updated_ids example_any_order)) example_any_order"
    unfolding ids
    by (simp add: example_any_order_def stable_registration_def wf_registration_def example_child_def with_parent_def
        registration_new_custom_def wf_entity_id_def reserved_free_def example_par_def)
  from orphans_registered_with_parent [OF _ _ example_store_started this]
  obtain s where s: "run (store_step example_env) example_store example_any_order = Some s"
    "\<forall>x. registered s x \<longleftrightarrow> (\<exists>a. registered example_store a
       \<and> (a, x) \<in> {(example_par c, c) |c. c \<in> updated_ids example_any_order}\<^sup>*)"
    by (auto simp: schema_new_def with_root_def wf_root_def)
  let ?below = "{(example_par c, c) |c. c \<in> updated_ids example_any_order}"
  have step: "(''device/main//'', ''device/a//'') \<in> ?below" "(''device/a//'', ''device/b//'') \<in> ?below"
    "(''device/b//'', ''device/c//'') \<in> ?below" unfolding ids by (auto simp: example_par_def)
  have "(''device/main//'', ''device/c//'') \<in> ?below\<^sup>*"
    by (rule rtrancl_into_rtrancl [OF rtrancl_into_rtrancl [OF r_into_rtrancl [OF step(1)] step(2)] step(3)])
  moreover have "registered example_store ''device/main//''" by code_simp
  ultimately show ?thesis using s by blast
qed

text \<open>
  The condition on the parents is needed: an orphan that is registered again under another parent stays in
  the list of the first one, whose registration then fails, after its pending children have been taken.
\<close>

lemma moved_orphan_fails:
  "map_option (\<lambda>s. map_option fst (store_update example_env (example_child ''a'' ''main'') s))
     (run (store_step example_env) example_store
       [Op_update (example_child ''b'' ''a''), Op_update (example_child ''b'' ''x'')])
   = Some (Some (Inl (NoParent ''device/x//'')))"
  by code_simp

end
