(* ===== verification/Command_State.thy ===== *)
theory Command_State
  imports Entity
begin

text \<open>
  The state of a command (\<^verbatim>\<open>tedge_api/src/workflow/state.rs\<close>), the substitution of values of that state
  into templates (\<^verbatim>\<open>substitution.rs\<close>) and into scripts (\<^verbatim>\<open>script.rs\<close>).  The text of a JSON value is a
  parameter; so is the tokenisation of command lines (\<^verbatim>\<open>shell_words\<close>).
\<close>

type_synonym operation_name = string
type_synonym command_id = string

record command_state =
  cs_topic :: topic
  cs_status :: string
  cs_payload :: json
  cs_invoking :: "string option"

record command_metadata =
  cm_operation :: operation_name
  cm_payload :: json

record state_update =
  su_status :: string
  su_reason :: "string option"

datatype workflow_execution_error =
    InvalidCmdTopic string
  | InvalidPayload
  | MissingStatus
  | MissingVersion
  | UnknownOperation string
  | UnknownVersion string string
  | DeprecatedOperation string
  | UnknownRequest string
  | DuplicatedRequest string
  | UnknownStep string string

datatype command_status =
    Init | Scheduled | Executing | Successful | Failed string | Unknown

section \<open>Text properties of the payload\<close>

definition extract_text_property :: "json \<Rightarrow> string \<Rightarrow> string option" where
  "extract_text_property v property =
     as_object v \<bind> (\<lambda>o1. bt_get o1 property) \<bind> as_str"

fun inject_text_property :: "string \<Rightarrow> string \<Rightarrow> json \<Rightarrow> json" where
  "inject_text_property property val (JObject m) = JObject (bt_insert property (JString val) m)"
| "inject_text_property property val v = v"

section \<open>Identifiers of sub-commands\<close>

definition sub_command_id :: "string \<Rightarrow> string \<Rightarrow> string" where
  "sub_command_id operation cmd_id = ''sub:'' @ operation @ '':'' @ cmd_id"

definition extract_invoking_command_id :: "string \<Rightarrow> (string \<times> string) option" where
  "extract_invoking_command_id cid = strip_prefix ''sub:'' cid \<bind> split_once CHR '':''"

lemma extract_invoking_command_id_Some:
  "extract_invoking_command_id cid = Some (op, cid') \<longleftrightarrow>
     cid = sub_command_id op cid' \<and> CHR '':'' \<notin> set op"
  by (auto simp: extract_invoking_command_id_def sub_command_id_def strip_prefix_Some_iff
      dest!: split_once_Some split: bind_splits)

text \<open>The loop of \<^verbatim>\<open>extract_invoking_operation_names\<close>; the operations are pushed, then reversed.\<close>

function invoking_names_loop :: "string \<Rightarrow> string list" where
  "invoking_names_loop cid =
     (case extract_invoking_command_id cid of
        None \<Rightarrow> []
      | Some (op, cid') \<Rightarrow> op # invoking_names_loop cid')"
  by pat_completeness auto
termination
  by (relation "measure length") (auto simp: extract_invoking_command_id_Some sub_command_id_def
      dest!: sym [of _ "extract_invoking_command_id _"])

declare invoking_names_loop.simps [simp del]

definition extract_invoking_operation_names :: "string \<Rightarrow> string list" where
  "extract_invoking_operation_names cid = rev (invoking_names_loop cid)"

definition infer_invoking_command_topic :: "rumqttc \<Rightarrow> string \<Rightarrow> string option panics" where
  "infer_invoking_command_topic L sub_command_topic =
     (let S = schema_from_topic sub_command_topic in
      case entity_channel_of L S sub_command_topic of
        Inr (entity, Command _ cid) \<Rightarrow>
          (case extract_invoking_command_id cid of
             None \<Rightarrow> Some None
           | Some (op, i) \<Rightarrow> do {
               t \<leftarrow> topic_for L S entity (Command (operation_of_str op) i);
               Some (Some (topic_name t)) })
      | _ \<Rightarrow> Some None)"

section \<open>Construction and messages\<close>

definition command_state_new :: "rumqttc \<Rightarrow> topic \<Rightarrow> string \<Rightarrow> json \<Rightarrow> command_state panics" where
  "command_state_new L t status payload = do {
     invoking \<leftarrow> infer_invoking_command_topic L (topic_name t);
     Some \<lparr>cs_topic = t, cs_status = status,
           cs_payload = inject_text_property ''status'' status payload, cs_invoking = invoking\<rparr> }"

definition sub_command_init_state ::
  "rumqttc \<Rightarrow> mqtt_schema \<Rightarrow> entity_topic_id \<Rightarrow> operation_type \<Rightarrow> command_id \<Rightarrow> operation_name
     \<Rightarrow> command_state panics" where
  "sub_command_init_state L S entity operation cmd_id sub_operation = do {
     t \<leftarrow> topic_for L S entity
            (Command (Custom sub_operation) (sub_command_id (operation_to_str operation) cmd_id));
     invoking \<leftarrow> topic_for L S entity (Command operation cmd_id);
     Some \<lparr>cs_topic = t, cs_status = ''init'', cs_payload = JObject [(''status'', JString ''init'')],
           cs_invoking = Some (topic_name invoking)\<rparr> }"

definition from_command_message ::
  "rumqttc \<Rightarrow> serde \<Rightarrow> mqtt_message \<Rightarrow> (workflow_execution_error + command_state) panics" where
  "from_command_message L J m = do {
     invoking \<leftarrow> infer_invoking_command_topic L (topic_name (mm_topic m));
     Some (case (if payload_bytes m = [] then Inr ([], JNull)
                 else case json_of_text J (payload_bytes m) of
                   None \<Rightarrow> Inl InvalidPayload
                 | Some v \<Rightarrow> (case extract_text_property v ''status'' of
                     None \<Rightarrow> Inl MissingStatus
                   | Some status \<Rightarrow> Inr (status, v))) of
             Inl e \<Rightarrow> Inl e
           | Inr (status, payload) \<Rightarrow>
               Inr \<lparr>cs_topic = mm_topic m, cs_status = status, cs_payload = payload,
                    cs_invoking = invoking\<rparr>) }"

definition is_cleared :: "command_state \<Rightarrow> bool" where
  "is_cleared s = is_null (cs_payload s)"

definition clear_message :: "command_state \<Rightarrow> mqtt_message" where
  "clear_message s = with_qos AtLeastOnce (with_retain (message_new (cs_topic s) []))"

definition into_message :: "serde \<Rightarrow> command_state \<Rightarrow> mqtt_message" where
  "into_message J s =
     (if is_cleared s then clear_message s
      else with_qos AtLeastOnce (with_retain (message_new (cs_topic s)
             (json_to_text J (inject_text_property ''status'' (cs_status s) (cs_payload s))))))"

section \<open>Updates\<close>

definition inject_reason :: "string option \<Rightarrow> json \<Rightarrow> json" where
  "inject_reason reason v =
     (case reason of None \<Rightarrow> v | Some r \<Rightarrow> inject_text_property ''reason'' r v)"

definition cs_update :: "state_update \<Rightarrow> command_state \<Rightarrow> command_state" where
  "cs_update u s =
     s\<lparr>cs_payload := inject_reason (su_reason u)
          (inject_text_property ''status'' (su_status u) (cs_payload s)),
       cs_status := su_status u\<rparr>"

definition move_to :: "state_update \<Rightarrow> command_state \<Rightarrow> command_state" where
  "move_to u s =
     s\<lparr>cs_payload := inject_reason (su_reason u)
          (inject_text_property ''status'' (su_status u) (cs_payload s)),
       cs_status := su_status u\<rparr>"

definition fail_with :: "string \<Rightarrow> command_state \<Rightarrow> command_state" where
  "fail_with reason s =
     s\<lparr>cs_payload := inject_text_property ''reason'' reason
          (inject_text_property ''status'' ''failed'' (cs_payload s)),
       cs_status := ''failed''\<rparr>"

definition merge_json :: "json \<Rightarrow> json \<Rightarrow> json" where
  "merge_json v new =
     (case (v, new) of
        (JObject m, JObject m') \<Rightarrow> JObject (bt_extend m m')
      | _ \<Rightarrow> v)"

definition update_with_json :: "json \<Rightarrow> command_state \<Rightarrow> command_state" where
  "update_with_json v s =
     (let s' = s\<lparr>cs_payload := merge_json (cs_payload s) v\<rparr> in
      case extract_text_property (cs_payload s') ''status'' of
        None \<Rightarrow> fail_with ''Unknown status'' s'
      | Some status \<Rightarrow> s'\<lparr>cs_status := status\<rparr>)"

definition with_key_value :: "string \<Rightarrow> string \<Rightarrow> command_state \<Rightarrow> command_state" where
  "with_key_value key val s =
     s\<lparr>cs_payload := inject_text_property key val (cs_payload s),
       cs_status := (if key = ''status'' then val else cs_status s)\<rparr>"

definition get_log_path :: "command_state \<Rightarrow> string option" where
  "get_log_path s = json_get (cs_payload s) ''logPath'' \<bind> as_str"

definition with_log_path :: "string \<Rightarrow> command_state \<Rightarrow> command_state" where
  "with_log_path p s = with_key_value ''logPath'' p s"

definition workflow_version :: "command_state \<Rightarrow> string option" where
  "workflow_version s = json_get (cs_payload s) ''@version'' \<bind> as_str"

definition with_workflow_version :: "string \<Rightarrow> command_state \<Rightarrow> command_state" where
  "with_workflow_version v s = with_key_value ''@version'' v s"

definition merge_into :: "command_state \<Rightarrow> command_state \<Rightarrow> command_state" where
  "merge_into s target =
     target\<lparr>cs_status := cs_status s, cs_payload := merge_json (cs_payload target) (cs_payload s)\<rparr>"

definition cs_clear :: "command_state \<Rightarrow> command_state" where
  "cs_clear s = s\<lparr>cs_status := [], cs_payload := JNull\<rparr>"

section \<open>Queries\<close>

definition failure_reason :: "command_state \<Rightarrow> string option" where
  "failure_reason s = extract_text_property (cs_payload s) ''reason''"

definition cs_root_prefix :: "command_state \<Rightarrow> string option" where
  "cs_root_prefix s = get_root_prefix (topic_name (cs_topic s))"

definition cs_target :: "command_state \<Rightarrow> string option" where
  "cs_target s = get_entity_id (topic_name (cs_topic s))"

definition cs_operation :: "command_state \<Rightarrow> string option" where
  "cs_operation s = get_operation_name (topic_name (cs_topic s))"

definition cs_cmd_id :: "command_state \<Rightarrow> string option" where
  "cs_cmd_id s = get_command_id (topic_name (cs_topic s))"

definition invoking_operation_names :: "command_state \<Rightarrow> string list" where
  "invoking_operation_names s =
     (case cs_cmd_id s of None \<Rightarrow> [] | Some i \<Rightarrow> extract_invoking_operation_names i)"

definition is_init :: "command_state \<Rightarrow> bool" where
  "is_init s \<longleftrightarrow> cs_status s = ''init''"

definition is_executing :: "command_state \<Rightarrow> bool" where
  "is_executing s \<longleftrightarrow> cs_status s = ''executing''"

definition is_successful :: "command_state \<Rightarrow> bool" where
  "is_successful s \<longleftrightarrow> cs_status s = ''successful''"

definition is_failed :: "command_state \<Rightarrow> bool" where
  "is_failed s \<longleftrightarrow> cs_status s = ''failed''"

definition is_finished :: "command_state \<Rightarrow> bool" where
  "is_finished s \<longleftrightarrow> is_successful s \<or> is_failed s"

definition get_command_status :: "command_state \<Rightarrow> command_status" where
  "get_command_status s =
     (if cs_status s = ''init'' then Init
      else if cs_status s = ''scheduled'' then Scheduled
      else if cs_status s = ''executing'' then Executing
      else if cs_status s = ''successful'' then Successful
      else if cs_status s = ''failed'' then
        Failed (case failure_reason s of Some r \<Rightarrow> r | None \<Rightarrow> ''unknown reason'')
      else Unknown)"

section \<open>State updates\<close>

definition update_to :: "string \<Rightarrow> state_update" where
  "update_to status = \<lparr>su_status = status, su_reason = None\<rparr>"

definition update_scheduled :: state_update where "update_scheduled = update_to ''scheduled''"
definition update_executing :: state_update where "update_executing = update_to ''executing''"
definition update_successful :: state_update where "update_successful = update_to ''successful''"
definition update_unknown_error :: state_update where "update_unknown_error = update_to ''failed''"

definition update_failed :: "string \<Rightarrow> state_update" where
  "update_failed reason = \<lparr>su_status = ''failed'', su_reason = Some reason\<rparr>"

definition update_timeout :: state_update where
  "update_timeout = update_failed ''timeout''"

definition update_into_json :: "state_update \<Rightarrow> json" where
  "update_into_json u =
     (case su_reason u of
        None \<Rightarrow> JObject [(''status'', JString (su_status u))]
      | Some reason \<Rightarrow> JObject [(''reason'', JString reason), (''status'', JString (su_status u))])"

fun inject_into_json :: "state_update \<Rightarrow> json \<Rightarrow> json" where
  "inject_into_json u (JObject m) =
     (let m = bt_insert ''status'' (JString (su_status u)) m in
      JObject (case (bt_get m ''reason'', su_reason u) of
                 (None, Some reason) \<Rightarrow> bt_insert ''reason'' (JString reason) m
               | _ \<Rightarrow> m))"
| "inject_into_json u v = update_into_json u"

section \<open>Substitution\<close>

definition extract_path :: "string \<Rightarrow> string option" where
  "extract_path s = strip_prefix ''${'' s \<bind> strip_suffix ''}''"

function json_excerpt :: "json \<Rightarrow> string \<Rightarrow> json option" where
  "json_excerpt v path =
     (case split_once CHR ''.'' path of
        None \<Rightarrow> if path = [] then Some v else json_get v path
      | Some (key, path') \<Rightarrow>
          (case json_get v key of None \<Rightarrow> None | Some w \<Rightarrow> json_excerpt w path'))"
  by pat_completeness auto
termination
  by (relation "measure (\<lambda>(v, path). length path)") (auto dest!: split_once_Some sym [of _ "split_once _ _"])

declare json_excerpt.simps [simp del]

definition extract_value :: "command_state \<Rightarrow> string \<Rightarrow> json option" where
  "extract_value s path =
     (if path = ''.'' then
        Some (JObject [(''payload'', cs_payload s), (''topic'', JString (topic_name (cs_topic s)))])
      else if path = ''.topic'' then Some (JString (topic_name (cs_topic s)))
      else if path = ''.topic.root_prefix'' then map_option JString (cs_root_prefix s)
      else if path = ''.topic.target'' then map_option JString (cs_target s)
      else if path = ''.topic.operation'' then map_option JString (cs_operation s)
      else if path = ''.topic.cmd_id'' then map_option JString (cs_cmd_id s)
      else if path = ''.payload'' then Some (cs_payload s)
      else if CHR ''['' \<in> set path \<or> CHR '']'' \<in> set path then None
      else do {
        value_path \<leftarrow> strip_prefix ''.payload.'' path;
        Some (case json_excerpt (cs_payload s) value_path of
                Some v \<Rightarrow> v | None \<Rightarrow> JString []) })"

fun json_as_string :: "serde \<Rightarrow> json \<Rightarrow> string" where
  "json_as_string J JNull = ''null''"
| "json_as_string J (JBool b) = (if b then ''true'' else ''false'')"
| "json_as_string J (JString s) = s"
| "json_as_string J v = json_to_text J v"

definition replace_path_with_value :: "serde \<Rightarrow> command_state \<Rightarrow> string \<Rightarrow> string" where
  "replace_path_with_value J s template =
     (case extract_path template \<bind> extract_value s of
        None \<Rightarrow> template
      | Some v \<Rightarrow> json_as_string J v)"

text \<open>\<^verbatim>\<open>str::split_inclusive\<close>: the separator ends each piece.\<close>

fun split_inclusive :: "char \<Rightarrow> string \<Rightarrow> string list" where
  "split_inclusive c [] = []"
| "split_inclusive c (x # xs) =
     (if x = c then [x] # split_inclusive c xs
      else case split_inclusive c xs of [] \<Rightarrow> [[x]] | p # ps \<Rightarrow> (x # p) # ps)"

definition template_pieces :: "string \<Rightarrow> string list" where
  "template_pieces s =
     (case split_once_str ''${'' s of None \<Rightarrow> [s] | Some (a, b) \<Rightarrow> [a, ''${'' @ b])"

definition inject_values_into_template :: "serde \<Rightarrow> command_state \<Rightarrow> string \<Rightarrow> string" where
  "inject_values_into_template J s target =
     concat (map (replace_path_with_value J s)
       (concat (map template_pieces (split_inclusive CHR ''}'' target))))"

definition inject_values_into_templates :: "serde \<Rightarrow> command_state \<Rightarrow> string list \<Rightarrow> string list" where
  "inject_values_into_templates J s targets = map (inject_values_into_template J s) targets"

section \<open>Excerpts\<close>

datatype state_excerpt =
    Literal json
  | PathExpr string
  | ExcerptMap "(string \<times> state_excerpt) list"
  | ExcerptArray "state_excerpt list"

datatype state_excerpt_error = NotAnObject string json

definition whole_payload :: state_excerpt where
  "whole_payload = PathExpr ''${.}''"

fun extract_value_from :: "command_state \<Rightarrow> state_excerpt \<Rightarrow> json" where
  "extract_value_from s (Literal v) = v"
| "extract_value_from s (PathExpr path) =
     (case extract_value s path of Some v \<Rightarrow> v | None \<Rightarrow> JNull)"
| "extract_value_from s (ExcerptMap es) =
     JObject (bt_extend [] (map (\<lambda>(k, e). (k, extract_value_from s e)) es))"
| "extract_value_from s (ExcerptArray es) = JArray (map (extract_value_from s) es)"

fun excerpt_of_json :: "json \<Rightarrow> state_excerpt" where
  "excerpt_of_json (JString s) =
     (case extract_path s of None \<Rightarrow> Literal (JString s) | Some p \<Rightarrow> PathExpr p)"
| "excerpt_of_json (JArray vs) = ExcerptArray (map excerpt_of_json vs)"
| "excerpt_of_json (JObject m) = ExcerptMap (map (\<lambda>(k, v). (k, excerpt_of_json v)) m)"
| "excerpt_of_json v = Literal v"

definition excerpt_try_from :: "json option \<Rightarrow> state_excerpt_error + state_excerpt" where
  "excerpt_try_from v =
     (case v of
        None \<Rightarrow> Inr (ExcerptMap [])
      | Some JNull \<Rightarrow> Inr (ExcerptMap [])
      | Some (JObject m) \<Rightarrow> Inr (excerpt_of_json (JObject m))
      | Some (JString s) \<Rightarrow> Inr (excerpt_of_json (JString s))
      | Some (JBool b) \<Rightarrow> Inl (NotAnObject ''bool'' (JBool b))
      | Some (JNumber n) \<Rightarrow> Inl (NotAnObject ''number'' (JNumber n))
      | Some (JArray vs) \<Rightarrow> Inl (NotAnObject ''array'' (JArray vs)))"

section \<open>Scripts\<close>

record shell_words =
  sw_split :: "string \<Rightarrow> string + string list"
  sw_join :: "string list \<Rightarrow> string"

record shell_script =
  sh_command :: string
  sh_args :: "string list"

definition script_of_str :: "shell_words \<Rightarrow> string \<Rightarrow> string + shell_script" where
  "script_of_str W line =
     (case sw_split W line of
        Inl err \<Rightarrow> Inl (''invalid script: '' @ line @ '': '' @ err)
      | Inr [] \<Rightarrow> Inl ''invalid script: empty''
      | Inr (cmd # args) \<Rightarrow> Inr \<lparr>sh_command = cmd, sh_args = args\<rparr>)"

definition script_to_str :: "shell_words \<Rightarrow> shell_script \<Rightarrow> string" where
  "script_to_str W s = sw_join W (sh_command s # sh_args s)"

definition script_inject_values :: "serde \<Rightarrow> command_state \<Rightarrow> shell_script \<Rightarrow> shell_script" where
  "script_inject_values J s script =
     \<lparr>sh_command = inject_values_into_template J s (sh_command script),
      sh_args = inject_values_into_templates J s (sh_args script)\<rparr>"

section \<open>The status of the state is the status of the payload\<close>

definition cs_wf :: "rumqttc \<Rightarrow> command_state \<Rightarrow> bool" where
  "cs_wf L s \<longleftrightarrow> infer_invoking_command_topic L (topic_name (cs_topic s)) = Some (cs_invoking s)
     \<and> (\<exists>m. cs_payload s = JObject m \<and> jmap_wf m \<and> bt_get m ''status'' = Some (JString (cs_status s)))"

lemma jmap_wf_text [simp]: "jmap_wf m \<Longrightarrow> jmap_wf (bt_insert k (JString v) m)"
  by (rule jmap_wf_insert) simp_all

lemma inject_reason_object:
  "\<exists>m'. inject_reason r (JObject m) = JObject m' \<and> (jmap_wf m \<longrightarrow> jmap_wf m')
    \<and> bt_get m' ''status'' = bt_get m ''status''"
  by (cases r) (auto simp: inject_reason_def)

lemma cs_wf_update [inv_intros]: "cs_wf L s \<Longrightarrow> cs_wf L (cs_update u s)"
proof -
  assume s: "cs_wf L s"
  then obtain m where m: "cs_payload s = JObject m" "jmap_wf m" by (auto simp: cs_wf_def)
  obtain m' where "inject_reason (su_reason u) (JObject (bt_insert ''status'' (JString (su_status u)) m)) = JObject m'"
    "jmap_wf m'" "bt_get m' ''status'' = Some (JString (su_status u))"
    using inject_reason_object [of "su_reason u" "bt_insert ''status'' (JString (su_status u)) m"] m(2) by auto
  then show ?thesis using s m(1) by (simp add: cs_wf_def cs_update_def)
qed

lemma cs_wf_fail_with [inv_intros]: "cs_wf L s \<Longrightarrow> cs_wf L (fail_with r s)"
  unfolding cs_wf_def fail_with_def by auto

lemma extract_text_property_Some:
  "extract_text_property v k = Some t \<longleftrightarrow> (\<exists>m. v = JObject m \<and> bt_get m k = Some (JString t))"
  by (cases v) (auto simp: extract_text_property_def elim: as_str.elims split: bind_splits)

lemma cs_wf_update_with_json [inv_intros]:
  assumes "cs_wf L s" "json_wf v"
  shows "cs_wf L (update_with_json v s)"
proof -
  let ?s = "s\<lparr>cs_payload := merge_json (cs_payload s) v\<rparr>"
  obtain m where m: "cs_payload s = JObject m" "jmap_wf m" using assms(1) by (auto simp: cs_wf_def)
  obtain m' where m': "cs_payload ?s = JObject m'" "jmap_wf m'"
    using m assms(2) jmap_wf_extend [of m] by (cases v) (auto simp: merge_json_def jmap_wf_def)
  show ?thesis
  proof (cases "extract_text_property (cs_payload ?s) ''status''")
    case None
    then have "update_with_json v s = fail_with ''Unknown status'' ?s" by (simp add: update_with_json_def)
    then show ?thesis using m' assms(1) by (auto simp: cs_wf_def fail_with_def)
  next
    case (Some t)
    then have "update_with_json v s = ?s\<lparr>cs_status := t\<rparr>" by (simp add: update_with_json_def)
    then show ?thesis
      using m' assms(1) Some by (auto simp: cs_wf_def extract_text_property_Some)
  qed
qed

lemma cs_wf_with_key_value [inv_intros]: "cs_wf L s \<Longrightarrow> cs_wf L (with_key_value k v s)"
proof -
  assume s: "cs_wf L s"
  then obtain m where m: "cs_payload s = JObject m" "jmap_wf m"
    "bt_get m ''status'' = Some (JString (cs_status s))" by (auto simp: cs_wf_def)
  then have "bt_get (bt_insert k (JString v) m) ''status''
      = Some (JString (cs_status (with_key_value k v s)))"
    by (cases "k = ''status''") (simp_all add: with_key_value_def)
  then show ?thesis using s m(1,2) by (simp add: cs_wf_def with_key_value_def)
qed

lemma cs_wf_merge_into [inv_intros]: "cs_wf L s \<Longrightarrow> cs_wf L t \<Longrightarrow> cs_wf L (merge_into s t)"
proof -
  assume "cs_wf L s" "cs_wf L t"
  then obtain m n where m: "cs_payload s = JObject m" "jmap_wf m" "bt_get m ''status'' = Some (JString (cs_status s))"
    and n: "cs_payload t = JObject n" "jmap_wf n" by (auto simp: cs_wf_def)
  have "cs_payload (merge_into s t) = JObject (bt_extend n m)"
    by (simp add: merge_into_def merge_json_def m(1) n(1))
  moreover have "bt_get (bt_extend n m) ''status'' = Some (JString (cs_status (merge_into s t)))"
    using m(3) bt_wf_map_of_rev [OF jmap_wf_bt [OF m(2)]] by (simp add: merge_into_def)
  ultimately show ?thesis
    using \<open>cs_wf L t\<close> jmap_wf_extend [OF n(2) m(2)] by (simp add: cs_wf_def merge_into_def)
qed

datatype cs_op =
    Cs_update state_update | Cs_move_to state_update | Cs_json json | Cs_key_value string string
  | Cs_fail string | Cs_merge command_state

fun cs_step :: "command_state \<Rightarrow> cs_op \<Rightarrow> command_state panics" where
  "cs_step s (Cs_update u) = Some (cs_update u s)"
| "cs_step s (Cs_move_to u) = Some (move_to u s)"
| "cs_step s (Cs_json v) = Some (update_with_json v s)"
| "cs_step s (Cs_key_value k v) = Some (with_key_value k v s)"
| "cs_step s (Cs_fail r) = Some (fail_with r s)"
| "cs_step s (Cs_merge t) = Some (merge_into t s)"

fun cs_op_wf :: "rumqttc \<Rightarrow> cs_op \<Rightarrow> bool" where
  "cs_op_wf L (Cs_json v) = json_wf v"
| "cs_op_wf L (Cs_merge t) = cs_wf L t"
| "cs_op_wf L _ = True"

interpretation cs_run: total_step cs_step "cs_op_wf L" "cs_wf L" for L
proof
  show "cs_wf L s \<Longrightarrow> cs_op_wf L op \<Longrightarrow> cs_step s op = Some s' \<Longrightarrow> cs_wf L s'" for s op s'
    by (cases op) (auto intro: inv_intros simp: move_to_def cs_update_def [symmetric])
  show "cs_wf L s \<Longrightarrow> cs_op_wf L op \<Longrightarrow> cs_step s op \<noteq> None" for s op by (cases op) auto
qed

lemma inject_same:
  "bt_wf m \<Longrightarrow> bt_get m k = Some (JString v) \<Longrightarrow> bt_insert k (JString v) m = m"
  by (rule bt_eqI) (auto simp: fun_eq_iff)

lemma into_message_roundtrip:
  assumes "serde_rule J" "cs_wf L s"
  shows "from_command_message L J (into_message J s) = Some (Inr s)"
proof -
  obtain m where m: "cs_payload s = JObject m" "jmap_wf m" "bt_get m ''status'' = Some (JString (cs_status s))"
    and inv: "infer_invoking_command_topic L (topic_name (cs_topic s)) = Some (cs_invoking s)"
    using assms(2) by (auto simp: cs_wf_def)
  have msg: "into_message J s
      = with_qos AtLeastOnce (with_retain (message_new (cs_topic s) (json_to_text J (JObject m))))"
    using m inject_same [OF jmap_wf_bt [OF m(2)] m(3)]
    by (simp add: into_message_def is_cleared_def is_null_def)
  have bytes: "payload_bytes (into_message J s) = json_to_text J (JObject m)"
    using serde_text [OF assms(1)]
    by (intro payload_bytes_text) (auto simp: msg with_qos_def with_retain_def message_new_def)
  have "mm_topic (into_message J s) = cs_topic s"
    by (simp add: msg with_qos_def with_retain_def message_new_def)
  moreover have "extract_text_property (JObject m) ''status'' = Some (cs_status s)"
    using m(3) by (simp add: extract_text_property_Some)
  ultimately show ?thesis
    using serde_roundtrip [OF assms(1), of "JObject m"] serde_text(1) [OF assms(1)] m inv
    by (simp add: from_command_message_def bytes jmap_wf_def)
qed

text \<open>
  C9. The status of a command and the status in its payload never drift apart: after any sequence of
  updates, merges and failures of a command created with an object payload, the message published for
  the command is read back as exactly that command.
\<close>

theorem command_state_message_roundtrip:
  assumes "serde_rule J" "jmap_wf m" "command_state_new L t status (JObject m) = Some s0"
    and "list_all (cs_op_wf L) ops"
  shows "\<exists>s. run cs_step s0 ops = Some s \<and> from_command_message L J (into_message J s) = Some (Inr s)"
proof -
  have "cs_wf L s0"
    using assms(2,3) by (auto simp: command_state_new_def cs_wf_def split: bind_splits)
  with cs_run.run_total [OF _ assms(4)] into_message_roundtrip [OF assms(1)] show ?thesis by blast
qed

theorem command_state_message_roundtrip_witness:
  "\<exists>s0 s. command_state_new wildcard_free_mqtt (topic_new_unchecked ''te/device/main///cmd/restart/1'') ''init'' (JObject [])
      = Some s0
    \<and> run cs_step s0 [Cs_update update_executing, Cs_fail ''no power''] = Some s
    \<and> from_command_message wildcard_free_mqtt code_serde (into_message code_serde s) = Some (Inr s)"
proof -
  let ?t = "topic_new_unchecked ''te/device/main///cmd/restart/1''"
  have "command_state_new wildcard_free_mqtt ?t ''init'' (JObject []) \<noteq> None" by code_simp
  then obtain s0 where s0: "command_state_new wildcard_free_mqtt ?t ''init'' (JObject []) = Some s0" by blast
  have "list_all (cs_op_wf wildcard_free_mqtt) [Cs_update update_executing, Cs_fail ''no power'']" by simp
  from command_state_message_roundtrip [OF code_serde_rule jmap_wf_Nil s0 this] s0 show ?thesis by blast
qed

section \<open>Sub-commands\<close>

lemma infer_invoking_sub:
  assumes "topic_rule L" "wf_root (root S)" "wf_entity_id e"
    and "slash \<notin> set sub" "slash \<notin> set (operation_to_str op)" "slash \<notin> set cid"
    and "CHR '':'' \<notin> set (operation_to_str op)" "canonical_op op"
    and "topic_for L S e (Command (Custom sub) (sub_command_id (operation_to_str op) cid)) = Some t"
    and "topic_for L S e (Command op cid) = Some invoking"
  shows "infer_invoking_command_topic L (topic_name t) = Some (Some (topic_name invoking))"
proof -
  let ?cid = "sub_command_id (operation_to_str op) cid"
  have ns: "slash \<notin> set ?cid" using assms(5,6) by (simp add: sub_command_id_def)
  have "schema_from_topic (topic_name t) = S"
    using command_topic_parts(5) [OF assms(1-3) _ ns assms(9)] assms(4) by simp
  moreover have "topic_name t = topic_text S e (Command (operation_of_str sub) ?cid)"
    using topic_for_Some_iff [OF assms(1)] assms(9) by (simp add: topic_text_def)
  then have "entity_channel_of L S (topic_name t) = Inr (e, Command (operation_of_str sub) ?cid)"
    using entity_channel_of_topic_text [OF assms(1) _ assms(3), of S "Command (operation_of_str sub) ?cid"]
      assms(2,4) ns by (simp add: wf_root_def)
  moreover have "extract_invoking_command_id ?cid = Some (operation_to_str op, cid)"
    using assms(7) by (simp add: extract_invoking_command_id_Some)
  ultimately show ?thesis
    using assms(8,10) by (simp add: infer_invoking_command_topic_def canonical_op_iff)
qed

lemma invoking_names_sub:
  "CHR '':'' \<notin> set op \<Longrightarrow>
   extract_invoking_operation_names (sub_command_id op cid) = extract_invoking_operation_names cid @ [op]"
  by (simp add: extract_invoking_operation_names_def invoking_names_loop.simps [of "sub_command_id op cid"]
      extract_invoking_command_id_Some [THEN iffD2])

text \<open>
  A sub-command leads back to the command that invoked it: the topic of the invoking command is
  recovered from the topic of the sub-command alone, hence from its published message, and the chain
  of invoking operations of the sub-command is the one of the invoking command followed by its
  operation.
\<close>

lemma sub_command_invocation:
  assumes "topic_rule L" "serde_rule J" "wf_root (root S)" "wf_entity_id e"
    and "slash \<notin> set sub" "wf_channel (Command op cid)" "CHR '':'' \<notin> set (operation_to_str op)"
    and "topic_for L S e (Command op cid) = Some invoking"
    and "sub_command_init_state L S e op cid sub = Some s"
  shows "cs_invoking s = Some (topic_name invoking)
    \<and> from_command_message L J (into_message J s) = Some (Inr s)
    \<and> invoking_operation_names s = extract_invoking_operation_names cid @ [operation_to_str op]"
proof -
  let ?cid = "sub_command_id (operation_to_str op) cid"
  obtain t where t: "topic_for L S e (Command (Custom sub) ?cid) = Some t"
    and s: "s = \<lparr>cs_topic = t, cs_status = ''init'', cs_payload = JObject [(''status'', JString ''init'')],
           cs_invoking = Some (topic_name invoking)\<rparr>"
    using assms(8,9) by (auto simp: sub_command_init_state_def split: bind_splits)
  have ns: "slash \<notin> set ?cid" using assms(6) by (simp add: sub_command_id_def)
  have "infer_invoking_command_topic L (topic_name t) = Some (Some (topic_name invoking))"
    using assms(5-8) by (intro infer_invoking_sub [OF assms(1,3,4) _ _ _ _ _ t]) simp_all
  then have "cs_wf L s" by (simp add: cs_wf_def s jmap_wf_def)
  moreover have "get_command_id (topic_name t) = Some ?cid"
    using command_topic_parts(4) [OF assms(1,3,4) _ ns t] assms(5) by simp
  ultimately show ?thesis
    using into_message_roundtrip [OF assms(2)] invoking_names_sub [OF assms(7)]
    by (simp add: s invoking_operation_names_def cs_cmd_id_def)
qed

lemma sub_command_invocation_instance:
  "\<exists>s. sub_command_init_state wildcard_free_mqtt schema_new ''device/main//'' FirmwareUpdate
        (sub_command_id ''device_profile'' ''robot-123'') ''restart'' = Some s
    \<and> invoking_operation_names s = [''device_profile'', ''firmware_update'']
    \<and> from_command_message wildcard_free_mqtt code_serde (into_message code_serde s) = Some (Inr s)"
proof -
  let ?cid = "sub_command_id ''device_profile'' ''robot-123''"
  have wf: "wf_root (root schema_new)" "wf_entity_id ''device/main//''"
    by (simp_all add: wf_root_def wf_entity_id_def schema_new_def with_root_def)
  have ch: "wf_channel (Command FirmwareUpdate ?cid)"
    by (simp add: sub_command_id_def canonical_op_def image_iff)
  have "topic_for wildcard_free_mqtt schema_new ''device/main//'' (Command FirmwareUpdate ?cid) \<noteq> None"
    "sub_command_init_state wildcard_free_mqtt schema_new ''device/main//'' FirmwareUpdate ?cid ''restart'' \<noteq> None"
    by code_simp+
  then obtain t s where
    t: "topic_for wildcard_free_mqtt schema_new ''device/main//'' (Command FirmwareUpdate ?cid) = Some t"
    and s: "sub_command_init_state wildcard_free_mqtt schema_new ''device/main//'' FirmwareUpdate ?cid ''restart''
      = Some s" by blast
  have "extract_invoking_operation_names ?cid = [''device_profile'']" by code_simp
  with sub_command_invocation [OF wildcard_free_mqtt_rule code_serde_rule wf _ ch _ t s] s show ?thesis
    by simp
qed

section \<open>Templates\<close>

lemma concat_split_inclusive: "concat (split_inclusive c s) = s"
  by (induction s) (auto split: list.splits)

lemma split_inclusive_append: "c \<notin> set a \<Longrightarrow> split_inclusive c (a @ c # s) = (a @ [c]) # split_inclusive c s"
  by (induction a) auto

lemma split_once_str_None: "x \<notin> set s \<Longrightarrow> split_once_str (x # p) s = None"
  by (induction s) (subst split_once_str.simps; simp)+

lemma template_pieces_plain: "CHR ''$'' \<notin> set s \<Longrightarrow> template_pieces s = [s]"
  by (simp add: template_pieces_def split_once_str_None)

lemma replace_plain: "CHR ''$'' \<notin> set s \<Longrightarrow> replace_path_with_value J cs s = s"
  by (cases s) (auto simp: replace_path_with_value_def extract_path_def)

lemma pieces_plain:
  "\<forall>p \<in> set ps. CHR ''$'' \<notin> set p
    \<Longrightarrow> concat (map (replace_path_with_value J cs) (concat (map template_pieces ps))) = concat ps"
  by (induction ps) (simp_all add: template_pieces_plain replace_plain)

lemma replace_path:
  "replace_path_with_value J cs (''${'' @ path @ ''}'') =
     (case extract_value cs path of None \<Rightarrow> ''${'' @ path @ ''}'' | Some v \<Rightarrow> json_as_string J v)"
proof -
  have "extract_path (''${'' @ path @ ''}'') = Some path"
    by (simp add: extract_path_def strip_suffix_def)
  then show ?thesis by (simp add: replace_path_with_value_def split: option.split)
qed

text \<open>
  Templates: a text without a dollar sign is left as it is; in any other template the first path
  expression is replaced by the text of the value it points to in the command state, or left as it is
  if it points to nothing, and the rest of the template is treated likewise.
\<close>

lemma inject_values_into_template_spec:
  assumes "CHR ''$'' \<notin> set pre" "CHR ''}'' \<notin> set pre" "CHR ''}'' \<notin> set path"
  shows "inject_values_into_template J cs pre = pre
    \<and> inject_values_into_template J cs (pre @ ''${'' @ path @ ''}'' @ rest)
      = pre @ (case extract_value cs path of None \<Rightarrow> ''${'' @ path @ ''}'' | Some v \<Rightarrow> json_as_string J v)
        @ inject_values_into_template J cs rest"
proof -
  have "CHR ''$'' \<notin> set p" if "p \<in> set (split_inclusive CHR ''}'' pre)" for p
    using that assms(1) concat_split_inclusive [of "CHR ''}''" pre] by (metis UN_I set_concat)
  then have "concat (map (replace_path_with_value J cs) (concat (map template_pieces
      (split_inclusive CHR ''}'' pre)))) = concat (split_inclusive CHR ''}'' pre)"
    by (intro pieces_plain) blast
  then have plain: "inject_values_into_template J cs pre = pre"
    by (simp add: inject_values_into_template_def concat_split_inclusive)
  have "split_inclusive CHR ''}'' (pre @ ''${'' @ path @ ''}'' @ rest)
      = (pre @ ''${'' @ path @ ''}'') # split_inclusive CHR ''}'' rest"
    using split_inclusive_append [of "CHR ''}''" "pre @ ''${'' @ path" rest] assms(2,3) by simp
  moreover have "template_pieces (pre @ ''${'' @ path @ ''}'') = [pre, ''${'' @ path @ ''}'']"
    using split_once_str_skip [of "CHR ''$''" pre "''{''" "path @ ''}''"] assms(1)
    by (simp add: template_pieces_def)
  ultimately have "inject_values_into_template J cs (pre @ ''${'' @ path @ ''}'' @ rest)
      = replace_path_with_value J cs pre @ replace_path_with_value J cs (''${'' @ path @ ''}'')
        @ inject_values_into_template J cs rest"
    by (simp add: inject_values_into_template_def)
  with plain show ?thesis unfolding replace_plain [OF assms(1)] replace_path by blast
qed

definition example_command :: command_state where
  "example_command =
     \<lparr>cs_topic = topic_new_unchecked ''te/device/main///cmd/restart/1'', cs_status = ''init'',
      cs_payload = JObject [(''status'', JString ''init''), (''x'', JString ''X'')], cs_invoking = None\<rparr>"

lemma inject_values_into_template_spec_instance:
  "inject_values_into_template code_serde example_command ''a-${.payload.x}-${.unknown}'' = ''a-X-${.unknown}''"
proof -
  have x: "extract_value example_command ''.payload.x'' = Some (JString ''X'')"
    "extract_value example_command ''.unknown'' = None" by code_simp+
  have "inject_values_into_template code_serde example_command ''-${.unknown}'' = ''-${.unknown}''"
    using inject_values_into_template_spec [of "''-''" "''.unknown''" code_serde example_command "[]"] x(2)
    by (simp add: inject_values_into_template_def)
  with inject_values_into_template_spec [of "''a-''" "''.payload.x''" code_serde example_command "''-${.unknown}''"] x(1)
  show ?thesis by simp
qed

text \<open>
  The excerpt that is meant to be the whole payload of a command, and that the built-in workflows
  use for the output of their last step, is null on every command: its path is stored with the
  \<^verbatim>\<open>${...}\<close> that the parser of excerpts strips.
\<close>

lemma whole_payload_is_null:
  "extract_value_from s whole_payload = JNull
   \<and> extract_value_from s (excerpt_of_json (JString ''${.payload}'')) = cs_payload s"
proof -
  have "extract_value s ''${.}'' = None" by (simp add: extract_value_def)
  moreover have "extract_path ''${.payload}'' = Some ''.payload''" by code_simp
  ultimately show ?thesis by (simp add: whole_payload_def extract_value_def)
qed

end
