(* ===== verification/Exit_Handlers.thy ===== *)
theory Exit_Handlers
  imports Command_State "HOL-Library.Word"
begin

text \<open>
  How the outcome of a script becomes the next state of a command
  (\<^verbatim>\<open>tedge_api/src/workflow/handlers.rs\<close>).  Exit codes are bytes; durations are nanoseconds; the bytes
  a program prints are characters, and the check that they are UTF-8 is the one of the standard library.
  The text of a JSON error is a parameter of the model.
\<close>

type_synonym duration = nat

abbreviation as_secs :: "duration \<Rightarrow> nat" where "as_secs d \<equiv> d div 1000000000"
abbreviation from_secs :: "nat \<Rightarrow> duration" where "from_secs n \<equiv> n * 1000000000"

datatype script_definition_error =
    DuplicatedOnErrorHandler
  | DuplicatedOnSuccessHandler
  | DuplicatedOnStdoutHandler
  | OverlappingHandler string string
  | IncorrectRange "8 word" "8 word"
  | MissingOnSuccessHandler

type_synonym exit_range = "8 word \<times> 8 word \<times> state_update"

record exit_handlers =
  eh_on_success :: "state_update option"
  eh_on_error :: "state_update option"
  eh_on_kill :: "state_update option"
  eh_on_exit :: "exit_range list"
  eh_on_stdout :: "string list"
  eh_timeout :: "duration option"

section \<open>Definition of the handlers\<close>

fun check_ranges :: "(8 word \<times> 8 word) option \<Rightarrow> exit_range list \<Rightarrow> script_definition_error option" where
  "check_ranges previous [] = None"
| "check_ranges previous ((lo, hi, u) # rest) =
     (if hi < lo then Some (IncorrectRange lo hi)
      else case previous of
        None \<Rightarrow> check_ranges (Some (lo, hi)) rest
      | Some (mn, mx) \<Rightarrow>
          if lo \<le> mx then
            Some (OverlappingHandler (decimal (unat mn) @ ''-'' @ decimal (unat mx))
                    (decimal (unat lo) @ ''-'' @ decimal (unat hi)))
          else check_ranges (Some (lo, hi)) rest)"

definition exit_handlers_try_new ::
  "exit_range list \<Rightarrow> state_update option \<Rightarrow> state_update option \<Rightarrow> state_update option \<Rightarrow> string list
     \<Rightarrow> state_update option \<Rightarrow> duration option \<Rightarrow> script_definition_error + exit_handlers" where
  "exit_handlers_try_new on_exit on_success on_error on_kill on_stdout wildcard timeout =
     (let on_exit = sort_key fst on_exit in
      if wildcard \<noteq> None \<and> on_error \<noteq> None then Inl DuplicatedOnErrorHandler
      else
        let on_error = (case wildcard of Some w \<Rightarrow> Some w | None \<Rightarrow> on_error);
            zero_range = (case on_exit of (lo, _, update) # _ \<Rightarrow> if lo = 0 then Some update else None
                         | [] \<Rightarrow> None)
        in if zero_range \<noteq> None \<and> on_success \<noteq> None then Inl DuplicatedOnSuccessHandler
           else
             let on_success = (case zero_range of Some update \<Rightarrow> Some update | None \<Rightarrow> on_success)
             in if on_success \<noteq> None \<and> on_stdout \<noteq> [] then Inl DuplicatedOnStdoutHandler
                else case check_ranges None on_exit of
                  Some err \<Rightarrow> Inl err
                | None \<Rightarrow> Inr \<lparr>eh_on_success = on_success, eh_on_error = on_error, eh_on_kill = on_kill,
                     eh_on_exit = on_exit, eh_on_stdout = on_stdout, eh_timeout = timeout\<rparr>)"

section \<open>Outputs\<close>

record process_output =
  po_code :: "int option"
  po_signal :: "int option"
  po_stdout :: string

type_synonym script_outcome = "string + process_output"

record script_lib =
  sl_json :: serde
  sl_json_error :: "string \<Rightarrow> string"

abbreviation cont_byte :: "nat \<Rightarrow> bool" where
  "cont_byte b \<equiv> 0x80 \<le> b \<and> b \<le> 0xBF"

fun utf8_bytes :: "nat list \<Rightarrow> bool" where
  "utf8_bytes [] = True"
| "utf8_bytes (b # bs) =
     (if b < 0x80 then utf8_bytes bs
      else case bs of
        [] \<Rightarrow> False
      | c1 # r1 \<Rightarrow>
          if 0xC2 \<le> b \<and> b \<le> 0xDF then cont_byte c1 \<and> utf8_bytes r1
          else (case r1 of
            [] \<Rightarrow> False
          | c2 # r2 \<Rightarrow>
              if b = 0xE0 then 0xA0 \<le> c1 \<and> c1 \<le> 0xBF \<and> cont_byte c2 \<and> utf8_bytes r2
              else if b = 0xED then 0x80 \<le> c1 \<and> c1 \<le> 0x9F \<and> cont_byte c2 \<and> utf8_bytes r2
              else if 0xE1 \<le> b \<and> b \<le> 0xEF then cont_byte c1 \<and> cont_byte c2 \<and> utf8_bytes r2
              else (case r2 of
                [] \<Rightarrow> False
              | c3 # r3 \<Rightarrow>
                  if b = 0xF0 then 0x90 \<le> c1 \<and> c1 \<le> 0xBF \<and> cont_byte c2 \<and> cont_byte c3 \<and> utf8_bytes r3
                  else if b = 0xF4 then 0x80 \<le> c1 \<and> c1 \<le> 0x8F \<and> cont_byte c2 \<and> cont_byte c3 \<and> utf8_bytes r3
                  else if 0xF1 \<le> b \<and> b \<le> 0xF3 then cont_byte c1 \<and> cont_byte c2 \<and> cont_byte c3 \<and> utf8_bytes r3
                  else False)))"

definition extract_script_output :: "string \<Rightarrow> string option" where
  "extract_script_output stdout =
     (case split_once_str ('':::begin-tedge:::'' @ [CHR 0x0A]) stdout of
        None \<Rightarrow> None
      | Some (_, tail) \<Rightarrow>
          (case split_once_str ([CHR 0x0A] @ '':::end-tedge:::'') tail of
             None \<Rightarrow> None
           | Some (output, _) \<Rightarrow> Some output))"

definition json_stdout_excerpt :: "script_lib \<Rightarrow> string \<Rightarrow> string + json" where
  "json_stdout_excerpt B stdout =
     (if \<not> utf8_bytes (map of_char stdout) then Inl ''is not UTF8''
      else case extract_script_output stdout of
        None \<Rightarrow> Inl ''contains no :::tedge::: content''
      | Some excerpt \<Rightarrow>
          (case json_of_text (sl_json B) excerpt of
             None \<Rightarrow> Inl (''is not valid JSON: '' @ sl_json_error B excerpt)
           | Some v \<Rightarrow> Inr v))"

definition with_context :: "string \<Rightarrow> string + 'a \<Rightarrow> string + 'a" where
  "with_context ctx r = (case r of Inl err \<Rightarrow> Inl (ctx @ '' '' @ err) | Inr x \<Rightarrow> Inr x)"

definition signal_byte :: "process_output \<Rightarrow> 8 word" where
  "signal_byte o1 = word_of_int (case po_signal o1 of Some s \<Rightarrow> s | None \<Rightarrow> 0)"

fun decimal_int :: "int \<Rightarrow> string" where
  "decimal_int i = (if i < 0 then ''-'' @ decimal (nat (- i)) else decimal (nat i))"

definition json_output :: "script_lib \<Rightarrow> script_outcome \<Rightarrow> string + json" where
  "json_output B outcome =
     (case outcome of
        Inl err \<Rightarrow> Inl (''cannot be launched: '' @ err)
      | Inr o1 \<Rightarrow>
          (case po_code o1 of
             None \<Rightarrow> Inl (''has been killed by SIG'' @ decimal (unat (signal_byte o1)))
           | Some code \<Rightarrow>
               if code \<noteq> 0 then Inl (''failed with exit code '' @ decimal_int code)
               else with_context ''stdout'' (json_stdout_excerpt B (po_stdout o1))))"

definition extract_json_output :: "script_lib \<Rightarrow> string \<Rightarrow> script_outcome \<Rightarrow> string + json" where
  "extract_json_output B program outcome =
     with_context (''Program `'' @ program @ ''`'') (json_output B outcome)"

section \<open>The next state\<close>

fun find_range :: "8 word \<Rightarrow> exit_range list \<Rightarrow> state_update option" where
  "find_range code [] = None"
| "find_range code ((lo, hi, update) # rest) =
     (if code < lo then None
      else if lo \<le> code \<and> code \<le> hi then Some update
      else find_range code rest)"

definition state_update_on_error :: "exit_handlers \<Rightarrow> 8 word \<Rightarrow> state_update option" where
  "state_update_on_error h code = find_range code (eh_on_exit h)"

definition state_update_on_success :: "exit_handlers \<Rightarrow> state_update" where
  "state_update_on_success h =
     (case eh_on_success h of Some u \<Rightarrow> u | None \<Rightarrow> update_successful)"

definition state_update_on_launch_error :: "exit_handlers \<Rightarrow> string \<Rightarrow> string \<Rightarrow> state_update" where
  "state_update_on_launch_error h program err =
     (case eh_on_error h of
        Some u \<Rightarrow> u
      | None \<Rightarrow> update_failed (''Failed to launch '' @ program @ '': '' @ err))"

definition state_update_on_unknown_exit_code :: "exit_handlers \<Rightarrow> string \<Rightarrow> 8 word \<Rightarrow> state_update" where
  "state_update_on_unknown_exit_code h program code =
     (case eh_on_error h of Some u \<Rightarrow> u | None \<Rightarrow> update_unknown_error)
       \<lparr>su_reason := Some (program @ '' returned exit code '' @ decimal (unat code))\<rparr>"

definition state_update_on_kill :: "exit_handlers \<Rightarrow> string \<Rightarrow> 8 word \<Rightarrow> state_update" where
  "state_update_on_kill h program signal =
     (case eh_on_kill h of
        Some u \<Rightarrow> u
      | None \<Rightarrow> update_failed (program @ '' killed by signal '' @ decimal (unat signal)))"

definition state_update_on_exit :: "exit_handlers \<Rightarrow> string \<Rightarrow> 8 word \<Rightarrow> state_update" where
  "state_update_on_exit h program code =
     (if code = 0 then state_update_on_success h
      else case state_update_on_error h code of
        Some u \<Rightarrow> u
      | None \<Rightarrow> state_update_on_unknown_exit_code h program code)"

definition script_state_update :: "script_lib \<Rightarrow> exit_handlers \<Rightarrow> string \<Rightarrow> script_outcome \<Rightarrow> json" where
  "script_state_update B h program outcome =
     (case outcome of
        Inl err \<Rightarrow> update_into_json (state_update_on_launch_error h program err)
      | Inr o1 \<Rightarrow>
          (case po_code o1 of
             None \<Rightarrow> update_into_json (state_update_on_kill h program (signal_byte o1))
           | Some code \<Rightarrow>
               if code = 0 then
                 (case (eh_on_success h, with_context (''Program `'' @ program @ ''` stdout'')
                          (json_stdout_excerpt B (po_stdout o1))) of
                    (None, Inl reason) \<Rightarrow> update_into_json (update_failed reason)
                  | (None, Inr dynamic_update) \<Rightarrow> dynamic_update
                  | (Some successful_state, Inr dynamic_update) \<Rightarrow>
                      inject_into_json successful_state dynamic_update
                  | (Some successful_state, Inl _) \<Rightarrow> update_into_json successful_state)
               else
                 (case state_update_on_error h (word_of_int code) of
                    None \<Rightarrow> update_into_json (state_update_on_unknown_exit_code h program (word_of_int code))
                  | Some error_state \<Rightarrow>
                      (case json_stdout_excerpt B (po_stdout o1) of
                         Inl _ \<Rightarrow> update_into_json error_state
                       | Inr dynamic_update \<Rightarrow> inject_into_json error_state dynamic_update))))"

definition graceful_timeout :: "exit_handlers \<Rightarrow> duration option" where
  "graceful_timeout h = eh_timeout h"

definition forceful_timeout_extension :: "exit_handlers \<Rightarrow> duration option" where
  "forceful_timeout_extension h =
     map_option (\<lambda>timeout. from_secs (max 60 (as_secs timeout div 20))) (eh_timeout h)"

definition update_with_script_output ::
  "script_lib \<Rightarrow> string \<Rightarrow> script_outcome \<Rightarrow> exit_handlers \<Rightarrow> command_state \<Rightarrow> command_state" where
  "update_with_script_output B script outcome h s =
     update_with_json (script_state_update B h script outcome) s"

section \<open>Other handlers\<close>

record exec_handlers =
  xh_on_exec :: state_update

definition exec_handlers_try_new :: "state_update option \<Rightarrow> script_definition_error + exec_handlers" where
  "exec_handlers_try_new on_exec =
     Inr \<lparr>xh_on_exec = (case on_exec of Some u \<Rightarrow> u | None \<Rightarrow> update_successful)\<rparr>"

definition exec_builtin_default :: exec_handlers where
  "exec_builtin_default = \<lparr>xh_on_exec = update_executing\<rparr>"

record await_handlers =
  ah_timeout :: "duration option"
  ah_on_success :: state_update
  ah_on_error :: state_update
  ah_on_timeout :: state_update

definition await_builtin_default :: await_handlers where
  "await_builtin_default =
     \<lparr>ah_timeout = None, ah_on_success = update_successful, ah_on_error = update_unknown_error,
      ah_on_timeout = update_timeout\<rparr>"

record iterate_handlers =
  ih_on_next :: state_update
  ih_on_success :: state_update
  ih_on_error :: state_update

definition iterate_handlers_new :: "state_update \<Rightarrow> state_update \<Rightarrow> state_update \<Rightarrow> iterate_handlers" where
  "iterate_handlers_new on_next on_success on_error =
     \<lparr>ih_on_next = on_next, ih_on_success = on_success, ih_on_error = on_error\<rparr>"

record default_handlers =
  dh_timeout :: "duration option"
  dh_on_error :: state_update
  dh_on_timeout :: state_update

definition default_handlers_new ::
  "duration option \<Rightarrow> state_update option \<Rightarrow> state_update option \<Rightarrow> default_handlers" where
  "default_handlers_new timeout on_error on_timeout =
     \<lparr>dh_timeout = timeout,
      dh_on_error = (case on_error of Some u \<Rightarrow> u | None \<Rightarrow> update_unknown_error),
      dh_on_timeout = (case on_timeout of Some u \<Rightarrow> u | None \<Rightarrow> update_timeout)\<rparr>"

definition default_handlers_default :: default_handlers where
  "default_handlers_default =
     \<lparr>dh_timeout = None, dh_on_error = update_unknown_error, dh_on_timeout = update_timeout\<rparr>"

section \<open>Accepted ranges are disjoint, and found\<close>

definition apart :: "exit_range \<Rightarrow> exit_range \<Rightarrow> bool" where
  "apart r r' \<longleftrightarrow> fst (snd r) < fst r' \<or> fst (snd r') < fst r"

abbreviation proper :: "exit_range \<Rightarrow> bool" where
  "proper r \<equiv> fst r \<le> fst (snd r)"

lemma apart_sym: "apart r r' = apart r' r"
  by (auto simp: apart_def)

lemma sorted_wrt_apart_insort:
  "sorted_wrt apart (insort_key f x xs) \<longleftrightarrow> (\<forall>y \<in> set xs. apart x y) \<and> sorted_wrt apart xs"
proof (induction xs)
  case (Cons y ys)
  show ?case
  proof (cases "f x \<le> f y")
    case False
    then have "sorted_wrt apart (insort_key f x (y # ys)) \<longleftrightarrow>
        (\<forall>z \<in> set (insort_key f x ys). apart y z) \<and> sorted_wrt apart (insort_key f x ys)" by simp
    with Cons.IH apart_sym show ?thesis by (auto simp: set_insort_key)
  qed auto
qed simp

lemma sorted_wrt_apart_sort: "sorted_wrt apart (sort_key f xs) \<longleftrightarrow> sorted_wrt apart xs"
  by (induction xs) (simp_all add: sort_key_def sorted_wrt_apart_insort [unfolded sort_key_def]
      set_sort [unfolded sort_key_def])

lemma check_ranges_None:
  "sorted (map fst rs) \<Longrightarrow>
   check_ranges prev rs = None \<longleftrightarrow>
     (\<forall>r \<in> set rs. proper r) \<and> sorted_wrt apart rs
     \<and> (case prev of None \<Rightarrow> True | Some (_, m) \<Rightarrow> \<forall>r \<in> set rs. m < fst r)"
proof (induction rs arbitrary: prev)
  case (Cons r rest)
  obtain lo hi u where r: "r = (lo, hi, u)" by (cases r)
  have sorted: "\<forall>q \<in> set rest. lo \<le> fst q" "sorted (map fst rest)" using Cons.prems r by auto
  have apart: "apart r q \<longleftrightarrow> hi < fst q" if "q \<in> set rest" "proper q" "lo \<le> hi" for q
    using that sorted(1) r by (auto simp: apart_def dest!: bspec)
  have IH: "check_ranges (Some (lo, hi)) rest = None \<longleftrightarrow>
      (\<forall>q \<in> set rest. proper q) \<and> sorted_wrt apart rest \<and> (\<forall>q \<in> set rest. hi < fst q)"
    using Cons.IH [OF sorted(2), of "Some (lo, hi)"] by simp
  show ?case
  proof (cases "hi < lo")
    case True
    then show ?thesis using r by auto
  next
    case False
    then have tail: "check_ranges (Some (lo, hi)) rest = None \<longleftrightarrow>
        (\<forall>q \<in> set (r # rest). proper q) \<and> sorted_wrt apart (r # rest)"
    proof -
      have "(\<forall>q \<in> set rest. proper q) \<Longrightarrow> (\<forall>q \<in> set rest. apart r q) \<longleftrightarrow> (\<forall>q \<in> set rest. hi < fst q)"
        using apart False by (meson not_less)
      with IH False r show ?thesis by auto
    qed
    show ?thesis
    proof (cases prev)
      case None
      with False tail r show ?thesis by simp
    next
      case (Some p)
      then obtain mn mx where p: "prev = Some (mn, mx)" by (cases p) auto
      have "(\<forall>q \<in> set (r # rest). mx < fst q) \<longleftrightarrow> \<not> lo \<le> mx" using sorted(1) r by force
      with False p tail r show ?thesis by (cases "lo \<le> mx") simp_all
    qed
  qed
qed (simp split: option.split)

lemma find_range_spec:
  assumes "sorted (map fst rs)" "sorted_wrt apart rs"
  shows "find_range code rs = Some u \<longleftrightarrow> (\<exists>lo hi. (lo, hi, u) \<in> set rs \<and> lo \<le> code \<and> code \<le> hi)"
  using assms
proof (induction rs)
  case (Cons r rs)
  obtain lo hi v where r: "r = (lo, hi, v)" by (cases r)
  have later: "lo \<le> fst q" if "q \<in> set rs" for q using Cons.prems(1) r that by auto
  have disjoint: "apart r q" if "q \<in> set rs" for q using Cons.prems(2) that by auto
  consider "code < lo" | "lo \<le> code" "code \<le> hi" | "lo \<le> code" "hi < code" by force
  then show ?case
  proof cases
    case 1
    then show ?thesis using later r by fastforce
  next
    case 2
    then have "\<not> (f \<le> code \<and> code \<le> t)" if "(f, t, w) \<in> set rs" for f t w
      using disjoint [OF that] r by (auto simp: apart_def)
    with 2 r show ?thesis by auto
  next
    case 3
    then show ?thesis using Cons r by auto
  qed
qed simp

lemma exit_handlers_accept:
  assumes "z = (case sort_key fst on_exit of (lo, _, u) # _ \<Rightarrow> if lo = 0 then Some u else None | [] \<Rightarrow> None)"
  shows "(\<exists>h. exit_handlers_try_new on_exit on_success on_error on_kill on_stdout wildcard timeout = Inr h) \<longleftrightarrow>
    (wildcard = None \<or> on_error = None) \<and> (z = None \<or> on_success = None)
    \<and> (on_stdout = [] \<or> (z = None \<and> on_success = None))
    \<and> check_ranges None (sort_key fst on_exit) = None"
  unfolding exit_handlers_try_new_def Let_def assms [symmetric]
  by (cases wildcard; cases on_error; cases z; cases on_success; cases on_stdout;
      cases "check_ranges None (sort_key fst on_exit)") simp_all

lemma exit_handlers_sorted:
  assumes "exit_handlers_try_new on_exit on_success on_error on_kill on_stdout wildcard timeout = Inr h"
  shows "eh_on_exit h = sort_key fst on_exit \<and> check_ranges None (sort_key fst on_exit) = None"
  using assms unfolding exit_handlers_try_new_def Let_def
  by (cases "check_ranges None (sort_key fst on_exit)") (simp_all split: if_split_asm, force)

text \<open>
  The definition of exit handlers: it is accepted exactly when \<^verbatim>\<open>on_error\<close> is given once, no exit code
  zero competes with \<^verbatim>\<open>on_success\<close>, success and standard output handlers are not both given, and the
  ranges of exit codes are proper and pairwise disjoint.  Then the handler of a nonzero exit code is the
  one of the only range, in the order the user wrote them, that holds the code.
\<close>

lemma exit_handlers_try_new_spec:
  "((\<exists>h. exit_handlers_try_new on_exit on_success on_error on_kill on_stdout wildcard timeout = Inr h) \<longleftrightarrow>
     (wildcard = None \<or> on_error = None)
     \<and> ((\<forall>r \<in> set on_exit. fst r \<noteq> 0) \<or> on_success = None)
     \<and> (on_stdout = [] \<or> ((\<forall>r \<in> set on_exit. fst r \<noteq> 0) \<and> on_success = None))
     \<and> (\<forall>r \<in> set on_exit. proper r) \<and> sorted_wrt apart on_exit)
   \<and> (\<forall>h code u.
       exit_handlers_try_new on_exit on_success on_error on_kill on_stdout wildcard timeout = Inr h \<longrightarrow>
       state_update_on_error h code = Some u \<longleftrightarrow>
         (\<exists>lo hi. (lo, hi, u) \<in> set on_exit \<and> lo \<le> code \<and> code \<le> hi))"
proof (intro conjI allI impI)
  let ?s = "sort_key fst on_exit"
  let ?zero = "case ?s of (lo, _, update) # _ \<Rightarrow> if lo = 0 then Some update else None | [] \<Rightarrow> None"
  have zero: "?zero = None \<longleftrightarrow> (\<forall>r \<in> set on_exit. fst r \<noteq> 0)"
  proof (cases ?s)
    case Nil
    then have "on_exit = []" by (metis length_0_conv length_sort)
    then show ?thesis by simp
  next
    case (Cons r rs)
    then have "set on_exit = set (r # rs)" "sorted (map fst (r # rs))"
      using sorted_sort_key [of fst on_exit] set_sort [of fst on_exit] by simp_all
    then have "\<forall>q \<in> set on_exit. fst r \<le> fst q" by auto
    moreover have "r \<in> set on_exit" using Cons by (metis list.set_intros(1) set_sort)
    ultimately show ?thesis using Cons by (cases r) (force split: if_splits)
  qed
  have ranges: "check_ranges None ?s = None \<longleftrightarrow> (\<forall>r \<in> set on_exit. proper r) \<and> sorted_wrt apart on_exit"
    using check_ranges_None [OF sorted_sort_key [of fst on_exit], of None]
    by (simp add: sorted_wrt_apart_sort)
  show "(\<exists>h. exit_handlers_try_new on_exit on_success on_error on_kill on_stdout wildcard timeout = Inr h) \<longleftrightarrow>
     (wildcard = None \<or> on_error = None)
     \<and> ((\<forall>r \<in> set on_exit. fst r \<noteq> 0) \<or> on_success = None)
     \<and> (on_stdout = [] \<or> ((\<forall>r \<in> set on_exit. fst r \<noteq> 0) \<and> on_success = None))
     \<and> (\<forall>r \<in> set on_exit. proper r) \<and> sorted_wrt apart on_exit"
    unfolding zero [symmetric] ranges [symmetric] by (rule exit_handlers_accept [OF refl])
  fix h code u
  assume h: "exit_handlers_try_new on_exit on_success on_error on_kill on_stdout wildcard timeout = Inr h"
  have "eh_on_exit h = ?s" "check_ranges None ?s = None"
    using exit_handlers_sorted [OF h] by simp_all
  then show "state_update_on_error h code = Some u \<longleftrightarrow>
       (\<exists>lo hi. (lo, hi, u) \<in> set on_exit \<and> lo \<le> code \<and> code \<le> hi)"
    using find_range_spec [OF sorted_sort_key [of fst on_exit], of code u] ranges
    by (simp add: state_update_on_error_def sorted_wrt_apart_sort)
qed

definition example_exit :: "exit_range list" where
  "example_exit = [(5, 9, update_to ''retry''), (1, 4, update_to ''rollback'')]"

lemma exit_handlers_try_new_spec_instance:
  "\<exists>h. exit_handlers_try_new example_exit None None None [] (Some (update_failed ''other'')) None = Inr h
    \<and> state_update_on_error h 7 = Some (update_to ''retry'')"
proof -
  have "sorted_wrt apart example_exit" "\<forall>r \<in> set example_exit. proper r"
    by (simp_all add: example_exit_def apart_def)
  then obtain h where
    h: "exit_handlers_try_new example_exit None None None [] (Some (update_failed ''other'')) None = Inr h"
    using exit_handlers_try_new_spec [of example_exit None None None "[]" "Some (update_failed ''other'')" None]
    by blast
  have "(5, 9, update_to ''retry'') \<in> set example_exit" by (simp add: example_exit_def)
  moreover have "(5 :: 8 word) \<le> 7" "(7 :: 8 word) \<le> 9" by simp_all
  ultimately show ?thesis
    using exit_handlers_try_new_spec [of example_exit None None None "[]" "Some (update_failed ''other'')" None] h
    by blast
qed

section \<open>Handlers decide the status\<close>

lemma json_wf_update_into_json [simp]: "json_wf (update_into_json u)"
  by (simp add: update_into_json_def split: option.split)

lemma json_wf_inject_into_json [simp]:
  assumes "json_wf v"
  shows "json_wf (inject_into_json u v)"
proof (cases v)
  case (JObject m)
  let ?m = "bt_insert ''status'' (JString (su_status u)) m"
  have "jmap_wf m" using assms JObject by (simp add: jmap_wf_def)
  then have m: "jmap_wf ?m" by (rule jmap_wf_insert) simp
  have "jmap_wf (bt_insert ''reason'' (JString x) ?m)" for x by (rule jmap_wf_insert [OF m]) simp
  with m show ?thesis unfolding JObject inject_into_json.simps Let_def jmap_wf_def [symmetric]
    by (simp split: option.split)
qed simp_all

lemma update_with_json_status:
  assumes "cs_payload s = JObject m" "json_wf v" "extract_text_property v ''status'' = Some t"
  shows "cs_status (update_with_json v s) = t"
proof -
  obtain n where n: "v = JObject n" "bt_get n ''status'' = Some (JString t)"
    using assms(3) by (auto simp: extract_text_property_Some)
  then have "jmap_wf n" using assms(2) by (simp add: jmap_wf_def)
  then have "bt_get (bt_extend m n) ''status'' = Some (JString t)"
    using n(2) bt_wf_map_of_rev [OF jmap_wf_bt] by simp
  then have "extract_text_property (JObject (bt_extend m n)) ''status'' = Some t"
    by (simp add: extract_text_property_Some)
  then show ?thesis by (simp add: update_with_json_def merge_json_def assms(1) n(1) Let_def)
qed

lemma update_with_json_no_status:
  assumes "cs_payload s = JObject m" "json_wf v" "json_get v ''status'' = None"
    and "extract_text_property (cs_payload s) ''status'' = Some t"
  shows "cs_status (update_with_json v s) = t"
proof (cases "\<exists>n. v = JObject n")
  case True
  then obtain n where n: "v = JObject n" by blast
  then have "jmap_wf n" using assms(2) by (simp add: jmap_wf_def)
  moreover have "bt_get n ''status'' = None" using assms(3) n by (simp add: json_get_def)
  ultimately have "bt_get (bt_extend m n) ''status'' = bt_get m ''status''"
    using bt_wf_map_of_rev [OF jmap_wf_bt] by simp
  then have "extract_text_property (JObject (bt_extend m n)) ''status'' = Some t"
    using assms(1,4) by (simp add: extract_text_property_Some)
  then show ?thesis by (simp add: update_with_json_def merge_json_def assms(1) n Let_def)
next
  case False
  then have "merge_json (JObject m) v = JObject m" by (cases v) (simp_all add: merge_json_def)
  then show ?thesis using assms(1,4) by (simp add: update_with_json_def Let_def)
qed

lemma status_update_into_json [simp]:
  "extract_text_property (update_into_json u) ''status'' = Some (su_status u)"
  by (simp add: update_into_json_def extract_text_property_def split: option.split)

lemma status_inject_into_json [simp]:
  "extract_text_property (inject_into_json u v) ''status'' = Some (su_status u)"
  by (cases v) (auto simp: extract_text_property_def Let_def update_into_json_def split: option.split)

text \<open>The update the handlers provide for an outcome; none when a successful script decides.\<close>

definition handler_of :: "exit_handlers \<Rightarrow> string \<Rightarrow> script_outcome \<Rightarrow> state_update option" where
  "handler_of h program outcome =
     (case outcome of
        Inl err \<Rightarrow> Some (state_update_on_launch_error h program err)
      | Inr o1 \<Rightarrow>
          (case po_code o1 of
             None \<Rightarrow> Some (state_update_on_kill h program (signal_byte o1))
           | Some code \<Rightarrow>
               if code = 0 then eh_on_success h
               else Some (case state_update_on_error h (word_of_int code) of
                  Some u \<Rightarrow> u
                | None \<Rightarrow> state_update_on_unknown_exit_code h program (word_of_int code))))"

text \<open>
  C32. The handlers decide: whatever a script prints, the command moves to the status its handlers give
  for the outcome (launch error, signal, exit code, success).  Only a successful script without success
  handler chooses the status itself: the one it prints, whether it is listed in \<^verbatim>\<open>on_stdout\<close> or not; failed, whatever the
  \<^verbatim>\<open>on_error\<close> handler, if it prints no JSON excerpt; and the status the command had if the excerpt has none.  The
  documentation of workflows says otherwise for these three cases: the status has to be listed, and \<^verbatim>\<open>on_error\<close> is used without one.
\<close>

theorem script_outcome_status:
  assumes "parses_wf (sl_json B)" "cs_payload s = JObject m"
  shows "(\<forall>u. handler_of h program outcome = Some u \<longrightarrow>
      cs_status (update_with_script_output B program outcome h s) = su_status u)
    \<and> (\<forall>o1. outcome = Inr o1 \<longrightarrow> po_code o1 = Some 0 \<longrightarrow> eh_on_success h = None \<longrightarrow>
        (\<forall>err. json_stdout_excerpt B (po_stdout o1) = Inl err \<longrightarrow>
           cs_status (update_with_script_output B program outcome h s) = ''failed'')
        \<and> (\<forall>v status. json_stdout_excerpt B (po_stdout o1) = Inr v \<longrightarrow>
           extract_text_property v ''status'' = Some status \<longrightarrow>
           cs_status (update_with_script_output B program outcome h s) = status)
        \<and> (\<forall>v status. json_stdout_excerpt B (po_stdout o1) = Inr v \<longrightarrow> json_get v ''status'' = None \<longrightarrow>
           extract_text_property (cs_payload s) ''status'' = Some status \<longrightarrow>
           cs_status (update_with_script_output B program outcome h s) = status))"
proof -
  have merged: "cs_status (update_with_json v s) = t"
    if "json_wf v" "extract_text_property v ''status'' = Some t" for v t
    using update_with_json_status [OF assms(2) that] by simp
  have parsed: "json_wf v" if "json_stdout_excerpt B out = Inr v" for out v
    using that assms(1) by (auto simp: json_stdout_excerpt_def parses_wf_def split: if_splits option.splits)
  have decided: "json_wf (script_state_update B h program outcome)
      \<and> extract_text_property (script_state_update B h program outcome) ''status'' = Some (su_status u)"
    if "handler_of h program outcome = Some u" for u
  proof (cases outcome)
    case (Inl err)
    then show ?thesis using that by (simp add: script_state_update_def handler_of_def)
  next
    case (Inr o1)
    then show ?thesis
      using that parsed [of "po_stdout o1"]
      by (auto simp: script_state_update_def handler_of_def with_context_def
          split: option.splits sum.splits if_splits)
  qed
  show ?thesis
  proof (intro conjI allI impI)
    fix u assume "handler_of h program outcome = Some u"
    with decided merged show "cs_status (update_with_script_output B program outcome h s) = su_status u"
      unfolding update_with_script_output_def by blast
  next
    fix o1 err
    assume "outcome = Inr o1" "po_code o1 = Some 0" "eh_on_success h = None"
      "json_stdout_excerpt B (po_stdout o1) = Inl err"
    then show "cs_status (update_with_script_output B program outcome h s) = ''failed''"
      using merged [OF json_wf_update_into_json status_update_into_json]
      by (simp add: update_with_script_output_def script_state_update_def with_context_def update_failed_def)
  next
    fix o1 v status
    assume "outcome = Inr o1" "po_code o1 = Some 0" "eh_on_success h = None"
      and v: "json_stdout_excerpt B (po_stdout o1) = Inr v" "extract_text_property v ''status'' = Some status"
    then show "cs_status (update_with_script_output B program outcome h s) = status"
      using merged [OF parsed [OF v(1)] v(2)]
      by (simp add: update_with_script_output_def script_state_update_def with_context_def)
  next
    fix o1 v status
    assume "outcome = Inr o1" "po_code o1 = Some 0" "eh_on_success h = None"
      and v: "json_stdout_excerpt B (po_stdout o1) = Inr v" "json_get v ''status'' = None"
        "extract_text_property (cs_payload s) ''status'' = Some status"
    then show "cs_status (update_with_script_output B program outcome h s) = status"
      using update_with_json_no_status [OF assms(2) parsed [OF v(1)] v(2,3)]
      by (simp add: update_with_script_output_def script_state_update_def with_context_def)
  qed
qed

definition example_lib :: script_lib where
  "example_lib = \<lparr>sl_json = code_serde, sl_json_error = (\<lambda>_. ''syntax'')\<rparr>"

theorem script_outcome_status_witness:
  "\<exists>h. exit_handlers_try_new [(1, 4, update_to ''rollback'')] None None None [] None None = Inr h
    \<and> cs_status (update_with_script_output example_lib ''install.sh''
         (Inr \<lparr>po_code = Some 3, po_signal = None,
               po_stdout = '':::begin-tedge:::'' @ [CHR 0x0A] @ json_to_text code_serde
                 (JObject [(''status'', JString ''done'')]) @ [CHR 0x0A] @ '':::end-tedge:::''\<rparr>) h
         example_command) = ''rollback''"
proof -
  let ?h = "\<lparr>eh_on_success = None, eh_on_error = None, eh_on_kill = None,
     eh_on_exit = [(1, 4, update_to ''rollback'')], eh_on_stdout = [], eh_timeout = None\<rparr>"
  let ?o = "Inr \<lparr>po_code = Some 3, po_signal = None,
               po_stdout = '':::begin-tedge:::'' @ [CHR 0x0A] @ json_to_text code_serde
                 (JObject [(''status'', JString ''done'')]) @ [CHR 0x0A] @ '':::end-tedge:::''\<rparr> :: script_outcome"
  have h: "exit_handlers_try_new [(1, 4, update_to ''rollback'')] None None None [] None None = Inr ?h"
    by (simp add: exit_handlers_try_new_def)
  have u: "handler_of ?h ''install.sh'' ?o = Some (update_to ''rollback'')"
    by (simp add: handler_of_def state_update_on_error_def)
  have "parses_wf (sl_json example_lib)" by (simp add: example_lib_def parses_wf_def code_serde_wf)
  moreover have "cs_payload example_command = JObject [(''status'', JString ''init''), (''x'', JString ''X'')]"
    by (simp add: example_command_def)
  ultimately have "cs_status (update_with_script_output example_lib ''install.sh'' ?o ?h example_command) = ''rollback''"
    using script_outcome_status [of example_lib example_command _ ?h "''install.sh''" ?o] u
    by (simp add: update_to_def)
  with h show ?thesis by blast
qed

end
