(* ===== verification/Workflow.thy ===== *)
theory Workflow
  imports Exit_Handlers
begin

text \<open>
  Operation workflows (\<^verbatim>\<open>tedge_api/src/workflow/mod.rs\<close>): the state machine of an operation, the action of
  each state, the iteration over the items of a payload, and how the states a built-in operation reports
  are adapted to the handlers of the user.  The text \<^verbatim>\<open>derive(Debug)\<close> gives for an action is a parameter.
\<close>

datatype operation_action =
    MoveTo state_update
  | BuiltIn exec_handlers await_handlers
  | AwaitingAgentRestart await_handlers
  | Script shell_script exit_handlers
  | BgScript shell_script exec_handlers
  | Operation operation_name "shell_script option" state_excerpt exec_handlers
  | BuiltInOperation operation_name exec_handlers
  | AwaitOperationCompletion await_handlers state_excerpt
  | Clear
  | Iterate string iterate_handlers

record operation_workflow =
  wf_operation :: operation_type
  wf_handlers :: default_handlers
  wf_states :: "(string, operation_action) hmap"

datatype workflow_definition_error =
    MissingState string
  | InvalidAction string string
  | ScriptDefinitionError script_definition_error
  | StateExcerptError state_excerpt_error
  | UnknownAction string
  | InvalidPathExpression string
  | InvalidBuiltinOperation string string

datatype iteration_error =
    InvalidTarget string
  | TargetNotArray string
  | IndexOutOfBounds nat

definition version_is_builtin :: "string \<Rightarrow> bool" where
  "version_is_builtin version \<longleftrightarrow> version = ''builtin''"

fun action_to_str :: "shell_words \<Rightarrow> operation_action \<Rightarrow> string" where
  "action_to_str W (MoveTo step) = ''move to '' @ su_status step @ '' state''"
| "action_to_str W (BuiltIn _ _) = ''builtin action''"
| "action_to_str W (AwaitingAgentRestart _) = ''await agent restart''"
| "action_to_str W (Script script _) = script_to_str W script"
| "action_to_str W (BgScript script _) = script_to_str W script"
| "action_to_str W (Operation operation maybe_script _ _) =
     (case maybe_script of
        None \<Rightarrow> ''execute '' @ operation @ '' as sub-operation''
      | Some script \<Rightarrow> ''execute '' @ operation
          @ '' as sub-operation, with input payload derived from: '' @ script_to_str W script)"
| "action_to_str W (BuiltInOperation operation _) = ''execute builtin:'' @ operation"
| "action_to_str W (AwaitOperationCompletion _ _) = ''await sub-operation completion''"
| "action_to_str W Clear = ''wait for the requester to finalize the command''"
| "action_to_str W (Iterate json_path _) = ''iterate over '' @ json_path"

section \<open>Workflows\<close>

text \<open>\<^verbatim>\<open>entry(key).or_insert(value)\<close>: the map and the value of the key.\<close>

definition or_insert :: "'k \<Rightarrow> 'v \<Rightarrow> ('k, 'v) hmap \<Rightarrow> ('k, 'v) hmap \<times> 'v" where
  "or_insert k v m = (case hm_get m k of Some w \<Rightarrow> (m, w) | None \<Rightarrow> (hm_insert k v m, v))"

fun foreign_builtin :: "operation_name \<Rightarrow> operation_action list \<Rightarrow> operation_name option" where
  "foreign_builtin main [] = None"
| "foreign_builtin main (action # rest) =
     (case action of
        BuiltInOperation builtin_operation _ \<Rightarrow>
          if builtin_operation \<noteq> main then Some builtin_operation else foreign_builtin main rest
      | _ \<Rightarrow> foreign_builtin main rest)"

definition workflow_try_new ::
  "(operation_action \<Rightarrow> string) \<Rightarrow> shell_words \<Rightarrow> operation_type \<Rightarrow> default_handlers
     \<Rightarrow> (string, operation_action) hmap \<Rightarrow> workflow_definition_error + operation_workflow" where
  "workflow_try_new dbg W operation handlers states =
     (if \<not> hm_contains states ''init'' then Inl (MissingState ''init'')
      else
        let (states, action_on_success) = or_insert ''successful'' Clear states in
        if action_on_success \<noteq> Clear then Inl (InvalidAction ''successful'' (dbg action_on_success))
        else
          let (states, action_on_error) = or_insert ''failed'' Clear states in
          if action_on_error \<noteq> Clear then Inl (InvalidAction ''failed'' (action_to_str W action_on_error))
          else
            let main_operation = operation_to_str operation in
            case foreign_builtin main_operation (map snd states) of
              Some builtin_operation \<Rightarrow> Inl (InvalidBuiltinOperation main_operation builtin_operation)
            | None \<Rightarrow>
                Inr \<lparr>wf_operation = operation, wf_handlers = handlers, wf_states = states\<rparr>)"

definition workflow_built_in :: "operation_type \<Rightarrow> operation_workflow" where
  "workflow_built_in operation =
     \<lparr>wf_operation = operation, wf_handlers = default_handlers_default,
      wf_states =
       [(''init'', MoveTo (update_to ''scheduled'')),
        (''scheduled'', BuiltInOperation (operation_to_str operation) exec_builtin_default),
        (''executing'', AwaitOperationCompletion await_builtin_default whole_payload),
        (''successful'', Clear),
        (''failed'', Clear)]\<rparr>"

definition workflow_ill_formed :: "string \<Rightarrow> string \<Rightarrow> operation_workflow" where
  "workflow_ill_formed operation reason =
     \<lparr>wf_operation = operation_of_str operation, wf_handlers = default_handlers_default,
      wf_states =
       [(''init'', MoveTo (update_to ''executing'')),
        (''executing'', MoveTo (update_failed reason)),
        (''failed'', Clear)]\<rparr>"

definition capability_message ::
  "rumqttc \<Rightarrow> mqtt_schema \<Rightarrow> entity_topic_id \<Rightarrow> operation_workflow \<Rightarrow> mqtt_message option panics" where
  "capability_message L S target w =
     (case wf_operation w of
        SoftwareList \<Rightarrow> Some None | SoftwareUpdate \<Rightarrow> Some None | LogUpload \<Rightarrow> Some None
      | ConfigSnapshot \<Rightarrow> Some None | ConfigUpdate \<Rightarrow> Some None | Health_op \<Rightarrow> Some None
      | _ \<Rightarrow> do {
          meta_topic \<leftarrow> capability_topic_for L S target (wf_operation w);
          Some (Some (with_qos AtLeastOnce (with_retain (message_new meta_topic ''{}'')))) })"

definition inject_state :: "serde \<Rightarrow> command_state \<Rightarrow> operation_action \<Rightarrow> operation_action" where
  "inject_state J s action =
     (case action of
        Script script handlers \<Rightarrow> Script (script_inject_values J s script) handlers
      | BgScript script handlers \<Rightarrow> BgScript (script_inject_values J s script) handlers
      | Operation operation_expr optional_script input handlers \<Rightarrow>
          Operation (inject_values_into_template J s operation_expr)
            (map_option (script_inject_values J s) optional_script) input handlers
      | _ \<Rightarrow> action)"

definition workflow_get_action ::
  "serde \<Rightarrow> operation_workflow \<Rightarrow> command_state \<Rightarrow> workflow_execution_error + operation_action" where
  "workflow_get_action J w s =
     (case hm_get (wf_states w) (cs_status s) of
        None \<Rightarrow> Inl (UnknownStep (operation_to_str (wf_operation w)) (cs_status s))
      | Some action \<Rightarrow> Inr (inject_state J s action))"

section \<open>Iterations\<close>

definition item_skipped :: "json \<Rightarrow> bool" where
  "item_skipped item = (case json_get item ''@skip'' \<bind> as_bool of Some b \<Rightarrow> b | None \<Rightarrow> False)"

function next_index :: "json list \<Rightarrow> nat \<Rightarrow> nat option" where
  "next_index items i =
     (if length items \<le> i then None
      else if item_skipped (items ! i) then next_index items (Suc i)
      else Some i)"
  by pat_completeness auto
termination by (relation "measure (\<lambda>(items, i). length items - i)") auto

declare next_index.simps [simp del]

definition process_iterate ::
  "string \<Rightarrow> iterate_handlers \<Rightarrow> command_state \<Rightarrow> (iteration_error + command_state) panics" where
  "process_iterate json_path handlers s =
     (case extract_value s json_path of
        None \<Rightarrow> Some (Inl (InvalidTarget json_path))
      | Some target \<Rightarrow>
         (case as_array target of
            None \<Rightarrow> Some (Inl (TargetNotArray json_path))
          | Some items \<Rightarrow>
             if items = [] then Some (Inr (cs_update (ih_on_success handlers) s))
             else
               let proceed = (\<lambda>next_item.
                     Some (Inr (cs_update (ih_on_next handlers)
                       (update_with_json (JObject [(''@next'', next_item)]) s))))
               in (case json_get (cs_payload s) ''@next'' of
                     Some next_item \<Rightarrow>
                       let index = (case json_get next_item ''index'' \<bind> as_u64 of
                                      Some i \<Rightarrow> i | None \<Rightarrow> 0)
                       in if length items \<le> index then Some (Inl (IndexOutOfBounds index))
                          else (case next_index items (index + 1) of
                              None \<Rightarrow> Some (Inr (cs_update (ih_on_success handlers) s))
                            | Some next \<Rightarrow> do {
                                next_item \<leftarrow> json_set ''index'' (JNumber (PosInt next)) next_item;
                                next_item \<leftarrow> json_set ''item'' (items ! next) next_item;
                                proceed next_item })
                   | None \<Rightarrow>
                       proceed (JObject [(''index'', JNumber (PosInt 0)), (''item'', items ! 0)]))))"

section \<open>Built-in operations\<close>

definition adapt_builtin_request :: "operation_action \<Rightarrow> command_state \<Rightarrow> command_state" where
  "adapt_builtin_request action s =
     (case action of
        BuiltInOperation _ _ \<Rightarrow> cs_update update_scheduled s
      | _ \<Rightarrow> s)"

definition on_builtin_exec :: "exec_handlers \<Rightarrow> command_state \<Rightarrow> command_state" where
  "on_builtin_exec exec_handlers s = cs_update (xh_on_exec exec_handlers) s"

definition on_builtin_failure :: "await_handlers \<Rightarrow> command_state \<Rightarrow> command_state" where
  "on_builtin_failure await_handlers s =
     (let on_error = ah_on_error await_handlers;
          on_error = (if su_reason on_error = None then
                        (case failure_reason s of
                           Some builtin_reason \<Rightarrow> on_error\<lparr>su_reason := Some builtin_reason\<rparr>
                         | None \<Rightarrow> on_error)
                      else on_error)
      in cs_update on_error s)"

definition adapt_builtin_response :: "operation_action \<Rightarrow> command_state \<Rightarrow> command_state" where
  "adapt_builtin_response action s =
     (let awaited = (\<lambda>await_handlers.
            if is_successful s then cs_update (ah_on_success await_handlers) s
            else if is_failed s then on_builtin_failure await_handlers s
            else s)
      in case action of
        BuiltIn exec_handlers await_handlers \<Rightarrow>
          if is_executing s then on_builtin_exec exec_handlers s else awaited await_handlers
      | BuiltInOperation _ exec_handlers \<Rightarrow>
          if is_executing s then on_builtin_exec exec_handlers s else s
      | AwaitOperationCompletion await_handlers _ \<Rightarrow> awaited await_handlers
      | _ \<Rightarrow> s)"

section \<open>Definitions of workflows\<close>

lemma foreign_builtin_None:
  "foreign_builtin main actions = None \<longleftrightarrow> (\<forall>b x. BuiltInOperation b x \<in> set actions \<longrightarrow> b = main)"
proof (induction actions)
  case (Cons action actions)
  then show ?case by (cases action) auto
qed simp

lemma set_update_new: "hm_get m k = None \<Longrightarrow> set (hm_insert k v m) = insert (k, v) (set m)"
  by (induction m) (auto split: if_splits)

lemma or_insert_spec:
  assumes "or_insert k v m = (m', w)"
  shows "hm_get m' = (hm_get m)(k \<mapsto> w)" "w = (case hm_get m k of Some x \<Rightarrow> x | None \<Rightarrow> v)"
    "set m' \<subseteq> insert (k, v) (set m)" "set m \<subseteq> set m'"
  using assms by (auto simp: or_insert_def update_conv' set_update_new fun_eq_iff split: option.splits)

text \<open>
  The definition of a workflow is accepted exactly when it has an initial state, its final states
  are the implied ones if given at all, and it invokes no other built-in operation than its own.  The
  workflow then has the states of the definition, and both final states.
\<close>

lemma workflow_try_new_spec:
  "((\<exists>w. workflow_try_new dbg W operation handlers states = Inr w) \<longleftrightarrow>
     hm_get states ''init'' \<noteq> None
     \<and> hm_get states ''successful'' \<in> {None, Some Clear}
     \<and> hm_get states ''failed'' \<in> {None, Some Clear}
     \<and> (\<forall>b x. BuiltInOperation b x \<in> snd ` set states \<longrightarrow> b = operation_to_str operation))
   \<and> (\<forall>w. workflow_try_new dbg W operation handlers states = Inr w \<longrightarrow>
       wf_operation w = operation \<and> wf_handlers w = handlers
       \<and> hm_get (wf_states w) = (hm_get states)(''successful'' \<mapsto> Clear, ''failed'' \<mapsto> Clear))"
proof -
  obtain m1 a1 where o1: "or_insert ''successful'' Clear states = (m1, a1)" by fastforce
  obtain m2 a2 where o2: "or_insert ''failed'' Clear m1 = (m2, a2)" by fastforce
  note s1 = or_insert_spec [OF o1] and s2 = or_insert_spec [OF o2]
  have a1: "a1 = Clear \<longleftrightarrow> hm_get states ''successful'' \<in> {None, Some Clear}"
    using s1(2) by (auto split: option.splits)
  have a2: "a2 = Clear \<longleftrightarrow> hm_get states ''failed'' \<in> {None, Some Clear}"
    using s2(2) s1(1) by (auto split: option.splits)
  have "BuiltInOperation b x \<in> snd ` set m2 \<longleftrightarrow> BuiltInOperation b x \<in> snd ` set states" for b x
    using s1(3,4) s2(3,4) by force
  then have fb: "foreign_builtin main (map snd m2) = None \<longleftrightarrow>
      (\<forall>b x. BuiltInOperation b x \<in> snd ` set states \<longrightarrow> b = main)" for main
    by (simp add: foreign_builtin_None)
  have def: "workflow_try_new dbg W operation handlers states =
     (if hm_get states ''init'' = None then Inl (MissingState ''init'')
      else if a1 \<noteq> Clear then Inl (InvalidAction ''successful'' (dbg a1))
      else if a2 \<noteq> Clear then Inl (InvalidAction ''failed'' (action_to_str W a2))
      else case foreign_builtin (operation_to_str operation) (map snd m2) of
        Some b \<Rightarrow> Inl (InvalidBuiltinOperation (operation_to_str operation) b)
      | None \<Rightarrow> Inr \<lparr>wf_operation = operation, wf_handlers = handlers, wf_states = m2\<rparr>)"
    by (simp add: workflow_try_new_def o1 o2 hm_contains_def Let_def)
  have get: "a1 = Clear \<Longrightarrow> a2 = Clear \<Longrightarrow>
      hm_get m2 = (hm_get states)(''successful'' \<mapsto> Clear, ''failed'' \<mapsto> Clear)"
    using s1(1) s2(1) by simp
  show ?thesis
    unfolding a1 [symmetric] a2 [symmetric] fb [symmetric] def using get
    by (cases "foreign_builtin (operation_to_str operation) (map snd m2)") auto
qed

definition example_words :: shell_words where
  "example_words = \<lparr>sw_split = (\<lambda>s. Inr (split_on CHR '' '' s)), sw_join = join_with CHR '' ''\<rparr>"

lemma workflow_try_new_spec_instance:
  "\<exists>w. workflow_try_new (\<lambda>_. []) example_words Restart default_handlers_default
      [(''init'', MoveTo update_executing),
       (''executing'', BuiltInOperation ''restart'' exec_builtin_default)] = Inr w
    \<and> hm_get (wf_states w) ''failed'' = Some Clear"
proof -
  let ?states = "[(''init'', MoveTo update_executing),
     (''executing'', BuiltInOperation ''restart'' exec_builtin_default)]"
  obtain w where w: "workflow_try_new (\<lambda>_. []) example_words Restart default_handlers_default ?states = Inr w"
    using conjunct1 [OF workflow_try_new_spec [of "\<lambda>_. []" example_words Restart default_handlers_default ?states]]
    by auto
  then show ?thesis
    using conjunct2 [OF workflow_try_new_spec [of "\<lambda>_. []" example_words Restart default_handlers_default ?states]]
    by auto
qed

text \<open>
  The built-in workflow of an operation is what the checked constructor makes of its three proper
  states: a built-in workflow follows the rules of user-defined workflows.
\<close>

lemma built_in_is_checked:
  "workflow_try_new dbg W operation default_handlers_default
     [(''init'', MoveTo update_scheduled),
      (''scheduled'', BuiltInOperation (operation_to_str operation) exec_builtin_default),
      (''executing'', AwaitOperationCompletion await_builtin_default whole_payload)]
   = Inr (workflow_built_in operation)"
  by (simp add: workflow_try_new_def workflow_built_in_def or_insert_def hm_contains_def update_scheduled_def)

section \<open>Iterations end\<close>

lemma next_index_filter:
  "next_index items i =
     (case filter (\<lambda>j. \<not> item_skipped (items ! j)) [i..<length items] of
        [] \<Rightarrow> None | j # _ \<Rightarrow> Some j)"
proof (induction items i rule: next_index.induct)
  case (1 items i)
  show ?case
  proof (cases "length items \<le> i")
    case False
    then have "[i..<length items] = i # [Suc i..<length items]" by (simp add: upt_conv_Cons)
    with 1 False show ?thesis by (subst next_index.simps) simp
  qed (subst next_index.simps, simp)
qed

text \<open>The state of an iteration over the array of a plain key of the payload.\<close>

definition plain_key :: "string \<Rightarrow> bool" where
  "plain_key k \<longleftrightarrow> k \<notin> {[], ''status'', ''reason'', ''@next''} \<and> set k \<inter> {CHR ''.'', CHR ''['', CHR '']''} = {}"

definition iterating :: "string \<Rightarrow> json list \<Rightarrow> json option \<Rightarrow> command_state \<Rightarrow> bool" where
  "iterating k items current s \<longleftrightarrow>
     (\<exists>m. cs_payload s = JObject m \<and> bt_get m k = Some (JArray items) \<and> bt_get m ''@next'' = current)"

definition iteration_frame :: "json list \<Rightarrow> nat \<Rightarrow> json" where
  "iteration_frame items i = JObject [(''index'', JNumber (PosInt i)), (''item'', items ! i)]"

text \<open>
  The iteration of a workflow: after each item the other steps of the workflow (\<open>body\<close>) change the state
  of the command before the iteration step is reached again.
\<close>

fun iterate_run ::
  "(command_state \<Rightarrow> command_state) \<Rightarrow> string \<Rightarrow> iterate_handlers \<Rightarrow> nat \<Rightarrow> command_state
     \<Rightarrow> (iteration_error + command_state) panics" where
  "iterate_run body path h 0 s = process_iterate path h s"
| "iterate_run body path h (Suc n) s =
     (case process_iterate path h s of
        Some (Inr s') \<Rightarrow> iterate_run body path h n (body s')
      | r \<Rightarrow> r)"

lemma extract_value_plain:
  assumes "iterating k items c s" "plain_key k"
  shows "extract_value s (''.payload.'' @ k) = Some (JArray items)"
proof -
  from assms obtain m where m: "cs_payload s = JObject m" "bt_get m k = Some (JArray items)"
    by (auto simp: iterating_def)
  have "split_once CHR ''.'' k = None" using assms(2) by (simp add: plain_key_def split_once_None_iff)
  then have "json_excerpt (cs_payload s) k = Some (JArray items)"
    using m assms(2) by (subst json_excerpt.simps) (simp add: json_get_def plain_key_def)
  then show ?thesis using assms(2) by (simp add: extract_value_def plain_key_def)
qed

lemma cs_update_status [simp]: "cs_status (cs_update u s) = su_status u"
  by (simp add: cs_update_def)

lemma iterating_cs_update:
  assumes "iterating k items c s" "plain_key k"
  shows "iterating k items c (cs_update u s)"
  using assms by (auto simp: iterating_def cs_update_def inject_reason_def plain_key_def split: option.split)

lemma iterating_fail_with:
  assumes "iterating k items c s" "plain_key k"
  shows "iterating k items c (fail_with r s)"
  using assms by (auto simp: iterating_def fail_with_def plain_key_def)

lemma iterating_next:
  assumes "iterating k items c s" "plain_key k"
  shows "iterating k items (Some v) (update_with_json (JObject [(''@next'', v)]) s)"
proof -
  let ?s = "s\<lparr>cs_payload := merge_json (cs_payload s) (JObject [(''@next'', v)])\<rparr>"
  have it: "iterating k items (Some v) ?s"
    using assms by (auto simp: iterating_def merge_json_def plain_key_def)
  then have "iterating k items (Some v) (?s\<lparr>cs_status := t\<rparr>)" for t by (simp add: iterating_def)
  then show ?thesis
    using iterating_fail_with [OF it assms(2)]
    by (simp add: update_with_json_def Let_def split: option.split)
qed

lemma process_iterate_first:
  assumes "iterating k items None s" "plain_key k" "items \<noteq> []"
  shows "\<exists>s'. process_iterate (''.payload.'' @ k) h s = Some (Inr s')
    \<and> iterating k items (Some (iteration_frame items 0)) s' \<and> cs_status s' = su_status (ih_on_next h)"
proof -
  have "json_get (cs_payload s) ''@next'' = None"
    using assms(1) by (auto simp: iterating_def json_get_def)
  then show ?thesis
    using assms(3) iterating_cs_update [OF iterating_next [OF assms(1,2)] assms(2)]
    unfolding process_iterate_def extract_value_plain [OF assms(1,2)]
    by (simp add: iteration_frame_def)
qed

lemma json_set_frame:
  "json_set ''index'' (JNumber (PosInt j)) (iteration_frame items i) \<bind> json_set ''item'' (items ! j)
     = Some (iteration_frame items j)"
  by (simp add: iteration_frame_def)

lemma process_iterate_next:
  assumes "iterating k items (Some (iteration_frame items i)) s" "plain_key k" "i < length items"
  shows "case next_index items (Suc i) of
      None \<Rightarrow> process_iterate (''.payload.'' @ k) h s = Some (Inr (cs_update (ih_on_success h) s))
    | Some j \<Rightarrow> \<exists>s'. process_iterate (''.payload.'' @ k) h s = Some (Inr s')
        \<and> iterating k items (Some (iteration_frame items j)) s' \<and> cs_status s' = su_status (ih_on_next h)"
proof -
  have next_item: "json_get (cs_payload s) ''@next'' = Some (iteration_frame items i)"
    using assms(1) by (auto simp: iterating_def json_get_def)
  have index: "json_get (iteration_frame items i) ''index'' \<bind> as_u64 = Some i"
    by (simp add: iteration_frame_def json_get_def)
  have items: "items \<noteq> []" using assms(3) by auto
  show ?thesis
  proof (cases "next_index items (Suc i)")
    case None
    then show ?thesis
      using items assms(3) unfolding process_iterate_def extract_value_plain [OF assms(1,2)]
      by (simp add: next_item index Let_def)
  next
    case (Some j)
    have "process_iterate (''.payload.'' @ k) h s = Some (Inr (cs_update (ih_on_next h)
        (update_with_json (JObject [(''@next'', iteration_frame items j)]) s)))"
      using items assms(3) Some json_set_frame [of j items i]
      unfolding process_iterate_def extract_value_plain [OF assms(1,2)]
      by (simp add: next_item index Let_def) (auto split: bind_splits)
    then show ?thesis
      using Some iterating_cs_update [OF iterating_next [OF assms(1,2)] assms(2)] by simp
  qed
qed

lemma filter_upt_Cons:
  "filter P [a..<n] = j # vs \<Longrightarrow> vs = filter P [Suc j..<n] \<and> j < n"
proof (induction "n - a" arbitrary: a)
  case (Suc d)
  then have "[a..<n] = a # [Suc a..<n]" "d = n - Suc a" by (simp_all add: upt_conv_Cons)
  with Suc show ?case by (auto split: if_splits)
qed simp

lemma iterate_from:
  assumes body: "\<And>s c. iterating k items c s \<Longrightarrow> iterating k items c (body s)" and k: "plain_key k"
  shows "iterating k items (Some (iteration_frame items i)) s \<Longrightarrow> i < length items \<Longrightarrow>
    vs = filter (\<lambda>j. \<not> item_skipped (items ! j)) [Suc i..<length items] \<Longrightarrow>
    (\<forall>j < length vs. \<exists>s'. iterate_run body (''.payload.'' @ k) h j s = Some (Inr s')
        \<and> iterating k items (Some (iteration_frame items (vs ! j))) s' \<and> cs_status s' = su_status (ih_on_next h))
    \<and> (\<exists>s'. iterate_run body (''.payload.'' @ k) h (length vs) s = Some (Inr s')
        \<and> cs_status s' = su_status (ih_on_success h))"
proof (induction vs arbitrary: i s)
  case Nil
  then have "next_index items (Suc i) = None" by (simp add: next_index_filter split: list.split)
  then show ?case using process_iterate_next [OF Nil(1) k Nil(2), of h] by simp
next
  case (Cons v vs)
  have rest: "v < length items" "vs = filter (\<lambda>j. \<not> item_skipped (items ! j)) [Suc v..<length items]"
    using filter_upt_Cons [OF Cons(4) [symmetric]] by blast+
  have "next_index items (Suc i) = Some v"
    unfolding next_index_filter Cons(4) [symmetric] by simp
  then obtain s' where s': "process_iterate (''.payload.'' @ k) h s = Some (Inr s')"
    "iterating k items (Some (iteration_frame items v)) s'" "cs_status s' = su_status (ih_on_next h)"
    using process_iterate_next [OF Cons(2) k Cons(3), of h] by auto
  from Cons.IH [OF body [OF s'(2)] rest] s' show ?case
    by (auto simp: less_Suc_eq_0_disj)
qed

text \<open>
  C8. An iteration ends, and visits every item that is not skipped exactly once, in order, whatever the
  workflow does with the rest of the payload meanwhile: the first item first (also when it is marked as
  skipped), each following item in the \<^verbatim>\<open>@next\<close> fragment with its index, then the success handler.
\<close>

theorem iteration_visits_items:
  fixes items h
  defines "visited \<equiv> 0 # filter (\<lambda>j. \<not> item_skipped (items ! j)) [1..<length items]"
  assumes "iterating k items None s" "plain_key k" "items \<noteq> []"
    and "\<And>s c. iterating k items c s \<Longrightarrow> iterating k items c (body s)"
  shows "(\<forall>j < length visited. \<exists>s'. iterate_run body (''.payload.'' @ k) h j s = Some (Inr s')
        \<and> iterating k items (Some (iteration_frame items (visited ! j))) s'
        \<and> cs_status s' = su_status (ih_on_next h))
    \<and> (\<exists>s'. iterate_run body (''.payload.'' @ k) h (length visited) s = Some (Inr s')
        \<and> cs_status s' = su_status (ih_on_success h))"
proof -
  obtain s' where s': "process_iterate (''.payload.'' @ k) h s = Some (Inr s')"
    "iterating k items (Some (iteration_frame items 0)) s'" "cs_status s' = su_status (ih_on_next h)"
    using process_iterate_first [OF assms(2-4)] by blast
  have "0 < length items" using assms(4) by simp
  from iterate_from [where body = body and k = k and items = items, OF assms(5) assms(3)
      assms(5) [OF s'(2)] this refl] s'
  show ?thesis by (auto simp: visited_def less_Suc_eq_0_disj)
qed


definition example_iteration :: command_state where
  "example_iteration =
     \<lparr>cs_topic = \<lparr>topic_name = ''te/device/main///cmd/profile/1''\<rparr>, cs_status = ''next'',
      cs_payload = JObject [(''operations'', JArray [JString ''a'', JObject [(''@skip'', JBool True)], JString ''b'']),
        (''status'', JString ''next'')],
      cs_invoking = None\<rparr>"

theorem iteration_visits_items_witness:
  "\<exists>s'. iterate_run (cs_update (update_to ''next'')) ''.payload.operations''
      (iterate_handlers_new (update_to ''apply'') update_successful update_unknown_error) 1 example_iteration
        = Some (Inr s')
    \<and> cs_status s' = ''apply''
    \<and> iterating ''operations'' [JString ''a'', JObject [(''@skip'', JBool True)], JString ''b'']
        (Some (JObject [(''index'', JNumber (PosInt 2)), (''item'', JString ''b'')])) s'"
proof -
  let ?items = "[JString ''a'', JObject [(''@skip'', JBool True)], JString ''b'']"
  let ?h = "iterate_handlers_new (update_to ''apply'') update_successful update_unknown_error"
  have key: "plain_key ''operations''" by (simp add: plain_key_def)
  have start: "iterating ''operations'' ?items None example_iteration"
    by (simp add: iterating_def example_iteration_def)
  have visited: "0 # filter (\<lambda>j. \<not> item_skipped (?items ! j)) [1..<length ?items] = [0, 2]"
    by (simp add: upt_rec item_skipped_def json_get_def)
  have frame: "iteration_frame ?items 2 = JObject [(''index'', JNumber (PosInt 2)), (''item'', JString ''b'')]"
    by (simp add: iteration_frame_def)
  have applied: "cs_status s' = su_status (ih_on_next ?h) \<Longrightarrow> cs_status s' = ''apply''" for s' :: command_state
    by (simp add: iterate_handlers_new_def update_to_def)
  have nonempty: "?items \<noteq> []" by simp
  have body: "iterating ''operations'' ?items c (cs_update (update_to ''next'') s)"
    if "iterating ''operations'' ?items c s" for s c
    using iterating_cs_update [OF that key] .
  show ?thesis
    unfolding frame [symmetric]
    using conjunct1 [OF iteration_visits_items [where h = ?h and body = "cs_update (update_to ''next'')",
        OF start key nonempty body, unfolded visited]] applied
    by (auto dest!: spec [of _ 1])
qed

end
