(* ===== verification/Supervisor.thy ===== *)
theory Supervisor
  imports Workflow
begin

text \<open>
  The supervisor of operation workflows (\<^verbatim>\<open>tedge_api/src/workflow/supervisor.rs\<close>) and the file format of
  its command board (\<^verbatim>\<open>on_disk.rs\<close>): the versions of each workflow, the commands under execution, the
  action of each command, and what is resumed when the agent restarts.  The operations of the \<^verbatim>\<open>time\<close>
  package on timestamps are parameters, and so is the debug text of an error; the current time is an
  input of the operations that read the clock.
\<close>

type_synonym timestamp = int

record time_lib =
  unix_timestamp :: "timestamp \<Rightarrow> int"
  millisecond :: "timestamp \<Rightarrow> nat"
  from_unix_timestamp :: "int \<Rightarrow> timestamp option"

definition time_rule :: "time_lib \<Rightarrow> bool" where
  "time_rule T \<longleftrightarrow> (\<forall>x t. from_unix_timestamp T x = Some t \<longrightarrow> unix_timestamp T t = x)
     \<and> (\<forall>t. from_unix_timestamp T (unix_timestamp T t) \<noteq> None)"

section \<open>Versions of a workflow\<close>

record workflow_versions =
  wv_operation :: operation_name
  wv_current :: "(string \<times> operation_workflow) option"
  wv_in_use :: "(string, operation_workflow) hmap"

datatype 'a workflow_source = BuiltInSource | UserDefined 'a | InUseCopy 'a

fun source_inner :: "'a workflow_source \<Rightarrow> 'a option" where
  "source_inner BuiltInSource = None"
| "source_inner (UserDefined inner) = Some inner"
| "source_inner (InUseCopy inner) = Some inner"

fun source_set_inner :: "'a workflow_source \<Rightarrow> 'b \<Rightarrow> 'b workflow_source" where
  "source_set_inner BuiltInSource target = BuiltInSource"
| "source_set_inner (UserDefined _) target = UserDefined target"
| "source_set_inner (InUseCopy _) target = InUseCopy target"

definition versions_new :: "string workflow_source \<Rightarrow> operation_workflow \<Rightarrow> workflow_versions" where
  "versions_new source workflow =
     (let operation = operation_to_str (wf_operation workflow);
          (current, in_use) =
            (case source of
               BuiltInSource \<Rightarrow> (None, [(''builtin'', workflow)])
             | UserDefined version \<Rightarrow> (Some (version, workflow), [])
             | InUseCopy version \<Rightarrow> (None, [(version, workflow)]))
      in \<lparr>wv_operation = operation, wv_current = current, wv_in_use = in_use\<rparr>)"

definition versions_add ::
  "string workflow_source \<Rightarrow> operation_workflow \<Rightarrow> workflow_versions \<Rightarrow> workflow_versions" where
  "versions_add source workflow vs =
     (case source of
        BuiltInSource \<Rightarrow> vs\<lparr>wv_in_use := hm_insert ''builtin'' workflow (wv_in_use vs)\<rparr>
      | UserDefined version \<Rightarrow> vs\<lparr>wv_current := Some (version, workflow)\<rparr>
      | InUseCopy version \<Rightarrow> vs\<lparr>wv_in_use := hm_insert version workflow (wv_in_use vs)\<rparr>)"

definition versions_use_current :: "workflow_versions \<Rightarrow> string option \<times> workflow_versions" where
  "versions_use_current vs =
     (case wv_current vs of
        Some (version, workflow) \<Rightarrow>
          (Some version,
           if hm_contains (wv_in_use vs) version then vs
           else vs\<lparr>wv_in_use := hm_insert version workflow (wv_in_use vs)\<rparr>)
      | None \<Rightarrow> (if hm_contains (wv_in_use vs) ''builtin'' then Some ''builtin'' else None, vs))"

definition versions_remove :: "string \<Rightarrow> workflow_versions \<Rightarrow> workflow_versions" where
  "versions_remove version vs =
     (if map_option (\<lambda>(v, _). v = version) (wv_current vs) = Some True then vs\<lparr>wv_current := None\<rparr>
      else if version \<noteq> ''builtin'' then vs\<lparr>wv_in_use := hm_remove version (wv_in_use vs)\<rparr>
      else vs)"

definition versions_is_empty :: "workflow_versions \<Rightarrow> bool" where
  "versions_is_empty vs \<longleftrightarrow> wv_in_use vs = []"

definition versions_is_builtin :: "workflow_versions \<Rightarrow> bool" where
  "versions_is_builtin vs \<longleftrightarrow> hm_contains (wv_in_use vs) ''builtin''"

definition versions_get ::
  "workflow_versions \<Rightarrow> string \<Rightarrow> workflow_execution_error + operation_workflow" where
  "versions_get vs version =
     (case hm_get (wv_in_use vs) version of
        Some w \<Rightarrow> Inr w
      | None \<Rightarrow> Inl (UnknownVersion (wv_operation vs) version))"

definition current_workflow :: "workflow_versions \<Rightarrow> operation_workflow option" where
  "current_workflow vs =
     (case wv_current vs of
        Some (_, workflow) \<Rightarrow> Some workflow
      | None \<Rightarrow> hm_get (wv_in_use vs) ''builtin'')"

section \<open>Commands under execution\<close>

type_synonym command_board = "(string, timestamp \<times> command_state) hmap"

definition board_get_state :: "command_board \<Rightarrow> string \<Rightarrow> (timestamp \<times> command_state) option" where
  "board_get_state b command = hm_get b command"

definition lookup_sub_command :: "command_board \<Rightarrow> string \<Rightarrow> command_state option" where
  "lookup_sub_command b command_topic =
     map_option snd (find (\<lambda>(_, command). cs_invoking command = Some command_topic) (map snd b))"

definition board_insert ::
  "timestamp \<Rightarrow> command_state \<Rightarrow> command_board \<Rightarrow> (workflow_execution_error + unit) \<times> command_board" where
  "board_insert now new_command b =
     (let name = topic_name (cs_topic new_command) in
      case hm_get b name of
        Some (_, command) \<Rightarrow>
          if command = new_command then (Inr (), b) else (Inl (DuplicatedRequest name), b)
      | None \<Rightarrow> (Inr (), hm_insert name (now, new_command) b))"

definition board_update ::
  "timestamp \<Rightarrow> command_state \<Rightarrow> command_board \<Rightarrow> (workflow_execution_error + unit) \<times> command_board" where
  "board_update now updated_command b =
     (let name = topic_name (cs_topic updated_command) in
      case hm_get b name of
        None \<Rightarrow> (Inl (UnknownRequest name), b)
      | Some _ \<Rightarrow> (Inr (), hm_insert name (now, updated_command) b))"

definition board_remove :: "string \<Rightarrow> command_board \<Rightarrow> command_board" where
  "board_remove name b = hm_remove name b"

section \<open>The supervisor\<close>

record supervisor =
  sup_workflows :: "(operation_type, workflow_versions) hmap"
  sup_commands :: command_board

definition supervisor_default :: supervisor where
  "supervisor_default = \<lparr>sup_workflows = [], sup_commands = []\<rparr>"

datatype workflow_registration_error = DuplicatedWorkflow string

definition register_custom_workflow ::
  "string workflow_source \<Rightarrow> operation_workflow \<Rightarrow> supervisor
     \<Rightarrow> (workflow_registration_error + unit) \<times> supervisor" where
  "register_custom_workflow version workflow s =
     (let operation = wf_operation workflow;
          versions = (case hm_get (sup_workflows s) operation of
              Some versions \<Rightarrow> versions_add version workflow versions
            | None \<Rightarrow> versions_new version workflow)
      in (Inr (), s\<lparr>sup_workflows := hm_insert operation versions (sup_workflows s)\<rparr>))"

definition register_builtin_workflow ::
  "operation_type \<Rightarrow> supervisor \<Rightarrow> (workflow_registration_error + unit) \<times> supervisor" where
  "register_builtin_workflow operation s =
     register_custom_workflow BuiltInSource (workflow_built_in operation) s"

definition unregister_custom_workflow ::
  "operation_name \<Rightarrow> string \<Rightarrow> supervisor \<Rightarrow> bool \<times> supervisor" where
  "unregister_custom_workflow operation version s =
     (let operation = operation_of_str operation;
          workflows = (case hm_get (sup_workflows s) operation of
              Some versions \<Rightarrow> hm_insert operation (versions_remove version versions) (sup_workflows s)
            | None \<Rightarrow> sup_workflows s);
          (empty, builtin_restored) =
            (case hm_get workflows operation of
               None \<Rightarrow> (True, False)
             | Some versions \<Rightarrow>
                 if versions_is_empty versions then (True, False)
                 else if versions_is_builtin versions then (False, True)
                 else (False, False))
      in (builtin_restored,
          s\<lparr>sup_workflows := if empty then hm_remove operation workflows else workflows\<rparr>))"

definition use_current_version :: "operation_name \<Rightarrow> supervisor \<Rightarrow> string option \<times> supervisor" where
  "use_current_version operation s =
     (let operation = operation_of_str operation in
      case hm_get (sup_workflows s) operation of
        None \<Rightarrow> (None, s)
      | Some versions \<Rightarrow>
          let (version, versions) = versions_use_current versions in
          (version, s\<lparr>sup_workflows := hm_insert operation versions (sup_workflows s)\<rparr>))"

definition apply_external_update ::
  "timestamp \<Rightarrow> operation_type \<Rightarrow> command_state \<Rightarrow> supervisor
     \<Rightarrow> (workflow_execution_error + command_state option) \<times> supervisor" where
  "apply_external_update now operation command s =
     (case hm_get (sup_workflows s) operation of
        None \<Rightarrow> (Inl (UnknownOperation (operation_to_str operation)), s)
      | Some versions \<Rightarrow>
          if is_cleared command then
            (Inr (Some command),
             s\<lparr>sup_commands := board_remove (topic_name (cs_topic command)) (sup_commands s)\<rparr>)
          else if is_init command then
            let (current, versions) = versions_use_current versions;
                s = s\<lparr>sup_workflows := hm_insert operation versions (sup_workflows s)\<rparr>
            in (case current of
                  Some current_version \<Rightarrow>
                    let updated = with_workflow_version current_version command;
                        (r, board) = board_insert now updated (sup_commands s);
                        s = s\<lparr>sup_commands := board\<rparr>
                    in (case r of Inl err \<Rightarrow> (Inl err, s) | Inr _ \<Rightarrow> (Inr (Some updated), s))
                | None \<Rightarrow> (Inl (DeprecatedOperation (operation_to_str operation)), s))
          else (Inr None, s))"

definition apply_internal_update ::
  "timestamp \<Rightarrow> command_state \<Rightarrow> supervisor \<Rightarrow> (workflow_execution_error + unit) \<times> supervisor" where
  "apply_internal_update now command s =
     (if is_cleared command then
        (Inr (), s\<lparr>sup_commands := board_remove (topic_name (cs_topic command)) (sup_commands s)\<rparr>)
      else
        let (r, board) = board_update now command (sup_commands s) in
        (r, s\<lparr>sup_commands := board\<rparr>))"

definition get_action ::
  "serde \<Rightarrow> supervisor \<Rightarrow> command_state \<Rightarrow> workflow_execution_error + operation_action" where
  "get_action J s command =
     (case cs_operation command of
        None \<Rightarrow> Inl (InvalidCmdTopic (topic_name (cs_topic command)))
      | Some operation_name \<Rightarrow>
          (case workflow_version command of
             None \<Rightarrow> Inl MissingVersion
           | Some version \<Rightarrow>
               (case hm_get (sup_workflows s) (operation_of_str operation_name) of
                  None \<Rightarrow> Inl (UnknownOperation operation_name)
                | Some versions \<Rightarrow>
                    (case versions_get versions version of
                       Inl err \<Rightarrow> Inl err
                     | Inr workflow \<Rightarrow> workflow_get_action J workflow command))))"

definition get_state :: "supervisor \<Rightarrow> string \<Rightarrow> command_state option" where
  "get_state s command = map_option snd (board_get_state (sup_commands s) command)"

definition supervisor_adapt_builtin_response ::
  "serde \<Rightarrow> supervisor \<Rightarrow> command_state \<Rightarrow> command_state" where
  "supervisor_adapt_builtin_response J s command =
     (case get_state s (topic_name (cs_topic command)) of
        Some current_state \<Rightarrow>
          let new_state = merge_into command current_state in
          (case get_action J s current_state of
             Inr current_action \<Rightarrow> adapt_builtin_response current_action new_state
           | Inl _ \<Rightarrow> new_state)
      | None \<Rightarrow> command)"

definition invoking_command_state :: "supervisor \<Rightarrow> command_state \<Rightarrow> command_state option" where
  "invoking_command_state s sub_command = cs_invoking sub_command \<bind> get_state s"

definition sub_command_state :: "supervisor \<Rightarrow> command_state \<Rightarrow> command_state option" where
  "sub_command_state s command = lookup_sub_command (sup_commands s) (topic_name (cs_topic command))"

text \<open>The recursion follows the topics of the board; it does not return on a cycle of invoking topics.\<close>

partial_function (option) root_invoking_command_state ::
  "supervisor \<Rightarrow> command_state \<Rightarrow> command_state option option" where
  "root_invoking_command_state s leaf_command =
     (case invoking_command_state s leaf_command of
        None \<Rightarrow> Some None
      | Some invoking_command \<Rightarrow>
          Option.bind (root_invoking_command_state s invoking_command)
            (\<lambda>root. Some (Some (case root of Some root_command \<Rightarrow> root_command
                                       | None \<Rightarrow> invoking_command))))"

declare root_invoking_command_state.simps [code]

section \<open>Restarts\<close>

definition resume_command ::
  "serde \<Rightarrow> time_lib \<Rightarrow> (workflow_execution_error \<Rightarrow> string) \<Rightarrow> supervisor \<Rightarrow> timestamp \<Rightarrow> command_state
     \<Rightarrow> command_state option" where
  "resume_command J T dbg s t command =
     (case get_action J s command of
        Inl err \<Rightarrow> Some (fail_with (''Fail to resume on start: '' @ dbg err) command)
      | Inr action \<Rightarrow>
          let epoch = decimal_int (unix_timestamp T t) @ ''.'' @ decimal (millisecond T t);
              command = with_key_value ''resumed_at'' epoch command
          in (case action of
                AwaitingAgentRestart handlers \<Rightarrow> Some (cs_update (ah_on_success handlers) command)
              | _ \<Rightarrow> Some command))"

definition load_pending_commands ::
  "serde \<Rightarrow> time_lib \<Rightarrow> (workflow_execution_error \<Rightarrow> string) \<Rightarrow> command_board \<Rightarrow> supervisor
     \<Rightarrow> command_state list \<times> supervisor" where
  "load_pending_commands J T dbg commands s =
     (let s = s\<lparr>sup_commands := commands\<rparr>
      in (List.map_filter (\<lambda>(t, command). resume_command J T dbg s t command) (map snd (sup_commands s)), s))"

section \<open>Capabilities\<close>

fun map_panics :: "('a \<Rightarrow> 'b panics) \<Rightarrow> 'a list \<Rightarrow> 'b list panics" where
  "map_panics f [] = Some []"
| "map_panics f (x # xs) = do { y \<leftarrow> f x; ys \<leftarrow> map_panics f xs; Some (y # ys) }"

definition capability_messages ::
  "rumqttc \<Rightarrow> mqtt_schema \<Rightarrow> entity_topic_id \<Rightarrow> supervisor \<Rightarrow> mqtt_message list panics" where
  "capability_messages L S target s =
     (let operations = List.map_filter current_workflow (map snd (sup_workflows s));
          operations = sort_key (\<lambda>w. operation_to_str (wf_operation w)) operations
      in map_option (List.map_filter id) (map_panics (capability_message L S target) operations))"

definition supervisor_capability_message ::
  "rumqttc \<Rightarrow> mqtt_schema \<Rightarrow> entity_topic_id \<Rightarrow> operation_name \<Rightarrow> supervisor
     \<Rightarrow> mqtt_message option panics" where
  "supervisor_capability_message L S target operation s =
     (case hm_get (sup_workflows s) (operation_of_str operation) \<bind> current_workflow of
        None \<Rightarrow> Some None
      | Some workflow \<Rightarrow> capability_message L S target workflow)"

definition deregistration_message ::
  "rumqttc \<Rightarrow> mqtt_schema \<Rightarrow> entity_topic_id \<Rightarrow> operation_name \<Rightarrow> mqtt_message panics" where
  "deregistration_message L S target operation = do {
     t \<leftarrow> topic_for L S target (CommandMetadata (operation_of_str operation));
     Some \<lparr>mm_topic = t, mm_payload = [], mm_qos = AtLeastOnce, mm_retain = True\<rparr> }"

section \<open>The board on disk\<close>

record on_disk_state =
  od_unix_timestamp :: int
  od_status :: string
  od_payload :: json

datatype on_disk_board = V1 "(string, on_disk_state) hmap"

datatype board_error = InvalidTimestamp int | InvalidTopic string

definition board_to_disk :: "time_lib \<Rightarrow> command_board \<Rightarrow> on_disk_board" where
  "board_to_disk T b =
     V1 (fold (\<lambda>(t, s). hm_insert (topic_name (cs_topic s))
            \<lparr>od_unix_timestamp = unix_timestamp T t, od_status = cs_status s, od_payload = cs_payload s\<rparr>)
          (map snd b) [])"

fun board_of_entries ::
  "rumqttc \<Rightarrow> time_lib \<Rightarrow> (string \<times> on_disk_state) list \<Rightarrow> command_board
     \<Rightarrow> (board_error + command_board) panics" where
  "board_of_entries L T [] commands = Some (Inr commands)"
| "board_of_entries L T ((name, command) # rest) commands =
     (case topic_new L name of
        Inl _ \<Rightarrow> Some (Inl (InvalidTopic name))
      | Inr t \<Rightarrow>
          (case from_unix_timestamp T (od_unix_timestamp command) of
             None \<Rightarrow> Some (Inl (InvalidTimestamp (od_unix_timestamp command)))
           | Some ts \<Rightarrow> do {
               state \<leftarrow> command_state_new L t (od_status command) (od_payload command);
               board_of_entries L T rest (hm_insert name (ts, state) commands) }))"

definition board_of_disk ::
  "rumqttc \<Rightarrow> time_lib \<Rightarrow> on_disk_board \<Rightarrow> (board_error + command_board) panics" where
  "board_of_disk L T d = (case d of V1 entries \<Rightarrow> board_of_entries L T entries [])"

section \<open>Reachable supervisors\<close>

text \<open>
  What the agent asks of its supervisor: all the operations that change it, in any order.  The commands
  are those read from the messages of their topics, and the board that is loaded is one that was written
  by a supervisor (lemma \<^verbatim>\<open>written_board_named\<close>).
\<close>

datatype supervisor_event =
    RegisterEvent "string workflow_source" operation_workflow
  | BuiltinEvent operation_type
  | UnregisterEvent operation_name string
  | UseEvent operation_name
  | ExternalEvent timestamp operation_name command_state
  | InternalEvent timestamp command_state
  | LoadEvent serde time_lib "workflow_execution_error \<Rightarrow> string" command_board

fun supervisor_step :: "supervisor_event \<Rightarrow> supervisor \<Rightarrow> supervisor" where
  "supervisor_step (RegisterEvent version workflow) s = snd (register_custom_workflow version workflow s)"
| "supervisor_step (BuiltinEvent operation) s = snd (register_builtin_workflow operation s)"
| "supervisor_step (UnregisterEvent operation version) s = snd (unregister_custom_workflow operation version s)"
| "supervisor_step (UseEvent operation) s = snd (use_current_version operation s)"
| "supervisor_step (ExternalEvent now op c) s = snd (apply_external_update now (operation_of_str op) c s)"
| "supervisor_step (InternalEvent now c) s = snd (apply_internal_update now c s)"
| "supervisor_step (LoadEvent J T dbg b) s = snd (load_pending_commands J T dbg b s)"

definition board_named :: "rumqttc \<Rightarrow> command_board \<Rightarrow> bool" where
  "board_named L b \<longleftrightarrow> hm_wf b \<and> (\<forall>k t c. hm_get b k = Some (t, c) \<longrightarrow> topic_name (cs_topic c) = k \<and> cs_wf L c)"

fun event_ok :: "rumqttc \<Rightarrow> supervisor_event \<Rightarrow> bool" where
  "event_ok L (ExternalEvent now op c) \<longleftrightarrow> is_cleared c \<or> cs_wf L c"
| "event_ok L (InternalEvent now c) \<longleftrightarrow> is_cleared c \<or> cs_wf L c"
| "event_ok L (LoadEvent J T dbg b) \<longleftrightarrow> board_named L b"
| "event_ok L _ \<longleftrightarrow> True"

inductive supervised :: "rumqttc \<Rightarrow> supervisor \<Rightarrow> bool" for L where
  start: "supervised L supervisor_default"
| step: "supervised L s \<Longrightarrow> event_ok L e \<Longrightarrow> supervised L (supervisor_step e s)"

definition version_unused :: "supervisor \<Rightarrow> operation_name \<Rightarrow> string \<Rightarrow> bool" where
  "version_unused s operation version \<longleftrightarrow>
     (\<forall>c \<in> snd ` snd ` set (sup_commands s).
        cs_operation c \<noteq> Some operation \<or> workflow_version c \<noteq> Some version)"

definition is_current_version :: "supervisor \<Rightarrow> operation_name \<Rightarrow> string \<Rightarrow> bool" where
  "is_current_version s operation version \<longleftrightarrow>
     (case hm_get (sup_workflows s) (operation_of_str operation) of
        None \<Rightarrow> False
      | Some vs \<Rightarrow> map_option fst (wv_current vs) = Some version)"

definition versions_of :: "operation_type \<Rightarrow> workflow_versions \<Rightarrow> bool" where
  "versions_of op vs \<longleftrightarrow> wv_operation vs = operation_to_str op
     \<and> (\<forall>v w. hm_get (wv_in_use vs) v = Some w \<longrightarrow> wf_operation w = op)
     \<and> (\<forall>v w. wv_current vs = Some (v, w) \<longrightarrow> wf_operation w = op)"

definition workflows_wf :: "supervisor \<Rightarrow> bool" where
  "workflows_wf s \<longleftrightarrow> (\<forall>op vs. hm_get (sup_workflows s) op = Some vs \<longrightarrow> versions_of op vs)"

definition in_use :: "supervisor \<Rightarrow> operation_type \<Rightarrow> string \<rightharpoonup> operation_workflow" where
  "in_use s op = (case hm_get (sup_workflows s) op of None \<Rightarrow> Map.empty | Some vs \<Rightarrow> hm_get (wv_in_use vs))"

definition command_ready :: "supervisor \<Rightarrow> command_state \<Rightarrow> bool" where
  "command_ready s c \<longleftrightarrow>
     (\<exists>op v. cs_operation c = Some op \<and> workflow_version c = Some v \<and> in_use s (operation_of_str op) v \<noteq> None)"

definition board_wf :: "rumqttc \<Rightarrow> supervisor \<Rightarrow> bool" where
  "board_wf L s \<longleftrightarrow> hm_wf (sup_commands s)
     \<and> (\<forall>k t c. hm_get (sup_commands s) k = Some (t, c) \<longrightarrow>
          k = topic_name (cs_topic c) \<and> cs_wf L c \<and> command_ready s c)"

lemma board_wfI:
  assumes "hm_wf (sup_commands s)"
    and "\<And>k t c. hm_get (sup_commands s) k = Some (t, c)
      \<Longrightarrow> k = topic_name (cs_topic c) \<and> cs_wf L c \<and> command_ready s c"
  shows "board_wf L s"
  using assms by (auto simp: board_wf_def)

lemma board_wfD:
  assumes "board_wf L s" "hm_get (sup_commands s) k = Some (t, c)"
  shows "k = topic_name (cs_topic c)" "cs_wf L c" "command_ready s c"
  using assms by (auto simp: board_wf_def)

text \<open>Registrations and uses of a version only add versions.\<close>

definition grows :: "supervisor \<Rightarrow> supervisor \<Rightarrow> bool" where
  "grows s s' \<longleftrightarrow> sup_commands s' = sup_commands s
     \<and> (\<forall>op. dom (in_use s op) \<subseteq> dom (in_use s' op))"

lemma command_ready_grows: "grows s s' \<Longrightarrow> command_ready s c \<Longrightarrow> command_ready s' c"
  unfolding grows_def command_ready_def by (meson domIff subsetD)

lemma board_wf_grows: "board_wf L s \<Longrightarrow> grows s s' \<Longrightarrow> board_wf L s'"
  using command_ready_grows [of s s'] unfolding board_wf_def grows_def by metis

lemma in_use_insert:
  "in_use (s\<lparr>sup_workflows := hm_insert op vs m\<rparr>) = (in_use (s\<lparr>sup_workflows := m\<rparr>))(op := hm_get (wv_in_use vs))"
  by (auto simp: in_use_def update_conv' fun_eq_iff)

lemma versions_of_new: "wf_operation workflow = op \<Longrightarrow> versions_of op (versions_new version workflow)"
  by (cases version) (auto simp: versions_new_def versions_of_def split: if_splits)

lemma versions_of_add:
  "versions_of op vs \<Longrightarrow> wf_operation workflow = op \<Longrightarrow> versions_of op (versions_add version workflow vs)"
  by (cases version) (auto simp: versions_add_def versions_of_def update_conv')

lemma versions_add_in_use:
  "dom (hm_get (wv_in_use vs)) \<subseteq> dom (hm_get (wv_in_use (versions_add version workflow vs)))"
  by (cases version) (auto simp: versions_add_def update_conv')

lemma versions_of_remove: "versions_of op vs \<Longrightarrow> versions_of op (versions_remove v vs)"
  by (auto simp: versions_of_def versions_remove_def delete_conv' split: if_splits)

lemma versions_use_current_spec:
  assumes "versions_use_current vs = (v, vs')"
  shows "wv_operation vs' = wv_operation vs" "wv_current vs' = wv_current vs"
    "hm_get (wv_in_use vs') =
       (case wv_current vs of
          Some (u, w) \<Rightarrow> (hm_get (wv_in_use vs))(u \<mapsto> (case hm_get (wv_in_use vs) u of Some x \<Rightarrow> x | None \<Rightarrow> w))
        | None \<Rightarrow> hm_get (wv_in_use vs))"
    "v = (case wv_current vs of Some (u, _) \<Rightarrow> Some u
          | None \<Rightarrow> map_option (\<lambda>_. ''builtin'') (hm_get (wv_in_use vs) ''builtin''))"
  using assms
  by (auto simp: versions_use_current_def hm_contains_def update_conv' fun_eq_iff split: option.splits if_splits)

lemma versions_use_current_ready:
  assumes "versions_use_current vs = (Some v, vs')"
  shows "hm_get (wv_in_use vs') v \<noteq> None"
  using versions_use_current_spec(3,4) [OF assms]
  by (cases "wv_current vs"; cases "hm_get (wv_in_use vs) ''builtin''") (auto split: option.splits)

lemma versions_of_use_current:
  assumes "versions_of op vs" "versions_use_current vs = (v, vs')"
  shows "versions_of op vs'" "dom (hm_get (wv_in_use vs)) \<subseteq> dom (hm_get (wv_in_use vs'))"
  using assms(1) versions_use_current_spec [OF assms(2)]
  by (auto simp: versions_of_def split: option.splits)

text \<open>Replacing the versions of an operation by more versions.\<close>

lemma insert_versions_keeps:
  assumes "workflows_wf s" "versions_of op vs'"
    and "\<And>vs. hm_get (sup_workflows s) op = Some vs \<Longrightarrow> dom (hm_get (wv_in_use vs)) \<subseteq> dom (hm_get (wv_in_use vs'))"
  shows "grows s (s\<lparr>sup_workflows := hm_insert op vs' (sup_workflows s)\<rparr>)
    \<and> workflows_wf (s\<lparr>sup_workflows := hm_insert op vs' (sup_workflows s)\<rparr>)"
proof
  have "dom (in_use s op') \<subseteq> dom (in_use (s\<lparr>sup_workflows := hm_insert op vs' (sup_workflows s)\<rparr>) op')" for op'
    using assms(3) by (cases "op' = op"; cases "hm_get (sup_workflows s) op'") (auto simp: in_use_def update_conv')
  then show "grows s (s\<lparr>sup_workflows := hm_insert op vs' (sup_workflows s)\<rparr>)" by (simp add: grows_def)
  show "workflows_wf (s\<lparr>sup_workflows := hm_insert op vs' (sup_workflows s)\<rparr>)"
    using assms(1,2) by (auto simp: workflows_wf_def update_conv')
qed

lemma register_keeps:
  assumes "workflows_wf s"
  shows "grows s (snd (register_custom_workflow version workflow s))
    \<and> workflows_wf (snd (register_custom_workflow version workflow s))"
proof (cases "hm_get (sup_workflows s) (wf_operation workflow)")
  case None
  then show ?thesis
    using insert_versions_keeps [OF assms versions_of_new [where workflow = workflow and version = version, OF refl]]
    by (simp add: register_custom_workflow_def)
next
  case (Some vs)
  then have "versions_of (wf_operation workflow) vs" using assms by (simp add: workflows_wf_def)
  from insert_versions_keeps [OF assms versions_of_add [OF this refl]] Some versions_add_in_use
  show ?thesis by (simp add: register_custom_workflow_def)
qed

lemma use_current_keeps:
  assumes "workflows_wf s" "hm_get (sup_workflows s) op = Some vs" "versions_use_current vs = (v, vs')"
  shows "grows s (s\<lparr>sup_workflows := hm_insert op vs' (sup_workflows s)\<rparr>)
    \<and> workflows_wf (s\<lparr>sup_workflows := hm_insert op vs' (sup_workflows s)\<rparr>)"
proof -
  have "versions_of op vs" using assms(1,2) by (simp add: workflows_wf_def)
  from versions_of_use_current [OF this assms(3)] assms(2) show ?thesis
    by (intro insert_versions_keeps [OF assms(1)]) simp_all
qed

text \<open>The invariant of the reachable supervisors.\<close>

definition sup_inv :: "rumqttc \<Rightarrow> supervisor \<Rightarrow> bool" where
  "sup_inv L s \<longleftrightarrow> workflows_wf s \<and> board_wf L s"

lemma sup_inv_grows: "sup_inv L s \<Longrightarrow> grows s s' \<and> workflows_wf s' \<Longrightarrow> sup_inv L s'"
  using board_wf_grows by (auto simp: sup_inv_def)

lemma unregister_workflows:
  fixes operation version s
  defines "op \<equiv> operation_of_str operation" and "s' \<equiv> snd (unregister_custom_workflow operation version s)"
  shows "hm_get (sup_workflows s') = (hm_get (sup_workflows s))(op :=
      (case hm_get (sup_workflows s) op of
         None \<Rightarrow> None
       | Some vs \<Rightarrow> if wv_in_use (versions_remove version vs) = [] then None else Some (versions_remove version vs)))"
proof (cases "hm_get (sup_workflows s) op")
  case None
  then show ?thesis
    by (simp add: s'_def unregister_custom_workflow_def op_def [symmetric] delete_conv')
next
  case (Some vs)
  then show ?thesis
    by (simp add: s'_def unregister_custom_workflow_def op_def [symmetric] delete_conv' update_conv'
        versions_is_empty_def versions_is_builtin_def)
qed

lemma unregister_in_use:
  "in_use (snd (unregister_custom_workflow operation version s)) op =
     (if op = operation_of_str operation \<and> \<not> is_current_version s operation version \<and> version \<noteq> ''builtin''
      then (in_use s op)(version := None) else in_use s op)"
proof (cases "hm_get (sup_workflows s) (operation_of_str operation)")
  case None
  then show ?thesis by (simp add: in_use_def unregister_workflows fun_eq_iff)
next
  case (Some vs)
  have "hm_get (wv_in_use (versions_remove version vs)) =
      (if is_current_version s operation version \<or> version = ''builtin'' then hm_get (wv_in_use vs)
       else (hm_get (wv_in_use vs))(version := None))"
    using Some by (auto simp: versions_remove_def is_current_version_def delete_conv' split: option.splits)
  moreover have "in_use (snd (unregister_custom_workflow operation version s)) (operation_of_str operation)
      = hm_get (wv_in_use (versions_remove version vs))"
    using Some by (simp add: in_use_def unregister_workflows)
  moreover have "in_use s (operation_of_str operation) = hm_get (wv_in_use vs)"
    using Some by (simp add: in_use_def)
  moreover have "op \<noteq> operation_of_str operation
      \<Longrightarrow> in_use (snd (unregister_custom_workflow operation version s)) op = in_use s op"
    by (simp add: in_use_def unregister_workflows)
  ultimately show ?thesis by (cases "op = operation_of_str operation") auto
qed

lemma unregister_keeps:
  assumes "sup_inv L s" "is_current_version s operation version \<or> version_unused s operation version"
  shows "sup_inv L (snd (unregister_custom_workflow operation version s))"
proof -
  let ?op = "operation_of_str operation" and ?s = "snd (unregister_custom_workflow operation version s)"
  have commands: "sup_commands ?s = sup_commands s"
    by (simp add: unregister_custom_workflow_def Let_def split: prod.split)
  have use: "in_use ?s op = (if op = ?op \<and> \<not> is_current_version s operation version \<and> version \<noteq> ''builtin''
      then (in_use s op)(version := None) else in_use s op)" for op
    by (rule unregister_in_use)
  have wf: "workflows_wf ?s"
    using assms(1) versions_of_remove
    by (auto simp: sup_inv_def workflows_wf_def unregister_workflows split: option.splits if_splits)
  have "command_ready ?s c" if "hm_get (sup_commands s) k = Some (t, c)" for k t c
  proof -
    have c: "c \<in> snd ` snd ` set (sup_commands s)" using map_of_SomeD [OF that] by force
    have "command_ready s c" using board_wfD [OF _ that] assms(1) by (auto simp: sup_inv_def)
    then obtain op v where cv: "cs_operation c = Some op" "workflow_version c = Some v"
      "in_use s (operation_of_str op) v \<noteq> None" by (auto simp: command_ready_def)
    have "op = operation" if "operation_of_str op = ?op" by (metis that operation_to_of_str)
    then have "in_use ?s (operation_of_str op) v \<noteq> None"
      using assms(2) c cv unfolding use version_unused_def by auto
    with cv show ?thesis by (auto simp: command_ready_def)
  qed
  then show ?thesis
    using wf assms(1) commands unfolding sup_inv_def board_wf_def by (metis (no_types, lifting))
qed

lemma board_wf_put:
  assumes "board_wf L s" "cs_wf L c" "command_ready s c"
  shows "board_wf L (s\<lparr>sup_commands := hm_insert (topic_name (cs_topic c)) (t, c) (sup_commands s)\<rparr>)"
proof (rule board_wfI)
  show "hm_wf (sup_commands (s\<lparr>sup_commands := hm_insert (topic_name (cs_topic c)) (t, c) (sup_commands s)\<rparr>))"
    using assms(1) by (simp add: board_wf_def distinct_update)
  have ready: "command_ready (s\<lparr>sup_commands := b\<rparr>) d = command_ready s d" for b d
    by (simp add: command_ready_def in_use_def)
  show "k = topic_name (cs_topic d) \<and> cs_wf L d
      \<and> command_ready (s\<lparr>sup_commands := hm_insert (topic_name (cs_topic c)) (t, c) (sup_commands s)\<rparr>) d"
    if "hm_get (sup_commands (s\<lparr>sup_commands := hm_insert (topic_name (cs_topic c)) (t, c) (sup_commands s)\<rparr>)) k
      = Some (u, d)" for k u d
    using that assms(2,3) board_wfD [OF assms(1), of k u d] unfolding ready
    by (simp add: update_conv' split: if_splits)
qed

lemma board_wf_remove:
  assumes "board_wf L s"
  shows "board_wf L (s\<lparr>sup_commands := board_remove k (sup_commands s)\<rparr>)"
proof (rule board_wfI)
  show "hm_wf (sup_commands (s\<lparr>sup_commands := board_remove k (sup_commands s)\<rparr>))"
    using assms by (simp add: board_wf_def board_remove_def distinct_delete)
  have ready: "command_ready (s\<lparr>sup_commands := b\<rparr>) d = command_ready s d" for b d
    by (simp add: command_ready_def in_use_def)
  show "k' = topic_name (cs_topic d) \<and> cs_wf L d \<and> command_ready (s\<lparr>sup_commands := board_remove k (sup_commands s)\<rparr>) d"
    if "hm_get (sup_commands (s\<lparr>sup_commands := board_remove k (sup_commands s)\<rparr>)) k' = Some (u, d)" for k' u d
    using that board_wfD [OF assms, of k' u d] unfolding ready
    by (simp add: board_remove_def delete_conv' split: if_splits)
qed

lemma workflows_wf_commands [simp]: "workflows_wf (s\<lparr>sup_commands := b\<rparr>) = workflows_wf s"
  by (simp add: workflows_wf_def)

lemma sup_inv_remove: "sup_inv L s \<Longrightarrow> sup_inv L (s\<lparr>sup_commands := board_remove k (sup_commands s)\<rparr>)"
  using board_wf_remove by (simp add: sup_inv_def)

lemma sup_inv_put:
  "sup_inv L s \<Longrightarrow> cs_wf L c \<Longrightarrow> command_ready s c
    \<Longrightarrow> sup_inv L (s\<lparr>sup_commands := hm_insert (topic_name (cs_topic c)) (t, c) (sup_commands s)\<rparr>)"
  using board_wf_put by (simp add: sup_inv_def)

lemma with_version_simps [simp]:
  "cs_topic (with_workflow_version v c) = cs_topic c" "cs_operation (with_workflow_version v c) = cs_operation c"
  "cs_status (with_workflow_version v c) = cs_status c"
  by (simp_all add: with_workflow_version_def with_key_value_def cs_operation_def)

lemma with_version_version:
  "cs_wf L c \<Longrightarrow> cs_wf L (with_workflow_version v c) \<and> workflow_version (with_workflow_version v c) = Some v"
  using cs_wf_with_key_value [of L c "''@version''" v]
  by (auto simp: with_workflow_version_def with_key_value_def workflow_version_def json_get_def cs_wf_def)

lemma external_keeps:
  assumes "sup_inv L s" "cs_operation c = Some op" "is_cleared c \<or> cs_wf L c"
  shows "sup_inv L (snd (apply_external_update now (operation_of_str op) c s))"
proof (cases "hm_get (sup_workflows s) (operation_of_str op)")
  case None
  then show ?thesis using assms(1) by (simp add: apply_external_update_def)
next
  case (Some vs)
  consider "is_cleared c" | "\<not> is_cleared c" "is_init c" | "\<not> is_cleared c" "\<not> is_init c" by blast
  then show ?thesis
  proof cases
    case 1
    with Some sup_inv_remove [OF assms(1)] show ?thesis by (simp add: apply_external_update_def)
  next
    case 2
    obtain v vs' where v: "versions_use_current vs = (v, vs')" by fastforce
    let ?s = "s\<lparr>sup_workflows := hm_insert (operation_of_str op) vs' (sup_workflows s)\<rparr>"
    have s: "sup_inv L ?s"
      using sup_inv_grows [OF assms(1)] use_current_keeps [OF _ Some v] assms(1) by (simp add: sup_inv_def)
    show ?thesis
    proof (cases v)
      case None
      with 2 Some v s show ?thesis by (simp add: apply_external_update_def)
    next
      case (Some u)
      let ?c = "with_workflow_version u c"
      have c: "cs_wf L ?c" "workflow_version ?c = Some u" using with_version_version assms(3) 2 by auto
      have "in_use ?s (operation_of_str op) u \<noteq> None"
        using versions_use_current_ready v Some by (simp add: in_use_def update_conv')
      then have "command_ready ?s ?c" using c(2) assms(2) by (simp add: command_ready_def)
      from sup_inv_put [OF s c(1) this, of now] s
      have "sup_inv L (?s\<lparr>sup_commands := snd (board_insert now ?c (sup_commands s))\<rparr>)"
        by (simp add: board_insert_def Let_def split: option.split)
      then show ?thesis
        using 2 v Some \<open>hm_get (sup_workflows s) (operation_of_str op) = Some vs\<close>
        by (cases "board_insert now ?c (sup_commands s)"; cases "fst (board_insert now ?c (sup_commands s))")
          (simp_all add: apply_external_update_def)
    qed
  next
    case 3
    with Some assms(1) show ?thesis by (simp add: apply_external_update_def)
  qed
qed

lemma internal_keeps:
  assumes "sup_inv L s" "is_cleared c \<or> cs_wf L c"
    and "\<forall>c0. get_state s (topic_name (cs_topic c)) = Some c0 \<longrightarrow> workflow_version c = workflow_version c0"
  shows "sup_inv L (snd (apply_internal_update now c s))"
proof (cases "is_cleared c")
  case True
  with sup_inv_remove [OF assms(1)] show ?thesis by (simp add: apply_internal_update_def)
next
  case False
  show ?thesis
  proof (cases "hm_get (sup_commands s) (topic_name (cs_topic c))")
    case None
    with False assms(1) show ?thesis by (simp add: apply_internal_update_def board_update_def)
  next
    case (Some tc)
    obtain t0 c0 where c0: "hm_get (sup_commands s) (topic_name (cs_topic c)) = Some (t0, c0)"
      using Some by (cases tc) auto
    then have "workflow_version c = workflow_version c0" "command_ready s c0"
      "topic_name (cs_topic c) = topic_name (cs_topic c0)"
      using assms(1,3) board_wfD [OF _ c0] by (auto simp: get_state_def board_get_state_def sup_inv_def)
    then have "command_ready s c" by (simp add: command_ready_def cs_operation_def)
    with sup_inv_put [OF assms(1), of c now] False assms(2) c0 show ?thesis
      by (simp add: apply_internal_update_def board_update_def)
  qed
qed

text \<open>The board of a reachable supervisor: each command is stored under its topic.\<close>

lemma board_named_insert:
  "board_named L b \<Longrightarrow> cs_wf L c \<Longrightarrow> board_named L (hm_insert (topic_name (cs_topic c)) (t, c) b)"
  by (auto simp: board_named_def distinct_update update_conv' split: if_splits)

lemma board_named_remove: "board_named L b \<Longrightarrow> board_named L (board_remove k b)"
  by (auto simp: board_named_def board_remove_def distinct_delete delete_conv' split: if_splits)

lemma board_named_put:
  assumes "board_named L b" "cs_wf L c"
  shows "board_named L (snd (board_insert now c b))" "board_named L (snd (board_update now c b))"
  using assms board_named_insert [OF assms]
  by (auto simp: board_insert_def board_update_def Let_def split: option.split)

lemma external_commands:
  "sup_commands (snd (apply_external_update now op c s)) \<in> {sup_commands s}
     \<union> (if is_cleared c then {board_remove (topic_name (cs_topic c)) (sup_commands s)}
        else {snd (board_insert now (with_workflow_version v c) (sup_commands s)) |v. True})"
  by (auto simp: apply_external_update_def Let_def split: option.split prod.split sum.split) (metis snd_conv)+

lemma supervisor_step_named:
  assumes "board_named L (sup_commands s)" "event_ok L e"
  shows "board_named L (sup_commands (supervisor_step e s))"
proof (cases e)
  case (ExternalEvent now op c)
  have "cs_wf L (with_workflow_version v c)" if "\<not> is_cleared c" for v
    using with_version_version assms(2) that ExternalEvent by auto
  then show ?thesis
    using external_commands [of now "operation_of_str op" c s] assms(1) board_named_put(1) [OF assms(1)]
      board_named_remove [OF assms(1)]
    by (auto simp: ExternalEvent split: if_splits)
next
  case (InternalEvent now c)
  then show ?thesis
    using assms board_named_remove board_named_put(2) [OF assms(1), of c now]
    by (auto simp: apply_internal_update_def split: prod.split)
qed (use assms in \<open>simp_all add: register_builtin_workflow_def register_custom_workflow_def
    unregister_custom_workflow_def use_current_version_def load_pending_commands_def Let_def
    split: option.split prod.split\<close>)

lemma supervised_board: "supervised L s \<Longrightarrow> board_named L (sup_commands s)"
proof (induction rule: supervised.induct)
  case start
  show ?case by (simp add: board_named_def supervisor_default_def)
qed (rule supervisor_step_named)

text \<open>The versions that are available, and how each event changes them.\<close>

lemma supervisor_step_versions:
  assumes "workflows_wf s"
  shows "workflows_wf (supervisor_step e s)
    \<and> (in_use s op v \<noteq> None \<longrightarrow> in_use (supervisor_step e s) op v \<noteq> None
         \<or> (\<exists>operation. e = UnregisterEvent operation v \<and> op = operation_of_str operation
              \<and> v \<noteq> ''builtin'' \<and> \<not> is_current_version s operation v))"
proof -
  have grown: "grows s s' \<and> workflows_wf s' \<Longrightarrow> ?thesis" if "supervisor_step e s = s'\<lparr>sup_commands := b\<rparr>" for s' b
    using that unfolding grows_def in_use_def by (auto simp: dom_def)
  have same: "?thesis" if "supervisor_step e s = s\<lparr>sup_commands := b\<rparr>" for b
    using that assms by (simp add: in_use_def)
  have used: "?thesis" if "hm_get (sup_workflows s) op' = Some vs" "versions_use_current vs = (u, vs')"
    "supervisor_step e s = s\<lparr>sup_workflows := hm_insert op' vs' (sup_workflows s)\<rparr>\<lparr>sup_commands := b\<rparr>" for op' vs u vs' b
    using grown [OF that(3)] use_current_keeps [OF assms that(1,2)] by blast
  show ?thesis
  proof (cases e)
    case (RegisterEvent version workflow)
    then show ?thesis
      using grown [of "sup_commands (supervisor_step e s)" "supervisor_step e s"] register_keeps [OF assms] by simp
  next
    case (BuiltinEvent operation)
    then show ?thesis
      using grown [of "sup_commands (supervisor_step e s)" "supervisor_step e s"] register_keeps [OF assms]
      by (simp add: register_builtin_workflow_def)
  next
    case (UnregisterEvent operation version)
    have "workflows_wf (supervisor_step e s)"
      using assms versions_of_remove
      by (auto simp: UnregisterEvent workflows_wf_def unregister_workflows split: option.splits if_splits)
    then show ?thesis by (auto simp: UnregisterEvent unregister_in_use)
  next
    case (UseEvent operation)
    show ?thesis
    proof (cases "hm_get (sup_workflows s) (operation_of_str operation)")
      case None
      then show ?thesis using same [of "sup_commands s"] by (simp add: UseEvent use_current_version_def)
    next
      case (Some vs)
      obtain u vs' where "versions_use_current vs = (u, vs')" by fastforce
      then show ?thesis using used [OF Some, of u vs' "sup_commands s"] Some by (simp add: UseEvent use_current_version_def)
    qed
  next
    case (ExternalEvent now op' c)
    show ?thesis
    proof (cases "hm_get (sup_workflows s) (operation_of_str op')")
      case None
      then show ?thesis using same [of "sup_commands s"] by (simp add: ExternalEvent apply_external_update_def)
    next
      case (Some vs)
      obtain u vs' where v: "versions_use_current vs = (u, vs')" by fastforce
      let ?s = "s\<lparr>sup_workflows := hm_insert (operation_of_str op') vs' (sup_workflows s)\<rparr>"
      have "\<exists>b. supervisor_step e s \<in> {s\<lparr>sup_commands := b\<rparr>, ?s\<lparr>sup_commands := b\<rparr>}"
        using Some v
        by (auto simp: ExternalEvent apply_external_update_def Let_def split: option.split prod.split sum.split if_splits
            intro: exI [of _ "sup_commands s"])
      then show ?thesis using same used [OF Some v] by blast
    qed
  next
    case (InternalEvent now c)
    have "\<exists>b. supervisor_step e s = s\<lparr>sup_commands := b\<rparr>"
      by (auto simp: InternalEvent apply_internal_update_def split: prod.split)
    then show ?thesis using same by blast
  next
    case (LoadEvent J T dbg b)
    then show ?thesis using same [of b] by (simp add: load_pending_commands_def Let_def)
  qed
qed

lemma supervisor_run_versions:
  assumes "workflows_wf s" "in_use s op v \<noteq> None"
  shows "in_use (fold supervisor_step es s) op v \<noteq> None
    \<or> (\<exists>es1 operation es2. es = es1 @ UnregisterEvent operation v # es2 \<and> op = operation_of_str operation
         \<and> v \<noteq> ''builtin'' \<and> \<not> is_current_version (fold supervisor_step es1 s) operation v)"
  using assms
proof (induction es arbitrary: s)
  case (Cons e es)
  note step = supervisor_step_versions [OF Cons.prems(1), of e op v]
  show ?case
  proof (cases "in_use (supervisor_step e s) op v \<noteq> None")
    case True
    from Cons.IH [OF conjunct1 [OF step] True] show ?thesis
    proof (elim disjE exE conjE)
      fix es1 operation es2
      assume "es = es1 @ UnregisterEvent operation v # es2" "op = operation_of_str operation" "v \<noteq> ''builtin''"
        "\<not> is_current_version (fold supervisor_step es1 (supervisor_step e s)) operation v"
      then show ?thesis by (intro disjI2 exI [of _ "e # es1"] exI [of _ operation] exI [of _ es2]) simp
    qed simp
  next
    case False
    then obtain operation where "e = UnregisterEvent operation v" "op = operation_of_str operation"
      "v \<noteq> ''builtin''" "\<not> is_current_version s operation v" using step Cons.prems(2) by blast
    then show ?thesis by (intro disjI2 exI [of _ "[]"] exI [of _ operation] exI [of _ es]) simp
  qed
qed simp

lemma supervisor_run_wf: "workflows_wf s \<Longrightarrow> workflows_wf (fold supervisor_step es s)"
  by (induction es arbitrary: s) (simp_all add: supervisor_step_versions)

lemma available_action:
  assumes "workflows_wf s" "cs_operation c = Some op" "workflow_version c = Some v"
    "in_use s (operation_of_str op) v \<noteq> None"
  shows "case get_action J s c of Inr action \<Rightarrow> True | Inl err \<Rightarrow> err = UnknownStep op (cs_status c)"
proof -
  obtain vs w where vs: "hm_get (sup_workflows s) (operation_of_str op) = Some vs"
    "hm_get (wv_in_use vs) v = Some w"
    using assms(4) by (auto simp: in_use_def split: option.splits)
  then have "wf_operation w = operation_of_str op" using assms(1) by (simp add: workflows_wf_def versions_of_def)
  then show ?thesis
    using assms(2,3) vs
    by (simp add: get_action_def versions_get_def workflow_get_action_def split: option.split)
qed

lemma pending_action:
  assumes "sup_inv L s" "get_state s k = Some c"
  shows "topic_name (cs_topic c) = k \<and> cs_wf L c
    \<and> (case get_action J s c of
         Inr action \<Rightarrow> True
       | Inl err \<Rightarrow> \<exists>op. cs_operation c = Some op \<and> err = UnknownStep op (cs_status c))"
proof -
  obtain t where tc: "hm_get (sup_commands s) k = Some (t, c)"
    using assms(2) by (auto simp: get_state_def board_get_state_def)
  have inv: "workflows_wf s" "board_wf L s" using assms(1) by (auto simp: sup_inv_def)
  obtain op v where cv: "cs_operation c = Some op" "workflow_version c = Some v"
    "in_use s (operation_of_str op) v \<noteq> None"
    using board_wfD(3) [OF inv(2) tc] by (auto simp: command_ready_def)
  then show ?thesis
    using board_wfD(1,2) [OF inv(2) tc] available_action [OF inv(1) cv, of J] by (auto split: sum.splits)
qed

lemma accepted_version:
  assumes "workflows_wf s" "cs_wf L c" "is_init c"
    and "apply_external_update now op c s = (Inr (Some c'), s')"
  shows "\<exists>v. workflow_version c' = Some v \<and> in_use s' op v \<noteq> None"
proof -
  obtain vs where vs: "hm_get (sup_workflows s) op = Some vs"
    using assms(4) by (auto simp: apply_external_update_def split: option.splits)
  obtain u vs' where v: "versions_use_current vs = (u, vs')" by fastforce
  have "\<not> is_cleared c" using assms(2) by (auto simp: cs_wf_def is_cleared_def is_null_def)
  with assms(3,4) vs v obtain v where u: "u = Some v" "c' = with_workflow_version v c"
    "\<exists>b. s' = s\<lparr>sup_workflows := hm_insert op vs' (sup_workflows s), sup_commands := b\<rparr>"
    by (auto simp: apply_external_update_def Let_def split: option.splits prod.splits sum.splits)
  then show ?thesis
    using versions_use_current_ready [of vs v vs'] v with_version_version [OF assms(2), of v]
    by (auto simp: in_use_def update_conv')
qed

text \<open>
  C4. Whatever the supervisor is asked to do after a request was accepted, in any order, the version of the
  workflow the command was given is still available for it: the only error that the next action of the
  command, in whatever state, can give is a state the workflow does not define.  The one exception is a
  version that is unregistered although it is not the current one, which is how the agent releases the
  version when the command ends; when the user removes or replaces the definition, the version is unregistered
  while it is the current one and the command keeps it.
\<close>

theorem command_keeps_workflow:
  assumes "s = fold supervisor_step es0 supervisor_default" "cs_wf L c" "is_init c"
    and "apply_external_update now (operation_of_str op) c s = (Inr (Some c'), s')"
    and "cs_operation d = Some op" "workflow_version d = workflow_version c'"
  shows "(case get_action J (fold supervisor_step es s') d of
            Inr action \<Rightarrow> True | Inl err \<Rightarrow> err = UnknownStep op (cs_status d))
    \<or> (\<exists>es1 v es2. es = es1 @ UnregisterEvent op v # es2 \<and> workflow_version c' = Some v
         \<and> v \<noteq> ''builtin'' \<and> \<not> is_current_version (fold supervisor_step es1 s') op v)"
proof -
  have "workflows_wf supervisor_default" by (simp add: workflows_wf_def supervisor_default_def)
  then have wf: "workflows_wf s" unfolding assms(1) by (rule supervisor_run_wf)
  obtain v where v: "workflow_version c' = Some v" "in_use s' (operation_of_str op) v \<noteq> None"
    using accepted_version [OF wf assms(2-4)] by blast
  have wf': "workflows_wf s'"
    using supervisor_step_versions [OF wf, of "ExternalEvent now op c"] assms(4) by simp
  have same: "o' = op" if "operation_of_str op = operation_of_str o'" for o' by (metis that operation_to_of_str)
  from supervisor_run_versions [OF wf' v(2), of es] show ?thesis
  proof
    assume "in_use (fold supervisor_step es s') (operation_of_str op) v \<noteq> None"
    from available_action [OF supervisor_run_wf [OF wf'] assms(5) _ this] v(1) assms(6) show ?thesis by simp
  next
    assume "\<exists>es1 operation es2. es = es1 @ UnregisterEvent operation v # es2 \<and> operation_of_str op = operation_of_str operation
         \<and> v \<noteq> ''builtin'' \<and> \<not> is_current_version (fold supervisor_step es1 s') operation v"
    with same v(1) show ?thesis by blast
  qed
qed

definition example_supervisor :: supervisor where
  "example_supervisor =
     snd (apply_external_update 0 (operation_of_str ''restart'') example_command
       (snd (register_builtin_workflow Restart supervisor_default)))"

lemma example_command_wf: "cs_wf wildcard_free_mqtt example_command"
proof -
  have "infer_invoking_command_topic wildcard_free_mqtt (topic_name (cs_topic example_command))
      = Some (cs_invoking example_command)" by code_simp
  then show ?thesis by (simp add: cs_wf_def example_command_def jmap_wf_def)
qed

lemma example_supervised: "supervised wildcard_free_mqtt example_supervisor"
proof -
  have "supervised wildcard_free_mqtt (supervisor_step (ExternalEvent 0 ''restart'' example_command)
      (supervisor_step (BuiltinEvent Restart) supervisor_default))"
    using example_command_wf by (intro supervised.intros) simp_all
  then show ?thesis by (simp add: example_supervisor_def)
qed

text \<open>The definition of a running command is replaced and then removed: the command keeps its workflow.\<close>

definition example_user_workflow :: operation_workflow where
  "example_user_workflow = workflow_built_in Restart"

definition example_changes :: "supervisor_event list" where
  "example_changes = [UnregisterEvent ''restart'' ''v1'', RegisterEvent (UserDefined ''v2'') example_user_workflow,
     UnregisterEvent ''restart'' ''v2'']"

theorem command_keeps_workflow_witness:
  "\<exists>c' s'. apply_external_update 0 (operation_of_str ''restart'') example_command
       (fold supervisor_step [RegisterEvent (UserDefined ''v1'') example_user_workflow] supervisor_default)
       = (Inr (Some c'), s')
    \<and> workflow_version c' = Some ''v1''
    \<and> (\<exists>action. get_action code_serde (fold supervisor_step example_changes s') c' = Inr action)"
proof -
  define s where "s = fold supervisor_step [RegisterEvent (UserDefined ''v1'') example_user_workflow] supervisor_default"
  define c' where "c' = with_workflow_version ''v1'' example_command"
  obtain r s' where rs: "apply_external_update 0 (operation_of_str ''restart'') example_command s = (r, s')" by fastforce
  have "fst (apply_external_update 0 (operation_of_str ''restart'') example_command s) = Inr (Some c')"
    unfolding s_def c'_def by code_simp
  then have ext: "apply_external_update 0 (operation_of_str ''restart'') example_command s = (Inr (Some c'), s')"
    using rs by simp
  have v: "workflow_version c' = Some ''v1''" "cs_operation c' = Some ''restart''" "is_init example_command"
    "cs_status c' = ''init''" unfolding c'_def by code_simp+
  have s': "s' = snd (apply_external_update 0 (operation_of_str ''restart'') example_command s)" using ext by simp
  have "is_current_version s' ''restart'' ''v1''" unfolding s' s_def by code_simp
  moreover have "case get_action code_serde (fold supervisor_step example_changes s') c' of
      Inl (UnknownStep _ _) \<Rightarrow> False | _ \<Rightarrow> True"
    unfolding s' s_def c'_def by code_simp
  moreover have "es1 = []" if "example_changes = es1 @ UnregisterEvent ''restart'' ''v1'' # es2" for es1 es2
    using that by (auto simp: example_changes_def Cons_eq_append_conv)
  ultimately have "\<exists>action. get_action code_serde (fold supervisor_step example_changes s') c' = Inr action"
    using command_keeps_workflow [OF s_def example_command_wf v(3) ext v(2) refl, of code_serde example_changes] v(1,4)
    by (fastforce split: sum.splits)
  with ext v(1) show ?thesis unfolding s_def by blast
qed

section \<open>Invoking commands\<close>

text \<open>The length of the command identifier of a topic: it decreases from a command to its invoking one.\<close>

definition invoking_rank :: "rumqttc \<Rightarrow> string \<Rightarrow> nat" where
  "invoking_rank L t =
     (case entity_channel_of L (schema_from_topic t) t of
        Inr (_, Command _ cid) \<Rightarrow> Suc (length cid) | _ \<Rightarrow> 0)"

lemma invoking_rank_decreases:
  assumes "topic_rule L" "infer_invoking_command_topic L t = Some (Some t')"
  shows "invoking_rank L t' < invoking_rank L t"
proof -
  let ?S = "schema_from_topic t"
  obtain e op0 cid op i t1 where parse: "entity_channel_of L ?S t = Inr (e, Command op0 cid)"
    and sub: "extract_invoking_command_id cid = Some (op, i)"
    and t1: "topic_for L ?S e (Command (operation_of_str op) i) = Some t1" "t' = topic_name t1"
    using assms(2)
    by (auto simp: infer_invoking_command_topic_def Let_def split: sum.splits channel.splits option.splits bind_splits)
  have cid: "cid = ''sub:'' @ op @ '':'' @ i"
    using sub by (simp add: extract_invoking_command_id_Some sub_command_id_def)
  have wf: "wf_entity_id e" "slash \<notin> set cid"
    using entity_channel_of_Inr [OF assms(1) parse] by simp_all
  then have ns: "slash \<notin> set op" "slash \<notin> set i" using cid by simp_all
  have name: "t' = topic_text ?S e (Command (operation_of_str op) i)"
    and nw: "no_wildcard (topic_text ?S e (Command (operation_of_str op) i))"
    using t1 topic_for_Some_iff [OF assms(1)] by blast+
  have "slash \<notin> set (root ?S)"
    by (auto simp: schema_from_topic_def with_root_def split_once_None_iff split: option.split dest!: split_once_Some)
  moreover have "no_wildcard (root ?S)" using nw by (simp add: topic_text_def)
  ultimately have root: "wf_root (root ?S)" by (simp add: wf_root_def)
  have "schema_from_topic t' = ?S"
    using command_topic_parts(5) [OF assms(1) root wf(1) _ ns(2) t1(1)] ns(1) t1(2) by simp
  moreover have "entity_channel_of L ?S t' = Inr (e, Command (operation_of_str op) i)"
    unfolding name using root wf(1) ns by (intro entity_channel_of_topic_text [OF assms(1)]) (simp_all add: wf_root_def)
  ultimately show ?thesis by (simp add: invoking_rank_def parse cid)
qed

abbreviation invoked_by :: "supervisor \<Rightarrow> (command_state \<times> command_state) set" where
  "invoked_by s \<equiv> {(c, d). invoking_command_state s c = Some d}"

text \<open>
  C7. The search of the root command returns, since command identifiers get shorter along the chain of
  invoking commands.  It finds nothing exactly for a command without pending invoking command, and
  otherwise the pending command at the end of the chain, which has no pending invoking command itself.
\<close>

theorem root_invoking_command_spec:
  assumes "topic_rule L" "supervised L s" "cs_wf L c"
  shows "\<exists>r. root_invoking_command_state s c = Some r
    \<and> (r = None \<longleftrightarrow> invoking_command_state s c = None)
    \<and> (\<forall>root. r = Some root \<longrightarrow> (c, root) \<in> (invoked_by s)\<^sup>+ \<and> invoking_command_state s root = None
         \<and> get_state s (topic_name (cs_topic root)) = Some root)"
  using assms(3)
proof (induction "invoking_rank L (topic_name (cs_topic c))" arbitrary: c rule: less_induct)
  case less
  show ?case
  proof (cases "invoking_command_state s c")
    case None
    then show ?thesis by (subst root_invoking_command_state.simps) simp
  next
    case (Some d)
    then obtain t' where t': "cs_invoking c = Some t'" "get_state s t' = Some d"
      by (auto simp: invoking_command_state_def split: bind_splits)
    then obtain ts where "hm_get (sup_commands s) t' = Some (ts, d)"
      by (auto simp: get_state_def board_get_state_def)
    then have d: "topic_name (cs_topic d) = t'" "cs_wf L d"
      using supervised_board [OF assms(2)] unfolding board_named_def by blast+
    have "infer_invoking_command_topic L (topic_name (cs_topic c)) = Some (Some t')"
      using less.prems t'(1) by (simp add: cs_wf_def)
    then have "invoking_rank L (topic_name (cs_topic d)) < invoking_rank L (topic_name (cs_topic c))"
      using invoking_rank_decreases [OF assms(1)] d(1) by simp
    from less.hyps [OF this d(2)]
    obtain r where r: "root_invoking_command_state s d = Some r"
      "r = None \<longleftrightarrow> invoking_command_state s d = None"
      "\<forall>root. r = Some root \<longrightarrow> (d, root) \<in> (invoked_by s)\<^sup>+ \<and> invoking_command_state s root = None
         \<and> get_state s (topic_name (cs_topic root)) = Some root"
      by (elim exE conjE) (rule that)
    have "root_invoking_command_state s c = Some (Some (case r of Some x \<Rightarrow> x | None \<Rightarrow> d))"
      using Some r(1) by (subst root_invoking_command_state.simps) simp
    moreover have "(c, d) \<in> invoked_by s" using Some by simp
    moreover have "(c, root) \<in> (invoked_by s)\<^sup>+" if "r = Some root" for root
      using r(3) that by (intro trancl_into_trancl2 [OF calculation(2)]) simp
    moreover have "(c, d) \<in> (invoked_by s)\<^sup>+" using calculation(2) by (rule r_into_trancl)
    ultimately show ?thesis
      using r(2,3) t'(2) d(1) Some by (cases r) simp_all
  qed
qed

definition example_sub_command :: command_state where
  "example_sub_command =
     example_command\<lparr>cs_topic := topic_new_unchecked ''te/device/main///cmd/download/sub:restart:1'',
       cs_invoking := Some ''te/device/main///cmd/restart/1''\<rparr>"

theorem root_invoking_command_spec_witness:
  "\<exists>root. root_invoking_command_state example_supervisor example_sub_command = Some (Some root)
    \<and> get_state example_supervisor (topic_name (cs_topic root)) = Some root"
proof -
  have "infer_invoking_command_topic wildcard_free_mqtt (topic_name (cs_topic example_sub_command))
      = Some (cs_invoking example_sub_command)" by code_simp
  then have wf: "cs_wf wildcard_free_mqtt example_sub_command"
    by (simp add: cs_wf_def example_sub_command_def example_command_def jmap_wf_def)
  have "invoking_command_state example_supervisor example_sub_command \<noteq> None" by code_simp
  with root_invoking_command_spec [OF wildcard_free_mqtt_rule example_supervised wf] show ?thesis by auto
qed

section \<open>Requests from peers\<close>

text \<open>The version that a new command is given: the current one of the user, or the built-in workflow.\<close>

definition request_version :: "supervisor \<Rightarrow> operation_type \<Rightarrow> string option" where
  "request_version s operation =
     (case hm_get (sup_workflows s) operation of
        None \<Rightarrow> None
      | Some vs \<Rightarrow>
          (case wv_current vs of
             Some (version, _) \<Rightarrow> Some version
           | None \<Rightarrow> if ''builtin'' \<in> dom (in_use s operation) then Some ''builtin'' else None))"

lemma request_version_use:
  assumes "hm_get (sup_workflows s) operation = Some vs" "versions_use_current vs = (v, vs')"
  shows "request_version s operation = v"
  using assms versions_use_current_spec(4) [OF assms(2)]
  by (auto simp: request_version_def in_use_def dom_def split: option.splits)

lemma new_request_update:
  assumes "hm_get (sup_workflows s) operation = Some vs" "\<not> is_cleared c" "is_init c"
    "versions_use_current vs = (Some v, vs')"
  shows "apply_external_update now operation c s =
    (case board_insert now (with_workflow_version v c) (sup_commands s) of
       (r, board) \<Rightarrow> (case r of Inl err \<Rightarrow> Inl err | Inr _ \<Rightarrow> Inr (Some (with_workflow_version v c)),
         s\<lparr>sup_workflows := hm_insert operation vs' (sup_workflows s), sup_commands := board\<rparr>))"
  using assms by (simp add: apply_external_update_def split: prod.split sum.split)

text \<open>
  C6. An update received from a peer, on every branch.  It is rejected exactly when the operation has no workflow
  (whatever the update), when it is a new request and no version is available for new requests, and when it is
  a new request on the topic of a pending command that is another one.  A cleared command is removed.  A new
  request is accepted exactly when its topic is free or the same command is pending; the command is given the
  current version, which is then in use, and is stored under its topic.  Every other update is ignored.  Nothing
  else changes the pending commands.
\<close>

theorem apply_external_update_spec:
  fixes now operation c s
  defines "known \<equiv> hm_get (sup_workflows s) operation \<noteq> None"
    and "request \<equiv> \<not> is_cleared c \<and> is_init c"
    and "pending \<equiv> get_state s (topic_name (cs_topic c))"
    and "result \<equiv> fst (apply_external_update now operation c s)"
    and "s' \<equiv> snd (apply_external_update now operation c s)"
  shows "result =
      (if \<not> known then Inl (UnknownOperation (operation_to_str operation))
       else if is_cleared c then Inr (Some c)
       else if \<not> request then Inr None
       else case request_version s operation of
              None \<Rightarrow> Inl (DeprecatedOperation (operation_to_str operation))
            | Some v \<Rightarrow> if pending \<in> {None, Some (with_workflow_version v c)}
                then Inr (Some (with_workflow_version v c)) else Inl (DuplicatedRequest (topic_name (cs_topic c))))
    \<and> get_state s' =
      (case result of
         Inr (Some c') \<Rightarrow> (get_state s)(topic_name (cs_topic c) := if is_cleared c then None else Some c')
       | _ \<Rightarrow> get_state s)
    \<and> (\<forall>v. request \<and> request_version s operation = Some v \<longrightarrow> in_use s' operation v \<noteq> None)
    \<and> (\<not> known \<or> \<not> request \<longrightarrow> sup_workflows s' = sup_workflows s)
    \<and> (pending \<noteq> None \<and> \<not> is_cleared c \<longrightarrow> sup_commands s' = sup_commands s)"
proof (cases "hm_get (sup_workflows s) operation")
  case None
  then show ?thesis by (simp add: known_def result_def s'_def apply_external_update_def request_version_def)
next
  case (Some vs)
  have known unfolding known_def by (simp add: Some)
  obtain v vs' where v: "versions_use_current vs = (v, vs')" by fastforce
  note version = request_version_use [OF Some v]
  consider "\<not> request" | "request" "v = None" | u where "request" "v = Some u" by fastforce
  then show ?thesis
  proof cases
    case 1
    with Some \<open>known\<close> show ?thesis
      unfolding result_def s'_def request_def
      by (auto simp: apply_external_update_def get_state_def board_get_state_def board_remove_def delete_conv' fun_eq_iff)
  next
    case 2
    with Some v version \<open>known\<close> show ?thesis
      unfolding result_def s'_def request_def by (simp add: apply_external_update_def get_state_def fun_eq_iff)
  next
    case 3
    then have new: "\<not> is_cleared c" "is_init c" unfolding request_def by simp_all
    note update = new_request_update [OF Some new v [unfolded 3(2)], of now]
    have ready: "hm_get (wv_in_use vs') u \<noteq> None" using versions_use_current_ready v 3(2) by simp
    have topic: "cs_topic (with_workflow_version u c) = cs_topic c" by simp
    show ?thesis
    proof (cases "hm_get (sup_commands s) (topic_name (cs_topic c))")
      case None
      then show ?thesis
        using 3 new version \<open>known\<close> ready unfolding result_def s'_def pending_def update
        by (auto simp: board_insert_def get_state_def board_get_state_def update_conv' in_use_def fun_eq_iff)
    next
      case (Some tc)
      then obtain t0 c0 where "hm_get (sup_commands s) (topic_name (cs_topic c)) = Some (t0, c0)" by (cases tc) auto
      then show ?thesis
        using 3 new version \<open>known\<close> ready unfolding result_def s'_def pending_def update
        by (cases "c0 = with_workflow_version u c")
          (auto simp: board_insert_def get_state_def board_get_state_def update_conv' in_use_def fun_eq_iff)
    qed
  qed
qed

theorem apply_external_update_spec_witness:
  "fst (apply_external_update 1 Restart (example_command\<lparr>cs_payload := JObject []\<rparr>) example_supervisor)
     = Inl (DuplicatedRequest ''te/device/main///cmd/restart/1'')
   \<and> sup_commands (snd (apply_external_update 1 Restart (example_command\<lparr>cs_payload := JObject []\<rparr>) example_supervisor))
     = sup_commands example_supervisor"
proof -
  let ?c = "example_command\<lparr>cs_payload := JObject []\<rparr>"
  have "fst (apply_external_update 1 Restart ?c example_supervisor)
     = Inl (DuplicatedRequest ''te/device/main///cmd/restart/1'')" "\<not> is_cleared ?c"
    "get_state example_supervisor (topic_name (cs_topic ?c)) \<noteq> None" by code_simp+
  with apply_external_update_spec [of 1 Restart ?c example_supervisor]
  show ?thesis by simp
qed

end
