(* ===== verification/Supervisor_Restart.thy ===== *)
theory Supervisor_Restart
  imports Supervisor
begin

text \<open>
  A restart of the agent: the board of pending commands is written to disk, read back, and every command
  is resumed.
\<close>

section \<open>The board on disk\<close>

definition disk_entry :: "time_lib \<Rightarrow> string \<times> timestamp \<times> command_state \<Rightarrow> string \<times> on_disk_state" where
  "disk_entry T = (\<lambda>(k, t, c). (k, \<lparr>od_unix_timestamp = unix_timestamp T t, od_status = cs_status c,
     od_payload = cs_payload c\<rparr>))"

definition restored_entry ::
  "time_lib \<Rightarrow> string \<times> timestamp \<times> command_state \<Rightarrow> string \<times> timestamp \<times> command_state" where
  "restored_entry T = (\<lambda>(k, t, c). (k, the (from_unix_timestamp T (unix_timestamp T t)), c))"

lemma entry_simps [simp]:
  "disk_entry T (k, t, c) = (k, \<lparr>od_unix_timestamp = unix_timestamp T t, od_status = cs_status c,
     od_payload = cs_payload c\<rparr>)"
  "restored_entry T (k, t, c) = (k, the (from_unix_timestamp T (unix_timestamp T t)), c)"
  by (simp_all add: disk_entry_def restored_entry_def)

definition named_board :: "rumqttc \<Rightarrow> command_board \<Rightarrow> bool" where
  "named_board L b \<longleftrightarrow> hm_wf b
     \<and> (\<forall>(k, t, c) \<in> set b. topic_name (cs_topic c) = k \<and> no_wildcard k \<and> cs_wf L c)"

lemma board_to_disk_entries:
  assumes "named_board L b"
  shows "board_to_disk T b = V1 (map (disk_entry T) b)"
proof -
  have names: "map (\<lambda>(t, c). topic_name (cs_topic c)) (map snd b) = map fst b"
    using assms by (auto simp: named_board_def)
  have "distinct (map (\<lambda>(t, c). topic_name (cs_topic c)) (map snd b))"
    unfolding names using assms by (simp add: named_board_def)
  from fold_insert_new [OF this, of "[]" "\<lambda>(t, c). \<lparr>od_unix_timestamp = unix_timestamp T t,
      od_status = cs_status c, od_payload = cs_payload c\<rparr>"]
  have "board_to_disk T b = V1 (map (\<lambda>(t, c). (topic_name (cs_topic c), \<lparr>od_unix_timestamp = unix_timestamp T t,
      od_status = cs_status c, od_payload = cs_payload c\<rparr>)) (map snd b))"
    by (simp add: board_to_disk_def case_prod_unfold)
  also have "\<dots> = V1 (map (disk_entry T) b)"
    using assms by (auto simp: named_board_def disk_entry_def)
  finally show ?thesis .
qed

lemma command_state_new_wf:
  assumes "cs_wf L c"
  shows "command_state_new L (cs_topic c) (cs_status c) (cs_payload c) = Some c"
proof -
  obtain m where m: "cs_payload c = JObject m" "jmap_wf m" "bt_get m ''status'' = Some (JString (cs_status c))"
    and inv: "infer_invoking_command_topic L (topic_name (cs_topic c)) = Some (cs_invoking c)"
    using assms by (auto simp: cs_wf_def)
  then show ?thesis
    using inject_same [OF jmap_wf_bt [OF m(2)] m(3)] by (simp add: command_state_new_def)
qed

lemma board_of_entries_restores:
  assumes "topic_rule L" "time_rule T"
  shows "named_board L b \<Longrightarrow> fst ` set b \<inter> fst ` set acc = {} \<Longrightarrow>
    board_of_entries L T (map (disk_entry T) b) acc = Some (Inr (acc @ map (restored_entry T) b))"
proof (induction b arbitrary: acc)
  case (Cons e b)
  obtain k t c where e: "e = (k, t, c)" by (cases e)
  have c: "topic_name (cs_topic c) = k" "no_wildcard k" "cs_wf L c" "k \<notin> fst ` set acc" "k \<notin> fst ` set b"
    using Cons.prems by (auto simp: named_board_def e)
  have topic: "topic_new L k = Inr (cs_topic c)"
    using assms(1) c(1,2) by (cases "cs_topic c") (auto simp: topic_rule_def topic_new_def)
  obtain ts where ts: "from_unix_timestamp T (unix_timestamp T t) = Some ts"
    using assms(2) unfolding time_rule_def by blast
  have new: "hm_insert k (ts, c) acc = acc @ [(k, ts, c)]" using c(4) by (induction acc) auto
  have "named_board L b" "fst ` set b \<inter> fst ` set (acc @ [(k, ts, c)]) = {}"
    using Cons.prems c(5) by (auto simp: named_board_def e)
  from Cons.IH [OF this] show ?case
    by (simp add: e topic ts command_state_new_wf [OF c(3)] new)
qed simp

text \<open>A board that a supervisor wrote is well-formed when it is read back.\<close>

lemma fold_insert_values:
  assumes "\<forall>x \<in> set xs. P (f x, g x)" "\<forall>e \<in> set acc. P e"
  shows "\<forall>e \<in> set (fold (\<lambda>x. hm_insert (f x) (g x)) xs acc). P e"
  using assms
proof (induction xs arbitrary: acc)
  case (Cons x xs)
  have "set (hm_insert (f x) (g x) acc) \<subseteq> insert (f x, g x) (set acc)" by (induction acc) auto
  then have "\<forall>e \<in> set (hm_insert (f x) (g x) acc). P e" using Cons.prems by auto
  from Cons.IH [OF _ this] Cons.prems(1) show ?case by simp
qed simp

lemma board_of_entries_named:
  assumes "\<forall>(k, d) \<in> set entries. \<exists>c. cs_wf L c \<and> topic_name (cs_topic c) = k \<and> od_status d = cs_status c
      \<and> od_payload d = cs_payload c"
    and "board_of_entries L T entries acc = Some (Inr b)" "board_named L acc"
  shows "board_named L b"
  using assms
proof (induction entries arbitrary: acc)
  case (Cons e entries)
  obtain k d where e: "e = (k, d)" by (cases e)
  obtain c where c: "cs_wf L c" "topic_name (cs_topic c) = k"
    and d: "od_status d = cs_status c" "od_payload d = cs_payload c"
    using Cons.prems(1) by (auto simp: e)
  have "topic_new L k = Inr (cs_topic c)"
    using Cons.prems(2) c(2) by (cases "cs_topic c") (auto simp: e topic_new_def split: if_splits)
  then obtain ts where "board_of_entries L T entries (hm_insert k (ts, c) acc) = Some (Inr b)"
    using Cons.prems(2) by (auto simp: e d command_state_new_wf [OF c(1)] split: option.splits)
  from Cons.IH [OF _ this] Cons.prems(1) board_named_insert [OF Cons.prems(3) c(1), of ts] c(2) show ?case by simp
qed simp

lemma written_board_named:
  assumes "board_named L b" "board_of_disk L T (board_to_disk T b) = Some (Inr b')"
  shows "board_named L b'"
proof -
  let ?d = "\<lambda>x. \<lparr>od_unix_timestamp = unix_timestamp T (fst x), od_status = cs_status (snd x), od_payload = cs_payload (snd x)\<rparr>"
  let ?P = "\<lambda>(k, d). \<exists>c. cs_wf L c \<and> topic_name (cs_topic c) = k \<and> od_status d = cs_status c
      \<and> od_payload d = cs_payload c"
  have "cs_wf L c" if "(t, c) \<in> set (map snd b)" for t c
    using that assms(1) by (auto simp: board_named_def)
  then have "\<forall>x \<in> set (map snd b). ?P (topic_name (cs_topic (snd x)), ?d x)" by fastforce
  from fold_insert_values [of "map snd b" ?P "\<lambda>x. topic_name (cs_topic (snd x))" ?d, OF this, of "[]"]
  have entries: "\<forall>e \<in> set (fold (\<lambda>x. hm_insert (topic_name (cs_topic (snd x))) (?d x)) (map snd b) []). ?P e" by simp
  from board_of_entries_named [OF entries, of T "[]" b'] assms(2) show ?thesis
    by (simp add: board_of_disk_def board_to_disk_def case_prod_unfold board_named_def)
qed

section \<open>Resumed commands\<close>

lemma get_action_workflows:
  assumes "sup_workflows s' = sup_workflows s"
  shows "get_action J s' c = get_action J s c"
  unfolding get_action_def assms ..

definition resumed_status :: "serde \<Rightarrow> supervisor \<Rightarrow> command_state \<Rightarrow> string" where
  "resumed_status J s c =
     (case get_action J s c of
        Inl _ \<Rightarrow> ''failed''
      | Inr (AwaitingAgentRestart handlers) \<Rightarrow> su_status (ah_on_success handlers)
      | Inr _ \<Rightarrow> cs_status c)"

lemma resume_command_result:
  "\<exists>c'. resume_command J T dbg s t c = Some c' \<and> cs_topic c' = cs_topic c \<and> cs_status c' = resumed_status J s c"
  by (auto simp: resume_command_def resumed_status_def fail_with_def with_key_value_def cs_update_def
      split: sum.split operation_action.split)

lemma map_filter_total:
  assumes "\<forall>x. f x \<noteq> None"
  shows "List.map_filter f xs = map (\<lambda>x. the (f x)) xs"
proof (induction xs)
  case (Cons x xs)
  obtain y where "f x = Some y" using assms by blast
  with Cons show ?case by (simp add: List.map_filter_simps)
qed (simp add: List.map_filter_simps)

lemma dom_get_state: "dom (get_state s) = fst ` set (sup_commands s)"
  by (auto simp: get_state_def board_get_state_def dom_def map_of_eq_None_iff image_iff)

lemma get_state_restored: "get_state (s'\<lparr>sup_commands := map (restored_entry T) (sup_commands s)\<rparr>) = get_state s"
proof -
  have "hm_get (map (restored_entry T) b) k =
      map_option (\<lambda>(t, c). (the (from_unix_timestamp T (unix_timestamp T t)), c)) (hm_get b k)" for b k
    by (induction b) (auto simp: restored_entry_def)
  then show ?thesis
    by (auto simp: get_state_def board_get_state_def option.map_comp comp_def case_prod_unfold)
qed

lemma supervised_named:
  assumes "supervised L s" "\<forall>k \<in> dom (get_state s). no_wildcard k"
  shows "named_board L (sup_commands s)"
proof -
  have board: "board_named L (sup_commands s)" by (rule supervised_board [OF assms(1)])
  have "topic_name (cs_topic c) = k \<and> no_wildcard k \<and> cs_wf L c" if "(k, t, c) \<in> set (sup_commands s)" for k t c
  proof -
    have get: "hm_get (sup_commands s) k = Some (t, c)" using board that by (simp add: board_named_def)
    then have "k \<in> dom (get_state s)" by (auto simp: get_state_def board_get_state_def)
    then show ?thesis using assms(2) board get by (auto simp: board_named_def)
  qed
  with board show ?thesis by (auto simp: named_board_def board_named_def)
qed

lemma load_restored_board:
  assumes "named_board L b" "sup_workflows s' = sup_workflows s"
  shows "\<exists>f. load_pending_commands J T dbg (map (restored_entry T) b) s'
      = (map f b, s'\<lparr>sup_commands := map (restored_entry T) b\<rparr>)
    \<and> (\<forall>e \<in> set b. topic_name (cs_topic (f e)) = fst e \<and> cs_status (f e) = resumed_status J s (snd (snd e)))"
proof -
  let ?s = "s'\<lparr>sup_commands := map (restored_entry T) b\<rparr>"
  let ?f = "\<lambda>e. the (resume_command J T dbg ?s (fst (snd (restored_entry T e))) (snd (snd (restored_entry T e))))"
  have resumed: "\<exists>c'. resume_command J T dbg ?s t c = Some c' \<and> cs_topic c' = cs_topic c
      \<and> cs_status c' = resumed_status J s c" for t c
    using resume_command_result [of J T dbg ?s t c] get_action_workflows [of ?s s J c] assms(2)
    by (simp add: resumed_status_def)
  then have "\<forall>x. (\<lambda>(t, c). resume_command J T dbg ?s t c) x \<noteq> None"
    by (metis (mono_tags, lifting) case_prod_unfold option.distinct(1))
  from map_filter_total [OF this, of "map (\<lambda>e. snd (restored_entry T e)) b"]
  have "load_pending_commands J T dbg (map (restored_entry T) b) s' = (map ?f b, ?s)"
    by (simp add: load_pending_commands_def comp_def case_prod_unfold Let_def)
  moreover have "topic_name (cs_topic (?f e)) = fst e \<and> cs_status (?f e) = resumed_status J s (snd (snd e))"
    if "e \<in> set b" for e
  proof -
    obtain k t c where e: "e = (k, t, c)" by (cases e)
    obtain c' where "resume_command J T dbg ?s (the (from_unix_timestamp T (unix_timestamp T t))) c = Some c'"
      "cs_topic c' = cs_topic c" "cs_status c' = resumed_status J s c" using resumed by blast
    with e that assms(1) show ?thesis by (auto simp: named_board_def)
  qed
  ultimately show ?thesis by blast
qed

text \<open>
  C12. A restart of the agent: the board of pending commands survives being written to disk, up to the
  precision of the timestamps, and every pending command is resumed exactly once.  A command that was waiting for
  the restart goes on with its success handler, a command without a workflow step fails, and every other
  command is resumed in the state it was in.
\<close>

theorem restart_resumes_commands:
  assumes "topic_rule L" "time_rule T" "supervised L s" "sup_workflows s' = sup_workflows s"
    and "\<forall>k \<in> dom (get_state s). no_wildcard k"
  shows "\<exists>b resumed s''.
    board_of_disk L T (board_to_disk T (sup_commands s)) = Some (Inr b)
    \<and> load_pending_commands J T dbg b s' = (resumed, s'')
    \<and> get_state s'' = get_state s
    \<and> distinct (map (\<lambda>c. topic_name (cs_topic c)) resumed)
    \<and> (\<lambda>c. topic_name (cs_topic c)) ` set resumed = dom (get_state s)
    \<and> (\<forall>c' \<in> set resumed. \<exists>c. get_state s (topic_name (cs_topic c')) = Some c
         \<and> cs_status c' = resumed_status J s c)"
proof -
  let ?b = "sup_commands s" and ?name = "\<lambda>c. topic_name (cs_topic c)"
  have named: "named_board L ?b" by (rule supervised_named [OF assms(3,5)])
  then have wf: "hm_wf ?b" by (simp add: named_board_def)
  have disk: "board_of_disk L T (board_to_disk T ?b) = Some (Inr (map (restored_entry T) ?b))"
    using board_of_entries_restores [OF assms(1,2) named, of "[]"]
    by (simp add: board_of_disk_def board_to_disk_entries [OF named])
  obtain f where load: "load_pending_commands J T dbg (map (restored_entry T) ?b) s'
      = (map f ?b, s'\<lparr>sup_commands := map (restored_entry T) ?b\<rparr>)"
    and f: "\<And>e. e \<in> set ?b \<Longrightarrow> ?name (f e) = fst e" "\<And>e. e \<in> set ?b \<Longrightarrow> cs_status (f e) = resumed_status J s (snd (snd e))"
    using load_restored_board [OF named assms(4), of J T dbg] by blast
  have names: "map ?name (map f ?b) = map fst ?b" using f(1) by simp
  have state: "get_state s (fst e) = Some (snd (snd e))" if "e \<in> set ?b" for e
    using wf that by (cases e) (simp add: get_state_def board_get_state_def)
  have "\<exists>c. get_state s (?name c') = Some c \<and> cs_status c' = resumed_status J s c" if "c' \<in> set (map f ?b)" for c'
    using that f state by auto
  moreover have "distinct (map ?name (map f ?b))" unfolding names by (rule wf)
  moreover have "?name ` set (map f ?b) = dom (get_state s)" unfolding dom_get_state set_map [symmetric] names ..
  ultimately show ?thesis using disk load get_state_restored by blast
qed

definition example_time :: time_lib where
  "example_time = \<lparr>unix_timestamp = (\<lambda>t. t div 1000), millisecond = (\<lambda>t. nat (t mod 1000)),
     from_unix_timestamp = (\<lambda>x. Some (x * 1000))\<rparr>"

lemma example_time_rule: "time_rule example_time"
  by (simp add: time_rule_def example_time_def)

theorem restart_resumes_commands_witness:
  "\<exists>b resumed s''.
    board_of_disk wildcard_free_mqtt example_time (board_to_disk example_time (sup_commands example_supervisor))
      = Some (Inr b)
    \<and> load_pending_commands code_serde example_time (\<lambda>_. []) b example_supervisor = (resumed, s'')
    \<and> get_state s'' = get_state example_supervisor
    \<and> (\<lambda>c. topic_name (cs_topic c)) ` set resumed = {''te/device/main///cmd/restart/1''}"
proof -
  have keys: "map fst (sup_commands example_supervisor) = [''te/device/main///cmd/restart/1'']" by code_simp
  have "dom (get_state example_supervisor) = set (map fst (sup_commands example_supervisor))"
    by (simp add: dom_get_state)
  then have dom: "dom (get_state example_supervisor) = {''te/device/main///cmd/restart/1''}"
    unfolding keys by simp
  then have "\<forall>k \<in> dom (get_state example_supervisor). no_wildcard k" by simp
  from restart_resumes_commands [OF wildcard_free_mqtt_rule example_time_rule example_supervised refl this,
      of code_serde "\<lambda>_. []"] dom
  show ?thesis by auto
qed

end
