(* ===== verification/Workflow_Repository.thy ===== *)
theory Workflow_Repository
  imports Supervisor_Restart
begin

text \<open>
  The repository of workflow definitions of the agent
  (\<^verbatim>\<open>tedge_agent/src/operation_workflows/persist.rs\<close>): a facade to the supervisor that loads definitions from
  disk, reloads them on changes, and keeps a copy of each definition that a command uses.  The files are an
  explicit state, a map from paths to contents in the order a directory is read; a path is a directory and a
  file name.  The parser of definitions, the digest that gives a definition its version and the failures of
  file operations are parameters.
\<close>

record path =
  path_dir :: string
  path_name :: string

type_synonym files = "(path, string) hmap"

record repo_lib =
  rl_digest :: "string \<Rightarrow> string"
  rl_workflow :: "string \<Rightarrow> string + operation_workflow"
  rl_ill_formed :: "string \<Rightarrow> operation_name option"
  rl_path_debug :: "path \<Rightarrow> string"
  rl_copy_ok :: "path \<Rightarrow> path \<Rightarrow> bool"
  rl_remove_ok :: "path \<Rightarrow> bool"

record workflow_repository =
  wr_builtin_workflows :: "operation_name list"
  wr_custom_workflows_dir :: string
  wr_state_dir :: string
  wr_definitions :: "(operation_name, string \<times> path) hmap"
  wr_in_use_copies :: "(string, 32 word) hmap"
  wr_workflows :: supervisor

section \<open>Paths\<close>

text \<open>\<^verbatim>\<open>Path::file_stem\<close> and \<^verbatim>\<open>extension\<close>: the parts of the file name around its last dot, unless it starts the name.\<close>

definition last_dot :: "string \<Rightarrow> (string \<times> string) option" where
  "last_dot name =
     (case split_once CHR ''.'' (rev name) of
        None \<Rightarrow> None
      | Some (ext, stem) \<Rightarrow> if stem = [] then None else Some (rev stem, rev ext))"

definition path_extension :: "path \<Rightarrow> string option" where
  "path_extension p = map_option snd (last_dot (path_name p))"

definition with_extension :: "path \<Rightarrow> string \<Rightarrow> path" where
  "with_extension p ext =
     p\<lparr>path_name := (case last_dot (path_name p) of Some (stem, _) \<Rightarrow> stem | None \<Rightarrow> path_name p) @ ''.'' @ ext\<rparr>"

definition path_join :: "string \<Rightarrow> string \<Rightarrow> path" where
  "path_join dir name = \<lparr>path_dir = dir, path_name = name\<rparr>"

definition repository_new :: "operation_name list \<Rightarrow> string \<Rightarrow> string \<Rightarrow> workflow_repository" where
  "repository_new builtin_workflows custom_workflows_dir state_dir =
     \<lparr>wr_builtin_workflows = builtin_workflows, wr_custom_workflows_dir = custom_workflows_dir,
      wr_state_dir = state_dir @ ''/workflows-in-use'', wr_definitions = [], wr_in_use_copies = [],
      wr_workflows = supervisor_default\<rparr>"

section \<open>Reading definitions\<close>

definition read_operation_workflow :: "repo_lib \<Rightarrow> files \<Rightarrow> path \<Rightarrow> (operation_workflow \<times> string) option" where
  "read_operation_workflow R fs p = do {
     input \<leftarrow> hm_get fs p;
     if \<not> utf8_bytes (map of_char input) then None
     else
       let version = rl_digest R input in
       case rl_workflow R input of
         Inr workflow \<Rightarrow> Some (workflow, version)
       | Inl err \<Rightarrow>
           (case rl_ill_formed R input of
              None \<Rightarrow> None
            | Some operation \<Rightarrow>
                let reason = ''Invalid operation workflow definition '' @ rl_path_debug R p @ '': '' @ err
                in Some (workflow_ill_formed operation reason, version)) }"

definition load_operation_workflow ::
  "path workflow_source \<Rightarrow> operation_workflow \<Rightarrow> string \<Rightarrow> workflow_repository \<Rightarrow> string \<times> workflow_repository" where
  "load_operation_workflow source workflow version r =
     (let operation_name = operation_to_str (wf_operation workflow);
          (version, r) =
            (case source of
               UserDefined definition \<Rightarrow>
                 (UserDefined version,
                  r\<lparr>wr_definitions := hm_insert operation_name (version, definition) (wr_definitions r)\<rparr>)
             | InUseCopy _ \<Rightarrow>
                 (InUseCopy version,
                  r\<lparr>wr_in_use_copies := hm_insert version
                      (case hm_get (wr_in_use_copies r) version of Some n \<Rightarrow> n + 1 | None \<Rightarrow> 1)
                      (wr_in_use_copies r)\<rparr>)
             | BuiltInSource \<Rightarrow> (BuiltInSource, r))
      in (operation_name,
          r\<lparr>wr_workflows := snd (register_custom_workflow version workflow (wr_workflows r))\<rparr>))"

definition load_file ::
  "repo_lib \<Rightarrow> files \<Rightarrow> string workflow_source \<Rightarrow> path \<Rightarrow> workflow_repository \<Rightarrow> workflow_repository" where
  "load_file R fs source file_path r =
     (if path_extension file_path = Some ''toml'' then
        (case read_operation_workflow R fs file_path of
           None \<Rightarrow> r
         | Some (workflow, version) \<Rightarrow>
             snd (load_operation_workflow (source_set_inner source file_path) workflow version r))
      else r)"

definition load_operation_workflows ::
  "repo_lib \<Rightarrow> files \<Rightarrow> string workflow_source \<Rightarrow> workflow_repository \<Rightarrow> workflow_repository" where
  "load_operation_workflows R fs source r =
     (case source_inner source of
        None \<Rightarrow> r
      | Some dir_path \<Rightarrow>
          fold (load_file R fs source) (filter (\<lambda>p. path_dir p = dir_path) (map fst fs)) r)"

definition load_builtin_workflows :: "workflow_repository \<Rightarrow> workflow_repository" where
  "load_builtin_workflows r =
     fold (\<lambda>capability r. r\<lparr>wr_workflows :=
             snd (register_builtin_workflow (operation_of_str capability) (wr_workflows r))\<rparr>)
       (wr_builtin_workflows r) r"

definition repository_load :: "repo_lib \<Rightarrow> files \<Rightarrow> workflow_repository \<Rightarrow> workflow_repository" where
  "repository_load R fs r =
     load_builtin_workflows
       (load_operation_workflows R fs (InUseCopy (wr_state_dir r))
         (load_operation_workflows R fs (UserDefined (wr_custom_workflows_dir r)) r))"

section \<open>Changes on disk\<close>

datatype fs_event =
    FileCreated path | Modified path | FileDeleted path | DirectoryCreated string | DirectoryDeleted string

definition is_user_defined :: "workflow_repository \<Rightarrow> path \<Rightarrow> bool" where
  "is_user_defined r p \<longleftrightarrow> path_extension p = Some ''toml'' \<and> path_dir p = wr_custom_workflows_dir r"

definition reload_operation_workflow ::
  "repo_lib \<Rightarrow> files \<Rightarrow> path \<Rightarrow> workflow_repository \<Rightarrow> operation_name option \<times> workflow_repository" where
  "reload_operation_workflow R fs p r =
     (case read_operation_workflow R fs p of
        Some (workflow, version) \<Rightarrow>
          let (cmd, r) = load_operation_workflow (UserDefined p) workflow version r in (Some cmd, r)
      | None \<Rightarrow> (None, r))"

definition remove_operation_workflow ::
  "path \<Rightarrow> workflow_repository \<Rightarrow> operation_name option \<times> workflow_repository" where
  "remove_operation_workflow removed_path r =
     (case find (\<lambda>(_, _, p). p = removed_path) (wr_definitions r) of
        None \<Rightarrow> (None, r)
      | Some (operation, removed_version, _) \<Rightarrow>
          let r = r\<lparr>wr_definitions := hm_remove operation (wr_definitions r)\<rparr>;
              (builtin_restored, s) = unregister_custom_workflow operation removed_version (wr_workflows r);
              r = r\<lparr>wr_workflows := s\<rparr>
          in (if builtin_restored then None else Some operation, r))"

definition update_operation_workflows ::
  "repo_lib \<Rightarrow> rumqttc \<Rightarrow> files \<Rightarrow> mqtt_schema \<Rightarrow> entity_topic_id \<Rightarrow> fs_event \<Rightarrow> workflow_repository
     \<Rightarrow> (mqtt_message option \<times> workflow_repository) panics" where
  "update_operation_workflows R L fs S target file_update r =
     (case file_update of
        Modified p \<Rightarrow>
          if is_user_defined r p \<and> hm_contains fs p then
            (case reload_operation_workflow R fs p r of
               (None, r) \<Rightarrow> Some (None, r)
             | (Some updated_operation, r) \<Rightarrow>
                 map_option (\<lambda>m. (m, r)) (supervisor_capability_message L S target updated_operation (wr_workflows r)))
          else Some (None, r)
      | FileDeleted p \<Rightarrow>
          if is_user_defined r p then
            (case remove_operation_workflow p r of
               (None, r) \<Rightarrow> Some (None, r)
             | (Some deprecated_operation, r) \<Rightarrow>
                 map_option (\<lambda>m. (Some m, r)) (deregistration_message L S target deprecated_operation))
          else Some (None, r)
      | _ \<Rightarrow> Some (None, r))"

section \<open>Copies in use\<close>

definition workflow_copy_path :: "workflow_repository \<Rightarrow> string \<Rightarrow> string \<Rightarrow> path" where
  "workflow_copy_path r operation version =
     with_extension (path_join (wr_state_dir r) (operation @ ''-'' @ version)) ''toml''"

definition persist_workflow_definition ::
  "repo_lib \<Rightarrow> string \<Rightarrow> string \<Rightarrow> files \<times> workflow_repository \<Rightarrow> files \<times> workflow_repository" where
  "persist_workflow_definition R operation version = (\<lambda>(fs, r).
     if version_is_builtin version then (fs, r)
     else case hm_get (wr_in_use_copies r) version of
       Some n \<Rightarrow> (fs, r\<lparr>wr_in_use_copies := hm_insert version (n + 1) (wr_in_use_copies r)\<rparr>)
     | None \<Rightarrow>
         (case hm_get (wr_definitions r) operation of
            None \<Rightarrow> (fs, r)
          | Some (_, source) \<Rightarrow>
              let target = workflow_copy_path r operation version in
              (case hm_get fs source of
                 Some content \<Rightarrow>
                   if rl_copy_ok R source target then
                     (hm_insert target content fs,
                      r\<lparr>wr_in_use_copies := hm_insert version 1 (wr_in_use_copies r)\<rparr>)
                   else (fs, r)
               | None \<Rightarrow> (fs, r))))"

definition release_in_use_copy ::
  "repo_lib \<Rightarrow> string \<Rightarrow> string \<Rightarrow> files \<times> workflow_repository \<Rightarrow> files \<times> workflow_repository" where
  "release_in_use_copy R operation version = (\<lambda>(fs, r).
     if version_is_builtin version then (fs, r)
     else
       let remaining = map_option (\<lambda>n. n - 1) (hm_get (wr_in_use_copies r) version) in
       if (case remaining of Some n \<Rightarrow> 0 < n | None \<Rightarrow> False) then
         (fs, r\<lparr>wr_in_use_copies := hm_insert version (the remaining) (wr_in_use_copies r)\<rparr>)
       else
         let r = r\<lparr>wr_in_use_copies := hm_remove version (wr_in_use_copies r)\<rparr>;
             target = workflow_copy_path r operation version
         in (if rl_remove_ok R target then hm_remove target fs else fs, r))"

definition get_latest_version ::
  "repo_lib \<Rightarrow> files \<Rightarrow> operation_name \<Rightarrow> workflow_repository \<Rightarrow> (path \<times> string \<times> operation_workflow) option" where
  "get_latest_version R fs operation r =
     (case hm_get (wr_definitions r) operation of
        Some (version, p) \<Rightarrow>
          (case read_operation_workflow R fs p of
             Some (workflow, latest) \<Rightarrow> if version \<noteq> latest then Some (p, latest, workflow) else None
           | None \<Rightarrow> None)
      | None \<Rightarrow>
          let p = with_extension (path_join (wr_custom_workflows_dir r) operation) ''toml'' in
          (case read_operation_workflow R fs p of
             Some (workflow, new) \<Rightarrow> Some (p, new, workflow)
           | None \<Rightarrow> None))"

definition load_latest_version ::
  "repo_lib \<Rightarrow> files \<Rightarrow> operation_name \<Rightarrow> workflow_repository \<Rightarrow> workflow_repository" where
  "load_latest_version R fs operation r =
     (case get_latest_version R fs operation r of
        Some (p, version, workflow) \<Rightarrow> snd (load_operation_workflow (UserDefined p) workflow version r)
      | None \<Rightarrow> r)"

section \<open>Commands\<close>

definition repo_apply_external_update ::
  "repo_lib \<Rightarrow> timestamp \<Rightarrow> operation_type \<Rightarrow> command_state \<Rightarrow> files \<times> workflow_repository
     \<Rightarrow> (workflow_execution_error + command_state option) \<times> files \<times> workflow_repository" where
  "repo_apply_external_update R now operation command = (\<lambda>(fs, r).
     let operation_name = operation_to_str operation;
         (fs, r) =
           (if is_init command then (fs, load_latest_version R fs operation_name r)
            else if is_finished command then
              (case workflow_version command of
                 Some version \<Rightarrow> release_in_use_copy R operation_name version (fs, r)
               | None \<Rightarrow> (fs, r))
            else (fs, r));
         (result, s) = apply_external_update now operation command (wr_workflows r);
         r = r\<lparr>wr_workflows := s\<rparr>
     in case result of
          Inl err \<Rightarrow> (Inl err, fs, r)
        | Inr None \<Rightarrow> (Inr None, fs, r)
        | Inr (Some new_state) \<Rightarrow>
            if is_init new_state then
              (Inr (Some new_state),
               (case workflow_version new_state of
                  Some version \<Rightarrow> persist_workflow_definition R operation_name version (fs, r)
                | None \<Rightarrow> (fs, r)))
            else (Inr (Some new_state), fs, r))"

definition repo_apply_internal_update ::
  "timestamp \<Rightarrow> command_state \<Rightarrow> workflow_repository \<Rightarrow> (workflow_execution_error + unit) \<times> workflow_repository" where
  "repo_apply_internal_update now command r =
     (let (result, s) = apply_internal_update now command (wr_workflows r)
      in (result, r\<lparr>wr_workflows := s\<rparr>))"

text \<open>Commands that were started by an agent without workflow versions are given the current version.\<close>

definition assign_version ::
  "repo_lib \<Rightarrow> command_state \<Rightarrow> files \<times> workflow_repository \<Rightarrow> command_state \<times> files \<times> workflow_repository" where
  "assign_version R command = (\<lambda>(fs, r).
     case workflow_version command of
       Some _ \<Rightarrow> (command, fs, r)
     | None \<Rightarrow>
         (case cs_operation command of
            None \<Rightarrow> (command, fs, r)
          | Some operation \<Rightarrow>
              let (version, s) = use_current_version operation (wr_workflows r);
                  r = r\<lparr>wr_workflows := s\<rparr>
              in (case version of
                    Some current_version \<Rightarrow>
                      (with_workflow_version current_version command,
                       persist_workflow_definition R operation current_version (fs, r))
                  | None \<Rightarrow> (command, fs, r))))"

fun assign_versions ::
  "repo_lib \<Rightarrow> command_board \<Rightarrow> files \<times> workflow_repository \<Rightarrow> command_board \<times> files \<times> workflow_repository" where
  "assign_versions R [] fr = ([], fr)"
| "assign_versions R ((k, t, command) # b) fr =
     (let (command, fr) = assign_version R command fr;
          (b, fr) = assign_versions R b fr
      in ((k, t, command) # b, fr))"

definition repo_load_pending_commands ::
  "repo_lib \<Rightarrow> serde \<Rightarrow> time_lib \<Rightarrow> (workflow_execution_error \<Rightarrow> string) \<Rightarrow> command_board
     \<Rightarrow> files \<times> workflow_repository \<Rightarrow> command_state list \<times> files \<times> workflow_repository" where
  "repo_load_pending_commands R J T dbg commands fr =
     (let (commands, fs, r) = assign_versions R commands fr;
          (resumed, s) = load_pending_commands J T dbg commands (wr_workflows r)
      in (resumed, fs, r\<lparr>wr_workflows := s\<rparr>))"

section \<open>Versions loaded from disk\<close>

lemma in_use_register:
  "in_use (snd (register_custom_workflow source workflow s)) op v =
     (case source of
        UserDefined _ \<Rightarrow> in_use s op v
      | BuiltInSource \<Rightarrow> if op = wf_operation workflow \<and> v = ''builtin'' then Some workflow else in_use s op v
      | InUseCopy u \<Rightarrow> if op = wf_operation workflow \<and> v = u then Some workflow else in_use s op v)"
proof (cases "hm_get (sup_workflows s) (wf_operation workflow)")
  case None
  then show ?thesis
    by (cases source) (auto simp: register_custom_workflow_def versions_new_def in_use_def update_conv' Let_def)
next
  case (Some vs)
  then show ?thesis
    by (cases source) (auto simp: register_custom_workflow_def versions_add_def in_use_def update_conv' Let_def)
qed

lemma load_operation_workflow_in_use:
  "in_use (wr_workflows (snd (load_operation_workflow source workflow version r))) op v =
     (case source of
        UserDefined _ \<Rightarrow> in_use (wr_workflows r) op v
      | BuiltInSource \<Rightarrow>
          if op = wf_operation workflow \<and> v = ''builtin'' then Some workflow else in_use (wr_workflows r) op v
      | InUseCopy _ \<Rightarrow>
          if op = wf_operation workflow \<and> v = version then Some workflow else in_use (wr_workflows r) op v)"
  by (cases source) (simp_all add: load_operation_workflow_def in_use_register Let_def)

lemma load_builtin_in_use:
  assumes "v \<noteq> ''builtin''"
  shows "in_use (wr_workflows (load_builtin_workflows r)) op v = in_use (wr_workflows r) op v"
proof -
  have "in_use (wr_workflows (fold (\<lambda>capability r. r\<lparr>wr_workflows :=
      snd (register_builtin_workflow (operation_of_str capability) (wr_workflows r))\<rparr>) caps r)) op v
      = in_use (wr_workflows r) op v" for caps r
    using assms by (induction caps arbitrary: r) (simp_all add: register_builtin_workflow_def in_use_register)
  then show ?thesis by (simp add: load_builtin_workflows_def)
qed

lemma load_user_defined_in_use:
  "in_use (wr_workflows (load_operation_workflows R fs (UserDefined dir) r)) op v = in_use (wr_workflows r) op v"
proof -
  have "in_use (wr_workflows (fold (load_file R fs (UserDefined dir)) ps r)) op v
      = in_use (wr_workflows r) op v" for ps r
    by (induction ps arbitrary: r)
      (auto simp: load_file_def load_operation_workflow_in_use split: option.split)
  then show ?thesis by (simp add: load_operation_workflows_def)
qed

text \<open>A file name in a directory that holds a definition, and the version the definition has.\<close>

definition copy_of :: "repo_lib \<Rightarrow> files \<Rightarrow> path \<Rightarrow> operation_workflow \<Rightarrow> string \<Rightarrow> bool" where
  "copy_of R fs p w v \<longleftrightarrow> path_extension p = Some ''toml'' \<and> read_operation_workflow R fs p = Some (w, v)"

lemma load_file_in_use:
  "copy_of R fs p w v \<Longrightarrow> in_use (wr_workflows (load_file R fs (InUseCopy dir) p r)) (wf_operation w) v = Some w"
  "\<forall>w. \<not> copy_of R fs p w v
    \<Longrightarrow> in_use (wr_workflows (load_file R fs (InUseCopy dir) p r)) op v = in_use (wr_workflows r) op v"
  by (auto simp: load_file_def copy_of_def load_operation_workflow_in_use split: option.split)

definition only_copies :: "repo_lib \<Rightarrow> files \<Rightarrow> operation_workflow \<Rightarrow> string \<Rightarrow> path set \<Rightarrow> bool" where
  "only_copies R fs w v ps \<longleftrightarrow> (\<forall>p \<in> ps. \<forall>w'. copy_of R fs p w' v \<longrightarrow> w' = w)"

lemma only_copiesD: "only_copies R fs w v ps \<Longrightarrow> p \<in> ps \<Longrightarrow> \<not> copy_of R fs p w v \<Longrightarrow> \<forall>w'. \<not> copy_of R fs p w' v"
  unfolding only_copies_def by blast

lemma only_copies_subset: "only_copies R fs w v ps \<Longrightarrow> ps' \<subseteq> ps \<Longrightarrow> only_copies R fs w v ps'"
  unfolding only_copies_def by blast

lemma load_copies_in_use:
  assumes "only_copies R fs w v (set ps)"
    and "(\<exists>p \<in> set ps. copy_of R fs p w v) \<or> in_use (wr_workflows r) (wf_operation w) v = Some w"
  shows "in_use (wr_workflows (fold (load_file R fs (InUseCopy dir)) ps r)) (wf_operation w) v = Some w"
  using assms
proof (induction ps arbitrary: r)
  case (Cons p ps)
  have rest: "only_copies R fs w v (set ps)" by (rule only_copies_subset [OF Cons.prems(1)]) auto
  show ?case
  proof (cases "copy_of R fs p w v")
    case True
    then show ?thesis using Cons.IH [OF rest] load_file_in_use(1) [OF True] by simp
  next
    case False
    have "\<forall>w'. \<not> copy_of R fs p w' v" by (rule only_copiesD [OF Cons.prems(1) _ False]) simp
    note same = load_file_in_use(2) [OF this, of dir r "wf_operation w"]
    show ?thesis using Cons.IH [OF rest] same Cons.prems(2) False by simp
  qed
qed simp

lemma repository_load_in_use:
  assumes "v \<noteq> ''builtin''" "p \<in> set (map fst fs)" "path_dir p = wr_state_dir r" "copy_of R fs p w v"
    and "only_copies R fs w v (set (map fst fs))"
  shows "in_use (wr_workflows (repository_load R fs r)) (wf_operation w) v = Some w"
proof -
  let ?ps = "filter (\<lambda>p. path_dir p = wr_state_dir r) (map fst fs)"
  have only: "only_copies R fs w v (set ?ps)" by (rule only_copies_subset [OF assms(5)]) auto
  have "p \<in> set ?ps" using assms(2,3) by simp
  with assms(4) have
    "in_use (wr_workflows (fold (load_file R fs (InUseCopy (wr_state_dir r))) ?ps r')) (wf_operation w) v = Some w"
    for r' by (intro load_copies_in_use [OF only]) blast
  then show ?thesis
    by (simp add: repository_load_def load_builtin_in_use [OF assms(1)] load_operation_workflows_def)
qed

section \<open>A command keeps its version\<close>

lemma last_dot_append: "CHR ''.'' \<notin> set ext \<Longrightarrow> stem \<noteq> [] \<Longrightarrow> last_dot (stem @ ''.'' @ ext) = Some (stem, ext)"
  by (simp add: last_dot_def)

lemma copy_path_extension:
  "path_extension (workflow_copy_path r operation version) = Some ''toml''"
  "path_dir (workflow_copy_path r operation version) = wr_state_dir r"
proof -
  define n where "n = operation @ ''-'' @ version"
  define stem where "stem = (case last_dot n of Some (stem, _) \<Rightarrow> stem | None \<Rightarrow> n)"
  have "stem \<noteq> []" by (auto simp: stem_def n_def last_dot_def split: option.split)
  then have "last_dot (stem @ ''.'' @ ''toml'') = Some (stem, ''toml'')" by (intro last_dot_append) simp_all
  moreover have "path_name (workflow_copy_path r operation version) = stem @ ''.'' @ ''toml''"
    by (simp add: workflow_copy_path_def with_extension_def path_join_def stem_def n_def split: option.split)
  ultimately show "path_extension (workflow_copy_path r operation version) = Some ''toml''"
    by (simp add: path_extension_def)
qed (simp add: workflow_copy_path_def with_extension_def path_join_def)

text \<open>
  A file with a well-formed definition.  An ill-formed one is accepted too, as a workflow that fails with a reason
  that holds the path of the file: there a copy is not the same workflow.
\<close>

definition file_defines :: "repo_lib \<Rightarrow> files \<Rightarrow> path \<Rightarrow> operation_workflow \<Rightarrow> string \<Rightarrow> bool" where
  "file_defines R fs p w v \<longleftrightarrow>
     (case hm_get fs p of
        None \<Rightarrow> False
      | Some content \<Rightarrow> utf8_bytes (map of_char content) \<and> rl_workflow R content = Inr w \<and> rl_digest R content = v)"

lemma defines_read: "file_defines R fs p w v \<Longrightarrow> read_operation_workflow R fs p = Some (w, v)"
  by (auto simp: file_defines_def read_operation_workflow_def split: option.splits)

lemma defines_same_content: "hm_get fs' p' = hm_get fs p \<Longrightarrow> file_defines R fs' p' w v = file_defines R fs p w v"
  by (simp add: file_defines_def)

text \<open>No other content than a definition of the workflow has its digest.\<close>

definition no_collision :: "repo_lib \<Rightarrow> files \<Rightarrow> operation_workflow \<Rightarrow> string \<Rightarrow> bool" where
  "no_collision R fs w v \<longleftrightarrow> (\<forall>content \<in> snd ` set fs. rl_digest R content = v \<longrightarrow> rl_workflow R content = Inr w)"

lemma no_collision_copies:
  assumes "no_collision R fs w v"
  shows "only_copies R fs w v ps"
proof -
  have "rl_workflow R content = Inr w" if "hm_get fs p = Some content" "rl_digest R content = v" for p content
    using assms map_of_SomeD [OF that(1)] that(2) by (force simp: no_collision_def)
  then show ?thesis
    by (auto simp: only_copies_def copy_of_def read_operation_workflow_def Let_def split: bind_splits if_splits sum.splits option.splits)
qed

text \<open>A repository in which the definition of an operation is the current version of its workflow.\<close>

definition defines_current ::
  "repo_lib \<Rightarrow> files \<Rightarrow> workflow_repository \<Rightarrow> path \<Rightarrow> operation_workflow \<Rightarrow> string \<Rightarrow> bool" where
  "defines_current R fs r p w v \<longleftrightarrow>
     file_defines R fs p w v
     \<and> (\<exists>v0 w0 vs. hm_get (wr_definitions r) (operation_to_str (wf_operation w)) = Some (v0, p)
         \<and> hm_get (sup_workflows (wr_workflows r)) (wf_operation w) = Some vs
         \<and> wv_current vs = Some (v0, w0) \<and> (v0 = v \<longrightarrow> w0 = w)
         \<and> hm_get (wv_in_use vs) v \<in> {None, Some w})"

lemma load_latest_version_spec:
  assumes "defines_current R fs r p w v"
  shows "\<exists>vs r'. load_latest_version R fs (operation_to_str (wf_operation w)) r = r'
    \<and> hm_get (wr_definitions r') (operation_to_str (wf_operation w)) = Some (v, p)
    \<and> hm_get (sup_workflows (wr_workflows r')) (wf_operation w) = Some vs
    \<and> wv_current vs = Some (v, w) \<and> hm_get (wv_in_use vs) v \<in> {None, Some w}
    \<and> sup_commands (wr_workflows r') = sup_commands (wr_workflows r)
    \<and> wr_in_use_copies r' = wr_in_use_copies r \<and> wr_state_dir r' = wr_state_dir r"
proof -
  obtain v0 w0 vs where d: "hm_get (wr_definitions r) (operation_to_str (wf_operation w)) = Some (v0, p)"
    "hm_get (sup_workflows (wr_workflows r)) (wf_operation w) = Some vs"
    "wv_current vs = Some (v0, w0)" "v0 = v \<longrightarrow> w0 = w" "hm_get (wv_in_use vs) v \<in> {None, Some w}"
    and read: "read_operation_workflow R fs p = Some (w, v)"
    using assms defines_read by (auto simp: defines_current_def)
  show ?thesis
  proof (cases "v0 = v")
    case True
    with d read show ?thesis by (simp add: load_latest_version_def get_latest_version_def)
  next
    case False
    with d read show ?thesis
      by (simp add: load_latest_version_def get_latest_version_def load_operation_workflow_def Let_def
          register_custom_workflow_def versions_add_def update_conv')
  qed
qed

text \<open>The copy of a workflow that is on disk is in use after a restart.\<close>

lemma restarted_copy_in_use:
  assumes "v \<noteq> ''builtin''" "wr_state_dir r = sd @ ''/workflows-in-use''"
    and "file_defines R fs p w v"
    and "hm_get fs' (workflow_copy_path r operation v) = hm_get fs p" "no_collision R fs' w v"
  shows "in_use (wr_workflows (repository_load R fs' (repository_new builtins dir sd))) (wf_operation w) v = Some w"
proof (rule repository_load_in_use [OF assms(1) _ _ _ no_collision_copies [OF assms(5)]])
  let ?target = "workflow_copy_path r operation v"
  have "hm_get fs' ?target \<noteq> None" using assms(3,4) by (auto simp: file_defines_def split: option.splits)
  then show "?target \<in> set (map fst fs')" by (auto dest!: map_of_SomeD intro!: rev_image_eqI)
  show "path_dir ?target = wr_state_dir (repository_new builtins dir sd)"
    using assms(2) copy_path_extension(2) by (simp add: repository_new_def)
  show "copy_of R fs' ?target w v"
    using assms(3) defines_same_content [OF assms(4)] defines_read copy_path_extension(1) by (simp add: copy_of_def)
qed

text \<open>
  C11. A command keeps the version of the workflow it started with, across restarts of the agent and changes of
  the definition.  When a new command is accepted for a well-formed definition of the user, and the definition has been
  copied for a former command or its copy now succeeds, the copy has the content of the definition, and a repository
  loaded later has the workflow of that version in use, whatever definitions the user has put in place of the first
  one, as long as the directory of the copies is as it was.  The hypothesis on the digests is that no other definition has the same one.
  (That a copy can be removed too early is shown by \<^verbatim>\<open>in_use_copy_released_early\<close>.)
\<close>

theorem command_version_survives_restart:
  assumes "defines_current R fs r p w v" "v \<noteq> ''builtin''"
    and "if hm_get (wr_in_use_copies r) v = None
         then rl_copy_ok R p (workflow_copy_path r (operation_to_str (wf_operation w)) v)
         else hm_get fs (workflow_copy_path r (operation_to_str (wf_operation w)) v) = hm_get fs p"
    and "wr_state_dir r = sd @ ''/workflows-in-use''"
    and "is_init c" "cs_wf L c" "get_state (wr_workflows r) (topic_name (cs_topic c)) = None"
  shows "\<exists>c' fs' r'. repo_apply_external_update R now (wf_operation w) c (fs, r) = (Inr (Some c'), fs', r')
    \<and> workflow_version c' = Some v
    \<and> in_use (wr_workflows r') (wf_operation w) v = Some w
    \<and> hm_get fs' = (hm_get fs)(workflow_copy_path r (operation_to_str (wf_operation w)) v := hm_get fs p)
    \<and> (\<forall>fs''. (\<forall>q. path_dir q = wr_state_dir r \<longrightarrow> hm_get fs'' q = hm_get fs' q)
         \<longrightarrow> no_collision R fs'' w v
         \<longrightarrow> in_use (wr_workflows (repository_load R fs'' (repository_new builtins dir sd))) (wf_operation w) v = Some w)"
proof -
  let ?op = "operation_to_str (wf_operation w)" and ?c = "with_workflow_version v c"
  obtain vs r1 where r1: "load_latest_version R fs ?op r = r1"
    "hm_get (wr_definitions r1) ?op = Some (v, p)"
    "hm_get (sup_workflows (wr_workflows r1)) (wf_operation w) = Some vs"
    "wv_current vs = Some (v, w)" "hm_get (wv_in_use vs) v \<in> {None, Some w}"
    "sup_commands (wr_workflows r1) = sup_commands (wr_workflows r)"
    "wr_in_use_copies r1 = wr_in_use_copies r" "wr_state_dir r1 = wr_state_dir r"
    using load_latest_version_spec [OF assms(1)] by blast
  obtain vs' where vs': "versions_use_current vs = (Some v, vs')" "hm_get (wv_in_use vs') v = Some w"
    using r1(4,5) by (auto simp: versions_use_current_def hm_contains_def update_conv')
  have c: "\<not> is_cleared c" "workflow_version ?c = Some v" "is_init ?c"
    using assms(5,6) with_version_version [OF assms(6), of v]
    by (auto simp: cs_wf_def is_cleared_def is_null_def is_init_def)
  have fresh: "hm_get (sup_commands (wr_workflows r1)) (topic_name (cs_topic c)) = None"
    using assms(7) r1(6) by (simp add: get_state_def board_get_state_def)
  let ?s = "wr_workflows r1\<lparr>sup_workflows := hm_insert (wf_operation w) vs' (sup_workflows (wr_workflows r1)),
    sup_commands := hm_insert (topic_name (cs_topic c)) (now, ?c) (sup_commands (wr_workflows r1))\<rparr>"
  have ext: "apply_external_update now (wf_operation w) c (wr_workflows r1) = (Inr (Some ?c), ?s)"
    using r1(3) vs'(1) c(1) assms(5) fresh by (simp add: apply_external_update_def board_insert_def Let_def)
  have read: "file_defines R fs p w v" using assms(1) by (simp add: defines_current_def)
  then obtain content where content: "hm_get fs p = Some content" by (auto simp: file_defines_def split: option.splits)
  let ?target = "workflow_copy_path r ?op v"
  have target: "workflow_copy_path (r1\<lparr>wr_workflows := ?s\<rparr>) ?op v = ?target"
    by (simp add: workflow_copy_path_def r1(8))
  obtain fs' n where persist: "persist_workflow_definition R ?op v (fs, r1\<lparr>wr_workflows := ?s\<rparr>)
      = (fs', r1\<lparr>wr_workflows := ?s, wr_in_use_copies := hm_insert v n (wr_in_use_copies r1)\<rparr>)"
    and fs': "hm_get fs' = (hm_get fs)(?target := hm_get fs p)"
    using assms(2,3) content r1(2,7) target
    by (cases "hm_get (wr_in_use_copies r) v")
      (auto simp: persist_workflow_definition_def version_is_builtin_def Let_def update_conv' fun_upd_idem)
  let ?r' = "r1\<lparr>wr_workflows := ?s, wr_in_use_copies := hm_insert v n (wr_in_use_copies r1)\<rparr>"
  have "repo_apply_external_update R now (wf_operation w) c (fs, r) = (Inr (Some ?c), fs', ?r')"
    using assms(5) c(2,3) ext persist by (simp add: repo_apply_external_update_def r1(1) Let_def)
  moreover have "in_use (wr_workflows ?r') (wf_operation w) v = Some w"
    using vs'(2) by (simp add: in_use_def update_conv')
  moreover have "in_use (wr_workflows (repository_load R fs'' (repository_new builtins dir sd))) (wf_operation w) v = Some w"
    if same: "\<forall>q. path_dir q = wr_state_dir r \<longrightarrow> hm_get fs'' q = hm_get fs' q"
      and only: "no_collision R fs'' w v" for fs''
    by (rule restarted_copy_in_use [OF assms(2,4) read _ only, where operation = ?op])
      (use same fs' copy_path_extension(2) in simp)
  ultimately show ?thesis using c(2) fs' by blast
qed

definition example_repo_lib :: repo_lib where
  "example_repo_lib =
     \<lparr>rl_digest = (\<lambda>s. ''v'' @ s), rl_workflow = (\<lambda>s. Inr (workflow_ill_formed ''restart'' s)),
      rl_ill_formed = (\<lambda>_. None), rl_path_debug = path_name, rl_copy_ok = (\<lambda>_ _. True), rl_remove_ok = (\<lambda>_. True)\<rparr>"

definition example_files :: files where
  "example_files = [(path_join ''/ops'' ''restart.toml'', ''1'')]"

definition example_repository :: workflow_repository where
  "example_repository = repository_load example_repo_lib example_files (repository_new [] ''/ops'' ''/state'')"

theorem command_version_survives_restart_witness:
  "\<exists>c' fs' r'. repo_apply_external_update example_repo_lib 0 Restart example_command (example_files, example_repository)
      = (Inr (Some c'), fs', r')
    \<and> workflow_version c' = Some ''v1''
    \<and> in_use (wr_workflows (repository_load example_repo_lib
          [(path_join ''/ops'' ''restart.toml'', ''2''),
           (path_join ''/state/workflows-in-use'' ''restart-v1.toml'', ''1'')]
          (repository_new [] ''/ops'' ''/state''))) Restart ''v1'' = Some (workflow_ill_formed ''restart'' ''1'')"
proof -
  let ?w = "workflow_ill_formed ''restart'' ''1''" and ?p = "path_join ''/ops'' ''restart.toml''"
  let ?copy = "path_join ''/state/workflows-in-use'' ''restart-v1.toml''"
  let ?fs = "[(?p, ''2''), (?copy, ''1'')]"
  have op: "wf_operation ?w = Restart" by code_simp
  have "file_defines example_repo_lib example_files ?p ?w ''v1''"
    by code_simp
  then have current: "defines_current example_repo_lib example_files example_repository ?p ?w ''v1''"
    unfolding defines_current_def op
    by (intro conjI exI [of _ "''v1''"] exI [of _ ?w]
        exI [of _ "\<lparr>wv_operation = ''restart'', wv_current = Some (''v1'', ?w), wv_in_use = []\<rparr>"]; code_simp)
  have facts: "''v1'' \<noteq> ''builtin''"
    "if hm_get (wr_in_use_copies example_repository) ''v1'' = None
     then rl_copy_ok example_repo_lib ?p (workflow_copy_path example_repository (operation_to_str (wf_operation ?w)) ''v1'')
     else hm_get example_files (workflow_copy_path example_repository (operation_to_str (wf_operation ?w)) ''v1'') = hm_get example_files ?p"
    "wr_state_dir example_repository = ''/state'' @ ''/workflows-in-use''"
    "is_init example_command"
    "get_state (wr_workflows example_repository) (topic_name (cs_topic example_command)) = None"
    by code_simp+
  have copy: "workflow_copy_path example_repository (operation_to_str Restart) ''v1'' = ?copy"
    "wr_state_dir example_repository = ''/state/workflows-in-use''" by code_simp+
  obtain c' fs' r' where applied:
    "repo_apply_external_update example_repo_lib 0 Restart example_command (example_files, example_repository)
      = (Inr (Some c'), fs', r')" "workflow_version c' = Some ''v1''"
    "hm_get fs' = (hm_get example_files)(?copy := hm_get example_files ?p)"
    and later: "\<forall>fs''. (\<forall>q. path_dir q = ''/state/workflows-in-use'' \<longrightarrow> hm_get fs'' q = hm_get fs' q)
         \<longrightarrow> no_collision example_repo_lib fs'' ?w ''v1''
         \<longrightarrow> in_use (wr_workflows (repository_load example_repo_lib fs'' (repository_new [] ''/ops'' ''/state'')))
               Restart ''v1'' = Some ?w"
    using command_version_survives_restart [OF current facts(1-4) example_command_wf facts(5),
        of 0 "[]" "''/ops''", unfolded op copy] by (elim exE conjE) (rule that)
  have "\<forall>q. path_dir q = ''/state/workflows-in-use'' \<longrightarrow> hm_get ?fs q = hm_get fs' q"
    by (auto simp: applied(3) example_files_def path_join_def)
  moreover have "no_collision example_repo_lib ?fs ?w ''v1''"
    by (simp add: no_collision_def example_repo_lib_def)
  ultimately show ?thesis using applied(1,2) later by blast
qed

section \<open>Copies in use are counted per file\<close>

definition is_copy :: "repo_lib \<Rightarrow> files \<Rightarrow> string \<Rightarrow> path \<Rightarrow> bool" where
  "is_copy R fs v p \<longleftrightarrow> (\<exists>w. copy_of R fs p w v)"

lemma load_file_counts:
  "hm_get (wr_in_use_copies (load_file R fs (InUseCopy dir) p r)) v =
     (if is_copy R fs v p
      then Some (case hm_get (wr_in_use_copies r) v of Some n \<Rightarrow> n + 1 | None \<Rightarrow> 1)
      else hm_get (wr_in_use_copies r) v)"
  by (auto simp: load_file_def is_copy_def copy_of_def load_operation_workflow_def Let_def update_conv'
      split: option.split)

lemma load_copies_count:
  assumes "filter (is_copy R fs v) ps = [p]" "hm_get (wr_in_use_copies r) v = None"
  shows "hm_get (wr_in_use_copies (fold (load_file R fs (InUseCopy dir)) ps r)) v = Some 1"
proof -
  have none: "hm_get (wr_in_use_copies (fold (load_file R fs (InUseCopy dir)) qs r)) v = hm_get (wr_in_use_copies r) v"
    if "filter (is_copy R fs v) qs = []" for qs r
    using that by (induction qs arbitrary: r) (auto simp: load_file_counts split: if_splits)
  obtain us ws where ps: "ps = us @ p # ws" "filter (is_copy R fs v) us = []" "filter (is_copy R fs v) ws = []"
    "is_copy R fs v p"
    using assms(1) [unfolded filter_eq_Cons_iff] by (metis filter_empty_conv)
  then show ?thesis using none assms(2) by (simp add: load_file_counts)
qed

lemma repository_load_count:
  assumes "filter (is_copy R fs v) (filter (\<lambda>p. path_dir p = wr_state_dir r) (map fst fs)) = [p]"
    and "wr_in_use_copies r = []"
  shows "hm_get (wr_in_use_copies (repository_load R fs r)) v = Some 1"
proof -
  have user: "wr_in_use_copies (fold (load_file R fs (UserDefined dir)) ps r) = wr_in_use_copies r" for ps dir r
    by (induction ps arbitrary: r)
      (auto simp: load_file_def load_operation_workflow_def Let_def split: option.split)
  have builtin: "wr_in_use_copies (load_builtin_workflows r) = wr_in_use_copies r" for r
  proof -
    have "wr_in_use_copies (fold (\<lambda>c r. r\<lparr>wr_workflows :=
        snd (register_builtin_workflow (operation_of_str c) (wr_workflows r))\<rparr>) cs r) = wr_in_use_copies r" for cs r
      by (induction cs arbitrary: r) simp_all
    then show ?thesis by (simp add: load_builtin_workflows_def)
  qed
  show ?thesis
    using assms by (simp add: repository_load_def builtin load_operation_workflows_def load_copies_count [OF assms(1)] user)
qed

lemma assign_versions_done:
  "\<forall>(k, t, c) \<in> set b. workflow_version c \<noteq> None \<Longrightarrow> assign_versions R b fr = (b, fr)"
  by (induction b) (auto simp: assign_version_def split: option.split)

lemma repository_load_dirs:
  "wr_state_dir (repository_load R fs r) = wr_state_dir r"
proof -
  have dir: "wr_state_dir (fold (load_file R fs source) ps r) = wr_state_dir r" for source ps r
    by (induction ps arbitrary: r)
      (auto simp: load_file_def load_operation_workflow_def Let_def split: option.split workflow_source.split prod.split)
  have "wr_state_dir (fold (\<lambda>c r. r\<lparr>wr_workflows :=
      snd (register_builtin_workflow (operation_of_str c) (wr_workflows r))\<rparr>) cs r) = wr_state_dir r" for cs and r :: workflow_repository
    by (induction cs arbitrary: r) simp_all
  then show ?thesis by (simp add: repository_load_def load_builtin_workflows_def load_operation_workflows_def dir)
qed

lemma external_not_init:
  "apply_external_update now operation c s = (Inr (Some x), s') \<Longrightarrow> \<not> is_init c \<Longrightarrow> \<not> is_init x"
  by (auto simp: apply_external_update_def split: option.splits if_splits)

lemma repo_external_finished:
  assumes "is_finished c" "workflow_version c = Some v"
  shows "fst (snd (repo_apply_external_update R now operation c fr))
    = fst (release_in_use_copy R (operation_to_str operation) v fr)"
proof -
  have ni: "\<not> is_init c" using assms(1) by (auto simp: is_finished_def is_successful_def is_failed_def is_init_def)
  obtain fs r where fr: "fr = (fs, r)" by (cases fr)
  obtain fs' r' where rel: "release_in_use_copy R (operation_to_str operation) v (fs, r) = (fs', r')" by fastforce
  obtain result s where ext: "apply_external_update now operation c (wr_workflows r') = (result, s)" by fastforce
  show ?thesis
    using external_not_init ni assms rel ext unfolding repo_apply_external_update_def fr
    by (auto simp: Let_def split: sum.split option.split)
qed

text \<open>
  After a restart the copy of a workflow is counted once, however many resumed commands use it: the first of
  them that finishes removes the copy from the disk, and the others lose their workflow at the next restart.
\<close>

lemma in_use_copy_released_early:
  fixes R fs builtins dir sd
  defines "r0 \<equiv> repository_new builtins dir sd"
  assumes "v \<noteq> ''builtin''"
    and "filter (is_copy R fs v) (filter (\<lambda>p. path_dir p = wr_state_dir r0) (map fst fs))
      = [workflow_copy_path r0 (operation_to_str operation) v]"
    and "rl_remove_ok R (workflow_copy_path r0 (operation_to_str operation) v)"
    and "\<forall>(k, t, c) \<in> set b. workflow_version c \<noteq> None"
    and "is_finished c" "workflow_version c = Some v"
    and "repo_load_pending_commands R J T dbg b (fs, repository_load R fs r0) = (resumed, fs1, r1)"
    and "repo_apply_external_update R now operation c (fs1, r1) = (result, fs2, r2)"
  shows "hm_get fs2 (workflow_copy_path r0 (operation_to_str operation) v) = None"
proof -
  let ?op = "operation_to_str operation" and ?r = "repository_load R fs r0"
  have one: "hm_get (wr_in_use_copies ?r) v = Some 1"
    using repository_load_count [OF assms(3)] by (simp add: r0_def repository_new_def)
  obtain s where r1: "fs1 = fs" "r1 = ?r\<lparr>wr_workflows := s\<rparr>"
    using assms(8) by (auto simp: repo_load_pending_commands_def assign_versions_done [OF assms(5)] split: prod.splits)
  have target: "workflow_copy_path (r1\<lparr>wr_in_use_copies := m\<rparr>) ?op v = workflow_copy_path r0 ?op v" for m
    by (simp add: workflow_copy_path_def r1(2) repository_load_dirs)
  have "fst (release_in_use_copy R ?op v (fs1, r1)) = hm_remove (workflow_copy_path r0 ?op v) fs"
    using one assms(2,4) target r1(1)
    by (simp add: release_in_use_copy_def version_is_builtin_def r1(2) Let_def)
  moreover have "fs2 = fst (release_in_use_copy R ?op v (fs1, r1))"
    using repo_external_finished [OF assms(6,7), of R now operation "(fs1, r1)"] assms(9) by simp
  ultimately show ?thesis by (simp add: delete_conv')
qed

definition example_copies :: files where
  "example_copies = [(path_join ''/state/workflows-in-use'' ''restart-v1.toml'', ''1'')]"

definition example_pending :: "string \<Rightarrow> command_state" where
  "example_pending name =
     (with_workflow_version ''v1'' example_command)
       \<lparr>cs_topic := topic_new_unchecked (''te/device/main///cmd/restart/'' @ name)\<rparr>"

lemma in_use_copy_released_early_instance:
  "\<exists>resumed fs1 r1 result fs2 r2.
     repo_load_pending_commands example_repo_lib code_serde example_time (\<lambda>_. [])
       [(''te/device/main///cmd/restart/1'', 0, example_pending ''1''),
        (''te/device/main///cmd/restart/2'', 0, example_pending ''2'')]
       (example_copies, repository_load example_repo_lib example_copies (repository_new [] ''/ops'' ''/state''))
     = (resumed, fs1, r1)
   \<and> repo_apply_external_update example_repo_lib 0 Restart (cs_update update_successful (example_pending ''1'')) (fs1, r1)
     = (result, fs2, r2)
   \<and> hm_get fs2 (path_join ''/state/workflows-in-use'' ''restart-v1.toml'') = None"
proof -
  let ?r0 = "repository_new [] ''/ops'' ''/state''" and ?c = "cs_update update_successful (example_pending ''1'')"
  let ?b = "[(''te/device/main///cmd/restart/1'', 0 :: int, example_pending ''1''),
    (''te/device/main///cmd/restart/2'', 0, example_pending ''2'')]"
  obtain resumed fs1 r1 where load: "repo_load_pending_commands example_repo_lib code_serde example_time (\<lambda>_. [])
      ?b (example_copies, repository_load example_repo_lib example_copies ?r0) = (resumed, fs1, r1)"
    by (metis prod_cases3)
  obtain result fs2 r2 where apply_eq:
    "repo_apply_external_update example_repo_lib 0 Restart ?c (fs1, r1) = (result, fs2, r2)"
    by (metis prod_cases3)
  have target: "workflow_copy_path ?r0 (operation_to_str Restart) ''v1''
      = path_join ''/state/workflows-in-use'' ''restart-v1.toml''"
    "wr_state_dir ?r0 = ''/state/workflows-in-use''" by code_simp+
  have "is_copy example_repo_lib example_copies ''v1'' (path_join ''/state/workflows-in-use'' ''restart-v1.toml'')"
    unfolding is_copy_def copy_of_def by (rule exI [of _ "workflow_ill_formed ''restart'' ''1''"]) code_simp
  then have one: "filter (is_copy example_repo_lib example_copies ''v1'')
      (filter (\<lambda>p. path_dir p = wr_state_dir ?r0) (map fst example_copies))
      = [workflow_copy_path ?r0 (operation_to_str Restart) ''v1'']"
    unfolding target by (simp add: example_copies_def path_join_def)
  have pending: "\<forall>(k, t, c) \<in> set ?b. workflow_version c \<noteq> None" by code_simp
  have facts: "''v1'' \<noteq> ''builtin''"
    "rl_remove_ok example_repo_lib (workflow_copy_path ?r0 (operation_to_str Restart) ''v1'')"
    "is_finished ?c" "workflow_version ?c = Some ''v1''" by code_simp+
  from in_use_copy_released_early [OF facts(1) one facts(2) pending facts(3,4) load apply_eq] load apply_eq
  show ?thesis unfolding target by blast
qed

end
