(* ===== verification/Workflow_Actor.thy ===== *)
theory Workflow_Actor
  imports Workflow_Repository
begin

text \<open>
  The actor of the agent that runs the workflows (\<^verbatim>\<open>tedge_agent/src/operation_workflows/actor.rs\<close> and the
  dispatcher of \<^verbatim>\<open>message_box.rs\<close>).  The state of the actor holds its repository, the files, the board it
  has stored, and what it sends: states of commands to itself (a queue), states to the built-in operations, and
  messages to the broker.  A handler takes one input and the current time.  The outcome of a script and of
  the storage of the board are parameters.  A handler has no result if it panics or does not return.  The entries
  of log files are not modelled, only the path of the log of a command, which the state of the command holds.
\<close>

record execute =
  ex_command :: string
  ex_args :: "string list"
  ex_timeouts :: "(duration \<times> duration) option"

definition execute_new :: "string \<Rightarrow> string list \<Rightarrow> execute" where
  "execute_new command args = \<lparr>ex_command = command, ex_args = args, ex_timeouts = None\<rparr>"

definition with_graceful_timeout :: "duration \<Rightarrow> execute \<Rightarrow> execute" where
  "with_graceful_timeout graceful e =
     e\<lparr>ex_timeouts := Some (case ex_timeouts e of
          None \<Rightarrow> (graceful, from_secs 5)
        | Some (_, forceful) \<Rightarrow> (graceful, forceful))\<rparr>"

definition with_forceful_timeout_extension :: "duration \<Rightarrow> execute \<Rightarrow> execute" where
  "with_forceful_timeout_extension forceful e =
     e\<lparr>ex_timeouts := Some (case ex_timeouts e of
          None \<Rightarrow> (from_secs 15, forceful)
        | Some (graceful, _) \<Rightarrow> (graceful, forceful))\<rparr>"

record actor_lib =
  al_mqtt :: rumqttc
  al_scripts :: script_lib
  al_time :: time_lib
  al_repo :: repo_lib
  al_debug :: "workflow_execution_error \<Rightarrow> string"
  al_run :: "execute \<Rightarrow> script_outcome"
  al_store_ok :: "on_disk_board \<Rightarrow> bool"

abbreviation al_json :: "actor_lib \<Rightarrow> serde" where
  "al_json B \<equiv> sl_json (al_scripts B)"

record workflow_actor =
  wa_schema :: mqtt_schema
  wa_device :: entity_topic_id
  wa_log_dir :: string
  wa_handlers :: "operation_name list"
  wa_files :: files
  wa_repo :: workflow_repository
  wa_board_file :: "on_disk_board option"
  wa_queue :: "command_state list"
  wa_dispatched :: "command_state list"
  wa_published :: "mqtt_message list"
  wa_slept :: "duration list"
  wa_scripts :: "execute list"

abbreviation wa_sup :: "workflow_actor \<Rightarrow> supervisor" where
  "wa_sup a \<equiv> wr_workflows (wa_repo a)"

section \<open>Outputs\<close>

definition publish :: "mqtt_message \<Rightarrow> workflow_actor \<Rightarrow> workflow_actor" where
  "publish m a = a\<lparr>wa_published := wa_published a @ [m]\<rparr>"

definition send_command :: "command_state \<Rightarrow> workflow_actor \<Rightarrow> workflow_actor" where
  "send_command c a = a\<lparr>wa_queue := wa_queue a @ [c]\<rparr>"

definition dispatch :: "command_state \<Rightarrow> workflow_actor \<Rightarrow> workflow_actor" where
  "dispatch c a =
     (case cs_operation c of
        None \<Rightarrow> a
      | Some operation \<Rightarrow>
          if operation \<in> set (wa_handlers a) then a\<lparr>wa_dispatched := wa_dispatched a @ [c]\<rparr> else a)"

definition run_script :: "actor_lib \<Rightarrow> execute \<Rightarrow> workflow_actor \<Rightarrow> script_outcome \<times> workflow_actor" where
  "run_script B command a = (al_run B command, a\<lparr>wa_scripts := wa_scripts a @ [command]\<rparr>)"

definition persist_command_board :: "actor_lib \<Rightarrow> workflow_actor \<Rightarrow> workflow_actor" where
  "persist_command_board B a =
     (let board = board_to_disk (al_time B) (sup_commands (wa_sup a)) in
      if al_store_ok B board then a\<lparr>wa_board_file := Some board\<rparr> else a)"

definition extract_command_identifiers ::
  "actor_lib \<Rightarrow> workflow_actor \<Rightarrow> string \<Rightarrow> (operation_type \<times> command_id) option" where
  "extract_command_identifiers B a t =
     (case entity_channel_of (al_mqtt B) (wa_schema a) t of
        Inr (_, Command operation cmd_id) \<Rightarrow> Some (operation, cmd_id)
      | _ \<Rightarrow> None)"

definition open_command_log ::
  "actor_lib \<Rightarrow> workflow_actor \<Rightarrow> command_state \<Rightarrow> operation_type \<Rightarrow> command_id \<Rightarrow> string panics" where
  "open_command_log B a state operation cmd_id = do {
     root_command \<leftarrow> root_invoking_command_state (wa_sup a) state;
     let (root_operation, root_cmd_id) =
       (case root_command \<bind> (\<lambda>c. extract_command_identifiers B a (topic_name (cs_topic c))) of
          None \<Rightarrow> (operation_to_str operation, cmd_id)
        | Some (op, i) \<Rightarrow> (operation_to_str op, i));
     Some (wa_log_dir a @ ''/'' @ ''workflow-'' @ root_operation @ ''-'' @ root_cmd_id @ ''.log'') }"

definition publish_command_state ::
  "actor_lib \<Rightarrow> timestamp \<Rightarrow> command_state \<Rightarrow> workflow_actor \<Rightarrow> workflow_actor" where
  "publish_command_state B now new_state a =
     (let a = a\<lparr>wa_repo := snd (repo_apply_internal_update now new_state (wa_repo a))\<rparr>;
          a = persist_command_board B a;
          a = (if is_cleared new_state then a else send_command new_state a)
      in publish (into_message (al_json B) new_state) a)"

section \<open>Actions\<close>

definition do_clear :: "command_state \<Rightarrow> workflow_actor \<Rightarrow> workflow_actor" where
  "do_clear state a =
     (case invoking_command_state (wa_sup a) state of
        Some invoking_command \<Rightarrow> send_command invoking_command a
      | None \<Rightarrow> a)"

definition do_builtin_operation ::
  "actor_lib \<Rightarrow> timestamp \<Rightarrow> operation_action \<Rightarrow> exec_handlers \<Rightarrow> command_state \<Rightarrow> workflow_actor \<Rightarrow> workflow_actor" where
  "do_builtin_operation B now action handlers state a =
     (let builtin_state = adapt_builtin_request action state;
          new_state = cs_update (xh_on_exec handlers) state
      in dispatch builtin_state (publish_command_state B now new_state a))"

definition do_await_restart ::
  "actor_lib \<Rightarrow> timestamp \<Rightarrow> await_handlers \<Rightarrow> command_state \<Rightarrow> workflow_actor \<Rightarrow> workflow_actor" where
  "do_await_restart B now handlers state a =
     (let pause = (case ah_timeout handlers of Some t \<Rightarrow> t | None \<Rightarrow> 0) + from_secs 60
      in publish_command_state B now (cs_update (ah_on_timeout handlers) state)
           (a\<lparr>wa_slept := wa_slept a @ [pause]\<rparr>))"

definition script_command :: "shell_script \<Rightarrow> exit_handlers \<Rightarrow> execute" where
  "script_command script handlers =
     (let command = execute_new (sh_command script) (sh_args script)
      in case (graceful_timeout handlers, forceful_timeout_extension handlers) of
           (Some timeout, Some extra) \<Rightarrow>
             with_forceful_timeout_extension extra (with_graceful_timeout timeout command)
         | (Some timeout, None) \<Rightarrow> with_graceful_timeout timeout command
         | (None, _) \<Rightarrow> command)"

definition do_script ::
  "actor_lib \<Rightarrow> timestamp \<Rightarrow> shell_script \<Rightarrow> exit_handlers \<Rightarrow> command_state \<Rightarrow> workflow_actor \<Rightarrow> workflow_actor" where
  "do_script B now script handlers state a =
     (let (output, a) = run_script B (script_command script handlers) a;
          new_state = update_with_script_output (al_scripts B) (sh_command script) output handlers state
      in publish_command_state B now new_state a)"

definition do_background_script ::
  "actor_lib \<Rightarrow> timestamp \<Rightarrow> shell_script \<Rightarrow> exec_handlers \<Rightarrow> command_state \<Rightarrow> workflow_actor \<Rightarrow> workflow_actor" where
  "do_background_script B now script handlers state a =
     snd (run_script B (execute_new (sh_command script) (sh_args script))
       (publish_command_state B now (cs_update (xh_on_exec handlers) state) a))"

definition do_operation ::
  "actor_lib \<Rightarrow> timestamp \<Rightarrow> operation_type \<Rightarrow> command_id \<Rightarrow> operation_name \<Rightarrow> shell_script option \<Rightarrow> state_excerpt
     \<Rightarrow> exec_handlers \<Rightarrow> command_state \<Rightarrow> workflow_actor \<Rightarrow> workflow_actor panics" where
  "do_operation B now operation cmd_id sub_operation input_script input_excerpt handlers state a =
     (let (generated, a) =
        (case input_script of
           None \<Rightarrow> (Inr (JObject []), a)
         | Some script \<Rightarrow>
             let (output, a) = run_script B (execute_new (sh_command script) (sh_args script)) a
             in (extract_json_output (al_scripts B) (sh_command script) output, a))
      in case generated of
        Inl reason \<Rightarrow> Some (publish_command_state B now (cs_update (update_failed reason) state) a)
      | Inr generated_init_state \<Rightarrow> do {
          let sub_cmd_input = extract_value_from state input_excerpt;
          sub_state \<leftarrow> sub_command_init_state (al_mqtt B) (wa_schema a) (wa_device a) operation cmd_id sub_operation;
          let sub_cmd_init_state =
            update_with_json (JObject [(''status'', JString ''init'')])
              (update_with_json sub_cmd_input (update_with_json generated_init_state sub_state));
          let a = publish_command_state B now (cs_update (xh_on_exec handlers) state) a;
          Some (publish (into_message (al_json B) sub_cmd_init_state) a) })"

definition do_await_operation ::
  "actor_lib \<Rightarrow> timestamp \<Rightarrow> await_handlers \<Rightarrow> state_excerpt \<Rightarrow> command_state \<Rightarrow> workflow_actor \<Rightarrow> workflow_actor" where
  "do_await_operation B now handlers output_excerpt state a =
     (case sub_command_state (wa_sup a) state of
        None \<Rightarrow> a
      | Some sub_state \<Rightarrow>
          if is_finished sub_state then
            let new_state =
                  (if is_successful sub_state then
                     cs_update (ah_on_success handlers)
                       (update_with_json (extract_value_from sub_state output_excerpt) state)
                   else cs_update (ah_on_error handlers) state);
                a = publish_command_state B now new_state a
            in publish_command_state B now (cs_clear sub_state) a
          else a)"

definition do_iterate ::
  "actor_lib \<Rightarrow> timestamp \<Rightarrow> string \<Rightarrow> iterate_handlers \<Rightarrow> command_state \<Rightarrow> workflow_actor \<Rightarrow> workflow_actor panics" where
  "do_iterate B now target_json_path handlers state a =
     (case process_iterate target_json_path handlers state of
        None \<Rightarrow> None
      | Some (Inr next_state) \<Rightarrow> Some (publish_command_state B now next_state a)
      | Some (Inl _) \<Rightarrow> Some (publish_command_state B now (cs_update (ih_on_error handlers) state) a))"

definition do_action ::
  "actor_lib \<Rightarrow> timestamp \<Rightarrow> operation_type \<Rightarrow> command_id \<Rightarrow> operation_action \<Rightarrow> command_state \<Rightarrow> workflow_actor
     \<Rightarrow> workflow_actor panics" where
  "do_action B now operation cmd_id action state a =
     (case action of
        Clear \<Rightarrow> Some (do_clear state a)
      | MoveTo next_step \<Rightarrow> Some (publish_command_state B now (move_to next_step state) a)
      | BuiltIn _ _ \<Rightarrow> Some (dispatch state a)
      | BuiltInOperation _ handlers \<Rightarrow> Some (do_builtin_operation B now action handlers state a)
      | AwaitingAgentRestart handlers \<Rightarrow> Some (do_await_restart B now handlers state a)
      | Script script handlers \<Rightarrow> Some (do_script B now script handlers state a)
      | BgScript script handlers \<Rightarrow> Some (do_background_script B now script handlers state a)
      | Operation sub_operation input_script input_excerpt handlers \<Rightarrow>
          do_operation B now operation cmd_id sub_operation input_script input_excerpt handlers state a
      | AwaitOperationCompletion handlers output_excerpt \<Rightarrow>
          Some (do_await_operation B now handlers output_excerpt state a)
      | Iterate target_json_path handlers \<Rightarrow> do_iterate B now target_json_path handlers state a)"

definition process_command_update ::
  "actor_lib \<Rightarrow> timestamp \<Rightarrow> command_state \<Rightarrow> workflow_actor \<Rightarrow> workflow_actor panics" where
  "process_command_update B now state a =
     (case extract_command_identifiers B a (topic_name (cs_topic state)) of
        None \<Rightarrow> Some a
      | Some (operation, cmd_id) \<Rightarrow> do {
          open_command_log B a state operation cmd_id;
          (case get_action (al_json B) (wa_sup a) state of
             Inl _ \<Rightarrow> Some a
           | Inr action \<Rightarrow> do_action B now operation cmd_id action state a) })"

section \<open>Inputs\<close>

definition process_mqtt_message ::
  "actor_lib \<Rightarrow> timestamp \<Rightarrow> mqtt_message \<Rightarrow> workflow_actor \<Rightarrow> workflow_actor panics" where
  "process_mqtt_message B now m a =
     (case extract_command_identifiers B a (topic_name (mm_topic m)) of
        None \<Rightarrow> Some a
      | Some (operation, cmd_id) \<Rightarrow> do {
          parsed \<leftarrow> from_command_message (al_mqtt B) (al_json B) m;
          (case parsed of
             Inl _ \<Rightarrow> Some a
           | Inr state \<Rightarrow> do {
               log_path \<leftarrow> open_command_log B a state operation cmd_id;
               let (result, fs, r) = repo_apply_external_update (al_repo B) now operation state (wa_files a, wa_repo a);
               let a = a\<lparr>wa_files := fs, wa_repo := r\<rparr>;
               (case result of
                  Inr (Some new_state) \<Rightarrow>
                    let a = persist_command_board B a in
                    if is_init new_state then process_command_update B now (with_log_path log_path new_state) a
                    else Some a
                | _ \<Rightarrow> Some a) }) })"

definition finalize_builtin_command_update ::
  "actor_lib \<Rightarrow> timestamp \<Rightarrow> command_state \<Rightarrow> workflow_actor \<Rightarrow> workflow_actor panics" where
  "finalize_builtin_command_update B now new_state a =
     (let adapted_state = supervisor_adapt_builtin_response (al_json B) (wa_sup a) new_state;
          a = a\<lparr>wa_repo := snd (repo_apply_internal_update now adapted_state (wa_repo a))\<rparr>;
          a = persist_command_board B a;
          a = publish (into_message (al_json B) adapted_state) a
      in process_command_update B now adapted_state a)"

definition process_builtin_command_update ::
  "actor_lib \<Rightarrow> timestamp \<Rightarrow> command_state \<Rightarrow> workflow_actor \<Rightarrow> workflow_actor panics" where
  "process_builtin_command_update B now new_state a =
     (if is_finished new_state then finalize_builtin_command_update B now new_state a
      else Some (dispatch new_state a))"

definition publish_builtin_capability ::
  "actor_lib \<Rightarrow> operation_name \<Rightarrow> json \<Rightarrow> workflow_actor \<Rightarrow> workflow_actor panics" where
  "publish_builtin_capability B operation payload a = do {
     meta_topic \<leftarrow> capability_topic_for (al_mqtt B) (wa_schema a) (wa_device a) (operation_of_str operation);
     Some (publish (with_qos AtLeastOnce (with_retain (message_new meta_topic (json_to_text (al_json B) payload)))) a) }"

definition publish_operation_capabilities :: "actor_lib \<Rightarrow> workflow_actor \<Rightarrow> workflow_actor panics" where
  "publish_operation_capabilities B a = do {
     capabilities \<leftarrow> capability_messages (al_mqtt B) (wa_schema a) (wa_device a) (wa_sup a);
     Some (fold publish capabilities a) }"

definition resume_pending ::
  "actor_lib \<Rightarrow> timestamp \<Rightarrow> workflow_actor \<Rightarrow> command_state \<Rightarrow> workflow_actor panics" where
  "resume_pending B now a command =
     process_command_update B now command (publish (into_message (al_json B) command) a)"

definition load_command_board :: "actor_lib \<Rightarrow> timestamp \<Rightarrow> workflow_actor \<Rightarrow> workflow_actor panics" where
  "load_command_board B now a =
     (case wa_board_file a of
        None \<Rightarrow> Some a
      | Some stored \<Rightarrow> do {
          loaded \<leftarrow> board_of_disk (al_mqtt B) (al_time B) stored;
          (case loaded of
             Inl _ \<Rightarrow> Some a
           | Inr pending_commands \<Rightarrow>
               let (resumed, fs, r) = repo_load_pending_commands (al_repo B) (al_json B) (al_time B) (al_debug B)
                     pending_commands (wa_files a, wa_repo a)
               in run (resume_pending B now) (a\<lparr>wa_files := fs, wa_repo := r\<rparr>) resumed) })"

definition actor_start :: "actor_lib \<Rightarrow> timestamp \<Rightarrow> workflow_actor \<Rightarrow> workflow_actor panics" where
  "actor_start B now a = do {
     let a = a\<lparr>wa_repo := repository_load (al_repo B) (wa_files a) (wa_repo a)\<rparr>;
     a \<leftarrow> publish_operation_capabilities B a;
     load_command_board B now a }"

datatype agent_input =
    MqttInput mqtt_message
  | InternalInput
  | BuiltinInput command_state
  | MetadataInput command_metadata
  | FsInput fs_event
  | FilesInput files

text \<open>
  One input of the actor: a message, the next state of its own queue, an update or the capability of a built-in
  operation, a notification of the file watcher.  Files change on disk on their own.
\<close>

fun actor_step :: "actor_lib \<Rightarrow> workflow_actor \<Rightarrow> timestamp \<times> agent_input \<Rightarrow> workflow_actor panics" where
  "actor_step B a (now, MqttInput m) = process_mqtt_message B now m a"
| "actor_step B a (now, InternalInput) =
     (case wa_queue a of
        [] \<Rightarrow> Some a
      | c # cs \<Rightarrow> process_command_update B now c (a\<lparr>wa_queue := cs\<rparr>))"
| "actor_step B a (now, BuiltinInput c) = process_builtin_command_update B now c a"
| "actor_step B a (now, MetadataInput c) = publish_builtin_capability B (cm_operation c) (cm_payload c) a"
| "actor_step B a (now, FsInput e) = do {
     (updated_capability, r) \<leftarrow> update_operation_workflows (al_repo B) (al_mqtt B) (wa_files a) (wa_schema a)
        (wa_device a) e (wa_repo a);
     let a = a\<lparr>wa_repo := r\<rparr>;
     Some (case updated_capability of Some m \<Rightarrow> publish m a | None \<Rightarrow> a) }"
| "actor_step B a (now, FilesInput fs) = Some (a\<lparr>wa_files := fs\<rparr>)"

end
