(* ===== verification/Actor_Invariant.thy ===== *)
theory Actor_Invariant
  imports Workflow_Actor
begin

text \<open>
  The invariant of the workflow actor over every sequence of inputs: each pending command is well-formed, and
  the workflow version it started with is available.
\<close>

section \<open>Workflows that keep the version of a command\<close>

text \<open>
  The output of a sub-operation must not carry a workflow version: it is merged into the state of the
  invoking command.
\<close>

definition output_ok :: "state_excerpt \<Rightarrow> bool" where
  "output_ok e \<longleftrightarrow> (\<forall>s. json_wf (cs_payload s) \<longrightarrow>
     json_wf (extract_value_from s e) \<and> json_get (extract_value_from s e) ''@version'' = None)"

definition workflow_ok :: "operation_workflow \<Rightarrow> bool" where
  "workflow_ok w \<longleftrightarrow> canonical_op (wf_operation w)
     \<and> (\<forall>h e. AwaitOperationCompletion h e \<in> snd ` set (wf_states w) \<longrightarrow> output_ok e)"

definition versions_all :: "(operation_workflow \<Rightarrow> bool) \<Rightarrow> workflow_versions \<Rightarrow> bool" where
  "versions_all Q vs \<longleftrightarrow> (\<forall>v w. hm_get (wv_in_use vs) v = Some w \<longrightarrow> Q w)
     \<and> (\<forall>v w. wv_current vs = Some (v, w) \<longrightarrow> Q w)"

definition sup_all :: "(operation_workflow \<Rightarrow> bool) \<Rightarrow> supervisor \<Rightarrow> bool" where
  "sup_all Q s \<longleftrightarrow> (\<forall>op vs. hm_get (sup_workflows s) op = Some vs \<longrightarrow> versions_all Q vs)"

definition current_version :: "supervisor \<Rightarrow> operation_type \<Rightarrow> string option" where
  "current_version s op = (case hm_get (sup_workflows s) op of None \<Rightarrow> None | Some vs \<Rightarrow> map_option fst (wv_current vs))"

lemma is_current_version_iff: "is_current_version s op v \<longleftrightarrow> current_version s (operation_of_str op) = Some v"
  by (simp add: is_current_version_def current_version_def split: option.split)

lemma sup_all_commands [simp]: "sup_all Q (s\<lparr>sup_commands := b\<rparr>) = sup_all Q s"
  by (simp add: sup_all_def)

lemma current_version_commands [simp]: "current_version (s\<lparr>sup_commands := b\<rparr>) = current_version s"
  by (simp add: current_version_def fun_eq_iff)

lemma register_all:
  assumes "sup_all Q s" "Q w"
  shows "sup_all Q (snd (register_custom_workflow source w s))"
proof (cases "hm_get (sup_workflows s) (wf_operation w)")
  case None
  have "versions_all Q (versions_new source w)"
    using assms(2) by (cases source) (auto simp: versions_all_def versions_new_def split: if_splits)
  with assms(1) None show ?thesis by (simp add: sup_all_def register_custom_workflow_def update_conv' Let_def)
next
  case (Some vs)
  then have "versions_all Q (versions_add source w vs)"
    using assms by (cases source) (auto simp: sup_all_def versions_all_def versions_add_def update_conv')
  with assms(1) Some show ?thesis by (simp add: sup_all_def register_custom_workflow_def update_conv' Let_def)
qed

lemma register_current:
  "current_version (snd (register_custom_workflow source w s)) =
     (case source of UserDefined v \<Rightarrow> (current_version s)(wf_operation w \<mapsto> v) | _ \<Rightarrow> current_version s)"
  by (cases source; cases "hm_get (sup_workflows s) (wf_operation w)")
    (auto simp: current_version_def register_custom_workflow_def versions_new_def versions_add_def update_conv'
      Let_def fun_eq_iff)

lemma use_current_all:
  assumes "sup_all Q s" "hm_get (sup_workflows s) op = Some vs" "versions_use_current vs = (v, vs')"
  shows "sup_all Q (s\<lparr>sup_workflows := hm_insert op vs' (sup_workflows s)\<rparr>)"
proof -
  have "versions_all Q vs" using assms(1,2) by (simp add: sup_all_def)
  then have "versions_all Q vs'"
    using versions_use_current_spec [OF assms(3)] by (auto simp: versions_all_def split: option.splits)
  then show ?thesis using assms(1) by (simp add: sup_all_def update_conv')
qed

lemma use_current_current:
  assumes "hm_get (sup_workflows s) op = Some vs" "versions_use_current vs = (v, vs')"
  shows "current_version (s\<lparr>sup_workflows := hm_insert op vs' (sup_workflows s)\<rparr>) = current_version s"
  using versions_use_current_spec(2) [OF assms(2)] assms(1)
  by (auto simp: current_version_def update_conv' fun_eq_iff)

lemma unregister_all: "sup_all Q s \<Longrightarrow> sup_all Q (snd (unregister_custom_workflow op v s))"
proof -
  assume s: "sup_all Q s"
  have "versions_all Q vs \<Longrightarrow> versions_all Q (versions_remove v vs)" for vs
    by (auto simp: versions_all_def versions_remove_def delete_conv' split: if_splits)
  with s show ?thesis by (auto simp: sup_all_def unregister_workflows split: option.splits if_splits)
qed

lemma unregister_current:
  "op' \<noteq> operation_of_str op \<Longrightarrow> current_version (snd (unregister_custom_workflow op v s)) op' = current_version s op'"
  by (simp add: current_version_def unregister_workflows)

lemma external_all:
  "sup_all Q s \<Longrightarrow> sup_all Q (snd (apply_external_update now op c s))
    \<and> current_version (snd (apply_external_update now op c s)) = current_version s"
proof -
  assume s: "sup_all Q s"
  show ?thesis
  proof (cases "hm_get (sup_workflows s) op")
    case None
    with s show ?thesis by (simp add: apply_external_update_def)
  next
    case (Some vs)
    obtain v vs' where v: "versions_use_current vs = (v, vs')" by fastforce
    let ?s = "s\<lparr>sup_workflows := hm_insert op vs' (sup_workflows s)\<rparr>"
    have "\<exists>b. snd (apply_external_update now op c s) \<in> {s\<lparr>sup_commands := b\<rparr>, ?s\<lparr>sup_commands := b\<rparr>}"
      using Some v
      by (auto simp: apply_external_update_def Let_def split: option.split prod.split sum.split if_splits
          intro: exI [of _ "sup_commands s"])
    with s use_current_all [OF s Some v] use_current_current [OF Some v] show ?thesis
      by (metis (no_types, lifting) insert_iff singletonD sup_all_commands current_version_commands)
  qed
qed

lemma internal_all [simp]:
  "sup_all Q (snd (apply_internal_update now c s)) = sup_all Q s"
  "current_version (snd (apply_internal_update now c s)) = current_version s"
  by (simp_all add: apply_internal_update_def split: prod.split)

section \<open>Updates keep the version of a command\<close>

definition same_command :: "command_state \<Rightarrow> command_state \<Rightarrow> bool" where
  "same_command c c' \<longleftrightarrow> cs_topic c' = cs_topic c \<and> workflow_version c' = workflow_version c"

lemma ready_same: "command_ready s c \<Longrightarrow> same_command c c' \<Longrightarrow> command_ready s c'"
  by (simp add: command_ready_def same_command_def cs_operation_def)

lemma same_command_refl [simp]: "same_command c c"
  by (simp add: same_command_def)

lemma same_command_trans: "same_command c c' \<Longrightarrow> same_command c' c'' \<Longrightarrow> same_command c c''"
  by (simp add: same_command_def)

lemma workflow_version_object:
  "cs_payload c = JObject m \<Longrightarrow> workflow_version c = bt_get m ''@version'' \<bind> as_str"
  by (simp add: workflow_version_def json_get_def)

lemma same_command_update:
  assumes "cs_wf L c"
  shows "same_command c (cs_update u c)"
proof -
  obtain m where m: "cs_payload c = JObject m" using assms by (auto simp: cs_wf_def)
  then show ?thesis
    by (simp add: same_command_def cs_update_def inject_reason_def workflow_version_def json_get_def split: option.split)
qed

lemma same_command_key:
  assumes "cs_wf L c" "k \<noteq> ''@version''"
  shows "same_command c (with_key_value k v c)"
  using assms by (auto simp: cs_wf_def same_command_def with_key_value_def workflow_version_def json_get_def)

lemma same_command_json:
  assumes "cs_wf L c" "json_wf v" "json_get v ''@version'' = None"
  shows "same_command c (update_with_json v c)"
proof -
  obtain m where m: "cs_payload c = JObject m" using assms(1) by (auto simp: cs_wf_def)
  let ?c = "c\<lparr>cs_payload := merge_json (cs_payload c) v\<rparr>"
  obtain m' where m': "merge_json (cs_payload c) v = JObject m'" "bt_get m' ''@version'' = bt_get m ''@version''"
  proof (cases v)
    case (JObject n)
    then have "bt_wf n" "bt_get n ''@version'' = None" using assms(2,3) by (simp_all add: json_get_def)
    then have "bt_get (bt_extend m n) ''@version'' = bt_get m ''@version''" by (simp add: bt_wf_map_of_rev)
    with that m JObject show ?thesis by (simp add: merge_json_def)
  qed (use that m in \<open>simp_all add: merge_json_def\<close>)
  have base: "same_command c ?c"
    using m m' by (simp add: same_command_def workflow_version_object)
  show ?thesis
  proof (cases "extract_text_property (cs_payload ?c) ''status''")
    case None
    then have "update_with_json v c = fail_with ''Unknown status'' ?c" by (simp add: update_with_json_def)
    with base m' m show ?thesis
      by (simp add: same_command_def fail_with_def workflow_version_def json_get_def)
  next
    case (Some t)
    then have "update_with_json v c = ?c\<lparr>cs_status := t\<rparr>" by (simp add: update_with_json_def)
    with base show ?thesis by (simp add: same_command_def workflow_version_def)
  qed
qed

lemma get_action_ready: "get_action J s c = Inr a \<Longrightarrow> command_ready s c"
  by (auto simp: get_action_def command_ready_def in_use_def versions_get_def split: option.splits sum.splits)

lemma get_action_output_ok:
  assumes "sup_all workflow_ok s" "get_action J s c = Inr (AwaitOperationCompletion h e)"
  shows "output_ok e"
proof -
  obtain op vs v w where vs: "hm_get (sup_workflows s) op = Some vs" "hm_get (wv_in_use vs) v = Some w"
    "workflow_get_action J w c = Inr (AwaitOperationCompletion h e)"
    using assms(2) by (auto simp: get_action_def versions_get_def split: option.splits sum.splits)
  then obtain a where a: "hm_get (wf_states w) (cs_status c) = Some a"
    "inject_state J c a = AwaitOperationCompletion h e"
    by (auto simp: workflow_get_action_def split: option.splits)
  then have "a = AwaitOperationCompletion h e" by (auto simp: inject_state_def split: operation_action.splits)
  then have "AwaitOperationCompletion h e \<in> snd ` set (wf_states w)"
    using a(1) by (auto dest!: map_of_SomeD intro: rev_image_eqI)
  moreover have "workflow_ok w" using assms(1) vs(1,2) by (auto simp: sup_all_def versions_all_def)
  ultimately show ?thesis by (auto simp: workflow_ok_def)
qed

section \<open>The invariant\<close>

definition repo_inv :: "rumqttc \<Rightarrow> workflow_repository \<Rightarrow> bool" where
  "repo_inv L r \<longleftrightarrow> sup_inv L (wr_workflows r) \<and> sup_all workflow_ok (wr_workflows r)
     \<and> hm_wf (wr_definitions r)
     \<and> (\<forall>op v p. hm_get (wr_definitions r) op = Some (v, p) \<longrightarrow> is_current_version (wr_workflows r) op v)"

text \<open>The workflow definitions among the files.\<close>

definition files_ok :: "repo_lib \<Rightarrow> files \<Rightarrow> bool" where
  "files_ok R fs \<longleftrightarrow> (\<forall>content \<in> snd ` set fs. \<forall>w. rl_workflow R content = Inr w \<longrightarrow> workflow_ok w)"

definition actor_inv :: "actor_lib \<Rightarrow> workflow_actor \<Rightarrow> bool" where
  "actor_inv B a \<longleftrightarrow> repo_inv (al_mqtt B) (wa_repo a) \<and> (\<forall>c \<in> set (wa_queue a). cs_wf (al_mqtt B) c)
     \<and> files_ok (al_repo B) (wa_files a)"

definition script_rule :: "actor_lib \<Rightarrow> bool" where
  "script_rule B \<longleftrightarrow> parses_wf (al_json B)
     \<and> (\<forall>command out v. al_run B command = Inr out \<longrightarrow>
          json_stdout_excerpt (al_scripts B) (po_stdout out) = Inr v \<longrightarrow> json_get v ''@version'' = None)"

lemma internal_keeps_ready:
  assumes "sup_inv L s" "is_cleared c \<or> cs_wf L c \<and> command_ready s c"
  shows "sup_inv L (snd (apply_internal_update now c s))"
proof (cases "is_cleared c")
  case True
  with sup_inv_remove [OF assms(1)] show ?thesis by (simp add: apply_internal_update_def)
next
  case False
  with sup_inv_put [OF assms(1), of c now] assms show ?thesis
    by (cases "hm_get (sup_commands s) (topic_name (cs_topic c))")
      (simp_all add: apply_internal_update_def board_update_def)
qed

lemma repo_internal_repo:
  "snd (repo_apply_internal_update now c r) = r\<lparr>wr_workflows := snd (apply_internal_update now c (wr_workflows r))\<rparr>"
  by (simp add: repo_apply_internal_update_def case_prod_unfold Let_def)

lemma repo_inv_workflows:
  assumes "repo_inv L r" "sup_inv L s" "sup_all workflow_ok s" "current_version s = current_version (wr_workflows r)"
  shows "repo_inv L (r\<lparr>wr_workflows := s\<rparr>)"
  using assms by (simp add: repo_inv_def is_current_version_iff)

lemma repo_internal_keeps:
  assumes "repo_inv L r" "is_cleared c \<or> cs_wf L c \<and> command_ready (wr_workflows r) c"
  shows "repo_inv L (snd (repo_apply_internal_update now c r))"
  unfolding repo_internal_repo
proof (rule repo_inv_workflows [OF assms(1)])
  have "sup_inv L (wr_workflows r)" using assms(1) by (simp add: repo_inv_def)
  then show "sup_inv L (snd (apply_internal_update now c (wr_workflows r)))"
    by (rule internal_keeps_ready) (rule assms(2))
  show "sup_all workflow_ok (snd (apply_internal_update now c (wr_workflows r)))"
    using assms(1) by (simp add: repo_inv_def)
qed simp

lemma command_ready_internal [simp]:
  "command_ready (snd (apply_internal_update now c s)) d = command_ready s d"
  by (simp add: command_ready_def in_use_def apply_internal_update_def split: prod.split)

lemma persist_simps [simp]:
  "wa_repo (persist_command_board B a) = wa_repo a" "wa_queue (persist_command_board B a) = wa_queue a"
  "wa_repo (publish m a) = wa_repo a" "wa_queue (publish m a) = wa_queue a"
  "wa_repo (send_command c a) = wa_repo a" "wa_queue (send_command c a) = wa_queue a @ [c]"
  "wa_repo (dispatch c a) = wa_repo a" "wa_queue (dispatch c a) = wa_queue a"
  "wa_repo (snd (run_script B e a)) = wa_repo a" "wa_queue (snd (run_script B e a)) = wa_queue a"
  "wa_files (persist_command_board B a) = wa_files a" "wa_files (publish m a) = wa_files a"
  "wa_files (send_command c a) = wa_files a" "wa_files (dispatch c a) = wa_files a"
  "wa_files (snd (run_script B e a)) = wa_files a"
  by (simp_all add: persist_command_board_def publish_def send_command_def dispatch_def run_script_def Let_def
      split: option.split)

lemma actor_inv_same:
  "wa_repo a' = wa_repo a \<Longrightarrow> wa_queue a' = wa_queue a \<Longrightarrow> wa_files a' = wa_files a
    \<Longrightarrow> actor_inv B a' = actor_inv B a"
  by (simp add: actor_inv_def)

lemma publish_command_state_repo:
  "wa_repo (publish_command_state B now c a) = snd (repo_apply_internal_update now c (wa_repo a))"
  "wa_queue (publish_command_state B now c a) = wa_queue a @ (if is_cleared c then [] else [c])"
  "wa_files (publish_command_state B now c a) = wa_files a"
  by (simp_all add: publish_command_state_def Let_def)

lemma publish_command_state_keeps:
  assumes "actor_inv B a" "is_cleared c \<or> cs_wf (al_mqtt B) c \<and> command_ready (wa_sup a) c"
  shows "actor_inv B (publish_command_state B now c a)"
  using assms repo_internal_keeps [OF _ assms(2), of now]
  by (auto simp: actor_inv_def publish_command_state_repo)

lemma publish_command_state_ready:
  "command_ready (wa_sup (publish_command_state B now c a)) d = command_ready (wa_sup a) d"
  by (simp add: publish_command_state_repo repo_internal_repo)

text \<open>A command that moves on, in the actor that has found an action for it.\<close>

lemma publish_next_keeps:
  assumes "actor_inv B a" "cs_wf (al_mqtt B) c" "command_ready (wa_sup a) c"
    and "cs_wf (al_mqtt B) c'" "same_command c c'"
  shows "actor_inv B (publish_command_state B now c' a)"
  using assms(4) ready_same [OF assms(3,5)] by (intro publish_command_state_keeps [OF assms(1)]) simp

lemma publish_update_keeps:
  assumes "actor_inv B a" "cs_wf (al_mqtt B) c" "command_ready (wa_sup a) c"
  shows "actor_inv B (publish_command_state B now (cs_update u c) a)"
  by (rule publish_next_keeps [OF assms cs_wf_update [OF assms(2)] same_command_update [OF assms(2)]])

section \<open>Every action keeps the invariant\<close>

lemma json_get_update_into: "json_get (update_into_json u) ''@version'' = None"
  by (simp add: update_into_json_def json_get_def split: option.split)

lemma json_get_inject_into: "json_get v ''@version'' = None \<Longrightarrow> json_get (inject_into_json u v) ''@version'' = None"
  by (cases v) (auto simp: json_get_def Let_def update_into_json_def split: option.split)

lemma json_stdout_wf:
  "parses_wf (sl_json B) \<Longrightarrow> json_stdout_excerpt B out = Inr v \<Longrightarrow> json_wf v"
  by (auto simp: json_stdout_excerpt_def parses_wf_def split: if_splits option.splits)

lemma script_update_keeps:
  assumes "script_rule B"
  shows "json_wf (script_state_update (al_scripts B) h program (al_run B e))
    \<and> json_get (script_state_update (al_scripts B) h program (al_run B e)) ''@version'' = None"
proof (cases "al_run B e")
  case (Inl err)
  then show ?thesis by (simp add: script_state_update_def json_get_update_into)
next
  case (Inr out)
  have excerpt: "json_wf v \<and> json_get v ''@version'' = None"
    if "json_stdout_excerpt (al_scripts B) (po_stdout out) = Inr v" for v
    using assms Inr that json_stdout_wf by (auto simp: script_rule_def)
  show ?thesis
  proof (cases "po_code out")
    case None
    then show ?thesis by (simp add: script_state_update_def Inr json_get_update_into)
  next
    case (Some code)
    show ?thesis
    proof (cases "json_stdout_excerpt (al_scripts B) (po_stdout out)")
      case (Inl err)
      then show ?thesis
        by (cases "eh_on_success h"; cases "state_update_on_error h (word_of_int code)")
          (simp_all add: script_state_update_def Inr Some with_context_def json_get_update_into)
    next
      case v: (Inr v)
      have ok: "json_wf (inject_into_json u v)" "json_get (inject_into_json u v) ''@version'' = None" for u
        using excerpt [OF v] json_wf_inject_into_json json_get_inject_into by blast+
      have "script_state_update (al_scripts B) h program (al_run B e) \<in>
          {v} \<union> range (\<lambda>u. inject_into_json u v) \<union> range update_into_json"
        by (auto simp: script_state_update_def Inr Some v with_context_def split: option.split)
      with ok excerpt [OF v] json_get_update_into show ?thesis by force
    qed
  qed
qed

lemma do_script_keeps:
  assumes "script_rule B" "actor_inv B a" "cs_wf (al_mqtt B) c" "command_ready (wa_sup a) c"
  shows "actor_inv B (do_script B now script handlers c a)"
proof -
  let ?e = "script_command script handlers"
  let ?u = "script_state_update (al_scripts B) handlers (sh_command script) (al_run B ?e)"
  have a: "actor_inv B (snd (run_script B ?e a))" using assms(2) by (simp add: actor_inv_def)
  note u = script_update_keeps [OF assms(1), of handlers "sh_command script" ?e]
  have "cs_wf (al_mqtt B) (update_with_json ?u c)" "same_command c (update_with_json ?u c)"
    using cs_wf_update_with_json [OF assms(3)] same_command_json [OF assms(3)] u by blast+
  from publish_next_keeps [OF a assms(3) _ this] assms(4) show ?thesis
    by (simp add: do_script_def update_with_script_output_def run_script_def)
qed

lemma json_wf_get: "json_wf v \<Longrightarrow> json_get v k = Some w \<Longrightarrow> json_wf w"
  by (cases v) (auto simp: json_get_def dest!: map_of_SomeD)

lemma json_wf_excerpt: "json_wf v \<Longrightarrow> json_excerpt v path = Some w \<Longrightarrow> json_wf w"
proof (induction v path rule: json_excerpt.induct)
  case (1 v path)
  show ?case
  proof (cases "split_once CHR ''.'' path")
    case None
    with 1(2,3) show ?thesis by (subst (asm) json_excerpt.simps) (auto split: if_splits dest: json_wf_get)
  next
    case (Some kp)
    obtain k p where kp: "split_once CHR ''.'' path = Some (k, p)" using Some by (cases kp) auto
    then obtain u where u: "json_get v k = Some u" "json_excerpt u p = Some w"
      using 1(3) by (subst (asm) json_excerpt.simps) (auto split: option.splits)
    show ?thesis by (rule 1(1) [OF kp refl u(1) json_wf_get [OF 1(2) u(1)] u(2)])
  qed
qed

lemma json_wf_extract_value:
  assumes "json_wf (cs_payload s)" "extract_value s path = Some v"
  shows "json_wf v"
  using assms json_wf_excerpt [OF assms(1)]
  by (auto simp: extract_value_def split: if_splits option.splits bind_splits)

lemma json_set_wf: "json_wf v \<Longrightarrow> json_wf x \<Longrightarrow> json_set k x v = Some w \<Longrightarrow> json_wf w"
  using jmap_wf_insert [of _ x k] by (cases v) (auto simp: jmap_wf_def)

lemma process_iterate_keeps:
  assumes "cs_wf L s" "process_iterate path h s = Some (Inr s')"
  shows "cs_wf L s' \<and> same_command s s'"
proof -
  have payload: "json_wf (cs_payload s)" using assms(1) by (auto simp: cs_wf_def jmap_wf_def)
  have proceed: "cs_wf L t \<and> same_command s t"
    if "json_wf x" "t = cs_update u (update_with_json (JObject [(''@next'', x)]) s)" for t u x
  proof -
    let ?n = "JObject [(''@next'', x)]"
    have wf: "cs_wf L (update_with_json ?n s)" using that(1) by (intro cs_wf_update_with_json [OF assms(1)]) simp
    have "same_command s (update_with_json ?n s)"
      using that(1) by (intro same_command_json [OF assms(1)]) (simp_all add: json_get_def)
    with wf show ?thesis
      unfolding that(2) using cs_wf_update same_command_update [OF wf] same_command_trans by blast
  qed
  have update: "cs_wf L (cs_update u s) \<and> same_command s (cs_update u s)" for u
    using cs_wf_update [OF assms(1)] same_command_update [OF assms(1)] by blast
  obtain items where items: "extract_value s path = Some (JArray items)"
    using assms(2) by (auto simp: process_iterate_def elim: as_array.elims split: option.splits)
  then have item: "json_wf (items ! i)" if "i < length items" for i
    using json_wf_extract_value [OF payload items] that by simp
  show ?thesis
  proof (cases "items = []")
    case True
    with assms(2) items update show ?thesis by (auto simp: process_iterate_def)
  next
    case False
    show ?thesis
    proof (cases "json_get (cs_payload s) ''@next''")
      case None
      with assms(2) items False have
        "s' = cs_update (ih_on_next h) (update_with_json
          (JObject [(''@next'', JObject [(''index'', JNumber (PosInt 0)), (''item'', items ! 0)])]) s)"
        by (simp add: process_iterate_def Let_def)
      moreover have "json_wf (JObject [(''index'', JNumber (PosInt 0)), (''item'', items ! 0)])"
        using item [of 0] False by simp
      ultimately show ?thesis using proceed by blast
    next
      case (Some next_item)
      define index where "index = (case json_get next_item ''index'' \<bind> as_u64 of Some i \<Rightarrow> i | None \<Rightarrow> 0)"
      have inside: "index < length items"
        using assms(2) items False Some
        by (auto simp: process_iterate_def Let_def index_def [symmetric] split: if_splits)
      show ?thesis
      proof (cases "next_index items (index + 1)")
        case None
        with assms(2) items False Some inside update show ?thesis
          by (auto simp: process_iterate_def Let_def index_def [symmetric])
      next
        case (Some j)
        have j: "j < length items"
          using Some filter_upt_Cons [of _ "index + 1" "length items" j]
          by (auto simp: next_index_filter split: list.splits)
        from assms(2) items False \<open>json_get (cs_payload s) ''@next'' = Some next_item\<close> inside Some
        obtain n1 n2 where n: "json_set ''index'' (JNumber (PosInt j)) next_item = Some n1"
          "json_set ''item'' (items ! j) n1 = Some n2"
          "s' = cs_update (ih_on_next h) (update_with_json (JObject [(''@next'', n2)]) s)"
          by (auto simp: process_iterate_def Let_def index_def [symmetric] split: bind_splits)
        have "json_wf next_item" by (rule json_wf_get [OF payload]) fact
        then have "json_wf n1" by (rule json_set_wf [OF _ _ n(1)]) simp
        then have "json_wf n2" by (rule json_set_wf [OF _ item [OF j] n(2)])
        then show ?thesis using proceed n(3) by blast
      qed
    qed
  qed
qed

lemma pending_wf:
  assumes "actor_inv B a" "get_state (wa_sup a) k = Some c"
  shows "cs_wf (al_mqtt B) c"
proof -
  obtain t where "hm_get (sup_commands (wa_sup a)) k = Some (t, c)"
    using assms(2) by (auto simp: get_state_def board_get_state_def)
  with assms(1) show ?thesis
    using board_wfD(2) unfolding actor_inv_def repo_inv_def sup_inv_def by blast
qed

lemma sub_command_wf:
  assumes "actor_inv B a" "sub_command_state (wa_sup a) c = Some d"
  shows "cs_wf (al_mqtt B) d"
proof -
  obtain t where "find (\<lambda>(_, command). cs_invoking command = Some (topic_name (cs_topic c)))
      (map snd (sup_commands (wa_sup a))) = Some (t, d)"
    using assms(2) by (auto simp: sub_command_state_def lookup_sub_command_def)
  then have "(t, d) \<in> set (map snd (sup_commands (wa_sup a)))" by (metis find_Some_iff nth_mem)
  then obtain k where "(k, t, d) \<in> set (sup_commands (wa_sup a))" by auto
  moreover have "hm_wf (sup_commands (wa_sup a))"
    using assms(1) by (simp add: actor_inv_def repo_inv_def sup_inv_def board_wf_def)
  ultimately have "get_state (wa_sup a) k = Some d" by (simp add: get_state_def board_get_state_def)
  then show ?thesis by (rule pending_wf [OF assms(1)])
qed

lemma do_clear_keeps: "actor_inv B a \<Longrightarrow> actor_inv B (do_clear c a)"
  using pending_wf [of B a]
  by (auto simp: do_clear_def invoking_command_state_def actor_inv_def split: option.split bind_splits)

lemma do_operation_keeps:
  assumes "actor_inv B a" "cs_wf (al_mqtt B) c" "command_ready (wa_sup a) c"
    and "do_operation B now operation cmd_id sub input_script input_excerpt h c a = Some a'"
  shows "actor_inv B a'"
proof -
  obtain generated a1 where a1: "(case input_script of
           None \<Rightarrow> (Inr (JObject []), a)
         | Some script \<Rightarrow>
             let (output, a) = run_script B (execute_new (sh_command script) (sh_args script)) a
             in (extract_json_output (al_scripts B) (sh_command script) output, a)) = (generated, a1)"
    by (rule prod.exhaust)
  then have same: "wa_repo a1 = wa_repo a" "wa_queue a1 = wa_queue a" "wa_files a1 = wa_files a"
    by (auto simp: run_script_def split: option.splits)
  then have inv: "actor_inv B a1" and ready: "command_ready (wa_sup a1) c" using assms(1,3) by (simp_all add: actor_inv_def)
  from assms(4) a1 consider u where "a' = publish_command_state B now (cs_update u c) a1"
    | u m where "a' = publish m (publish_command_state B now (cs_update u c) a1)"
    by (auto simp: do_operation_def Let_def split: sum.splits bind_splits)
  then show ?thesis
    using publish_update_keeps [OF inv assms(2) ready] by cases (auto simp: actor_inv_def)
qed

lemma do_await_operation_keeps:
  assumes "actor_inv B a" "cs_wf (al_mqtt B) c" "command_ready (wa_sup a) c" "output_ok e"
  shows "actor_inv B (do_await_operation B now h e c a)"
proof (cases "sub_command_state (wa_sup a) c")
  case None
  with assms(1) show ?thesis by (simp add: do_await_operation_def)
next
  case (Some d)
  let ?v = "extract_value_from d e"
  have "cs_wf (al_mqtt B) d" by (rule sub_command_wf [OF assms(1) Some])
  then have v: "json_wf ?v" "json_get ?v ''@version'' = None"
    using assms(4) by (auto simp: output_ok_def cs_wf_def jmap_wf_def)
  have wf: "cs_wf (al_mqtt B) (update_with_json ?v c)" by (rule cs_wf_update_with_json [OF assms(2) v(1)])
  have "command_ready (wa_sup a) (update_with_json ?v c)"
    by (rule ready_same [OF assms(3) same_command_json [OF assms(2) v]])
  then have "actor_inv B (publish_command_state B now (cs_update u (update_with_json ?v c)) a)"
    "actor_inv B (publish_command_state B now (cs_update u c) a)" for u
    using publish_update_keeps [OF assms(1) wf] publish_update_keeps [OF assms(1-3)] by blast+
  moreover have "is_cleared (cs_clear d)" by (simp add: is_cleared_def cs_clear_def is_null_def)
  ultimately show ?thesis
    using Some assms(1) publish_command_state_keeps by (simp add: do_await_operation_def Let_def)
qed

lemma do_action_keeps:
  assumes "script_rule B" "actor_inv B a" "cs_wf (al_mqtt B) c" "get_action (al_json B) (wa_sup a) c = Inr action"
    and "do_action B now operation cmd_id action c a = Some a'"
  shows "actor_inv B a'"
proof -
  have ready: "command_ready (wa_sup a) c" by (rule get_action_ready [OF assms(4)])
  note update = publish_update_keeps [OF assms(2,3) ready, of now]
  show ?thesis
  proof (cases action)
    case Clear
    with assms(2,5) do_clear_keeps show ?thesis by (auto simp: do_action_def)
  next
    case (MoveTo u)
    with assms(5) update show ?thesis by (auto simp: do_action_def move_to_def cs_update_def)
  next
    case (BuiltIn eh ah)
    with assms(2,5) show ?thesis by (auto simp: do_action_def actor_inv_def)
  next
    case (BuiltInOperation op h)
    with assms(5) update show ?thesis by (auto simp: do_action_def do_builtin_operation_def actor_inv_def)
  next
    case (AwaitingAgentRestart h)
    let ?a = "a\<lparr>wa_slept := wa_slept a @ [(case ah_timeout h of Some t \<Rightarrow> t | None \<Rightarrow> 0) + from_secs 60]\<rparr>"
    have "actor_inv B ?a" "command_ready (wa_sup ?a) c" using assms(2) ready by (simp_all add: actor_inv_def)
    from publish_update_keeps [OF this(1) assms(3) this(2)] AwaitingAgentRestart assms(5) show ?thesis
      by (auto simp: do_action_def do_await_restart_def)
  next
    case (Script script h)
    with assms(5) do_script_keeps [OF assms(1-3) ready] show ?thesis by (auto simp: do_action_def)
  next
    case (BgScript script h)
    with assms(5) update show ?thesis by (auto simp: do_action_def do_background_script_def actor_inv_def)
  next
    case (Operation sub script input h)
    with assms(5) do_operation_keeps [OF assms(2,3) ready] show ?thesis by (auto simp: do_action_def)
  next
    case (AwaitOperationCompletion h e)
    have "sup_all workflow_ok (wa_sup a)" using assms(2) by (simp add: actor_inv_def repo_inv_def)
    from get_action_output_ok [OF this assms(4) [unfolded AwaitOperationCompletion]]
    have "actor_inv B (do_await_operation B now h e c a)"
      by (rule do_await_operation_keeps [OF assms(2,3) ready])
    with AwaitOperationCompletion assms(5) show ?thesis by (auto simp: do_action_def)
  next
    case (Iterate path h)
    with assms(5) have "do_iterate B now path h c a = Some a'" by (simp add: do_action_def)
    then show ?thesis
      using update process_iterate_keeps [OF assms(3)] publish_next_keeps [OF assms(2,3) ready]
      by (auto simp: do_iterate_def split: option.splits sum.splits)
  qed
qed

lemma process_command_update_keeps:
  assumes "script_rule B" "actor_inv B a" "cs_wf (al_mqtt B) c" "process_command_update B now c a = Some a'"
  shows "actor_inv B a'"
proof (cases "get_action (al_json B) (wa_sup a) c")
  case (Inl err)
  with assms(2,4) show ?thesis
    by (auto simp: process_command_update_def split: option.splits bind_splits)
next
  case (Inr action)
  with assms(2,4) show ?thesis
    using do_action_keeps [OF assms(1-3) Inr]
    by (auto simp: process_command_update_def split: option.splits bind_splits)
qed

section \<open>Every input keeps the invariant\<close>

text \<open>The topics the actor subscribes to: eight segments, the sixth of which is \<^verbatim>\<open>cmd\<close>.\<close>

definition command_topic :: "string \<Rightarrow> bool" where
  "command_topic t \<longleftrightarrow> (\<exists>r a b c d op cid. split_on slash t = [r, a, b, c, d, ''cmd'', op, cid])"

lemma command_topic_operation:
  assumes "command_topic (topic_name (cs_topic c))"
    and "extract_command_identifiers B a (topic_name (cs_topic c)) = Some (operation, cid)"
  shows "\<exists>op. cs_operation c = Some op \<and> operation = operation_of_str op"
proof -
  let ?t = "topic_name (cs_topic c)"
  obtain r e1 e2 e3 e4 op i where split: "split_on slash ?t = [r, e1, e2, e3, e4, ''cmd'', op, i]"
    using assms(1) by (auto simp: command_topic_def)
  define e0 where "e0 = e1 @ ''/'' @ e2 @ ''/'' @ e3 @ ''/'' @ e4"
  have ns: "slash \<notin> set r" "slash \<notin> set e1" "slash \<notin> set e2" "slash \<notin> set e3" "slash \<notin> set e4"
    "slash \<notin> set op" "slash \<notin> set i"
    using split_on_parts [of _ slash ?t] split by simp_all
  have t: "?t = r @ slash # (e0 @ slash # ''cmd/'' @ op @ slash # i)"
    using join_split [of slash ?t] unfolding split by (simp add: e0_def)
  have count: "count_list e0 slash = 3" using ns by (simp add: count_notin e0_def)
  obtain e where "entity_channel_of (al_mqtt B) (wa_schema a) ?t = Inr (e, Command operation cid)"
    using assms(2) by (auto simp: extract_command_identifiers_def split: sum.splits channel.splits)
  then have "channel_of_str (dropWhile (\<lambda>x. x = slash) (slash # ''cmd/'' @ op @ slash # i)) = Inr (Command operation cid)"
    unfolding t using ns(1) separator_index_append [OF count]
    by (auto simp: entity_channel_of_def Let_def split: if_splits sum.splits)
  then have "operation = operation_of_str op"
    using ns(6,7) by (simp add: channel_of_str_def)
  moreover have "cs_operation c = Some op" by (simp add: cs_operation_def get_operation_name_def split)
  ultimately show ?thesis by blast
qed

definition received_ok :: "rumqttc \<Rightarrow> command_state \<Rightarrow> bool" where
  "received_ok L c \<longleftrightarrow> (is_cleared c \<and> cs_status c = []) \<or> cs_wf L c"

lemma from_command_message_wf:
  assumes "parses_wf J" "from_command_message L J m = Some (Inr c)"
  shows "cs_topic c = mm_topic m \<and> received_ok L c"
proof -
  obtain inv where inv: "infer_invoking_command_topic L (topic_name (mm_topic m)) = Some inv"
    using assms(2) by (auto simp: from_command_message_def split: bind_splits)
  show ?thesis
  proof (cases "payload_bytes m = []")
    case True
    with assms(2) inv show ?thesis by (auto simp: from_command_message_def is_cleared_def is_null_def received_ok_def)
  next
    case False
    with assms(2) inv obtain v status where v: "json_of_text J (payload_bytes m) = Some v"
      "extract_text_property v ''status'' = Some status"
      "c = \<lparr>cs_topic = mm_topic m, cs_status = status, cs_payload = v, cs_invoking = inv\<rparr>"
      by (auto simp: from_command_message_def split: option.splits sum.splits)
    then have "json_wf v" using assms(1) by (simp add: parses_wf_def)
    with v inv show ?thesis by (auto simp: cs_wf_def extract_text_property_Some jmap_wf_def received_ok_def)
  qed
qed

lemma read_workflow_ok:
  assumes "files_ok R fs" "read_operation_workflow R fs p = Some (w, v)"
  shows "workflow_ok w"
proof -
  have "workflow_ok (workflow_ill_formed operation reason)" for operation reason
    by (auto simp: workflow_ok_def workflow_ill_formed_def)
  moreover have "workflow_ok w'" if "hm_get fs p = Some content" "rl_workflow R content = Inr w'" for content w'
    using assms(1) map_of_SomeD [OF that(1)] that(2) by (force simp: files_ok_def)
  ultimately show ?thesis
    using assms(2) by (auto simp: read_operation_workflow_def Let_def split: bind_splits if_splits sum.splits option.splits)
qed

lemma files_ok_insert: "files_ok R fs \<Longrightarrow> hm_get fs q = Some content \<Longrightarrow> files_ok R (hm_insert p content fs)"
proof -
  assume fs: "files_ok R fs" "hm_get fs q = Some content"
  have "snd ` set (hm_insert p content fs) \<subseteq> insert content (snd ` set fs)" by (induction fs) auto
  moreover have "content \<in> snd ` set fs" using map_of_SomeD [OF fs(2)] by force
  ultimately show ?thesis using fs(1) unfolding files_ok_def by blast
qed

lemma files_ok_remove: "files_ok R fs \<Longrightarrow> files_ok R (hm_remove p fs)"
  by (auto simp: files_ok_def AList.delete_eq)

lemma copies_files_ok:
  assumes "files_ok R fs"
  shows "files_ok R (fst (persist_workflow_definition R op v (fs, r)))" "files_ok R (fst (release_in_use_copy R op v (fs, r)))"
  using assms files_ok_insert [OF assms] files_ok_remove [OF assms]
  by (auto simp: persist_workflow_definition_def release_in_use_copy_def Let_def split: option.split)

lemma load_user_defined_keeps:
  assumes "repo_inv L r" "workflow_ok w"
  shows "repo_inv L (snd (load_operation_workflow (UserDefined p) w v r))"
proof -
  let ?op = "operation_to_str (wf_operation w)"
  let ?s = "snd (register_custom_workflow (UserDefined v) w (wr_workflows r))"
  have s: "sup_inv L (wr_workflows r)" "sup_all workflow_ok (wr_workflows r)" using assms(1) by (simp_all add: repo_inv_def)
  have "workflows_wf (wr_workflows r)" using s(1) by (simp add: sup_inv_def)
  then have inv: "sup_inv L ?s" "sup_all workflow_ok ?s"
    using sup_inv_grows [OF s(1) register_keeps] register_all [OF s(2) assms(2)] by blast+
  have canonical: "operation_of_str ?op = wf_operation w" using assms(2) by (simp add: workflow_ok_def canonical_op_iff)
  have "is_current_version ?s op u" if "hm_get (hm_insert ?op (v, p) (wr_definitions r)) op = Some (u, q)" for op u q
  proof (cases "op = ?op")
    case True
    with that canonical show ?thesis by (simp add: is_current_version_iff register_current update_conv')
  next
    case False
    then have "operation_of_str op \<noteq> wf_operation w" by (metis operation_to_of_str)
    with False that assms(1) show ?thesis
      by (simp add: is_current_version_iff register_current update_conv' repo_inv_def)
  qed
  then show ?thesis
    using inv assms(1) by (simp add: repo_inv_def load_operation_workflow_def Let_def distinct_update)
qed

lemma repo_inv_cong:
  "wr_workflows r' = wr_workflows r \<Longrightarrow> wr_definitions r' = wr_definitions r \<Longrightarrow> repo_inv L r' = repo_inv L r"
  by (simp add: repo_inv_def)

lemma copies_keep:
  "repo_inv L (snd (persist_workflow_definition R op v (fs, r))) = repo_inv L r"
  "repo_inv L (snd (release_in_use_copy R op v (fs, r))) = repo_inv L r"
  by (rule repo_inv_cong; simp add: persist_workflow_definition_def release_in_use_copy_def Let_def split: option.split)+

lemma load_latest_keeps:
  assumes "files_ok R fs" "repo_inv L r"
  shows "repo_inv L (load_latest_version R fs op r)"
proof (cases "get_latest_version R fs op r")
  case (Some pvw)
  obtain p v w where pvw: "get_latest_version R fs op r = Some (p, v, w)" using Some by (cases pvw) auto
  then have "read_operation_workflow R fs p = Some (w, v)"
    by (auto simp: get_latest_version_def Let_def split: option.splits if_splits)
  from load_user_defined_keeps [OF assms(2) read_workflow_ok [OF assms(1) this]] pvw show ?thesis
    by (simp add: load_latest_version_def)
qed (use assms(2) in \<open>simp add: load_latest_version_def\<close>)

lemma external_result_wf:
  assumes "received_ok L c" "fst (apply_external_update now operation c s) = Inr (Some c')"
  shows "received_ok L c'"
proof (cases "is_cleared c")
  case True
  then have "c' = c" using assms(2) by (auto simp: apply_external_update_def split: option.splits)
  with assms(1) show ?thesis by simp
next
  case False
  then have "cs_wf L c" using assms(1) by (simp add: received_ok_def)
  moreover obtain v where "c' = with_workflow_version v c"
    using assms(2) False
    by (auto simp: apply_external_update_def Let_def split: option.splits if_splits prod.splits sum.splits)
  ultimately show ?thesis using with_version_version [of L c v] by (simp add: received_ok_def)
qed

lemma repo_external_keeps:
  assumes "files_ok R fs" "repo_inv L r" "cs_operation c = Some op" "received_ok L c"
    and "repo_apply_external_update R now (operation_of_str op) c (fs, r) = (result, fs', r')"
  shows "repo_inv L r' \<and> files_ok R fs' \<and> (\<forall>c'. result = Inr (Some c') \<longrightarrow> received_ok L c')"
proof -
  let ?name = "operation_to_str (operation_of_str op)"
  obtain fs1 r1 where r1: "(if is_init c then (fs, load_latest_version R fs ?name r)
      else if is_finished c then
        (case workflow_version c of Some version \<Rightarrow> release_in_use_copy R ?name version (fs, r) | None \<Rightarrow> (fs, r))
      else (fs, r)) = (fs1, r1)" by (rule prod.exhaust)
  have files1: "files_ok R fs1"
    using r1 assms(1) copies_files_ok(2) [OF assms(1), of ?name _ r]
    by (auto split: if_splits option.splits dest!: arg_cong [of _ _ fst])
  have inv1: "repo_inv L r1"
    using r1 assms(2) load_latest_keeps [OF assms(1,2)] copies_keep(2) [of L R _ _ fs r]
    by (auto split: if_splits option.splits dest!: arg_cong [of _ _ snd])
  obtain res s where ext: "apply_external_update now (operation_of_str op) c (wr_workflows r1) = (res, s)"
    by (rule prod.exhaust)
  have "repo_inv L (r1\<lparr>wr_workflows := s\<rparr>)"
  proof (rule repo_inv_workflows [OF inv1])
    have wf: "sup_inv L (wr_workflows r1)" "sup_all workflow_ok (wr_workflows r1)" using inv1 by (simp_all add: repo_inv_def)
    show "sup_inv L s" using external_keeps [OF wf(1) assms(3), of now] assms(4) ext by (auto simp: received_ok_def)
    show "sup_all workflow_ok s" "current_version s = current_version (wr_workflows r1)"
      using external_all [OF wf(2), of now "operation_of_str op" c] ext by simp_all
  qed
  note inv2 = this copies_keep(1) [of L R _ _ fs1 "r1\<lparr>wr_workflows := s\<rparr>"]
  have updated: "(result, fs', r') = (case res of
      Inl err \<Rightarrow> (Inl err, fs1, r1\<lparr>wr_workflows := s\<rparr>)
    | Inr None \<Rightarrow> (Inr None, fs1, r1\<lparr>wr_workflows := s\<rparr>)
    | Inr (Some new_state) \<Rightarrow>
        if is_init new_state then
          (Inr (Some new_state),
           (case workflow_version new_state of
              Some version \<Rightarrow> persist_workflow_definition R ?name version (fs1, r1\<lparr>wr_workflows := s\<rparr>)
            | None \<Rightarrow> (fs1, r1\<lparr>wr_workflows := s\<rparr>)))
        else (Inr (Some new_state), fs1, r1\<lparr>wr_workflows := s\<rparr>))"
    using assms(5) by (simp only: repo_apply_external_update_def Let_def prod.case r1 ext)
  then have "repo_inv L r'" "result = res"
    using inv2 by (auto split: sum.splits option.splits if_splits dest!: arg_cong [of _ _ snd])
  moreover have "files_ok R fs'"
    using updated files1 copies_files_ok(1) [OF files1, of ?name _ "r1\<lparr>wr_workflows := s\<rparr>"]
    by (auto split: sum.splits option.splits if_splits) (metis fst_conv)
  moreover have "res = Inr (Some c') \<Longrightarrow> received_ok L c'" for c'
    using external_result_wf [OF assms(4), of now "operation_of_str op" "wr_workflows r1"] ext by simp
  ultimately show ?thesis by blast
qed

lemma process_mqtt_message_keeps:
  assumes "script_rule B" "actor_inv B a" "command_topic (topic_name (mm_topic m))"
    and "process_mqtt_message B now m a = Some a'"
  shows "actor_inv B a'"
proof (cases "extract_command_identifiers B a (topic_name (mm_topic m))")
  case None
  with assms(2,4) show ?thesis by (simp add: process_mqtt_message_def)
next
  case (Some oc)
  obtain operation cid where ids: "extract_command_identifiers B a (topic_name (mm_topic m)) = Some (operation, cid)"
    using Some by (cases oc) auto
  obtain parsed where parsed: "from_command_message (al_mqtt B) (al_json B) m = Some parsed"
    using assms(4) ids by (auto simp: process_mqtt_message_def split: bind_splits)
  show ?thesis
  proof (cases parsed)
    case (Inl err)
    with assms(2,4) ids parsed show ?thesis by (simp add: process_mqtt_message_def)
  next
    case (Inr c)
    have c: "cs_topic c = mm_topic m" "received_ok (al_mqtt B) c"
      using from_command_message_wf [of "al_json B"] assms(1) parsed Inr by (auto simp: script_rule_def)
    obtain op where op: "cs_operation c = Some op" "operation = operation_of_str op"
      using command_topic_operation [of c B a] assms(3) ids c(1) by auto
    obtain result fs r where ext: "repo_apply_external_update (al_repo B) now operation c (wa_files a, wa_repo a)
        = (result, fs, r)" by (rule prod_cases3)
    have r: "repo_inv (al_mqtt B) r" "\<forall>c'. result = Inr (Some c') \<longrightarrow> received_ok (al_mqtt B) c'"
      "files_ok (al_repo B) fs"
      using repo_external_keeps [OF _ _ op(1) c(2) ext [unfolded op(2)]] assms(2) by (auto simp: actor_inv_def)
    let ?a = "a\<lparr>wa_files := fs, wa_repo := r\<rparr>"
    have inv: "actor_inv B ?a" "actor_inv B (persist_command_board B ?a)"
      using r(1,3) assms(2) by (simp_all add: actor_inv_def)
    have run: "actor_inv B a''" if "result = Inr (Some c')" "is_init c'"
      "process_command_update B now (with_log_path path c') (persist_command_board B ?a) = Some a''" for c' path a''
    proof -
      have "cs_wf (al_mqtt B) c'" using r(2) that(1,2) by (auto simp: received_ok_def is_init_def)
      then have "cs_wf (al_mqtt B) (with_log_path path c')"
        unfolding with_log_path_def by (rule cs_wf_with_key_value)
      from process_command_update_keeps [OF assms(1) inv(2) this that(3)] show ?thesis .
    qed
    show ?thesis
      using assms(4) ids parsed Inr ext inv run
      by (auto simp: process_mqtt_message_def Let_def split: bind_splits sum.splits option.splits if_splits)
  qed
qed

lemma same_command_merge:
  assumes "cs_wf L c" "cs_wf L d" "json_get (cs_payload c) ''@version'' = None"
  shows "same_command d (merge_into c d)"
proof -
  obtain m n where m: "cs_payload c = JObject m" "jmap_wf m" and n: "cs_payload d = JObject n"
    using assms(1,2) by (auto simp: cs_wf_def)
  have "bt_get (bt_extend n m) ''@version'' = bt_get n ''@version''"
    using assms(3) m bt_wf_map_of_rev [OF jmap_wf_bt [OF m(2)]] by (simp add: json_get_def)
  then show ?thesis
    by (simp add: same_command_def merge_into_def merge_json_def workflow_version_def json_get_def m n)
qed

lemma adapt_builtin_response_cases: "adapt_builtin_response action c = c \<or> (\<exists>u. adapt_builtin_response action c = cs_update u c)"
  by (auto simp: adapt_builtin_response_def on_builtin_exec_def on_builtin_failure_def Let_def
      split: operation_action.split)

lemma adapted_response:
  assumes "actor_inv B a" "cs_wf (al_mqtt B) c" "json_get (cs_payload c) ''@version'' = None"
  defines "c' \<equiv> supervisor_adapt_builtin_response (al_json B) (wa_sup a) c"
  shows "cs_wf (al_mqtt B) c' \<and> (get_state (wa_sup a) (topic_name (cs_topic c')) = None \<or> command_ready (wa_sup a) c')"
proof (cases "get_state (wa_sup a) (topic_name (cs_topic c))")
  case None
  with assms(2) show ?thesis by (simp add: c'_def supervisor_adapt_builtin_response_def)
next
  case (Some d)
  have d: "cs_wf (al_mqtt B) d" by (rule pending_wf [OF assms(1) Some])
  obtain t where "hm_get (sup_commands (wa_sup a)) (topic_name (cs_topic c)) = Some (t, d)"
    using Some by (auto simp: get_state_def board_get_state_def)
  then have ready: "command_ready (wa_sup a) d"
    using assms(1) board_wfD(3) unfolding actor_inv_def repo_inv_def sup_inv_def by blast
  let ?m = "merge_into c d"
  have m: "cs_wf (al_mqtt B) ?m" "same_command d ?m"
    using cs_wf_merge_into [OF assms(2) d] same_command_merge [OF assms(2) d assms(3)] by blast+
  have "c' = ?m \<or> (\<exists>u. c' = cs_update u ?m)"
    using Some adapt_builtin_response_cases
    by (cases "get_action (al_json B) (wa_sup a) d") (simp_all add: c'_def supervisor_adapt_builtin_response_def Let_def)
  then have "cs_wf (al_mqtt B) c'" "same_command ?m c'"
    using m(1) cs_wf_update same_command_update [OF m(1)] by auto
  then show ?thesis using ready_same [OF ready same_command_trans [OF m(2)]] by blast
qed

lemma internal_absent:
  assumes "get_state (wr_workflows r) (topic_name (cs_topic c)) = None" "\<not> is_cleared c"
  shows "snd (repo_apply_internal_update now c r) = r"
  using assms
  by (simp add: repo_internal_repo apply_internal_update_def board_update_def get_state_def board_get_state_def)

lemma process_builtin_keeps:
  assumes "script_rule B" "actor_inv B a" "cs_wf (al_mqtt B) c" "json_get (cs_payload c) ''@version'' = None"
    and "process_builtin_command_update B now c a = Some a'"
  shows "actor_inv B a'"
proof (cases "is_finished c")
  case False
  with assms(2,5) show ?thesis by (auto simp: process_builtin_command_update_def actor_inv_def)
next
  case True
  let ?c = "supervisor_adapt_builtin_response (al_json B) (wa_sup a) c"
  have c: "cs_wf (al_mqtt B) ?c" "get_state (wa_sup a) (topic_name (cs_topic ?c)) = None \<or> command_ready (wa_sup a) ?c"
    using adapted_response [OF assms(2-4)] by blast+
  have "\<not> is_cleared ?c" using c(1) by (auto simp: cs_wf_def is_cleared_def is_null_def)
  then have "repo_inv (al_mqtt B) (snd (repo_apply_internal_update now ?c (wa_repo a)))"
    using c assms(2) internal_absent repo_internal_keeps by (metis actor_inv_def)
  then have inv: "actor_inv B (publish (into_message (al_json B) ?c) (persist_command_board B
      (a\<lparr>wa_repo := snd (repo_apply_internal_update now ?c (wa_repo a))\<rparr>)))"
    using assms(2) by (simp add: actor_inv_def)
  show ?thesis
    using assms(5) True process_command_update_keeps [OF assms(1) inv c(1)]
    by (simp add: process_builtin_command_update_def finalize_builtin_command_update_def Let_def)
qed

lemma remove_operation_keeps:
  assumes "repo_inv L r"
  shows "repo_inv L (snd (remove_operation_workflow p r))"
proof (cases "find (\<lambda>(_, _, q). q = p) (wr_definitions r)")
  case None
  with assms show ?thesis by (simp add: remove_operation_workflow_def)
next
  case (Some opv)
  obtain op v q where found: "find (\<lambda>(_, _, q). q = p) (wr_definitions r) = Some (op, v, q)" using Some by (cases opv) auto
  then have "(op, v, q) \<in> set (wr_definitions r)" by (metis find_Some_iff nth_mem)
  then have "hm_get (wr_definitions r) op = Some (v, q)" using assms by (simp add: repo_inv_def)
  then have current: "is_current_version (wr_workflows r) op v" using assms by (auto simp: repo_inv_def)
  let ?s = "snd (unregister_custom_workflow op v (wr_workflows r))"
  have inv: "sup_inv L ?s" "sup_all workflow_ok ?s"
    using assms current unregister_keeps unregister_all by (auto simp: repo_inv_def)
  have "is_current_version ?s op' v'" if "hm_get (hm_remove op (wr_definitions r)) op' = Some (v', q')" for op' v' q'
  proof -
    have op': "op' \<noteq> op" "hm_get (wr_definitions r) op' = Some (v', q')"
      using that by (auto simp: delete_conv' split: if_splits)
    then have "operation_of_str op' \<noteq> operation_of_str op" by (metis operation_to_of_str)
    then show ?thesis
      using op'(2) assms unregister_current by (simp add: is_current_version_iff repo_inv_def)
  qed
  moreover have "snd (remove_operation_workflow p r)
      = r\<lparr>wr_definitions := hm_remove op (wr_definitions r), wr_workflows := ?s\<rparr>"
    using found by (simp add: remove_operation_workflow_def Let_def case_prod_unfold)
  ultimately show ?thesis
    using inv assms by (simp add: repo_inv_def distinct_delete)
qed

lemma update_workflows_keeps:
  assumes "files_ok R fs" "repo_inv L r" "update_operation_workflows R M fs S target e r = Some (m, r')"
  shows "repo_inv L r'"
proof -
  have reload: "repo_inv L (snd (reload_operation_workflow R fs p r))" for p
    using load_user_defined_keeps [OF assms(2) read_workflow_ok [OF assms(1)]] assms(2)
    by (auto simp: reload_operation_workflow_def case_prod_unfold Let_def split: option.split)
  have reloaded: "repo_inv L r''" if "reload_operation_workflow R fs p r = (x, r'')" for p x r''
    using reload [of p] that by simp
  have removed: "repo_inv L r''" if "remove_operation_workflow p r = (x, r'')" for p x r''
    using remove_operation_keeps [OF assms(2), of p] that by simp
  show ?thesis
    using assms(2,3) reloaded removed
    by (auto simp: update_operation_workflows_def split: fs_event.splits if_splits prod.splits option.splits)
qed

section \<open>The first states\<close>

lemma register_in_use_keeps:
  assumes "repo_inv L r" "workflow_ok w" "\<forall>v. source \<noteq> UserDefined v"
  shows "repo_inv L (r\<lparr>wr_workflows := snd (register_custom_workflow source w (wr_workflows r))\<rparr>)"
proof (rule repo_inv_workflows [OF assms(1)])
  have s: "sup_inv L (wr_workflows r)" "sup_all workflow_ok (wr_workflows r)" using assms(1) by (simp_all add: repo_inv_def)
  then show "sup_inv L (snd (register_custom_workflow source w (wr_workflows r)))"
    using sup_inv_grows register_keeps unfolding sup_inv_def by blast
  show "sup_all workflow_ok (snd (register_custom_workflow source w (wr_workflows r)))"
    by (rule register_all [OF s(2) assms(2)])
  show "current_version (snd (register_custom_workflow source w (wr_workflows r))) = current_version (wr_workflows r)"
    using assms(3) by (cases source) (simp_all add: register_current)
qed

lemma load_file_keeps:
  assumes "files_ok R fs" "repo_inv L r"
  shows "repo_inv L (load_file R fs source p r)"
proof (cases "path_extension p = Some ''toml'' \<and> read_operation_workflow R fs p \<noteq> None")
  case False
  with assms(2) show ?thesis by (auto simp: load_file_def split: option.split)
next
  case True
  then obtain w v where read: "read_operation_workflow R fs p = Some (w, v)" by auto
  have w: "workflow_ok w" by (rule read_workflow_ok [OF assms(1) read])
  have "repo_inv L (snd (load_operation_workflow (source_set_inner source p) w v r))"
  proof (cases source)
    case (UserDefined d)
    with load_user_defined_keeps [OF assms(2) w] show ?thesis by simp
  next
    case (InUseCopy d)
    let ?r = "r\<lparr>wr_in_use_copies := hm_insert v
      (case hm_get (wr_in_use_copies r) v of Some n \<Rightarrow> n + 1 | None \<Rightarrow> 1) (wr_in_use_copies r)\<rparr>"
    have "repo_inv L ?r" using assms(2) repo_inv_cong [of ?r r] by simp
    from register_in_use_keeps [OF this w, of "InUseCopy v"] InUseCopy show ?thesis
      by (simp add: load_operation_workflow_def)
  qed (use register_in_use_keeps [OF assms(2) w] in \<open>simp add: load_operation_workflow_def\<close>)
  with True read show ?thesis by (simp add: load_file_def)
qed

lemma load_operation_workflows_keeps:
  assumes "files_ok R fs" "repo_inv L r"
  shows "repo_inv L (load_operation_workflows R fs source r)"
proof -
  have "repo_inv L (fold (load_file R fs source) ps r)" for ps
    using assms(2) by (induction ps arbitrary: r) (simp_all add: load_file_keeps [OF assms(1)])
  with assms(2) show ?thesis by (simp add: load_operation_workflows_def split: option.split)
qed

lemma built_in_ok: "canonical_op operation \<Longrightarrow> workflow_ok (workflow_built_in operation)"
  by (auto simp: workflow_ok_def workflow_built_in_def output_ok_def whole_payload_def extract_value_def json_get_def)

lemma load_builtin_workflows_keeps:
  assumes "repo_inv L r"
  shows "repo_inv L (load_builtin_workflows r)"
proof -
  have "repo_inv L (fold (\<lambda>capability r. r\<lparr>wr_workflows :=
      snd (register_builtin_workflow (operation_of_str capability) (wr_workflows r))\<rparr>) cs r)" for cs
    using assms
    by (induction cs arbitrary: r) (simp_all add: register_builtin_workflow_def register_in_use_keeps built_in_ok)
  then show ?thesis by (simp add: load_builtin_workflows_def)
qed

lemma repository_load_keeps:
  "files_ok R fs \<Longrightarrow> repo_inv L r \<Longrightarrow> repo_inv L (repository_load R fs r)"
  by (simp add: repository_load_def load_builtin_workflows_keeps load_operation_workflows_keeps)

lemma repository_new_inv: "repo_inv L (repository_new builtins dir state_dir)"
  by (simp add: repo_inv_def repository_new_def supervisor_default_def sup_inv_def workflows_wf_def board_wf_def
      sup_all_def)

lemma fold_publish_simps [simp]:
  "wa_repo (fold publish ms a) = wa_repo a" "wa_queue (fold publish ms a) = wa_queue a"
  "wa_board_file (fold publish ms a) = wa_board_file a" "wa_files (fold publish ms a) = wa_files a"
  by (induction ms arbitrary: a) (simp_all add: publish_def)

lemma actor_start_keeps:
  assumes "files_ok (al_repo B) (wa_files a)" "wa_repo a = repository_new builtins dir state_dir" "wa_queue a = []"
    and "wa_board_file a = None" "actor_start B now a = Some a'"
  shows "actor_inv B a'"
proof -
  have "repo_inv (al_mqtt B) (repository_load (al_repo B) (wa_files a) (wa_repo a))"
    unfolding assms(2) by (rule repository_load_keeps [OF assms(1) repository_new_inv])
  with assms(1,3,4,5) show ?thesis
    by (auto simp: actor_start_def publish_operation_capabilities_def load_command_board_def actor_inv_def
        split: bind_splits option.splits)
qed

section \<open>Runs of the actor\<close>

definition input_ok :: "actor_lib \<Rightarrow> timestamp \<times> agent_input \<Rightarrow> bool" where
  "input_ok B e =
     (case snd e of
        MqttInput m \<Rightarrow> command_topic (topic_name (mm_topic m))
      | BuiltinInput c \<Rightarrow> cs_wf (al_mqtt B) c \<and> json_get (cs_payload c) ''@version'' = None
      | FilesInput fs \<Rightarrow> files_ok (al_repo B) fs
      | _ \<Rightarrow> True)"

lemma actor_step_keeps:
  assumes "script_rule B" "actor_inv B a" "input_ok B e" "actor_step B a e = Some a'"
  shows "actor_inv B a'"
proof -
  obtain now i where e: "e = (now, i)" by (rule prod.exhaust)
  show ?thesis
  proof (cases i)
    case (MqttInput m)
    with assms(3,4) process_mqtt_message_keeps [OF assms(1,2)] show ?thesis by (simp add: e input_ok_def)
  next
    case InternalInput
    show ?thesis
    proof (cases "wa_queue a")
      case Nil
      with assms(2,4) InternalInput show ?thesis by (simp add: e)
    next
      case (Cons c cs)
      then have "actor_inv B (a\<lparr>wa_queue := cs\<rparr>)" "cs_wf (al_mqtt B) c" using assms(2) by (simp_all add: actor_inv_def)
      from process_command_update_keeps [OF assms(1) this, of now] Cons InternalInput assms(4) show ?thesis by (simp add: e)
    qed
  next
    case (BuiltinInput c)
    with assms(3,4) have "cs_wf (al_mqtt B) c" "json_get (cs_payload c) ''@version'' = None"
      "process_builtin_command_update B now c a = Some a'" by (simp_all add: e input_ok_def)
    then show ?thesis by (rule process_builtin_keeps [OF assms(1,2)])
  next
    case (MetadataInput c)
    with assms(2,4) show ?thesis
      by (auto simp: e publish_builtin_capability_def actor_inv_def split: bind_splits)
  next
    case (FsInput f)
    with assms(4) obtain m r where "update_operation_workflows (al_repo B) (al_mqtt B) (wa_files a) (wa_schema a)
        (wa_device a) f (wa_repo a) = Some (m, r)"
      "a' = (case m of Some m \<Rightarrow> publish m (a\<lparr>wa_repo := r\<rparr>) | None \<Rightarrow> a\<lparr>wa_repo := r\<rparr>)"
      by (auto simp: e Let_def split: bind_splits)
    with update_workflows_keeps assms(2) show ?thesis
      by (auto simp: actor_inv_def split: option.split)
  next
    case (FilesInput fs)
    with assms(2-4) show ?thesis by (auto simp: e actor_inv_def input_ok_def)
  qed
qed

text \<open>The runs of the actor, under the rules its environment follows.\<close>

interpretation actor: step_invariant "actor_step B" "input_ok B"
    "\<lambda>a. script_rule B \<and> actor_inv B a" for B
  by unfold_locales (use actor_step_keeps in blast)

text \<open>
  C10. The workflow actor, started without pending commands, over every sequence of messages on command topics, internal updates,
  answers of built-in operations and changes of the workflow files: each pending command is stored under its own
  topic, its status is the one of its payload, and the version of the workflow it started with is still there; the
  only error that its next action can give is a state that its workflow does not define.  This holds for users that
  leave the property \<^verbatim>\<open>@version\<close> to the agent: no script prints it, no definition among the files has a step that
  takes it over from a sub-operation (or is for the health operation), and no built-in operation answers with it.
\<close>

theorem actor_commands_have_workflows:
  assumes "script_rule B" "files_ok (al_repo B) (wa_files a0)"
    and "wa_repo a0 = repository_new builtins dir state_dir" "wa_queue a0 = []" "wa_board_file a0 = None"
    and "actor_start B now a0 = Some a1" "list_all (input_ok B) es" "run (actor_step B) a1 es = Some a"
    and "get_state (wa_sup a) k = Some c"
  shows "topic_name (cs_topic c) = k \<and> cs_wf (al_mqtt B) c
    \<and> (case get_action (al_json B) (wa_sup a) c of
         Inr action \<Rightarrow> True
       | Inl err \<Rightarrow> \<exists>op. cs_operation c = Some op \<and> err = UnknownStep op (cs_status c))"
proof -
  have "actor_inv B a1" by (rule actor_start_keeps [OF assms(2-6)])
  with assms(1) have "actor_inv B a" using actor.run_inv [OF _ assms(7,8)] by blast
  then have "sup_inv (al_mqtt B) (wa_sup a)" by (simp add: actor_inv_def repo_inv_def)
  from pending_action [OF this assms(9)] show ?thesis .
qed

definition example_actor_lib :: actor_lib where
  "example_actor_lib =
     \<lparr>al_mqtt = wildcard_free_mqtt, al_scripts = example_lib, al_time = example_time, al_repo = example_repo_lib,
      al_debug = (\<lambda>_. []), al_run = (\<lambda>_. Inl ''not found''), al_store_ok = (\<lambda>_. True)\<rparr>"

definition example_actor :: workflow_actor where
  "example_actor =
     \<lparr>wa_schema = schema_new, wa_device = default_main_device, wa_log_dir = ''/var/log'', wa_handlers = [''restart''],
      wa_files = [], wa_repo = repository_new [''restart''] ''/ops'' ''/state'', wa_board_file = None, wa_queue = [],
      wa_dispatched = [], wa_published = [], wa_slept = [], wa_scripts = []\<rparr>"

definition example_inputs :: "(timestamp \<times> agent_input) list" where
  "example_inputs = [(1, MqttInput (into_message code_serde example_command)), (2, InternalInput)]"

theorem actor_commands_have_workflows_witness:
  "\<exists>a1 a c. actor_start example_actor_lib 0 example_actor = Some a1
    \<and> run (actor_step example_actor_lib) a1 example_inputs = Some a
    \<and> get_state (wa_sup a) ''te/device/main///cmd/restart/1'' = Some c
    \<and> cs_wf wildcard_free_mqtt c \<and> cs_status c = ''executing'' \<and> map cs_status (wa_dispatched a) = [''scheduled'']"
proof -
  let ?last = "actor_start example_actor_lib 0 example_actor \<bind> (\<lambda>a. run (actor_step example_actor_lib) a example_inputs)"
  let ?k = "''te/device/main///cmd/restart/1''"
  have ends: "map_option (\<lambda>a. (map_option cs_status (get_state (wa_sup a) ?k), map cs_status (wa_dispatched a))) ?last
      = Some (Some ''executing'', [''scheduled''])" by code_simp
  obtain a1 where a1: "actor_start example_actor_lib 0 example_actor = Some a1"
    using ends by (cases "actor_start example_actor_lib 0 example_actor") simp_all
  with ends obtain a c where a: "run (actor_step example_actor_lib) a1 example_inputs = Some a"
    "get_state (wa_sup a) ?k = Some c" "cs_status c = ''executing''" "map cs_status (wa_dispatched a) = [''scheduled'']"
    by auto
  have "script_rule example_actor_lib"
    using code_serde_wf by (auto simp: script_rule_def example_actor_lib_def example_lib_def parses_wf_def)
  moreover have "files_ok (al_repo example_actor_lib) (wa_files example_actor)"
    by (simp add: files_ok_def example_actor_def)
  moreover have "split_on slash (topic_name (mm_topic (into_message code_serde example_command)))
      = [''te'', ''device'', ''main'', [], [], ''cmd'', ''restart'', ''1'']" by code_simp
  then have "list_all (input_ok example_actor_lib) example_inputs"
    by (simp add: example_inputs_def input_ok_def command_topic_def)
  moreover have "wa_repo example_actor = repository_new [''restart''] ''/ops'' ''/state''" "wa_queue example_actor = []"
    "wa_board_file example_actor = None" by (simp_all add: example_actor_def)
  ultimately have "cs_wf (al_mqtt example_actor_lib) c"
    using actor_commands_have_workflows [OF _ _ _ _ _ a1 _ a(1,2)] by blast
  with a1 a show ?thesis by (auto simp: example_actor_lib_def)
qed

end
