(* ===== verification/Batcher.thy ===== *)
theory Batcher
  imports Prelude "HOL-Library.Word" "HOL-Library.Multiset"
begin

text \<open>
  The batcher of telemetry (the crate \<^verbatim>\<open>common/batcher\<close>), which groups events that are close in time: the
  batches (\<^verbatim>\<open>batch.rs\<close>), the batcher (\<^verbatim>\<open>batcher.rs\<close>), its parameters (\<^verbatim>\<open>config.rs\<close>) and the actor that drives it with
  timers (\<^verbatim>\<open>driver.rs\<close>).  Times and durations are integers of nanoseconds, without the bounds of the \<^verbatim>\<open>time\<close>
  package; the key and the time of an event are functions, as in the trait \<^verbatim>\<open>Batchable\<close>.  Every reading of the
  clock is an input of the driver.
\<close>

type_synonym nanos = int

record ('k, 'b) batchable =
  ba_key :: "'b \<Rightarrow> 'k"
  ba_event_time :: "'b \<Rightarrow> nanos"

section \<open>Parameters\<close>

record batch_config =
  bc_event_jitter :: nanos
  bc_delivery_jitter :: nanos
  bc_message_leap_limit :: nanos

definition milliseconds :: "int \<Rightarrow> nanos" where
  "milliseconds n = n * 1000000"

definition config_build :: "32 word \<Rightarrow> 32 word \<Rightarrow> 32 word \<Rightarrow> batch_config" where
  "config_build event_jitter delivery_jitter message_leap_limit =
     \<lparr>bc_event_jitter = milliseconds (uint event_jitter), bc_delivery_jitter = milliseconds (uint delivery_jitter),
      bc_message_leap_limit = milliseconds (uint message_leap_limit)\<rparr>"

section \<open>Batches\<close>

record ('k, 'b) batch =
  batch_start :: nanos
  batch_end :: nanos
  batch_events :: "('k, 'b) hmap"

datatype ('k, 'b) batch_added = Added | Duplicate | Split "('k, 'b) batch"

definition batch_new :: "('k, 'b) batchable \<Rightarrow> nanos \<Rightarrow> nanos \<Rightarrow> 'b \<Rightarrow> ('k, 'b) batch" where
  "batch_new A start stop event =
     \<lparr>batch_start = start, batch_end = stop, batch_events = hm_insert (ba_key A event) event []\<rparr>"

text \<open>The division of a duration truncates towards zero.\<close>

definition midpoint :: "nanos \<Rightarrow> nanos \<Rightarrow> nanos" where
  "midpoint event_time1 event_time2 =
     (let gap = event_time1 - event_time2 in event_time2 + (if gap < 0 then - (- gap div 2) else gap div 2))"

definition split_event ::
  "('k, 'b) batchable \<Rightarrow> nanos \<Rightarrow> 'b \<Rightarrow> ('k, 'b) hmap \<times> ('k, 'b) hmap \<Rightarrow> ('k, 'b) hmap \<times> ('k, 'b) hmap" where
  "split_event A split_point event = (\<lambda>(events, new_batch_events).
     if ba_event_time A event < split_point then (hm_insert (ba_key A event) event events, new_batch_events)
     else (events, hm_insert (ba_key A event) event new_batch_events))"

definition batch_split ::
  "('k, 'b) batchable \<Rightarrow> nanos \<Rightarrow> 'b \<Rightarrow> ('k, 'b) batch \<Rightarrow> ('k, 'b) batch \<times> ('k, 'b) batch" where
  "batch_split A existing_event_time event b =
     (let split_point = midpoint existing_event_time (ba_event_time A event);
          (events, new_batch_events) = fold (split_event A split_point) (map snd (batch_events b) @ [event]) ([], [])
      in (\<lparr>batch_start = split_point, batch_end = batch_end b, batch_events = new_batch_events\<rparr>,
          b\<lparr>batch_end := split_point, batch_events := events\<rparr>))"

definition batch_add ::
  "('k, 'b) batchable \<Rightarrow> 'b \<Rightarrow> ('k, 'b) batch \<Rightarrow> ('k, 'b) batch_added \<times> ('k, 'b) batch" where
  "batch_add A event b =
     (let key = ba_key A event in
      case hm_get (batch_events b) key of
        Some existing_event \<Rightarrow>
          (let existing_event_time = ba_event_time A existing_event in
           if ba_event_time A event = existing_event_time then (Duplicate, b)
           else (let (new_batch, b) = batch_split A existing_event_time event b in (Split new_batch, b)))
      | None \<Rightarrow> (Added, b\<lparr>batch_events := hm_insert key event (batch_events b)\<rparr>))"

definition into_vec :: "('k, 'b) batch \<Rightarrow> 'b list" where
  "into_vec b = map snd (batch_events b)"

section \<open>The batcher\<close>

datatype 'b batcher_output = OutBatch "'b list" | OutTimer nanos

record ('k, 'b) batcher =
  br_config :: batch_config
  br_batches :: "('k, 'b) batch list"

definition batcher_new :: "batch_config \<Rightarrow> ('k, 'b) batcher" where
  "batcher_new config = \<lparr>br_config = config, br_batches = []\<rparr>"

text \<open>\<^verbatim>\<open>Iterator::max_by\<close> returns the last of the greatest elements, \<^verbatim>\<open>min_by\<close> the first of the least.\<close>

fun max_by :: "('a \<Rightarrow> nanos) \<Rightarrow> 'a list \<Rightarrow> 'a option" where
  "max_by f [] = None"
| "max_by f (x # xs) = (case max_by f xs of None \<Rightarrow> Some x | Some y \<Rightarrow> Some (if f x > f y then x else y))"

fun min_by :: "('a \<Rightarrow> nanos) \<Rightarrow> 'a list \<Rightarrow> 'a option" where
  "min_by f [] = None"
| "min_by f (x # xs) = (case min_by f xs of None \<Rightarrow> Some x | Some y \<Rightarrow> Some (if f x \<le> f y then x else y))"

definition previous_batch :: "nanos \<Rightarrow> ('k, 'b) batcher \<Rightarrow> ('k, 'b) batch option" where
  "previous_batch event_time r = max_by batch_end (filter (\<lambda>b. batch_end b < event_time) (br_batches r))"

definition next_batch :: "nanos \<Rightarrow> ('k, 'b) batcher \<Rightarrow> ('k, 'b) batch option" where
  "next_batch event_time r = min_by batch_start (filter (\<lambda>b. batch_start b > event_time) (br_batches r))"

definition make_new_batch :: "('k, 'b) batchable \<Rightarrow> 'b \<Rightarrow> ('k, 'b) batcher \<Rightarrow> ('k, 'b) batch" where
  "make_new_batch A event r =
     (let event_time = ba_event_time A event;
          start = event_time;
          stop = start + bc_event_jitter (br_config r);
          start = (case previous_batch event_time r of Some b \<Rightarrow> max start (batch_end b) | None \<Rightarrow> start);
          stop = (case next_batch event_time r of Some b \<Rightarrow> min stop (batch_start b) | None \<Rightarrow> stop)
      in batch_new A start stop event)"

definition in_window :: "nanos \<Rightarrow> ('k, 'b) batch \<Rightarrow> bool" where
  "in_window event_time b \<longleftrightarrow> batch_start b \<le> event_time \<and> event_time \<le> batch_end b"

text \<open>The target batch is updated in place: the batches before it, the batch itself, and the batches after it.\<close>

fun find_target_batch ::
  "nanos \<Rightarrow> ('k, 'b) batch list \<Rightarrow> (('k, 'b) batch list \<times> ('k, 'b) batch \<times> ('k, 'b) batch list) option" where
  "find_target_batch event_time [] = None"
| "find_target_batch event_time (b # bs) =
     (if in_window event_time b then Some ([], b, bs)
      else (case find_target_batch event_time bs of
              None \<Rightarrow> None
            | Some (before, target, after) \<Rightarrow> Some (b # before, target, after)))"

definition is_open :: "batch_config \<Rightarrow> nanos \<Rightarrow> ('k, 'b) batch \<Rightarrow> bool" where
  "is_open config time b \<longleftrightarrow> batch_end b + bc_delivery_jitter config > time"

definition batcher_time :: "nanos \<Rightarrow> ('k, 'b) batcher \<Rightarrow> 'b list list \<times> ('k, 'b) batcher" where
  "batcher_time time r =
     (let (open_batches, closed_batches) = partition (is_open (br_config r) time) (br_batches r)
      in (map into_vec closed_batches, r\<lparr>br_batches := open_batches\<rparr>))"

definition output_for_batch_end ::
  "nanos \<Rightarrow> nanos \<Rightarrow> ('k, 'b) batcher \<Rightarrow> 'b batcher_output list \<times> ('k, 'b) batcher" where
  "output_for_batch_end processing_time stop r =
     (let batch_timeout = stop + bc_delivery_jitter (br_config r) in
      if processing_time < batch_timeout then ([OutTimer batch_timeout], r)
      else (let (batches, r) = batcher_time processing_time r in (map OutBatch batches, r)))"

definition batcher_event ::
  "('k, 'b) batchable \<Rightarrow> nanos \<Rightarrow> 'b \<Rightarrow> ('k, 'b) batcher \<Rightarrow> 'b batcher_output list \<times> ('k, 'b) batcher" where
  "batcher_event A processing_time event r =
     (let event_time = ba_event_time A event in
      if event_time < processing_time - bc_delivery_jitter (br_config r) then ([], r)
      else if event_time > processing_time + bc_message_leap_limit (br_config r) then ([], r)
      else
        case find_target_batch event_time (br_batches r) of
          None \<Rightarrow>
            (let new_batch = make_new_batch A event r;
                 r = r\<lparr>br_batches := br_batches r @ [new_batch]\<rparr>
             in output_for_batch_end processing_time (batch_end new_batch) r)
        | Some (before, target_batch, after) \<Rightarrow>
            (case batch_add A event target_batch of
               (Added, target_batch) \<Rightarrow> ([], r\<lparr>br_batches := before @ target_batch # after\<rparr>)
             | (Duplicate, target_batch) \<Rightarrow> ([], r\<lparr>br_batches := before @ target_batch # after\<rparr>)
             | (Split new_batch, target_batch) \<Rightarrow>
                 (let r = r\<lparr>br_batches := (before @ target_batch # after) @ [new_batch]\<rparr>
                  in output_for_batch_end processing_time (batch_end target_batch) r)))"

definition batcher_flush :: "('k, 'b) batcher \<Rightarrow> 'b list list \<times> ('k, 'b) batcher" where
  "batcher_flush r = (map into_vec (rev (br_batches r)), r\<lparr>br_batches := []\<rparr>)"

section \<open>The driver\<close>

datatype 'b driver_input = DriverEvent 'b | DriverFlush

datatype 'b driver_output = BatchOf "'b list" | Flushed

datatype time_to = Unbounded | Future nat | Past nanos

record ('k, 'b) batch_driver =
  bd_batcher :: "('k, 'b) batcher"
  bd_timers :: "nanos set"
  bd_sent :: "'b driver_output list"
  bd_running :: bool

definition driver_new :: "('k, 'b) batcher \<Rightarrow> ('k, 'b) batch_driver" where
  "driver_new r = \<lparr>bd_batcher = r, bd_timers = {}, bd_sent = [], bd_running = True\<rparr>"

text \<open>The time before the next timer, rounded down to seconds.\<close>

definition time_to_next_timer :: "nanos \<Rightarrow> ('k, 'b) batch_driver \<Rightarrow> time_to" where
  "time_to_next_timer now d =
     (if bd_timers d = {} then Unbounded
      else (let timer = Min (bd_timers d); signed_duration = timer - now in
            if signed_duration < 0 then Past timer else Future (nat (signed_duration div 1000000000))))"

fun driver_action :: "'b batcher_output \<Rightarrow> ('k, 'b) batch_driver \<Rightarrow> ('k, 'b) batch_driver" where
  "driver_action (OutBatch batch) d = d\<lparr>bd_sent := bd_sent d @ [BatchOf batch]\<rparr>"
| "driver_action (OutTimer t) d = d\<lparr>bd_timers := insert t (bd_timers d)\<rparr>"

definition driver_event :: "('k, 'b) batchable \<Rightarrow> nanos \<Rightarrow> 'b \<Rightarrow> ('k, 'b) batch_driver \<Rightarrow> ('k, 'b) batch_driver" where
  "driver_event A now event d =
     (let (actions, r) = batcher_event A now event (bd_batcher d)
      in fold driver_action actions (d\<lparr>bd_batcher := r\<rparr>))"

definition driver_time :: "nanos \<Rightarrow> ('k, 'b) batch_driver \<Rightarrow> ('k, 'b) batch_driver" where
  "driver_time timer d =
     (let (batches, r) = batcher_time timer (bd_batcher d)
      in d\<lparr>bd_batcher := r, bd_sent := bd_sent d @ map BatchOf batches\<rparr>)"

definition driver_flush :: "('k, 'b) batch_driver \<Rightarrow> ('k, 'b) batch_driver" where
  "driver_flush d =
     (let (batches, r) = batcher_flush (bd_batcher d)
      in d\<lparr>bd_batcher := r, bd_sent := bd_sent d @ map BatchOf batches @ [Flushed], bd_running := False\<rparr>)"

text \<open>
  One turn of the loop: the clock is read for the next timer, and again for what is done.  The receipt of a
  message gives a message, the end of the channel, or the expiry of the timeout.
\<close>

datatype 'b received = Elapsed | Closed | Received "'b driver_input"

definition driver_turn ::
  "('k, 'b) batchable \<Rightarrow> nanos \<Rightarrow> nanos \<Rightarrow> 'b received \<Rightarrow> ('k, 'b) batch_driver \<Rightarrow> ('k, 'b) batch_driver" where
  "driver_turn A now later message d =
     (if \<not> bd_running d then d
      else case time_to_next_timer now d of
        Past timer \<Rightarrow> driver_time later (d\<lparr>bd_timers := bd_timers d - {timer}\<rparr>)
      | _ \<Rightarrow>
          (case message of
             Elapsed \<Rightarrow> d
           | Closed \<Rightarrow> driver_flush d
           | Received DriverFlush \<Rightarrow> driver_flush d
           | Received (DriverEvent event) \<Rightarrow> driver_event A later event d))"

section \<open>Batches are well-formed\<close>

definition batch_ok :: "('k, 'b) batchable \<Rightarrow> batch_config \<Rightarrow> ('k, 'b) batch \<Rightarrow> bool" where
  "batch_ok A config b \<longleftrightarrow>
     batch_events b = map (\<lambda>e. (ba_key A e, e)) (into_vec b)
     \<and> distinct (map (ba_key A) (into_vec b)) \<and> batch_start b \<le> batch_end b
     \<and> batch_end b \<le> batch_start b + bc_event_jitter config
     \<and> (\<forall>e \<in> set (into_vec b). in_window (ba_event_time A e) b)"

definition windows_apart :: "('k, 'b) batch \<Rightarrow> ('k, 'b) batch \<Rightarrow> bool" where
  "windows_apart b b' \<longleftrightarrow> batch_end b \<le> batch_start b' \<or> batch_end b' \<le> batch_start b"

definition batcher_ok :: "('k, 'b) batchable \<Rightarrow> ('k, 'b) batcher \<Rightarrow> bool" where
  "batcher_ok A r \<longleftrightarrow> (\<forall>b \<in> set (br_batches r). batch_ok A (br_config r) b)
     \<and> sorted_wrt windows_apart (br_batches r)"

definition config_ok :: "batch_config \<Rightarrow> bool" where
  "config_ok config \<longleftrightarrow> 0 \<le> bc_event_jitter config \<and> 0 \<le> bc_delivery_jitter config"

lemma config_build_ok [simp]: "config_ok (config_build w1 w2 w3)"
  by (simp add: config_ok_def config_build_def milliseconds_def)

lemma batch_ok_get:
  assumes "batch_ok A config b"
  shows "hm_get (batch_events b) k = find (\<lambda>e. ba_key A e = k) (into_vec b)"
proof -
  have "map_of (map (\<lambda>e. (ba_key A e, e)) es) k = find (\<lambda>e. ba_key A e = k) es" for es by (induction es) auto
  moreover have "batch_events b = map (\<lambda>e. (ba_key A e, e)) (into_vec b)" using assms by (simp add: batch_ok_def)
  ultimately show ?thesis by simp
qed

lemma batch_ok_found:
  "batch_ok A config b \<Longrightarrow> hm_get (batch_events b) k = Some e \<Longrightarrow> e \<in> set (into_vec b) \<and> ba_key A e = k"
  by (auto simp: batch_ok_get find_Some_iff)

lemma midpoint_bounds:
  "min t1 t2 \<le> midpoint t1 t2" "midpoint t1 t2 \<le> max t1 t2"
  by (auto simp: midpoint_def Let_def)

lemma midpoint_separates:
  assumes "t1 \<noteq> t2" "t1 \<noteq> t2 + 1"
  shows "(t1 < midpoint t1 t2) \<noteq> (t2 < midpoint t1 t2)"
  using assms by (auto simp: midpoint_def Let_def)

lemma fold_split_event:
  "fold (split_event A sp) es (l, r) =
     (fold (\<lambda>e. hm_insert (ba_key A e) e) (filter (\<lambda>e. ba_event_time A e < sp) es) l,
      fold (\<lambda>e. hm_insert (ba_key A e) e) (filter (\<lambda>e. \<not> ba_event_time A e < sp) es) r)"
  by (induction es arbitrary: l r) (auto simp: split_event_def)

lemma distinct_filter_snoc:
  assumes "distinct (map f xs)" "x \<in> set xs" "f x = f y" "P x \<noteq> P y"
  shows "distinct (map f (filter P (xs @ [y])))" "distinct (map f (filter (\<lambda>z. \<not> P z) (xs @ [y])))"
proof -
  have other: "f z \<noteq> f y" if "z \<in> set xs" "P z = P y" for z
    using assms that by (metis distinct_map inj_onD)
  show "distinct (map f (filter P (xs @ [y])))" "distinct (map f (filter (\<lambda>z. \<not> P z) (xs @ [y])))"
    using assms(1) other by (simp_all add: distinct_map_filter image_iff) metis+
qed

lemma batch_split_events:
  assumes "batch_ok A config b" "hm_get (batch_events b) (ba_key A event) = Some e"
    and "ba_event_time A event \<noteq> ba_event_time A e" "ba_event_time A e \<noteq> ba_event_time A event + 1"
    and "batch_split A (ba_event_time A e) event b = (new, old)"
  defines "sp \<equiv> midpoint (ba_event_time A e) (ba_event_time A event)"
  shows "batch_events old = map (\<lambda>e. (ba_key A e, e)) (filter (\<lambda>e. ba_event_time A e < sp) (into_vec b @ [event]))"
    and "batch_events new = map (\<lambda>e. (ba_key A e, e)) (filter (\<lambda>e. \<not> ba_event_time A e < sp) (into_vec b @ [event]))"
    and "batch_start old = batch_start b" "batch_end old = sp" "batch_start new = sp" "batch_end new = batch_end b"
proof -
  let ?P = "\<lambda>e. ba_event_time A e < sp"
  have e: "e \<in> set (into_vec b)" "ba_key A e = ba_key A event" using batch_ok_found [OF assms(1,2)] by simp_all
  have "?P e \<noteq> ?P event" using midpoint_separates [of "ba_event_time A e" "ba_event_time A event"] assms(3,4)
    by (auto simp: sp_def)
  moreover have "distinct (map (ba_key A) (into_vec b))" using assms(1) by (simp add: batch_ok_def)
  ultimately have "distinct (map (ba_key A) (filter ?P (into_vec b @ [event])))"
    "distinct (map (ba_key A) (filter (\<lambda>e. \<not> ?P e) (into_vec b @ [event])))"
    using distinct_filter_snoc [OF _ e, of ?P] by blast+
  note inserted = fold_insert_new [OF this(1), of "[]" "\<lambda>e. e"] fold_insert_new [OF this(2), of "[]" "\<lambda>e. e"]
  have "fold (split_event A sp) (map snd (batch_events b) @ [event]) ([], [])
      = (map (\<lambda>e. (ba_key A e, e)) (filter ?P (into_vec b @ [event])),
         map (\<lambda>e. (ba_key A e, e)) (filter (\<lambda>e. \<not> ?P e) (into_vec b @ [event])))"
    unfolding fold_split_event into_vec_def [symmetric] using inserted by simp
  with assms(5) show "batch_events old = map (\<lambda>e. (ba_key A e, e)) (filter ?P (into_vec b @ [event]))"
    "batch_events new = map (\<lambda>e. (ba_key A e, e)) (filter (\<lambda>e. \<not> ?P e) (into_vec b @ [event]))"
    "batch_start old = batch_start b" "batch_end old = sp" "batch_start new = sp" "batch_end new = batch_end b"
    by (auto simp: batch_split_def Let_def sp_def)
qed

lemma batch_split_ok:
  assumes "batch_ok A config b" "hm_get (batch_events b) (ba_key A event) = Some e" "in_window (ba_event_time A event) b"
    and "ba_event_time A event \<noteq> ba_event_time A e" "ba_event_time A e \<noteq> ba_event_time A event + 1"
    and "batch_split A (ba_event_time A e) event b = (new, old)"
  shows "batch_ok A config old" "batch_ok A config new" "mset (into_vec old @ into_vec new) = mset (event # into_vec b)"
    and "batch_start old = batch_start b" "batch_end old = batch_start new" "batch_end new = batch_end b"
    and "batch_start b \<le> batch_end old" "batch_end old \<le> batch_end b"
proof -
  let ?sp = "midpoint (ba_event_time A e) (ba_event_time A event)" and ?es = "into_vec b @ [event]"
  let ?P = "\<lambda>e. ba_event_time A e < ?sp"
  note split = batch_split_events [OF assms(1,2,4,5,6)]
  have e: "e \<in> set (into_vec b)" "ba_key A e = ba_key A event" using batch_ok_found [OF assms(1,2)] by simp_all
  have vecs: "into_vec old = filter ?P ?es" "into_vec new = filter (\<lambda>e. \<not> ?P e) ?es"
    using split(1,2) by (simp_all add: into_vec_def comp_def)
  have window: "in_window (ba_event_time A x) b" if "x \<in> set ?es" for x
    using that assms(1,3) by (auto simp: batch_ok_def)
  have "in_window (ba_event_time A e) b" by (rule window) (simp add: e(1))
  with assms(3) have sp: "batch_start b \<le> ?sp" "?sp \<le> batch_end b"
    using midpoint_bounds [of "ba_event_time A e" "ba_event_time A event"]
    by (simp_all add: in_window_def min_def max_def split: if_splits)
  have "?P e \<noteq> ?P event" using midpoint_separates [of "ba_event_time A e" "ba_event_time A event"] assms(4,5) by auto
  moreover have "distinct (map (ba_key A) (into_vec b))" using assms(1) by (simp add: batch_ok_def)
  ultimately have keys: "distinct (map (ba_key A) (filter ?P ?es))" "distinct (map (ba_key A) (filter (\<lambda>e. \<not> ?P e) ?es))"
    using distinct_filter_snoc [OF _ e, of ?P] by blast+
  have "batch_end b \<le> batch_start b + bc_event_jitter config" using assms(1) by (simp add: batch_ok_def)
  then show "batch_ok A config old" "batch_ok A config new"
    using sp split window keys unfolding batch_ok_def vecs by (auto simp: in_window_def)
  show "mset (into_vec old @ into_vec new) = mset (event # into_vec b)" unfolding vecs by simp
  show "batch_start old = batch_start b" "batch_end old = batch_start new" "batch_end new = batch_end b"
    "batch_start b \<le> batch_end old" "batch_end old \<le> batch_end b"
    using split sp by simp_all
qed

lemma hm_insert_new: "k \<notin> fst ` set m \<Longrightarrow> hm_insert k v m = m @ [(k, v)]"
  by (induction m) auto

lemma batch_insert_ok:
  assumes "batch_ok A config b" "hm_get (batch_events b) (ba_key A event) = None" "in_window (ba_event_time A event) b"
  defines "b' \<equiv> b\<lparr>batch_events := hm_insert (ba_key A event) event (batch_events b)\<rparr>"
  shows "batch_ok A config b'" "into_vec b' = into_vec b @ [event]"
proof -
  have fresh: "ba_key A event \<notin> ba_key A ` set (into_vec b)"
    using assms(1,2) by (auto simp: batch_ok_get find_None_iff)
  have "batch_events b = map (\<lambda>e. (ba_key A e, e)) (into_vec b)" using assms(1) by (simp add: batch_ok_def)
  note keys = arg_cong [OF this, of "\<lambda>m. fst ` set m"]
  have events: "batch_events b' = batch_events b @ [(ba_key A event, event)]"
    using fresh keys by (simp add: b'_def image_image hm_insert_new)
  then show vec: "into_vec b' = into_vec b @ [event]" by (simp add: into_vec_def)
  show "batch_ok A config b'"
    using assms(1,3) fresh unfolding batch_ok_def vec events by (auto simp: in_window_def b'_def)
qed

section \<open>New batches\<close>

lemma max_by_in: "max_by f xs = Some x \<Longrightarrow> x \<in> set xs"
  by (induction xs arbitrary: x) (auto split: option.splits if_splits)

lemma min_by_None: "min_by f xs = None \<longleftrightarrow> xs = []"
  by (cases xs) (auto split: option.split)

lemma min_by_least: "min_by f xs = Some x \<Longrightarrow> x \<in> set xs \<and> (\<forall>y \<in> set xs. f x \<le> f y)"
proof (induction xs arbitrary: x)
  case (Cons a xs)
  show ?case
  proof (cases "min_by f xs")
    case None
    with Cons.prems show ?thesis by (simp add: min_by_None)
  next
    case (Some z)
    with Cons.IH [of z] Cons.prems show ?thesis by (auto split: if_splits)
  qed
qed simp

lemma find_target_Some:
  "find_target_batch t bs = Some (before, b, after) \<Longrightarrow> bs = before @ b # after \<and> in_window t b"
  by (induction bs arbitrary: before) (auto split: if_splits option.splits)

lemma find_target_None: "find_target_batch t bs = None \<longleftrightarrow> (\<forall>b \<in> set bs. \<not> in_window t b)"
  by (induction bs) (auto split: option.split)

lemma make_new_batch_ok:
  fixes A event r
  defines "b \<equiv> make_new_batch A event r" and "t \<equiv> ba_event_time A event"
  assumes "config_ok (br_config r)" "batcher_ok A r" "find_target_batch t (br_batches r) = None"
  shows "batch_ok A (br_config r) b" "into_vec b = [event]" "\<forall>b' \<in> set (br_batches r). windows_apart b' b"
proof -
  have "previous_batch t r = Some p \<Longrightarrow> batch_end p < t" for p
    unfolding previous_batch_def by (drule max_by_in) simp
  then have start: "batch_start b = t"
    by (auto simp: b_def t_def make_new_batch_def Let_def batch_new_def split: option.split)
  have later: "next_batch t r = Some n \<Longrightarrow> t < batch_start n
      \<and> (\<forall>b' \<in> set (br_batches r). t < batch_start b' \<longrightarrow> batch_start n \<le> batch_start b')" for n
    unfolding next_batch_def by (drule min_by_least) auto
  have none: "next_batch t r = None \<Longrightarrow> \<forall>b' \<in> set (br_batches r). \<not> t < batch_start b'"
    by (simp add: next_batch_def min_by_None filter_empty_conv)
  have stop: "batch_end b = (case next_batch t r of
      Some b' \<Rightarrow> min (t + bc_event_jitter (br_config r)) (batch_start b')
    | None \<Rightarrow> t + bc_event_jitter (br_config r))"
    by (simp add: b_def t_def make_new_batch_def Let_def batch_new_def cong: option.case_cong)
  have least: "batch_end b \<le> batch_start b'" if "b' \<in> set (br_batches r)" "batch_start b' > t" for b'
    using that later none stop by (cases "next_batch t r") fastforce+
  have bounds: "t \<le> batch_end b" "batch_end b \<le> t + bc_event_jitter (br_config r)"
    using assms(3) later stop by (cases "next_batch t r"; fastforce simp: config_ok_def)+
  have events: "batch_events b = [(ba_key A event, event)]"
    by (simp add: b_def make_new_batch_def Let_def batch_new_def)
  show vec: "into_vec b = [event]" by (simp add: into_vec_def events)
  show "batch_ok A (br_config r) b"
    using start bounds by (simp add: batch_ok_def vec events in_window_def t_def)
  have "batch_end b' < t \<or> batch_start b' > t" if "b' \<in> set (br_batches r)" for b'
    using that assms(4,5) by (fastforce simp: find_target_None in_window_def)
  then show "\<forall>b' \<in> set (br_batches r). windows_apart b' b"
    using least start by (fastforce simp: windows_apart_def)
qed

section \<open>Every step of the batcher\<close>

definition pending :: "('k, 'b) batcher \<Rightarrow> 'b multiset" where
  "pending r = mset (concat (map into_vec (br_batches r)))"

definition delivered :: "'b list list \<Rightarrow> 'b multiset" where
  "delivered out = mset (concat out)"

fun batches_of :: "'b batcher_output list \<Rightarrow> 'b list list" where
  "batches_of [] = []"
| "batches_of (OutBatch b # os) = b # batches_of os"
| "batches_of (OutTimer _ # os) = batches_of os"

lemma batches_of_map [simp]: "batches_of (map OutBatch bs) = bs"
  by (induction bs) simp_all

lemma delivered_simps [simp]:
  "delivered [] = {#}" "delivered (out @ out') = delivered out + delivered out'"
  by (simp_all add: delivered_def)

definition batch_spec :: "('k, 'b) batchable \<Rightarrow> batch_config \<Rightarrow> 'b list \<Rightarrow> bool" where
  "batch_spec A config es \<longleftrightarrow> distinct (map (ba_key A) es)
     \<and> (\<forall>e \<in> set es. \<forall>e' \<in> set es. ba_event_time A e' \<le> ba_event_time A e + bc_event_jitter config)"

lemma batch_ok_spec: "batch_ok A config b \<Longrightarrow> batch_spec A config (into_vec b)"
proof -
  assume b: "batch_ok A config b"
  have "ba_event_time A e' \<le> ba_event_time A e + bc_event_jitter config"
    if "e \<in> set (into_vec b)" "e' \<in> set (into_vec b)" for e e'
  proof -
    have "in_window (ba_event_time A e) b" "in_window (ba_event_time A e') b"
      "batch_end b \<le> batch_start b + bc_event_jitter config"
      using b that by (simp_all add: batch_ok_def)
    then show ?thesis unfolding in_window_def by linarith
  qed
  with b show ?thesis by (simp add: batch_ok_def batch_spec_def)
qed

lemma mset_partition_concat:
  "mset (concat (map f (filter P xs))) + mset (concat (map f (filter (\<lambda>x. \<not> P x) xs))) = mset (concat (map f xs))"
  by (induction xs) (auto simp: ac_simps)

lemma batcher_time_spec:
  assumes "batcher_ok A r" "batcher_time now r = (out, r')"
  shows "batcher_ok A r'" "br_config r' = br_config r" "pending r' + delivered out = pending r"
    and "\<forall>es \<in> set out. batch_spec A (br_config r) es"
    and "\<forall>e \<in># delivered out. ba_event_time A e + bc_delivery_jitter (br_config r) \<le> now"
    and "\<forall>e \<in># pending r'. now < ba_event_time A e + bc_event_jitter (br_config r) + bc_delivery_jitter (br_config r)"
    and "br_batches r' = filter (is_open (br_config r) now) (br_batches r)"
proof -
  let ?P = "is_open (br_config r) now"
  have out: "out = map into_vec (filter (\<lambda>b. \<not> ?P b) (br_batches r))"
    "r' = r\<lparr>br_batches := filter ?P (br_batches r)\<rparr>"
    using assms(2) by (auto simp: batcher_time_def Let_def comp_def)
  show "br_batches r' = filter ?P (br_batches r)" "br_config r' = br_config r" by (simp_all add: out)
  show "batcher_ok A r'" using assms(1) by (simp add: out batcher_ok_def sorted_wrt_filter)
  show "pending r' + delivered out = pending r"
    using mset_partition_concat [of into_vec ?P "br_batches r"] by (simp add: out pending_def delivered_def)
  show "\<forall>es \<in> set out. batch_spec A (br_config r) es"
    using assms(1) batch_ok_spec by (auto simp: out batcher_ok_def)
  have window: "batch_start b \<le> ba_event_time A e \<and> ba_event_time A e \<le> batch_end b
      \<and> batch_end b \<le> batch_start b + bc_event_jitter (br_config r)"
    if "b \<in> set (br_batches r)" "e \<in> set (into_vec b)" for b e
    using assms(1) that by (auto simp: batcher_ok_def batch_ok_def in_window_def)
  show "\<forall>e \<in># delivered out. ba_event_time A e + bc_delivery_jitter (br_config r) \<le> now"
    using window by (fastforce simp: out delivered_def is_open_def)
  show "\<forall>e \<in># pending r'. now < ba_event_time A e + bc_event_jitter (br_config r) + bc_delivery_jitter (br_config r)"
    using window by (fastforce simp: out pending_def is_open_def)
qed

lemma windows_apart_sym: "windows_apart b b' = windows_apart b' b"
  by (auto simp: windows_apart_def)

lemma windows_apart_shrink:
  "windows_apart x b \<Longrightarrow> batch_start b \<le> batch_start b' \<Longrightarrow> batch_end b' \<le> batch_end b \<Longrightarrow> windows_apart x b'"
  by (auto simp: windows_apart_def)

lemma replace_target_ok:
  assumes "batcher_ok A r" "br_batches r = before @ b # after" "batch_ok A (br_config r) b'"
    and "batch_start b \<le> batch_start b'" "batch_end b' \<le> batch_end b"
  shows "batcher_ok A (r\<lparr>br_batches := before @ b' # after\<rparr>)"
proof -
  have shrink: "windows_apart x b'" if "windows_apart x b" for x
    by (rule windows_apart_shrink [OF that assms(4,5)])
  then have "windows_apart b' x" if "windows_apart b x" for x using that windows_apart_sym by blast
  with shrink show ?thesis using assms(1-3) by (auto simp: batcher_ok_def sorted_wrt_append)
qed

lemma append_batch_ok:
  assumes "batcher_ok A r" "batch_ok A (br_config r) b" "\<forall>x \<in> set (br_batches r). windows_apart x b"
  shows "batcher_ok A (r\<lparr>br_batches := br_batches r @ [b]\<rparr>)"
  using assms by (auto simp: batcher_ok_def sorted_wrt_append)

lemma split_target_ok:
  assumes "batcher_ok A r" "br_batches r = before @ b # after"
    and "batch_ok A (br_config r) old" "batch_ok A (br_config r) new"
    and "batch_start old = batch_start b" "batch_end old = batch_start new" "batch_end new = batch_end b"
  shows "batcher_ok A (r\<lparr>br_batches := (before @ old # after) @ [new]\<rparr>)"
proof -
  let ?r = "r\<lparr>br_batches := before @ old # after\<rparr>"
  have le: "batch_start new \<le> batch_end new" "batch_start old \<le> batch_end old"
    using assms(3,4) by (simp_all add: batch_ok_def)
  have r: "batcher_ok A ?r" by (rule replace_target_ok [OF assms(1,2,3)]) (use le assms in simp_all)
  have b: "windows_apart x new" if "windows_apart x b" for x
    by (rule windows_apart_shrink [OF that]) (use le assms in simp_all)
  have "\<forall>x \<in> set before \<union> set after. windows_apart x b"
    using assms(1,2) windows_apart_sym by (auto simp: batcher_ok_def sorted_wrt_append)
  then have "\<forall>x \<in> set (br_batches ?r). windows_apart x new"
    using b assms(6) by (auto simp: windows_apart_def)
  from append_batch_ok [OF r _ this] assms(4) show ?thesis by simp
qed

lemma output_for_batch_end_spec:
  assumes "batcher_ok A r" "output_for_batch_end now stop r = (out, r')"
  shows "batcher_ok A r' \<and> br_config r' = br_config r \<and> pending r' + delivered (batches_of out) = pending r
    \<and> (\<forall>es \<in> set (batches_of out). batch_spec A (br_config r) es)
    \<and> (\<forall>e \<in># delivered (batches_of out). ba_event_time A e + bc_delivery_jitter (br_config r) \<le> now)"
proof (cases "now < stop + bc_delivery_jitter (br_config r)")
  case True
  with assms show ?thesis by (auto simp: output_for_batch_end_def)
next
  case False
  then obtain bs where "batcher_time now r = (bs, r')" "out = map OutBatch bs"
    using assms(2) by (auto simp: output_for_batch_end_def Let_def split: prod.splits)
  with batcher_time_spec [OF assms(1)] show ?thesis by simp
qed

definition in_time :: "('k, 'b) batchable \<Rightarrow> batch_config \<Rightarrow> nanos \<Rightarrow> 'b \<Rightarrow> bool" where
  "in_time A config now e \<longleftrightarrow> now - bc_delivery_jitter config \<le> ba_event_time A e
     \<and> ba_event_time A e \<le> now + bc_message_leap_limit config"

text \<open>Where an event that is in time goes: it has a duplicate, or the batches hold it before any of them is closed.\<close>

lemma event_placed:
  assumes "config_ok (br_config r)" "batcher_ok A r" "in_time A (br_config r) now event"
    and spaced: "\<forall>e \<in># pending r. ba_key A e = ba_key A event \<longrightarrow> ba_event_time A e \<noteq> ba_event_time A event + 1"
    and step: "batcher_event A now event r = (out, r')"
  shows "(r' = r \<and> out = [] \<and> (\<exists>e \<in># pending r. ba_key A e = ba_key A event \<and> ba_event_time A e = ba_event_time A event))
    \<or> (\<exists>r1. batcher_ok A r1 \<and> br_config r1 = br_config r \<and> pending r1 = add_mset event (pending r)
         \<and> ((out, r') = ([], r1) \<or> (\<exists>stop. output_for_batch_end now stop r1 = (out, r'))))"
proof (cases "find_target_batch (ba_event_time A event) (br_batches r)")
  case None
  let ?b = "make_new_batch A event r"
  note new = make_new_batch_ok [OF assms(1,2) None]
  have "pending (r\<lparr>br_batches := br_batches r @ [?b]\<rparr>) = add_mset event (pending r)"
    by (simp add: pending_def new(2))
  moreover have "output_for_batch_end now (batch_end ?b) (r\<lparr>br_batches := br_batches r @ [?b]\<rparr>) = (out, r')"
    using step None assms(3) by (simp add: batcher_event_def in_time_def Let_def)
  ultimately show ?thesis using append_batch_ok [OF assms(2) new(1,3)] by fastforce
next
  case (Some x)
  obtain before b after where x: "x = (before, b, after)" by (rule prod_cases3)
  note found = Some [unfolded x]
  have target: "br_batches r = before @ b # after" "in_window (ba_event_time A event) b"
    using find_target_Some [OF found] by simp_all
  have b: "batch_ok A (br_config r) b" using assms(2) target(1) by (simp add: batcher_ok_def)
  show ?thesis
  proof (cases "hm_get (batch_events b) (ba_key A event)")
    case None
    let ?b = "b\<lparr>batch_events := hm_insert (ba_key A event) event (batch_events b)\<rparr>"
    note vec = batch_insert_ok(2) [OF b None target(2)]
    have "batch_ok A (br_config r) ?b" by (rule batch_insert_ok(1) [OF b None target(2)])
    then have "batcher_ok A (r\<lparr>br_batches := before @ ?b # after\<rparr>)" by (rule replace_target_ok [OF assms(2) target(1)]) simp_all
    moreover have "pending (r\<lparr>br_batches := before @ ?b # after\<rparr>) = add_mset event (pending r)"
      using vec by (simp add: pending_def target(1))
    moreover have "(out, r') = ([], r\<lparr>br_batches := before @ ?b # after\<rparr>)"
      using step found None assms(3) by (simp add: batcher_event_def in_time_def Let_def batch_add_def)
    ultimately show ?thesis by fastforce
  next
    case (Some e)
    have e: "e \<in> set (into_vec b)" "ba_key A e = ba_key A event" using batch_ok_found [OF b Some] by simp_all
    then have pend: "e \<in># pending r" by (auto simp: pending_def target(1))
    show ?thesis
    proof (cases "ba_event_time A event = ba_event_time A e")
      case True
      then have "out = []" "r' = r"
        using step found Some assms(3) target(1) by (auto simp: batcher_event_def in_time_def Let_def batch_add_def)
      with pend e(2) True show ?thesis by auto
    next
      case False
      obtain new old where split: "batch_split A (ba_event_time A e) event b = (new, old)" by (rule prod.exhaust)
      have "ba_event_time A e \<noteq> ba_event_time A event + 1" using spaced pend e(2) by blast
      note parts = batch_split_ok [OF b Some target(2) False this split]
      let ?r = "r\<lparr>br_batches := (before @ old # after) @ [new]\<rparr>"
      have "batcher_ok A ?r" by (rule split_target_ok [OF assms(2) target(1) parts(1,2,4,5,6)])
      moreover have "pending ?r = add_mset event (pending r)" using parts(3) by (simp add: pending_def target(1) ac_simps)
      moreover have "output_for_batch_end now (batch_end old) ?r = (out, r')"
        using step found Some assms(3) False split by (simp add: batcher_event_def in_time_def Let_def batch_add_def)
      ultimately show ?thesis by fastforce
    qed
  qed
qed

section \<open>Refinement of a bag of events\<close>

text \<open>
  The abstract machine keeps the bag of the events that wait and the bag of those it has delivered.  An event that
  is out of time, or has the key and the time of a waiting one, is dropped.  Any other event is added, and an
  event is delivered after the delivery jitter, and not later than both jitters after its own time.
\<close>

datatype 'b batcher_op = EventAt nanos 'b | TimeAt nanos

inductive bag_step ::
  "('k, 'b) batchable \<Rightarrow> batch_config \<Rightarrow> 'b multiset \<times> 'b multiset \<Rightarrow> 'b batcher_op \<Rightarrow> 'b multiset \<times> 'b multiset \<Rightarrow> bool"
  for A config where
  dropped: "\<not> in_time A config now e \<Longrightarrow> bag_step A config (P, D) (EventAt now e) (P, D)"
| repeated: "in_time A config now e \<Longrightarrow> e' \<in># P \<Longrightarrow> ba_key A e' = ba_key A e \<Longrightarrow> ba_event_time A e' = ba_event_time A e
    \<Longrightarrow> bag_step A config (P, D) (EventAt now e) (P, D)"
| kept: "in_time A config now e \<Longrightarrow> P' + Q = add_mset e P
    \<Longrightarrow> \<forall>e' \<in># Q. ba_event_time A e' + bc_delivery_jitter config \<le> now
    \<Longrightarrow> bag_step A config (P, D) (EventAt now e) (P', D + Q)"
| elapsed: "P' + Q = P \<Longrightarrow> \<forall>e' \<in># Q. ba_event_time A e' + bc_delivery_jitter config \<le> now
    \<Longrightarrow> \<forall>e' \<in># P'. now < ba_event_time A e' + bc_event_jitter config + bc_delivery_jitter config
    \<Longrightarrow> bag_step A config (P, D) (TimeAt now) (P', D + Q)"

fun batcher_step ::
  "('k, 'b) batchable \<Rightarrow> 'b batcher_op \<Rightarrow> 'b list list \<times> ('k, 'b) batcher \<Rightarrow> 'b list list \<times> ('k, 'b) batcher" where
  "batcher_step A (EventAt now e) (out, r) = (let (os, r') = batcher_event A now e r in (out @ batches_of os, r'))"
| "batcher_step A (TimeAt now) (out, r) = (let (bs, r') = batcher_time now r in (out @ bs, r'))"

definition bags :: "'b list list \<times> ('k, 'b) batcher \<Rightarrow> 'b multiset \<times> 'b multiset" where
  "bags s = (pending (snd s), delivered (fst s))"

text \<open>No two events of the same key are one nanosecond apart: a batch cannot be split between them.\<close>

definition spaced :: "('k, 'b) batchable \<Rightarrow> 'b set \<Rightarrow> bool" where
  "spaced A E \<longleftrightarrow> (\<forall>e \<in> E. \<forall>e' \<in> E. ba_key A e = ba_key A e' \<longrightarrow> ba_event_time A e' \<noteq> ba_event_time A e + 1)"

fun op_within :: "'b set \<Rightarrow> 'b batcher_op \<Rightarrow> bool" where
  "op_within E (EventAt now e) \<longleftrightarrow> e \<in> E"
| "op_within E (TimeAt now) \<longleftrightarrow> True"

definition batching ::
  "('k, 'b) batchable \<Rightarrow> batch_config \<Rightarrow> 'b set \<Rightarrow> 'b list list \<times> ('k, 'b) batcher \<Rightarrow> bool" where
  "batching A config E s \<longleftrightarrow> config_ok config \<and> spaced A E \<and> br_config (snd s) = config \<and> batcher_ok A (snd s)
     \<and> set_mset (pending (snd s)) \<subseteq> E \<and> (\<forall>es \<in> set (fst s). batch_spec A config es)"

lemma event_simulates:
  assumes "batching A config E (out, r)" "e \<in> E" "batcher_event A now e r = (os, r')"
  shows "batching A config E (out @ batches_of os, r')
    \<and> bag_step A config (bags (out, r)) (EventAt now e) (bags (out @ batches_of os, r'))"
proof (cases "in_time A config now e")
  case False
  then have "os = []" "r' = r"
    using assms(1,3) by (auto simp: batching_def in_time_def batcher_event_def Let_def split: if_splits)
  with False assms(1) show ?thesis by (auto simp: bags_def intro: dropped)
next
  case True
  have r: "config_ok (br_config r)" "batcher_ok A r" "in_time A (br_config r) now e"
    "\<forall>e' \<in># pending r. ba_key A e' = ba_key A e \<longrightarrow> ba_event_time A e' \<noteq> ba_event_time A e + 1"
    using True assms(1,2) by (auto simp: batching_def spaced_def)
  from event_placed [OF r assms(3)] show ?thesis
  proof (elim disjE exE conjE bexE)
    fix e' assume "r' = r" "os = []" "e' \<in># pending r" "ba_key A e' = ba_key A e" "ba_event_time A e' = ba_event_time A e"
    with True assms(1) show ?thesis by (auto simp: bags_def intro: repeated)
  next
    fix r1 assume r1: "batcher_ok A r1" "br_config r1 = br_config r" "pending r1 = add_mset e (pending r)" "(os, r') = ([], r1)"
    with assms(1,2) have "batching A config E (out, r1)" by (simp add: batching_def)
    with r1 True kept [of A config now e "pending r1" "{#}" "pending r" "delivered out"] show ?thesis by (simp add: bags_def)
  next
    fix r1 stop assume r1: "batcher_ok A r1" "br_config r1 = br_config r" "pending r1 = add_mset e (pending r)"
      and out: "output_for_batch_end now stop r1 = (os, r')"
    have config: "br_config r1 = config" using assms(1) r1(2) by (simp add: batching_def)
    note spec = output_for_batch_end_spec [OF r1(1) out, unfolded config]
    have "bag_step A config (pending r, delivered out) (EventAt now e) (pending r', delivered out + delivered (batches_of os))"
      by (rule kept [OF True]) (use spec r1(3) in auto)
    moreover have "set_mset (pending r') \<subseteq> set_mset (pending r1)" using spec by (metis mset_subset_eq_add_left set_mset_mono)
    then have "set_mset (pending r') \<subseteq> E" using r1(3) assms(1,2) by (auto simp: batching_def)
    ultimately show ?thesis using assms(1) spec by (auto simp: bags_def batching_def)
  qed
qed

lemma time_simulates:
  assumes "batching A config E (out, r)" "batcher_time now r = (bs, r')"
  shows "batching A config E (out @ bs, r') \<and> bag_step A config (bags (out, r)) (TimeAt now) (bags (out @ bs, r'))"
proof -
  have r: "batcher_ok A r" "br_config r = config" using assms(1) by (simp_all add: batching_def)
  note spec = batcher_time_spec [OF r(1) assms(2), unfolded r(2)]
  have "bag_step A config (pending r, delivered out) (TimeAt now) (pending r', delivered out + delivered bs)"
    by (rule elapsed [OF spec(3,5,6)])
  moreover have "set_mset (pending r') \<subseteq> set_mset (pending r)" using spec(3) by (metis mset_subset_eq_add_left set_mset_mono)
  ultimately show ?thesis using assms(1) spec(1,2,4) by (auto simp: bags_def batching_def)
qed

interpretation batcher: simulation "batcher_step A" "bag_step A config" bags "batching A config E" "op_within E"
  for A :: "('k, 'b) batchable" and config E
proof unfold_locales
  fix s :: "'b list list \<times> ('k, 'b) batcher" and e :: "'b batcher_op"
  assume s: "batching A config E s" "op_within E e"
  obtain out r where "s = (out, r)" by (rule prod.exhaust)
  with s event_simulates [of A config E out r] time_simulates [of A config E out r]
  show "batching A config E (batcher_step A e s) \<and> bag_step A config (bags s) e (bags (batcher_step A e s))"
    by (cases e) (auto split: prod.split)
qed

lemma batching_new: "spaced A E \<Longrightarrow> config_ok config \<Longrightarrow> batching A config E ([], batcher_new config)"
  by (simp add: batching_def batcher_new_def batcher_ok_def pending_def)

lemma mset_concat_rev: "mset (concat (rev xs)) = mset (concat xs)"
  by (induction xs) (simp_all add: ac_simps)

lemma batcher_flush_spec:
  assumes "batcher_ok A r" "batcher_flush r = (bs, r')"
  shows "pending r' = {#}" "delivered bs = pending r" "\<forall>es \<in> set bs. batch_spec A (br_config r) es"
proof -
  have flush: "bs = rev (map into_vec (br_batches r))" "r' = r\<lparr>br_batches := []\<rparr>"
    using assms(2) by (simp_all add: batcher_flush_def rev_map)
  show "pending r' = {#}" by (simp add: flush pending_def)
  show "delivered bs = pending r" by (simp add: flush delivered_def pending_def mset_concat_rev)
  show "\<forall>es \<in> set bs. batch_spec A (br_config r) es" using assms(1) batch_ok_spec by (auto simp: flush batcher_ok_def)
qed

text \<open>
  C30. The batcher refines the bag of events: over every sequence of events and elapsed timers, no event is lost but
  the ones that are out of time or repeat a waiting event, none is delivered twice, and each is delivered within its
  time limits.  A batch never holds two events of the same key, nor events further apart than the batching window, and
  the final flush delivers all that is left.  This holds for events of the same key that are not one nanosecond apart.
\<close>

theorem batcher_refines_bag:
  fixes A :: "('k, 'b) batchable" and event_jitter delivery_jitter message_leap_limit :: "32 word"
  defines "config \<equiv> config_build event_jitter delivery_jitter message_leap_limit"
  assumes "spaced A E" "list_all (op_within E) ops"
    and "fold (batcher_step A) ops ([], batcher_new config) = (out, r)" "batcher_flush r = (rest, r')"
  shows "steps (bag_step A config) ({#}, {#}) ops (pending r, delivered out)
    \<and> (\<forall>es \<in> set (out @ rest). batch_spec A config es)
    \<and> pending r' = {#} \<and> delivered rest = pending r"
proof -
  have "batching A config E ([], batcher_new config)" by (rule batching_new [OF assms(2)]) (simp add: config_def)
  from batcher.fold_simulates [OF this assms(3)] assms(4)
  have inv: "batching A config E (out, r)" and run: "steps (bag_step A config) ({#}, {#}) ops (pending r, delivered out)"
    by (simp_all add: bags_def batcher_new_def pending_def)
  have "batcher_ok A r" "br_config r = config" using inv by (simp_all add: batching_def)
  with run inv batcher_flush_spec [OF _ assms(5), of A] show ?thesis by (auto simp: batching_def)
qed

definition example_batchable :: "(string, string \<times> nanos) batchable" where
  "example_batchable = \<lparr>ba_key = fst, ba_event_time = snd\<rparr>"

text \<open>The second event of a key splits the batch of the first one.\<close>

definition example_ops :: "(string \<times> nanos) batcher_op list" where
  "example_ops = [EventAt 1 (''a'', 0), EventAt 11 (''a'', 10), EventAt 12 (''b'', 2), TimeAt 20000005]"

theorem batcher_refines_bag_witness:
  "\<exists>out r rest r'. fold (batcher_step example_batchable) example_ops ([], batcher_new (config_build 50 20 0)) = (out, r)
    \<and> batcher_flush r = (rest, r') \<and> out = [[(''a'', 0), (''b'', 2)]] \<and> rest = [[(''a'', 10)]]
    \<and> steps (bag_step example_batchable (config_build 50 20 0)) ({#}, {#}) example_ops (pending r, delivered out)
    \<and> delivered rest = pending r"
proof -
  obtain out r where run: "fold (batcher_step example_batchable) example_ops ([], batcher_new (config_build 50 20 0)) = (out, r)"
    by (rule prod.exhaust)
  obtain rest r' where flush: "batcher_flush r = (rest, r')" by (rule prod.exhaust)
  have "fst (fold (batcher_step example_batchable) example_ops ([], batcher_new (config_build 50 20 0)))
      = [[(''a'', 0), (''b'', 2)]]"
    "fst (batcher_flush (snd (fold (batcher_step example_batchable) example_ops ([], batcher_new (config_build 50 20 0)))))
      = [[(''a'', 10)]]" by code_simp+
  then have results: "out = [[(''a'', 0), (''b'', 2)]]" "rest = [[(''a'', 10)]]" using run flush by simp_all
  have "spaced example_batchable {(''a'', 0), (''a'', 10), (''b'', 2)}" by (simp add: spaced_def example_batchable_def)
  moreover have "list_all (op_within {(''a'', 0), (''a'', 10), (''b'', 2)}) example_ops" by (simp add: example_ops_def)
  ultimately show ?thesis using batcher_refines_bag [OF _ _ run flush] run flush results by blast
qed

text \<open>
  Without the spacing an event is lost: the midpoint of two times that are one nanosecond apart is the earlier
  one, if that event comes second, and both events go to the same side of the split.
\<close>

lemma split_drops_event:
  "fst (batcher_flush (snd (fold (batcher_step example_batchable)
     [EventAt 11 (''b'', 5), EventAt 11 (''a'', 11), EventAt 11 (''a'', 10)] ([], batcher_new (config_build 50 20 0)))))
   = [[(''a'', 10)], [(''b'', 5)]]"
  by code_simp

section \<open>The driver delivers in time\<close>

lemma output_for_batch_end_timers:
  assumes "output_for_batch_end now stop r = (out, r')" "b \<in> set (br_batches r')"
  shows "b \<in> set (br_batches r) \<and> (batch_end b = stop \<longrightarrow> OutTimer (stop + bc_delivery_jitter (br_config r)) \<in> set out)"
  using assms by (auto simp: output_for_batch_end_def batcher_time_def is_open_def Let_def split: if_splits)

lemma batcher_event_timers:
  assumes "batcher_event A now event r = (out, r')" "b \<in> set (br_batches r')"
  shows "batch_end b \<in> batch_end ` set (br_batches r)
    \<or> OutTimer (batch_end b + bc_delivery_jitter (br_config r)) \<in> set out"
proof -
  have added: "batch_end target' = batch_end target" if "batch_add A event target = (res, target')" "\<forall>b. res \<noteq> Split b" for target target' res
    using that by (auto simp: batch_add_def Let_def split: option.splits if_splits prod.splits)
  have split: "batch_end new = batch_end target" if "batch_add A event target = (Split new, target')" for target target' new
    using that by (auto simp: batch_add_def batch_split_def Let_def split: option.splits if_splits prod.splits)
  show ?thesis
  proof (cases "find_target_batch (ba_event_time A event) (br_batches r)")
    case None
    with assms output_for_batch_end_timers [of now "batch_end (make_new_batch A event r)" "r\<lparr>br_batches := br_batches r @ [make_new_batch A event r]\<rparr>"]
    show ?thesis by (fastforce simp: batcher_event_def Let_def split: if_splits)
  next
    case (Some x)
    obtain before target after where x: "x = (before, target, after)" by (rule prod_cases3)
    obtain res target' where res: "batch_add A event target = (res, target')" by (rule prod.exhaust)
    have r: "br_batches r = before @ target # after" using find_target_Some [OF Some [unfolded x]] by simp
    show ?thesis
      using assms Some x r res added [OF res] split [of target _ target']
        output_for_batch_end_timers [of now "batch_end target'" "r\<lparr>br_batches := (before @ target' # after) @ [new]\<rparr>" for new]
      by (cases res) (fastforce simp: batcher_event_def Let_def split: if_splits)+
  qed
qed

fun sent_batches :: "'b driver_output list \<Rightarrow> 'b list list" where
  "sent_batches [] = []"
| "sent_batches (BatchOf es # os) = es # sent_batches os"
| "sent_batches (Flushed # os) = sent_batches os"

lemma sent_batches_append [simp]: "sent_batches (os @ os') = sent_batches os @ sent_batches os'"
  by (induction os rule: sent_batches.induct) simp_all

lemma sent_batches_map [simp]: "sent_batches (map BatchOf bs) = bs"
  by (induction bs) simp_all

definition driver_ok :: "('k, 'b) batchable \<Rightarrow> batch_config \<Rightarrow> 'b set \<Rightarrow> ('k, 'b) batch_driver \<Rightarrow> bool" where
  "driver_ok A config E d \<longleftrightarrow> batching A config E (sent_batches (bd_sent d), bd_batcher d) \<and> finite (bd_timers d)
     \<and> (\<forall>b \<in> set (br_batches (bd_batcher d)). batch_end b + bc_delivery_jitter config \<in> bd_timers d)"

lemma fold_driver_action:
  "bd_batcher (fold driver_action os d) = bd_batcher d"
  "bd_running (fold driver_action os d) = bd_running d"
  "sent_batches (bd_sent (fold driver_action os d)) = sent_batches (bd_sent d) @ batches_of os"
  "bd_timers (fold driver_action os d) = bd_timers d \<union> {t. OutTimer t \<in> set os}"
  by (induction os arbitrary: d rule: batches_of.induct) auto

lemma driver_event_ok:
  assumes "driver_ok A config E d" "e \<in> E"
  shows "driver_ok A config E (driver_event A now e d)"
proof -
  obtain os r where event: "batcher_event A now e (bd_batcher d) = (os, r)" by (rule prod.exhaust)
  have d: "batching A config E (sent_batches (bd_sent d), bd_batcher d)" "finite (bd_timers d)"
    using assms(1) by (simp_all add: driver_ok_def)
  have "{t. OutTimer t \<in> set os} \<subseteq> (\<lambda>x. case x of OutTimer t \<Rightarrow> t | _ \<Rightarrow> 0) ` set os" by force
  then have "finite {t. OutTimer t \<in> set os}" by (rule finite_subset) simp
  moreover have "batching A config E (sent_batches (bd_sent d) @ batches_of os, r)"
    using event_simulates [OF d(1) assms(2) event] by blast
  moreover have "batch_end b + bc_delivery_jitter config \<in> bd_timers d \<union> {t. OutTimer t \<in> set os}"
    if "b \<in> set (br_batches r)" for b
    using batcher_event_timers [OF event that] assms(1) by (auto simp: driver_ok_def batching_def)
  ultimately show ?thesis
    using d(2) by (simp add: driver_ok_def driver_event_def event Let_def fold_driver_action)
qed

lemma driver_time_ok:
  assumes "driver_ok A config E d" "timer \<le> now"
  shows "driver_ok A config E (driver_time now (d\<lparr>bd_timers := bd_timers d - {timer}\<rparr>))"
proof -
  obtain bs r where time: "batcher_time now (bd_batcher d) = (bs, r)" by (rule prod.exhaust)
  have d: "batching A config E (sent_batches (bd_sent d), bd_batcher d)" "finite (bd_timers d)"
    using assms(1) by (simp_all add: driver_ok_def)
  have "batcher_ok A (bd_batcher d)" "br_config (bd_batcher d) = config" using d(1) by (simp_all add: batching_def)
  then have "br_batches r = filter (is_open config now) (br_batches (bd_batcher d))"
    using batcher_time_spec(7) [OF _ time] by simp
  then have "batch_end b + bc_delivery_jitter config \<in> bd_timers d - {timer}" if "b \<in> set (br_batches r)" for b
    using that assms by (auto simp: driver_ok_def is_open_def)
  with time_simulates [OF d(1) time] d(2) show ?thesis
    by (simp add: driver_ok_def driver_time_def time Let_def)
qed

lemma driver_flush_ok:
  assumes "driver_ok A config E d"
  shows "driver_ok A config E (driver_flush d)"
proof -
  obtain bs r where flush: "batcher_flush (bd_batcher d) = (bs, r)" by (rule prod.exhaust)
  then have "br_batches r = []" "br_config r = br_config (bd_batcher d)" by (auto simp: batcher_flush_def)
  moreover have "\<forall>es \<in> set bs. batch_spec A config es"
    using batcher_flush_spec(3) [OF _ flush, of A] assms by (simp add: driver_ok_def batching_def)
  ultimately show ?thesis
    using assms by (auto simp: driver_ok_def batching_def driver_flush_def flush batcher_ok_def pending_def)
qed

text \<open>
  The two readings of the clock in a turn of the driver are supposed to be ordered.  The code reads the time of day
  (\<^verbatim>\<open>OffsetDateTime::now_utc\<close>), so this excludes a clock that is set back between the two; between turns it may be.
\<close>

fun turn_ok :: "'b set \<Rightarrow> nanos \<times> nanos \<times> 'b received \<Rightarrow> bool" where
  "turn_ok E (now, later, Received (DriverEvent e)) \<longleftrightarrow> now \<le> later \<and> e \<in> E"
| "turn_ok E (now, later, _) \<longleftrightarrow> now \<le> later"

fun driver_step ::
  "('k, 'b) batchable \<Rightarrow> ('k, 'b) batch_driver \<Rightarrow> nanos \<times> nanos \<times> 'b received \<Rightarrow> ('k, 'b) batch_driver panics" where
  "driver_step A d (now, later, message) = Some (driver_turn A now later message d)"

lemma turn_ok_later: "turn_ok E (now, later, message) \<Longrightarrow> now \<le> later"
  by (cases message rule: received.exhaust) (auto, metis driver_input.exhaust turn_ok.simps(1,4))

lemma past_timer:
  assumes "time_to_next_timer now d = Past timer" "finite (bd_timers d)"
  shows "timer \<in> bd_timers d" "timer < now"
proof -
  have "bd_timers d \<noteq> {}" "timer = Min (bd_timers d)" "timer - now < 0"
    using assms(1) by (auto simp: time_to_next_timer_def Let_def split: if_splits)
  then show "timer \<in> bd_timers d" "timer < now" using Min_in [OF assms(2)] by auto
qed

lemma driver_turn_ok:
  assumes "driver_ok A config E d" "turn_ok E (now, later, message)"
  shows "driver_ok A config E (driver_turn A now later message d)"
proof (cases "bd_running d \<and> (\<exists>timer. time_to_next_timer now d = Past timer)")
  case True
  then obtain timer where timer: "time_to_next_timer now d = Past timer" by blast
  have "timer \<le> later"
    using past_timer [OF timer] assms(1) turn_ok_later [OF assms(2)] by (auto simp: driver_ok_def)
  with True timer driver_time_ok [OF assms(1)] show ?thesis by (simp add: driver_turn_def)
next
  case False
  have "driver_ok A config E (case message of
             Elapsed \<Rightarrow> d
           | Closed \<Rightarrow> driver_flush d
           | Received DriverFlush \<Rightarrow> driver_flush d
           | Received (DriverEvent event) \<Rightarrow> driver_event A later event d)"
    using assms driver_flush_ok [OF assms(1)] driver_event_ok [OF assms(1)]
    by (auto split: received.split driver_input.split)
  with False assms(1) show ?thesis by (auto simp: driver_turn_def split: time_to.split)
qed

interpretation driver: step_invariant "driver_step A" "turn_ok E" "driver_ok A config E"
  for A :: "('k, 'b) batchable" and config E
proof unfold_locales
  fix d d' :: "('k, 'b) batch_driver" and e :: "nanos \<times> nanos \<times> 'b received"
  assume "driver_ok A config E d" "turn_ok E e" "driver_step A d e = Some d'"
  then show "driver_ok A config E d'" using driver_turn_ok [of A config E d] by (cases e rule: prod_cases3) auto
qed

text \<open>
  C31. The driver sets a timer for every batch.  Whenever it waits for a message no event is pending that is
  older than the batching window and the delivery delay together, and every batch it has sent is well-formed.  It
  handles at most as many elapsed timers as are set before it waits again.  This holds for events of the same key that are not
  one nanosecond apart, and when the clock is not set back within a turn.
\<close>

theorem driver_delivers_in_time:
  fixes A :: "('k, 'b) batchable" and event_jitter delivery_jitter message_leap_limit :: "32 word"
  defines "config \<equiv> config_build event_jitter delivery_jitter message_leap_limit"
  assumes "spaced A E" "list_all (turn_ok E) turns"
    and "run (driver_step A) (driver_new (batcher_new config)) turns = Some d"
  shows "(\<forall>es \<in> set (sent_batches (bd_sent d)). batch_spec A config es)
    \<and> (case time_to_next_timer now d of
         Past timer \<Rightarrow> bd_running d \<longrightarrow> card (bd_timers (driver_turn A now later message d)) < card (bd_timers d)
       | _ \<Rightarrow> \<forall>e \<in># pending (bd_batcher d). now \<le> ba_event_time A e + bc_event_jitter config + bc_delivery_jitter config)"
proof -
  have "driver_ok A config E (driver_new (batcher_new config))"
    using batching_new [OF assms(2), of config] by (simp add: driver_ok_def driver_new_def config_def batcher_new_def)
  from driver.run_inv [OF this assms(3,4)] have d: "driver_ok A config E d" .
  then have fin: "finite (bd_timers d)" and inv: "batching A config E (sent_batches (bd_sent d), bd_batcher d)"
    by (simp_all add: driver_ok_def)
  show ?thesis
  proof (cases "time_to_next_timer now d")
    case (Past timer)
    have "card (bd_timers d - {timer}) < card (bd_timers d)"
      using past_timer [OF Past fin] fin by (meson card_Diff1_less)
    with Past inv show ?thesis by (auto simp: driver_turn_def driver_time_def batching_def Let_def split: prod.split)
  next
    case Unbounded
    then have "br_batches (bd_batcher d) = []"
      using d by (auto simp: time_to_next_timer_def driver_ok_def Let_def split: if_splits)
    with Unbounded inv show ?thesis by (simp add: batching_def pending_def)
  next
    case (Future wait)
    then have timers: "now \<le> t" if "t \<in> bd_timers d" for t
      using that Min_le [OF fin that] by (auto simp: time_to_next_timer_def Let_def split: if_splits)
    have "now \<le> ba_event_time A e + bc_event_jitter config + bc_delivery_jitter config" if waits: "e \<in># pending (bd_batcher d)" for e
    proof -
      obtain b where b: "b \<in> set (br_batches (bd_batcher d))" "e \<in> set (into_vec b)" using waits by (auto simp: pending_def)
      have "batch_ok A config b" using inv b(1) by (auto simp: batching_def batcher_ok_def)
      then have "batch_end b \<le> ba_event_time A e + bc_event_jitter config" using b(2) by (auto simp: batch_ok_def in_window_def)
      moreover have "now \<le> batch_end b + bc_delivery_jitter config" using timers d b(1) by (simp add: driver_ok_def)
      ultimately show ?thesis by simp
    qed
    with Future inv show ?thesis by (simp add: batching_def)
  qed
qed

definition example_turns :: "(nanos \<times> nanos \<times> (string \<times> nanos) received) list" where
  "example_turns = [(0, 1, Received (DriverEvent (''a'', 0))), (80000000, 80000001, Elapsed)]"

theorem driver_delivers_in_time_witness:
  "\<exists>d. run (driver_step example_batchable) (driver_new (batcher_new (config_build 50 20 0))) example_turns = Some d
    \<and> sent_batches (bd_sent d) = [[(''a'', 0)]] \<and> batch_spec example_batchable (config_build 50 20 0) [(''a'', 0)]
    \<and> pending (bd_batcher d) = {#}"
proof -
  let ?turns = example_turns
  obtain d where d: "run (driver_step example_batchable) (driver_new (batcher_new (config_build 50 20 0))) ?turns = Some d"
    by (simp add: example_turns_def)
  have eval: "map_option (\<lambda>d. (sent_batches (bd_sent d), br_batches (bd_batcher d)))
      (run (driver_step example_batchable) (driver_new (batcher_new (config_build 50 20 0))) ?turns)
    = Some ([[(''a'', 0)]], [])" by code_simp
  have "spaced example_batchable {(''a'', 0)}" by (simp add: spaced_def)
  moreover have "list_all (turn_ok {(''a'', 0)}) ?turns" by (simp add: example_turns_def)
  ultimately have "\<forall>es \<in> set (sent_batches (bd_sent d)). batch_spec example_batchable (config_build 50 20 0) es"
    using driver_delivers_in_time [OF _ _ d] by blast
  with d eval show ?thesis by (auto simp: pending_def)
qed

end
