(* ===== verification/Timers.thy ===== *)
theory Timers
  imports Prelude "HOL-Library.Multiset" "HOL-Library.Monad_Syntax"
begin

text \<open>
  The timer actor (\<^verbatim>\<open>extensions/tedge_timer_ext/src/actor.rs\<close>).  Times are integers of nanoseconds, the binary heap
  of the standard library is a list from which the greatest entry is taken, and the inputs of the loop are a sequence
  of requests, elapsed timers and ends of the input.  Whether the channel of a client is still open is a
  parameter.
\<close>

type_synonym instant = int

record ('c, 'e) set_timeout =
  st_duration :: int
  st_event :: 'e
  st_reply_to :: 'c

record ('c, 'e) timer_entry =
  te_deadline :: instant
  te_timer_id :: nat
  te_client_id :: 'c
  te_event_id :: 'e

datatype timer_mode = Running | Draining | Finished | ClientGone

record ('c, 'e) timer_actor =
  ta_current_timer :: "('c, 'e) timer_entry option"
  ta_next_timers :: "('c, 'e) timer_entry list"
  ta_next_timer_id :: nat
  ta_fired :: "(instant \<times> ('c, 'e) timer_entry) list"
  ta_mode :: timer_mode

definition timer_actor_new :: "('c, 'e) timer_actor" where
  "timer_actor_new = \<lparr>ta_current_timer = None, ta_next_timers = [], ta_next_timer_id = 0, ta_fired = [],
     ta_mode = Running\<rparr>"

section \<open>Priorities\<close>

text \<open>The order of the entries, \<^verbatim>\<open>Ord for TimerEntry\<close>: the greatest entry has the priority.\<close>

definition entry_less :: "('c, 'e) timer_entry \<Rightarrow> ('c, 'e) timer_entry \<Rightarrow> bool" where
  "entry_less self other \<longleftrightarrow>
     (if te_deadline other = te_deadline self then te_timer_id self < te_timer_id other
      else te_deadline other < te_deadline self)"

fun greatest :: "('c, 'e) timer_entry \<Rightarrow> ('c, 'e) timer_entry list \<Rightarrow> ('c, 'e) timer_entry" where
  "greatest t [] = t"
| "greatest t (u # us) = greatest (if entry_less t u then u else t) us"

definition heap_push :: "('c, 'e) timer_entry \<Rightarrow> ('c, 'e) timer_entry list \<Rightarrow> ('c, 'e) timer_entry list" where
  "heap_push t h = t # h"

fun heap_pop :: "('c, 'e) timer_entry list \<Rightarrow> (('c, 'e) timer_entry \<times> ('c, 'e) timer_entry list) option" where
  "heap_pop [] = None"
| "heap_pop (t # h) = Some (greatest t h, remove1 (greatest t h) (t # h))"

section \<open>Operations\<close>

definition new_entry ::
  "instant \<Rightarrow> ('c, 'e) set_timeout \<Rightarrow> ('c, 'e) timer_actor \<Rightarrow> ('c, 'e) timer_entry \<times> ('c, 'e) timer_actor" where
  "new_entry now request a =
     (let a = a\<lparr>ta_next_timer_id := ta_next_timer_id a + 1\<rparr> in
      (\<lparr>te_deadline = now + st_duration request, te_timer_id = ta_next_timer_id a,
        te_client_id = st_reply_to request, te_event_id = st_event request\<rparr>, a))"

definition current_timer_is_less_urgent_than :: "('c, 'e) timer_entry \<Rightarrow> ('c, 'e) timer_actor \<Rightarrow> bool" where
  "current_timer_is_less_urgent_than new_timer a =
     (case ta_current_timer a of None \<Rightarrow> True | Some current \<Rightarrow> entry_less current new_timer)"

definition start_timer :: "('c, 'e) timer_entry \<Rightarrow> ('c, 'e) timer_actor \<Rightarrow> ('c, 'e) timer_actor panics" where
  "start_timer timer a =
     (if ta_current_timer a = None then Some (a\<lparr>ta_current_timer := Some timer\<rparr>) else None)"

definition start_next_timer :: "('c, 'e) timer_actor \<Rightarrow> ('c, 'e) timer_actor panics" where
  "start_next_timer a =
     (case heap_pop (ta_next_timers a) of
        None \<Rightarrow> Some a
      | Some (timer, next_timers) \<Rightarrow> start_timer timer (a\<lparr>ta_next_timers := next_timers\<rparr>))"

definition timer_push :: "instant \<Rightarrow> ('c, 'e) set_timeout \<Rightarrow> ('c, 'e) timer_actor \<Rightarrow> ('c, 'e) timer_actor panics" where
  "timer_push now request a =
     (let (new_timer, a) = new_entry now request a in
      if current_timer_is_less_urgent_than new_timer a then do {
        let maybe_former_timer = ta_current_timer a;
        a \<leftarrow> start_timer new_timer (a\<lparr>ta_current_timer := None\<rparr>);
        Some (case maybe_former_timer of
                Some former_timer \<Rightarrow> a\<lparr>ta_next_timers := heap_push former_timer (ta_next_timers a)\<rparr>
              | None \<Rightarrow> a)
      } else Some (a\<lparr>ta_next_timers := heap_push new_timer (ta_next_timers a)\<rparr>))"

definition trigger ::
  "('c \<Rightarrow> bool) \<Rightarrow> instant \<Rightarrow> ('c, 'e) timer_entry \<Rightarrow> ('c, 'e) timer_actor \<Rightarrow> ('c, 'e) timer_actor panics" where
  "trigger client_open now timer a =
     (if client_open (te_client_id timer) then
        start_next_timer (a\<lparr>ta_fired := ta_fired a @ [(now, timer)]\<rparr>)
      else Some (a\<lparr>ta_mode := ClientGone\<rparr>))"

text \<open>
  The inputs of the loop.  The current timer is taken from the state before the actor waits, and restarted when a
  message comes first.  A timer elapses at its deadline or later.
\<close>

datatype ('c, 'e) timer_input = Request instant "('c, 'e) set_timeout" | TimeElapsed instant | InputClosed | Shutdown

fun timer_step :: "('c \<Rightarrow> bool) \<Rightarrow> ('c, 'e) timer_actor \<Rightarrow> ('c, 'e) timer_input \<Rightarrow> ('c, 'e) timer_actor panics" where
  "timer_step client_open a (Request now request) =
     (if ta_mode a = Running then
        case ta_current_timer a of
          Some current_timer \<Rightarrow> do {
            a \<leftarrow> start_timer current_timer (a\<lparr>ta_current_timer := None\<rparr>);
            timer_push now request a }
        | None \<Rightarrow> timer_push now request a
      else Some a)"
| "timer_step client_open a (TimeElapsed now) =
     (if ta_mode a \<in> {Running, Draining} then
        case ta_current_timer a of
          Some current_timer \<Rightarrow>
            if te_deadline current_timer \<le> now
            then trigger client_open now current_timer (a\<lparr>ta_current_timer := None\<rparr>)
            else Some a
        | None \<Rightarrow> Some (if ta_mode a = Draining then a\<lparr>ta_mode := Finished\<rparr> else a)
      else Some a)"
| "timer_step client_open a InputClosed =
     (if ta_mode a = Running then
        case ta_current_timer a of
          Some current_timer \<Rightarrow>
            map_option (\<lambda>a. a\<lparr>ta_mode := Draining\<rparr>) (start_timer current_timer (a\<lparr>ta_current_timer := None\<rparr>))
        | None \<Rightarrow> Some (a\<lparr>ta_mode := Finished\<rparr>)
      else Some a)"
| "timer_step client_open a Shutdown = Some (if ta_mode a = Running then a\<lparr>ta_mode := Finished\<rparr> else a)"

section \<open>The earliest deadline comes first\<close>

lemma entry_less_trans: "entry_less t u \<Longrightarrow> entry_less u v \<Longrightarrow> entry_less t v"
  by (auto simp: entry_less_def split: if_splits)

lemma entry_less_weak: "entry_less t u \<Longrightarrow> \<not> entry_less v u \<Longrightarrow> entry_less t v"
  by (auto simp: entry_less_def split: if_splits)

lemma entry_less_irrefl [simp]: "\<not> entry_less t t"
  by (simp add: entry_less_def)

lemma entry_less_asym: "entry_less t u \<Longrightarrow> \<not> entry_less u t"
  by (auto simp: entry_less_def split: if_splits)

lemma greatest_spec: "greatest t us \<in> set (t # us) \<and> (\<forall>u \<in> set (t # us). \<not> entry_less (greatest t us) u)"
proof (induction us arbitrary: t)
  case (Cons u us)
  let ?t = "if entry_less t u then u else t"
  have "greatest ?t us \<in> set (?t # us)" and max: "\<forall>v \<in> set (?t # us). \<not> entry_less (greatest ?t us) v"
    using Cons.IH [of ?t] by simp_all
  moreover have "\<not> entry_less (greatest ?t us) t" "\<not> entry_less (greatest ?t us) u"
    using max entry_less_trans [of _ t u] entry_less_weak [of "greatest ?t us" u t] by (auto split: if_splits)
  ultimately show ?case by (auto split: if_splits)
qed simp

lemma heap_pop_spec:
  assumes "heap_pop h = Some (t, h')"
  shows "mset h = add_mset t (mset h')" "\<forall>u \<in> set h'. \<not> entry_less t u"
proof -
  obtain x xs where h: "h = x # xs" "t = greatest x xs" "h' = remove1 t h"
    using assms by (cases h) (auto simp: Let_def)
  have "t \<in># mset h" using greatest_spec [of x xs] h by simp
  then show "mset h = add_mset t (mset h')" by (simp add: h(3) del: mset.simps)
  show "\<forall>u \<in> set h'. \<not> entry_less t u" using h greatest_spec [of x xs] by (meson notin_set_remove1)
qed

definition pending_timers :: "('c, 'e) timer_actor \<Rightarrow> ('c, 'e) timer_entry multiset" where
  "pending_timers a = (case ta_current_timer a of Some t \<Rightarrow> add_mset t (mset (ta_next_timers a)) | None \<Rightarrow> mset (ta_next_timers a))"

definition timers_ok :: "('c, 'e) timer_actor \<Rightarrow> bool" where
  "timers_ok a \<longleftrightarrow>
     (case ta_current_timer a of
        Some t \<Rightarrow> \<forall>u \<in> set (ta_next_timers a). \<not> entry_less t u
      | None \<Rightarrow> ta_mode a = ClientGone \<or> ta_next_timers a = [])
     \<and> (\<forall>(now, t) \<in> set (ta_fired a). te_deadline t \<le> now)"

lemma start_next_timer_spec:
  assumes "ta_current_timer a = None" "\<forall>(now, t) \<in> set (ta_fired a). te_deadline t \<le> now"
  shows "\<exists>a'. start_next_timer a = Some a' \<and> timers_ok a' \<and> pending_timers a' = pending_timers a
    \<and> ta_fired a' = ta_fired a \<and> ta_next_timer_id a' = ta_next_timer_id a \<and> ta_mode a' = ta_mode a"
proof (cases "heap_pop (ta_next_timers a)")
  case None
  then have "ta_next_timers a = []" by (cases "ta_next_timers a") (simp_all add: Let_def)
  with None assms show ?thesis by (simp add: start_next_timer_def timers_ok_def)
next
  case (Some th)
  obtain t h where th: "heap_pop (ta_next_timers a) = Some (t, h)" using Some by (cases th) simp
  from heap_pop_spec [OF th] th assms show ?thesis
    by (simp add: start_next_timer_def start_timer_def timers_ok_def pending_timers_def)
qed

lemma timer_push_spec:
  assumes "timers_ok a" "ta_mode a = Running"
  shows "\<exists>a'. timer_push now request a = Some a' \<and> timers_ok a'
    \<and> pending_timers a' = add_mset (fst (new_entry now request a)) (pending_timers a)
    \<and> ta_fired a' = ta_fired a \<and> ta_next_timer_id a' = ta_next_timer_id a + 1 \<and> ta_mode a' = Running"
proof -
  obtain t a1 where t: "new_entry now request a = (t, a1)" by (rule prod.exhaust)
  then have a1: "a1 = a\<lparr>ta_next_timer_id := ta_next_timer_id a + 1\<rparr>" by (auto simp: new_entry_def Let_def)
  show ?thesis
  proof (cases "ta_current_timer a")
    case None
    with assms t a1 show ?thesis
      by (simp add: timer_push_def current_timer_is_less_urgent_than_def start_timer_def timers_ok_def pending_timers_def)
  next
    case (Some c)
    have c: "\<forall>u \<in> set (ta_next_timers a). \<not> entry_less c u" using assms(1) Some by (simp add: timers_ok_def)
    then have "entry_less c t \<Longrightarrow> \<forall>u \<in> set (ta_next_timers a). \<not> entry_less t u"
      using entry_less_trans by blast
    with c Some assms t a1 entry_less_asym [of c t] show ?thesis
      by (auto simp: timer_push_def current_timer_is_less_urgent_than_def start_timer_def timers_ok_def
          pending_timers_def heap_push_def)
  qed
qed

lemma restart_same: "ta_current_timer a = Some t \<Longrightarrow> a\<lparr>ta_current_timer := Some t\<rparr> = a"
  by (cases a) simp

lemma timer_step_ok:
  assumes "timers_ok a"
  shows "\<exists>a'. timer_step client_open a i = Some a' \<and> timers_ok a'"
proof (cases i)
  case (Request now request)
  show ?thesis
  proof (cases "ta_mode a = Running")
    case True
    with timer_push_spec [OF assms True, of now request] Request show ?thesis
      by (auto simp: start_timer_def restart_same split: option.split)
  qed (use assms Request in simp)
next
  case (TimeElapsed now)
  show ?thesis
  proof (cases "ta_current_timer a")
    case None
    with assms TimeElapsed show ?thesis by (auto simp: timers_ok_def)
  next
    case (Some t)
    let ?a = "a\<lparr>ta_current_timer := None, ta_fired := ta_fired a @ [(now, t)]\<rparr>"
    have "\<exists>a'. start_next_timer ?a = Some a' \<and> timers_ok a'" if "te_deadline t \<le> now"
      using start_next_timer_spec [of ?a] assms that by (auto simp: timers_ok_def)
    with assms TimeElapsed Some show ?thesis by (auto simp: trigger_def timers_ok_def)
  qed
next
  case InputClosed
  with assms show ?thesis by (auto simp: start_timer_def timers_ok_def split: option.splits)
next
  case Shutdown
  with assms show ?thesis by (auto simp: timers_ok_def split: option.splits)
qed

interpretation timers: total_step "timer_step client_open" "\<lambda>_. True" timers_ok for client_open
  by unfold_locales (metis timer_step_ok option.sel option.distinct(1))+

text \<open>The entries made for the requests that come before the end of the input, numbered from one.\<close>

fun requested :: "nat \<Rightarrow> ('c, 'e) timer_input list \<Rightarrow> ('c, 'e) timer_entry list" where
  "requested n [] = []"
| "requested n (Request now request # inputs) =
     fst (new_entry now request (timer_actor_new\<lparr>ta_next_timer_id := n\<rparr>)) # requested (Suc n) inputs"
| "requested n (TimeElapsed now # inputs) = requested n inputs"
| "requested n (InputClosed # inputs) = []"
| "requested n (Shutdown # inputs) = []"

definition known_timers :: "('c, 'e) timer_actor \<Rightarrow> ('c, 'e) timer_entry multiset" where
  "known_timers a = mset (map snd (ta_fired a)) + pending_timers a"

lemma timer_step_known:
  assumes "timers_ok a" "timer_step (\<lambda>_. True) a i = Some a'"
  shows "known_timers a' = known_timers a +
      (case i of Request now request \<Rightarrow> if ta_mode a = Running then {#fst (new_entry now request a)#} else {#} | _ \<Rightarrow> {#})
    \<and> (ta_mode a = Running \<longrightarrow> ta_mode a' = Running \<longrightarrow> ta_next_timer_id a' =
         ta_next_timer_id a + (case i of Request now request \<Rightarrow> 1 | _ \<Rightarrow> 0))
    \<and> (ta_mode a' = Running \<longleftrightarrow> ta_mode a = Running \<and> i \<noteq> InputClosed \<and> i \<noteq> Shutdown)"
proof (cases i)
  case (Request now request)
  show ?thesis
  proof (cases "ta_mode a = Running")
    case True
    have "timer_push now request a = Some a'"
      using assms(2) Request True by (auto simp: start_timer_def restart_same split: option.splits)
    with timer_push_spec [OF assms(1) True, of now request] Request True show ?thesis
      by (auto simp: known_timers_def)
  qed (use assms Request in auto)
next
  case (TimeElapsed now)
  show ?thesis
  proof (cases "ta_current_timer a")
    case None
    with assms TimeElapsed show ?thesis by (auto simp: known_timers_def pending_timers_def split: if_splits)
  next
    case (Some t)
    let ?a = "a\<lparr>ta_current_timer := None, ta_fired := ta_fired a @ [(now, t)]\<rparr>"
    have "\<exists>a'. start_next_timer ?a = Some a' \<and> pending_timers a' = pending_timers ?a \<and> ta_fired a' = ta_fired ?a
        \<and> ta_next_timer_id a' = ta_next_timer_id a \<and> ta_mode a' = ta_mode a" if "te_deadline t \<le> now"
      using start_next_timer_spec [of ?a] assms(1) that by (auto simp: timers_ok_def)
    with assms(2) TimeElapsed Some show ?thesis
      by (auto simp: trigger_def known_timers_def pending_timers_def split: if_splits)
  qed
qed (use assms(2) in \<open>auto simp: start_timer_def known_timers_def pending_timers_def split: option.splits if_splits\<close>)

lemma new_entry_id: "fst (new_entry now request a) = fst (new_entry now request (timer_actor_new\<lparr>ta_next_timer_id := ta_next_timer_id a\<rparr>))"
  by (simp add: new_entry_def)

lemma run_known:
  "timers_ok a \<Longrightarrow> run (timer_step (\<lambda>_. True)) a inputs = Some a' \<Longrightarrow>
    known_timers a' = known_timers a + (if ta_mode a = Running then mset (requested (ta_next_timer_id a) inputs) else {#})"
proof (induction inputs arbitrary: a)
  case (Cons i inputs)
  obtain a1 where a1: "timer_step (\<lambda>_. True) a i = Some a1" "run (timer_step (\<lambda>_. True)) a1 inputs = Some a'"
    using Cons.prems(2) by (auto split: option.splits)
  have "timers_ok a1" using timer_step_ok [OF Cons.prems(1), of "\<lambda>_. True" i] a1(1) by simp
  note IH = Cons.IH [OF this a1(2)] and step = timer_step_known [OF Cons.prems(1) a1(1)]
  show ?case
    using IH step by (cases i) (auto simp: new_entry_id [of _ _ a] split: if_splits)
qed simp

lemma timer_step_fires:
  assumes "timers_ok a" "ta_mode a \<in> {Running, Draining}" "ta_current_timer a = Some t" "te_deadline t \<le> now"
  shows "\<exists>a'. timer_step (\<lambda>_. True) a (TimeElapsed now) = Some a' \<and> timers_ok a' \<and> ta_mode a' = ta_mode a
    \<and> pending_timers a' = mset (ta_next_timers a) \<and> ta_fired a' = ta_fired a @ [(now, t)]"
proof -
  let ?a = "a\<lparr>ta_current_timer := None, ta_fired := ta_fired a @ [(now, t)]\<rparr>"
  have "\<forall>(now, t) \<in> set (ta_fired ?a). te_deadline t \<le> now" using assms(1,4) by (auto simp: timers_ok_def)
  with start_next_timer_spec [of ?a] assms(2-4) show ?thesis by (auto simp: trigger_def pending_timers_def)
qed

lemma timer_mode_kept:
  assumes "timers_ok a" "timer_step (\<lambda>_. True) a i = Some a'" "ta_mode a \<noteq> ClientGone"
  shows "ta_mode a' \<noteq> ClientGone"
proof (cases i)
  case (Request now request)
  show ?thesis
  proof (cases "ta_mode a = Running")
    case True
    have "timer_push now request a = Some a'"
      using assms(2) Request True by (auto simp: start_timer_def restart_same split: option.splits)
    with timer_push_spec [OF assms(1) True, of now request] show ?thesis by simp
  qed (use assms Request in simp)
next
  case (TimeElapsed now)
  show ?thesis
  proof (cases "ta_mode a \<in> {Running, Draining} \<and> (\<exists>t. ta_current_timer a = Some t \<and> te_deadline t \<le> now)")
    case True
    then obtain t where "ta_mode a \<in> {Running, Draining}" "ta_current_timer a = Some t" "te_deadline t \<le> now" by blast
    from timer_step_fires [OF assms(1) this] assms(2,3) TimeElapsed show ?thesis by (elim exE conjE) simp
  next
    case False
    with assms TimeElapsed show ?thesis by (auto split: option.splits if_splits)
  qed
qed (use assms in \<open>auto simp: start_timer_def split: option.splits if_splits\<close>)

lemma run_client_there:
  "timers_ok a \<Longrightarrow> ta_mode a \<noteq> ClientGone \<Longrightarrow> run (timer_step (\<lambda>_. True)) a inputs = Some a' \<Longrightarrow> ta_mode a' \<noteq> ClientGone"
proof (induction inputs arbitrary: a)
  case (Cons i inputs)
  obtain a1 where a1: "timer_step (\<lambda>_. True) a i = Some a1" "run (timer_step (\<lambda>_. True)) a1 inputs = Some a'"
    using Cons.prems(3) by (auto split: option.splits)
  have "timers_ok a1" using timer_step_ok [OF Cons.prems(1), of "\<lambda>_. True" i] a1(1) by simp
  moreover have "ta_mode a1 \<noteq> ClientGone"
    using a1(1) Cons.prems(2) timer_mode_kept [OF Cons.prems(1) a1(1)] by blast
  ultimately show ?case using Cons.IH a1(2) by blast
qed simp

text \<open>Unless the actor is shut down, it serves its timers as long as there are any.\<close>

definition serving :: "('c, 'e) timer_actor \<Rightarrow> bool" where
  "serving a \<longleftrightarrow> ta_mode a \<in> {Running, Draining} \<or> ta_mode a = Finished \<and> pending_timers a = {#}"

lemma timer_step_serving:
  assumes "timers_ok a" "serving a" "i \<noteq> Shutdown" "timer_step (\<lambda>_. True) a i = Some a'"
  shows "serving a'"
proof (cases i)
  case (Request now request)
  show ?thesis
  proof (cases "ta_mode a = Running")
    case True
    have "timer_push now request a = Some a'"
      using assms(4) Request True by (auto simp: start_timer_def restart_same split: option.splits)
    with timer_push_spec [OF assms(1) True, of now request] show ?thesis by (simp add: serving_def)
  qed (use assms Request in simp)
next
  case (TimeElapsed now)
  show ?thesis
  proof (cases "ta_mode a \<in> {Running, Draining} \<and> (\<exists>t. ta_current_timer a = Some t \<and> te_deadline t \<le> now)")
    case True
    then obtain t where t: "ta_mode a \<in> {Running, Draining}" "ta_current_timer a = Some t" "te_deadline t \<le> now" by blast
    from timer_step_fires [OF assms(1) this] assms(4) TimeElapsed have "ta_mode a' = ta_mode a" by (elim exE conjE) simp
    with t(1) show ?thesis by (auto simp: serving_def)
  next
    case False
    with assms TimeElapsed show ?thesis
      by (auto simp: serving_def timers_ok_def pending_timers_def split: option.splits if_splits)
  qed
next
  case InputClosed
  with assms show ?thesis
    by (auto simp: serving_def timers_ok_def pending_timers_def start_timer_def split: option.splits if_splits)
qed (use assms(3) in simp)

lemma run_serving:
  "timers_ok a \<Longrightarrow> serving a \<Longrightarrow> Shutdown \<notin> set inputs \<Longrightarrow> run (timer_step (\<lambda>_. True)) a inputs = Some a' \<Longrightarrow> serving a'"
proof (induction inputs arbitrary: a)
  case (Cons i inputs)
  obtain a1 where a1: "timer_step (\<lambda>_. True) a i = Some a1" "run (timer_step (\<lambda>_. True)) a1 inputs = Some a'"
    using Cons.prems(4) by (auto split: option.splits)
  have "timers_ok a1" using timer_step_ok [OF Cons.prems(1), of "\<lambda>_. True" i] a1(1) by simp
  moreover have "serving a1" by (rule timer_step_serving [OF Cons.prems(1,2) _ a1(1)]) (use Cons.prems(3) in auto)
  ultimately show ?case using Cons.IH a1(2) Cons.prems(3) by simp
qed simp

lemma run_drains:
  "timers_ok a \<Longrightarrow> serving a \<Longrightarrow> \<forall>u \<in># pending_timers a. te_deadline u \<le> now \<Longrightarrow> n = size (pending_timers a)
    \<Longrightarrow> \<exists>a'. run (timer_step (\<lambda>_. True)) a (replicate n (TimeElapsed now)) = Some a' \<and> known_timers a' = known_timers a
      \<and> pending_timers a' = {#}"
proof (induction n arbitrary: a)
  case (Suc n)
  then have mode: "ta_mode a \<in> {Running, Draining}" by (auto simp: serving_def)
  have "ta_current_timer a \<noteq> None"
    using Suc.prems(1,4) mode by (auto simp: timers_ok_def pending_timers_def split: option.splits)
  then obtain t where t: "ta_current_timer a = Some t" by blast
  then have "te_deadline t \<le> now" using Suc.prems(3) by (simp add: pending_timers_def)
  from timer_step_fires [OF Suc.prems(1) mode t this] obtain a1 where
    a1: "timer_step (\<lambda>_. True) a (TimeElapsed now) = Some a1" "timers_ok a1" "ta_mode a1 = ta_mode a"
      "pending_timers a1 = mset (ta_next_timers a)" "ta_fired a1 = ta_fired a @ [(now, t)]"
    by (elim exE conjE) (rule that)
  have pending: "pending_timers a = add_mset t (pending_timers a1)" using t a1(4) by (simp add: pending_timers_def)
  have "\<exists>a'. run (timer_step (\<lambda>_. True)) a1 (replicate n (TimeElapsed now)) = Some a' \<and> known_timers a' = known_timers a1
      \<and> pending_timers a' = {#}"
    using Suc.prems(3,4) pending mode a1(3) by (intro Suc.IH [OF a1(2)]) (simp_all add: serving_def)
  moreover have "known_timers a1 = known_timers a" using a1(5) pending by (simp add: known_timers_def)
  ultimately show ?case using a1(1) by simp
qed simp

text \<open>
  C15. The timer actor never stops on its assertion.  While every client is there, each request is fired or
  pending, once, with the deadline it asked for, and none fires before its deadline; unless the actor is shut down, the pending
  timers have all fired once the clock is past their deadlines and as many expirations as timers are handled.  The timer that is awaited has
  the earliest deadline of all the pending ones, and among those with the same deadline it is the latest request
  (the comment of the order says the smaller id).
\<close>

theorem timers_fire_earliest_first:
  fixes inputs :: "('c, 'e) timer_input list"
  shows "\<exists>a. run (timer_step (\<lambda>_. True)) timer_actor_new inputs = Some a
    \<and> mset (map snd (ta_fired a)) + pending_timers a = mset (requested 0 inputs)
    \<and> (\<forall>(now, t) \<in> set (ta_fired a). te_deadline t \<le> now)
    \<and> (case ta_current_timer a of
         None \<Rightarrow> pending_timers a = {#}
       | Some t \<Rightarrow> \<forall>u \<in># pending_timers a. te_deadline t < te_deadline u
           \<or> te_deadline t = te_deadline u \<and> te_timer_id u \<le> te_timer_id t)
    \<and> (\<forall>now. Shutdown \<notin> set inputs \<longrightarrow> (\<forall>u \<in># pending_timers a. te_deadline u \<le> now) \<longrightarrow>
         (\<exists>a'. run (timer_step (\<lambda>_. True)) a (replicate (size (pending_timers a)) (TimeElapsed now)) = Some a'
            \<and> mset (map snd (ta_fired a')) = mset (requested 0 inputs)))"
proof -
  let ?new = "timer_actor_new :: ('c, 'e) timer_actor"
  have new: "timers_ok ?new" "known_timers ?new = {#}" "serving ?new"
    "ta_mode ?new = Running" "ta_next_timer_id ?new = 0"
    by (simp_all add: timer_actor_new_def timers_ok_def known_timers_def pending_timers_def serving_def)
  obtain a where a: "run (timer_step (\<lambda>_. True)) timer_actor_new inputs = Some a" "timers_ok a"
    using timers.run_total [OF new(1)] by (metis list_all_iff)
  have known: "known_timers a = mset (requested 0 inputs)" using run_known [OF new(1) a(1)] new by simp
  have gone: "ta_mode a \<noteq> ClientGone" by (rule run_client_there [OF new(1) _ a(1)]) (simp add: new)
  have "\<exists>a'. run (timer_step (\<lambda>_. True)) a (replicate (size (pending_timers a)) (TimeElapsed now)) = Some a'
      \<and> mset (map snd (ta_fired a')) = mset (requested 0 inputs)"
    if "Shutdown \<notin> set inputs" "\<forall>u \<in># pending_timers a. te_deadline u \<le> now" for now
    using run_drains [OF a(2) run_serving [OF new(1,3) that(1) a(1)] that(2) refl] known
    by (auto simp: known_timers_def)
  moreover have "case ta_current_timer a of None \<Rightarrow> pending_timers a = {#}
       | Some t \<Rightarrow> \<forall>u \<in># pending_timers a. te_deadline t < te_deadline u
           \<or> te_deadline t = te_deadline u \<and> te_timer_id u \<le> te_timer_id t"
    using a(2) gone
    by (auto simp: timers_ok_def pending_timers_def entry_less_def not_less split: option.splits if_splits)
  moreover have "\<forall>(now, t) \<in> set (ta_fired a). te_deadline t \<le> now" using a(2) by (simp add: timers_ok_def)
  ultimately show ?thesis using a(1) known unfolding known_timers_def by blast
qed

definition example_timeout :: "int \<Rightarrow> string \<Rightarrow> (string, string) set_timeout" where
  "example_timeout d e = \<lparr>st_duration = d, st_event = e, st_reply_to = ''client''\<rparr>"

text \<open>Three requests: the second has the deadline of the first and fires before it.\<close>

definition example_timer_inputs :: "(string, string) timer_input list" where
  "example_timer_inputs =
     [Request 0 (example_timeout 10 ''a''), Request 5 (example_timeout 5 ''b''), Request 6 (example_timeout 1 ''c''),
      TimeElapsed 7, TimeElapsed 10, TimeElapsed 10]"

theorem timers_fire_earliest_first_witness:
  "\<exists>a. run (timer_step (\<lambda>_. True)) timer_actor_new example_timer_inputs = Some a
    \<and> map (\<lambda>(now, t). (now, te_event_id t)) (ta_fired a) = [(7, ''c''), (10, ''b''), (10, ''a'')]
    \<and> mset (map snd (ta_fired a)) + pending_timers a = mset (requested 0 example_timer_inputs)"
proof -
  have "map_option (\<lambda>a. map (\<lambda>(now, t). (now, te_event_id t)) (ta_fired a))
      (run (timer_step (\<lambda>_. True)) timer_actor_new example_timer_inputs)
    = Some [(7, ''c''), (10, ''b''), (10, ''a'')]" by code_simp
  with timers_fire_earliest_first [of example_timer_inputs] show ?thesis by auto
qed

end
