(* ===== verification/Entity_Server.thy ===== *)
theory Entity_Server
  imports Store_Properties
begin

text \<open>
  The server in front of the entity store (\<^verbatim>\<open>tedge_agent/src/entity_manager/server.rs\<close>): the requests of the HTTP
  interface and the messages of the broker.  The state is the store with what the server has published.  A request has
  no result if the server panics or does not return.  The channel to the broker is not closed.
\<close>

record entity_twin_data =
  etd_topic_id :: entity_topic_id
  etd_fragments :: jmap

datatype invalid_twin_data = InvalidTwinData string

definition entity_twin_data_try_new :: "entity_topic_id \<Rightarrow> jmap \<Rightarrow> invalid_twin_data + entity_twin_data" where
  "entity_twin_data_try_new tid twin_data =
     (case find (\<lambda>key. strip_prefix ''@'' key \<noteq> None) (map fst twin_data) of
        Some key \<Rightarrow> Inl (InvalidTwinData key)
      | None \<Rightarrow> Inr \<lparr>etd_topic_id = tid, etd_fragments = twin_data\<rparr>)"

datatype store_request =
    ReqGet entity_topic_id
  | ReqCreate registration
  | ReqPatch entity_twin_data
  | ReqDelete entity_topic_id
  | ReqList list_filters
  | ReqMqtt mqtt_message

datatype store_response =
    RespGet "entity_metadata option"
  | RespCreate "store_error + registered_data list"
  | RespPatch "store_error + unit"
  | RespDelete "entity_metadata list"
  | RespList "entity_metadata list"
  | RespOk

record entity_server =
  sv_store :: entity_store
  sv_schema :: mqtt_schema
  sv_published :: "mqtt_message list"
  sv_auto_register :: bool

definition server_new :: "entity_store \<Rightarrow> mqtt_schema \<Rightarrow> bool \<Rightarrow> entity_server" where
  "server_new s S auto_register = \<lparr>sv_store = s, sv_schema = S, sv_published = [], sv_auto_register = auto_register\<rparr>"

section \<open>Operations\<close>

definition publish_message :: "mqtt_message \<Rightarrow> entity_server \<Rightarrow> entity_server" where
  "publish_message m sv = sv\<lparr>sv_published := sv_published sv @ [m]\<rparr>"

definition publish_twin_data ::
  "env \<Rightarrow> entity_topic_id \<Rightarrow> string \<times> json \<Rightarrow> entity_server \<Rightarrow> entity_server panics" where
  "publish_twin_data E tid fragment sv = do {
     t \<leftarrow> topic_for (env_mqtt E) (sv_schema sv) tid (EntityTwinData (fst fragment));
     Some (publish_message (with_retain (message_new t (json_to_text (env_json E) (snd fragment)))) sv) }"

fun publish_fragments ::
  "env \<Rightarrow> (entity_topic_id \<times> string \<times> json) list \<Rightarrow> entity_server \<Rightarrow> entity_server panics" where
  "publish_fragments E [] sv = Some sv"
| "publish_fragments E ((tid, fragment) # rest) sv = do {
     sv \<leftarrow> publish_twin_data E tid fragment sv;
     publish_fragments E rest sv }"

definition server_register_entity ::
  "env \<Rightarrow> registration \<Rightarrow> entity_server \<Rightarrow> ((store_error + registered_data list) \<times> entity_server) panics" where
  "server_register_entity E entity sv =
     (if store_get (sv_store sv) (reg_topic_id entity) \<noteq> None
      then Some (Inl (EntityAlreadyRegistered (reg_topic_id entity)), sv)
      else if (case reg_parent entity of Some p \<Rightarrow> store_get (sv_store sv) p = None | None \<Rightarrow> False)
      then Some (Inl (NoParent (the (reg_parent entity))), sv)
      else do {
        (res, s) \<leftarrow> store_update E entity (sv_store sv);
        let sv = sv\<lparr>sv_store := s\<rparr>;
        (case res of
           Inl err \<Rightarrow> Some (Inl err, sv)
         | Inr added \<Rightarrow>
             if added = [] then Some (Inr added, sv)
             else do {
               m \<leftarrow> registration_to_message (env_mqtt E) (env_json E) (sv_schema sv) entity;
               Some (Inr added, publish_message m sv) }) })"

definition publish_updated :: "env \<Rightarrow> bool \<Rightarrow> twin_message \<Rightarrow> entity_server \<Rightarrow> entity_server panics" where
  "publish_updated E updated twin_message sv =
     (if updated then do {
        m \<leftarrow> twin_to_message (env_mqtt E) (env_json E) (sv_schema sv) twin_message;
        Some (publish_message m sv) }
      else Some sv)"

fun patch_fragments ::
  "env \<Rightarrow> entity_topic_id \<Rightarrow> (string \<times> json) list \<Rightarrow> entity_server \<Rightarrow> ((store_error + unit) \<times> entity_server) panics" where
  "patch_fragments E tid [] sv = Some (Inr (), sv)"
| "patch_fragments E tid ((key, v) # fragments) sv = do {
     let twin_message = twin_message_new tid key v;
     (res, s) \<leftarrow> update_twin_data E twin_message (sv_store sv);
     let sv = sv\<lparr>sv_store := s\<rparr>;
     (case res of
        Inl err \<Rightarrow> Some (Inl err, sv)
      | Inr updated \<Rightarrow> do {
          sv \<leftarrow> publish_updated E updated twin_message sv;
          patch_fragments E tid fragments sv }) }"

definition patch_entity ::
  "env \<Rightarrow> entity_twin_data \<Rightarrow> entity_server \<Rightarrow> ((store_error + unit) \<times> entity_server) panics" where
  "patch_entity E d sv = patch_fragments E (etd_topic_id d) (etd_fragments d) sv"

fun publish_cleared :: "env \<Rightarrow> entity_metadata list \<Rightarrow> entity_server \<Rightarrow> entity_server panics" where
  "publish_cleared E [] sv = Some sv"
| "publish_cleared E (e # es) sv = do {
     t \<leftarrow> topic_for (env_mqtt E) (sv_schema sv) (em_topic_id e) EntityMetadata;
     publish_cleared E es (publish_message (with_qos AtLeastOnce (with_retain (message_new t []))) sv) }"

definition server_deregister_entity ::
  "env \<Rightarrow> entity_topic_id \<Rightarrow> entity_server \<Rightarrow> (entity_metadata list \<times> entity_server) panics" where
  "server_deregister_entity E tid sv =
     (case deregister_entity E tid (sv_store sv) of (deleted, s) \<Rightarrow> do {
        sv \<leftarrow> publish_cleared E deleted (sv\<lparr>sv_store := s\<rparr>);
        Some (deleted, sv) })"

definition process_entity_registration ::
  "env \<Rightarrow> entity_topic_id \<Rightarrow> mqtt_message \<Rightarrow> entity_server \<Rightarrow> entity_server panics" where
  "process_entity_registration E tid m sv =
     (if mm_payload m = [] then map_option snd (server_deregister_entity E tid sv)
      else case registration_of_message (env_mqtt E) (env_json E) m of
        None \<Rightarrow> Some sv
      | Some entity \<Rightarrow> do {
          (res, s) \<leftarrow> store_update E entity (sv_store sv);
          let sv = sv\<lparr>sv_store := s\<rparr>;
          (case res of
             Inl err \<Rightarrow> Some sv
           | Inr added \<Rightarrow>
               publish_fragments E
                 (concat (map (\<lambda>d. map (Pair (reg_topic_id (rd_reg d))) (reg_twin_data (rd_reg d))) added)) sv) })"

fun publish_registrations :: "env \<Rightarrow> registration list \<Rightarrow> entity_server \<Rightarrow> entity_server panics" where
  "publish_registrations E [] sv = Some sv"
| "publish_registrations E (r # rs) sv = do {
     m \<leftarrow> registration_to_message (env_mqtt E) (env_json E) (sv_schema sv) r;
     publish_registrations E rs (publish_message (with_retain m) sv) }"

definition process_entity_data :: "env \<Rightarrow> entity_topic_id \<Rightarrow> entity_server \<Rightarrow> entity_server panics" where
  "process_entity_data E tid sv =
     (if store_get (sv_store sv) tid = None \<and> sv_auto_register sv then do {
        matching \<leftarrow> matches_default_topic_scheme (env_mqtt E) tid;
        if matching then do {
          (res, s) \<leftarrow> auto_register_entity E tid (sv_store sv);
          let sv = sv\<lparr>sv_store := s\<rparr>;
          (case res of Inl err \<Rightarrow> Some sv | Inr entities \<Rightarrow> publish_registrations E entities sv) }
        else Some sv }
      else Some sv)"

definition server_process_mqtt_message :: "env \<Rightarrow> mqtt_message \<Rightarrow> entity_server \<Rightarrow> entity_server panics" where
  "server_process_mqtt_message E m sv =
     (case entity_channel_of (env_mqtt E) (sv_schema sv) (topic_name (mm_topic m)) of
        Inr (tid, EntityMetadata) \<Rightarrow> process_entity_registration E tid m sv
      | Inr (tid, _) \<Rightarrow> process_entity_data E tid sv
      | Inl _ \<Rightarrow> Some sv)"

fun handle :: "env \<Rightarrow> store_request \<Rightarrow> entity_server \<Rightarrow> (store_response \<times> entity_server) panics" where
  "handle E (ReqGet tid) sv = Some (RespGet (store_get (sv_store sv) tid), sv)"
| "handle E (ReqCreate entity) sv = map_option (map_prod RespCreate id) (server_register_entity E entity sv)"
| "handle E (ReqPatch twin_data) sv = map_option (map_prod RespPatch id) (patch_entity E twin_data sv)"
| "handle E (ReqDelete tid) sv = map_option (map_prod RespDelete id) (server_deregister_entity E tid sv)"
| "handle E (ReqList filters) sv = do {
     entities \<leftarrow> store_list_entity_tree E filters (sv_store sv);
     entities \<leftarrow> entities;
     Some (RespList entities, sv) }"
| "handle E (ReqMqtt m) sv = map_option (Pair RespOk) (server_process_mqtt_message E m sv)"

definition server_subscriptions :: "rumqttc \<Rightarrow> string \<Rightarrow> topic_filter panics" where
  "server_subscriptions L topic_root =
     (case filter_try_into L [topic_root @ ''/+/+/+/+/#''] of Inr f \<Rightarrow> Some f | Inl _ \<Rightarrow> None)"

section \<open>Requests are sequences of store operations\<close>

text \<open>
  What each request asks of the store, given its state: nothing for a query, and nothing for a creation that is
  rejected; the fragments of a patch are updated in order, up to the first error.
\<close>

fun patch_ops :: "env \<Rightarrow> entity_topic_id \<Rightarrow> (string \<times> json) list \<Rightarrow> entity_store \<Rightarrow> store_op list" where
  "patch_ops E tid [] s = []"
| "patch_ops E tid ((k, v) # fragments) s =
     Op_update_twin (twin_message_new tid k v)
     # (case update_twin_data E (twin_message_new tid k v) s of
          Some (Inr _, s') \<Rightarrow> patch_ops E tid fragments s'
        | _ \<Rightarrow> [])"

definition creation_error :: "registration \<Rightarrow> entity_store \<Rightarrow> store_error option" where
  "creation_error r s =
     (if registered s (reg_topic_id r) then Some (EntityAlreadyRegistered (reg_topic_id r))
      else case reg_parent r of
             Some p \<Rightarrow> if registered s p then None else Some (NoParent p)
           | None \<Rightarrow> None)"

fun request_ops :: "env \<Rightarrow> entity_server \<Rightarrow> store_request \<Rightarrow> store_op list" where
  "request_ops E sv (ReqGet tid) = []"
| "request_ops E sv (ReqCreate r) = (if creation_error r (sv_store sv) = None then [Op_update r] else [])"
| "request_ops E sv (ReqPatch d) = patch_ops E (etd_topic_id d) (etd_fragments d) (sv_store sv)"
| "request_ops E sv (ReqDelete tid) = [Op_deregister tid]"
| "request_ops E sv (ReqList filters) = []"
| "request_ops E sv (ReqMqtt m) =
     (case entity_channel_of (env_mqtt E) (sv_schema sv) (topic_name (mm_topic m)) of
        Inl _ \<Rightarrow> []
      | Inr (tid, EntityMetadata) \<Rightarrow>
          if mm_payload m = [] then [Op_deregister tid]
          else (case registration_of_message (env_mqtt E) (env_json E) m of None \<Rightarrow> [] | Some r \<Rightarrow> [Op_update r])
      | Inr (tid, _) \<Rightarrow>
          if \<not> registered (sv_store sv) tid \<and> sv_auto_register sv
            \<and> matches_default_topic_scheme (env_mqtt E) tid = Some True
          then [Op_auto_register tid] else [])"

definition server_step :: "env \<Rightarrow> entity_server \<Rightarrow> store_request \<Rightarrow> entity_server panics" where
  "server_step E sv req = map_option snd (handle E req sv)"

fun requests_ops :: "env \<Rightarrow> entity_server \<Rightarrow> store_request list \<Rightarrow> store_op list" where
  "requests_ops E sv [] = []"
| "requests_ops E sv (req # reqs) = request_ops E sv req
     @ (case server_step E sv req of None \<Rightarrow> [] | Some sv' \<Rightarrow> requests_ops E sv' reqs)"

lemma publish_message_store [simp]:
  "sv_store (publish_message m sv) = sv_store sv" "sv_schema (publish_message m sv) = sv_schema sv"
  by (simp_all add: publish_message_def)

lemma publish_store [simp]:
  "publish_twin_data E tid fragment sv = Some sv' \<Longrightarrow> sv_store sv' = sv_store sv"
  by (auto simp: publish_twin_data_def split: bind_splits)

lemma publish_updated_store: "publish_updated E updated w sv = Some sv' \<Longrightarrow> sv_store sv' = sv_store sv"
  by (auto simp: publish_updated_def split: if_splits bind_splits)

lemma publish_fragments_store: "publish_fragments E fs sv = Some sv' \<Longrightarrow> sv_store sv' = sv_store sv"
  by (induction E fs sv rule: publish_fragments.induct) (auto split: bind_splits)

lemma publish_cleared_store: "publish_cleared E es sv = Some sv' \<Longrightarrow> sv_store sv' = sv_store sv"
  by (induction E es sv rule: publish_cleared.induct) (auto split: bind_splits)

lemma publish_registrations_store: "publish_registrations E rs sv = Some sv' \<Longrightarrow> sv_store sv' = sv_store sv"
  by (induction E rs sv rule: publish_registrations.induct) (auto split: bind_splits)

lemma server_register_ops:
  assumes "server_register_entity E r sv = Some (res, sv')"
  shows "case creation_error r (sv_store sv) of
      Some err \<Rightarrow> res = Inl err \<and> sv' = sv
    | None \<Rightarrow> store_update E r (sv_store sv) = Some (res, sv_store sv')"
  using assms
  by (auto simp: server_register_entity_def creation_error_def registered_get Let_def
      split: if_splits bind_splits sum.splits prod.splits option.splits)

lemma patch_run:
  "patch_fragments E tid fs sv = Some (res, sv')
    \<Longrightarrow> run (store_step E) (sv_store sv) (patch_ops E tid fs (sv_store sv)) = Some (sv_store sv')"
proof (induction E tid fs sv rule: patch_fragments.induct)
  case (2 E tid key v fragments sv)
  obtain r s where s: "update_twin_data E (twin_message_new tid key v) (sv_store sv) = Some (r, s)"
    using "2.prems" by (auto simp: Let_def split: bind_splits)
  show ?case
  proof (cases r)
    case (Inl err)
    with s "2.prems" show ?thesis by (auto simp: Let_def)
  next
    case (Inr updated)
    then obtain sv1 where sv1: "publish_updated E updated (twin_message_new tid key v) (sv\<lparr>sv_store := s\<rparr>) = Some sv1"
      "patch_fragments E tid fragments sv1 = Some (res, sv')"
      using s "2.prems" by (auto simp: Let_def split: bind_splits)
    moreover have "sv_store sv1 = s" using publish_updated_store [OF sv1(1)] by simp
    ultimately show ?thesis
      using "2.IH" [OF refl s refl refl Inr sv1(1)] s Inr by simp
  qed
qed simp

lemma server_deregister_ops:
  assumes "server_deregister_entity E tid sv = Some (res, sv')"
  shows "deregister_entity E tid (sv_store sv) = (res, sv_store sv')"
  using assms
  by (auto simp: server_deregister_entity_def dest: publish_cleared_store split: bind_splits prod.splits)

lemma process_registration_ops:
  assumes "process_entity_registration E tid m sv = Some sv'"
  shows "run (store_step E) (sv_store sv)
      (if mm_payload m = [] then [Op_deregister tid]
       else case registration_of_message (env_mqtt E) (env_json E) m of None \<Rightarrow> [] | Some r \<Rightarrow> [Op_update r])
    = Some (sv_store sv')"
  using assms
  by (auto simp: process_entity_registration_def Let_def dest!: publish_fragments_store server_deregister_ops
      split: bind_splits sum.splits prod.splits option.splits if_splits)

lemma process_data_ops:
  assumes "process_entity_data E tid sv = Some sv'"
  shows "run (store_step E) (sv_store sv)
      (if \<not> registered (sv_store sv) tid \<and> sv_auto_register sv
            \<and> matches_default_topic_scheme (env_mqtt E) tid = Some True
       then [Op_auto_register tid] else [])
    = Some (sv_store sv')"
  using assms
  by (auto simp: process_entity_data_def Let_def registered_get dest!: publish_registrations_store
      split: if_splits bind_splits sum.splits prod.splits)

lemma handle_ops:
  assumes "handle E req sv = Some (res, sv')"
  shows "run (store_step E) (sv_store sv) (request_ops E sv req) = Some (sv_store sv')"
proof (cases req)
  case (ReqCreate r)
  with assms server_register_ops [of E r sv] show ?thesis by (auto split: option.splits)
next
  case (ReqPatch d)
  with assms patch_run show ?thesis by (auto simp: patch_entity_def)
next
  case (ReqDelete tid)
  with assms show ?thesis by (auto dest!: server_deregister_ops)
next
  case (ReqMqtt m)
  then have "server_process_mqtt_message E m sv = Some sv'" using assms by auto
  note processed = this
  show ?thesis
  proof (cases "entity_channel_of (env_mqtt E) (sv_schema sv) (topic_name (mm_topic m))")
    case (Inl err)
    with processed ReqMqtt show ?thesis by (simp add: server_process_mqtt_message_def)
  next
    case (Inr tc)
    obtain tid ch where tc: "tc = (tid, ch)" by (cases tc)
    show ?thesis
    proof (cases "ch = EntityMetadata")
      case True
      with processed Inr tc process_registration_ops [of E tid m sv sv'] ReqMqtt show ?thesis
        by (simp add: server_process_mqtt_message_def)
    next
      case False
      then have "process_entity_data E tid sv = Some sv'"
        "request_ops E sv req = (if \<not> registered (sv_store sv) tid \<and> sv_auto_register sv
            \<and> matches_default_topic_scheme (env_mqtt E) tid = Some True then [Op_auto_register tid] else [])"
        using processed Inr tc ReqMqtt by (cases ch; simp add: server_process_mqtt_message_def)+
      then show ?thesis using process_data_ops by simp
    qed
  qed
qed (use assms in \<open>auto split: bind_splits\<close>)

lemma server_run_ops:
  "run (server_step E) sv reqs = Some sv'
    \<Longrightarrow> run (store_step E) (sv_store sv) (requests_ops E sv reqs) = Some (sv_store sv')"
proof (induction reqs arbitrary: sv)
  case (Cons req reqs)
  obtain res sv1 where sv1: "handle E req sv = Some (res, sv1)" "run (server_step E) sv1 reqs = Some sv'"
    using Cons.prems by (auto simp: server_step_def [of E sv req] split: option.splits)
  from handle_ops [OF sv1(1)] Cons.IH [OF sv1(2)] sv1(1) show ?case
    by (simp add: server_step_def run_append)
qed simp

text \<open>A creation that is accepted registers the entity at once: it is never left waiting for a parent.\<close>

lemma register_pending_registered:
  "register_pending E ds acc s = Some (res, s') \<Longrightarrow> registered s x \<Longrightarrow> registered s' x"
proof (induction ds arbitrary: acc s)
  case (Cons d ds)
  obtain y s1 where s1: "register_and_persist_entity E (rd_reg d) s = Some (y, s1)"
    "(case y of Inl e \<Rightarrow> Some (Inl e, s1) | Inr _ \<Rightarrow> register_pending E ds (acc @ [d]) s1) = Some (res, s')"
    using Cons.prems(1) by (auto split: bind_splits)
  have "registered s1 x"
    using register_and_persist_keeps(1) [OF s1(1)] registered_insert [OF Cons.prems(2), of "rd_reg d"] by simp
  with Cons.IH s1(2) show ?case by (auto split: sum.splits)
qed simp

lemma accepted_creation_registered:
  assumes "creation_error r s = None" "store_update E r s = Some (Inr added, s')"
  shows "registered s' (reg_topic_id r)"
  using assms(2)
proof (cases rule: store_update_cases)
  case unchanged
  then show ?thesis using register_and_persist_Inr [of E r s "[]" s'] store_get_register [of r s "[]" _ "reg_topic_id r"]
    by (auto simp: registered_get store_get_def)
next
  case (added affected s1 d ps1 ds ps2)
  then have "registered s1 (reg_topic_id r)"
    using register_and_persist_Inr [OF added(1)] store_get_register [of r s affected _ "reg_topic_id r"]
    by (auto simp: registered_get store_get_def)
  with register_pending_registered [OF added(5)] show ?thesis by simp
next
  case (early p s1 ps)
  then obtain q where q: "reg_parent r = Some q" by (auto simp: cache_early_registration_message_def split: bind_splits)
  have "effective_parent (st_main s) r = Some p" "\<not> registered s p"
    using early(1) by (auto simp: register_and_persist_entity_def register_entity_eq persist_def
        split: option.splits if_splits sum.splits bind_splits prod.splits)
  with q assms(1) show ?thesis
    by (cases "reg_type r") (auto simp: effective_parent_def creation_error_def split: if_splits)
qed simp_all

text \<open>
  C13. The server refines the store.  Over every sequence of requests and messages that the server handles, its store
  goes exactly through the operations \<^verbatim>\<open>requests_ops\<close> that these requests stand for.  For the last request: a creation
  of a registered entity, or under an explicit parent that is not registered, is rejected with the corresponding error and changes nothing;
  any other creation is answered with the outcome of the update, and is registered if accepted; a deletion is
  answered with the removed entities, and a query with what the store holds.
\<close>

theorem server_refines_store:
  assumes "run (server_step E) (server_new s0 S auto_register) reqs = Some sv" "handle E req sv = Some (res, sv')"
  shows "run (store_step E) s0 (requests_ops E (server_new s0 S auto_register) reqs @ request_ops E sv req) = Some (sv_store sv')
    \<and> (case req of
         ReqGet tid \<Rightarrow> res = RespGet (store_get (sv_store sv) tid)
       | ReqCreate r \<Rightarrow>
           (case creation_error r (sv_store sv) of
              Some err \<Rightarrow> res = RespCreate (Inl err) \<and> sv' = sv
            | None \<Rightarrow> (\<exists>result. res = RespCreate result \<and> store_update E r (sv_store sv) = Some (result, sv_store sv')
                \<and> (\<forall>added. result = Inr added \<longrightarrow> registered (sv_store sv') (reg_topic_id r))))
       | ReqDelete tid \<Rightarrow> res = RespDelete (fst (deregister_entity E tid (sv_store sv)))
       | _ \<Rightarrow> True)"
proof
  have "run (store_step E) s0 (requests_ops E (server_new s0 S auto_register) reqs) = Some (sv_store sv)"
    using server_run_ops [OF assms(1)] by (simp add: server_new_def)
  with handle_ops [OF assms(2)]
  show "run (store_step E) s0 (requests_ops E (server_new s0 S auto_register) reqs @ request_ops E sv req) = Some (sv_store sv')"
    by (simp add: run_append)
  show "case req of
         ReqGet tid \<Rightarrow> res = RespGet (store_get (sv_store sv) tid)
       | ReqCreate r \<Rightarrow>
           (case creation_error r (sv_store sv) of
              Some err \<Rightarrow> res = RespCreate (Inl err) \<and> sv' = sv
            | None \<Rightarrow> (\<exists>result. res = RespCreate result \<and> store_update E r (sv_store sv) = Some (result, sv_store sv')
                \<and> (\<forall>added. result = Inr added \<longrightarrow> registered (sv_store sv') (reg_topic_id r))))
       | ReqDelete tid \<Rightarrow> res = RespDelete (fst (deregister_entity E tid (sv_store sv)))
       | _ \<Rightarrow> True"
  proof (cases req)
    case (ReqCreate r)
    with assms(2) obtain result where result: "server_register_entity E r sv = Some (result, sv')" "res = RespCreate result"
      by auto
    with ReqCreate server_register_ops [OF result(1)] accepted_creation_registered [of r "sv_store sv" E]
    show ?thesis by (auto split: option.splits)
  next
    case (ReqDelete tid)
    with assms(2) show ?thesis by (auto dest!: server_deregister_ops)
  qed (use assms(2) in auto)
qed

definition example_requests :: "store_request list" where
  "example_requests =
     [ReqCreate (example_child ''b'' ''main''), ReqCreate (example_child ''a'' ''b''),
      ReqPatch \<lparr>etd_topic_id = ''device/a//'', etd_fragments = [(''x'', JBool True)]\<rparr>]"

theorem server_refines_store_witness:
  "\<exists>sv sv'. run (server_step example_env) (server_new example_store schema_new True) example_requests = Some sv
    \<and> handle example_env (ReqCreate (example_child ''a'' ''main'')) sv
        = Some (RespCreate (Inl (EntityAlreadyRegistered ''device/a//'')), sv')
    \<and> run (store_step example_env) example_store
        [Op_update (example_child ''b'' ''main''), Op_update (example_child ''a'' ''b''),
         Op_update_twin (twin_message_new ''device/a//'' ''x'' (JBool True))] = Some (sv_store sv')"
proof -
  let ?sv0 = "server_new example_store schema_new True" and ?req = "ReqCreate (example_child ''a'' ''main'')"
  have "map_option (\<lambda>sv. creation_error (example_child ''a'' ''main'') (sv_store sv))
      (run (server_step example_env) ?sv0 example_requests) = Some (Some (EntityAlreadyRegistered ''device/a//''))"
    "map_option (\<lambda>sv. map_option (\<lambda>_. ()) (handle example_env ?req sv))
      (run (server_step example_env) ?sv0 example_requests) = Some (Some ())"
    by code_simp+
  then obtain sv where sv: "run (server_step example_env) ?sv0 example_requests = Some sv"
    "creation_error (example_child ''a'' ''main'') (sv_store sv) = Some (EntityAlreadyRegistered ''device/a//'')"
    "map_option (\<lambda>_. ()) (handle example_env ?req sv) = Some ()" by auto
  then obtain res sv' where h: "handle example_env ?req sv = Some (res, sv')" by auto
  have ops: "requests_ops example_env ?sv0 example_requests =
      [Op_update (example_child ''b'' ''main''), Op_update (example_child ''a'' ''b''),
       Op_update_twin (twin_message_new ''device/a//'' ''x'' (JBool True))]" by code_simp
  from server_refines_store [OF sv(1) h] sv h show ?thesis by (auto simp: ops)
qed

text \<open>
  A service that is created without a parent, below a device that is not registered, makes the server panic:
  the server checks explicit parents only, and the store caches the registration of an orphan under its
  explicit parent.
\<close>

lemma create_service_without_parent_panics:
  assumes "reg_type r = Service" "reg_parent r = None" "store_get (sv_store sv) (reg_topic_id r) = None"
    and "default_service_parent_identifier (reg_topic_id r) = Some p" "\<not> registered (sv_store sv) p"
  shows "handle E (ReqCreate r) sv = None"
proof -
  have "register_entity r (sv_store sv) = (Inl (NoParent p), sv_store sv)"
    using assms by (simp add: register_entity_def effective_parent_def)
  then have "store_update E r (sv_store sv) = None"
    using assms(2) by (simp add: store_update_def register_and_persist_entity_def cache_early_registration_message_def)
  with assms(2,3) show ?thesis by (simp add: server_register_entity_def)
qed

definition example_service :: registration where
  "example_service = registration_new_custom ''device/unknown/service/app'' Service"

lemma create_service_without_parent_panics_instance:
  "handle example_env (ReqCreate example_service) (server_new example_store schema_new True) = None"
proof -
  have facts: "reg_type example_service = Service" "reg_parent example_service = None"
    "store_get example_store (reg_topic_id example_service) = None"
    "default_service_parent_identifier (reg_topic_id example_service) = Some ''device/unknown//''"
    "\<not> registered example_store ''device/unknown//''" by code_simp+
  show ?thesis
    by (rule create_service_without_parent_panics [where p = "''device/unknown//''"])
      (use facts in \<open>simp_all add: server_new_def\<close>)
qed

end
