(* ===== verification/Workflow_Toml.thy ===== *)
theory Workflow_Toml
  imports Workflow
begin

text \<open>
  Workflow definitions as the user writes them (\<^verbatim>\<open>tedge_api/src/workflow/toml_config.rs\<close>): the records that the
  reader of TOML fills, and their translation into workflows, with the defaults and the checks.  The reading of TOML
  itself is the one \<^verbatim>\<open>serde\<close> derives.
\<close>

datatype exit_codes = Code "8 word" | Range "8 word" "8 word" | AnyError

datatype toml_state_update = Simple string | Detailed state_update

record toml_exit_handlers =
  tx_on_success :: "toml_state_update option"
  tx_on_error :: "toml_state_update option"
  tx_on_kill :: "toml_state_update option"
  tx_on_exit :: "(exit_codes, toml_state_update) hmap"
  tx_timeout_second :: "nat option"
  tx_on_timeout :: "toml_state_update option"
  tx_on_stdout :: "string list"
  tx_on_exec :: "toml_state_update option"
  tx_on_next :: "toml_state_update option"

datatype toml_operation_action =
    TomlScript shell_script
  | TomlBackgroundScript shell_script
  | TomlAction string
  | TomlOperation string
  | TomlIterate string

definition toml_action_default :: toml_operation_action where
  "toml_action_default = TomlAction ''proceed''"

record toml_operation_state =
  ts_action :: toml_operation_action
  ts_handlers :: toml_exit_handlers
  ts_input_script :: "shell_script option"
  ts_input :: "json option"
  ts_output :: "json option"

record toml_operation_workflow =
  tw_operation :: operation_type
  tw_handlers :: toml_exit_handlers
  tw_states :: "(string, toml_operation_state) hmap"

section \<open>Exit codes\<close>

datatype parse_int_error = EmptyInt | InvalidDigit | PosOverflow

text \<open>\<^verbatim>\<open>u8::from_str\<close>: decimal digits, after an optional plus sign.\<close>

fun parse_digits :: "nat \<Rightarrow> string \<Rightarrow> parse_int_error + nat" where
  "parse_digits n [] = Inr n"
| "parse_digits n (c # cs) =
     (if \<not> is_digit c then Inl InvalidDigit
      else (let n = 10 * n + (of_char c - 48) in if 255 < n then Inl PosOverflow else parse_digits n cs))"

definition parse_u8 :: "string \<Rightarrow> parse_int_error + 8 word" where
  "parse_u8 s =
     (if s = [] then Inl EmptyInt
      else if s = ''+'' then Inl InvalidDigit
      else (case parse_digits 0 (if hd s = CHR ''+'' then tl s else s) of
              Inl err \<Rightarrow> Inl err
            | Inr n \<Rightarrow> Inr (of_nat n)))"

fun exit_codes_to_str :: "exit_codes \<Rightarrow> string" where
  "exit_codes_to_str (Code x) = decimal (unat x)"
| "exit_codes_to_str (Range from to) = decimal (unat from) @ ''-'' @ decimal (unat to)"
| "exit_codes_to_str AnyError = ''_''"

definition exit_codes_of_str :: "string \<Rightarrow> parse_int_error + exit_codes" where
  "exit_codes_of_str s =
     (if s = ''_'' then Inr AnyError
      else case split_once CHR ''-'' s of
        None \<Rightarrow> (case parse_u8 s of Inl err \<Rightarrow> Inl err | Inr x \<Rightarrow> Inr (Code x))
      | Some (from, to) \<Rightarrow>
          (case parse_u8 from of
             Inl err \<Rightarrow> Inl err
           | Inr x \<Rightarrow> (case parse_u8 to of Inl err \<Rightarrow> Inl err | Inr y \<Rightarrow> Inr (Range x y))))"

section \<open>Handlers\<close>

fun state_update_of_toml :: "toml_state_update \<Rightarrow> state_update" where
  "state_update_of_toml (Simple status) = \<lparr>su_status = status, su_reason = None\<rparr>"
| "state_update_of_toml (Detailed update) = update"

abbreviation toml_update :: "toml_state_update option \<Rightarrow> state_update option" where
  "toml_update \<equiv> map_option state_update_of_toml"

abbreviation or_else :: "'a option \<Rightarrow> 'a \<Rightarrow> 'a" where
  "or_else x d \<equiv> (case x of Some y \<Rightarrow> y | None \<Rightarrow> d)"

fun exit_range_of_toml :: "exit_codes \<times> toml_state_update \<Rightarrow> exit_range option" where
  "exit_range_of_toml (Code x, u) = Some (x, x, state_update_of_toml u)"
| "exit_range_of_toml (Range from to, u) = Some (from, to, state_update_of_toml u)"
| "exit_range_of_toml (AnyError, u) = None"

definition exit_handlers_of_toml ::
  "toml_exit_handlers \<Rightarrow> default_handlers \<Rightarrow> script_definition_error + exit_handlers" where
  "exit_handlers_of_toml v defaults =
     (let on_error = toml_update (tx_on_error v);
          on_success = toml_update (tx_on_success v);
          on_kill = toml_update (tx_on_kill v);
          on_stdout = tx_on_stdout v;
          wildcard = toml_update (hm_get (tx_on_exit v) AnyError);
          on_exit = List.map_filter exit_range_of_toml (tx_on_exit v);
          on_error = (if on_error = None \<and> wildcard = None then Some (dh_on_error defaults) else on_error);
          timeout = (case tx_timeout_second v of Some n \<Rightarrow> Some (from_secs n) | None \<Rightarrow> dh_timeout defaults)
      in exit_handlers_try_new on_exit on_success on_error on_kill on_stdout wildcard timeout)"

definition exec_handlers_of_toml ::
  "toml_exit_handlers \<Rightarrow> exec_handlers option \<Rightarrow> script_definition_error + exec_handlers" where
  "exec_handlers_of_toml v defaults =
     (let on_exec = toml_update (tx_on_exec v) in
      case defaults of
        None \<Rightarrow> exec_handlers_try_new on_exec
      | Some d \<Rightarrow> exec_handlers_try_new (case on_exec of Some u \<Rightarrow> Some u | None \<Rightarrow> Some (xh_on_exec d)))"

definition await_handlers_of_toml ::
  "toml_exit_handlers \<Rightarrow> default_handlers \<Rightarrow> script_definition_error + await_handlers" where
  "await_handlers_of_toml h defaults =
     (let timeout = (case tx_timeout_second h of Some n \<Rightarrow> Some (from_secs n) | None \<Rightarrow> dh_timeout defaults) in
      case toml_update (tx_on_success h) of
        None \<Rightarrow> Inl MissingOnSuccessHandler
      | Some on_success \<Rightarrow>
          Inr \<lparr>ah_timeout = timeout, ah_on_success = on_success,
               ah_on_error = or_else (toml_update (tx_on_error h)) (dh_on_error defaults),
               ah_on_timeout = or_else (toml_update (tx_on_timeout h)) (dh_on_timeout defaults)\<rparr>)"

definition builtin_await_handlers_of_toml ::
  "toml_exit_handlers \<Rightarrow> await_handlers \<Rightarrow> script_definition_error + await_handlers" where
  "builtin_await_handlers_of_toml h defaults =
     Inr \<lparr>ah_timeout = (case tx_timeout_second h of Some n \<Rightarrow> Some (from_secs n) | None \<Rightarrow> ah_timeout defaults),
          ah_on_success = or_else (toml_update (tx_on_success h)) (ah_on_success defaults),
          ah_on_error = or_else (toml_update (tx_on_error h)) (ah_on_error defaults),
          ah_on_timeout = or_else (toml_update (tx_on_timeout h)) (ah_on_timeout defaults)\<rparr>"

definition iterate_handlers_of_toml ::
  "toml_exit_handlers \<Rightarrow> default_handlers \<Rightarrow> workflow_definition_error + iterate_handlers" where
  "iterate_handlers_of_toml v defaults =
     (case toml_update (tx_on_next v) of
        None \<Rightarrow> Inl (MissingState ''on_next'')
      | Some on_next \<Rightarrow>
          (case toml_update (tx_on_success v) of
             None \<Rightarrow> Inl (MissingState ''on_success'')
           | Some on_success \<Rightarrow>
               Inr (iterate_handlers_new on_next on_success
                      (or_else (toml_update (tx_on_error v)) (dh_on_error defaults)))))"

definition default_handlers_of_toml :: "toml_exit_handlers \<Rightarrow> default_handlers" where
  "default_handlers_of_toml v =
     default_handlers_new (map_option (\<lambda>n. from_secs n) (tx_timeout_second v)) (toml_update (tx_on_error v))
       (toml_update (tx_on_timeout v))"

section \<open>Actions and workflows\<close>

text \<open>An error of the handlers of a script becomes an error of the workflow.\<close>

fun sum_map :: "('e \<Rightarrow> 'f) \<Rightarrow> ('a \<Rightarrow> 'b) \<Rightarrow> 'e + 'a \<Rightarrow> 'f + 'b" where
  "sum_map f g (Inl e) = Inl (f e)"
| "sum_map f g (Inr x) = Inr (g x)"

fun then_do :: "'e + 'a \<Rightarrow> ('a \<Rightarrow> 'e + 'b) \<Rightarrow> 'e + 'b" where
  "then_do (Inl e) k = Inl e"
| "then_do (Inr x) k = k x"

definition keyword_action_of_toml ::
  "string \<Rightarrow> toml_operation_state \<Rightarrow> default_handlers \<Rightarrow> workflow_definition_error + operation_action" where
  "keyword_action_of_toml command input defaults =
     (let handlers = ts_handlers input in
      if command = ''cleanup'' then Inr Clear
      else if command = ''proceed'' then
        Inr (MoveTo (or_else (toml_update (tx_on_success handlers)) update_successful))
      else if command = ''await-agent-restart'' then
        sum_map ScriptDefinitionError AwaitingAgentRestart (await_handlers_of_toml handlers defaults)
      else if command = ''await-operation-completion'' then
        then_do (sum_map ScriptDefinitionError id (await_handlers_of_toml handlers defaults)) (\<lambda>h.
          sum_map StateExcerptError (AwaitOperationCompletion h) (excerpt_try_from (ts_output input)))
      else if command = ''builtin'' then
        then_do (sum_map ScriptDefinitionError id (exec_handlers_of_toml handlers (Some exec_builtin_default))) (\<lambda>xh.
          sum_map ScriptDefinitionError (BuiltIn xh) (builtin_await_handlers_of_toml handlers await_builtin_default))
      else Inl (UnknownAction command))"

definition action_of_toml ::
  "toml_operation_state \<Rightarrow> default_handlers \<Rightarrow> workflow_definition_error + operation_action" where
  "action_of_toml input defaults =
     (let handlers = ts_handlers input in
      case ts_action input of
        TomlScript script \<Rightarrow>
          sum_map ScriptDefinitionError (Script script) (exit_handlers_of_toml handlers defaults)
      | TomlBackgroundScript script \<Rightarrow>
          sum_map ScriptDefinitionError (BgScript script) (exec_handlers_of_toml handlers None)
      | TomlOperation operation \<Rightarrow>
          (case strip_prefix ''builtin:'' operation of
             None \<Rightarrow>
               then_do (sum_map ScriptDefinitionError id (exec_handlers_of_toml handlers None)) (\<lambda>xh.
                 sum_map StateExcerptError (\<lambda>cmd_input. Operation operation (ts_input_script input) cmd_input xh)
                   (excerpt_try_from (ts_input input)))
           | Some builtin_operation_name \<Rightarrow>
               sum_map ScriptDefinitionError (BuiltInOperation builtin_operation_name)
                 (exec_handlers_of_toml handlers None))
      | TomlIterate target_json_path \<Rightarrow>
          then_do (iterate_handlers_of_toml handlers defaults) (\<lambda>h.
            case extract_path target_json_path of
              None \<Rightarrow> Inl (InvalidPathExpression target_json_path)
            | Some json_path \<Rightarrow> Inr (Iterate json_path h))
      | TomlAction command \<Rightarrow> keyword_action_of_toml command input defaults)"

definition action_of_toml_alone :: "toml_operation_state \<Rightarrow> workflow_definition_error + operation_action" where
  "action_of_toml_alone input = action_of_toml input default_handlers_default"

fun states_of_toml ::
  "default_handlers \<Rightarrow> (string \<times> toml_operation_state) list \<Rightarrow> (string, operation_action) hmap
     \<Rightarrow> workflow_definition_error + (string, operation_action) hmap" where
  "states_of_toml defaults [] states = Inr states"
| "states_of_toml defaults ((state, action_spec) # specs) states =
     then_do (action_of_toml action_spec defaults) (\<lambda>action. states_of_toml defaults specs (hm_insert state action states))"

definition workflow_of_toml ::
  "(operation_action \<Rightarrow> string) \<Rightarrow> shell_words \<Rightarrow> toml_operation_workflow
     \<Rightarrow> workflow_definition_error + operation_workflow" where
  "workflow_of_toml dbg W input =
     (let default_handlers = default_handlers_of_toml (tw_handlers input) in
      then_do (states_of_toml default_handlers (tw_states input) []) (\<lambda>states.
        workflow_try_new dbg W (tw_operation input) default_handlers states))"

section \<open>Exit codes are read back\<close>

lemma parse_digits_append: "parse_digits n (xs @ ys) = then_do (parse_digits n xs) (\<lambda>m. parse_digits m ys)"
  by (induction n xs rule: parse_digits.induct) (auto simp: Let_def)

lemma parse_decimal: "n \<le> 255 \<Longrightarrow> parse_digits 0 (decimal n) = Inr n"
proof (induction n rule: decimal.induct)
  case (1 n)
  show ?case
  proof (cases "n < 10")
    case True
    then show ?thesis by (simp add: decimal.simps [of n] is_digit_def)
  next
    case False
    then have "parse_digits 0 (decimal (n div 10)) = Inr (n div 10)" using 1 by simp
    moreover have "10 * (n div 10) + n mod 10 = n" by simp
    ultimately show ?thesis
      using False "1.prems" by (simp add: decimal.simps [of n] parse_digits_append is_digit_def)
  qed
qed

lemma parse_u8_decimal: "parse_u8 (decimal (unat x)) = Inr (x :: 8 word)"
proof -
  have "unat x < 256" by (rule order_less_le_trans [OF unsigned_less]) simp
  moreover have "is_digit (hd (decimal (unat x)))"
    by (rule decimal_digits [OF list.set_sel(1) [OF decimal_nonempty]])
  then have "hd (decimal (unat x)) \<noteq> CHR ''+''" "decimal (unat x) \<noteq> ''+''" by (auto simp: is_digit_def)
  ultimately show ?thesis using parse_decimal [of "unat x"] by (simp add: parse_u8_def)
qed

lemma exit_codes_read_back: "exit_codes_of_str (exit_codes_to_str c) = Inr c"
proof -
  have plain: "CHR ''-'' \<notin> set (decimal n)" "CHR ''_'' \<notin> set (decimal n)" for n
    using decimal_digits [of "CHR ''-''" n] decimal_digits [of "CHR ''_''" n] by (auto simp: is_digit_def)
  then have "decimal n \<noteq> ''_''" "decimal n @ x \<noteq> ''_''" for n x
    using decimal_nonempty [of n] by (cases "decimal n", simp_all, metis list.set_intros(1))+
  moreover have "split_once CHR ''-'' (decimal n) = None" for n
    using plain by (simp add: split_once_None_iff)
  ultimately show ?thesis
    using plain by (cases c) (auto simp: exit_codes_of_str_def split_once_append parse_u8_decimal)
qed

section \<open>Accepted definitions\<close>

lemma then_do_Inr: "then_do x k = Inr z \<longleftrightarrow> (\<exists>y. x = Inr y \<and> k y = Inr z)"
  by (cases x) auto

lemma sum_map_Inr: "sum_map f g x = Inr z \<longleftrightarrow> (\<exists>y. x = Inr y \<and> z = g y)"
  by (cases x) auto

lemma exit_handlers_of_toml_on_error:
  assumes "exit_handlers_of_toml v defaults = Inr h"
  shows "eh_on_error h \<noteq> None"
  using assms
  by (auto simp: exit_handlers_of_toml_def exit_handlers_try_new_def Let_def split: if_splits option.splits list.splits)

lemma script_of_toml_on_error:
  "action_of_toml st defaults = Inr (Script script h) \<Longrightarrow> eh_on_error h \<noteq> None"
  by (auto simp: action_of_toml_def keyword_action_of_toml_def sum_map_Inr then_do_Inr Let_def
      dest: exit_handlers_of_toml_on_error split: toml_operation_action.splits option.splits if_splits)

definition translated :: "default_handlers \<Rightarrow> toml_operation_state \<Rightarrow> operation_action" where
  "translated defaults st = (case action_of_toml st defaults of Inr a \<Rightarrow> a | Inl _ \<Rightarrow> Clear)"

lemma states_of_toml_spec:
  assumes "distinct (map fst specs)" "fst ` set specs \<inter> fst ` set acc = {}"
  shows "states_of_toml defaults specs acc = Inr states \<longleftrightarrow>
    (\<forall>(k, st) \<in> set specs. \<exists>a. action_of_toml st defaults = Inr a)
    \<and> states = acc @ map (\<lambda>(k, st). (k, translated defaults st)) specs"
  using assms
proof (induction specs arbitrary: acc)
  case (Cons spec specs)
  obtain k st where spec: "spec = (k, st)" by (cases spec)
  show ?case
  proof (cases "action_of_toml st defaults")
    case (Inl err)
    then show ?thesis by (simp add: spec)
  next
    case (Inr a)
    have "k \<notin> fst ` set acc" using Cons.prems(2) by (simp add: spec)
    then have "hm_insert k a acc = acc @ [(k, a)]" by (induction acc) auto
    with Cons.IH [of "acc @ [(k, a)]"] Cons.prems Inr show ?thesis by (auto simp: spec translated_def)
  qed
qed auto

lemma map_of_translated:
  "hm_get (map (\<lambda>(k, st). (k, f st)) specs) k = map_option f (hm_get specs k)"
  by (induction specs) auto

lemma foreign_translated:
  assumes "\<And>k st a. (k, st) \<in> set specs \<Longrightarrow> g st = Inr a \<longleftrightarrow> f st = a"
  shows "(\<forall>b x. BuiltInOperation b x \<in> snd ` set (map (\<lambda>(k, st). (k, f st)) specs) \<longrightarrow> b = own) \<longleftrightarrow>
    (\<forall>(k, st) \<in> set specs. \<forall>b x. g st = Inr (BuiltInOperation b x) \<longrightarrow> b = own)"
proof -
  have "a \<in> snd ` set (map (\<lambda>(k, st). (k, f st)) specs) \<longleftrightarrow> (\<exists>k st. (k, st) \<in> set specs \<and> f st = a)" for a
    by (force simp: image_iff)
  with assms show ?thesis by blast
qed

lemma workflow_of_toml_iff:
  assumes "hm_wf (tw_states input)"
  defines "defaults \<equiv> default_handlers_of_toml (tw_handlers input)"
  shows "workflow_of_toml dbg W input = Inr w \<longleftrightarrow>
    (\<forall>(k, st) \<in> set (tw_states input). \<exists>a. action_of_toml st defaults = Inr a)
    \<and> workflow_try_new dbg W (tw_operation input) defaults
         (map (\<lambda>(k, st). (k, translated defaults st)) (tw_states input)) = Inr w"
  using states_of_toml_spec [OF assms(1), of "[]" defaults, simplified]
  by (auto simp: workflow_of_toml_def then_do_Inr defaults_def [symmetric] Let_def)

lemma translated_iff:
  assumes "\<forall>(k, st) \<in> set specs. \<exists>a. action_of_toml st defaults = Inr a" "(k, st) \<in> set specs"
  shows "action_of_toml st defaults = Inr a \<longleftrightarrow> translated defaults st = a"
  using assms by (auto simp: translated_def split: sum.split)

lemma workflow_of_toml_accepted:
  assumes "hm_wf (tw_states input)"
  defines "defaults \<equiv> default_handlers_of_toml (tw_handlers input)"
  assumes True: "\<forall>(k, st) \<in> set (tw_states input). \<exists>a. action_of_toml st defaults = Inr a"
  shows "(\<exists>w. workflow_of_toml dbg W input = Inr w) \<longleftrightarrow> hm_get (tw_states input) ''init'' \<noteq> None
    \<and> (\<forall>k \<in> {''successful'', ''failed''}. \<forall>st. hm_get (tw_states input) k = Some st \<longrightarrow> action_of_toml st defaults = Inr Clear)
    \<and> (\<forall>(k, st) \<in> set (tw_states input). \<forall>b x. action_of_toml st defaults = Inr (BuiltInOperation b x)
         \<longrightarrow> b = operation_to_str (tw_operation input))"
proof -
  let ?states = "map (\<lambda>(k, st). (k, translated defaults st)) (tw_states input)"
  note get = map_of_translated [of "translated defaults" "tw_states input"]
  note spec = workflow_try_new_spec [of dbg W "tw_operation input" defaults ?states]
  have "hm_get ?states k \<in> {None, Some Clear} \<longleftrightarrow>
      (\<forall>st. hm_get (tw_states input) k = Some st \<longrightarrow> action_of_toml st defaults = Inr Clear)" for k
    using translated_iff [OF True map_of_SomeD, of k] by (cases "hm_get (tw_states input) k") (auto simp: get)
  moreover note foreign_translated [of "tw_states input", OF translated_iff [OF True]]
  ultimately show ?thesis
    using conjunct1 [OF spec] True workflow_of_toml_iff [OF assms(1)] get by (simp add: defaults_def)
qed

lemma workflow_of_toml_result:
  assumes "hm_wf (tw_states input)"
  defines "defaults \<equiv> default_handlers_of_toml (tw_handlers input)"
  assumes w: "workflow_of_toml dbg W input = Inr w"
  shows "wf_operation w = tw_operation input \<and> wf_handlers w = defaults
    \<and> (\<forall>k st. hm_get (tw_states input) k = Some st \<longrightarrow>
          (\<exists>a. action_of_toml st defaults = Inr a \<and> hm_get (wf_states w) k = Some a))
    \<and> (\<forall>k script h. hm_get (wf_states w) k = Some (Script script h) \<longrightarrow> eh_on_error h \<noteq> None)"
proof -
  let ?states = "map (\<lambda>(k, st). (k, translated defaults st)) (tw_states input)"
  note get = map_of_translated [of "translated defaults" "tw_states input"]
  note spec = workflow_try_new_spec [of dbg W "tw_operation input" defaults ?states]
  have new: "workflow_try_new dbg W (tw_operation input) defaults ?states = Inr w"
    and ok: "\<forall>(k, st) \<in> set (tw_states input). \<exists>a. action_of_toml st defaults = Inr a"
    using w workflow_of_toml_iff [OF assms(1)] by (auto simp: defaults_def)
  then have ws: "wf_operation w = tw_operation input" "wf_handlers w = defaults"
    "hm_get (wf_states w) = (hm_get ?states)(''successful'' \<mapsto> Clear, ''failed'' \<mapsto> Clear)"
    using conjunct2 [OF spec] by auto
  have final: "hm_get ?states k \<in> {None, Some Clear}" if "k \<in> {''successful'', ''failed''}" for k
    using conjunct1 [OF spec] new that by auto
  have act: "action_of_toml st defaults = Inr (translated defaults st)" if "hm_get (tw_states input) k = Some st" for k st
    using translated_iff [OF ok map_of_SomeD [OF that]] by simp
  have "hm_get (wf_states w) k = Some (translated defaults st)" if "hm_get (tw_states input) k = Some st" for k st
    using that final [of k] by (cases "k \<in> {''successful'', ''failed''}") (auto simp: ws(3) get)
  moreover have "eh_on_error h \<noteq> None" if h: "hm_get (wf_states w) k = Some (Script script h)" for k script h
  proof -
    obtain st where "hm_get (tw_states input) k = Some st" "translated defaults st = Script script h"
      using h by (auto simp: ws(3) get split: if_splits)
    then show ?thesis using act script_of_toml_on_error by metis
  qed
  ultimately show ?thesis using ws(1,2) act by blast
qed

text \<open>
  C14. The definition of a workflow is accepted exactly when the action of every state is, there is an initial
  state, the final states do nothing, and no other built-in operation is used than the one of the workflow.  Then
  the workflow has the actions of the definition, and every script has a handler for its errors.
\<close>

theorem workflow_of_toml_spec:
  assumes "hm_wf (tw_states input)"
  shows "(let defaults = default_handlers_of_toml (tw_handlers input); specs = tw_states input in
    ((\<exists>w. workflow_of_toml dbg W input = Inr w) \<longleftrightarrow>
       (\<forall>(k, st) \<in> set specs. \<exists>a. action_of_toml st defaults = Inr a)
       \<and> hm_get specs ''init'' \<noteq> None
       \<and> (\<forall>k \<in> {''successful'', ''failed''}. \<forall>st. hm_get specs k = Some st \<longrightarrow> action_of_toml st defaults = Inr Clear)
       \<and> (\<forall>(k, st) \<in> set specs. \<forall>b x. action_of_toml st defaults = Inr (BuiltInOperation b x)
            \<longrightarrow> b = operation_to_str (tw_operation input)))
    \<and> (\<forall>w. workflow_of_toml dbg W input = Inr w \<longrightarrow>
         wf_operation w = tw_operation input \<and> wf_handlers w = defaults
         \<and> (\<forall>k st. hm_get specs k = Some st \<longrightarrow> (\<exists>a. action_of_toml st defaults = Inr a \<and> hm_get (wf_states w) k = Some a))
         \<and> (\<forall>k script h. hm_get (wf_states w) k = Some (Script script h) \<longrightarrow> eh_on_error h \<noteq> None)))"
proof (cases "\<forall>(k, st) \<in> set (tw_states input). \<exists>a. action_of_toml st (default_handlers_of_toml (tw_handlers input)) = Inr a")
  case True
  note accepted = workflow_of_toml_accepted [OF assms True, of dbg W]
  show ?thesis unfolding Let_def accepted using True workflow_of_toml_result [OF assms] by blast
next
  case False
  then have "workflow_of_toml dbg W input \<noteq> Inr w" for w using workflow_of_toml_iff [OF assms, of dbg W w] by blast
  with False show ?thesis unfolding Let_def by blast
qed

definition example_toml_handlers :: toml_exit_handlers where
  "example_toml_handlers =
     \<lparr>tx_on_success = Some (Simple ''executing''), tx_on_error = None, tx_on_kill = None, tx_on_exit = [],
      tx_timeout_second = None, tx_on_timeout = None, tx_on_stdout = [], tx_on_exec = None, tx_on_next = None\<rparr>"

definition example_toml_workflow :: toml_operation_workflow where
  "example_toml_workflow =
     (let state = (\<lambda>action. \<lparr>ts_action = action, ts_handlers = example_toml_handlers, ts_input_script = None,
                              ts_input = None, ts_output = None\<rparr>)
      in \<lparr>tw_operation = Restart, tw_handlers = example_toml_handlers,
          tw_states = [(''init'', state toml_action_default), (''executing'', state (TomlAction ''cleanup''))]\<rparr>)"

theorem workflow_of_toml_spec_witness:
  "hm_wf (tw_states example_toml_workflow)
   \<and> (\<exists>w. workflow_of_toml (\<lambda>_. []) example_words example_toml_workflow = Inr w
        \<and> hm_get (wf_states w) ''executing'' = Some Clear)"
proof -
  have wf: "hm_wf (tw_states example_toml_workflow)" by code_simp
  note spec = workflow_of_toml_spec [OF wf, of "\<lambda>_. []" example_words, unfolded Let_def]
  have "\<exists>w. workflow_of_toml (\<lambda>_. []) example_words example_toml_workflow = Inr w"
    unfolding conjunct1 [OF spec]
    by (auto simp: example_toml_workflow_def Let_def action_of_toml_def keyword_action_of_toml_def toml_action_default_def)
  then obtain w where w: "workflow_of_toml (\<lambda>_. []) example_words example_toml_workflow = Inr w" ..
  obtain st where st: "hm_get (tw_states example_toml_workflow) ''executing'' = Some st"
      "action_of_toml st (default_handlers_of_toml (tw_handlers example_toml_workflow)) = Inr Clear"
    by (simp add: example_toml_workflow_def Let_def action_of_toml_def keyword_action_of_toml_def)
  have "\<exists>a. action_of_toml st (default_handlers_of_toml (tw_handlers example_toml_workflow)) = Inr a
      \<and> hm_get (wf_states w) ''executing'' = Some a"
    using conjunct2 [OF spec] w st(1) by blast
  then have "hm_get (wf_states w) ''executing'' = Some Clear" using st(2) by simp
  with wf w show ?thesis by blast
qed

end
