(* ===== verification/Cloud_Entities.thy ===== *)
theory Cloud_Entities
  imports Entity_Store
begin

text \<open>
  The entities as the Cumulocity mapper knows them: the cache of entities with their external ids
  (\<^verbatim>\<open>c8y_mapper_ext/src/entity_cache.rs\<close>), how the converter fills it and names the entities
  (\<^verbatim>\<open>c8y_mapper_ext/src/converter.rs\<close>), and the SmartREST topics of an entity (\<^verbatim>\<open>c8y_api/src/smartrest/topic.rs\<close>).
\<close>

section \<open>Topics of Cumulocity\<close>

datatype invalid_topic_prefix = EmptyPrefix | PrefixWithHash | PrefixWithPlus | InternalPrefix

definition topic_prefix_try_new :: "string \<Rightarrow> invalid_topic_prefix + string" where
  "topic_prefix_try_new v =
     (if v = [] then Inl EmptyPrefix
      else if CHR ''#'' \<in> set v then Inl PrefixWithHash
      else if CHR ''+'' \<in> set v then Inl PrefixWithPlus
      else if v = ''c8y-internal'' then Inl InternalPrefix
      else Inr v)"

datatype c8y_topic = SmartRestRequest | SmartRestResponse | ChildSmartRestResponse string

fun c8y_with_prefix :: "string \<Rightarrow> c8y_topic \<Rightarrow> string" where
  "c8y_with_prefix pfx SmartRestRequest = pfx @ ''/s/ds''"
| "c8y_with_prefix pfx SmartRestResponse = pfx @ ''/s/us''"
| "c8y_with_prefix pfx (ChildSmartRestResponse child_id) = pfx @ ''/s/us/'' @ child_id"

definition c8y_to_topic :: "rumqttc \<Rightarrow> string \<Rightarrow> c8y_topic \<Rightarrow> mqtt_error + topic" where
  "c8y_to_topic L pfx t = topic_new L (c8y_with_prefix pfx t)"

definition upstream_topic :: "string \<Rightarrow> topic" where
  "upstream_topic pfx = topic_new_unchecked (c8y_with_prefix pfx SmartRestResponse)"

definition downstream_topic :: "string \<Rightarrow> topic" where
  "downstream_topic pfx = topic_new_unchecked (c8y_with_prefix pfx SmartRestRequest)"

definition smartrest_response_topic :: "rumqttc \<Rightarrow> string \<Rightarrow> entity_type \<Rightarrow> string \<Rightarrow> topic option" where
  "smartrest_response_topic L external_id ty pfx =
     (case ty of
        MainDevice \<Rightarrow> Some (upstream_topic pfx)
      | _ \<Rightarrow> ok (c8y_to_topic L pfx (ChildSmartRestResponse external_id)))"

definition publish_topic_from_parent :: "rumqttc \<Rightarrow> string option \<Rightarrow> string \<Rightarrow> string \<Rightarrow> topic panics" where
  "publish_topic_from_parent L parent_xid main_device_xid pfx =
     (case parent_xid of
        Some parent \<Rightarrow>
          if parent \<noteq> main_device_xid then ok (c8y_to_topic L pfx (ChildSmartRestResponse parent))
          else Some (upstream_topic pfx)
      | None \<Rightarrow> Some (upstream_topic pfx))"

section \<open>External ids\<close>

datatype invalid_external_id = InvalidExternalIdError string char

definition trim_end_matches :: "char \<Rightarrow> string \<Rightarrow> string" where
  "trim_end_matches c s = rev (dropWhile (\<lambda>x. x = c) (rev s))"

definition replace_char :: "char \<Rightarrow> char \<Rightarrow> string \<Rightarrow> string" where
  "replace_char a b s = map (\<lambda>x. if x = a then b else x) s"

definition map_to_c8y_external_id :: "entity_topic_id \<Rightarrow> string \<Rightarrow> string" where
  "map_to_c8y_external_id tid main_device_xid =
     (if is_default_main_device tid then main_device_xid
      else main_device_xid @ '':'' @ replace_char slash (CHR '':'') (trim_end_matches slash tid))"

abbreviation FORBIDDEN_ID_CHARS :: string where "FORBIDDEN_ID_CHARS \<equiv> ''/+#''"

definition validate_external_id :: "string \<Rightarrow> invalid_external_id + string" where
  "validate_external_id i =
     (case find (\<lambda>c. c \<in> set FORBIDDEN_ID_CHARS) i of
        Some c \<Rightarrow> Inl (InvalidExternalIdError i c)
      | None \<Rightarrow> Inr i)"

definition default_device_name_from_external_id :: "string \<Rightarrow> string" where
  "default_device_name_from_external_id external_id =
     (case split_on (CHR '':'') external_id of
        [a, b, device_id] \<Rightarrow> if b = ''device'' then device_id else external_id
      | [a, b, device_id, c, d] \<Rightarrow> if b = ''device'' \<and> c = ''service'' then device_id else external_id
      | _ \<Rightarrow> external_id)"

section \<open>The cache\<close>

record cloud_entity =
  ce_external_id :: string
  ce_metadata :: entity_metadata

record entity_cache =
  ec_main_tid :: entity_topic_id
  ec_main_xid :: string
  ec_mapper :: "entity_topic_id \<Rightarrow> string \<Rightarrow> string"
  ec_validator :: "string \<Rightarrow> invalid_external_id + string"
  ec_entities :: "(entity_topic_id, cloud_entity) hmap"
  ec_external_ids :: "(string, entity_topic_id) hmap"
  ec_pending :: pending_store

datatype cache_error =
    CacheUnknownEntity string
  | CacheInvalidExternalId invalid_external_id
  | CacheNonDefaultTopicScheme entity_topic_id

definition entity_cache_new ::
  "mqtt_schema \<Rightarrow> entity_topic_id \<Rightarrow> string \<Rightarrow> (entity_topic_id \<Rightarrow> string \<Rightarrow> string)
     \<Rightarrow> (string \<Rightarrow> invalid_external_id + string) \<Rightarrow> nat \<Rightarrow> entity_cache" where
  "entity_cache_new S main_tid main_xid mapper validator telemetry_cache_size =
     \<lparr>ec_main_tid = main_tid, ec_main_xid = main_xid, ec_mapper = mapper, ec_validator = validator,
      ec_entities = [(main_tid, \<lparr>ce_external_id = main_xid, ce_metadata = metadata_main_device\<rparr>)],
      ec_external_ids = [(main_xid, main_tid)], ec_pending = pending_new S telemetry_cache_size\<rparr>"

abbreviation cache_get :: "entity_topic_id \<Rightarrow> entity_cache \<Rightarrow> cloud_entity option" where
  "cache_get tid c \<equiv> hm_get (ec_entities c) tid"

definition cache_insert ::
  "entity_topic_id \<Rightarrow> string \<Rightarrow> entity_metadata \<Rightarrow> entity_cache \<Rightarrow> insert_outcome \<times> entity_cache" where
  "cache_insert tid xid m c =
     (let (outcome, es) =
        (case hm_get (ec_entities c) tid of
           Some occupied \<Rightarrow>
             let existing = ce_metadata occupied; merged = merge_metadata existing m in
             if existing = merged then (Unchanged, ec_entities c)
             else (Updated, hm_insert tid \<lparr>ce_external_id = xid, ce_metadata = merged\<rparr> (ec_entities c))
         | None \<Rightarrow> (Inserted, hm_insert tid \<lparr>ce_external_id = xid, ce_metadata = m\<rparr> (ec_entities c)))
      in (outcome, c\<lparr>ec_entities := es, ec_external_ids := hm_insert xid tid (ec_external_ids c)\<rparr>))"

definition cache_parent :: "entity_topic_id \<Rightarrow> registration \<Rightarrow> entity_topic_id option" where
  "cache_parent main r =
     (case reg_type r of
        MainDevice \<Rightarrow> None
      | ChildDevice \<Rightarrow> (case reg_parent r of Some p \<Rightarrow> Some p | None \<Rightarrow> Some main)
      | Service \<Rightarrow> (case reg_parent r of
            Some p \<Rightarrow> Some p
          | None \<Rightarrow> (case default_service_parent_identifier (reg_topic_id r) of
              Some p \<Rightarrow> Some p | None \<Rightarrow> Some main)))"

definition register_single_entity ::
  "registration \<Rightarrow> entity_cache \<Rightarrow> (invalid_external_id + insert_outcome) \<times> entity_cache" where
  "register_single_entity r c =
     (case (case reg_external_id r of
              Some i \<Rightarrow> ec_validator c i
            | None \<Rightarrow> Inr (ec_mapper c (reg_topic_id r) (ec_main_xid c))) of
        Inl err \<Rightarrow> (Inl err, c)
      | Inr external_id \<Rightarrow>
          let m = \<lparr>em_topic_id = reg_topic_id r, em_parent = cache_parent (ec_main_tid c) r,
                   em_type = reg_type r, em_external_id = Some external_id, em_twin_data = reg_twin_data r\<rparr>
          in map_prod Inr id (cache_insert (reg_topic_id r) external_id m c))"

text \<open>The loop over the pending children; the first error ends it.\<close>

fun register_pending_children ::
  "registered_data list \<Rightarrow> registered_data list \<Rightarrow> entity_cache
     \<Rightarrow> (cache_error + registered_data list) \<times> entity_cache" where
  "register_pending_children [] acc c = (Inr acc, c)"
| "register_pending_children (d # ds) acc c =
     (case register_single_entity (rd_reg d) c of
        (Inl err, c') \<Rightarrow> (Inl (CacheInvalidExternalId err), c')
      | (Inr _, c') \<Rightarrow> register_pending_children ds (acc @ [d]) c')"

definition cache_register_entity ::
  "rumqttc \<Rightarrow> registration \<Rightarrow> entity_cache
     \<Rightarrow> ((cache_error + registered_data list) \<times> entity_cache) panics" where
  "cache_register_entity L r c =
     (let parent = (case reg_parent r of Some p \<Rightarrow> p | None \<Rightarrow> ec_main_tid c) in
      if hm_contains (ec_entities c) parent then
        (case register_single_entity r c of
           (Inl err, c) \<Rightarrow> Some (Inl (CacheInvalidExternalId err), c)
         | (Inr outcome, c) \<Rightarrow>
             if outcome = Unchanged then Some (Inr [], c)
             else (case take_cached_entity_data L r (ec_pending c) of (current, ps) \<Rightarrow> do {
               (children, ps') \<leftarrow> take_cached_child_entities_data L (reg_topic_id r) ps;
               Some (register_pending_children children [current] (c\<lparr>ec_pending := ps'\<rparr>)) }))
      else do {
        ps \<leftarrow> cache_early_registration_message r (ec_pending c);
        Some (Inr [], c\<lparr>ec_pending := ps\<rparr>) })"

definition cache_delete :: "entity_topic_id \<Rightarrow> entity_cache \<Rightarrow> cloud_entity option \<times> entity_cache" where
  "cache_delete tid c =
     (case hm_get (ec_entities c) tid of
        None \<Rightarrow> (None, c)
      | Some e \<Rightarrow> (Some e, c\<lparr>ec_entities := hm_remove tid (ec_entities c),
                            ec_external_ids := hm_remove (ce_external_id e) (ec_external_ids c)\<rparr>))"

definition cache_try_get :: "entity_topic_id \<Rightarrow> entity_cache \<Rightarrow> cache_error + cloud_entity" where
  "cache_try_get tid c = (case cache_get tid c of Some e \<Rightarrow> Inr e | None \<Rightarrow> Inl (CacheUnknownEntity tid))"

definition cache_update_twin_data :: "twin_message \<Rightarrow> entity_cache \<Rightarrow> (cache_error + bool) \<times> entity_cache" where
  "cache_update_twin_data w c =
     (case cache_try_get (tw_topic_id w) c of
        Inl err \<Rightarrow> (Inl err, c)
      | Inr e \<Rightarrow>
          let existing = bt_get (em_twin_data (ce_metadata e)) (tw_key w);
              put = (\<lambda>twin. c\<lparr>ec_entities :=
                hm_insert (tw_topic_id w) (e\<lparr>ce_metadata := (ce_metadata e)\<lparr>em_twin_data := twin\<rparr>\<rparr>) (ec_entities c)\<rparr>)
          in if tw_value w = JNull
             then (Inr (existing \<noteq> None), put (bt_remove (tw_key w) (em_twin_data (ce_metadata e))))
             else (Inr (existing \<noteq> Some (tw_value w)), put (bt_insert (tw_key w) (tw_value w) (em_twin_data (ce_metadata e)))))"

definition get_by_external_id :: "string \<Rightarrow> entity_cache \<Rightarrow> cloud_entity option" where
  "get_by_external_id xid c = do { tid \<leftarrow> hm_get (ec_external_ids c) xid; cache_get tid c }"

definition try_get_by_external_id :: "string \<Rightarrow> entity_cache \<Rightarrow> cache_error + cloud_entity" where
  "try_get_by_external_id xid c =
     (case get_by_external_id xid c of Some e \<Rightarrow> Inr e | None \<Rightarrow> Inl (CacheUnknownEntity xid))"

definition try_get_external_id :: "entity_topic_id \<Rightarrow> entity_cache \<Rightarrow> cache_error + string" where
  "try_get_external_id tid c = (case cache_try_get tid c of Inl err \<Rightarrow> Inl err | Inr e \<Rightarrow> Inr (ce_external_id e))"

definition parent_external_id :: "entity_topic_id \<Rightarrow> entity_cache \<Rightarrow> (cache_error + string option) panics" where
  "parent_external_id tid c =
     (case cache_try_get tid c of
        Inl err \<Rightarrow> Some (Inl err)
      | Inr e \<Rightarrow> (case em_parent (ce_metadata e) of
          None \<Rightarrow> Some (Inr None)
        | Some p \<Rightarrow> (case try_get_external_id p c of Inl _ \<Rightarrow> None | Inr xid \<Rightarrow> Some (Inr (Some xid)))))"

definition ec_cache_early_data_message :: "rumqttc \<Rightarrow> mqtt_message \<Rightarrow> entity_cache \<Rightarrow> entity_cache" where
  "ec_cache_early_data_message L m c = c\<lparr>ec_pending := cache_early_data_message L m (ec_pending c)\<rparr>"

section \<open>The converter in front of the cache\<close>

definition try_register_entity_with_pending_children ::
  "rumqttc \<Rightarrow> registration \<Rightarrow> entity_cache \<Rightarrow> (registered_data list \<times> entity_cache) panics" where
  "try_register_entity_with_pending_children L r c =
     map_option (map_prod (\<lambda>res. case res of Inl _ \<Rightarrow> [] | Inr ds \<Rightarrow> ds) id) (cache_register_entity L r c)"

text \<open>The error of an invalid registration message is \<^term>\<open>Inl ()\<close>.\<close>

definition try_register_source_entities ::
  "rumqttc \<Rightarrow> serde \<Rightarrow> mqtt_schema \<Rightarrow> mqtt_message \<Rightarrow> entity_cache
     \<Rightarrow> ((unit + registered_data list) \<times> entity_cache) panics" where
  "try_register_source_entities L J S m c =
     (case entity_channel_of L S (topic_name (mm_topic m)) of
        Inl _ \<Rightarrow> Some (Inr [], c)
      | Inr (source, EntityMetadata) \<Rightarrow>
          if mm_payload m = [] then Some (Inr [], snd (cache_delete source c))
          else (case registration_of_message L J m of
                  Some r \<Rightarrow> map_option (map_prod Inr id) (try_register_entity_with_pending_children L r c)
                | None \<Rightarrow> Some (Inl (), c))
      | Inr (source, _) \<Rightarrow>
          Some (Inr [], if cache_get source c = None then ec_cache_early_data_message L m c else c))"

definition append_id_if_not_given :: "registration \<Rightarrow> entity_cache \<Rightarrow> registration" where
  "append_id_if_not_given r c =
     (if reg_external_id r = None then
        (case cache_get (reg_topic_id r) c of
           Some e \<Rightarrow> r\<lparr>reg_external_id := Some (ce_external_id e)\<rparr>
         | None \<Rightarrow> r)
      else r)"

definition smartrest_publish_topic_for_entity ::
  "rumqttc \<Rightarrow> string \<Rightarrow> entity_topic_id \<Rightarrow> entity_cache \<Rightarrow> (cache_error + topic) panics" where
  "smartrest_publish_topic_for_entity L pfx tid c =
     (case cache_try_get tid c of
        Inl err \<Rightarrow> Some (Inl err)
      | Inr e \<Rightarrow> map_option Inr (smartrest_response_topic L (ce_external_id e) (em_type (ce_metadata e)) pfx))"

text \<open>The cache of the Cumulocity mapper, with the size of its buffer of early telemetry.\<close>

definition c8y_entity_cache :: "mqtt_schema \<Rightarrow> string \<Rightarrow> entity_cache" where
  "c8y_entity_cache S device_id =
     entity_cache_new S default_main_device device_id map_to_c8y_external_id validate_external_id 100"

text \<open>The inputs that change the cache: the messages of the broker, and the updates of twin data.\<close>

datatype cache_input = CacheMessage mqtt_message | CacheTwin twin_message

fun cache_step :: "rumqttc \<Rightarrow> serde \<Rightarrow> mqtt_schema \<Rightarrow> entity_cache \<Rightarrow> cache_input \<Rightarrow> entity_cache panics" where
  "cache_step L J S c (CacheMessage m) = map_option snd (try_register_source_entities L J S m c)"
| "cache_step L J S c (CacheTwin w) = Some (snd (cache_update_twin_data w c))"

section \<open>The contract of a registration\<close>

lemma cache_insert_pending [simp]: "ec_pending (snd (cache_insert tid xid m c)) = ec_pending c"
  by (simp add: cache_insert_def Let_def split: option.split prod.split)

lemma register_single_pending [simp]: "ec_pending (snd (register_single_entity r c)) = ec_pending c"
  by (simp add: register_single_entity_def Let_def split: sum.split)

lemma cache_delete_pending [simp]: "ec_pending (snd (cache_delete tid c)) = ec_pending c"
  by (simp add: cache_delete_def split: option.split)

lemma cache_twin_pending [simp]: "ec_pending (snd (cache_update_twin_data w c)) = ec_pending c"
  by (simp add: cache_update_twin_data_def Let_def split: sum.split)

text \<open>
  What holds of the cache, whatever is pending, and is kept by every good registration, by deletions and by updates
  of twin data, is kept by every input.
\<close>

locale cache_contract =
  fixes I :: "entity_cache \<Rightarrow> bool" and good :: "registration \<Rightarrow> bool"
  assumes single: "I c \<Longrightarrow> good r \<Longrightarrow> I (snd (register_single_entity r c))"
    and pending: "I (c\<lparr>ec_pending := ps\<rparr>) = I c"
    and delete: "I c \<Longrightarrow> I (snd (cache_delete tid c))"
    and twin: "I c \<Longrightarrow> I (snd (cache_update_twin_data w c))"
begin

abbreviation cache_ok :: "entity_cache \<Rightarrow> bool" where
  "cache_ok c \<equiv> I c \<and> pending_regs good (ec_pending c)"

lemma children_keep:
  "cache_ok c \<Longrightarrow> list_all (good \<circ> rd_reg) ds \<Longrightarrow> cache_ok (snd (register_pending_children ds acc c))"
proof (induction ds arbitrary: acc c)
  case (Cons d ds)
  obtain res c' where c': "register_single_entity (rd_reg d) c = (res, c')" by fastforce
  have "cache_ok c'"
    using Cons.prems single [of c "rd_reg d"] register_single_pending [of "rd_reg d" c] by (simp add: c')
  with Cons c' show ?case by (cases res) auto
qed simp

lemma registration_keeps:
  assumes "cache_ok c" "good r" "cache_register_entity L r c = Some (res, c')"
  shows "cache_ok c'"
proof (cases "hm_contains (ec_entities c) (case reg_parent r of Some p \<Rightarrow> p | None \<Rightarrow> ec_main_tid c)")
  case True
  obtain out c1 where c1: "register_single_entity r c = (out, c1)" by fastforce
  have ok: "cache_ok c1"
    using assms(1,2) single [of c r] register_single_pending [of r c] by (simp add: c1)
  show ?thesis
  proof (cases out)
    case (Inr outcome)
    obtain d ps where ps: "take_cached_entity_data L r (ec_pending c1) = (d, ps)" by fastforce
    show ?thesis
    proof (cases "outcome = Unchanged")
      case False
      then obtain ds ps' where
        ds: "take_cached_child_entities_data L (reg_topic_id r) ps = Some (ds, ps')"
          "register_pending_children ds [d] (c1\<lparr>ec_pending := ps'\<rparr>) = (res, c')"
        using assms(3) True c1 Inr ps by (auto simp: cache_register_entity_def Let_def split: bind_splits)
      have "pending_regs good ps' \<and> list_all (good \<circ> rd_reg) ds"
        using take_cached_entity_data_regs [OF _ ps] ok take_cached_child_entities_regs [OF _ ds(1)] by blast
      then show ?thesis
        using children_keep [of "c1\<lparr>ec_pending := ps'\<rparr>" ds "[d]"] ok pending by (simp add: ds(2))
    qed (use assms(3) True c1 Inr ok in \<open>auto simp: cache_register_entity_def\<close>)
  qed (use assms(3) True c1 ok in \<open>auto simp: cache_register_entity_def\<close>)
next
  case False
  with assms show ?thesis
    by (auto simp: cache_register_entity_def Let_def pending cache_early_regs(2) split: bind_splits)
qed

lemma input_keeps:
  assumes "cache_ok c" "cache_step L J S c i = Some c'"
    and "\<And>m r. i = CacheMessage m \<Longrightarrow> registration_of_message L J m = Some r \<Longrightarrow> good r"
  shows "cache_ok c'"
proof (cases i)
  case (CacheTwin w)
  with assms(1,2) twin show ?thesis by auto
next
  case (CacheMessage m)
  then obtain res where reg: "try_register_source_entities L J S m c = Some (res, c')" using assms(2) by auto
  have early: "cache_ok (ec_cache_early_data_message L m c)"
    using assms(1) by (simp add: ec_cache_early_data_message_def pending cache_early_regs(1))
  have "cache_ok c'" if "registration_of_message L J m = Some r"
      "try_register_entity_with_pending_children L r c = Some (x, c')" for r x
    using that(2) registration_keeps [OF assms(1) assms(3) [OF CacheMessage that(1)]]
    by (auto simp: try_register_entity_with_pending_children_def)
  with reg early assms(1) delete show ?thesis
    by (auto simp: try_register_source_entities_def split: sum.splits prod.splits channel.splits if_splits option.splits)
qed

end

section \<open>Every entity has a topic\<close>

lemma validate_external_id_Inr: "validate_external_id i = Inr j \<longleftrightarrow> j = i \<and> set i \<inter> set FORBIDDEN_ID_CHARS = {}"
proof -
  have "find (\<lambda>c. c \<in> set FORBIDDEN_ID_CHARS) i = None \<longleftrightarrow> set i \<inter> set FORBIDDEN_ID_CHARS = {}"
    by (auto simp: find_None_iff)
  then show ?thesis by (cases "find (\<lambda>c. c \<in> set FORBIDDEN_ID_CHARS) i") (auto simp: validate_external_id_def)
qed

lemma trim_end_append: "\<exists>n. s = trim_end_matches c s @ replicate n c"
proof -
  have "rev s = takeWhile (\<lambda>x. x = c) (rev s) @ dropWhile (\<lambda>x. x = c) (rev s)" by simp
  moreover have "takeWhile (\<lambda>x. x = c) (rev s) = replicate (length (takeWhile (\<lambda>x. x = c) (rev s))) c"
    by (auto simp: list_eq_iff_nth_eq dest: nth_mem set_takeWhileD)
  ultimately have "s = rev (dropWhile (\<lambda>x. x = c) (rev s)) @ replicate (length (takeWhile (\<lambda>x. x = c) (rev s))) c"
    by (metis rev_append rev_replicate rev_rev_ident)
  then show ?thesis unfolding trim_end_matches_def by blast
qed

lemma no_wildcard_mapped: "no_wildcard i \<Longrightarrow> no_wildcard tid \<Longrightarrow> no_wildcard (map_to_c8y_external_id tid i)"
proof -
  assume "no_wildcard i" "no_wildcard tid"
  moreover have "no_wildcard (trim_end_matches slash tid)" if "no_wildcard tid"
    using that trim_end_append [of tid slash] by (metis no_wildcard_append)
  moreover have "no_wildcard (replace_char slash CHR '':'' t)" if "no_wildcard t" for t
    using that by (auto simp: replace_char_def no_wildcard_def split: if_splits)
  ultimately show ?thesis by (simp add: map_to_c8y_external_id_def)
qed

definition ids_safe :: "entity_cache \<Rightarrow> bool" where
  "ids_safe c \<longleftrightarrow> ec_mapper c = map_to_c8y_external_id \<and> ec_validator c = validate_external_id
     \<and> no_wildcard (ec_main_xid c)
     \<and> (\<forall>tid e. cache_get tid c = Some e \<longrightarrow> em_topic_id (ce_metadata e) = tid \<and> no_wildcard (ce_external_id e))"

lemma map_prod_id_eq: "map_prod f id x = (a, b) \<longleftrightarrow> f (fst x) = a \<and> snd x = b"
  by (cases x) simp

lemma register_single_external_id:
  "register_single_entity r c = (Inr out, c') \<Longrightarrow> \<exists>xid. c' = snd (cache_insert (reg_topic_id r) xid
       \<lparr>em_topic_id = reg_topic_id r, em_parent = cache_parent (ec_main_tid c) r, em_type = reg_type r,
        em_external_id = Some xid, em_twin_data = reg_twin_data r\<rparr> c)
     \<and> (case reg_external_id r of
          Some i \<Rightarrow> ec_validator c i = Inr xid
        | None \<Rightarrow> xid = ec_mapper c (reg_topic_id r) (ec_main_xid c))"
  by (auto simp: register_single_entity_def Let_def map_prod_id_eq split: sum.splits option.splits)

text \<open>The entities after an insertion, and what else an insertion keeps.\<close>

lemma cache_insert_get:
  "hm_get (ec_entities (snd (cache_insert tid xid m c))) = (hm_get (ec_entities c))(tid \<mapsto>
     (case cache_get tid c of
        None \<Rightarrow> \<lparr>ce_external_id = xid, ce_metadata = m\<rparr>
      | Some e \<Rightarrow> if ce_metadata e = merge_metadata (ce_metadata e) m then e
                  else \<lparr>ce_external_id = xid, ce_metadata = merge_metadata (ce_metadata e) m\<rparr>))"
  by (auto simp: cache_insert_def Let_def update_conv' fun_upd_idem split: option.split)

lemma cache_insert_keeps [simp]:
  "ec_main_tid (snd (cache_insert tid xid m c)) = ec_main_tid c" "ec_main_xid (snd (cache_insert tid xid m c)) = ec_main_xid c"
  "ec_mapper (snd (cache_insert tid xid m c)) = ec_mapper c" "ec_validator (snd (cache_insert tid xid m c)) = ec_validator c"
  "ec_external_ids (snd (cache_insert tid xid m c)) = hm_insert xid tid (ec_external_ids c)"
  by (simp_all add: cache_insert_def Let_def split: prod.split)

lemma register_single_Inl: "register_single_entity r c = (Inl err, c') \<Longrightarrow> c' = c"
  by (auto simp: register_single_entity_def Let_def map_prod_id_eq split: sum.splits)

lemma ids_safe_single:
  assumes "ids_safe c" "wf_registration r"
  shows "ids_safe (snd (register_single_entity r c))"
proof (cases "register_single_entity r c")
  case (Pair out c')
  show ?thesis
  proof (cases out)
    case (Inl err)
    with Pair register_single_Inl assms(1) show ?thesis by fastforce
  next
    case (Inr outcome)
    then obtain xid m where c': "c' = snd (cache_insert (reg_topic_id r) xid m c)" "em_topic_id m = reg_topic_id r"
      "case reg_external_id r of Some i \<Rightarrow> ec_validator c i = Inr xid
         | None \<Rightarrow> xid = ec_mapper c (reg_topic_id r) (ec_main_xid c)"
      using register_single_external_id Pair by fastforce
    have "no_wildcard xid"
      using c'(3) assms no_wildcard_mapped
      by (auto simp: ids_safe_def validate_external_id_Inr no_wildcard_def wf_registration_def wf_entity_id_def
          split: option.splits)
    then show ?thesis
      using assms(1) Pair c'(1,2) by (auto simp: ids_safe_def cache_insert_get merge_metadata_def split: option.splits)
  qed
qed

lemma ids_safe_delete: "ids_safe c \<Longrightarrow> ids_safe (snd (cache_delete tid c))"
  by (auto simp: ids_safe_def cache_delete_def delete_conv' split: option.splits if_splits)

lemma ids_safe_twin: "ids_safe c \<Longrightarrow> ids_safe (snd (cache_update_twin_data w c))"
  by (auto simp: ids_safe_def cache_update_twin_data_def cache_try_get_def update_conv' Let_def
      split: option.splits sum.splits if_splits)

interpretation ids_safe: cache_contract ids_safe wf_registration
  by unfold_locales (auto simp: ids_safe_single ids_safe_delete ids_safe_twin, auto simp: ids_safe_def)

interpretation cache_runs: step_invariant "cache_step L J S" "\<lambda>_. True"
    "\<lambda>c. topic_rule L \<and> parses_wf J \<and> ids_safe c \<and> pending_regs wf_registration (ec_pending c)" for L J S
  by unfold_locales (use ids_safe.input_keeps registration_of_message_wf in blast)

text \<open>
  C17. Over every sequence of messages and twin updates, whatever ids they propose, each entity the mapper knows is
  stored under its own topic identifier and has a SmartREST topic: the lookup of the topic does not panic, and
  neither does the topic of its children.
\<close>

theorem cloud_entities_have_topics:
  assumes "topic_rule L" "parses_wf J" "no_wildcard device_id" "topic_prefix_try_new p = Inr pfx"
    and "run (cache_step L J S) (c8y_entity_cache S device_id) inputs = Some c"
  shows "\<forall>tid e. cache_get tid c = Some e \<longrightarrow> em_topic_id (ce_metadata e) = tid
    \<and> (\<exists>t. smartrest_publish_topic_for_entity L pfx tid c = Some (Inr t))
    \<and> (\<exists>t. publish_topic_from_parent L (Some (ce_external_id e)) device_id pfx = Some t)"
proof -
  have pfx: "no_wildcard pfx"
    using assms(4) by (auto simp: topic_prefix_try_new_def no_wildcard_def split: if_splits)
  have new: "ids_safe (c8y_entity_cache S device_id) \<and> pending_regs wf_registration (ec_pending (c8y_entity_cache S device_id))"
    using assms(3)
    by (auto simp: ids_safe_def c8y_entity_cache_def entity_cache_new_def metadata_main_device_def pending_regs_def
        pending_new_def split: if_splits)
  have "ids_safe c"
    using cache_runs.run_inv [OF _ _ assms(5)] new assms(1,2) by (simp add: list_all_iff)
  with pfx show ?thesis
    by (auto simp: ids_safe_def smartrest_publish_topic_for_entity_def publish_topic_from_parent_def cache_try_get_def
        smartrest_response_topic_def c8y_to_topic_def topic_new_def ok_def topic_ruleD [OF assms(1)]
        split: option.splits entity_type.splits)
qed

definition example_cloud_message :: "entity_topic_id \<Rightarrow> jmap \<Rightarrow> cache_input" where
  "example_cloud_message tid m = CacheMessage (message_new (topic_new_unchecked (''te/'' @ tid)) (json_to_text code_serde (JObject m)))"

definition example_cloud_inputs :: "cache_input list" where
  "example_cloud_inputs =
     [example_cloud_message ''device/c/service/app'' [(''@parent'', JString ''device/c//''), (''@type'', JString ''service'')],
      example_cloud_message ''device/c//'' [(''@id'', JString ''c+1''), (''@type'', JString ''child-device'')],
      example_cloud_message ''device/c//'' [(''@id'', JString ''c1''), (''@type'', JString ''child-device'')],
      CacheTwin (twin_message_new ''device/c//'' ''x'' (JBool True))]"

text \<open>The registration with an invalid id is refused; the service waits for its parent.\<close>

theorem cloud_entities_have_topics_witness:
  "\<exists>c. run (cache_step wildcard_free_mqtt code_serde schema_new) (c8y_entity_cache schema_new ''dev'') example_cloud_inputs
      = Some c
    \<and> (\<exists>e. cache_get ''device/c/service/app'' c = Some e \<and> ce_external_id e = ''dev:device:c:service:app''
         \<and> (\<exists>t. publish_topic_from_parent wildcard_free_mqtt (Some (ce_external_id e)) ''dev'' ''c8y'' = Some t))"
proof -
  have "Option.bind (run (cache_step wildcard_free_mqtt code_serde schema_new) (c8y_entity_cache schema_new ''dev'') example_cloud_inputs)
      (\<lambda>c. map_option ce_external_id (cache_get ''device/c/service/app'' c)) = Some ''dev:device:c:service:app''"
    by code_simp
  then obtain c e where c: "run (cache_step wildcard_free_mqtt code_serde schema_new) (c8y_entity_cache schema_new ''dev'')
      example_cloud_inputs = Some c" "cache_get ''device/c/service/app'' c = Some e" "ce_external_id e = ''dev:device:c:service:app''"
    by (auto split: bind_splits)
  have rules: "topic_rule wildcard_free_mqtt" "parses_wf code_serde" "no_wildcard ''dev''"
    "topic_prefix_try_new ''c8y'' = Inr ''c8y''"
    by (simp_all add: parses_wf_def code_serde_wf topic_prefix_try_new_def no_wildcard_def)
  from cloud_entities_have_topics [OF rules c(1)] c show ?thesis by blast
qed

section \<open>External ids are exact\<close>

abbreviation plain_id :: "entity_topic_id \<Rightarrow> bool" where
  "plain_id tid \<equiv> wf_entity_id tid \<and> CHR '':'' \<notin> set tid"

lemma trim_end_wf:
  assumes "wf_entity_id tid"
  shows "tid = trim_end_matches slash tid @ replicate (3 - count_list (trim_end_matches slash tid) slash) slash"
proof -
  obtain n where n: "tid = trim_end_matches slash tid @ replicate n slash" using trim_end_append by blast
  have "count_list (replicate n slash) slash = n" by (induction n) auto
  then have "count_list (trim_end_matches slash tid) slash + n = 3"
    using assms n by (metis count_list_append wf_entity_id_def)
  with n show ?thesis by (metis add_diff_cancel_left')
qed

lemma replace_char_inj:
  assumes "b \<notin> set s" "b \<notin> set t" "replace_char a b s = replace_char a b t"
  shows "s = t"
  using assms
proof (induction s arbitrary: t)
  case (Cons x s)
  then show ?case by (cases t) (auto simp: replace_char_def split: if_splits)
qed (simp add: replace_char_def)

lemma map_to_c8y_external_id_inj:
  assumes "plain_id t" "plain_id u" "map_to_c8y_external_id t i = map_to_c8y_external_id u i"
  shows "t = u"
proof -
  have sub: "set (trim_end_matches slash x) \<subseteq> set x" for x
    by (auto simp: trim_end_matches_def dest: set_dropWhileD)
  have "trim_end_matches slash t = trim_end_matches slash u" if "\<not> is_default_main_device t" "\<not> is_default_main_device u"
  proof (rule replace_char_inj [of "CHR '':''" _ _ slash])
    show "CHR '':'' \<notin> set (trim_end_matches slash t)" "CHR '':'' \<notin> set (trim_end_matches slash u)"
      using assms(1,2) sub by blast+
    show "replace_char slash CHR '':'' (trim_end_matches slash t) = replace_char slash CHR '':'' (trim_end_matches slash u)"
      using assms(3) that by (simp add: map_to_c8y_external_id_def)
  qed
  moreover have "t = u" if "trim_end_matches slash t = trim_end_matches slash u"
    using assms(1,2) that by (metis trim_end_wf)
  ultimately show ?thesis
    using assms(3) by (auto simp: map_to_c8y_external_id_def is_default_main_device_def split: if_splits)
qed

definition ids_exact :: "entity_cache \<Rightarrow> bool" where
  "ids_exact c \<longleftrightarrow> ec_mapper c = map_to_c8y_external_id
     \<and> (\<forall>tid e. cache_get tid c = Some e \<longrightarrow> plain_id tid \<and> ce_external_id e = map_to_c8y_external_id tid (ec_main_xid c))
     \<and> (\<forall>x tid. hm_get (ec_external_ids c) x = Some tid \<longleftrightarrow>
          cache_get tid c \<noteq> None \<and> x = map_to_c8y_external_id tid (ec_main_xid c))"

definition unnamed :: "registration \<Rightarrow> bool" where
  "unnamed r \<longleftrightarrow> reg_external_id r = None \<and> plain_id (reg_topic_id r)"

lemma ids_exact_single:
  assumes "ids_exact c" "unnamed r"
  shows "ids_exact (snd (register_single_entity r c))"
proof -
  let ?tid = "reg_topic_id r"
  let ?xid = "map_to_c8y_external_id ?tid (ec_main_xid c)"
  obtain m where c': "snd (register_single_entity r c) = snd (cache_insert ?tid ?xid m c)"
    using assms by (auto simp: register_single_entity_def unnamed_def ids_exact_def Let_def)
  have inj: "tid = ?tid" if "cache_get tid c \<noteq> None" "?xid = map_to_c8y_external_id tid (ec_main_xid c)" for tid
    using assms that map_to_c8y_external_id_inj [of ?tid tid "ec_main_xid c"] by (auto simp: ids_exact_def unnamed_def)
  have "hm_get (hm_insert ?xid ?tid (ec_external_ids c)) x = Some tid \<longleftrightarrow>
      (tid = ?tid \<or> cache_get tid c \<noteq> None) \<and> x = map_to_c8y_external_id tid (ec_main_xid c)" for x tid
    using assms(1) inj by (auto simp: update_conv' ids_exact_def)
  moreover have "hm_get (ec_entities (snd (cache_insert ?tid ?xid m c))) tid \<noteq> None \<longleftrightarrow> tid = ?tid \<or> cache_get tid c \<noteq> None" for tid
    by (auto simp: cache_insert_get)
  moreover have "plain_id tid \<and> ce_external_id e = map_to_c8y_external_id tid (ec_main_xid c)"
    if "hm_get (ec_entities (snd (cache_insert ?tid ?xid m c))) tid = Some e" for tid e
    using assms that by (auto simp: cache_insert_get ids_exact_def unnamed_def split: if_splits option.splits)
  ultimately show ?thesis
    using assms(1) unfolding c' ids_exact_def by (simp del: not_None_eq)
qed

lemma ids_exact_delete:
  assumes "ids_exact c" shows "ids_exact (snd (cache_delete tid c))"
proof (cases "cache_get tid c")
  case (Some e)
  then have e: "plain_id tid" "ce_external_id e = map_to_c8y_external_id tid (ec_main_xid c)"
    using assms by (auto simp: ids_exact_def)
  have inj: "u = tid" if "cache_get u c \<noteq> None" "map_to_c8y_external_id u (ec_main_xid c) = ce_external_id e" for u
    using assms that map_to_c8y_external_id_inj [of u tid "ec_main_xid c"] e by (auto simp: ids_exact_def)
  show ?thesis
    using assms Some inj e by (auto simp: ids_exact_def cache_delete_def delete_conv' split: if_splits)
qed (use assms in \<open>simp add: cache_delete_def\<close>)

lemma ids_exact_twin: "ids_exact c \<Longrightarrow> ids_exact (snd (cache_update_twin_data w c))"
  by (auto simp: ids_exact_def cache_update_twin_data_def cache_try_get_def update_conv' Let_def
      split: option.splits sum.splits if_splits)

interpretation ids_exact: cache_contract ids_exact unnamed
  by unfold_locales (auto simp: ids_exact_single ids_exact_delete ids_exact_twin, auto simp: ids_exact_def)

fun unnamed_input :: "rumqttc \<Rightarrow> serde \<Rightarrow> cache_input \<Rightarrow> bool" where
  "unnamed_input L J (CacheMessage m) = (\<forall>r \<in> set_option (registration_of_message L J m). unnamed r)"
| "unnamed_input L J (CacheTwin w) = True"

interpretation unnamed_runs: step_invariant "cache_step L J S" "unnamed_input L J"
    "\<lambda>c. ids_exact c \<and> pending_regs unnamed (ec_pending c)" for L J S
  by unfold_locales (rule ids_exact.input_keeps, auto)

text \<open>
  As long as no registration proposes an id, and no topic identifier contains a colon, the generated
  external ids are unique: the lookup by external id finds an entity exactly when an entity with this id is
  registered, and it is this one.
\<close>

lemma generated_ids_are_exact:
  assumes "list_all (unnamed_input L J) inputs"
    and "run (cache_step L J S) (c8y_entity_cache S device_id) inputs = Some c"
  shows "(try_get_by_external_id xid c = Inr e) \<longleftrightarrow> (\<exists>tid. cache_get tid c = Some e \<and> ce_external_id e = xid)"
proof -
  have "ids_exact (c8y_entity_cache S device_id)" "pending_regs unnamed (ec_pending (c8y_entity_cache S device_id))"
    by (auto simp: ids_exact_def c8y_entity_cache_def entity_cache_new_def pending_regs_def pending_new_def
        default_main_device_def wf_entity_id_def map_to_c8y_external_id_def is_default_main_device_def split: if_splits)
  then have exact: "ids_exact c" using unnamed_runs.run_inv [OF _ assms] by blast
  then have xids: "hm_get (ec_external_ids c) xid = Some tid \<longleftrightarrow>
      (\<exists>e. cache_get tid c = Some e \<and> ce_external_id e = xid)" for tid
    by (auto simp: ids_exact_def)
  have "try_get_by_external_id xid c = Inr e \<longleftrightarrow> (\<exists>tid. hm_get (ec_external_ids c) xid = Some tid \<and> cache_get tid c = Some e)"
    by (auto simp: try_get_by_external_id_def get_by_external_id_def split: option.splits bind_splits)
  also have "\<dots> \<longleftrightarrow> (\<exists>tid. cache_get tid c = Some e \<and> ce_external_id e = xid)"
    using xids by (metis option.inject)
  finally show ?thesis .
qed

definition example_unnamed_inputs :: "cache_input list" where
  "example_unnamed_inputs =
     [example_cloud_message ''device/c/service/app'' [(''@parent'', JString ''device/c//''), (''@type'', JString ''service'')],
      example_cloud_message ''device/c//'' [(''@type'', JString ''child-device'')]]"

lemma generated_ids_are_exact_instance:
  "\<exists>c e. run (cache_step wildcard_free_mqtt code_serde schema_new) (c8y_entity_cache schema_new ''dev'') example_unnamed_inputs
      = Some c
    \<and> try_get_by_external_id ''dev:device:c'' c = Inr e \<and> em_type (ce_metadata e) = ChildDevice"
proof -
  have "Option.bind (run (cache_step wildcard_free_mqtt code_serde schema_new) (c8y_entity_cache schema_new ''dev'') example_unnamed_inputs)
      (\<lambda>c. map_option (\<lambda>e. (ce_external_id e, em_type (ce_metadata e))) (cache_get ''device/c//'' c))
    = Some (''dev:device:c'', ChildDevice)"
    by code_simp
  then obtain c e where c: "run (cache_step wildcard_free_mqtt code_serde schema_new) (c8y_entity_cache schema_new ''dev'')
      example_unnamed_inputs = Some c" "cache_get ''device/c//'' c = Some e" "ce_external_id e = ''dev:device:c''"
      "em_type (ce_metadata e) = ChildDevice"
    by (auto split: bind_splits)
  have "list_all (unnamed_input wildcard_free_mqtt code_serde) example_unnamed_inputs"
    unfolding unnamed_def wf_entity_id_def by code_simp
  from generated_ids_are_exact [OF this c(1), of "''dev:device:c''" e] c show ?thesis by blast
qed

section \<open>Parents that are not registered\<close>

text \<open>
  A service that is registered without a parent, below a device the mapper does not know, is accepted, and
  the parent of this service is then looked up in vain: the lookup of its external id panics.
\<close>

lemma service_of_unknown_device_panics:
  assumes "reg_type r = Service" "reg_parent r = None" "reg_external_id r = None" "cache_get (reg_topic_id r) c = None"
    and "default_service_parent_identifier (reg_topic_id r) = Some p" "p \<noteq> reg_topic_id r" "cache_get p c = None"
    and "cache_get (ec_main_tid c) c \<noteq> None" "hm_get (ps_orphans (ec_pending c)) (reg_topic_id r) = None"
  shows "\<exists>d c'. cache_register_entity L r c = Some (Inr [d], c') \<and> rd_reg d = r
    \<and> parent_external_id (reg_topic_id r) c' = None"
proof -
  let ?xid = "ec_mapper c (reg_topic_id r) (ec_main_xid c)"
  define m where "m = \<lparr>em_topic_id = reg_topic_id r, em_parent = Some p, em_type = Service,
     em_external_id = Some ?xid, em_twin_data = reg_twin_data r\<rparr>"
  obtain c1 where c1: "register_single_entity r c = (Inr Inserted, c1)" "ec_pending c1 = ec_pending c"
      "hm_get (ec_entities c1) = (hm_get (ec_entities c))(reg_topic_id r \<mapsto> \<lparr>ce_external_id = ?xid, ce_metadata = m\<rparr>)"
    using assms by (simp add: register_single_entity_def cache_insert_def cache_parent_def update_conv' m_def)
  obtain d ps where ps: "take_cached_entity_data L r (ec_pending c) = (d, ps)" by fastforce
  then have "rd_reg d = r" "ps_orphans ps = ps_orphans (ec_pending c)"
    by (auto simp: take_cached_entity_data_def Let_def dest: take_telemetryD split: option.splits prod.splits)
  moreover from this have "take_cached_child_entities_data L (reg_topic_id r) ps = Some ([], ps)"
    using assms(9) by (simp add: take_cached_child_entities_data_def take_orphans_def)
  ultimately have "cache_register_entity L r c = Some (Inr [d], c1\<lparr>ec_pending := ps\<rparr>)" "rd_reg d = r"
    using assms(2,8) c1 ps by (auto simp: cache_register_entity_def hm_contains_def)
  moreover have "parent_external_id (reg_topic_id r) (c1\<lparr>ec_pending := ps\<rparr>) = None"
    using assms(6,7) c1(3) by (simp add: parent_external_id_def cache_try_get_def try_get_external_id_def m_def)
  ultimately show ?thesis by blast
qed

lemma service_of_unknown_device_panics_instance:
  "\<exists>d c'. cache_register_entity wildcard_free_mqtt (registration_new_custom ''device/unknown/service/app'' Service)
       (c8y_entity_cache schema_new ''dev'') = Some (Inr [d], c')
    \<and> parent_external_id ''device/unknown/service/app'' c' = None"
proof -
  let ?r = "registration_new_custom ''device/unknown/service/app'' Service" and ?c = "c8y_entity_cache schema_new ''dev''"
  have facts: "reg_type ?r = Service" "reg_parent ?r = None" "reg_external_id ?r = None" "cache_get (reg_topic_id ?r) ?c = None"
    "default_service_parent_identifier (reg_topic_id ?r) = Some ''device/unknown//''" "''device/unknown//'' \<noteq> reg_topic_id ?r"
    "cache_get ''device/unknown//'' ?c = None" "cache_get (ec_main_tid ?c) ?c \<noteq> None"
    "hm_get (ps_orphans (ec_pending ?c)) (reg_topic_id ?r) = None" "reg_topic_id ?r = ''device/unknown/service/app''"
    by code_simp+
  from service_of_unknown_device_panics [OF facts(1-9), of wildcard_free_mqtt] facts(10) show ?thesis by auto
qed

end
