(* ===== verification/Smartrest.thy ===== *)
theory Smartrest
  imports Cloud_Entities
begin

text \<open>
  SmartREST, the CSV messages of Cumulocity (\<^verbatim>\<open>c8y_api/src/smartrest\<close>): the sanitising of texts and the splitting
  of messages (\<^verbatim>\<open>message.rs\<close>), payloads (\<^verbatim>\<open>payload.rs\<close>), the status of operations and software lists
  (\<^verbatim>\<open>smartrest_serializer.rs\<close>), and the messages that create devices and services (\<^verbatim>\<open>inventory.rs\<close>).  The
  \<^verbatim>\<open>csv\<close> package is a parameter.
\<close>

section \<open>Texts\<close>

text \<open>
  A \<^verbatim>\<open>&str\<close> is a byte string in UTF-8; its characters are the groups of bytes that the leading bytes announce.
\<close>

abbreviation byte :: "char \<Rightarrow> nat" where "byte \<equiv> of_char"

definition utf8_tail :: "char \<Rightarrow> nat" where
  "utf8_tail b = (if byte b < 0xC0 then 0 else if byte b < 0xE0 then 1 else if byte b < 0xF0 then 2 else 3)"

fun chars :: "string \<Rightarrow> string list" where
  "chars [] = []"
| "chars (b # bs) = (b # take (utf8_tail b) bs) # chars (drop (utf8_tail b) bs)"

definition continuation :: "char \<Rightarrow> bool" where
  "continuation b \<longleftrightarrow> 0x80 \<le> byte b \<and> byte b < 0xC0"

fun utf8_char :: "string \<Rightarrow> bool" where
  "utf8_char [a] = (byte a < 0x80)"
| "utf8_char [a, b] = (0xC2 \<le> byte a \<and> byte a < 0xE0 \<and> continuation b)"
| "utf8_char [a, b, c] = (0xE0 \<le> byte a \<and> byte a < 0xF0 \<and> continuation b \<and> continuation c
     \<and> (byte a = 0xE0 \<longrightarrow> 0xA0 \<le> byte b) \<and> (byte a = 0xED \<longrightarrow> byte b < 0xA0))"
| "utf8_char [a, b, c, d] = (0xF0 \<le> byte a \<and> byte a \<le> 0xF4 \<and> continuation b \<and> continuation c \<and> continuation d
     \<and> (byte a = 0xF0 \<longrightarrow> 0x90 \<le> byte b) \<and> (byte a = 0xF4 \<longrightarrow> byte b < 0x90))"
| "utf8_char _ = False"

definition from_utf8 :: "string \<Rightarrow> string option" where
  "from_utf8 s = (if list_all utf8_char (chars s) then Some s else None)"

fun is_control :: "string \<Rightarrow> bool" where
  "is_control [a] = (byte a < 0x20 \<or> byte a = 0x7F)"
| "is_control [a, b] = (byte a = 0xC2 \<and> byte b < 0xA0)"
| "is_control _ = False"

fun is_whitespace :: "string \<Rightarrow> bool" where
  "is_whitespace [a] = (9 \<le> byte a \<and> byte a \<le> 13 \<or> byte a = 32)"
| "is_whitespace [a, b] = (byte a = 0xC2 \<and> byte b \<in> {0x85, 0xA0})"
| "is_whitespace [a, b, c] =
     (byte a = 0xE1 \<and> byte b = 0x9A \<and> byte c = 0x80
      \<or> byte a = 0xE2 \<and> byte b = 0x80 \<and> (byte c \<le> 0x8A \<or> byte c \<in> {0xA8, 0xA9, 0xAF})
      \<or> byte a = 0xE2 \<and> byte b = 0x81 \<and> byte c = 0x9F
      \<or> byte a = 0xE3 \<and> byte b = 0x80 \<and> byte c = 0x80)"
| "is_whitespace _ = False"

definition trim_end :: "string \<Rightarrow> string" where
  "trim_end s = concat (rev (dropWhile is_whitespace (rev (chars s))))"

text \<open>\<^verbatim>\<open>str::lines\<close>: a final line feed ends the last line, and a carriage return before a line feed is dropped.\<close>

abbreviation newline :: char where "newline \<equiv> CHR 0x0A"

definition strip_cr :: "string \<Rightarrow> string" where
  "strip_cr s = (case strip_suffix [CHR 0x0D] s of Some r \<Rightarrow> r | None \<Rightarrow> s)"

definition lines :: "string \<Rightarrow> string list" where
  "lines s = (let parts = split_on newline s in
     map strip_cr (butlast parts) @ (if last parts = [] then [] else [last parts]))"

text \<open>Slices, which panic unless they start and end between two characters of the text.\<close>

definition is_char_boundary :: "string \<Rightarrow> nat \<Rightarrow> bool" where
  "is_char_boundary s i \<longleftrightarrow> i = 0 \<or> i = length s \<or> i < length s \<and> \<not> continuation (s ! i)"

definition str_slice :: "nat \<Rightarrow> nat \<Rightarrow> string \<Rightarrow> string panics" where
  "str_slice from to s =
     (if from \<le> to \<and> to \<le> length s \<and> is_char_boundary s from \<and> is_char_boundary s to
      then Some (take (to - from) (drop from s)) else None)"

section \<open>Messages\<close>

abbreviation MAX_PAYLOAD_LIMIT_IN_BYTES :: nat where "MAX_PAYLOAD_LIMIT_IN_BYTES \<equiv> 16000"

definition get_smartrest_device_id :: "string \<Rightarrow> string option" where
  "get_smartrest_device_id payload = (case split_on CHR '','' payload of _ # device_id # _ \<Rightarrow> Some device_id | _ \<Rightarrow> None)"

definition get_smartrest_template_id :: "string \<Rightarrow> string" where
  "get_smartrest_template_id payload = hd (split_on CHR '','' payload)"

definition allowed_char :: "string \<Rightarrow> bool" where
  "allowed_char c \<longleftrightarrow> c = [CHR 0x0D] \<or> c = [newline] \<or> c = [CHR 0x09] \<or> \<not> is_control c"

fun scan_sizes :: "nat \<Rightarrow> string list \<Rightarrow> (nat \<times> string) list" where
  "scan_sizes bytes_count [] = []"
| "scan_sizes bytes_count (c # cs) = (bytes_count + length c, c) # scan_sizes (bytes_count + length c) cs"

definition sanitize_for_smartrest :: "string \<Rightarrow> nat \<Rightarrow> string" where
  "sanitize_for_smartrest input max_size =
     concat (map snd (takeWhile (\<lambda>(size, _). size \<le> max_size) (scan_sizes 0 (filter allowed_char (chars input)))))"

definition sanitize_bytes_for_smartrest :: "string \<Rightarrow> nat \<Rightarrow> string" where
  "sanitize_bytes_for_smartrest input max_size =
     sanitize_for_smartrest (case from_utf8 input of Some s \<Rightarrow> s | None \<Rightarrow> []) max_size"

definition get_failure_reason_for_smartrest :: "string \<Rightarrow> nat \<Rightarrow> string" where
  "get_failure_reason_for_smartrest input max_size =
     (let input_string = (case from_utf8 input of Some s \<Rightarrow> s | None \<Rightarrow> []);
          trimmed = lines (trim_end input_string);
          last_line = (if trimmed = [] then [] else last trimmed)
      in if length (lines input_string) \<le> 1 then sanitize_for_smartrest last_line max_size
         else sanitize_for_smartrest (last_line @ [newline, newline] @ input_string) max_size)"

text \<open>The loop that splits messages: the characters of the message so far, the messages, and the two flags.\<close>

record split_state =
  ss_stack :: string
  ss_messages :: "string list"
  ss_is_inside :: bool
  ss_maybe_escaped :: bool

definition split_char :: "char \<Rightarrow> split_state \<Rightarrow> split_state" where
  "split_char c s =
     (if c = CHR 0x5C then s\<lparr>ss_stack := ss_stack s @ [c], ss_maybe_escaped := True\<rparr>
      else if c = CHR 0x22 then
        (if ss_maybe_escaped s then s\<lparr>ss_stack := butlast (ss_stack s) @ [c], ss_maybe_escaped := False\<rparr>
         else s\<lparr>ss_stack := ss_stack s @ [c], ss_is_inside := \<not> ss_is_inside s, ss_maybe_escaped := False\<rparr>)
      else if c = newline then
        (if ss_is_inside s then s\<lparr>ss_stack := ss_stack s @ [c], ss_maybe_escaped := False\<rparr>
         else s\<lparr>ss_messages := ss_messages s @ [ss_stack s], ss_stack := [], ss_maybe_escaped := False\<rparr>)
      else s\<lparr>ss_stack := ss_stack s @ [c], ss_maybe_escaped := False\<rparr>)"

definition collect_smartrest_messages :: "string \<Rightarrow> string list" where
  "collect_smartrest_messages data =
     (let s = fold split_char data
        \<lparr>ss_stack = [], ss_messages = [], ss_is_inside = False, ss_maybe_escaped = False\<rparr>
      in if ss_stack s \<noteq> [] then ss_messages s @ [ss_stack s] else ss_messages s)"

section \<open>Payloads\<close>

text \<open>
  The \<^verbatim>\<open>csv\<close> package: the text of a record with its final line feed, with the fields quoted if needed or always;
  and the records of a text, none for one that cannot be read.
\<close>

record csv_lib =
  write_record :: "string list \<Rightarrow> string"
  write_quoted :: "string list \<Rightarrow> string"
  read_records :: "string \<Rightarrow> string list option list"

datatype smartrest_payload_error = TooLarge nat | SerializeError

definition fields_to_csv_string :: "csv_lib \<Rightarrow> string list \<Rightarrow> string" where
  "fields_to_csv_string C record = butlast (write_record C record)"

definition payload_serialize :: "csv_lib \<Rightarrow> string list \<Rightarrow> smartrest_payload_error + string" where
  "payload_serialize C record =
     (let payload = butlast (write_record C record) in
      if MAX_PAYLOAD_LIMIT_IN_BYTES < length payload then Inl (TooLarge (length payload)) else Inr payload)"

text \<open>A payload that the code expects to be within the limit.\<close>

definition expect_payload :: "csv_lib \<Rightarrow> string list \<Rightarrow> string panics" where
  "expect_payload C record = ok (payload_serialize C record)"

definition request_pending_operations :: "csv_lib \<Rightarrow> string panics" where
  "request_pending_operations C = expect_payload C [decimal 500]"

definition set_operation_executing_with_name :: "csv_lib \<Rightarrow> string \<Rightarrow> string panics" where
  "set_operation_executing_with_name C operation = expect_payload C [decimal 501, operation]"

definition set_operation_executing_with_id :: "csv_lib \<Rightarrow> string \<Rightarrow> string panics" where
  "set_operation_executing_with_id C op_id = expect_payload C [decimal 504, op_id]"

definition fail_operation :: "csv_lib \<Rightarrow> nat \<Rightarrow> string \<Rightarrow> string \<Rightarrow> string panics" where
  "fail_operation C template_id operation reason =
     (if length reason \<le> 500 then expect_payload C [decimal template_id, operation, reason]
      else do { cut \<leftarrow> str_slice 0 500 reason; expect_payload C [decimal template_id, operation, cut] })"

definition fail_operation_with_name :: "csv_lib \<Rightarrow> string \<Rightarrow> string \<Rightarrow> string panics" where
  "fail_operation_with_name C operation reason = fail_operation C 502 operation reason"

definition fail_operation_with_id :: "csv_lib \<Rightarrow> string \<Rightarrow> string \<Rightarrow> string panics" where
  "fail_operation_with_id C op_id reason = fail_operation C 505 op_id reason"

definition succeed_static_operation :: "csv_lib \<Rightarrow> nat \<Rightarrow> string \<Rightarrow> string option \<Rightarrow> string panics" where
  "succeed_static_operation C template_id operation payload =
     expect_payload C ([decimal template_id, operation] @ (case payload of Some p \<Rightarrow> [p] | None \<Rightarrow> []))"

definition succeed_static_operation_with_name :: "csv_lib \<Rightarrow> string \<Rightarrow> string option \<Rightarrow> string panics" where
  "succeed_static_operation_with_name C operation payload = succeed_static_operation C 503 operation payload"

definition succeed_static_operation_with_id :: "csv_lib \<Rightarrow> string \<Rightarrow> string option \<Rightarrow> string panics" where
  "succeed_static_operation_with_id C op_id payload = succeed_static_operation C 506 op_id payload"

datatype text_or_csv = Text string | Csv string

datatype smartrest_serializer_error = InvalidCsv

definition parse_single_record :: "csv_lib \<Rightarrow> string \<Rightarrow> string list option" where
  "parse_single_record C csv = (case read_records C csv of [Some record] \<Rightarrow> Some record | _ \<Rightarrow> None)"

fun reason_fields :: "csv_lib \<Rightarrow> text_or_csv \<Rightarrow> string list option" where
  "reason_fields C (Text t) = Some [t]"
| "reason_fields C (Csv csv) = parse_single_record C csv"

definition trim_indicator :: string where
  "trim_indicator = ''...<trimmed>''"

definition quote :: char where "quote = CHR 0x22"

text \<open>The trimming of a reason that is too long, after its quotes have been escaped.\<close>

definition trim_reason :: "csv_lib \<Rightarrow> string \<Rightarrow> string list \<Rightarrow> string panics" where
  "trim_reason C pfx fs = do {
     let reserved = length pfx + length trim_indicator + 3;
     if MAX_PAYLOAD_LIMIT_IN_BYTES < reserved then None
     else do {
       let max_result_limit = MAX_PAYLOAD_LIMIT_IN_BYTES - reserved;
       let reason = butlast (write_quoted C fs);
       let reason = (case strip_prefix [quote] reason of Some r \<Rightarrow> r | None \<Rightarrow> reason);
       let reason = (case strip_suffix [quote] reason of Some r \<Rightarrow> r | None \<Rightarrow> reason);
       if max_result_limit = 0 then None
       else do {
         edge \<leftarrow> str_slice (max_result_limit - 1) (max_result_limit + 1) reason;
         let max_result_limit = (if edge = [quote, quote] then max_result_limit - 1 else max_result_limit);
         trimmed_reason \<leftarrow> str_slice 0 max_result_limit reason;
         Some (pfx @ '','' @ [quote] @ trimmed_reason @ trim_indicator @ [quote]) } } }"

definition succeed_operation ::
  "csv_lib \<Rightarrow> nat \<Rightarrow> string \<Rightarrow> text_or_csv \<Rightarrow> (smartrest_serializer_error + string) panics" where
  "succeed_operation C template_id operation reason =
     (case reason_fields C reason of
        None \<Rightarrow> Some (Inl InvalidCsv)
      | Some fs \<Rightarrow>
          (case payload_serialize C ([decimal template_id, operation] @ fs) of
             Inr payload \<Rightarrow> Some (Inr payload)
           | Inl _ \<Rightarrow> do {
               pfx \<leftarrow> ok (payload_serialize C [decimal template_id, operation]);
               payload \<leftarrow> trim_reason C pfx fs;
               Some (Inr payload) }))"

definition succeed_operation_with_name ::
  "csv_lib \<Rightarrow> string \<Rightarrow> text_or_csv \<Rightarrow> (smartrest_serializer_error + string) panics" where
  "succeed_operation_with_name C operation reason = succeed_operation C 503 operation reason"

definition succeed_operation_with_id ::
  "csv_lib \<Rightarrow> string \<Rightarrow> text_or_csv \<Rightarrow> (smartrest_serializer_error + string) panics" where
  "succeed_operation_with_id C operation reason = succeed_operation C 506 operation reason"

datatype c8y_operation =
    C8ySoftwareUpdate | C8yLogFileRequest | C8yRestartRequest | C8yUploadConfigFile | C8yDownloadConfigFile
  | C8yFirmware | C8yDeviceProfile | C8yCustom string

fun c8y_operation_name :: "c8y_operation \<Rightarrow> string" where
  "c8y_operation_name C8ySoftwareUpdate = ''c8y_SoftwareUpdate''"
| "c8y_operation_name C8yLogFileRequest = ''c8y_LogfileRequest''"
| "c8y_operation_name C8yRestartRequest = ''c8y_Restart''"
| "c8y_operation_name C8yUploadConfigFile = ''c8y_UploadConfigFile''"
| "c8y_operation_name C8yDownloadConfigFile = ''c8y_DownloadConfigFile''"
| "c8y_operation_name C8yFirmware = ''c8y_Firmware''"
| "c8y_operation_name C8yDeviceProfile = ''c8y_DeviceProfile''"
| "c8y_operation_name (C8yCustom operation) = operation"

definition declare_supported_operations :: "csv_lib \<Rightarrow> string list \<Rightarrow> string panics" where
  "declare_supported_operations C ops = expect_payload C (decimal 114 # ops)"

section \<open>Software lists\<close>

record software_module =
  sm_type :: "string option"
  sm_name :: string
  sm_version :: "string option"
  sm_url :: "string option"

record software_list =
  sl_plugin_type :: string
  sl_modules :: "software_module list"

text \<open>The modules of a software list command, each with the type of its list.\<close>

definition software_modules :: "software_list list \<Rightarrow> software_module list" where
  "software_modules sls = concat (map (\<lambda>l. map (\<lambda>m. m\<lparr>sm_type := Some (sl_plugin_type l)\<rparr>) (sl_modules l)) sls)"

record software_item =
  si_name :: string
  si_version :: string
  si_type :: string
  si_url :: string

definition software_item_of_module :: "software_module \<Rightarrow> software_item" where
  "software_item_of_module m =
     \<lparr>si_name = sm_name m, si_version = (case sm_version m of Some v \<Rightarrow> v | None \<Rightarrow> []),
      si_type = (case sm_type m of Some t \<Rightarrow> t | None \<Rightarrow> ''default''),
      si_url = (case sm_url m of Some u \<Rightarrow> u | None \<Rightarrow> [])\<rparr>"

datatype advanced_software_list = SetList "software_item list" | AppendList "software_item list"

definition create_software_list :: "nat \<Rightarrow> software_item list \<Rightarrow> string list" where
  "create_software_list i items =
     (if items = [] then [decimal i, [], [], [], []]
      else decimal i # concat (map (\<lambda>item. [si_name item, si_version item, si_type item, si_url item]) items))"

fun software_list_fields :: "advanced_software_list \<Rightarrow> string list" where
  "software_list_fields (SetList items) = create_software_list 140 items"
| "software_list_fields (AppendList items) = create_software_list 141 items"

definition software_list_payload :: "csv_lib \<Rightarrow> advanced_software_list \<Rightarrow> string" where
  "software_list_payload C l = fields_to_csv_string C (software_list_fields l)"

text \<open>\<^verbatim>\<open>slice::chunks\<close>, which panics on a size of zero.\<close>

function chunks :: "nat \<Rightarrow> 'a list \<Rightarrow> 'a list list" where
  "chunks n xs = (if xs = [] \<or> n = 0 then [] else take n xs # chunks n (drop n xs))"
  by pat_completeness auto
termination by (relation "measure (\<lambda>(n, xs). length xs)") auto

declare chunks.simps [simp del]

definition software_list_messages :: "nat \<Rightarrow> software_list list \<Rightarrow> advanced_software_list list panics" where
  "software_list_messages chunk_size sls =
     (let modules = software_modules sls in
      if modules = [] then Some [SetList []]
      else if chunk_size = 0 then None
      else (case chunks chunk_size (map software_item_of_module modules) of
              [] \<Rightarrow> Some []
            | first # rest \<Rightarrow> Some (SetList first # map AppendList rest)))"

definition get_advanced_software_list_payloads :: "csv_lib \<Rightarrow> software_list list \<Rightarrow> nat \<Rightarrow> string list panics" where
  "get_advanced_software_list_payloads C sls chunk_size =
     map_option (map (software_list_payload C)) (software_list_messages chunk_size sls)"

section \<open>Devices and services\<close>

datatype invalid_value = InvalidValueError string string

definition child_device_creation_message ::
  "rumqttc \<Rightarrow> csv_lib \<Rightarrow> string \<Rightarrow> string option \<Rightarrow> string option \<Rightarrow> string option \<Rightarrow> string \<Rightarrow> string
     \<Rightarrow> (invalid_value + mqtt_message) panics" where
  "child_device_creation_message L C child_id device_name device_type parent main_device_id pfx =
     (if child_id = [] then Some (Inl (InvalidValueError ''child_id'' child_id))
      else if device_name = Some [] then Some (Inl (InvalidValueError ''device_name'' []))
      else if device_type = Some [] then Some (Inl (InvalidValueError ''device_type'' []))
      else do {
        payload \<leftarrow> expect_payload C [decimal 101, child_id,
          case device_name of Some n \<Rightarrow> n | None \<Rightarrow> child_id,
          case device_type of Some t \<Rightarrow> t | None \<Rightarrow> ''thin-edge.io-child''];
        t \<leftarrow> publish_topic_from_parent L parent main_device_id pfx;
        Some (Inr (message_new t payload)) })"

definition service_creation_message_payload ::
  "csv_lib \<Rightarrow> string \<Rightarrow> string \<Rightarrow> string \<Rightarrow> string \<Rightarrow> (invalid_value + string) panics" where
  "service_creation_message_payload C service_id service_name service_type service_status =
     (if service_id = [] then Some (Inl (InvalidValueError ''service_id'' service_id))
      else if service_name = [] then Some (Inl (InvalidValueError ''service_name'' service_name))
      else if service_type = [] then Some (Inl (InvalidValueError ''service_type'' service_type))
      else if service_status = [] then Some (Inl (InvalidValueError ''service_status'' service_status))
      else map_option Inr (expect_payload C [decimal 102, service_id, service_type, service_name, service_status]))"

definition service_creation_message ::
  "rumqttc \<Rightarrow> csv_lib \<Rightarrow> string \<Rightarrow> string \<Rightarrow> string \<Rightarrow> string \<Rightarrow> string option \<Rightarrow> string \<Rightarrow> string
     \<Rightarrow> (invalid_value + mqtt_message) panics" where
  "service_creation_message L C service_id service_name service_type service_status parent main_device_id pfx = do {
     t \<leftarrow> publish_topic_from_parent L parent main_device_id pfx;
     payload \<leftarrow> service_creation_message_payload C service_id service_name service_type service_status;
     Some (case payload of Inl err \<Rightarrow> Inl err | Inr p \<Rightarrow> Inr (message_new t p)) }"

definition set_c8y_config_fragment :: "csv_lib \<Rightarrow> string \<Rightarrow> string \<Rightarrow> string option \<Rightarrow> string panics" where
  "set_c8y_config_fragment C config_type remote_url name =
     expect_payload C [decimal 120, config_type, remote_url, case name of Some n \<Rightarrow> n | None \<Rightarrow> []]"

definition set_interval_message :: "rumqttc \<Rightarrow> csv_lib \<Rightarrow> c8y_topic \<Rightarrow> nat \<Rightarrow> string \<Rightarrow> mqtt_message panics" where
  "set_interval_message L C t interval_secs pfx = do {
     t \<leftarrow> ok (c8y_to_topic L pfx t);
     payload \<leftarrow> expect_payload C [decimal 117, decimal (interval_secs div 60)];
     Some (message_new t payload) }"

definition set_c8y_profile_target_payload :: "csv_lib \<Rightarrow> bool \<Rightarrow> string panics" where
  "set_c8y_profile_target_payload C profile_executed =
     expect_payload C [decimal 121, if profile_executed then ''true'' else ''false'']"

section \<open>Sanitised texts\<close>

lemma chars_concat [simp]: "concat (chars s) = s"
  by (induction s rule: chars.induct) simp_all

lemma utf8_char_cases:
  assumes "utf8_char c"
  obtains b bs where "c = b # bs" "utf8_tail b = length bs"
  using assms by (cases c rule: utf8_char.cases) (auto simp: utf8_tail_def)

lemma chars_utf8: "list_all utf8_char cs \<Longrightarrow> chars (concat cs) = cs"
proof (induction cs)
  case (Cons c cs)
  then obtain b bs where "c = b # bs" "utf8_tail b = length bs" by (auto elim: utf8_char_cases)
  with Cons show ?case by simp
qed simp

lemma scan_sizes_take:
  "\<exists>k \<le> length cs. map snd (takeWhile (\<lambda>(size, _). size \<le> m) (scan_sizes n cs)) = take k cs
    \<and> (n \<le> m \<longrightarrow> n + length (concat (take k cs)) \<le> m)
    \<and> (k < length cs \<longrightarrow> m < n + length (concat (take (Suc k) cs)))"
proof (induction cs arbitrary: n)
  case (Cons c cs)
  show ?case
  proof (cases "n + length c \<le> m")
    case True
    from Cons.IH [of "n + length c"] obtain k where "k \<le> length cs"
      "map snd (takeWhile (\<lambda>(size, _). size \<le> m) (scan_sizes (n + length c) cs)) = take k cs"
      "n + length c + length (concat (take k cs)) \<le> m"
      "k < length cs \<longrightarrow> m < n + length c + length (concat (take (Suc k) cs))"
      using True by auto
    with True show ?thesis by (intro exI [of _ "Suc k"]) (simp add: add.assoc)
  qed (intro exI [of _ 0], simp)
qed simp

lemma sanitize_take:
  obtains k where "sanitize_for_smartrest s m = concat (take k (filter allowed_char (chars s)))"
    "length (sanitize_for_smartrest s m) \<le> m"
    "k < length (filter allowed_char (chars s)) \<Longrightarrow> m < length (concat (take (Suc k) (filter allowed_char (chars s))))"
proof -
  obtain k where "map snd (takeWhile (\<lambda>(size, _). size \<le> m) (scan_sizes 0 (filter allowed_char (chars s))))
        = take k (filter allowed_char (chars s))"
      "length (concat (take k (filter allowed_char (chars s)))) \<le> m"
      "k < length (filter allowed_char (chars s)) \<longrightarrow> m < length (concat (take (Suc k) (filter allowed_char (chars s))))"
    using scan_sizes_take [of "filter allowed_char (chars s)" m 0] by (metis add_0 zero_le)
  then show thesis using that [of k] unfolding sanitize_for_smartrest_def by metis
qed

lemma sanitize_length: "length (sanitize_for_smartrest s m) \<le> m"
  using sanitize_take [of s m] by blast

text \<open>
  C19. A sanitised text fits into the limit, is valid UTF-8, and has no control characters but line breaks and tabs:
  its characters are the longest sequence of the allowed characters of the input, from its start, that fits.  So does
  a failure reason.
\<close>

theorem sanitized_texts_fit:
  assumes "from_utf8 s = Some s"
  shows "let allowed = filter allowed_char (chars s); cs = chars (sanitize_for_smartrest s m) in
    length (sanitize_for_smartrest s m) \<le> m \<and> length (get_failure_reason_for_smartrest s m) \<le> m
    \<and> from_utf8 (sanitize_for_smartrest s m) \<noteq> None
    \<and> cs = take (length cs) allowed
    \<and> (cs \<noteq> allowed \<longrightarrow> m < length (concat (take (Suc (length cs)) allowed)))"
proof -
  let ?allowed = "filter allowed_char (chars s)"
  obtain k where k: "sanitize_for_smartrest s m = concat (take k ?allowed)" "length (sanitize_for_smartrest s m) \<le> m"
    "k < length ?allowed \<Longrightarrow> m < length (concat (take (Suc k) ?allowed))"
    using sanitize_take [of s m] by blast
  have valid: "list_all utf8_char ?allowed"
    using assms by (auto simp: from_utf8_def list_all_iff split: if_splits)
  then have "list_all utf8_char (take k ?allowed)" by (auto simp: list_all_iff dest: in_set_takeD)
  then have cs: "chars (sanitize_for_smartrest s m) = take k ?allowed" by (simp add: k(1) chars_utf8)
  have "length (get_failure_reason_for_smartrest s m) \<le> m"
    unfolding get_failure_reason_for_smartrest_def Let_def by (simp add: sanitize_length)
  then show ?thesis
    using k cs \<open>list_all utf8_char (take k ?allowed)\<close>
    by (cases "k < length ?allowed") (auto simp: from_utf8_def Let_def min_def)
qed

theorem sanitized_texts_fit_witness:
  "from_utf8 [CHR ''a'', CHR 0x07, CHR 0xC3, CHR 0xA9] = Some [CHR ''a'', CHR 0x07, CHR 0xC3, CHR 0xA9]
   \<and> sanitize_for_smartrest [CHR ''a'', CHR 0x07, CHR 0xC3, CHR 0xA9] 2 = ''a''
   \<and> length (get_failure_reason_for_smartrest [CHR ''a'', CHR 0x07, CHR 0xC3, CHR 0xA9] 2) \<le> 2"
proof -
  let ?s = "[CHR ''a'', CHR 0x07, CHR 0xC3, CHR 0xA9]"
  have u: "from_utf8 ?s = Some ?s" by code_simp
  have "sanitize_for_smartrest ?s 2 = ''a''" by code_simp
  with u sanitized_texts_fit [OF u, of 2] show ?thesis by (simp add: Let_def)
qed

section \<open>Messages are split\<close>

text \<open>What the \<^verbatim>\<open>csv\<close> package documents: fields are quoted when they contain a separator, a quote or a line break.\<close>

definition needs_quotes :: "string \<Rightarrow> bool" where
  "needs_quotes f \<longleftrightarrow> (\<exists>c \<in> {CHR '','', quote, CHR 0x0D, newline}. c \<in> set f)"

definition csv_quote :: "string \<Rightarrow> string" where
  "csv_quote f = quote # concat (map (\<lambda>c. if c = quote then [quote, quote] else [c]) f) @ [quote]"

definition csv_rule :: "csv_lib \<Rightarrow> bool" where
  "csv_rule C \<longleftrightarrow>
     (\<forall>fs. fs \<noteq> [] \<longrightarrow> fs \<noteq> [[]] \<longrightarrow>
        write_record C fs = join_with CHR '','' (map (\<lambda>f. if needs_quotes f then csv_quote f else f) fs) @ [newline])
     \<and> (\<forall>fs. fs \<noteq> [] \<longrightarrow> write_quoted C fs = join_with CHR '','' (map csv_quote fs) @ [newline])"

text \<open>Whether a quoted block is open after a text; texts with a backslash or with a line break between blocks are excluded.\<close>

fun scan_quotes :: "bool \<Rightarrow> string \<Rightarrow> bool option" where
  "scan_quotes q [] = Some q"
| "scan_quotes q (c # cs) =
     (if c = CHR 0x5C \<or> c = newline \<and> \<not> q then None
      else scan_quotes (if c = quote then \<not> q else q) cs)"

lemma scan_quotes_append: "scan_quotes q (a @ b) = Option.bind (scan_quotes q a) (\<lambda>q. scan_quotes q b)"
  by (induction q a rule: scan_quotes.induct) auto

lemma scan_quotes_plain: "\<not> needs_quotes f \<Longrightarrow> CHR 0x5C \<notin> set f \<Longrightarrow> scan_quotes q f = Some q"
  by (induction f) (auto simp: needs_quotes_def)

lemma scan_quotes_escaped:
  "CHR 0x5C \<notin> set f \<Longrightarrow> scan_quotes True (concat (map (\<lambda>c. if c = quote then [quote, quote] else [c]) f)) = Some True"
  by (induction f) (auto simp: quote_def)

lemma scan_quotes_csv: "CHR 0x5C \<notin> set f \<Longrightarrow> scan_quotes False (csv_quote f) = Some False"
  using scan_quotes_escaped [of f] by (simp add: csv_quote_def scan_quotes_append) (simp add: quote_def)

lemma scan_quotes_record:
  "fs \<noteq> [] \<Longrightarrow> \<forall>f \<in> set fs. CHR 0x5C \<notin> set f \<Longrightarrow>
     scan_quotes False (join_with CHR '','' (map (\<lambda>f. if needs_quotes f then csv_quote f else f) fs)) = Some False"
proof (induction fs)
  case (Cons f fs)
  have "scan_quotes False (if needs_quotes f then csv_quote f else f) = Some False"
    using Cons.prems by (simp add: scan_quotes_csv scan_quotes_plain)
  with Cons show ?case by (auto simp: join_Cons_cases scan_quotes_append quote_def)
qed simp

lemma split_quoted:
  "scan_quotes (ss_is_inside s) m = Some q \<Longrightarrow> \<not> ss_maybe_escaped s \<Longrightarrow>
     fold split_char m s = s\<lparr>ss_stack := ss_stack s @ m, ss_is_inside := q\<rparr>"
proof (induction m arbitrary: s)
  case (Cons c m)
  let ?s = "s\<lparr>ss_stack := ss_stack s @ [c], ss_is_inside := (if c = quote then \<not> ss_is_inside s else ss_is_inside s)\<rparr>"
  have "split_char c s = ?s"
    using Cons.prems by (auto simp: split_char_def quote_def split: if_splits)
  moreover have "fold split_char m ?s = ?s\<lparr>ss_stack := ss_stack ?s @ m, ss_is_inside := q\<rparr>"
    using Cons.prems by (intro Cons.IH) (auto split: if_splits)
  ultimately show ?case by simp
qed simp

lemma collect_joined:
  assumes "list_all (\<lambda>m. scan_quotes False m = Some False) ms" "ms \<noteq> []" "last ms \<noteq> []" "\<not> ss_is_inside s" "\<not> ss_maybe_escaped s"
    "ss_stack s = []"
  shows "(let s = fold split_char (join_with newline ms) s
      in if ss_stack s \<noteq> [] then ss_messages s @ [ss_stack s] else ss_messages s) = ss_messages s @ ms"
  using assms
proof (induction ms arbitrary: s)
  case (Cons m ms)
  then have m: "fold split_char m s = s\<lparr>ss_stack := m, ss_is_inside := False\<rparr>"
    using split_quoted [of s m False] by simp
  show ?case
  proof (cases "ms = []")
    case True
    with Cons.prems m show ?thesis by simp
  next
    case False
    let ?s = "s\<lparr>ss_stack := [], ss_messages := ss_messages s @ [m], ss_is_inside := False, ss_maybe_escaped := False\<rparr>"
    have "fold split_char (join_with newline (m # ms)) s = fold split_char (join_with newline ms) ?s"
      using False m by (cases s) (simp add: join_Cons split_char_def)
    with Cons.IH [of ?s] Cons.prems False show ?thesis by simp
  qed
qed simp

definition csv_record :: "string list \<Rightarrow> bool" where
  "csv_record fs \<longleftrightarrow> fs \<noteq> [] \<and> fs \<noteq> [[]] \<and> (\<forall>f \<in> set fs. CHR 0x5C \<notin> set f)"

lemma csv_record_text:
  assumes "csv_rule C" "csv_record fs"
  shows "scan_quotes False (fields_to_csv_string C fs) = Some False" "fields_to_csv_string C fs \<noteq> []"
proof -
  have eq: "fields_to_csv_string C fs = join_with CHR '','' (map (\<lambda>f. if needs_quotes f then csv_quote f else f) fs)"
    using assms by (simp add: csv_rule_def csv_record_def fields_to_csv_string_def)
  show "scan_quotes False (fields_to_csv_string C fs) = Some False"
    unfolding eq using assms(2) by (intro scan_quotes_record) (auto simp: csv_record_def)
  show "fields_to_csv_string C fs \<noteq> []"
    unfolding eq using assms(2) by (cases fs) (auto simp: csv_record_def join_Cons_cases csv_quote_def needs_quotes_def)
qed

text \<open>
  C18. The records that are sent in one MQTT message, one per line, are found again: whatever quotes, separators and line
  breaks their fields contain, but no backslash, the message is split into the texts of the records.
\<close>

theorem smartrest_messages_split:
  assumes "csv_rule C" "list_all csv_record rs"
  shows "collect_smartrest_messages (join_with newline (map (fields_to_csv_string C) rs)) = map (fields_to_csv_string C) rs"
proof (cases "rs = []")
  case True
  then show ?thesis by (simp add: collect_smartrest_messages_def)
next
  case False
  have "list_all (\<lambda>m. scan_quotes False m = Some False) (map (fields_to_csv_string C) rs)"
    using assms csv_record_text by (auto simp: list_all_iff)
  moreover have "last (map (fields_to_csv_string C) rs) \<noteq> []"
    using assms False csv_record_text by (simp add: last_map list_all_iff)
  ultimately show ?thesis
    using collect_joined [of "map (fields_to_csv_string C) rs" "\<lparr>ss_stack = [], ss_messages = [], ss_is_inside = False, ss_maybe_escaped = False\<rparr>"] False
    by (simp add: collect_smartrest_messages_def)
qed

text \<open>The writer of the \<^verbatim>\<open>csv\<close> package; the witnesses read no records.\<close>

definition quoting_csv :: csv_lib where
  "quoting_csv =
     \<lparr>write_record = (\<lambda>fs. (if fs = [] \<or> fs = [[]] then [quote, quote]
         else join_with CHR '','' (map (\<lambda>f. if needs_quotes f then csv_quote f else f) fs)) @ [newline]),
      write_quoted = (\<lambda>fs. (if fs = [] then [quote, quote] else join_with CHR '','' (map csv_quote fs)) @ [newline]),
      read_records = (\<lambda>_. [])\<rparr>"

lemma quoting_csv_rule [simp]: "csv_rule quoting_csv"
  by (simp add: csv_rule_def quoting_csv_def)

theorem smartrest_messages_split_witness:
  "collect_smartrest_messages (join_with newline (map (fields_to_csv_string quoting_csv)
      [[''511'', ''device'', ''echo'' @ [newline] @ ''hello''], [''501'', [quote]]]))
   = [''511,device,'' @ [quote] @ ''echo'' @ [newline] @ ''hello'' @ [quote], ''501,'' @ [quote, quote, quote, quote]]"
proof -
  let ?rs = "[[''511'', ''device'', ''echo'' @ [newline] @ ''hello''], [''501'', [quote]]]"
  have "list_all csv_record ?rs" by (simp add: csv_record_def quote_def)
  moreover have "map (fields_to_csv_string quoting_csv) ?rs
      = [''511,device,'' @ [quote] @ ''echo'' @ [newline] @ ''hello'' @ [quote], ''501,'' @ [quote, quote, quote, quote]]"
    by code_simp
  ultimately show ?thesis using smartrest_messages_split [of quoting_csv ?rs] by simp
qed

section \<open>Outcomes of operations\<close>

text \<open>
  A failure reason of more than 500 bytes is cut after 500 bytes; if a character of the reason reaches over this
  limit, the cut panics.
\<close>

lemma fail_operation_spec:
  "fail_operation C template_id operation reason =
     (if 500 < length reason \<and> continuation (reason ! 500) then None
      else expect_payload C [decimal template_id, operation, take 500 reason])"
proof (cases "500 < length reason")
  case True
  then have "str_slice 0 500 reason = (if continuation (reason ! 500) then None else Some (take 500 reason))"
    by (auto simp: str_slice_def is_char_boundary_def)
  with True show ?thesis by (simp add: fail_operation_def)
qed (simp add: fail_operation_def)

lemma trim_reason_length: "trim_reason C pfx fs = Some payload \<Longrightarrow> length payload \<le> MAX_PAYLOAD_LIMIT_IN_BYTES"
  by (auto simp: trim_reason_def str_slice_def Let_def split: if_splits bind_splits)

text \<open>The payload of a successful operation fits into the limit, trimmed if needed.\<close>

lemma succeed_operation_fits:
  "succeed_operation C template_id operation reason = Some (Inr payload) \<Longrightarrow> length payload \<le> MAX_PAYLOAD_LIMIT_IN_BYTES"
  by (auto simp: succeed_operation_def payload_serialize_def ok_def Let_def dest: trim_reason_length
      split: option.splits sum.splits if_splits bind_splits)

lemma succeed_operation_fits_instance:
  "succeed_operation quoting_csv 503 ''c8y_Command'' (Text ''done'') = Some (Inr ''503,c8y_Command,done'')
   \<and> length ''503,c8y_Command,done'' \<le> MAX_PAYLOAD_LIMIT_IN_BYTES"
proof -
  have ok: "succeed_operation quoting_csv 503 ''c8y_Command'' (Text ''done'') = Some (Inr ''503,c8y_Command,done'')" by code_simp
  from ok succeed_operation_fits [OF ok] show ?thesis by blast
qed

lemma csv_quote_quotes: "csv_quote (replicate n quote) = replicate (2 * n + 2) quote"
proof -
  have "concat (map (\<lambda>c. if c = quote then [quote, quote] else [c]) (replicate n quote)) = replicate (2 * n) quote"
    by (induction n) simp_all
  then show ?thesis by (simp add: csv_quote_def replicate_append_same)
qed

text \<open>
  The trimming of a reason may cut an escaped quote in two: the payload of a reason of 8000 quotes, for the
  operation \<^verbatim>\<open>c8y_Command\<close>, has an odd number of quotes, and is no CSV record.
\<close>

lemma trimming_breaks_quotes:
  assumes "csv_rule C"
  shows "\<exists>payload. succeed_operation C 503 ''c8y_Command'' (Text (replicate 8000 quote)) = Some (Inr payload)
    \<and> odd (count_list payload quote)"
proof -
  let ?q = "replicate 8000 quote"
  let ?pfx = "''503,c8y_Command''"
  have dec: "decimal 503 = ''503''" by code_simp
  have quoted: "needs_quotes ?q" by (simp add: needs_quotes_def)
  have plain: "\<not> needs_quotes ''503''" "\<not> needs_quotes ''c8y_Command''" by (auto simp: needs_quotes_def quote_def)
  have pfx: "payload_serialize C [decimal 503, ''c8y_Command''] = Inr ?pfx"
    using assms plain by (simp add: csv_rule_def payload_serialize_def dec)
  have big: "payload_serialize C ([decimal 503, ''c8y_Command''] @ [?q]) = Inl (TooLarge 16018)"
    using assms plain quoted csv_quote_quotes [of 8000] by (simp add: csv_rule_def payload_serialize_def dec)
  have reason: "butlast (write_quoted C [?q]) = replicate 16002 quote"
    using assms csv_quote_quotes [of 8000] by (simp add: csv_rule_def)
  have strip: "strip_prefix [quote] (replicate 16002 quote) = Some (replicate 16001 quote)"
    "strip_suffix [quote] (replicate 16001 quote) = Some (replicate 16000 quote)"
    by (simp_all add: strip_prefix_Some_iff strip_suffix_Some_iff replicate_append_same flip: replicate_Suc)
  have cut: "str_slice i j (replicate 16000 quote) = Some (replicate (j - i) quote)" if "i \<le> j" "j \<le> 16000" for i j
    using that by (auto simp: str_slice_def is_char_boundary_def continuation_def quote_def)
  have "trim_reason C ?pfx [?q] = Some (?pfx @ '','' @ [quote] @ replicate 15969 quote @ trim_indicator @ [quote])"
    unfolding trim_reason_def reason by (simp add: strip cut trim_indicator_def Let_def numeral_2_eq_2)
  then have "succeed_operation C 503 ''c8y_Command'' (Text ?q) = Some (Inr (?pfx @ '','' @ [quote] @ replicate 15969 quote @ trim_indicator @ [quote]))"
    using pfx big by (simp add: succeed_operation_def ok_def)
  moreover have "count_list (replicate n quote) quote = n" for n by (induction n) simp_all
  then have "odd (count_list (?pfx @ '','' @ [quote] @ replicate 15969 quote @ trim_indicator @ [quote]) quote)"
    by (simp add: trim_indicator_def quote_def)
  ultimately show ?thesis by blast
qed

lemma trimming_breaks_quotes_instance:
  "csv_rule quoting_csv
   \<and> (\<exists>payload. succeed_operation quoting_csv 503 ''c8y_Command'' (Text (replicate 8000 quote)) = Some (Inr payload)
        \<and> odd (count_list payload quote))"
  using trimming_breaks_quotes [OF quoting_csv_rule] by simp

section \<open>Software lists are complete\<close>

lemma chunks_Nil [simp]: "chunks n [] = []"
  by (subst chunks.simps) simp

lemma chunks_spec:
  assumes "0 < n"
  shows "concat (chunks n xs) = xs \<and> (\<forall>c \<in> set (chunks n xs). c \<noteq> [] \<and> length c \<le> n)
    \<and> (\<forall>c \<in> set (butlast (chunks n xs)). length c = n)"
  using assms
proof (induction n xs rule: chunks.induct)
  case (1 n xs)
  show ?case
  proof (cases "xs = []")
    case False
    have IH: "concat (chunks n (drop n xs)) = drop n xs"
      "\<forall>c \<in> set (chunks n (drop n xs)). c \<noteq> [] \<and> length c \<le> n" "\<forall>c \<in> set (butlast (chunks n (drop n xs))). length c = n"
      using "1.IH" False "1.prems" by blast+
    have eq: "chunks n xs = take n xs # chunks n (drop n xs)" using False "1.prems" by (subst chunks.simps) simp
    have full: "length (take n xs) = n" if "chunks n (drop n xs) \<noteq> []"
      using that by (cases "length xs \<le> n") auto
    show ?thesis
    proof (intro conjI)
      show "concat (chunks n xs) = xs" using IH(1) by (simp add: eq)
      show "\<forall>c \<in> set (chunks n xs). c \<noteq> [] \<and> length c \<le> n" unfolding eq using IH(2) False "1.prems" by simp
      show "\<forall>c \<in> set (butlast (chunks n xs)). length c = n" unfolding eq using IH(3) full by (simp split: if_splits)
    qed
  qed simp
qed

text \<open>
  The messages of a software list carry every module once, in order: the first message replaces the list, the
  others append to it, none has more modules than the limit, and all but the last have as many.
\<close>

lemma software_list_messages_complete:
  assumes "0 < n"
  shows "\<exists>first rest. software_list_messages n sls = Some (SetList first # map AppendList rest)
    \<and> concat (first # rest) = map software_item_of_module (software_modules sls)
    \<and> (\<forall>items \<in> set (first # rest). length items \<le> n) \<and> (\<forall>items \<in> set rest. items \<noteq> [])
    \<and> (\<forall>items \<in> set (butlast (first # rest)). length items = n)"
proof (cases "software_modules sls = []")
  case True
  then show ?thesis by (simp add: software_list_messages_def)
next
  case False
  let ?items = "map software_item_of_module (software_modules sls)"
  note spec = chunks_spec [OF assms, of ?items]
  obtain first rest where c: "chunks n ?items = first # rest"
    using False spec by (cases "chunks n ?items") auto
  then have "software_list_messages n sls = Some (SetList first # map AppendList rest)"
    using False assms by (simp add: software_list_messages_def)
  with spec show ?thesis unfolding c by (intro exI [of _ first] exI [of _ rest]) auto
qed

lemma software_list_messages_complete_instance:
  "\<exists>first rest. software_list_messages 2 [\<lparr>sl_plugin_type = ''apt'', sl_modules =
       map (\<lambda>name. \<lparr>sm_type = None, sm_name = name, sm_version = None, sm_url = None\<rparr>) [''a'', ''b'', ''c'']\<rparr>]
     = Some (SetList first # map AppendList rest)
   \<and> map si_name (concat (first # rest)) = [''a'', ''b'', ''c''] \<and> length first \<le> 2"
proof -
  let ?sls = "[\<lparr>sl_plugin_type = ''apt'', sl_modules =
     map (\<lambda>name. \<lparr>sm_type = None, sm_name = name, sm_version = None, sm_url = None\<rparr>) [''a'', ''b'', ''c'']\<rparr>]"
  have "map si_name (map software_item_of_module (software_modules ?sls)) = [''a'', ''b'', ''c'']" by code_simp
  moreover obtain first rest where "software_list_messages 2 ?sls = Some (SetList first # map AppendList rest)"
      "concat (first # rest) = map software_item_of_module (software_modules ?sls)" "length first \<le> 2"
    using software_list_messages_complete [of 2 ?sls] by auto
  ultimately show ?thesis by metis
qed

end
