(* ===== verification/Timestamps.thy ===== *)
theory Timestamps
  imports Json "HOL-Library.Monad_Syntax"
begin

text \<open>
  Numbers and times of the telemetry.  The first part is the \<^verbatim>\<open>f64\<close> of the language, as far as the sources use
  it: the classes of values, the conversions from and to integers, the product and the quotient by a constant,
  rounded to the nearest value with ties to even, and \<^verbatim>\<open>str::parse\<close>.  The second part is \<^verbatim>\<open>tedge_utils/src/timestamp.rs\<close>:
  the timestamps in a payload and their format.  The \<^verbatim>\<open>time\<close> package is a parameter, and so is the printer of
  \<^verbatim>\<open>f64\<close> of \<^verbatim>\<open>serde_json\<close>.
\<close>

section \<open>Floating point numbers\<close>

text \<open>A finite number is its sign, its mantissa and the power of two that multiplies it.\<close>

datatype f64 = NaN | Inf bool | Fin bool nat int

fun f64_is_zero :: "f64 \<Rightarrow> bool" where
  "f64_is_zero (Fin s m e) = (m = 0)"
| "f64_is_zero _ = False"

fun f64_is_normal :: "f64 \<Rightarrow> bool" where
  "f64_is_normal (Fin s m e) = (2 ^ 52 \<le> m)"
| "f64_is_normal _ = False"

fun f64_is_finite :: "f64 \<Rightarrow> bool" where
  "f64_is_finite (Fin s m e) = True"
| "f64_is_finite _ = False"

fun f64_wf :: "f64 \<Rightarrow> bool" where
  "f64_wf (Fin s m e) = (m < 2 ^ 53 \<and> - 1074 \<le> e \<and> e \<le> 971 \<and> (2 ^ 52 \<le> m \<or> e = - 1074))"
| "f64_wf _ = True"

fun log2 :: "nat \<Rightarrow> nat" where
  "log2 n = (if n < 2 then 0 else Suc (log2 (n div 2)))"

declare log2.simps [simp del]

definition half_even :: "nat \<Rightarrow> nat \<Rightarrow> nat" where
  "half_even n d =
     (let q = n div d; r = n mod d in if 2 * r < d \<or> 2 * r = d \<and> even q then q else Suc q)"

text \<open>The largest power of two that is not above a positive fraction.\<close>

definition log2_fraction :: "nat \<Rightarrow> nat \<Rightarrow> int" where
  "log2_fraction n d =
     (let k = int (log2 n) - int (log2 d) in
      if n * 2 ^ nat (- k) < d * 2 ^ nat k then k - 1 else k)"

definition f64_round :: "bool \<Rightarrow> nat \<Rightarrow> nat \<Rightarrow> f64" where
  "f64_round s n d =
     (if n = 0 then Fin s 0 (- 1074)
      else let e = max (log2_fraction n d - 52) (- 1074);
               m = half_even (n * 2 ^ nat (- e)) (d * 2 ^ nat e);
               (m', e') = (if m = 2 ^ 53 then (2 ^ 52, e + 1) else (m, e))
           in if 971 < e' then Inf s else Fin s m' e')"

definition f64_of_int :: "int \<Rightarrow> f64" where
  "f64_of_int i = f64_round (i < 0) (nat \<bar>i\<bar>) 1"

text \<open>The product of a number with a positive fraction.\<close>

fun f64_scale :: "f64 \<Rightarrow> nat \<Rightarrow> nat \<Rightarrow> f64" where
  "f64_scale (Fin s m e) a b = f64_round s (m * 2 ^ nat e * a) (2 ^ nat (- e) * b)"
| "f64_scale f a b = f"

fun f64_trunc :: "f64 \<Rightarrow> int" where
  "f64_trunc (Fin s m e) = (if s then - 1 else 1) * int (m * 2 ^ nat e div 2 ^ nat (- e))"
| "f64_trunc _ = 0"

text \<open>\<^verbatim>\<open>f64::fract\<close>, with the exponent of the number.\<close>

fun f64_fract :: "f64 \<Rightarrow> f64" where
  "f64_fract (Fin s m e) = Fin s (m mod 2 ^ nat (- e)) e"
| "f64_fract _ = NaN"

text \<open>The cast to an integer type, which saturates.\<close>

definition f64_cast :: "int \<Rightarrow> int \<Rightarrow> f64 \<Rightarrow> int" where
  "f64_cast lo hi f =
     (case f of NaN \<Rightarrow> 0 | Inf s \<Rightarrow> if s then lo else hi | Fin s m e \<Rightarrow> max lo (min hi (f64_trunc f)))"

definition f64_as_i64 :: "f64 \<Rightarrow> int" where "f64_as_i64 = f64_cast (- (2 ^ 63)) (2 ^ 63 - 1)"

definition f64_as_u32 :: "f64 \<Rightarrow> int" where "f64_as_u32 = f64_cast 0 (2 ^ 32 - 1)"

definition f64_as_i128 :: "f64 \<Rightarrow> int" where "f64_as_i128 = f64_cast (- (2 ^ 127)) (2 ^ 127 - 1)"

text \<open>The product of two \<^verbatim>\<open>i128\<close>: the release profile checks overflows, which panic.\<close>

definition i128_mult :: "int \<Rightarrow> int \<Rightarrow> int panics" where
  "i128_mult a b = (let p = a * b in if - (2 ^ 127) \<le> p \<and> p < 2 ^ 127 then Some p else None)"

subsection \<open>Texts\<close>

definition digits_value :: "string \<Rightarrow> nat" where
  "digits_value s = fold (\<lambda>c n. 10 * n + (of_char c - 48)) s 0"

fun strip_sign :: "string \<Rightarrow> bool \<times> string" where
  "strip_sign (c # s) =
     (if c = CHR ''-'' then (True, s) else if c = CHR ''+'' then (False, s) else (False, c # s))"
| "strip_sign [] = (False, [])"

definition lower :: "string \<Rightarrow> string" where
  "lower = map (\<lambda>c. let n = of_char c :: nat in if 65 \<le> n \<and> n \<le> 90 then char_of (n + 32) else c)"

text \<open>The exponent of a number: nothing, or \<^verbatim>\<open>e\<close>, a sign and digits.\<close>

definition parse_exponent :: "string \<Rightarrow> int option" where
  "parse_exponent s =
     (case s of
        [] \<Rightarrow> Some 0
      | c # r \<Rightarrow>
          if c \<noteq> CHR ''e'' then None
          else (case strip_sign r of (neg, ds) \<Rightarrow>
                  if ds = [] \<or> \<not> list_all is_digit ds then None
                  else Some ((if neg then - 1 else 1) * int (digits_value ds))))"

definition f64_of_decimal :: "bool \<Rightarrow> nat \<Rightarrow> int \<Rightarrow> f64" where
  "f64_of_decimal neg n e = f64_round neg (n * 10 ^ nat e) (10 ^ nat (- e))"

definition parse_number :: "bool \<Rightarrow> string \<Rightarrow> f64 option" where
  "parse_number neg s =
     (let whole = takeWhile is_digit s;
          r = dropWhile is_digit s;
          (fraction, r') = (case r of
               c # t \<Rightarrow> if c = CHR ''.'' then (takeWhile is_digit t, dropWhile is_digit t) else ([], r)
             | [] \<Rightarrow> ([], []))
      in if whole = [] \<and> fraction = [] then None
         else map_option (\<lambda>x. f64_of_decimal neg (digits_value (whole @ fraction)) (x - int (length fraction)))
                (parse_exponent r'))"

definition f64_parse :: "string \<Rightarrow> f64 option" where
  "f64_parse s =
     (case strip_sign (lower s) of (neg, r) \<Rightarrow>
        if r = ''inf'' \<or> r = ''infinity'' then Some (Inf neg)
        else if r = ''nan'' then Some NaN
        else parse_number neg r)"

section \<open>Timestamps\<close>

record 't time_crate =
  time_of_str :: "string \<Rightarrow> 't option"
  time_of_unix :: "int \<Rightarrow> 't option"
  time_of_nanos :: "int \<Rightarrow> 't option"
  time_to_nanos :: "'t \<Rightarrow> int"
  time_format :: "'t \<Rightarrow> string option"

text \<open>
  The visitor of a timestamp: a text in RFC 3339, or a number of seconds.  The outer option is a panic,
  the inner one a value that is not accepted.
\<close>

definition unix_of_int :: "'t time_crate \<Rightarrow> int \<Rightarrow> 't option panics" where
  "unix_of_int T i = Some (time_of_unix T i)"

definition unix_of_nat :: "'t time_crate \<Rightarrow> nat \<Rightarrow> 't option panics" where
  "unix_of_nat T n = (if n < 2 ^ 63 then unix_of_int T (int n) else Some None)"

definition unix_of_float :: "'t time_crate \<Rightarrow> f64 \<Rightarrow> 't option panics" where
  "unix_of_float T v = do {
     nanos \<leftarrow> i128_mult (f64_as_i128 (f64_scale v 1000 1)) 1000000;
     Some (time_of_nanos T nanos) }"

definition time_of_text :: "'t time_crate \<Rightarrow> string \<Rightarrow> 't option panics" where
  "time_of_text T s = Some (time_of_str T s)"

fun iso_or_unix :: "'t time_crate \<Rightarrow> json \<Rightarrow> 't option panics" where
  "iso_or_unix T (JString s) = time_of_text T s"
| "iso_or_unix T (JNumber (PosInt n)) = unix_of_nat T n"
| "iso_or_unix T (JNumber (NegInt i)) = unix_of_int T i"
| "iso_or_unix T (JNumber (Float s)) =
     (case f64_parse s of None \<Rightarrow> Some None | Some v \<Rightarrow> unix_of_float T v)"
| "iso_or_unix T _ = Some None"

datatype time_fmt = Rfc3339 | Unix

text \<open>The JSON value of a number is null when the number is not finite.\<close>

definition json_of_f64 :: "(f64 \<Rightarrow> string) \<Rightarrow> f64 \<Rightarrow> json" where
  "json_of_f64 P f = (if f64_is_finite f then JNumber (Float (P f)) else JNull)"

fun time_to_json :: "'t time_crate \<Rightarrow> (f64 \<Rightarrow> string) \<Rightarrow> time_fmt \<Rightarrow> 't \<Rightarrow> json option" where
  "time_to_json T P Unix t = Some (json_of_f64 P (f64_scale (f64_of_int (time_to_nanos T t)) 1 1000000000))"
| "time_to_json T P Rfc3339 t = map_option JString (time_format T t)"

definition reformat_json ::
  "'t time_crate \<Rightarrow> (f64 \<Rightarrow> string) \<Rightarrow> time_fmt \<Rightarrow> json \<Rightarrow> json option panics" where
  "reformat_json T P fmt v =
     (case (v, fmt) of
        (JNumber _, Unix) \<Rightarrow> Some (Some v)
      | (JString _, Rfc3339) \<Rightarrow> Some (Some v)
      | _ \<Rightarrow> map_option (\<lambda>t. t \<bind> time_to_json T P fmt) (iso_or_unix T v))"

section \<open>Conversions of integers\<close>

lemma log2_numeral [simp]:
  "log2 0 = 0" "log2 (Suc 0) = 0" "log2 (numeral (num.Bit0 k)) = Suc (log2 (numeral k))"
  "log2 (numeral (num.Bit1 k)) = Suc (log2 (numeral k))" "log2 1 = 0"
  by (simp_all add: log2.simps [of 0] log2.simps [of "Suc 0"] log2.simps [of "numeral (num.Bit0 k)"]
      log2.simps [of "numeral (num.Bit1 k)"])

lemmas f64_eval = f64_round_def log2_fraction_def half_even_def Let_def max_def

lemma log2_bounds: "0 < n \<Longrightarrow> 2 ^ log2 n \<le> n \<and> n < 2 * 2 ^ log2 n"
proof (induction n rule: log2.induct)
  case (1 n)
  then show ?case by (cases "n < 2") (auto simp: log2.simps [of n])
qed

lemma log2_less: "0 < n \<Longrightarrow> n < 2 ^ k \<Longrightarrow> log2 n < k"
  using log2_bounds [of n] by (meson le_less_trans power_less_imp_less_exp one_less_numeral_iff semiring_norm(76))

lemma half_even_exact [simp]: "half_even n (Suc 0) = n"
  by (simp add: half_even_def)

text \<open>An integer of at most 53 bits is converted exactly.\<close>

lemma f64_round_int:
  assumes "0 < n" "n < 2 ^ 53"
  shows "f64_round s n 1 = Fin s (n * 2 ^ (52 - log2 n)) (int (log2 n) - 52)"
    and "2 ^ 52 \<le> n * 2 ^ (52 - log2 n)" and "n * 2 ^ (52 - log2 n) < 2 ^ 53"
proof -
  let ?k = "log2 n"
  have k: "?k \<le> 52" using log2_less [OF assms] by simp
  have b: "2 ^ ?k \<le> n" "n < 2 * 2 ^ ?k" using log2_bounds [OF assms(1)] by auto
  have "(2::nat) ^ 52 = 2 ^ ?k * 2 ^ (52 - ?k)" using k by (simp add: power_add [symmetric])
  moreover have "(2::nat) ^ 53 = 2 * 2 ^ ?k * 2 ^ (52 - ?k)"
    using \<open>(2::nat) ^ 52 = _\<close> by simp
  ultimately show m: "2 ^ 52 \<le> n * 2 ^ (52 - ?k)" "n * 2 ^ (52 - ?k) < 2 ^ 53"
    using b by (metis mult_le_mono1, metis mult_less_mono1 zero_less_power zero_less_numeral)
  have lg: "log2_fraction n 1 = int ?k" using b by (simp add: log2_fraction_def)
  have nt: "nat (52 - int ?k) = 52 - ?k" by simp
  have "n * 2 ^ (52 - ?k) \<noteq> 9007199254740992" using m(2) by simp
  then show "f64_round s n 1 = Fin s (n * 2 ^ (52 - ?k)) (int ?k - 52)"
    using assms(1) k lg nt by (simp add: f64_round_def Let_def max_def)
qed

lemma f64_of_int_exact:
  assumes "\<bar>i\<bar> < 2 ^ 53"
  shows "f64_wf (f64_of_int i)" "f64_trunc (f64_of_int i) = i" "i \<noteq> 0 \<Longrightarrow> f64_is_normal (f64_of_int i)"
    "i = 0 \<Longrightarrow> f64_is_zero (f64_of_int i)"
proof -
  let ?n = "nat \<bar>i\<bar>"
  have "f64_wf (f64_of_int i) \<and> f64_trunc (f64_of_int i) = i \<and> (i \<noteq> 0 \<longrightarrow> f64_is_normal (f64_of_int i))"
  proof (cases "i = 0")
    case False
    then have n: "0 < ?n" "?n < 2 ^ 53" using assms by auto
    have k: "log2 ?n \<le> 52" using log2_less [OF n] by simp
    then have "nat (52 - int (log2 ?n)) = 52 - log2 ?n" by simp
    with f64_round_int(1) [OF n, of "i < 0"] f64_round_int(2,3) [OF n] k False show ?thesis
      by (auto simp: f64_of_int_def)
  qed (simp add: f64_of_int_def f64_round_def)
  then show "f64_wf (f64_of_int i)" "f64_trunc (f64_of_int i) = i" "i \<noteq> 0 \<Longrightarrow> f64_is_normal (f64_of_int i)"
    "i = 0 \<Longrightarrow> f64_is_zero (f64_of_int i)"
    by (auto simp: f64_of_int_def f64_round_def)
qed

section \<open>Numbers that are no time\<close>

text \<open>A large integer is rounded to one that is less than one part in \<open>2 ^ 52\<close> below it, or above it.\<close>

lemma f64_round_large:
  assumes "2 ^ 53 \<le> n"
  obtains "f64_round s n 1 = Inf s"
  | m e where "f64_round s n 1 = Fin s m e" "0 \<le> e" "n < m * 2 ^ nat e + n div 2 ^ 52 + 1"
proof -
  define k where "k = log2 n"
  have n: "0 < n" using less_le_trans [OF _ assms, of 0] by simp
  have b: "2 ^ k \<le> n" "n < 2 * 2 ^ k" using log2_bounds [OF n] by (auto simp: k_def)
  have k: "52 \<le> k"
  proof (rule ccontr)
    assume "\<not> 52 \<le> k"
    then have "(2::nat) ^ k \<le> 2 ^ 52" by (intro power_increasing) simp_all
    with b(2) assms show False by simp
  qed
  define d :: nat where "d = 2 ^ (k - 52)"
  define q where "q = half_even n d"
  have d: "d * 2 ^ 52 = 2 ^ k" unfolding d_def using k by (metis le_add_diff_inverse2 power_add)
  have "n div d \<le> q" by (simp add: q_def half_even_def Let_def)
  then have "n div d * d \<le> q * d" by simp
  moreover have "n < n div d * d + d" using dividend_less_div_times [of d n] by (simp add: d_def)
  moreover have "d \<le> n div 2 ^ 52" using b(1) d by (metis div_le_mono nonzero_mult_div_cancel_right power_not_zero zero_neq_numeral)
  ultimately have low: "n < q * d + n div 2 ^ 52 + 1" by linarith
  have lg: "log2_fraction n 1 = int k" using b by (simp add: log2_fraction_def k_def)
  have nt: "nat (int k - 52) = k - 52" "nat (52 - int k) = 0" "nat (int k - 51) = Suc (k - 52)" using k by simp_all
  have "f64_round s n 1 = (let (m', e') = (if q = 2 ^ 53 then (2 ^ 52, int k - 51) else (q, int k - 52))
      in if 971 < e' then Inf s else Fin s m' e')"
    using n k lg nt by (simp add: f64_round_def Let_def max_def q_def d_def)
  then show thesis using that low k nt by (fastforce simp: Let_def d_def split: if_splits)
qed

text \<open>The number of seconds from which on a decimal time overflows.\<close>

lemma unix_of_float_overflows:
  assumes "0 \<le> e" "2 * 10 ^ 29 \<le> m * 2 ^ nat e"
  shows "unix_of_float T (Fin s m e) = None"
proof -
  define n where "n = m * 2 ^ nat e * 1000"
  have n: "2 * 10 ^ 32 \<le> n" using assms(2) by (simp add: n_def)
  then have "2 ^ 53 \<le> n" by simp
  have scale: "f64_scale (Fin s m e) 1000 1 = f64_round s n 1" using assms(1) by (simp add: n_def)
  have overflow: "i128_mult c 1000000 = None" if "19 * 10 ^ 31 \<le> \<bar>c\<bar>" for c
    using that by (auto simp: i128_mult_def Let_def)
  have "19 * 10 ^ 31 \<le> \<bar>f64_as_i128 (f64_round s n 1)\<bar>"
  proof (rule f64_round_large [OF \<open>2 ^ 53 \<le> n\<close>, of s])
    assume "f64_round s n 1 = Inf s"
    then show ?thesis by (simp add: f64_as_i128_def f64_cast_def)
  next
    fix m e assume 2: "f64_round s n 1 = Fin s m e" "0 \<le> e" "n < m * 2 ^ nat e + n div 2 ^ 52 + 1"
    have "19 * 10 ^ 31 \<le> m * 2 ^ nat e" using 2(3) n by simp
    then have "int (19 * 10 ^ 31) \<le> int (m * 2 ^ nat e)" by (rule of_nat_mono)
    then show ?thesis using 2(1,2) by (auto simp: f64_as_i128_def f64_cast_def max_def min_def)
  qed
  then show ?thesis unfolding unix_of_float_def scale by (simp add: overflow)
qed

end
