(* ===== verification/Cloud_Alarms.thy ===== *)
theory Cloud_Alarms
  imports Smartrest Timestamps
begin

text \<open>
  Alarms, from thin-edge to Cumulocity: their payloads (\<^verbatim>\<open>tedge_api/src/alarm.rs\<close>, the timestamps of
  \<^verbatim>\<open>tedge_utils/src/timestamp.rs\<close>), the alarms of Cumulocity (\<^verbatim>\<open>c8y_api/src/json_c8y.rs\<close>, \<^verbatim>\<open>smartrest/alarm.rs\<close>), and the
  converter that reconciles the alarms after a restart (\<^verbatim>\<open>c8y_mapper_ext/src/alarm_converter.rs\<close>).  The \<^verbatim>\<open>time\<close>
  package is a parameter.  A payload with the same key twice is not modelled.
\<close>

section \<open>Payloads\<close>

text \<open>
  An optional field: absent or null, or a value that must be accepted.  The inner \<^term>\<open>None\<close> is an error, the outer
  one a panic.  The fields of a payload are read in the order of their keys.
\<close>

definition optional_field :: "(json \<Rightarrow> 'a option panics) \<Rightarrow> json option \<Rightarrow> 'a option option panics" where
  "optional_field f v =
     (case v of
        None \<Rightarrow> Some (Some None)
      | Some v \<Rightarrow> if v = JNull then Some (Some None) else map_option (map_option Some) (f v))"

record 't alarm_data =
  ad_severity :: "string option"
  ad_text :: "string option"
  ad_time :: "'t option"
  ad_extras :: jmap

definition alarm_data_of_json :: "'t time_crate \<Rightarrow> json \<Rightarrow> 't alarm_data option panics" where
  "alarm_data_of_json T v =
     (case as_object v of
        None \<Rightarrow> Some None
      | Some m \<Rightarrow> do {
          severity \<leftarrow> optional_field (Some \<circ> as_str) (bt_get m ''severity'');
          alarm_text \<leftarrow> optional_field (Some \<circ> as_str) (bt_get m ''text'');
          if severity = None \<or> alarm_text = None then Some None
          else do {
            time \<leftarrow> optional_field (iso_or_unix T) (bt_get m ''time'');
            Some (map_option (\<lambda>t. \<lparr>ad_severity = the severity, ad_text = the alarm_text, ad_time = t,
              ad_extras = bt_remove ''time'' (bt_remove ''text'' (bt_remove ''severity'' m))\<rparr>) time) } })"

record 't tedge_alarm =
  tal_type :: string
  tal_source :: entity_topic_id
  tal_data :: "'t alarm_data option"

definition with_alarm_data :: "'t alarm_data \<Rightarrow> 't tedge_alarm \<Rightarrow> 't tedge_alarm" where
  "with_alarm_data d a =
     (let data = d\<lparr>ad_extras := bt_remove ''type'' (ad_extras d)\<rparr> in
      case bt_get (ad_extras d) ''type'' \<bind> as_str of
        Some type_from_payload \<Rightarrow> a\<lparr>tal_type := type_from_payload, tal_data := Some data\<rparr>
      | None \<Rightarrow> a\<lparr>tal_data := Some data\<rparr>)"

datatype conversion_error =
    FailedToParsePayloadToString string
  | FailedToParseJsonPayload string
  | FormatTime
  | SizeThresholdExceeded nat nat
  | FromEntityCache cache_error

definition tedge_alarm_try_from ::
  "serde \<Rightarrow> 't time_crate \<Rightarrow> string \<Rightarrow> entity_topic_id \<Rightarrow> string \<Rightarrow> (conversion_error + 't tedge_alarm) panics" where
  "tedge_alarm_try_from J T alarm_type source payload =
     (let alarm = \<lparr>tal_type = alarm_type, tal_source = source, tal_data = None\<rparr> in
      if payload = [] then Some (Inr alarm)
      else (case json_of_text J payload of
              None \<Rightarrow> Some (Inl (FailedToParseJsonPayload alarm_type))
            | Some v \<Rightarrow> do {
                data \<leftarrow> alarm_data_of_json T v;
                Some (case data of
                        None \<Rightarrow> Inl (FailedToParseJsonPayload alarm_type)
                      | Some d \<Rightarrow> Inr (with_alarm_data d alarm)) }))"

section \<open>Alarms of Cumulocity\<close>

datatype alarm_severity = Critical | Major | Minor | Warning

definition severity_of_str :: "string \<Rightarrow> alarm_severity option" where
  "severity_of_str s =
     (if s = ''critical'' then Some Critical else if s = ''major'' then Some Major
      else if s = ''minor'' then Some Minor else if s = ''warning'' then Some Warning else None)"

fun severity_to_str :: "alarm_severity \<Rightarrow> string" where
  "severity_to_str Critical = ''CRITICAL''"
| "severity_to_str Major = ''MAJOR''"
| "severity_to_str Minor = ''MINOR''"
| "severity_to_str Warning = ''WARNING''"

record source_info =
  src_id :: string
  src_type :: string

record 't c8y_create_alarm =
  ca_type :: string
  ca_source :: "source_info option"
  ca_severity :: alarm_severity
  ca_text :: string
  ca_time :: 't
  ca_fragments :: jmap

record c8y_clear_alarm =
  cl_type :: string
  cl_source :: "source_info option"

datatype 't c8y_alarm = CreateAlarm "'t c8y_create_alarm" | ClearAlarm c8y_clear_alarm

definition convert_source :: "string \<Rightarrow> entity_type \<Rightarrow> source_info option" where
  "convert_source external_id ty =
     (case ty of MainDevice \<Rightarrow> None | _ \<Rightarrow> Some \<lparr>src_id = external_id, src_type = ''c8y_Serial''\<rparr>)"

definition convert_alarm_type :: "string \<Rightarrow> string" where
  "convert_alarm_type t = (if t = [] then ''ThinEdgeAlarm'' else t)"

definition convert_severity :: "'t alarm_data \<Rightarrow> alarm_severity" where
  "convert_severity d = (case ad_severity d \<bind> severity_of_str of Some s \<Rightarrow> s | None \<Rightarrow> Minor)"

text \<open>The clock is read when the alarm has no time.\<close>

definition c8y_alarm_from :: "'t \<Rightarrow> 't tedge_alarm \<Rightarrow> string \<Rightarrow> entity_type \<Rightarrow> 't c8y_alarm" where
  "c8y_alarm_from now alarm external_id ty =
     (let source = convert_source external_id ty; alarm_type = convert_alarm_type (tal_type alarm) in
      case tal_data alarm of
        None \<Rightarrow> ClearAlarm \<lparr>cl_type = alarm_type, cl_source = source\<rparr>
      | Some d \<Rightarrow> CreateAlarm
          \<lparr>ca_type = alarm_type, ca_source = source, ca_severity = convert_severity d,
           ca_text = (case ad_text d of Some t \<Rightarrow> t | None \<Rightarrow> alarm_type),
           ca_time = (case ad_time d of Some t \<Rightarrow> t | None \<Rightarrow> now),
           ca_fragments = bt_remove ''externalSource'' (ad_extras d)\<rparr>)"

definition severity_template :: "alarm_severity \<Rightarrow> nat" where
  "severity_template s = (case s of Critical \<Rightarrow> 301 | Major \<Rightarrow> 302 | Minor \<Rightarrow> 303 | Warning \<Rightarrow> 304)"

fun serialize_alarm :: "csv_lib \<Rightarrow> 't time_crate \<Rightarrow> 't c8y_alarm \<Rightarrow> (conversion_error + string) panics" where
  "serialize_alarm C T (CreateAlarm a) =
     (case time_format T (ca_time a) of
        None \<Rightarrow> Some (Inl FormatTime)
      | Some time \<Rightarrow> map_option Inr
          (expect_payload C [decimal (severity_template (ca_severity a)), ca_type a, ca_text a, time]))"
| "serialize_alarm C T (ClearAlarm a) = map_option Inr (expect_payload C [decimal 306, cl_type a])"

fun c8y_topic_of_alarm :: "'t c8y_alarm \<Rightarrow> c8y_topic" where
  "c8y_topic_of_alarm (CreateAlarm a) =
     (case ca_source a of None \<Rightarrow> SmartRestResponse | Some info \<Rightarrow> ChildSmartRestResponse (src_id info))"
| "c8y_topic_of_alarm (ClearAlarm a) =
     (case cl_source a of None \<Rightarrow> SmartRestResponse | Some info \<Rightarrow> ChildSmartRestResponse (src_id info))"

text \<open>The JSON of an alarm, with its fields in the order of the struct.\<close>

definition create_alarm_json :: "'t time_crate \<Rightarrow> 't c8y_create_alarm \<Rightarrow> json option" where
  "create_alarm_json T a = do {
     time \<leftarrow> time_format T (ca_time a);
     Some (JObject ([(''type'', JString (ca_type a))]
       @ (case ca_source a of
            None \<Rightarrow> []
          | Some info \<Rightarrow> [(''externalSource'', JObject [(''externalId'', JString (src_id info)), (''type'', JString (src_type info))])])
       @ [(''severity'', JString (severity_to_str (ca_severity a))), (''text'', JString (ca_text a)), (''time'', JString time)]
       @ ca_fragments a)) }"

section \<open>The converter\<close>

datatype alarm_converter =
    Syncing "(string, mqtt_message) hmap" "(string, mqtt_message) hmap"
  | Synced

definition alarm_converter_new :: alarm_converter where
  "alarm_converter_new = Syncing [] []"

definition INTERNAL_ALARMS_TOPIC :: string where "INTERNAL_ALARMS_TOPIC = ''c8y-internal/alarms/''"

text \<open>The message of an alarm: JSON if it has fragments, SmartREST otherwise.\<close>

definition smartrest_alarm_message ::
  "rumqttc \<Rightarrow> csv_lib \<Rightarrow> 't time_crate \<Rightarrow> 't c8y_alarm \<Rightarrow> string \<Rightarrow> (conversion_error + mqtt_message) panics" where
  "smartrest_alarm_message L C T a pfx = do {
     payload \<leftarrow> serialize_alarm C T a;
     (case payload of
        Inl err \<Rightarrow> Some (Inl err)
      | Inr p \<Rightarrow> do { t \<leftarrow> ok (c8y_to_topic L pfx (c8y_topic_of_alarm a)); Some (Inr (message_new t p)) }) }"

definition alarm_message ::
  "rumqttc \<Rightarrow> serde \<Rightarrow> csv_lib \<Rightarrow> 't time_crate \<Rightarrow> 't c8y_alarm \<Rightarrow> string \<Rightarrow> (conversion_error + mqtt_message) panics" where
  "alarm_message L J C T a pfx =
     (case a of
        CreateAlarm created \<Rightarrow>
          if ca_fragments created \<noteq> [] then
            Some (case create_alarm_json T created of
                    None \<Rightarrow> Inl FormatTime
                  | Some v \<Rightarrow> Inr (message_new (topic_new_unchecked (pfx @ ''/alarm/alarms/create'')) (json_to_text J v)))
          else smartrest_alarm_message L C T a pfx
      | ClearAlarm _ \<Rightarrow> smartrest_alarm_message L C T a pfx)"

definition alarm_copy :: "mqtt_message \<Rightarrow> mqtt_message" where
  "alarm_copy input = with_retain (message_new
     (topic_new_unchecked (INTERNAL_ALARMS_TOPIC @ topic_name (mm_topic input))) (payload_bytes input))"

record 't alarm_env =
  av_mqtt :: rumqttc
  av_json :: serde
  av_csv :: csv_lib
  av_time :: "'t time_crate"
  av_prefix :: string

definition convert_synced_alarm ::
  "'t alarm_env \<Rightarrow> 't \<Rightarrow> entity_topic_id \<Rightarrow> string \<Rightarrow> entity_type \<Rightarrow> mqtt_message \<Rightarrow> string
     \<Rightarrow> (conversion_error + mqtt_message list) panics" where
  "convert_synced_alarm E now source external_id ty input alarm_type =
     (case from_utf8 (payload_bytes input) of
        None \<Rightarrow> Some (Inl (FailedToParsePayloadToString (topic_name (mm_topic input))))
      | Some payload \<Rightarrow>
          do {
            alarm_or_err \<leftarrow> tedge_alarm_try_from (av_json E) (av_time E) alarm_type source payload;
            case alarm_or_err of
              Inl err \<Rightarrow> Some (Inl err)
            | Inr alarm \<Rightarrow> do {
                message \<leftarrow> alarm_message (av_mqtt E) (av_json E) (av_csv E) (av_time E)
                  (c8y_alarm_from now alarm external_id ty) (av_prefix E);
                Some (case message of Inl err \<Rightarrow> Inl err | Inr m \<Rightarrow> Inr [m, alarm_copy input]) } })"

definition try_convert_alarm ::
  "'t alarm_env \<Rightarrow> 't \<Rightarrow> entity_topic_id \<Rightarrow> string \<Rightarrow> entity_type \<Rightarrow> mqtt_message \<Rightarrow> string \<Rightarrow> alarm_converter
     \<Rightarrow> ((conversion_error + mqtt_message list) \<times> alarm_converter) panics" where
  "try_convert_alarm E now source external_id ty input alarm_type conv =
     (case conv of
        Syncing pending_alarms old_alarms \<Rightarrow>
          Some (Inr [], Syncing (hm_insert (topic_name (mm_topic input)) input pending_alarms) old_alarms)
      | Synced \<Rightarrow>
          map_option (\<lambda>res. (res, Synced)) (convert_synced_alarm E now source external_id ty input alarm_type))"

definition process_internal_alarm :: "mqtt_message \<Rightarrow> alarm_converter \<Rightarrow> alarm_converter panics" where
  "process_internal_alarm input conv =
     (case conv of
        Syncing pending_alarms old_alarms \<Rightarrow> do {
          alarm_id \<leftarrow> strip_prefix INTERNAL_ALARMS_TOPIC (topic_name (mm_topic input));
          Some (Syncing pending_alarms (hm_insert alarm_id input old_alarms)) }
      | Synced \<Rightarrow> Some Synced)"

text \<open>The loop over the old alarms, with the pending alarms and the messages so far.\<close>

definition sync_old ::
  "string \<times> mqtt_message \<Rightarrow> (string, mqtt_message) hmap \<times> mqtt_message list \<Rightarrow> (string, mqtt_message) hmap \<times> mqtt_message list" where
  "sync_old = (\<lambda>(alarm_id, old_message) (pending_alarms, sync_messages).
     case hm_get pending_alarms alarm_id of
       None \<Rightarrow> (pending_alarms, sync_messages @ [with_retain (message_new (topic_new_unchecked alarm_id) [])])
     | Some m \<Rightarrow>
         (if payload_bytes m = payload_bytes old_message then hm_remove alarm_id pending_alarms else pending_alarms,
          sync_messages))"

definition alarm_sync :: "alarm_converter \<Rightarrow> mqtt_message list \<times> alarm_converter" where
  "alarm_sync conv =
     (case conv of
        Syncing pending_alarms old_alarms \<Rightarrow>
          (case fold sync_old old_alarms (pending_alarms, []) of
             (pending_alarms, sync_messages) \<Rightarrow> (sync_messages @ map snd pending_alarms, Syncing [] []))
      | Synced \<Rightarrow> ([], Synced))"

text \<open>\<^verbatim>\<open>CumulocityConverter::sync_messages\<close>: after the synchronisation the alarms are converted as they come.\<close>

definition sync_messages :: "alarm_converter \<Rightarrow> mqtt_message list \<times> alarm_converter" where
  "sync_messages conv = (fst (alarm_sync conv), Synced)"

definition size_threshold_validate :: "nat \<Rightarrow> mqtt_message \<Rightarrow> conversion_error option" where
  "size_threshold_validate threshold input =
     (if threshold < length (payload_bytes input) then Some (SizeThresholdExceeded (length (payload_bytes input)) threshold)
      else None)"

definition process_alarm_messages ::
  "'t alarm_env \<Rightarrow> 't \<Rightarrow> nat \<Rightarrow> entity_cache \<Rightarrow> entity_topic_id \<Rightarrow> mqtt_message \<Rightarrow> string \<Rightarrow> alarm_converter
     \<Rightarrow> ((conversion_error + mqtt_message list) \<times> alarm_converter) panics" where
  "process_alarm_messages E now threshold cache source input alarm_type conv =
     (case size_threshold_validate threshold input of
        Some err \<Rightarrow> Some (Inl err, conv)
      | None \<Rightarrow>
          (case cache_try_get source cache of
             Inl err \<Rightarrow> Some (Inl (FromEntityCache err), conv)
           | Inr e \<Rightarrow> try_convert_alarm E now source (ce_external_id e) (em_type (ce_metadata e)) input alarm_type conv))"

section \<open>Reconciliation after a restart\<close>

text \<open>What the converter should send: a clear for each alarm that is gone, and each alarm that is new or has changed.\<close>

definition missed_alarms :: "(string, mqtt_message) hmap \<Rightarrow> (string, mqtt_message) hmap \<Rightarrow> mqtt_message list" where
  "missed_alarms pending old =
     map (\<lambda>(i, _). with_retain (message_new (topic_new_unchecked i) [])) (filter (\<lambda>(i, _). hm_get pending i = None) old)
     @ map snd (filter (\<lambda>(i, m). map_option payload_bytes (hm_get old i) \<noteq> Some (payload_bytes m)) pending)"

lemma delete_filter: "AList.delete k m = filter (\<lambda>(k', _). k' \<noteq> k) m"
  by (auto simp: AList.delete_eq case_prod_unfold intro: filter_cong)

lemma fold_sync_old:
  assumes "hm_wf old" "hm_wf pending"
  shows "fold sync_old old (pending, acc) =
     (filter (\<lambda>(i, m). map_option payload_bytes (hm_get old i) \<noteq> Some (payload_bytes m)) pending,
      acc @ map (\<lambda>(i, _). with_retain (message_new (topic_new_unchecked i) [])) (filter (\<lambda>(i, _). hm_get pending i = None) old))"
  using assms
proof (induction old arbitrary: pending acc)
  case (Cons x old)
  obtain i old_message where x: "x = (i, old_message)" by (cases x)
  have new: "i \<notin> fst ` set old" "hm_wf old" using Cons.prems(1) by (simp_all add: x)
  then have None: "hm_get old i = None" by (simp add: map_of_eq_None_iff)
  have old_keys: "j \<noteq> i" if "(j, m) \<in> set old" for j m using that new(1) by force
  show ?case
  proof (cases "hm_get pending i")
    case None
    then have "j \<noteq> i" if "(j, m) \<in> set pending" for j m using that by (force simp: map_of_eq_None_iff)
    then have "filter (\<lambda>(j, m). map_option payload_bytes (hm_get ((i, old_message) # old) j) \<noteq> Some (payload_bytes m)) pending
        = filter (\<lambda>(j, m). map_option payload_bytes (hm_get old j) \<noteq> Some (payload_bytes m)) pending"
      by (intro filter_cong) auto
    with None Cons.IH [OF new(2) Cons.prems(2)] show ?thesis by (simp add: x sync_old_def)
  next
    case (Some m)
    let ?rest = "if payload_bytes m = payload_bytes old_message then hm_remove i pending else pending"
    have uniq: "m' = m" if "(i, m') \<in> set pending" for m' using that Some Cons.prems(2) by (simp add: map_of_eq_Some_iff)
    have "filter (\<lambda>(j, m). map_option payload_bytes (hm_get old j) \<noteq> Some (payload_bytes m)) ?rest
        = filter (\<lambda>(j, m). map_option payload_bytes (hm_get ((i, old_message) # old) j) \<noteq> Some (payload_bytes m)) pending"
      using uniq None by (auto simp: delete_filter intro!: filter_cong split: if_splits)
    moreover have "filter (\<lambda>(j, _). hm_get ?rest j = None) old = filter (\<lambda>(j, _). hm_get pending j = None) old"
      using old_keys by (intro filter_cong) (auto simp: delete_conv' split: if_splits)
    moreover have "hm_wf ?rest" using Cons.prems(2) by (simp add: distinct_delete)
    ultimately show ?thesis using Cons.IH [OF new(2), of ?rest acc] Some by (simp add: x sync_old_def)
  qed
qed simp

lemma alarm_sync_missed:
  "hm_wf old \<Longrightarrow> hm_wf pending \<Longrightarrow> fst (sync_messages (Syncing pending old)) = missed_alarms pending old"
  by (simp add: sync_messages_def alarm_sync_def fold_sync_old missed_alarms_def)

text \<open>The retained messages of the broker.\<close>

definition broker_retain :: "mqtt_message \<Rightarrow> (string \<rightharpoonup> string) \<Rightarrow> (string \<rightharpoonup> string)" where
  "broker_retain m R =
     (if mm_retain m then R(topic_name (mm_topic m) := (if payload_bytes m = [] then None else Some (payload_bytes m))) else R)"

lemma converted_alarm:
  assumes "try_convert_alarm E now source xid ty m t Synced = Some (Inr out, conv)"
  shows "\<exists>c. out = [c, alarm_copy m] \<and> \<not> mm_retain c"
  using assms
  by (auto simp: try_convert_alarm_def convert_synced_alarm_def alarm_message_def smartrest_alarm_message_def message_new_def
      split: option.splits sum.splits bind_splits c8y_alarm.splits if_splits)

lemma fold_broker_copies:
  assumes "list_all2 (\<lambda>m out. \<exists>c. out = [c, alarm_copy m] \<and> \<not> mm_retain c) ms outs"
    and "distinct (map (topic_name \<circ> mm_topic) ms)" "\<forall>m \<in> set ms. payload_bytes m = [] \<or> last (payload_bytes m) \<noteq> CHR 0x00"
  shows "fold broker_retain (concat outs) R (INTERNAL_ALARMS_TOPIC @ i) =
     (case find (\<lambda>m. topic_name (mm_topic m) = i) ms of
        None \<Rightarrow> R (INTERNAL_ALARMS_TOPIC @ i)
      | Some m \<Rightarrow> if payload_bytes m = [] then None else Some (payload_bytes m))"
  using assms
proof (induction ms outs arbitrary: R rule: list_all2_induct)
  case (Cons m ms out outs)
  obtain c where out: "out = [c, alarm_copy m]" "\<not> mm_retain c" using Cons(1) by blast
  have "payload_bytes (alarm_copy m) = payload_bytes m"
    using Cons.prems(2) payload_bytes_text [of "payload_bytes m" "alarm_copy m"] by (simp add: alarm_copy_def)
  then have R: "fold broker_retain out R = R(INTERNAL_ALARMS_TOPIC @ topic_name (mm_topic m) :=
      (if payload_bytes m = [] then None else Some (payload_bytes m)))"
    using out(2) by (simp add: out(1) broker_retain_def alarm_copy_def with_retain_def topic_new_unchecked_def)
  have "find (\<lambda>m'. topic_name (mm_topic m') = topic_name (mm_topic m)) ms = None"
    unfolding find_None_iff using Cons.prems(1) by (auto simp: image_iff)
  moreover have IH: "fold broker_retain (concat outs) R' (INTERNAL_ALARMS_TOPIC @ i) =
     (case find (\<lambda>m. topic_name (mm_topic m) = i) ms of
        None \<Rightarrow> R' (INTERNAL_ALARMS_TOPIC @ i)
      | Some m \<Rightarrow> if payload_bytes m = [] then None else Some (payload_bytes m))" for R'
    using Cons.IH Cons.prems by simp
  ultimately show ?case
    by (cases "topic_name (mm_topic m) = i") (simp_all add: R IH split: option.split)
qed simp

lemma find_distinct:
  "distinct (map (f \<circ> g) ms) \<Longrightarrow> m \<in> set ms \<Longrightarrow> f (g m) = i \<Longrightarrow> find (\<lambda>m. f (g m) = i) ms = Some m"
  by (induction ms) force+

abbreviation clear_alarm :: "string \<Rightarrow> mqtt_message" where
  "clear_alarm i \<equiv> with_retain (message_new (topic_new_unchecked i) [])"

lemma clear_alarm_payload: "payload_bytes (clear_alarm i) = []"
  by (simp add: payload_bytes_def strip_suffix_def)

lemma missed_alarms_distinct:
  assumes "hm_wf pending" "hm_wf old" "\<forall>(i, m) \<in> set pending. topic_name (mm_topic m) = i"
  shows "distinct (map (topic_name \<circ> mm_topic) (missed_alarms pending old))"
proof -
  have "map (topic_name \<circ> mm_topic) (missed_alarms pending old) = map fst (filter (\<lambda>(i, _). hm_get pending i = None) old)
      @ map fst (filter (\<lambda>(i, m). map_option payload_bytes (hm_get old i) \<noteq> Some (payload_bytes m)) pending)"
    using assms(3) by (auto simp: missed_alarms_def case_prod_unfold topic_new_unchecked_def)
  then show ?thesis
    using assms(1,2) by (auto simp: distinct_map_filter map_of_eq_None_iff image_iff)
qed

lemma find_missed_alarm:
  assumes "hm_wf pending" "hm_wf old" "\<forall>(i, m) \<in> set pending. topic_name (mm_topic m) = i"
  shows "find (\<lambda>m. topic_name (mm_topic m) = i) (missed_alarms pending old) =
    (case hm_get pending i of
       None \<Rightarrow> map_option (\<lambda>_. clear_alarm i) (hm_get old i)
     | Some m \<Rightarrow> if map_option payload_bytes (hm_get old i) = Some (payload_bytes m) then None else Some m)"
proof -
  let ?ms = "missed_alarms pending old"
  note found = find_distinct [OF missed_alarms_distinct [OF assms]]
  have none: "find (\<lambda>m. topic_name (mm_topic m) = i) ?ms = None"
    if "hm_get pending i = None \<Longrightarrow> hm_get old i = None"
      "\<And>m. hm_get pending i = Some m \<Longrightarrow> map_option payload_bytes (hm_get old i) = Some (payload_bytes m)"
  proof -
    have keys: "topic_name (mm_topic m) = j" if "(j, m) \<in> set pending" for j m using assms(3) that by auto
    have "map_of pending i = Some m" if "(i, m) \<in> set pending" for m using that assms(1) by simp
    moreover have "map_of old i \<noteq> None" if "(i, m) \<in> set old" for m using that assms(2) by simp
    ultimately show ?thesis
      unfolding find_None_iff missed_alarms_def using that keys by (fastforce simp: topic_new_unchecked_def)
  qed
  show ?thesis
  proof (cases "hm_get pending i")
    case None
    show ?thesis
    proof (cases "hm_get old i")
      case (Some m)
      then have "clear_alarm i \<in> set ?ms" using None by (force simp: missed_alarms_def dest: map_of_SomeD)
      with None Some show ?thesis using found by (simp add: topic_new_unchecked_def)
    qed (use none None in simp)
  next
    case (Some m)
    then have m: "(i, m) \<in> set pending" "topic_name (mm_topic m) = i" using assms(3) by (auto dest: map_of_SomeD)
    show ?thesis
    proof (cases "map_option payload_bytes (hm_get old i) = Some (payload_bytes m)")
      case False
      then have "m \<in> set ?ms" using m(1) by (force simp: missed_alarms_def)
      with found m(2) Some False show ?thesis by auto
    qed (use none Some in auto)
  qed
qed

definition alarm_map :: "(string, mqtt_message) hmap \<Rightarrow> string \<rightharpoonup> string" where
  "alarm_map m i = (case hm_get m i of
     None \<Rightarrow> None | Some a \<Rightarrow> if payload_bytes a = [] then None else Some (payload_bytes a))"

text \<open>
  C16. The alarms are reconciled after a restart.  The messages of the synchronisation are a clear for each alarm of the
  journal that is gone, and each alarm that is new or whose payload has changed; and once they are converted,
  the journal that the broker retains agrees with the alarms that are raised.
\<close>

theorem alarms_reconciled:
  assumes "hm_wf pending" "hm_wf old" "\<forall>(i, m) \<in> set pending. topic_name (mm_topic m) = i"
    and "\<forall>(i, m) \<in> set pending. payload_bytes m = [] \<or> last (payload_bytes m) \<noteq> CHR 0x00"
    and "\<forall>i. R (INTERNAL_ALARMS_TOPIC @ i) = alarm_map old i"
    and "list_all2 (\<lambda>m out. \<exists>now source xid ty t. try_convert_alarm E now source xid ty m t Synced = Some (Inr out, Synced))
      (fst (sync_messages (Syncing pending old))) outs"
  shows "fst (sync_messages (Syncing pending old)) = missed_alarms pending old
    \<and> (\<forall>i. fold broker_retain (concat outs) R (INTERNAL_ALARMS_TOPIC @ i) = alarm_map pending i)"
proof -
  let ?ms = "missed_alarms pending old"
  have ms: "fst (sync_messages (Syncing pending old)) = ?ms" by (rule alarm_sync_missed [OF assms(2,1)])
  have conv: "list_all2 (\<lambda>m out. \<exists>c. out = [c, alarm_copy m] \<and> \<not> mm_retain c) ?ms outs"
    using assms(6) unfolding ms by (rule list_all2_mono) (blast dest: converted_alarm)
  have payloads: "\<forall>m \<in> set ?ms. payload_bytes m = [] \<or> last (payload_bytes m) \<noteq> CHR 0x00"
    using assms(4) clear_alarm_payload by (auto simp: missed_alarms_def)
  have "fold broker_retain (concat outs) R (INTERNAL_ALARMS_TOPIC @ i) = alarm_map pending i" for i
    unfolding fold_broker_copies [OF conv missed_alarms_distinct [OF assms(1-3)] payloads]
    using assms(5) find_missed_alarm [OF assms(1-3), of i]
    by (auto simp: alarm_map_def clear_alarm_payload split: option.splits if_splits)
  with ms show ?thesis by blast
qed

definition example_time :: "unit time_crate" where
  "example_time = \<lparr>time_of_str = (\<lambda>_. Some ()), time_of_unix = (\<lambda>_. Some ()), time_of_nanos = (\<lambda>_. Some ()),
     time_to_nanos = (\<lambda>_. 0), time_format = (\<lambda>_. Some ''2024-01-01T00:00:00Z'')\<rparr>"

definition example_alarm_env :: "unit alarm_env" where
  "example_alarm_env = \<lparr>av_mqtt = wildcard_free_mqtt, av_json = code_serde, av_csv = quoting_csv, av_time = example_time,
     av_prefix = ''c8y''\<rparr>"

definition example_alarm :: "string \<Rightarrow> string \<Rightarrow> string \<times> mqtt_message" where
  "example_alarm i t = (i, message_new (topic_new_unchecked i) (json_to_text code_serde (JObject [(''text'', JString t)])))"

definition example_raised :: "(string, mqtt_message) hmap" where
  "example_raised = [example_alarm ''te/device/main///a/fire'' ''hot'', example_alarm ''te/device/main///a/leak'' ''wet'']"

definition example_journal :: "(string, mqtt_message) hmap" where
  "example_journal = [example_alarm ''te/device/main///a/leak'' ''wet'', example_alarm ''te/device/main///a/door'' ''open'']"

definition example_convert :: "mqtt_message \<Rightarrow> ((conversion_error + mqtt_message list) \<times> alarm_converter) panics" where
  "example_convert m = try_convert_alarm example_alarm_env () ''device/main//'' ''dev'' MainDevice m ''alarm'' Synced"

definition converted :: "mqtt_message \<Rightarrow> mqtt_message list" where
  "converted m = (case example_convert m of Some (Inr out, _) \<Rightarrow> out | _ \<Rightarrow> [])"

text \<open>One alarm is new, one is known, one is gone: two messages, and the journal has the two alarms that are raised.\<close>

theorem alarms_reconciled_witness:
  "let ms = fst (sync_messages (Syncing example_raised example_journal)) in
   map (topic_name \<circ> mm_topic) ms = [''te/device/main///a/door'', ''te/device/main///a/fire'']
   \<and> (\<forall>i. fold broker_retain (concat (map converted ms))
          (\<lambda>t. strip_prefix INTERNAL_ALARMS_TOPIC t \<bind> alarm_map example_journal) (INTERNAL_ALARMS_TOPIC @ i)
        = alarm_map example_raised i)"
proof -
  let ?ms = "fst (sync_messages (Syncing example_raised example_journal))"
  have topics: "map (topic_name \<circ> mm_topic) ?ms = [''te/device/main///a/door'', ''te/device/main///a/fire'']" by code_simp
  have wf: "hm_wf example_raised" "hm_wf example_journal" by code_simp+
  have keys: "\<forall>(i, m) \<in> set example_raised. topic_name (mm_topic m) = i"
    "\<forall>(i, m) \<in> set example_raised. payload_bytes m = [] \<or> last (payload_bytes m) \<noteq> CHR 0x00" by code_simp+
  have "list_all (\<lambda>m. example_convert m = Some (Inr (converted m), Synced)) ?ms" by code_simp
  then have conv: "list_all2 (\<lambda>m out. \<exists>now source xid ty t. try_convert_alarm example_alarm_env now source xid ty m t Synced
      = Some (Inr out, Synced)) ?ms (map converted ?ms)"
    by (fastforce simp: list_all2_map2 list_all2_same list_all_iff example_convert_def)
  have "\<forall>i. (\<lambda>t. strip_prefix INTERNAL_ALARMS_TOPIC t \<bind> alarm_map example_journal) (INTERNAL_ALARMS_TOPIC @ i)
      = alarm_map example_journal i" by simp
  from alarms_reconciled [OF wf keys this conv] topics show ?thesis unfolding Let_def by blast
qed

section \<open>Long texts\<close>

lemma length_csv_quote: "length f \<le> length (csv_quote f)"
proof -
  have "length f \<le> length (concat (map (\<lambda>c. if c = quote then [quote, quote] else [c]) f))"
    by (induction f) auto
  then show ?thesis by (simp add: csv_quote_def)
qed

lemma length_join: "p \<in> set ps \<Longrightarrow> length p \<le> length (join_with c ps)"
  by (induction ps) (auto simp: join_Cons_cases)

lemma expect_payload_too_large:
  assumes "csv_rule C" "f \<in> set fs" "MAX_PAYLOAD_LIMIT_IN_BYTES < length f"
  shows "expect_payload C fs = None"
proof -
  let ?texts = "map (\<lambda>f. if needs_quotes f then csv_quote f else f) fs"
  have "fs \<noteq> [] \<and> fs \<noteq> [[]]" using assms(2,3) by auto
  then have row: "write_record C fs = join_with CHR '','' ?texts @ [newline]" using assms(1) by (simp add: csv_rule_def)
  have "length f \<le> length (if needs_quotes f then csv_quote f else f)" using length_csv_quote by auto
  also have "\<dots> \<le> length (join_with CHR '','' ?texts)" by (rule length_join) (use assms(2) in simp)
  finally show ?thesis using assms(3) by (simp add: expect_payload_def payload_serialize_def ok_def row)
qed

text \<open>
  An alarm without other fragments, with a text that is longer than the limit of SmartREST, makes the mapper panic,
  even if its message is within the limit of the mapper.
\<close>

lemma long_alarm_text_panics:
  assumes "csv_rule (av_csv E)" "\<forall>t. time_format (av_time E) t \<noteq> None" "cache_try_get source cache = Inr e"
    and "length (payload_bytes m) \<le> threshold" "payload_bytes m \<noteq> []" "from_utf8 (payload_bytes m) \<noteq> None"
    and "json_of_text (av_json E) (payload_bytes m) = Some v" "alarm_data_of_json (av_time E) v = Some (Some d)"
    and "ad_extras d = []" "ad_text d = Some t" "MAX_PAYLOAD_LIMIT_IN_BYTES < length t"
  shows "process_alarm_messages E now threshold cache source m alarm_type Synced = None"
proof -
  have utf8: "from_utf8 (payload_bytes m) = Some (payload_bytes m)"
    using assms(6) by (auto simp: from_utf8_def split: if_splits)
  have serialize: "serialize_alarm (av_csv E) (av_time E) (CreateAlarm a) = None" if "ca_text a = t" for a
    using assms(2) expect_payload_too_large [OF assms(1) _ assms(11)] that by (auto split: option.split)
  have "alarm_message L J (av_csv E) (av_time E)
      (c8y_alarm_from now \<lparr>tal_type = alarm_type, tal_source = source, tal_data = Some d\<rparr> xid ty) pfx = None" for L J xid ty pfx
    using assms(9,10) by (simp add: alarm_message_def smartrest_alarm_message_def c8y_alarm_from_def Let_def bt_remove_def serialize
        del: serialize_alarm.simps)
  moreover have "with_alarm_data d \<lparr>tal_type = alarm_type, tal_source = source, tal_data = None\<rparr>
      = \<lparr>tal_type = alarm_type, tal_source = source, tal_data = Some d\<rparr>"
    using assms(9) by (simp add: with_alarm_data_def bt_remove_def)
  ultimately show ?thesis
    using assms(3,4,5,7,8) utf8
    by (simp add: process_alarm_messages_def size_threshold_validate_def try_convert_alarm_def convert_synced_alarm_def
        tedge_alarm_try_from_def)
qed

text \<open>An alarm with a text of 16001 bytes, within the default limit of 16184 bytes.\<close>

definition text_serde :: serde where
  "text_serde = \<lparr>json_to_text = (\<lambda>_. ''x''), json_of_text = (\<lambda>s. Some (JObject [(''text'', JString s)]))\<rparr>"

lemma long_alarm_text_panics_instance:
  "process_alarm_messages (example_alarm_env\<lparr>av_json := text_serde\<rparr>) () 16184 (c8y_entity_cache schema_new ''dev'')
     default_main_device (message_new (topic_new_unchecked ''te/device/main///a/x'') (replicate 16001 CHR ''a'')) ''x'' Synced = None"
proof -
  let ?m = "message_new (topic_new_unchecked ''te/device/main///a/x'') (replicate 16001 CHR ''a'')"
  let ?E = "example_alarm_env\<lparr>av_json := text_serde\<rparr>"
  let ?d = "\<lparr>ad_severity = None, ad_text = Some (replicate 16001 CHR ''a''), ad_time = None, ad_extras = []\<rparr> :: unit alarm_data"
  have payload: "payload_bytes ?m = replicate 16001 CHR ''a''" by (rule payload_bytes_text) simp_all
  have "chars (replicate n CHR ''a'') = replicate n ''a''" for n by (induction n) (simp_all add: utf8_tail_def)
  then have "from_utf8 (payload_bytes ?m) \<noteq> None" unfolding payload by (simp add: from_utf8_def list_all_iff)
  moreover have "json_of_text (av_json ?E) (payload_bytes ?m) = Some (JObject [(''text'', JString (replicate 16001 CHR ''a''))])"
    "alarm_data_of_json (av_time ?E) (JObject [(''text'', JString (replicate 16001 CHR ''a''))]) = Some (Some ?d)"
    by (simp_all add: payload text_serde_def alarm_data_of_json_def optional_field_def bt_remove_def)
  moreover obtain e where "cache_try_get default_main_device (c8y_entity_cache schema_new ''dev'') = Inr e"
    by (simp add: cache_try_get_def c8y_entity_cache_def entity_cache_new_def)
  moreover have "csv_rule (av_csv ?E)" "\<forall>t. time_format (av_time ?E) t \<noteq> None"
    by (simp_all add: example_alarm_env_def example_time_def)
  ultimately show ?thesis
    by (intro long_alarm_text_panics [where e = e and d = ?d and t = "replicate 16001 CHR ''a''"]) (simp_all add: payload)
qed

end
