(* ===== verification/Measurements.thy ===== *)
theory Measurements
  imports Timestamps
begin

text \<open>
  Measurements in the format of thin-edge (\<^verbatim>\<open>tedge_api/src/measurement\<close>): the interface of a visitor of measurements, the
  parser that drives a visitor, the visitors that group measurements and that write them, and the writer of JSON
  texts (\<^verbatim>\<open>json_writer\<close>).  The parser works on the values that the streaming deserializer of \<^verbatim>\<open>serde_json\<close> hands out,
  one after the other, up to an error of syntax; the deserializer is a parameter of the code that calls the parser,
  and so are the texts \<^verbatim>\<open>serde_json\<close> writes for strings and numbers.  The excerpt of the input in an error is not
  modelled.
\<close>

section \<open>Results\<close>

type_synonym ('e, 'a) res = "('e + 'a) panics"

fun res_bind :: "('e, 'a) res \<Rightarrow> ('a \<Rightarrow> ('e, 'b) res) \<Rightarrow> ('e, 'b) res" where
  "res_bind None f = None"
| "res_bind (Some (Inl e)) f = Some (Inl e)"
| "res_bind (Some (Inr x)) f = f x"

definition res_ok :: "'a \<Rightarrow> ('e, 'a) res" where
  [simp]: "res_ok x = Some (Inr x)"

definition map_err :: "('e \<Rightarrow> 'f) \<Rightarrow> ('e, 'a) res \<Rightarrow> ('f, 'a) res" where
  "map_err f r = map_option (map_sum f id) r"

section \<open>Visitors\<close>

text \<open>\<^verbatim>\<open>MeasurementVisitor\<close>: the methods of a visitor with a state of type \<^typ>\<open>'s\<close> and errors of type \<^typ>\<open>'e\<close>.\<close>

record ('t, 'e, 's) visitor =
  visit_timestamp :: "'t \<Rightarrow> 's \<Rightarrow> ('e, 's) res"
  visit_measurement :: "string \<Rightarrow> f64 \<Rightarrow> 's \<Rightarrow> ('e, 's) res"
  visit_text_property :: "string \<Rightarrow> string \<Rightarrow> 's \<Rightarrow> ('e, 's) res"
  visit_start_group :: "string \<Rightarrow> 's \<Rightarrow> ('e, 's) res"
  visit_end_group :: "'s \<Rightarrow> ('e, 's) res"

definition visit_grouped_measurement ::
  "('t, 'e, 's) visitor \<Rightarrow> string \<Rightarrow> string \<Rightarrow> f64 \<Rightarrow> 's \<Rightarrow> ('e, 's) res" where
  "visit_grouped_measurement V grp name v s =
     res_bind (visit_start_group V grp s) (\<lambda>s.
     res_bind (visit_measurement V name v s) (\<lambda>s.
     visit_end_group V s))"

section \<open>Parser\<close>

text \<open>
  What the deserializer hands out for a value: a number as \<^verbatim>\<open>serde_json\<close> classifies it, a text, a map with its entries in
  the order of the text and whether its end is reached, a value of another type, or an error of syntax.
\<close>

datatype jevent =
    EFloat f64
  | EInt int
  | EUint nat
  | EStr string
  | EMap "(string \<times> jevent) list" bool
  | EOther
  | ESyntax

datatype 'e parser_error =
    SyntaxError
  | InvalidType
  | InvalidTime
  | NumberOutOfRange string
  | ExpectSingleValue
  | EmptyRoot
  | EmptyMeasurement string
  | VisitorError 'e

fun time_of_event :: "'t time_crate \<Rightarrow> jevent \<Rightarrow> ('e parser_error, 't) res" where
  "time_of_event T v =
     (let accept = (\<lambda>r. map_option (\<lambda>t. case t of None \<Rightarrow> Inl InvalidTime | Some t \<Rightarrow> Inr t) r) in
      case v of
        EFloat f \<Rightarrow> accept (unix_of_float T f)
      | EInt i \<Rightarrow> accept (unix_of_int T i)
      | EUint n \<Rightarrow> accept (unix_of_nat T n)
      | EStr s \<Rightarrow> accept (time_of_text T s)
      | ESyntax \<Rightarrow> Some (Inl SyntaxError)
      | _ \<Rightarrow> Some (Inl InvalidType))"

text \<open>\<^verbatim>\<open>ThinEdgeValueParser::visit_f64\<close>.\<close>

definition parse_f64 :: "('t, 'e, 's) visitor \<Rightarrow> string \<Rightarrow> f64 \<Rightarrow> 's \<Rightarrow> ('e parser_error, 's) res" where
  "parse_f64 V key v s =
     (if \<not> f64_is_zero v \<and> \<not> f64_is_normal v then Some (Inl (NumberOutOfRange key))
      else map_err VisitorError (visit_measurement V key v s))"

definition parse_i64 :: "('t, 'e, 's) visitor \<Rightarrow> string \<Rightarrow> int \<Rightarrow> 's \<Rightarrow> ('e parser_error, 's) res" where
  "parse_i64 V key i s =
     (if - (2 ^ 31) \<le> i \<and> i < 2 ^ 31 then parse_f64 V key (f64_of_int i) s
      else Some (Inl (NumberOutOfRange key)))"

definition parse_u64 :: "('t, 'e, 's) visitor \<Rightarrow> string \<Rightarrow> nat \<Rightarrow> 's \<Rightarrow> ('e parser_error, 's) res" where
  "parse_u64 V key n s =
     (if n < 2 ^ 32 then parse_f64 V key (f64_of_int (int n)) s
      else Some (Inl (NumberOutOfRange key)))"

text \<open>\<^verbatim>\<open>ThinEdgeValueParser\<close>, with the loop over the entries of a multi-value measurement.\<close>

fun parse_value ::
  "('t, 'e, 's) visitor \<Rightarrow> nat \<Rightarrow> string \<Rightarrow> jevent \<Rightarrow> 's \<Rightarrow> ('e parser_error, 's) res"
  and parse_entries ::
  "('t, 'e, 's) visitor \<Rightarrow> nat \<Rightarrow> (string \<times> jevent) list \<Rightarrow> 's \<Rightarrow> ('e parser_error, 's) res" where
  "parse_value V depth key (EFloat v) s = parse_f64 V key v s"
| "parse_value V depth key (EInt i) s = parse_i64 V key i s"
| "parse_value V depth key (EUint n) s = parse_u64 V key n s"
| "parse_value V depth key (EStr v) s = map_err VisitorError (visit_text_property V key v s)"
| "parse_value V depth key (EMap es closed) s =
     (if 0 < depth then Some (Inl ExpectSingleValue)
      else res_bind (map_err VisitorError (visit_start_group V key s)) (\<lambda>s.
           res_bind (parse_entries V (Suc depth) es s) (\<lambda>s.
           if \<not> closed then Some (Inl SyntaxError)
           else if es = [] then Some (Inl (EmptyMeasurement key))
           else map_err VisitorError (visit_end_group V s))))"
| "parse_value V depth key EOther s = Some (Inl InvalidType)"
| "parse_value V depth key ESyntax s = Some (Inl SyntaxError)"
| "parse_entries V depth [] s = Some (Inr s)"
| "parse_entries V depth ((key, v) # es) s =
     res_bind (parse_value V depth key v s) (\<lambda>s. parse_entries V depth es s)"

text \<open>The loop of \<^verbatim>\<open>ThinEdgeJsonParser::visit_map\<close>, with the number of measurements so far.\<close>

fun parse_root ::
  "'t time_crate \<Rightarrow> ('t, 'e, 's) visitor \<Rightarrow> (string \<times> jevent) list \<Rightarrow> nat \<Rightarrow> 's \<Rightarrow> ('e parser_error, nat \<times> 's) res" where
  "parse_root T V [] measurements_count s = Some (Inr (measurements_count, s))"
| "parse_root T V ((key, v) # es) measurements_count s =
     (if key = ''time''
      then res_bind (time_of_event T v) (\<lambda>t.
           res_bind (map_err VisitorError (visit_timestamp V t s)) (\<lambda>s.
           parse_root T V es measurements_count s))
      else res_bind (parse_value V 0 key v s) (\<lambda>s. parse_root T V es (Suc measurements_count) s))"

definition parse_event :: "'t time_crate \<Rightarrow> ('t, 'e, 's) visitor \<Rightarrow> jevent \<Rightarrow> 's \<Rightarrow> ('e parser_error, 's) res" where
  "parse_event T V v s =
     (case v of
        EMap es closed \<Rightarrow>
          res_bind (parse_root T V es 0 s) (\<lambda>(measurements_count, s).
          if \<not> closed then Some (Inl SyntaxError)
          else if measurements_count = 0 then Some (Inl EmptyRoot)
          else Some (Inr s))
      | ESyntax \<Rightarrow> Some (Inl SyntaxError)
      | _ \<Rightarrow> Some (Inl InvalidType))"

definition parse_str ::
  "'t time_crate \<Rightarrow> (string \<Rightarrow> jevent) \<Rightarrow> ('t, 'e, 's) visitor \<Rightarrow> string \<Rightarrow> 's \<Rightarrow> ('e parser_error, 's) res" where
  "parse_str T events V input s = parse_event T V (events input) s"

section \<open>Groups of measurements\<close>

datatype measurement = Single f64 | Multi "(string, f64) hmap"

record 't measurement_group =
  mg_timestamp :: "'t option"
  mg_values :: "(string, measurement) hmap"

definition measurement_group_new :: "'t measurement_group" where
  "measurement_group_new = \<lparr>mg_timestamp = None, mg_values = []\<rparr>"

definition mg_is_empty :: "'t measurement_group \<Rightarrow> bool" where
  "mg_is_empty g \<longleftrightarrow> mg_values g = []"

definition get_measurement_value :: "'t measurement_group \<Rightarrow> string option \<Rightarrow> string \<Rightarrow> f64 option" where
  "get_measurement_value g group_key measurement_key =
     (case group_key of
        Some group_key \<Rightarrow>
          (case hm_get (mg_values g) group_key of
             Some (Multi m) \<Rightarrow> hm_get m measurement_key
           | _ \<Rightarrow> None)
      | None \<Rightarrow>
          (case hm_get (mg_values g) measurement_key of
             Some (Single v) \<Rightarrow> Some v
           | _ \<Rightarrow> None))"

fun visit_values :: "('t, 'e, 's) visitor \<Rightarrow> (string \<times> f64) list \<Rightarrow> 's \<Rightarrow> ('e, 's) res" where
  "visit_values V [] s = Some (Inr s)"
| "visit_values V ((key, v) # vs) s = res_bind (visit_measurement V key v s) (visit_values V vs)"

fun accept_values :: "('t, 'e, 's) visitor \<Rightarrow> (string \<times> measurement) list \<Rightarrow> 's \<Rightarrow> ('e, 's) res" where
  "accept_values V [] s = Some (Inr s)"
| "accept_values V ((key, Single sv) # vs) s = res_bind (visit_measurement V key sv s) (accept_values V vs)"
| "accept_values V ((key, Multi m) # vs) s =
     res_bind (visit_start_group V key s) (\<lambda>s.
     res_bind (visit_values V m s) (\<lambda>s.
     res_bind (visit_end_group V s) (accept_values V vs)))"

definition group_accept :: "('t, 'e, 's) visitor \<Rightarrow> 't measurement_group \<Rightarrow> 's \<Rightarrow> ('e, 's) res" where
  "group_accept V g s =
     res_bind (case mg_timestamp g of Some t \<Rightarrow> visit_timestamp V t s | None \<Rightarrow> Some (Inr s))
       (accept_values V (mg_values g))"

record 't measurement_grouper =
  gr_group :: "'t measurement_group"
  gr_in_group :: bool
  gr_name :: string

datatype grouper_error =
    DuplicatedMeasurement string
  | DuplicatedSubMeasurement string string
  | GroupUnexpectedEnd
  | GroupUnexpectedStartOfGroup
  | GroupUnexpectedEndOfGroup

definition grouper_new :: "'t measurement_grouper" where
  "grouper_new = \<lparr>gr_group = measurement_group_new, gr_in_group = False, gr_name = []\<rparr>"

definition grouper_end :: "'t measurement_grouper \<Rightarrow> (grouper_error, 't measurement_group) res" where
  "grouper_end g = (if gr_in_group g then Some (Inl GroupUnexpectedEnd) else Some (Inr (gr_group g)))"

definition grouper_timestamp :: "'t \<Rightarrow> 't measurement_grouper \<Rightarrow> (grouper_error, 't measurement_grouper) res" where
  "grouper_timestamp t g = Some (Inr (g\<lparr>gr_group := (gr_group g)\<lparr>mg_timestamp := Some t\<rparr>\<rparr>))"

definition grouper_start_group :: "string \<Rightarrow> 't measurement_grouper \<Rightarrow> (grouper_error, 't measurement_grouper) res" where
  "grouper_start_group grp g =
     (if gr_in_group g then Some (Inl GroupUnexpectedStartOfGroup)
      else Some (Inr (g\<lparr>gr_in_group := True, gr_name := grp\<rparr>)))"

definition grouper_end_group :: "'t measurement_grouper \<Rightarrow> (grouper_error, 't measurement_grouper) res" where
  "grouper_end_group g =
     (if gr_in_group g then Some (Inr (g\<lparr>gr_in_group := False, gr_name := []\<rparr>))
      else Some (Inl GroupUnexpectedEndOfGroup))"

definition grouper_measurement ::
  "string \<Rightarrow> f64 \<Rightarrow> 't measurement_grouper \<Rightarrow> (grouper_error, 't measurement_grouper) res" where
  "grouper_measurement name v g =
     (let m = gr_group g; vs = mg_values m;
          vs' = (if \<not> gr_in_group g then hm_insert name (Single v) vs
                 else case hm_get vs (gr_name g) of
                        None \<Rightarrow> hm_insert (gr_name g) (Multi (hm_insert name v [])) vs
                      | Some (Multi group_map) \<Rightarrow> hm_insert (gr_name g) (Multi (hm_insert name v group_map)) vs
                      | Some (Single _) \<Rightarrow> vs)
      in Some (Inr (g\<lparr>gr_group := m\<lparr>mg_values := vs'\<rparr>\<rparr>)))"

definition grouper_text_property ::
  "string \<Rightarrow> string \<Rightarrow> 't measurement_grouper \<Rightarrow> (grouper_error, 't measurement_grouper) res" where
  "grouper_text_property name v g = Some (Inr g)"

definition grouper_visitor :: "('t, grouper_error, 't measurement_grouper) visitor" where
  "grouper_visitor = \<lparr>visit_timestamp = grouper_timestamp, visit_measurement = grouper_measurement,
     visit_text_property = grouper_text_property, visit_start_group = grouper_start_group,
     visit_end_group = grouper_end_group\<rparr>"

section \<open>JSON writer\<close>

record json_texts =
  text_of_str :: "string \<Rightarrow> string"
  text_of_f64 :: "f64 \<Rightarrow> string"

record json_writer =
  jw_buffer :: string
  jw_needs_separator :: bool

datatype json_writer_error = InvalidF64Value f64

definition json_writer_new :: json_writer where
  "json_writer_new = \<lparr>jw_buffer = [], jw_needs_separator = False\<rparr>"

definition jw_push :: "string \<Rightarrow> json_writer \<Rightarrow> json_writer" where
  "jw_push t w = w\<lparr>jw_buffer := jw_buffer w @ t\<rparr>"

definition maybe_separate :: "json_writer \<Rightarrow> json_writer" where
  "maybe_separate w =
     (if jw_needs_separator w then (jw_push '','' w)\<lparr>jw_needs_separator := False\<rparr> else w)"

definition write_key :: "json_texts \<Rightarrow> string \<Rightarrow> json_writer \<Rightarrow> json_writer" where
  "write_key Q key w =
     (jw_push '':'' (jw_push (text_of_str Q key) (maybe_separate w)))\<lparr>jw_needs_separator := False\<rparr>"

definition write_str :: "json_texts \<Rightarrow> string \<Rightarrow> json_writer \<Rightarrow> json_writer" where
  "write_str Q s w = (jw_push (text_of_str Q s) (maybe_separate w))\<lparr>jw_needs_separator := True\<rparr>"

definition write_f64 :: "json_texts \<Rightarrow> f64 \<Rightarrow> json_writer \<Rightarrow> json_writer_error + json_writer" where
  "write_f64 Q v w =
     (let w = maybe_separate w in
      if f64_is_finite v then Inr ((jw_push (text_of_f64 Q v) w)\<lparr>jw_needs_separator := True\<rparr>)
      else Inl (InvalidF64Value v))"

definition write_open_obj :: "json_writer \<Rightarrow> json_writer" where
  "write_open_obj w = jw_push ''{'' (maybe_separate w)"

definition write_close_obj :: "json_writer \<Rightarrow> json_writer" where
  "write_close_obj w = (jw_push ''}'' w)\<lparr>jw_needs_separator := True\<rparr>"

text \<open>The buffer is made of texts: its conversion to a string does not fail.\<close>

definition jw_into_string :: "json_writer \<Rightarrow> string" where
  "jw_into_string w = jw_buffer w"

section \<open>Serializer of measurements\<close>

datatype stream_error =
    UnexpectedTimestamp
  | UnexpectedEndOfData
  | UnexpectedEndOfGroup
  | UnexpectedStartOfGroup

datatype serialization_error =
    FromTimeFormatError
  | MeasurementCollectorError stream_error
  | JsonWriterError json_writer_error

record 't json_serializer =
  js_json :: json_writer
  js_within_group :: bool
  js_default_timestamp :: "'t option"
  js_timestamp_present :: bool

definition serializer_new_with_timestamp :: "'t option \<Rightarrow> 't json_serializer" where
  "serializer_new_with_timestamp default_timestamp =
     \<lparr>js_json = write_open_obj json_writer_new, js_within_group = False,
      js_default_timestamp = default_timestamp, js_timestamp_present = False\<rparr>"

definition serializer_new :: "'t json_serializer" where
  "serializer_new = serializer_new_with_timestamp None"

definition serializer_timestamp ::
  "'t time_crate \<Rightarrow> json_texts \<Rightarrow> 't \<Rightarrow> 't json_serializer \<Rightarrow> (serialization_error, 't json_serializer) res" where
  "serializer_timestamp T Q t s =
     (if js_within_group s then Some (Inl (MeasurementCollectorError UnexpectedTimestamp))
      else case time_format T t of
             None \<Rightarrow> Some (Inl FromTimeFormatError)
           | Some txt \<Rightarrow>
               Some (Inr (s\<lparr>js_json := write_str Q txt (write_key Q ''time'' (js_json s)), js_timestamp_present := True\<rparr>)))"

definition serializer_measurement ::
  "json_texts \<Rightarrow> string \<Rightarrow> f64 \<Rightarrow> 't json_serializer \<Rightarrow> (serialization_error, 't json_serializer) res" where
  "serializer_measurement Q name v s =
     (case write_f64 Q v (write_key Q name (js_json s)) of
        Inl err \<Rightarrow> Some (Inl (JsonWriterError err))
      | Inr w \<Rightarrow> Some (Inr (s\<lparr>js_json := w\<rparr>)))"

definition serializer_start_group ::
  "json_texts \<Rightarrow> string \<Rightarrow> 't json_serializer \<Rightarrow> (serialization_error, 't json_serializer) res" where
  "serializer_start_group Q grp s =
     (if js_within_group s then Some (Inl (MeasurementCollectorError UnexpectedStartOfGroup))
      else Some (Inr (s\<lparr>js_json := write_open_obj (write_key Q grp (js_json s)), js_within_group := True\<rparr>)))"

definition serializer_end_group :: "'t json_serializer \<Rightarrow> (serialization_error, 't json_serializer) res" where
  "serializer_end_group s =
     (if \<not> js_within_group s then Some (Inl (MeasurementCollectorError UnexpectedEndOfGroup))
      else Some (Inr (s\<lparr>js_json := write_close_obj (js_json s), js_within_group := False\<rparr>)))"

definition serializer_text_property ::
  "string \<Rightarrow> string \<Rightarrow> 't json_serializer \<Rightarrow> (serialization_error, 't json_serializer) res" where
  "serializer_text_property name v s = Some (Inr s)"

definition serializer_end ::
  "'t time_crate \<Rightarrow> json_texts \<Rightarrow> 't json_serializer \<Rightarrow> (serialization_error, 't json_serializer) res" where
  "serializer_end T Q s =
     (if js_within_group s then Some (Inl (MeasurementCollectorError UnexpectedEndOfData))
      else res_bind
        (case js_default_timestamp s of
           Some t \<Rightarrow> if js_timestamp_present s then Some (Inr s) else serializer_timestamp T Q t s
         | None \<Rightarrow> Some (Inr s))
        (\<lambda>s. Some (Inr (s\<lparr>js_json := write_close_obj (js_json s)\<rparr>))))"

definition serializer_into_string ::
  "'t time_crate \<Rightarrow> json_texts \<Rightarrow> 't json_serializer \<Rightarrow> (serialization_error, string) res" where
  "serializer_into_string T Q s =
     res_bind (serializer_end T Q s) (\<lambda>s. Some (Inr (jw_into_string (js_json s))))"

definition serializer_visitor ::
  "'t time_crate \<Rightarrow> json_texts \<Rightarrow> ('t, serialization_error, 't json_serializer) visitor" where
  "serializer_visitor T Q = \<lparr>visit_timestamp = serializer_timestamp T Q, visit_measurement = serializer_measurement Q,
     visit_text_property = serializer_text_property, visit_start_group = serializer_start_group Q,
     visit_end_group = serializer_end_group\<rparr>"

section \<open>Laws of results\<close>

lemma res_bind_Inr:
  "res_bind r f = Some (Inr y) \<longleftrightarrow> (\<exists>x. r = Some (Inr x) \<and> f x = Some (Inr y))"
  by (cases "(r, f)" rule: res_bind.cases) auto

lemma res_bind_Inl:
  "res_bind r f = Some (Inl e) \<longleftrightarrow> r = Some (Inl e) \<or> (\<exists>x. r = Some (Inr x) \<and> f x = Some (Inl e))"
  by (cases "(r, f)" rule: res_bind.cases) auto

lemma map_err_Inr [simp]: "map_err f r = Some (Inr x) \<longleftrightarrow> r = Some (Inr x)"
  by (cases r; cases "the r") (auto simp: map_err_def)

lemma map_err_Inl: "map_err f r = Some (Inl e) \<longleftrightarrow> (\<exists>e'. r = Some (Inl e') \<and> e = f e')"
  by (cases r; cases "the r") (auto simp: map_err_def)

lemma map_err_simps [simp]:
  "map_err f None = None" "map_err f (Some (Inl e)) = Some (Inl (f e))" "map_err f (Some (Inr x)) = Some (Inr x)"
  by (simp_all add: map_err_def)

lemmas res_elims = res_bind_Inr res_bind_Inl map_err_Inl

section \<open>The contract of a visitor\<close>

text \<open>
  A visitor is either within a group or not.  It may refuse a call that does not fit, with an error of the kind
  \<open>misuse\<close>: a timestamp or the start of a group within a group, the end of a group outside.  The clients of the
  interface, the parser and the groups of measurements, never cause such an error, and leave the visitor outside
  of any group.
\<close>

locale measurement_visitor =
  fixes V :: "('t, 'e, 's) visitor"
    and within :: "'s \<Rightarrow> bool"
    and misuse :: "'e \<Rightarrow> bool"
  assumes timestamp_error: "\<not> within s \<Longrightarrow> visit_timestamp V t s = Some (Inl e) \<Longrightarrow> \<not> misuse e"
    and timestamp_within: "visit_timestamp V t s = Some (Inr s') \<Longrightarrow> within s' = within s"
    and measurement_error: "visit_measurement V k v s = Some (Inl e) \<Longrightarrow> \<not> misuse e"
    and measurement_within: "visit_measurement V k v s = Some (Inr s') \<Longrightarrow> within s' = within s"
    and text_error: "visit_text_property V k x s = Some (Inl e) \<Longrightarrow> \<not> misuse e"
    and text_within: "visit_text_property V k x s = Some (Inr s') \<Longrightarrow> within s' = within s"
    and start_error: "\<not> within s \<Longrightarrow> visit_start_group V k s = Some (Inl e) \<Longrightarrow> \<not> misuse e"
    and start_within: "visit_start_group V k s = Some (Inr s') \<Longrightarrow> within s'"
    and end_error: "within s \<Longrightarrow> visit_end_group V s = Some (Inl e) \<Longrightarrow> \<not> misuse e"
    and end_within: "visit_end_group V s = Some (Inr s') \<Longrightarrow> \<not> within s'"
begin

definition kept :: "bool \<Rightarrow> ('e, 's) res \<Rightarrow> bool" where
  "kept b r \<longleftrightarrow> (\<forall>s. r = Some (Inr s) \<longrightarrow> within s = b) \<and> (\<forall>e. r = Some (Inl e) \<longrightarrow> \<not> misuse e)"

definition parser_res :: "('a \<Rightarrow> bool) \<Rightarrow> ('e parser_error, 'a) res \<Rightarrow> bool" where
  "parser_res P r \<longleftrightarrow>
     (\<forall>x. r = Some (Inr x) \<longrightarrow> P x) \<and> (\<forall>e. r = Some (Inl (VisitorError e)) \<longrightarrow> \<not> misuse e)"

abbreviation parser_kept :: "bool \<Rightarrow> ('e parser_error, 's) res \<Rightarrow> bool" where
  "parser_kept b \<equiv> parser_res (\<lambda>s. within s = b)"

lemma kept_calls:
  shows "\<not> within s \<Longrightarrow> kept False (visit_timestamp V t s)"
    and "kept (within s) (visit_measurement V k v s)"
    and "kept (within s) (visit_text_property V k x s)"
    and "\<not> within s \<Longrightarrow> kept True (visit_start_group V k s)"
    and "within s \<Longrightarrow> kept False (visit_end_group V s)"
  by (simp_all add: kept_def timestamp_error timestamp_within measurement_error measurement_within text_error text_within
      start_error start_within end_error end_within)

lemma kept_bind: "kept b r \<Longrightarrow> (\<And>s. within s = b \<Longrightarrow> kept c (f s)) \<Longrightarrow> kept c (res_bind r f)"
  unfolding kept_def res_bind_Inr res_bind_Inl by blast

lemma parser_res_bind:
  "parser_res P r \<Longrightarrow> (\<And>x. P x \<Longrightarrow> parser_res R (f x)) \<Longrightarrow> parser_res R (res_bind r f)"
  unfolding parser_res_def res_bind_Inr res_bind_Inl by blast

lemma parser_kept_visit: "kept b r \<Longrightarrow> parser_kept b (map_err VisitorError r)"
  unfolding parser_res_def kept_def by (auto simp: map_err_Inl)

lemma parser_res_error [simp]: "(\<And>e'. e \<noteq> VisitorError e') \<Longrightarrow> parser_res P (Some (Inl e))"
  by (simp add: parser_res_def)

lemma parser_res_value [simp]: "parser_res P (Some (Inr x)) = P x"
  by (simp add: parser_res_def)

lemma time_of_event_res: "parser_res (\<lambda>_. True) (time_of_event T v)"
  by (cases v) (auto simp: parser_res_def Let_def split: option.splits)

lemma parser_kept_f64 [simp]: "parser_kept (within s) (parse_f64 V k v s)"
  by (simp add: parse_f64_def parser_kept_visit kept_calls)

lemma parse_scalar_kept:
  "0 < d \<or> (\<forall>es c. v \<noteq> EMap es c) \<Longrightarrow> parser_kept (within s) (parse_value V d k v s)"
  by (cases v) (auto simp: parse_i64_def parse_u64_def parser_kept_visit kept_calls)

lemma parse_entries_kept: "within s \<Longrightarrow> parser_kept True (parse_entries V (Suc d) es s)"
proof (induction es arbitrary: s)
  case (Cons e es)
  obtain k v where "e = (k, v)" by (cases e)
  with Cons parse_scalar_kept [of "Suc d" v s k] show ?case
    by (simp add: parser_res_bind [where P = within])
qed simp

lemma parse_value_kept: "\<not> within s \<Longrightarrow> parser_kept False (parse_value V 0 k v s)"
proof (cases "\<exists>es c. v = EMap es c")
  case True
  then obtain es closed where v: "v = EMap es closed" by blast
  assume "\<not> within s"
  then have start: "parser_kept True (map_err VisitorError (visit_start_group V k s))"
    by (intro parser_kept_visit kept_calls)
  have "parser_kept False (if \<not> closed then Some (Inl SyntaxError) else if es = [] then Some (Inl (EmptyMeasurement k))
      else map_err VisitorError (visit_end_group V s))" if "within s" for s
    using parser_kept_visit [OF kept_calls(5) [OF that]] by simp
  then have "parser_kept False (res_bind (parse_entries V (Suc 0) es s) (\<lambda>s. if \<not> closed then Some (Inl SyntaxError)
      else if es = [] then Some (Inl (EmptyMeasurement k)) else map_err VisitorError (visit_end_group V s)))" if "within s" for s
    by (intro parser_res_bind [OF parse_entries_kept [OF that]]) simp
  then show ?thesis unfolding v by (simp add: parser_res_bind [OF start])
next
  case False
  assume "\<not> within s"
  with False parse_scalar_kept [of 0 v s k] show ?thesis by simp
qed

lemma parse_root_kept: "\<not> within s \<Longrightarrow> parser_res (\<lambda>(n, s). \<not> within s) (parse_root T V es n s)"
proof (induction es arbitrary: s n)
  case (Cons x es)
  obtain k v where x: "x = (k, v)" by (cases x)
  have "parser_res (\<lambda>(n, s). \<not> within s) (res_bind (map_err VisitorError (visit_timestamp V t s)) (parse_root T V es n))" for t n
    using parser_kept_visit [OF kept_calls(1) [OF Cons.prems]] Cons.IH by (rule parser_res_bind) simp
  then have "parser_res (\<lambda>(n, s). \<not> within s) (res_bind (time_of_event T v) (\<lambda>t.
      res_bind (map_err VisitorError (visit_timestamp V t s)) (parse_root T V es n)))" for n
    by (rule parser_res_bind [OF time_of_event_res])
  moreover have "parser_res (\<lambda>(n, s). \<not> within s) (res_bind (parse_value V 0 k v s) (parse_root T V es n))" for n
    using parse_value_kept [OF Cons.prems] Cons.IH by (rule parser_res_bind) simp
  ultimately show ?case unfolding x by (simp del: time_of_event.simps)
qed simp

lemma parse_event_kept: "\<not> within s \<Longrightarrow> parser_kept False (parse_event T V v s)"
  by (cases v) (auto simp: parse_event_def intro: parser_res_bind [OF parse_root_kept])

lemma visit_values_kept: "within s = b \<Longrightarrow> kept b (visit_values V vs s)"
proof (induction vs arbitrary: s)
  case (Cons x vs)
  then show ?case by (cases x) (auto intro: kept_bind [OF kept_calls(2)])
qed (simp add: kept_def)

lemma accept_values_kept: "\<not> within s \<Longrightarrow> kept False (accept_values V vs s)"
proof (induction vs arbitrary: s)
  case (Cons x vs)
  obtain k m where x: "x = (k, m)" by (cases x)
  show ?case
  proof (cases m)
    case (Single v)
    with Cons x kept_calls(2) [of s k v] show ?thesis by (auto intro: kept_bind)
  next
    case (Multi vs')
    have "kept False (res_bind (visit_end_group V s) (accept_values V vs))" if "within s" for s
      using kept_calls(5) [OF that] Cons.IH by (rule kept_bind) simp
    then have "kept False (res_bind (visit_values V vs' s) (\<lambda>s. res_bind (visit_end_group V s) (accept_values V vs)))"
      if "within s" for s
      using that by (auto intro: kept_bind [OF visit_values_kept [where b = True]])
    with kept_calls(4) [OF Cons.prems] show ?thesis
      unfolding x Multi accept_values.simps by (rule kept_bind) simp
  qed
qed (simp add: kept_def)

lemma group_accept_kept: "\<not> within s \<Longrightarrow> kept False (group_accept V g s)"
  unfolding group_accept_def
  by (rule kept_bind [where b = False])
    (auto simp: kept_calls accept_values_kept split: option.split, simp add: kept_def)

lemma visit_grouped_kept: "\<not> within s \<Longrightarrow> kept False (visit_grouped_measurement V k n v s)"
  unfolding visit_grouped_measurement_def
  by (intro kept_bind [OF kept_calls(4)] kept_bind [OF kept_calls(2)]) (simp_all add: kept_calls)

end

text \<open>The grouper and the serializer are visitors.\<close>

interpretation grouper: measurement_visitor grouper_visitor gr_in_group
  "\<lambda>e. e = GroupUnexpectedStartOfGroup \<or> e = GroupUnexpectedEndOfGroup"
  by unfold_locales
    (auto simp: grouper_visitor_def grouper_timestamp_def grouper_measurement_def grouper_text_property_def
      grouper_start_group_def grouper_end_group_def Let_def split: if_splits)

interpretation serializer: measurement_visitor "serializer_visitor T Q" js_within_group
  "\<lambda>e. \<exists>m. e = MeasurementCollectorError m"
  by unfold_locales
    (auto simp: serializer_visitor_def serializer_timestamp_def serializer_measurement_def serializer_text_property_def
      serializer_start_group_def serializer_end_group_def split: if_splits option.splits sum.splits)

section \<open>Texts of JSON documents\<close>

text \<open>The documents the writers produce, and their texts.\<close>

datatype jdoc = DStr string | DNum f64 | DObj "(string \<times> jdoc) list"

fun print_doc :: "json_texts \<Rightarrow> jdoc \<Rightarrow> string" where
  "print_doc Q (DStr s) = text_of_str Q s"
| "print_doc Q (DNum v) = text_of_f64 Q v"
| "print_doc Q (DObj fs) =
     ''{'' @ join_with CHR '','' (map (\<lambda>(k, d). text_of_str Q k @ '':'' @ print_doc Q d) fs) @ ''}''"

definition print_field :: "json_texts \<Rightarrow> string \<times> jdoc \<Rightarrow> string" where
  "print_field Q = (\<lambda>(k, d). text_of_str Q k @ '':'' @ print_doc Q d)"

text \<open>The effect on a writer of a field of an object.\<close>

definition put_field :: "json_texts \<Rightarrow> string \<times> jdoc \<Rightarrow> json_writer \<Rightarrow> json_writer" where
  "put_field Q f w =
     \<lparr>jw_buffer = jw_buffer w @ (if jw_needs_separator w then '','' else []) @ print_field Q f,
      jw_needs_separator = True\<rparr>"

lemmas writer_defs = write_key_def write_str_def write_f64_def write_open_obj_def write_close_obj_def maybe_separate_def
  jw_push_def

lemma write_str_field: "write_str Q s (write_key Q k w) = put_field Q (k, DStr s) w"
  by (simp add: writer_defs put_field_def print_field_def)

lemma write_f64_field: "f64_is_finite v \<Longrightarrow> write_f64 Q v (write_key Q k w) = Inr (put_field Q (k, DNum v) w)"
  by (simp add: writer_defs put_field_def print_field_def)

lemma jw_fold_put:
  "jw_buffer (fold (put_field Q) fs w) =
     jw_buffer w @ (if fs \<noteq> [] \<and> jw_needs_separator w then '','' else []) @ join_with CHR '','' (map (print_field Q) fs)"
  "jw_needs_separator (fold (put_field Q) fs w) = (fs \<noteq> [] \<or> jw_needs_separator w)"
proof (induction fs arbitrary: w)
  case (Cons f fs)
  { case 1 from Cons.IH(1) show ?case by (simp add: put_field_def join_Cons_cases) }
  { case 2 from Cons.IH(2) show ?case by (simp add: put_field_def) }
qed simp_all

lemma write_object_field:
  "write_close_obj (fold (put_field Q) fs (write_open_obj (write_key Q k w))) = put_field Q (k, DObj fs) w"
  by (simp add: jw_fold_put write_close_obj_def jw_push_def)
    (simp add: writer_defs put_field_def print_field_def)

lemma write_document:
  "jw_into_string (write_close_obj (fold (put_field Q) fs (write_open_obj json_writer_new))) = print_doc Q (DObj fs)"
  by (simp add: jw_into_string_def write_close_obj_def jw_push_def jw_fold_put)
    (simp add: writer_defs json_writer_new_def print_field_def)

end
