(* ===== verification/Cloud_Measurements.thy ===== *)
theory Cloud_Measurements
  imports Measurements Cloud_Alarms
begin

text \<open>
  Measurements, from thin-edge to Cumulocity: the serializer of the Cumulocity format, a visitor of measurements
  (\<^verbatim>\<open>c8y_mapper_ext/src/serializer.rs\<close>), its composition with the parser (\<^verbatim>\<open>c8y_mapper_ext/src/json.rs\<close>) and the
  conversion of a message (\<^verbatim>\<open>c8y_mapper_ext/src/converter.rs\<close>).
\<close>

section \<open>Serializer\<close>

datatype c8y_stream_error =
    C8yUnexpectedTimestamp
  | C8yUnexpectedType
  | C8yUnexpectedEndOfData
  | C8yUnexpectedEndOfGroup
  | C8yUnexpectedStartOfGroup

datatype c8y_serialization_error =
    C8yCollectorError c8y_stream_error
  | C8yJsonWriterError json_writer_error
  | UnexpectedMeasurementName string

record 't c8y_serializer =
  c8_json :: json_writer
  c8_within_group :: bool
  c8_timestamp_present :: bool
  c8_default_timestamp :: 't
  c8_type_present :: bool
  c8_default_type :: string

definition c8y_source :: "json_texts \<Rightarrow> string \<Rightarrow> json_writer \<Rightarrow> json_writer" where
  "c8y_source Q entity_id w =
     write_close_obj (write_str Q ''c8y_Serial'' (write_key Q ''type''
       (write_str Q entity_id (write_key Q ''externalId'' (write_open_obj (write_key Q ''externalSource'' w))))))"

definition c8y_serializer_new :: "json_texts \<Rightarrow> 't \<Rightarrow> cloud_entity \<Rightarrow> string \<Rightarrow> 't c8y_serializer" where
  "c8y_serializer_new Q default_timestamp entity m_type =
     (let json = write_open_obj json_writer_new;
          json = (if em_type (ce_metadata entity) = ChildDevice \<or> em_type (ce_metadata entity) = Service
                  then c8y_source Q (ce_external_id entity) json else json)
      in \<lparr>c8_json = json, c8_within_group = False, c8_timestamp_present = False, c8_default_timestamp = default_timestamp,
          c8_type_present = False, c8_default_type = (if m_type = [] then ''ThinEdgeMeasurement'' else m_type)\<rparr>)"

definition c8y_timestamp ::
  "'t time_crate \<Rightarrow> json_texts \<Rightarrow> 't \<Rightarrow> 't c8y_serializer \<Rightarrow> (c8y_serialization_error, 't c8y_serializer) res" where
  "c8y_timestamp T Q t s =
     (if c8_within_group s then Some (Inl (C8yCollectorError C8yUnexpectedTimestamp))
      else case time_format T t of
             None \<Rightarrow> None
           | Some txt \<Rightarrow>
               Some (Inr (s\<lparr>c8_json := write_str Q txt (write_key Q ''time'' (c8_json s)), c8_timestamp_present := True\<rparr>)))"

definition c8y_text_property ::
  "json_texts \<Rightarrow> string \<Rightarrow> string \<Rightarrow> 't c8y_serializer \<Rightarrow> (c8y_serialization_error, 't c8y_serializer) res" where
  "c8y_text_property Q name v s =
     (if c8_within_group s then Some (Inl (C8yCollectorError C8yUnexpectedType))
      else if name = ''type''
           then Some (Inr (s\<lparr>c8_json := write_str Q v (write_key Q ''type'' (c8_json s)), c8_type_present := True\<rparr>))
      else if name = ''externalSource'' then Some (Inl (UnexpectedMeasurementName name))
      else Some (Inr s))"

definition write_value_obj :: "json_texts \<Rightarrow> f64 \<Rightarrow> json_writer \<Rightarrow> json_writer_error + json_writer" where
  "write_value_obj Q v w =
     (case write_f64 Q v (write_key Q ''value'' (write_open_obj w)) of
        Inl err \<Rightarrow> Inl err
      | Inr w \<Rightarrow> Inr (write_close_obj w))"

definition c8y_measurement ::
  "json_texts \<Rightarrow> string \<Rightarrow> f64 \<Rightarrow> 't c8y_serializer \<Rightarrow> (c8y_serialization_error, 't c8y_serializer) res" where
  "c8y_measurement Q key v s =
     (if key = ''type'' \<or> key = ''externalSource'' then Some (Inl (UnexpectedMeasurementName key))
      else let w = write_key Q key (c8_json s) in
           case (if c8_within_group s then write_value_obj Q v w
                 else case write_value_obj Q v (write_key Q key (write_open_obj w)) of
                        Inl err \<Rightarrow> Inl err
                      | Inr w \<Rightarrow> Inr (write_close_obj w)) of
             Inl err \<Rightarrow> Some (Inl (C8yJsonWriterError err))
           | Inr w \<Rightarrow> Some (Inr (s\<lparr>c8_json := w\<rparr>)))"

definition c8y_start_group ::
  "json_texts \<Rightarrow> string \<Rightarrow> 't c8y_serializer \<Rightarrow> (c8y_serialization_error, 't c8y_serializer) res" where
  "c8y_start_group Q grp s =
     (if c8_within_group s then Some (Inl (C8yCollectorError C8yUnexpectedStartOfGroup))
      else Some (Inr (s\<lparr>c8_json := write_open_obj (write_key Q grp (c8_json s)), c8_within_group := True\<rparr>)))"

definition c8y_end_group :: "'t c8y_serializer \<Rightarrow> (c8y_serialization_error, 't c8y_serializer) res" where
  "c8y_end_group s =
     (if \<not> c8_within_group s then Some (Inl (C8yCollectorError C8yUnexpectedEndOfGroup))
      else Some (Inr (s\<lparr>c8_json := write_close_obj (c8_json s), c8_within_group := False\<rparr>)))"

definition c8y_end ::
  "'t time_crate \<Rightarrow> json_texts \<Rightarrow> 't c8y_serializer \<Rightarrow> (c8y_serialization_error, 't c8y_serializer) res" where
  "c8y_end T Q s =
     (if c8_within_group s then Some (Inl (C8yCollectorError C8yUnexpectedEndOfData))
      else res_bind (if c8_timestamp_present s then Some (Inr s) else c8y_timestamp T Q (c8_default_timestamp s) s) (\<lambda>s.
           res_bind (if c8_type_present s then Some (Inr s) else c8y_text_property Q ''type'' (c8_default_type s) s) (\<lambda>s.
           if \<not> c8_timestamp_present s then None
           else Some (Inr (s\<lparr>c8_json := write_close_obj (c8_json s)\<rparr>)))))"

definition c8y_into_string ::
  "'t time_crate \<Rightarrow> json_texts \<Rightarrow> 't c8y_serializer \<Rightarrow> (c8y_serialization_error, string) res" where
  "c8y_into_string T Q s = res_bind (c8y_end T Q s) (\<lambda>s. Some (Inr (jw_into_string (c8_json s))))"

definition c8y_visitor ::
  "'t time_crate \<Rightarrow> json_texts \<Rightarrow> ('t, c8y_serialization_error, 't c8y_serializer) visitor" where
  "c8y_visitor T Q = \<lparr>visit_timestamp = c8y_timestamp T Q, visit_measurement = c8y_measurement Q,
     visit_text_property = c8y_text_property Q, visit_start_group = c8y_start_group Q, visit_end_group = c8y_end_group\<rparr>"

section \<open>Conversion\<close>

datatype cumulocity_json_error =
    FromC8ySerializer c8y_serialization_error
  | FromParser "c8y_serialization_error parser_error"

definition from_thin_edge_json ::
  "'t time_crate \<Rightarrow> json_texts \<Rightarrow> (string \<Rightarrow> jevent) \<Rightarrow> 't \<Rightarrow> string \<Rightarrow> cloud_entity \<Rightarrow> string
     \<Rightarrow> (cumulocity_json_error, string) res" where
  "from_thin_edge_json T Q events now input entity m_type =
     res_bind (map_err FromParser (parse_str T events (c8y_visitor T Q) input (c8y_serializer_new Q now entity m_type)))
       (\<lambda>serializer. map_err FromC8ySerializer (c8y_into_string T Q serializer))"

datatype measurement_error =
    MeasurementNotUtf8
  | FromCumulocityJson cumulocity_json_error
  | TranslatedSizeExceededThreshold nat nat

definition try_convert_measurement ::
  "'t time_crate \<Rightarrow> json_texts \<Rightarrow> (string \<Rightarrow> jevent) \<Rightarrow> 't \<Rightarrow> topic \<Rightarrow> nat \<Rightarrow> entity_cache \<Rightarrow> entity_topic_id
     \<Rightarrow> mqtt_message \<Rightarrow> string \<Rightarrow> (measurement_error, mqtt_message list) res" where
  "try_convert_measurement T Q events now out_topic threshold cache source input measurement_type =
     (case hm_get (ec_entities cache) source of
        None \<Rightarrow> Some (Inr [])
      | Some entity \<Rightarrow>
          (case from_utf8 (payload_bytes input) of
             None \<Rightarrow> Some (Inl MeasurementNotUtf8)
           | Some payload \<Rightarrow>
               res_bind (map_err FromCumulocityJson (from_thin_edge_json T Q events now payload entity measurement_type))
                 (\<lambda>c8y_json_payload.
                    if length c8y_json_payload < threshold then Some (Inr [message_new out_topic c8y_json_payload])
                    else Some (Inl (TranslatedSizeExceededThreshold (length c8y_json_payload) threshold)))))"

interpretation c8y: measurement_visitor "c8y_visitor T Q" c8_within_group
  "\<lambda>e. \<exists>m. e = C8yCollectorError m \<and> m \<noteq> C8yUnexpectedType"
  by unfold_locales
    (auto simp: c8y_visitor_def c8y_timestamp_def c8y_measurement_def c8y_text_property_def c8y_start_group_def
      c8y_end_group_def Let_def split: if_splits option.splits sum.splits)

section \<open>The reference translation\<close>

text \<open>
  The document of Cumulocity for a document of thin-edge, as a tree: which entries are accepted, and the fields they
  give.
\<close>

abbreviation reserved :: "string \<Rightarrow> bool" where
  "reserved k \<equiv> k = ''type'' \<or> k = ''externalSource''"

definition number_of_event :: "jevent \<Rightarrow> f64 option" where
  "number_of_event v =
     (case v of
        EFloat f \<Rightarrow> if f64_is_zero f \<or> f64_is_normal f then Some f else None
      | EInt i \<Rightarrow> if - (2 ^ 31) \<le> i \<and> i < 2 ^ 31 then Some (f64_of_int i) else None
      | EUint n \<Rightarrow> if n < 2 ^ 32 then Some (f64_of_int (int n)) else None
      | _ \<Rightarrow> None)"

definition event_time :: "'t time_crate \<Rightarrow> jevent \<Rightarrow> 't option" where
  "event_time T v =
     (case v of
        EFloat f \<Rightarrow> Option.bind (unix_of_float T f) id
      | EInt i \<Rightarrow> Option.bind (unix_of_int T i) id
      | EUint n \<Rightarrow> Option.bind (unix_of_nat T n) id
      | EStr x \<Rightarrow> Option.bind (time_of_text T x) id
      | _ \<Rightarrow> None)"

definition value_field :: "string \<times> jevent \<Rightarrow> (string \<times> jdoc) option" where
  "value_field = (\<lambda>(k, v). if reserved k then None
     else map_option (\<lambda>x. (k, DObj [(''value'', DNum x)])) (number_of_event v))"

definition is_text :: "jevent \<Rightarrow> bool" where
  "is_text v = (case v of EStr _ \<Rightarrow> True | _ \<Rightarrow> False)"

definition entry_fields :: "string \<Rightarrow> jevent \<Rightarrow> (string \<times> jdoc) list option" where
  "entry_fields k v =
     (case v of
        EStr x \<Rightarrow> if k = ''type'' then Some [(''type'', DStr x)] else if k = ''externalSource'' then None else Some []
      | EMap es closed \<Rightarrow>
          if closed \<and> es \<noteq> [] then map_option (\<lambda>fs. [(k, DObj fs)]) (those (map value_field es)) else None
      | _ \<Rightarrow> map_option (\<lambda>f. [(k, DObj [f])]) (value_field (k, v)))"

definition time_field :: "'t time_crate \<Rightarrow> 't \<Rightarrow> (string \<times> jdoc) list option" where
  "time_field T t = map_option (\<lambda>x. [(''time'', DStr x)]) (time_format T t)"

definition root_fields :: "'t time_crate \<Rightarrow> string \<times> jevent \<Rightarrow> (string \<times> jdoc) list option" where
  "root_fields T = (\<lambda>(k, v). if k = ''time'' then event_time T v \<bind> time_field T else entry_fields k v)"

definition source_fields :: "cloud_entity \<Rightarrow> (string \<times> jdoc) list" where
  "source_fields entity =
     (if em_type (ce_metadata entity) = MainDevice then []
      else [(''externalSource'',
             DObj [(''externalId'', DStr (ce_external_id entity)), (''type'', DStr ''c8y_Serial'')])])"

definition c8y_document ::
  "'t time_crate \<Rightarrow> 't \<Rightarrow> cloud_entity \<Rightarrow> string \<Rightarrow> jevent \<Rightarrow> jdoc option" where
  "c8y_document T now entity m_type doc =
     (case doc of
        EMap es True \<Rightarrow> do {
          fields \<leftarrow> those (map (root_fields T) es);
          default_time \<leftarrow> (if ''time'' \<in> fst ` set es then Some [] else time_field T now);
          let default_type = (if list_ex (\<lambda>(k, v). k = ''type'' \<and> is_text v) es then []
            else [(''type'', DStr (if m_type = [] then ''ThinEdgeMeasurement'' else m_type))]);
          if list_all (\<lambda>(k, v). k = ''time'') es then None
          else Some (DObj (source_fields entity @ concat fields @ default_time @ default_type)) }
      | _ \<Rightarrow> None)"

lemma int_is_number:
  "- (2 ^ 31) \<le> i \<Longrightarrow> i < 2 ^ 32 \<Longrightarrow> f64_is_zero (f64_of_int i) \<or> f64_is_normal (f64_of_int i)"
  using f64_of_int_exact(3,4) [of i] by force

lemma number_of_event_class:
  assumes "number_of_event v = Some x"
  shows "f64_is_zero x \<or> f64_is_normal x"
proof (cases v)
  case (EInt i)
  with assms int_is_number [of i] show ?thesis by (auto simp: number_of_event_def split: if_splits)
next
  case (EUint n)
  with assms int_is_number [of "int n"] show ?thesis by (auto simp: number_of_event_def split: if_splits)
qed (use assms in \<open>auto simp: number_of_event_def split: if_splits\<close>)

lemma number_of_event_finite: "number_of_event v = Some x \<Longrightarrow> f64_is_finite x"
  using number_of_event_class [of v x] by (cases x) auto

lemma parse_number_event:
  assumes "\<nexists>x. v = EStr x" "\<nexists>es c. v = EMap es c"
  shows "parse_value V d k v s = Some (Inr s') \<longleftrightarrow>
    (\<exists>x. number_of_event v = Some x \<and> visit_measurement V k x s = Some (Inr s'))"
proof (cases v)
  case (EInt i)
  with int_is_number [of i] show ?thesis by (auto simp: number_of_event_def parse_f64_def parse_i64_def)
next
  case (EUint n)
  with int_is_number [of "int n"] show ?thesis by (auto simp: number_of_event_def parse_f64_def parse_u64_def)
qed (use assms in \<open>auto simp: number_of_event_def parse_f64_def\<close>)

lemma time_of_event_Inr: "time_of_event T v = Some (Inr t) \<longleftrightarrow> event_time T v = Some t"
  by (cases v) (auto simp: event_time_def bind_eq_Some_conv split: option.splits)

declare time_of_event.simps [simp del]

lemma write_value_field:
  "f64_is_finite v \<Longrightarrow> write_value_obj Q v (write_key Q k w) = Inr (put_field Q (k, DObj [(''value'', DNum v)]) w)"
  using write_object_field [of Q "[(''value'', DNum v)]" k w] by (simp add: write_value_obj_def write_f64_field)

lemma c8y_source_field:
  "c8y_source Q xid w = put_field Q (''externalSource'', DObj [(''externalId'', DStr xid), (''type'', DStr ''c8y_Serial'')]) w"
  using write_object_field [of Q "[(''externalId'', DStr xid), (''type'', DStr ''c8y_Serial'')]"]
  by (simp add: c8y_source_def write_str_field)

lemma c8y_measurement_fields:
  assumes "f64_is_finite x"
  shows "c8y_measurement Q k x s =
    (if reserved k then Some (Inl (UnexpectedMeasurementName k))
     else let f = (k, DObj [(''value'', DNum x)]) in
          Some (Inr (s\<lparr>c8_json := put_field Q (if c8_within_group s then f else (k, DObj [f])) (c8_json s)\<rparr>)))"
  using assms write_object_field [of Q "[(k, DObj [(''value'', DNum x)])]" k "c8_json s"]
  by (simp add: c8y_measurement_def write_value_field Let_def)


text \<open>What the parser does with the serializer, for the entries of a group, an entry of the root, and the root.\<close>

lemma c8y_parse_entries:
  "c8_within_group s \<Longrightarrow> parse_entries (c8y_visitor T Q) (Suc d) es s = Some (Inr s') \<longleftrightarrow>
     (\<exists>fs. those (map value_field es) = Some fs \<and> s' = s\<lparr>c8_json := fold (put_field Q) fs (c8_json s)\<rparr>)"
proof (induction es arbitrary: s)
  case (Cons e es)
  obtain k v where e: "e = (k, v)" by (cases e)
  have single: "parse_value (c8y_visitor T Q) (Suc d) k v s = Some (Inr s1) \<longleftrightarrow>
      (\<exists>f. value_field (k, v) = Some f \<and> s1 = s\<lparr>c8_json := put_field Q f (c8_json s)\<rparr>)" for s1
  proof (cases "(\<exists>x. v = EStr x) \<or> (\<exists>es c. v = EMap es c)")
    case True
    with Cons.prems show ?thesis
      by (auto simp: c8y_visitor_def c8y_text_property_def value_field_def number_of_event_def)
  next
    case False
    then show ?thesis
      using Cons.prems number_of_event_finite [of v]
      by (subst parse_number_event) (auto simp: c8y_visitor_def c8y_measurement_fields value_field_def Let_def)
  qed
  show ?case
    using Cons.prems
    by (auto simp: e res_bind_Inr single Cons.IH split: option.splits)
qed auto

lemma ex_visited:
  "(\<And>fs. E (X fs) = Some (Inr (Y fs))) \<Longrightarrow>
    (\<exists>s. (\<exists>fs. A = Some fs \<and> s = X fs) \<and> E s = Some (Inr s')) \<longleftrightarrow> (\<exists>fs. A = Some fs \<and> s' = Y fs)"
  by auto

lemma c8y_parse_value:
  assumes "\<not> c8_within_group s"
  shows "parse_value (c8y_visitor T Q) 0 k v s = Some (Inr s') \<longleftrightarrow>
    (\<exists>fs. entry_fields k v = Some fs
      \<and> s' = s\<lparr>c8_json := fold (put_field Q) fs (c8_json s), c8_type_present := c8_type_present s \<or> k = ''type'' \<and> is_text v\<rparr>)"
proof (cases "(\<exists>x. v = EStr x) \<or> (\<exists>es c. v = EMap es c)")
  case True
  then consider x where "v = EStr x" | es c where "v = EMap es c" by blast
  then show ?thesis
  proof cases
    case 1
    with assms show ?thesis
      by (auto simp: entry_fields_def is_text_def c8y_visitor_def c8y_text_property_def write_str_field)
  next
    case (2 es c)
    let ?s = "s\<lparr>c8_json := write_open_obj (write_key Q k (c8_json s)), c8_within_group := True\<rparr>"
    have start: "visit_start_group (c8y_visitor T Q) k s = Some (Inr ?s)"
      using assms by (simp add: c8y_visitor_def c8y_start_group_def)
    have finish: "visit_end_group (c8y_visitor T Q) (?s\<lparr>c8_json := fold (put_field Q) fs (c8_json ?s)\<rparr>)
        = Some (Inr (s\<lparr>c8_json := put_field Q (k, DObj fs) (c8_json s)\<rparr>))" for fs
      using assms write_object_field [of Q fs k "c8_json s"] by (simp add: c8y_visitor_def c8y_end_group_def)
    show ?thesis
    proof (cases "c \<and> es \<noteq> []")
      case True
      then have "parse_value (c8y_visitor T Q) 0 k v s = res_bind (parse_entries (c8y_visitor T Q) (Suc 0) es ?s)
          (\<lambda>s. map_err VisitorError (visit_end_group (c8y_visitor T Q) s))"
        using 2 by (simp add: start)
      then have "parse_value (c8y_visitor T Q) 0 k v s = Some (Inr s') \<longleftrightarrow>
          (\<exists>s1. parse_entries (c8y_visitor T Q) (Suc 0) es ?s = Some (Inr s1)
             \<and> visit_end_group (c8y_visitor T Q) s1 = Some (Inr s'))"
        by (simp only: res_bind_Inr map_err_Inr)
      also have "\<dots> \<longleftrightarrow>
        (\<exists>fs. those (map value_field es) = Some fs \<and> s' = s\<lparr>c8_json := put_field Q (k, DObj fs) (c8_json s)\<rparr>)"
      proof -
        have "c8_within_group ?s" by simp
        from c8y_parse_entries [OF this, of T Q 0 es] show ?thesis
          by (simp only:) (rule ex_visited, rule finish)
      qed
      finally have parsed: "parse_value (c8y_visitor T Q) 0 k v s = Some (Inr s') \<longleftrightarrow>
        (\<exists>fs. those (map value_field es) = Some fs \<and> s' = s\<lparr>c8_json := put_field Q (k, DObj fs) (c8_json s)\<rparr>)" .
      have "entry_fields k v = map_option (\<lambda>fs. [(k, DObj fs)]) (those (map value_field es))" "\<not> is_text v"
        using True 2 by (simp_all add: entry_fields_def is_text_def)
      then show ?thesis unfolding parsed by auto
    next
      case False
      then have "entry_fields k v = None" using 2 by (auto simp: entry_fields_def)
      moreover have "parse_value (c8y_visitor T Q) 0 k v s = res_bind (parse_entries (c8y_visitor T Q) (Suc 0) es ?s)
          (\<lambda>s. Some (Inl (if c then EmptyMeasurement k else SyntaxError)))"
        using False 2 by (cases c) (simp_all add: start)
      ultimately show ?thesis by (simp add: res_bind_Inr)
    qed
  qed
next
  case False
  then show ?thesis
    using assms number_of_event_finite [of v]
    by (subst parse_number_event)
      (auto simp: c8y_visitor_def c8y_measurement_fields value_field_def Let_def entry_fields_def is_text_def split: jevent.splits)
qed

lemma those_Cons_Some:
  "those (map f (x # xs)) = Some ys \<longleftrightarrow> (\<exists>z zs. f x = Some z \<and> those (map f xs) = Some zs \<and> ys = z # zs)"
  by (auto split: option.splits)

definition after_fields ::
  "json_texts \<Rightarrow> (string \<times> jevent) list \<Rightarrow> (string \<times> jdoc) list \<Rightarrow> 't c8y_serializer \<Rightarrow> 't c8y_serializer" where
  "after_fields Q es fs s =
     s\<lparr>c8_json := fold (put_field Q) fs (c8_json s),
       c8_timestamp_present := c8_timestamp_present s \<or> ''time'' \<in> fst ` set es,
       c8_type_present := c8_type_present s \<or> list_ex (\<lambda>(k, v). k = ''type'' \<and> is_text v) es\<rparr>"

lemma res_bind_assoc: "res_bind (res_bind r f) g = res_bind r (\<lambda>x. res_bind (f x) g)"
  by (cases "(r, f)" rule: res_bind.cases) auto

lemma c8y_parse_entry:
  assumes "\<not> c8_within_group s"
  shows "\<exists>head. parse_root T (c8y_visitor T Q) (e # es) n s
      = res_bind head (parse_root T (c8y_visitor T Q) es (if fst e = ''time'' then n else Suc n))
    \<and> (\<forall>s1. head = Some (Inr s1) \<longleftrightarrow> (\<exists>fs. root_fields T e = Some fs \<and> s1 = after_fields Q [e] fs s))"
proof (cases "fst e = ''time''")
  case True
  then obtain v where e: "e = (''time'', v)" by (cases e) auto
  let ?head = "res_bind (time_of_event T v) (\<lambda>t. map_err VisitorError (visit_timestamp (c8y_visitor T Q) t s))"
  have "visit_timestamp (c8y_visitor T Q) t s = Some (Inr s1) \<longleftrightarrow>
      (\<exists>fs. time_field T t = Some fs \<and> s1 = after_fields Q [e] fs s)" for t s1
    using assms e
    by (auto simp: c8y_visitor_def c8y_timestamp_def time_field_def after_fields_def write_str_field split: option.splits)
  then have "?head = Some (Inr s1) \<longleftrightarrow> (\<exists>fs. root_fields T e = Some fs \<and> s1 = after_fields Q [e] fs s)" for s1
    unfolding res_bind_Inr map_err_Inr time_of_event_Inr e root_fields_def by (auto simp: bind_eq_Some_conv)
  moreover have "parse_root T (c8y_visitor T Q) (e # es) n s = res_bind ?head (parse_root T (c8y_visitor T Q) es n)"
    by (simp add: e res_bind_assoc)
  ultimately show ?thesis using True by auto
next
  case False
  have "parse_value (c8y_visitor T Q) 0 (fst e) (snd e) s = Some (Inr s1) \<longleftrightarrow>
      (\<exists>fs. root_fields T e = Some fs \<and> s1 = after_fields Q [e] fs s)" for s1
    using False by (simp add: c8y_parse_value [OF assms] after_fields_def root_fields_def case_prod_beta)
  moreover have "parse_root T (c8y_visitor T Q) (e # es) n s
      = res_bind (parse_value (c8y_visitor T Q) 0 (fst e) (snd e) s) (parse_root T (c8y_visitor T Q) es (Suc n))"
    using False by (cases e) simp
  ultimately show ?thesis using False by auto
qed

lemma after_fields_Cons: "after_fields Q es gs (after_fields Q [e] fs s) = after_fields Q (e # es) (fs @ gs) s"
  by (cases e) (auto simp: after_fields_def)

lemma c8y_parse_root:
  assumes "\<not> c8_within_group s"
  shows "parse_root T (c8y_visitor T Q) es n s = Some (Inr (m, s')) \<longleftrightarrow>
    (\<exists>fss. those (map (root_fields T) es) = Some fss \<and> m = n + length (filter (\<lambda>e. fst e \<noteq> ''time'') es)
       \<and> s' = after_fields Q es (concat fss) s)"
  using assms
proof (induction es arbitrary: s n)
  case (Cons e es)
  obtain head where head: "parse_root T (c8y_visitor T Q) (e # es) n s
      = res_bind head (parse_root T (c8y_visitor T Q) es (if fst e = ''time'' then n else Suc n))"
    "\<And>s1. head = Some (Inr s1) \<longleftrightarrow> (\<exists>fs. root_fields T e = Some fs \<and> s1 = after_fields Q [e] fs s)"
    using c8y_parse_entry [OF Cons.prems] by blast
  have outside: "\<not> c8_within_group (after_fields Q [e] fs s)" for fs
    using Cons.prems by (simp add: after_fields_def)
  show ?case
    unfolding head(1) res_bind_Inr head(2) those_Cons_Some
    using Cons.IH [OF outside] by (auto simp: after_fields_Cons)
qed (auto simp: after_fields_def)

lemma c8y_into_string_fields:
  assumes "\<not> c8_within_group s"
  shows "c8y_into_string T Q s = Some (Inr out) \<longleftrightarrow>
    (\<exists>fs. (if c8_timestamp_present s then Some [] else time_field T (c8_default_timestamp s)) = Some fs
       \<and> out = jw_into_string (write_close_obj (fold (put_field Q)
           (fs @ (if c8_type_present s then [] else [(''type'', DStr (c8_default_type s))])) (c8_json s))))"
  using assms
  by (cases "time_format T (c8_default_timestamp s)")
    (auto simp: c8y_into_string_def c8y_end_def c8y_timestamp_def c8y_text_property_def time_field_def write_str_field)

lemma c8y_serializer_new_fields:
  "c8_json (c8y_serializer_new Q now entity m_type) = fold (put_field Q) (source_fields entity) (write_open_obj json_writer_new)"
  by (cases "em_type (ce_metadata entity)")
    (simp_all add: c8y_serializer_new_def Let_def source_fields_def c8y_source_field)

lemma list_all_filter: "list_all (\<lambda>(k, v). k = x) es \<longleftrightarrow> filter (\<lambda>e. fst e \<noteq> x) es = []"
  by (induction es) auto

lemma measurements_parsed:
  "from_thin_edge_json T Q events now input entity m_type = Some (Inr out) \<longleftrightarrow>
     (\<exists>doc. c8y_document T now entity m_type (events input) = Some doc \<and> out = print_doc Q doc)"
proof (cases "\<exists>es. events input = EMap es True")
  case True
  then obtain es where es: "events input = EMap es True" by blast
  let ?s = "c8y_serializer_new Q now entity m_type"
  have outside: "\<not> c8_within_group ?s" by (simp add: c8y_serializer_new_def Let_def)
  let ?count = "length (filter (\<lambda>e. fst e \<noteq> ''time'') es)"
  have "from_thin_edge_json T Q events now input entity m_type = Some (Inr out) \<longleftrightarrow>
      (\<exists>n s. parse_root T (c8y_visitor T Q) es 0 ?s = Some (Inr (n, s)) \<and> n \<noteq> 0 \<and> c8y_into_string T Q s = Some (Inr out))"
    by (auto simp: from_thin_edge_json_def parse_str_def parse_event_def es res_bind_Inr)
  also have "\<dots> \<longleftrightarrow> (\<exists>fss. those (map (root_fields T) es) = Some fss \<and> ?count \<noteq> 0
      \<and> c8y_into_string T Q (after_fields Q es (concat fss) ?s) = Some (Inr out))"
    unfolding c8y_parse_root [OF outside] by auto
  finally have parsed: "from_thin_edge_json T Q events now input entity m_type = Some (Inr out) \<longleftrightarrow> \<dots>" .
  have still: "\<not> c8_within_group (after_fields Q es fs ?s)" for fs
    using outside by (simp add: after_fields_def)
  have "c8y_into_string T Q (after_fields Q es fs ?s) = Some (Inr out) \<longleftrightarrow>
     (\<exists>ts. (if ''time'' \<in> fst ` set es then Some [] else time_field T now) = Some ts
       \<and> out = print_doc Q (DObj (source_fields entity @ fs @ ts
          @ (if list_ex (\<lambda>(k, v). k = ''type'' \<and> is_text v) es then []
             else [(''type'', DStr (if m_type = [] then ''ThinEdgeMeasurement'' else m_type))]))))" for fs
    unfolding c8y_into_string_fields [OF still] write_document [symmetric]
    by (simp add: after_fields_def c8y_serializer_new_fields) (simp add: c8y_serializer_new_def Let_def)
  then show ?thesis
    unfolding parsed by (auto simp: c8y_document_def es bind_eq_Some_conv Let_def list_all_filter)
next
  case False
  then have "c8y_document T now entity m_type (events input) = None"
    by (auto simp: c8y_document_def split: jevent.splits bool.splits)
  with False show ?thesis
    by (auto simp: from_thin_edge_json_def parse_str_def parse_event_def res_bind_Inr split: jevent.splits)
qed

text \<open>
  C20. The translation of measurements to Cumulocity: a message of a known entity is accepted if and only if its payload
  has a translation whose text is shorter than the limit, and the message that is sent has this text.
\<close>

theorem measurements_translated:
  "try_convert_measurement T Q events now out_topic threshold cache source input measurement_type = Some (Inr messages) \<longleftrightarrow>
     (case hm_get (ec_entities cache) source of
        None \<Rightarrow> messages = []
      | Some entity \<Rightarrow> \<exists>payload doc. from_utf8 (payload_bytes input) = Some payload
          \<and> c8y_document T now entity measurement_type (events payload) = Some doc
          \<and> length (print_doc Q doc) < threshold \<and> messages = [message_new out_topic (print_doc Q doc)])"
  by (auto simp: try_convert_measurement_def res_bind_Inr measurements_parsed split: option.split)

section \<open>Order of the calls\<close>

text \<open>
  C21. The parser drives the visitors as their interface wants: the serializer of Cumulocity never refuses a call because
  of an open or a missing group, and it is never left within a group.
\<close>

theorem measurement_stream_in_order:
  "case from_thin_edge_json T Q events now input entity m_type of
     Some (Inl (FromParser (VisitorError (C8yCollectorError m)))) \<Rightarrow> m = C8yUnexpectedType
   | Some (Inl (FromC8ySerializer (C8yCollectorError m))) \<Rightarrow> False
   | _ \<Rightarrow> True"
proof -
  let ?s = "c8y_serializer_new Q now entity m_type"
  have outside: "\<not> c8_within_group ?s" by (simp add: c8y_serializer_new_def Let_def)
  have parsed: "c8y.parser_kept False (parse_str T events (c8y_visitor T Q) input ?s)"
    unfolding parse_str_def by (rule c8y.parse_event_kept [OF outside])
  have "c8y_into_string T Q s \<noteq> Some (Inl (C8yCollectorError m'))" if "\<not> c8_within_group s" for s m'
    using that by (auto simp: c8y_into_string_def c8y_end_def c8y_timestamp_def c8y_text_property_def res_bind_Inl
        split: if_splits option.splits)
  with parsed show ?thesis
    by (auto simp: from_thin_edge_json_def res_elims c8y.parser_res_def
        split: option.split sum.split cumulocity_json_error.split parser_error.split c8y_serialization_error.split)
qed

text \<open>
  Only the names of single measurements are checked: a group named \<^verbatim>\<open>type\<close> is written, and then again the default type.
\<close>

lemma reserved_group_duplicates_key:
  assumes "em_type (ce_metadata entity) = MainDevice" "time_format T now = Some txt"
    and "events input = EMap [(''type'', EMap [(''a'', EUint 1)] True)] True"
  shows "from_thin_edge_json T Q events now input entity [] = Some (Inr (print_doc Q (DObj
    [(''type'', DObj [(''a'', DObj [(''value'', DNum (f64_of_int 1))])]), (''time'', DStr txt),
     (''type'', DStr ''ThinEdgeMeasurement'')])))"
  using assms(1,2)
  by (simp add: measurements_parsed assms(3) c8y_document_def root_fields_def entry_fields_def value_field_def number_of_event_def
      time_field_def source_fields_def is_text_def)

section \<open>Times that end the mapper\<close>

text \<open>
  What the \<^verbatim>\<open>time\<close> package documents of times: a number of seconds is one from the year -9999 to the year 9999, and RFC 3339
  has no text for a year before 0.
\<close>

definition calendar_rule :: "'t time_crate \<Rightarrow> bool" where
  "calendar_rule T \<longleftrightarrow>
     (\<forall>i. - 377705116800 \<le> i \<and> i \<le> 253402300799 \<longrightarrow> (\<exists>t. time_of_unix T i = Some t \<and> time_to_nanos T t = i * 1000000000))
     \<and> (\<forall>t. time_to_nanos T t < - 62167219200 * 1000000000 \<longrightarrow> time_format T t = None)"

text \<open>
  The times that the mapper does not survive: a decimal number of seconds of at least \<open>2 * 10 ^ 29\<close>, positive or negative, and
  an integer number of seconds before the year 0, from the year -9999 on.
\<close>

fun fatal_time :: "jevent \<Rightarrow> bool" where
  "fatal_time (EFloat (Fin s m e)) \<longleftrightarrow> 0 \<le> e \<and> 2 * 10 ^ 29 \<le> m * 2 ^ nat e"
| "fatal_time (EInt i) \<longleftrightarrow> - 377705116800 \<le> i \<and> i < - 62167219200"
| "fatal_time _ \<longleftrightarrow> False"

text \<open>
  C36. A measurement whose first entry is such a time makes the mapper panic: the conversion of the decimal number overflows, and the
  text of the year is unwrapped.
\<close>

theorem measurement_time_panics:
  assumes "hm_get (ec_entities cache) source = Some entity" "from_utf8 (payload_bytes input) = Some payload"
    and "events payload = EMap ((''time'', v) # es) closed" "calendar_rule T" "fatal_time v"
  shows "try_convert_measurement T Q events now out_topic threshold cache source input measurement_type = None"
proof -
  let ?s = "c8y_serializer_new Q now entity measurement_type"
  have "parse_root T (c8y_visitor T Q) ((''time'', v) # es) 0 ?s = None"
    using assms(5)
  proof (cases v rule: fatal_time.cases)
    case (1 s m e)
    then show ?thesis using assms(5) by (simp add: time_of_event.simps unix_of_float_overflows)
  next
    case (2 i)
    then obtain t where "time_of_unix T i = Some t" "time_to_nanos T t = i * 1000000000" "i < - 62167219200"
      using assms(4,5) by (auto simp: calendar_rule_def)
    with assms(4) have t: "event_time T v = Some t" "time_format T t = None"
      by (simp_all add: 2 event_time_def unix_of_int_def calendar_rule_def)
    then show ?thesis
      by (simp add: time_of_event_Inr [THEN iffD2, OF t(1)] c8y_visitor_def c8y_timestamp_def c8y_serializer_new_def Let_def)
  qed simp_all
  with assms(1-3) show ?thesis
    by (simp add: try_convert_measurement_def from_thin_edge_json_def parse_str_def parse_event_def del: parse_root.simps)
qed

text \<open>Times in seconds, from the year -9999 to the year 9999; a year before 0 has no text.\<close>

definition seconds_time :: "int time_crate" where
  "seconds_time = \<lparr>time_of_str = (\<lambda>_. None),
     time_of_unix = (\<lambda>i. if - 377705116800 \<le> i \<and> i \<le> 253402300799 then Some i else None),
     time_of_nanos = (\<lambda>i. if - 377705116800 \<le> i div 1000000000 \<and> i div 1000000000 \<le> 253402300799
                         then Some (i div 1000000000) else None),
     time_to_nanos = (\<lambda>t. t * 1000000000),
     time_format = (\<lambda>t. if t < - 62167219200 then None else Some ''2024-01-01T00:00:00Z'')\<rparr>"

lemma seconds_time_calendar: "calendar_rule seconds_time"
  by (simp add: calendar_rule_def seconds_time_def)

theorem measurement_time_panics_witness:
  "try_convert_measurement seconds_time \<lparr>text_of_str = id, text_of_f64 = (\<lambda>_. [])\<rparr>
     (\<lambda>_. EMap [(''time'', EInt (- 99999999999)), (''t'', EUint 1)] True) 0 (topic_new_unchecked ''c8y/measurement/measurements/create'')
     16184 (c8y_entity_cache schema_new ''dev'') default_main_device
     (message_new (topic_new_unchecked ''te/device/main///m/'') ''{}'') [] = None
   \<and> try_convert_measurement seconds_time \<lparr>text_of_str = id, text_of_f64 = (\<lambda>_. [])\<rparr>
     (\<lambda>_. EMap [(''time'', EFloat (Fin False 8271806125530277 80)), (''t'', EUint 1)] True) 0
     (topic_new_unchecked ''c8y/measurement/measurements/create'')
     16184 (c8y_entity_cache schema_new ''dev'') default_main_device
     (message_new (topic_new_unchecked ''te/device/main///m/'') ''{}'') [] = None"
proof -
  let ?m = "message_new (topic_new_unchecked ''te/device/main///m/'') ''{}''"
  obtain e where e: "hm_get (ec_entities (c8y_entity_cache schema_new ''dev'')) default_main_device = Some e"
    by (simp add: c8y_entity_cache_def entity_cache_new_def)
  have payload: "from_utf8 (payload_bytes ?m) = Some ''{}''" by code_simp
  show ?thesis
    by (intro conjI measurement_time_panics [OF e payload refl seconds_time_calendar]) simp_all
qed

end
