(* ===== verification/Collectd.thy ===== *)
theory Collectd
  imports Measurements Batcher Smartrest
begin

text \<open>
  The collectd mapper (\<^verbatim>\<open>collectd_ext\<close>): the measurements collectd publishes over MQTT (\<^verbatim>\<open>collectd.rs\<close>), the actor that
  hands them to the batcher (\<^verbatim>\<open>actor.rs\<close>), and the translation of a batch into one measurement message (\<^verbatim>\<open>batcher.rs\<close>,
  \<^verbatim>\<open>converter.rs\<close>).
\<close>

section \<open>Messages\<close>

record 't collectd_message =
  cm_group_key :: string
  cm_metric_key :: string
  cm_timestamp :: 't
  cm_value :: f64

datatype collectd_payload_error =
    InvalidMeasurementPayloadFormat string
  | InvalidMeasurementTimestamp string
  | InvalidMeasurementValue string

datatype collectd_error =
    InvalidMeasurementTopic string
  | InvalidMeasurementPayload string collectd_payload_error
  | NonUTF8MeasurementPayload string

definition collectd_accept :: "('t, 'e, 's) visitor \<Rightarrow> 't collectd_message \<Rightarrow> 's \<Rightarrow> ('e, 's) res" where
  "collectd_accept V m = visit_grouped_measurement V (cm_group_key m) (cm_metric_key m) (cm_value m)"

text \<open>The group and the key of a topic.\<close>

definition collectd_topic_of_str :: "string \<Rightarrow> (string \<times> string) option" where
  "collectd_topic_of_str name =
     (case split_on slash name of
        [_, _, metric_group_key, metric_key] \<Rightarrow> Some (metric_group_key, metric_key)
      | _ \<Rightarrow> None)"

fun parse_values :: "string list \<Rightarrow> collectd_payload_error + f64 list" where
  "parse_values [] = Inr []"
| "parse_values (m # ms) =
     (case f64_parse m of
        None \<Rightarrow> Inl (InvalidMeasurementValue m)
      | Some v \<Rightarrow> (case parse_values ms of Inl err \<Rightarrow> Inl err | Inr vs \<Rightarrow> Inr (v # vs)))"

record collectd_payload =
  cp_timestamp :: f64
  cp_values :: "f64 list"

definition collectd_payload_parse :: "string \<Rightarrow> collectd_payload_error + collectd_payload" where
  "collectd_payload_parse payload =
     (case split_on CHR '':'' payload of
        m # m' # ms \<Rightarrow>
          (case f64_parse m of
             None \<Rightarrow> Inl (InvalidMeasurementTimestamp m)
           | Some timestamp \<Rightarrow>
               (case parse_values (m' # ms) of
                  Inl err \<Rightarrow> Inl err
                | Inr metric_values \<Rightarrow> Inr \<lparr>cp_timestamp = timestamp, cp_values = metric_values\<rparr>))
      | _ \<Rightarrow> Inl (InvalidMeasurementPayloadFormat payload))"

text \<open>
  The time of a payload.  The conversion of the seconds is unwrapped, and the sum with the nanoseconds, a parameter,
  panics when it is not a time.
\<close>

definition collectd_timestamp :: "'t time_crate \<Rightarrow> ('t \<Rightarrow> int \<Rightarrow> 't option) \<Rightarrow> collectd_payload \<Rightarrow> 't panics" where
  "collectd_timestamp T add p =
     (let timestamp = f64_as_i64 (cp_timestamp p);
          nanoseconds = f64_as_u32 (f64_scale (f64_fract (cp_timestamp p)) 1000000000 1)
      in time_of_unix T timestamp \<bind> (\<lambda>t. add t nanoseconds))"

definition collectd_parse_from ::
  "'t time_crate \<Rightarrow> ('t \<Rightarrow> int \<Rightarrow> 't option) \<Rightarrow> mqtt_message \<Rightarrow> (collectd_error, 't collectd_message list) res" where
  "collectd_parse_from T add m =
     (let topic = topic_name (mm_topic m) in
      case collectd_topic_of_str topic of
        None \<Rightarrow> Some (Inl (InvalidMeasurementTopic topic))
      | Some (metric_group_key, metric_key) \<Rightarrow>
          (case from_utf8 (payload_bytes m) of
             None \<Rightarrow> Some (Inl (NonUTF8MeasurementPayload (payload_bytes m)))
           | Some payload \<Rightarrow>
               (case collectd_payload_parse payload of
                  Inl err \<Rightarrow> Some (Inl (InvalidMeasurementPayload topic err))
                | Inr p \<Rightarrow>
                    let num_measurements = length (cp_values p) in
                    map_option Inr (those (map (\<lambda>(i, v).
                      map_option (\<lambda>t. \<lparr>cm_group_key = metric_group_key,
                        cm_metric_key = (if 1 < num_measurements then metric_key @ ''_val'' @ decimal (i + 1) else metric_key),
                        cm_timestamp = t, cm_value = v\<rparr>) (collectd_timestamp T add p))
                      (enumerate 0 (cp_values p)))))))"

definition collectd_batchable :: "'t time_crate \<Rightarrow> (string, 't collectd_message) batchable" where
  "collectd_batchable T = \<lparr>ba_key = (\<lambda>m. cm_group_key m @ ''/'' @ cm_metric_key m),
     ba_event_time = time_to_nanos T \<circ> cm_timestamp\<rparr>"

text \<open>The loop of the actor: the messages for the batcher, in order; an invalid message is only logged.\<close>

fun collectd_run ::
  "'t time_crate \<Rightarrow> ('t \<Rightarrow> int \<Rightarrow> 't option) \<Rightarrow> mqtt_message list \<Rightarrow> 't collectd_message list panics" where
  "collectd_run T add [] = Some []"
| "collectd_run T add (m # ms) = do {
     collectd_message \<leftarrow> collectd_parse_from T add m;
     rest \<leftarrow> collectd_run T add ms;
     Some ((case collectd_message of Inl err \<Rightarrow> [] | Inr cs \<Rightarrow> cs) @ rest) }"

section \<open>Batches\<close>

datatype device_monitor_error =
    FromInvalidThinEdgeJson grouper_error
  | FromThinEdgeJsonSerializationError serialization_error

definition start_batch :: "'t collectd_message \<Rightarrow> 't \<Rightarrow> (grouper_error, 't measurement_grouper) res" where
  "start_batch m timestamp =
     res_bind (grouper_timestamp timestamp grouper_new) (collectd_accept grouper_visitor m)"

fun add_all_to_batch :: "'t collectd_message list \<Rightarrow> 't measurement_grouper \<Rightarrow> (grouper_error, 't measurement_grouper) res" where
  "add_all_to_batch [] g = Some (Inr g)"
| "add_all_to_batch (m # ms) g = res_bind (collectd_accept grouper_visitor m g) (add_all_to_batch ms)"

definition batch_thin_edge_json ::
  "'t time_crate \<Rightarrow> json_texts \<Rightarrow> topic \<Rightarrow> 't collectd_message list \<Rightarrow> (device_monitor_error, mqtt_message) res" where
  "batch_thin_edge_json T Q output_topic messages =
     (case messages of
        [] \<Rightarrow> Some (Inl (FromInvalidThinEdgeJson GroupUnexpectedEnd))
      | first_message # rest \<Rightarrow>
          res_bind (map_err FromInvalidThinEdgeJson
            (res_bind (start_batch first_message (cm_timestamp first_message)) (\<lambda>batch.
             res_bind (add_all_to_batch rest batch) grouper_end)))
          (\<lambda>measurements. map_err FromThinEdgeJsonSerializationError
            (res_bind (group_accept (serializer_visitor T Q) measurements serializer_new) (\<lambda>tedge_json_serializer.
             res_bind (serializer_into_string T Q tedge_json_serializer) (\<lambda>payload.
             Some (Inr (message_new output_topic payload)))))))"

definition batch_into_mqtt_messages ::
  "'t time_crate \<Rightarrow> json_texts \<Rightarrow> topic \<Rightarrow> 't collectd_message driver_output \<Rightarrow> mqtt_message list panics" where
  "batch_into_mqtt_messages T Q output_topic in_message =
     (case in_message of
        BatchOf measurements \<Rightarrow>
          map_option (\<lambda>r. case r of Inr message \<Rightarrow> [message] | Inl err \<Rightarrow> [])
            (batch_thin_edge_json T Q output_topic measurements)
      | Flushed \<Rightarrow> Some [])"

definition collectd_output_topic :: topic where
  "collectd_output_topic = topic_new_unchecked ''te/device/main///m/''"

section \<open>The groups of a batch\<close>

text \<open>The values of a batch per group, as the grouper collects them.\<close>

definition add_value :: "'t collectd_message \<Rightarrow> (string, (string, f64) hmap) hmap \<Rightarrow> (string, (string, f64) hmap) hmap" where
  "add_value m groups =
     hm_insert (cm_group_key m)
       (hm_insert (cm_metric_key m) (cm_value m) (case hm_get groups (cm_group_key m) of Some vs \<Rightarrow> vs | None \<Rightarrow> [])) groups"

definition multi :: "(string, (string, f64) hmap) hmap \<Rightarrow> (string, measurement) hmap" where
  "multi = map (map_prod id Multi)"

definition grouper_of :: "'t \<Rightarrow> (string, (string, f64) hmap) hmap \<Rightarrow> 't measurement_grouper" where
  "grouper_of t groups = \<lparr>gr_group = \<lparr>mg_timestamp = Some t, mg_values = multi groups\<rparr>, gr_in_group = False, gr_name = []\<rparr>"

lemma multi_get [simp]: "hm_get (multi groups) k = map_option Multi (hm_get groups k)"
  by (induction groups) (auto simp: multi_def)

lemma multi_insert: "hm_insert k (Multi vs) (multi groups) = multi (hm_insert k vs groups)"
  by (induction groups) (auto simp: multi_def)

lemma accept_grouper: "collectd_accept grouper_visitor m (grouper_of t groups) = Some (Inr (grouper_of t (add_value m groups)))"
  by (cases "hm_get groups (cm_group_key m)")
    (auto simp: collectd_accept_def visit_grouped_measurement_def grouper_visitor_def grouper_start_group_def
      grouper_measurement_def grouper_end_group_def grouper_of_def add_value_def multi_insert Let_def)

lemma add_all_grouper: "add_all_to_batch ms (grouper_of t groups) = Some (Inr (grouper_of t (fold add_value ms groups)))"
  by (induction ms arbitrary: groups) (simp_all add: accept_grouper)

text \<open>The grouper never fails: a batch gives its time and its values per group.\<close>

lemma batch_groups:
  "res_bind (start_batch m t) (\<lambda>batch. res_bind (add_all_to_batch ms batch) grouper_end)
     = Some (Inr \<lparr>mg_timestamp = Some t, mg_values = multi (fold add_value (m # ms) [])\<rparr>)"
proof -
  have "grouper_timestamp t grouper_new = Some (Inr (grouper_of t []))"
    by (simp add: grouper_timestamp_def grouper_new_def measurement_group_new_def grouper_of_def multi_def)
  then show ?thesis
    by (simp add: start_batch_def accept_grouper add_all_grouper) (simp add: grouper_end_def grouper_of_def)
qed

definition value_fields :: "(string, f64) hmap \<Rightarrow> (string \<times> jdoc) list" where
  "value_fields = map (map_prod id DNum)"

definition group_fields :: "(string, (string, f64) hmap) hmap \<Rightarrow> (string \<times> jdoc) list" where
  "group_fields = map (map_prod id (DObj \<circ> value_fields))"

definition finite_values :: "(string, (string, f64) hmap) hmap \<Rightarrow> bool" where
  "finite_values = list_all (\<lambda>(g, vs). list_all (\<lambda>(k, v). f64_is_finite v) vs)"

text \<open>A result that is a given value under a condition, and an error otherwise.\<close>

definition succeeds :: "bool \<Rightarrow> 'a \<Rightarrow> ('e, 'a) res \<Rightarrow> bool" where
  "succeeds b x r \<longleftrightarrow> (if b then r = Some (Inr x) else \<exists>err. r = Some (Inl err))"

lemma succeeds_bind: "succeeds a x r \<Longrightarrow> succeeds b y (f x) \<Longrightarrow> succeeds (a \<and> b) y (res_bind r f)"
  by (auto simp: succeeds_def split: if_splits)

lemma visit_values_fields:
  "succeeds (list_all (\<lambda>(k, v). f64_is_finite v) vs) (s\<lparr>js_json := fold (put_field Q) (value_fields vs) (js_json s)\<rparr>)
     (visit_values (serializer_visitor T Q) vs s)"
proof (induction vs arbitrary: s)
  case (Cons x vs)
  obtain k v where x: "x = (k, v)" by (cases x)
  let ?s = "s\<lparr>js_json := put_field Q (k, DNum v) (js_json s)\<rparr>"
  have "succeeds (f64_is_finite v) ?s (visit_measurement (serializer_visitor T Q) k v s)"
    by (cases "f64_is_finite v")
      (simp_all add: succeeds_def serializer_visitor_def serializer_measurement_def write_f64_field,
       simp add: write_f64_def Let_def)
  from succeeds_bind [where f = "visit_values (serializer_visitor T Q) vs", OF this Cons.IH [of ?s]] show ?case
    by (simp add: x value_fields_def)
qed (simp add: value_fields_def succeeds_def)

lemma accept_group_fields:
  assumes "\<not> js_within_group s"
  shows "succeeds (finite_values groups) (s\<lparr>js_json := fold (put_field Q) (group_fields groups) (js_json s)\<rparr>)
    (accept_values (serializer_visitor T Q) (multi groups) s)"
  using assms
proof (induction groups arbitrary: s)
  case (Cons x groups)
  obtain g vs where x: "x = (g, vs)" by (cases x)
  let ?V = "serializer_visitor T Q"
  let ?start = "s\<lparr>js_json := write_open_obj (write_key Q g (js_json s)), js_within_group := True\<rparr>"
  let ?vs = "?start\<lparr>js_json := fold (put_field Q) (value_fields vs) (js_json ?start)\<rparr>"
  let ?done = "s\<lparr>js_json := put_field Q (g, DObj (value_fields vs)) (js_json s)\<rparr>"
  have start: "succeeds True ?start (visit_start_group ?V g s)"
    using Cons.prems by (simp add: succeeds_def serializer_visitor_def serializer_start_group_def)
  have stop: "succeeds True ?done (visit_end_group ?V ?vs)"
    using Cons.prems write_object_field [of Q "value_fields vs" g "js_json s"]
    by (simp add: succeeds_def serializer_visitor_def serializer_end_group_def)
  let ?rest = "\<lambda>s. res_bind (visit_end_group ?V s) (accept_values ?V (multi groups))"
  have "succeeds (finite_values groups) (?done\<lparr>js_json := fold (put_field Q) (group_fields groups) (js_json ?done)\<rparr>)
      (accept_values ?V (multi groups) ?done)"
    using Cons.prems by (intro Cons.IH) simp
  from succeeds_bind [where f = "accept_values ?V (multi groups)", OF stop this]
  have "succeeds (True \<and> finite_values groups) (?done\<lparr>js_json := fold (put_field Q) (group_fields groups) (js_json ?done)\<rparr>)
      (?rest ?vs)" .
  from succeeds_bind [where f = "\<lambda>s. res_bind (visit_values ?V vs s) ?rest", OF start
      succeeds_bind [where f = ?rest, OF visit_values_fields this]]
  show ?case
    by (simp add: x multi_def group_fields_def finite_values_def)
qed (simp add: succeeds_def group_fields_def finite_values_def multi_def)

text \<open>What a batch becomes: a message if all its values are finite, an error otherwise.\<close>

lemma batch_json:
  fixes T :: "'t time_crate"
  assumes "time_format T (cm_timestamp m) = Some stamp"
  shows "succeeds (finite_values (fold add_value (m # ms) []))
    (message_new t (print_doc Q (DObj ((''time'', DStr stamp) # group_fields (fold add_value (m # ms) [])))))
    (batch_thin_edge_json T Q t (m # ms))"
proof -
  let ?groups = "fold add_value (m # ms) []"
  let ?s = "(serializer_new :: 't json_serializer)\<lparr>js_json := put_field Q (''time'', DStr stamp) (write_open_obj json_writer_new), js_timestamp_present := True\<rparr>"
  have time: "visit_timestamp (serializer_visitor T Q) (cm_timestamp m) serializer_new = Some (Inr ?s)"
    using assms
    by (simp add: serializer_visitor_def serializer_timestamp_def serializer_new_def serializer_new_with_timestamp_def write_str_field)
  let ?s' = "?s\<lparr>js_json := fold (put_field Q) (group_fields ?groups) (js_json ?s)\<rparr>"
  have "serializer_into_string T Q ?s' = Some (Inr (print_doc Q (DObj ((''time'', DStr stamp) # group_fields ?groups))))"
    using write_document [of Q "(''time'', DStr stamp) # group_fields ?groups"]
    by (simp add: serializer_into_string_def serializer_end_def serializer_new_def serializer_new_with_timestamp_def)
  moreover have "succeeds (finite_values ?groups) ?s' (accept_values (serializer_visitor T Q) (multi ?groups) ?s)"
    by (rule accept_group_fields) (simp add: serializer_new_def serializer_new_with_timestamp_def)
  ultimately show ?thesis
    by (auto simp: batch_thin_edge_json_def batch_groups group_accept_def time succeeds_def simp del: fold.simps)
qed

section \<open>The values of a batch\<close>

definition group_value :: "(string, (string, f64) hmap) hmap \<Rightarrow> string \<Rightarrow> string \<Rightarrow> f64 option" where
  "group_value groups g k = hm_get groups g \<bind> (\<lambda>vs. hm_get vs k)"

definition groups_wf :: "(string, (string, f64) hmap) hmap \<Rightarrow> bool" where
  "groups_wf groups \<longleftrightarrow> hm_wf groups \<and> (\<forall>p \<in> set groups. snd p \<noteq> [] \<and> hm_wf (snd p))"

lemma group_value_add:
  "group_value (add_value m groups) g k =
     (if g = cm_group_key m \<and> k = cm_metric_key m then Some (cm_value m) else group_value groups g k)"
  by (auto simp: group_value_def add_value_def update_conv' split: option.split)

lemma set_hm_insert: "set (hm_insert k v m) \<subseteq> insert (k, v) (set m)"
  by (induction m) auto

lemma all_hm_insert: "\<forall>p \<in> set m. P (snd p) \<Longrightarrow> P v \<Longrightarrow> \<forall>p \<in> set (hm_insert k v m). P (snd p)"
  using set_hm_insert [of k v m] by auto

lemma groups_wf_add: "groups_wf groups \<Longrightarrow> groups_wf (add_value m groups)"
proof -
  assume wf: "groups_wf groups"
  let ?vs = "case hm_get groups (cm_group_key m) of Some vs \<Rightarrow> vs | None \<Rightarrow> []"
  have vs: "hm_wf ?vs"
  proof (cases "hm_get groups (cm_group_key m)")
    case (Some vs)
    then have "(cm_group_key m, vs) \<in> set groups" by (rule map_of_SomeD)
    from bspec [OF wf [unfolded groups_wf_def, THEN conjunct2] this] Some show ?thesis by simp
  qed simp
  then have "hm_wf (hm_insert (cm_metric_key m) (cm_value m) ?vs)" by (rule distinct_update)
  moreover have "hm_insert (cm_metric_key m) (cm_value m) ?vs \<noteq> []" by (cases ?vs) auto
  ultimately show ?thesis
    using wf vs unfolding groups_wf_def add_value_def
    by (intro conjI distinct_update all_hm_insert [where P = "\<lambda>vs. vs \<noteq> [] \<and> hm_wf vs"]) auto
qed

lemma groups_wf_fold: "groups_wf groups \<Longrightarrow> groups_wf (fold add_value ms groups)"
  by (induction ms arbitrary: groups) (simp_all add: groups_wf_add)

lemma group_value_fold:
  assumes "distinct (map (\<lambda>x. (cm_group_key x, cm_metric_key x)) ms)"
  shows "group_value (fold add_value ms groups) g k = Some v \<longleftrightarrow>
    (\<exists>x \<in> set ms. (cm_group_key x, cm_metric_key x, cm_value x) = (g, k, v))
    \<or> (\<forall>x \<in> set ms. (cm_group_key x, cm_metric_key x) \<noteq> (g, k)) \<and> group_value groups g k = Some v"
  using assms
proof (induction ms arbitrary: groups)
  case (Cons m ms)
  then have IH: "group_value (fold add_value ms (add_value m groups)) g k = Some v \<longleftrightarrow>
    (\<exists>x \<in> set ms. (cm_group_key x, cm_metric_key x, cm_value x) = (g, k, v))
    \<or> (\<forall>x \<in> set ms. (cm_group_key x, cm_metric_key x) \<noteq> (g, k)) \<and> group_value (add_value m groups) g k = Some v"
    by simp
  have new: "\<forall>x \<in> set ms. (cm_group_key x, cm_metric_key x) \<noteq> (cm_group_key m, cm_metric_key m)"
    using Cons.prems by (force simp: image_iff)
  show ?case
    unfolding fold.simps comp_apply IH group_value_add using new by auto
qed simp

lemma finite_values_iff:
  assumes "groups_wf groups"
  shows "finite_values groups \<longleftrightarrow> (\<forall>g k v. group_value groups g k = Some v \<longrightarrow> f64_is_finite v)"
proof -
  have "group_value groups g k = Some v \<longleftrightarrow> (\<exists>vs. (g, vs) \<in> set groups \<and> (k, v) \<in> set vs)" for g k v
  proof -
    have "hm_get groups g = Some vs \<longleftrightarrow> (g, vs) \<in> set groups" for vs
      using assms by (simp add: groups_wf_def)
    moreover have "hm_get vs k = Some v \<longleftrightarrow> (k, v) \<in> set vs" if "(g, vs) \<in> set groups" for vs
      using assms that by (intro map_of_eq_Some_iff) (auto simp: groups_wf_def)
    ultimately show ?thesis unfolding group_value_def bind_eq_Some_conv by auto
  qed
  then show ?thesis unfolding finite_values_def list_all_iff by (simp only:) blast
qed

lemma batch_keys_distinct:
  assumes "batch_spec (collectd_batchable T) config es"
  shows "distinct (map (\<lambda>x. (cm_group_key x, cm_metric_key x)) es)"
proof -
  have "map (ba_key (collectd_batchable T)) es
      = map (\<lambda>(g, k). g @ ''/'' @ k) (map (\<lambda>x. (cm_group_key x, cm_metric_key x)) es)"
    by (simp add: collectd_batchable_def)
  with assms have "distinct (map (\<lambda>(g, k). g @ ''/'' @ k) (map (\<lambda>x. (cm_group_key x, cm_metric_key x)) es))"
    by (simp add: batch_spec_def)
  then show ?thesis unfolding distinct_map by blast
qed

text \<open>
  C22. A batch of collectd becomes one measurement message: the time of the first event, and for each group an object with
  exactly the values of the batch.  If one of the values is not a finite number, the whole batch is dropped.
\<close>

theorem collectd_batch_translated:
  assumes "batch_spec (collectd_batchable T) config es" "es \<noteq> []" "time_format T (cm_timestamp (hd es)) = Some stamp"
  shows "if \<forall>x \<in> set es. f64_is_finite (cm_value x)
    then \<exists>groups. batch_into_mqtt_messages T Q t (BatchOf es)
          = Some [message_new t (print_doc Q (DObj ((''time'', DStr stamp) # group_fields groups)))]
        \<and> groups_wf groups
        \<and> {(g, k, v). group_value groups g k = Some v} = (\<lambda>x. (cm_group_key x, cm_metric_key x, cm_value x)) ` set es
    else batch_into_mqtt_messages T Q t (BatchOf es) = Some []"
proof -
  obtain m ms where es: "es = m # ms" using assms(2) by (cases es) auto
  let ?groups = "fold add_value es []"
  have wf: "groups_wf ?groups" by (rule groups_wf_fold) (simp add: groups_wf_def)
  have in_groups: "group_value ?groups g k = Some v \<longleftrightarrow>
      (\<exists>x \<in> set es. (cm_group_key x, cm_metric_key x, cm_value x) = (g, k, v))" for g k v
    using group_value_fold [OF batch_keys_distinct [OF assms(1)]] by (simp add: group_value_def)
  have finite: "finite_values ?groups \<longleftrightarrow> (\<forall>x \<in> set es. f64_is_finite (cm_value x))"
    unfolding finite_values_iff [OF wf] in_groups by blast
  have out: "succeeds (finite_values ?groups)
      (message_new t (print_doc Q (DObj ((''time'', DStr stamp) # group_fields ?groups)))) (batch_thin_edge_json T Q t es)"
    unfolding es by (rule batch_json) (use assms(3) es in simp)
  show ?thesis
  proof (cases "\<forall>x \<in> set es. f64_is_finite (cm_value x)")
    case True
    moreover have "{(g, k, v). group_value ?groups g k = Some v} = (\<lambda>x. (cm_group_key x, cm_metric_key x, cm_value x)) ` set es"
      unfolding in_groups by auto
    moreover have "batch_into_mqtt_messages T Q t (BatchOf es)
        = Some [message_new t (print_doc Q (DObj ((''time'', DStr stamp) # group_fields ?groups)))]"
      using out finite True by (simp add: batch_into_mqtt_messages_def succeeds_def)
    ultimately show ?thesis using wf by auto
  next
    case False
    with out finite obtain err where "batch_thin_edge_json T Q t es = Some (Inl err)" by (auto simp: succeeds_def)
    with False show ?thesis by (simp add: batch_into_mqtt_messages_def)
  qed
qed

text \<open>Two values of a group and one of another group, in one batch.\<close>

definition plain_texts :: json_texts where
  "plain_texts = \<lparr>text_of_str = (\<lambda>s. CHR 0x22 # s @ [CHR 0x22]), text_of_f64 = (\<lambda>v. decimal (nat (f64_trunc v)))\<rparr>"

definition daily_time :: "int time_crate" where
  "daily_time = \<lparr>time_of_str = (\<lambda>_. None), time_of_unix = (\<lambda>i. if \<bar>i\<bar> < 377705116800 then Some (i * 1000000000) else None),
     time_of_nanos = Some, time_to_nanos = id, time_format = (\<lambda>_. Some ''2024-01-01T00:00:00Z'')\<rparr>"

definition example_value :: "string \<Rightarrow> string \<Rightarrow> f64 \<Rightarrow> int collectd_message" where
  "example_value g k v = \<lparr>cm_group_key = g, cm_metric_key = k, cm_timestamp = 0, cm_value = v\<rparr>"

definition example_batch :: "f64 \<Rightarrow> int collectd_message list" where
  "example_batch v = [example_value ''cpu'' ''user'' (f64_of_int 1), example_value ''memory'' ''free'' (f64_of_int 7),
     example_value ''cpu'' ''idle'' v]"

theorem collectd_batch_translated_witness:
  "(\<exists>groups. batch_into_mqtt_messages daily_time plain_texts collectd_output_topic (BatchOf (example_batch (f64_of_int 3)))
      = Some [message_new collectd_output_topic (print_doc plain_texts
          (DObj ((''time'', DStr ''2024-01-01T00:00:00Z'') # group_fields groups)))]
      \<and> group_value groups ''cpu'' ''idle'' = Some (f64_of_int 3) \<and> group_value groups ''memory'' ''idle'' = None)
   \<and> batch_into_mqtt_messages daily_time plain_texts collectd_output_topic (BatchOf (example_batch NaN)) = Some []"
proof -
  have spec: "batch_spec (collectd_batchable daily_time) (config_build 500 400 0) (example_batch v)" for v
    by (simp add: batch_spec_def collectd_batchable_def example_batch_def example_value_def config_build_def
        milliseconds_def)
  have ints: "f64_is_finite (f64_of_int 1)" "f64_is_finite (f64_of_int 3)" "f64_is_finite (f64_of_int 7)"
    by (simp_all add: f64_of_int_def f64_eval)
  note translated = collectd_batch_translated [where stamp = "''2024-01-01T00:00:00Z''", OF spec]
  have "\<exists>groups. batch_into_mqtt_messages daily_time plain_texts collectd_output_topic (BatchOf (example_batch (f64_of_int 3)))
      = Some [message_new collectd_output_topic (print_doc plain_texts
          (DObj ((''time'', DStr ''2024-01-01T00:00:00Z'') # group_fields groups)))]
      \<and> groups_wf groups \<and> {(g, k, v). group_value groups g k = Some v}
        = (\<lambda>x. (cm_group_key x, cm_metric_key x, cm_value x)) ` set (example_batch (f64_of_int 3))"
    using translated [of "f64_of_int 3"] ints
    by (simp add: example_batch_def example_value_def daily_time_def del: print_doc.simps)
  then obtain groups where groups: "batch_into_mqtt_messages daily_time plain_texts collectd_output_topic
        (BatchOf (example_batch (f64_of_int 3)))
      = Some [message_new collectd_output_topic (print_doc plain_texts
          (DObj ((''time'', DStr ''2024-01-01T00:00:00Z'') # group_fields groups)))]"
    and vals: "{(g, k, v). group_value groups g k = Some v}
      = (\<lambda>x. (cm_group_key x, cm_metric_key x, cm_value x)) ` set (example_batch (f64_of_int 3))"
    by (elim exE conjE) (rule that)
  have in_batch: "group_value groups g k = Some v \<longleftrightarrow>
      (g, k, v) \<in> (\<lambda>x. (cm_group_key x, cm_metric_key x, cm_value x)) ` set (example_batch (f64_of_int 3))" for g k v
    unfolding vals [symmetric] by simp
  have "group_value groups ''cpu'' ''idle'' = Some (f64_of_int 3)"
    unfolding in_batch by (simp add: example_batch_def example_value_def)
  moreover have "group_value groups ''memory'' ''idle'' \<noteq> Some v" for v
    unfolding in_batch by (simp add: example_batch_def example_value_def)
  moreover have "batch_into_mqtt_messages daily_time plain_texts collectd_output_topic (BatchOf (example_batch NaN)) = Some []"
    using translated [of NaN] by (simp add: example_batch_def example_value_def daily_time_def)
  ultimately show ?thesis using groups by auto
qed

section \<open>Times that end the mapper\<close>

text \<open>
  A payload of collectd whose number of seconds is out of the range of times, as \<^verbatim>\<open>inf\<close> or \<^verbatim>\<open>1e300\<close>, makes the collectd
  mapper panic, with all the messages after it.
\<close>

lemma collectd_time_panics:
  assumes "collectd_topic_of_str (topic_name (mm_topic m)) = Some gk" "from_utf8 (payload_bytes m) = Some payload"
    and "collectd_payload_parse payload = Inr p" "time_of_unix T (f64_as_i64 (cp_timestamp p)) = None"
  shows "collectd_run T add (before @ m # after) = None"
proof -
  have nonempty: "parse_values (x # xs) = Inr vs \<Longrightarrow> vs \<noteq> []" for x xs vs
    by (auto split: option.splits sum.splits)
  then have "cp_values p \<noteq> []"
    using assms(3) by (auto simp: collectd_payload_parse_def simp del: parse_values.simps split: list.splits option.splits sum.splits)
  then have "enumerate 0 (cp_values p) \<noteq> []" by (cases "cp_values p") simp_all
  moreover have "collectd_timestamp T add p = None"
    using assms(4) by (simp add: collectd_timestamp_def Let_def)
  ultimately have "collectd_parse_from T add m = None"
    using assms(1-3) by (cases "enumerate 0 (cp_values p)") (auto simp: collectd_parse_from_def Let_def split: prod.splits)
  then show ?thesis by (induction before) (auto simp: bind_eq_None_conv)
qed

lemma collectd_time_panics_instance:
  "collectd_run daily_time (\<lambda>t n. Some (t + n))
     [message_new (topic_new_unchecked ''collectd/host/cpu/idle'') ''inf:nan''] = None"
proof -
  let ?m = "message_new (topic_new_unchecked ''collectd/host/cpu/idle'') ''inf:nan''"
  have "collectd_topic_of_str (topic_name (mm_topic ?m)) = Some (''cpu'', ''idle'')" by code_simp
  moreover have "from_utf8 (payload_bytes ?m) = Some ''inf:nan''" by code_simp
  moreover have "collectd_payload_parse ''inf:nan'' = Inr \<lparr>cp_timestamp = Inf False, cp_values = [NaN]\<rparr>" by code_simp
  moreover have "time_of_unix daily_time (f64_as_i64 (Inf False)) = None"
    by (simp add: daily_time_def f64_as_i64_def f64_cast_def)
  ultimately show ?thesis
    using collectd_time_panics [of ?m _ _ _ daily_time "\<lambda>t n. Some (t + n)" "[]" "[]"] by simp
qed

end
