(* ===== verification/Legacy_Topics.thy ===== *)
theory Legacy_Topics
  imports Topic_Schema Json "HOL-Library.Monad_Syntax"
begin

text \<open>
  The translation of the topics of the first versions of thin-edge to the topics of the schema
  (\<^verbatim>\<open>tedge_agent/src/tedge_to_te_converter/converter.rs\<close>): measurements, events and alarms.  The text of a hash map is
  written in the order of its iteration: it is a parameter, with the rule that it is read back as the map.
\<close>

definition starts_with :: "string \<Rightarrow> string \<Rightarrow> bool" where
  "starts_with p s \<longleftrightarrow> strip_prefix p s \<noteq> None"

definition convert_legacy_measurement :: "mqtt_message \<Rightarrow> mqtt_message list" where
  "convert_legacy_measurement message =
     (let te_topic =
        (case split_on slash (topic_name (mm_topic message)) of
           [t, m] \<Rightarrow> if t = ''tedge'' \<and> m = ''measurements'' then Some (topic_new_unchecked ''te/device/main///m/'') else None
         | [t, m, cid] \<Rightarrow>
             if t = ''tedge'' \<and> m = ''measurements'' then Some (topic_new_unchecked (''te/device/'' @ cid @ ''///m/'')) else None
         | _ \<Rightarrow> None)
      in case te_topic of None \<Rightarrow> [] | Some t \<Rightarrow> [message\<lparr>mm_topic := t\<rparr>])"

text \<open>An alarm that is not empty gets its severity, if its payload is a JSON object.\<close>

definition with_severity :: "serde \<Rightarrow> (jmap \<Rightarrow> string) \<Rightarrow> string \<Rightarrow> mqtt_message \<Rightarrow> mqtt_message" where
  "with_severity J H severity message =
     (if mm_payload message = [] then message
      else case json_of_text J (payload_bytes message) \<bind> as_object of
             None \<Rightarrow> message
           | Some alarm \<Rightarrow> message\<lparr>mm_payload := H (bt_insert ''severity'' (JString severity) alarm)\<rparr>)"

definition convert_legacy_alarm :: "serde \<Rightarrow> (jmap \<Rightarrow> string) \<Rightarrow> mqtt_message \<Rightarrow> mqtt_message list" where
  "convert_legacy_alarm J H message =
     (let te_topic =
        (case split_on slash (topic_name (mm_topic message)) of
           [t, a, severity, alarm_type] \<Rightarrow>
             if t = ''tedge'' \<and> a = ''alarms''
             then Some (topic_new_unchecked (''te/device/main///a/'' @ alarm_type), severity) else None
         | [t, a, severity, alarm_type, cid] \<Rightarrow>
             if t = ''tedge'' \<and> a = ''alarms''
             then Some (topic_new_unchecked (''te/device/'' @ cid @ ''///a/'' @ alarm_type), severity) else None
         | _ \<Rightarrow> None)
      in case te_topic of
           None \<Rightarrow> []
         | Some (t, severity) \<Rightarrow> [(with_severity J H severity message)\<lparr>mm_topic := t, mm_retain := True\<rparr>])"

definition convert_legacy_event :: "mqtt_message \<Rightarrow> mqtt_message list" where
  "convert_legacy_event message =
     (let te_topic =
        (case split_on slash (topic_name (mm_topic message)) of
           [t, e, event_type] \<Rightarrow>
             if t = ''tedge'' \<and> e = ''events'' then Some (topic_new_unchecked (''te/device/main///e/'' @ event_type)) else None
         | [t, e, event_type, cid] \<Rightarrow>
             if t = ''tedge'' \<and> e = ''events''
             then Some (topic_new_unchecked (''te/device/'' @ cid @ ''///e/'' @ event_type)) else None
         | _ \<Rightarrow> None)
      in case te_topic of None \<Rightarrow> [] | Some t \<Rightarrow> [message\<lparr>mm_topic := t\<rparr>])"

definition try_convert_legacy :: "serde \<Rightarrow> (jmap \<Rightarrow> string) \<Rightarrow> mqtt_message \<Rightarrow> mqtt_message list" where
  "try_convert_legacy J H message =
     (let topic = topic_name (mm_topic message) in
      if starts_with ''tedge/measurements'' topic then convert_legacy_measurement message
      else if starts_with ''tedge/events'' topic then convert_legacy_event message
      else if starts_with ''tedge/alarms'' topic then convert_legacy_alarm J H message
      else [])"

section \<open>The topics of the schema\<close>

definition hash_text_rule :: "serde \<Rightarrow> (jmap \<Rightarrow> string) \<Rightarrow> bool" where
  "hash_text_rule J H \<longleftrightarrow>
     (\<forall>m. jmap_wf m \<longrightarrow> json_of_text J (H m) = Some (JObject m) \<and> H m \<noteq> [] \<and> last (H m) \<noteq> CHR 0x00)"

text \<open>The topic of a device and a channel with a name.\<close>

lemma device_channel_of:
  assumes "topic_rule L" "slash \<notin> set cid" "slash \<notin> set name" "no_wildcard cid" "no_wildcard name"
    and "c \<in> {Measurement name, Event name, Alarm name}"
  shows "entity_channel_of L schema_new (''te/device/'' @ cid @ ''///'' @ channel_to_str c) = Inr (''device/'' @ cid @ ''//'', c)"
proof -
  have wf: "wf_channel c" using assms(3,6) by auto
  have "entity_channel_of L schema_new (topic_text schema_new (''device/'' @ cid @ ''//'') c)
      = Inr (''device/'' @ cid @ ''//'', c)"
    using assms(1,2,4) wf
    by (intro entity_channel_of_topic_text) (auto simp: schema_new_def with_root_def wf_entity_id_def)
  moreover have "topic_text schema_new (''device/'' @ cid @ ''//'') c = ''te/device/'' @ cid @ ''///'' @ channel_to_str c"
    using assms(6) by (auto simp: topic_text_def schema_new_def with_root_def)
  ultimately show ?thesis by simp
qed

text \<open>The end of a legacy topic for a child device, and the device it names.\<close>

fun legacy_child :: "string option \<Rightarrow> string" where
  "legacy_child None = []"
| "legacy_child (Some cid) = ''/'' @ cid"

fun legacy_device :: "string option \<Rightarrow> entity_topic_id" where
  "legacy_device None = default_main_device"
| "legacy_device (Some cid) = ''device/'' @ cid @ ''//''"

definition plain_name :: "string \<Rightarrow> bool" where
  "plain_name n \<longleftrightarrow> slash \<notin> set n \<and> no_wildcard n"

lemma legacy_channel_of:
  assumes "topic_rule L" "plain_name name" "case child of None \<Rightarrow> True | Some cid \<Rightarrow> plain_name cid"
    and "c \<in> {Measurement name, Event name, Alarm name}"
  shows "entity_channel_of L schema_new (''te/'' @ legacy_device child @ ''/'' @ channel_to_str c) = Inr (legacy_device child, c)"
proof (cases child)
  case None
  then show ?thesis
    using device_channel_of [OF assms(1), of "''main''" name c] assms(2,4)
    by (simp add: plain_name_def default_main_device_def)
next
  case (Some cid)
  then show ?thesis
    using device_channel_of [OF assms(1), of cid name c] assms(2,3,4) by (simp add: plain_name_def)
qed

lemma legacy_measurement:
  assumes "case child of None \<Rightarrow> True | Some cid \<Rightarrow> plain_name cid"
  shows "try_convert_legacy J H (m\<lparr>mm_topic := topic_new_unchecked (''tedge/measurements'' @ legacy_child child)\<rparr>)
    = [m\<lparr>mm_topic := topic_new_unchecked (''te/'' @ legacy_device child @ ''/m/'')\<rparr>]"
  using assms
  by (cases child)
    (auto simp: try_convert_legacy_def starts_with_def convert_legacy_measurement_def topic_new_unchecked_def plain_name_def
      default_main_device_def)

lemma legacy_event:
  assumes "plain_name ty" "case child of None \<Rightarrow> True | Some cid \<Rightarrow> plain_name cid"
  shows "try_convert_legacy J H (m\<lparr>mm_topic := topic_new_unchecked (''tedge/events/'' @ ty @ legacy_child child)\<rparr>)
    = [m\<lparr>mm_topic := topic_new_unchecked (''te/'' @ legacy_device child @ ''/e/'' @ ty)\<rparr>]"
  using assms
  by (cases child)
    (auto simp: try_convert_legacy_def starts_with_def convert_legacy_event_def topic_new_unchecked_def plain_name_def
      default_main_device_def)

lemma legacy_alarm:
  assumes "plain_name severity" "plain_name ty" "case child of None \<Rightarrow> True | Some cid \<Rightarrow> plain_name cid"
  shows "try_convert_legacy J H (m\<lparr>mm_topic := topic_new_unchecked (''tedge/alarms/'' @ severity @ ''/'' @ ty @ legacy_child child)\<rparr>)
    = [(with_severity J H severity m)\<lparr>mm_topic := topic_new_unchecked (''te/'' @ legacy_device child @ ''/a/'' @ ty),
        mm_retain := True\<rparr>]"
  using assms
  by (cases child)
    (auto simp: try_convert_legacy_def starts_with_def convert_legacy_alarm_def topic_new_unchecked_def plain_name_def
      default_main_device_def with_severity_def payload_bytes_def split: option.split)

text \<open>
  Each message on a legacy topic becomes one message on the topic of the schema of the same device, kind and type.
  Measurements and events keep their payload.  An alarm is retained; if its payload is a JSON object it gets the
  severity of its topic and keeps its other fields, and it keeps its payload otherwise.
\<close>

lemma legacy_messages_converted:
  assumes "topic_rule L" "hash_text_rule J H" "\<forall>s v. json_of_text J s = Some v \<longrightarrow> json_wf v"
    and names: "plain_name severity" "plain_name ty" "case child of None \<Rightarrow> True | Some cid \<Rightarrow> plain_name cid"
  shows "(\<exists>t. try_convert_legacy J H (m\<lparr>mm_topic := topic_new_unchecked (''tedge/measurements'' @ legacy_child child)\<rparr>) = [m\<lparr>mm_topic := t\<rparr>]
        \<and> entity_channel_of L schema_new (topic_name t) = Inr (legacy_device child, Measurement []))
    \<and> (\<exists>t. try_convert_legacy J H (m\<lparr>mm_topic := topic_new_unchecked (''tedge/events/'' @ ty @ legacy_child child)\<rparr>) = [m\<lparr>mm_topic := t\<rparr>]
        \<and> entity_channel_of L schema_new (topic_name t) = Inr (legacy_device child, Event ty))
    \<and> (\<exists>a. try_convert_legacy J H (m\<lparr>mm_topic :=
             topic_new_unchecked (''tedge/alarms/'' @ severity @ ''/'' @ ty @ legacy_child child)\<rparr>) = [a]
        \<and> entity_channel_of L schema_new (topic_name (mm_topic a)) = Inr (legacy_device child, Alarm ty) \<and> mm_retain a
        \<and> (case json_of_text J (payload_bytes m) of
             Some (JObject alarm) \<Rightarrow> mm_payload m \<noteq> [] \<longrightarrow>
               json_of_text J (payload_bytes a) = Some (JObject (bt_insert ''severity'' (JString severity) alarm))
           | _ \<Rightarrow> payload_bytes a = payload_bytes m))"
proof (intro conjI)
  have empty: "plain_name []" by (simp add: plain_name_def)
  show "\<exists>t. try_convert_legacy J H (m\<lparr>mm_topic := topic_new_unchecked (''tedge/measurements'' @ legacy_child child)\<rparr>) = [m\<lparr>mm_topic := t\<rparr>]
      \<and> entity_channel_of L schema_new (topic_name t) = Inr (legacy_device child, Measurement [])"
    using legacy_measurement [OF names(3)] legacy_channel_of [OF assms(1) empty names(3), of "Measurement []"]
    by (auto simp: topic_new_unchecked_def)
  show "\<exists>t. try_convert_legacy J H (m\<lparr>mm_topic := topic_new_unchecked (''tedge/events/'' @ ty @ legacy_child child)\<rparr>) = [m\<lparr>mm_topic := t\<rparr>]
      \<and> entity_channel_of L schema_new (topic_name t) = Inr (legacy_device child, Event ty)"
    using legacy_event [OF names(2,3)] legacy_channel_of [OF assms(1) names(2,3), of "Event ty"]
    by (auto simp: topic_new_unchecked_def)
  have payload: "case json_of_text J (payload_bytes m) of
      Some (JObject alarm) \<Rightarrow> mm_payload m \<noteq> [] \<longrightarrow>
        json_of_text J (payload_bytes (with_severity J H severity m)) = Some (JObject (bt_insert ''severity'' (JString severity) alarm))
    | _ \<Rightarrow> payload_bytes (with_severity J H severity m) = payload_bytes m"
  proof (cases "json_of_text J (payload_bytes m) \<bind> as_object")
    case None
    then show ?thesis by (auto simp: with_severity_def split: option.split json.split)
  next
    case (Some alarm)
    then have obj: "json_of_text J (payload_bytes m) = Some (JObject alarm)"
      by (auto simp: bind_eq_Some_conv elim: as_object.elims)
    let ?alarm = "bt_insert ''severity'' (JString severity) alarm"
    have "json_wf (JObject alarm)" using assms(3) obj by blast
    then have "jmap_wf ?alarm" by (intro jmap_wf_insert) (simp_all add: jmap_wf_def)
    then have "json_of_text J (H ?alarm) = Some (JObject ?alarm)" "payload_bytes (m\<lparr>mm_payload := H ?alarm\<rparr>) = H ?alarm"
      using assms(2) by (auto simp: hash_text_rule_def payload_bytes_text)
    with Some obj show ?thesis by (simp add: with_severity_def)
  qed
  have "payload_bytes (x\<lparr>mm_topic := t, mm_retain := b\<rparr>) = payload_bytes x" for x :: mqtt_message and t b
    by (cases "strip_suffix [CHR 0x00] (mm_payload x)") (simp_all add: payload_bytes_def)
  with payload show "\<exists>a. try_convert_legacy J H (m\<lparr>mm_topic :=
             topic_new_unchecked (''tedge/alarms/'' @ severity @ ''/'' @ ty @ legacy_child child)\<rparr>) = [a]
        \<and> entity_channel_of L schema_new (topic_name (mm_topic a)) = Inr (legacy_device child, Alarm ty) \<and> mm_retain a
        \<and> (case json_of_text J (payload_bytes m) of
             Some (JObject alarm) \<Rightarrow> mm_payload m \<noteq> [] \<longrightarrow>
               json_of_text J (payload_bytes a) = Some (JObject (bt_insert ''severity'' (JString severity) alarm))
           | _ \<Rightarrow> payload_bytes a = payload_bytes m)"
    using legacy_alarm [OF names] legacy_channel_of [OF assms(1) names(2,3), of "Alarm ty"]
    by (auto simp: topic_new_unchecked_def split: option.split json.split)
qed

text \<open>A temperature alarm of a child device.\<close>

lemma legacy_messages_converted_instance:
  "\<exists>a. try_convert_legacy code_serde (\<lambda>m. json_to_text code_serde (JObject m))
      (message_new (topic_new_unchecked ''tedge/alarms/major/hot/child1'') (json_to_text code_serde (JObject [(''text'', JString ''x'')])))
      = [a]
    \<and> entity_channel_of wildcard_free_mqtt schema_new (topic_name (mm_topic a)) = Inr (''device/child1//'', Alarm ''hot'')
    \<and> json_of_text code_serde (payload_bytes a) = Some (JObject [(''severity'', JString ''major''), (''text'', JString ''x'')])"
proof -
  let ?J = code_serde and ?H = "\<lambda>m. json_to_text code_serde (JObject m)"
  let ?m = "message_new (topic_new_unchecked []) (json_to_text ?J (JObject [(''text'', JString ''x'')]))"
  have rule: "hash_text_rule ?J ?H"
    using serde_roundtrip [OF code_serde_rule] serde_text [OF code_serde_rule] by (auto simp: hash_text_rule_def jmap_wf_def)
  have wf: "\<forall>s v. json_of_text ?J s = Some v \<longrightarrow> json_wf v" using code_serde_wf by blast
  have payload: "payload_bytes ?m = json_to_text ?J (JObject [(''text'', JString ''x'')])"
    using serde_text [OF code_serde_rule] by (intro payload_bytes_text) auto
  have json: "json_of_text ?J (json_to_text ?J (JObject [(''text'', JString ''x'')])) = Some (JObject [(''text'', JString ''x'')])"
    by (rule serde_roundtrip) (simp_all add: bt_wf_def)
  have names: "plain_name ''major''" "plain_name ''hot''" "case Some ''child1'' of None \<Rightarrow> True | Some cid \<Rightarrow> plain_name cid"
    by (simp_all add: plain_name_def)
  have topic: "?m\<lparr>mm_topic := topic_new_unchecked (''tedge/alarms/'' @ ''major'' @ ''/'' @ ''hot'' @ legacy_child (Some ''child1''))\<rparr>
      = message_new (topic_new_unchecked ''tedge/alarms/major/hot/child1'') (json_to_text ?J (JObject [(''text'', JString ''x'')]))"
    by (simp add: message_new_def)
  from legacy_messages_converted [OF wildcard_free_mqtt_rule rule wf names, of ?m, THEN conjunct2, THEN conjunct2]
  show ?thesis
    unfolding topic payload json using serde_text [OF code_serde_rule] by auto
qed

end
