(* ===== verification/Telemetry_Mappers.thy ===== *)
theory Telemetry_Mappers
  imports Measurements Topic_Schema
begin

text \<open>
  The mappers of AWS and Azure (\<^verbatim>\<open>aws_mapper_ext/src/converter.rs\<close>, \<^verbatim>\<open>az_mapper_ext/src/converter.rs\<close>): telemetry and health
  messages are published to the cloud with their time in the configured format.  A reading of the clock is an input;
  the text of an error is a parameter.
\<close>

section \<open>Payloads\<close>

datatype mapping_error =
    MappingSizeExceeded string nat nat
  | FromSerdeJson

definition size_validate :: "nat \<Rightarrow> mqtt_message \<Rightarrow> (mapping_error, unit) res" where
  "size_validate threshold input =
     (let actual_size = length (payload_bytes input) in
      if threshold < actual_size then Some (Inl (MappingSizeExceeded (topic_name (mm_topic input)) actual_size threshold))
      else Some (Inr ()))"

fun validate_all :: "nat \<Rightarrow> mqtt_message list \<Rightarrow> (mapping_error, unit) res" where
  "validate_all threshold [] = Some (Inr ())"
| "validate_all threshold (m # ms) = res_bind (size_validate threshold m) (\<lambda>_. validate_all threshold ms)"

record 't payload_env =
  pe_mqtt :: rumqttc
  pe_json :: serde
  pe_time :: "'t time_crate"
  pe_float :: "f64 \<Rightarrow> string"

definition with_timestamp ::
  "'t payload_env \<Rightarrow> time_fmt \<Rightarrow> bool \<Rightarrow> 't \<Rightarrow> mqtt_message \<Rightarrow> (mapping_error, string) res" where
  "with_timestamp E fmt add_timestamp now input =
     (case json_of_text (pe_json E) (payload_bytes input) \<bind> as_object of
        None \<Rightarrow> Some (Inl FromSerdeJson)
      | Some payload \<Rightarrow>
          let accept = (\<lambda>v. case v of None \<Rightarrow> Inl FromSerdeJson | Some v \<Rightarrow> Inr (Some v)) in
          res_bind
            (case bt_get payload ''time'' of
               Some time \<Rightarrow> map_option accept (reformat_json (pe_time E) (pe_float E) fmt time)
             | None \<Rightarrow>
                 if add_timestamp then Some (accept (time_to_json (pe_time E) (pe_float E) fmt now)) else Some (Inr None))
            (\<lambda>time. let payload = bt_remove ''time'' payload in
               Some (Inr (json_to_text (pe_json E)
                 (JObject (case time of Some t \<Rightarrow> bt_insert ''time'' t payload | None \<Rightarrow> payload))))))"

section \<open>AWS\<close>

record aws_converter =
  aws_add_timestamp :: bool
  aws_size_threshold :: nat
  aws_schema :: mqtt_schema
  aws_time_format :: time_fmt
  aws_prefix :: string

definition aws_converter_new :: "bool \<Rightarrow> mqtt_schema \<Rightarrow> time_fmt \<Rightarrow> string \<Rightarrow> nat \<Rightarrow> aws_converter" where
  "aws_converter_new add_timestamp schema fmt topic_prefix max_payload_size =
     \<lparr>aws_add_timestamp = add_timestamp, aws_size_threshold = max_payload_size, aws_schema = schema,
      aws_time_format = fmt, aws_prefix = topic_prefix\<rparr>"

definition aws_with_threshold :: "nat \<Rightarrow> aws_converter \<Rightarrow> aws_converter" where
  "aws_with_threshold threshold C = C\<lparr>aws_size_threshold := threshold\<rparr>"

definition normalize_name :: "entity_topic_id \<Rightarrow> string" where
  "normalize_name source = join_with CHR '':'' (filter (\<lambda>p. p \<noteq> []) (split_on slash source))"

definition aws_health_message ::
  "'t payload_env \<Rightarrow> aws_converter \<Rightarrow> 't \<Rightarrow> entity_topic_id \<Rightarrow> mqtt_message \<Rightarrow> (mapping_error, mqtt_message list) res" where
  "aws_health_message E C now source input =
     res_bind (with_timestamp E (aws_time_format C) (aws_add_timestamp C) now input) (\<lambda>payload.
       case topic_new (pe_mqtt E) (aws_prefix C @ ''/td/'' @ normalize_name source @ ''/status/health'') of
         Inl _ \<Rightarrow> None
       | Inr t \<Rightarrow> Some (Inr [message_new t payload]))"

definition aws_telemetry_message ::
  "'t payload_env \<Rightarrow> aws_converter \<Rightarrow> 't \<Rightarrow> mqtt_message \<Rightarrow> entity_topic_id \<Rightarrow> string
     \<Rightarrow> (mapping_error, mqtt_message list) res" where
  "aws_telemetry_message E C now input source telemetry_type =
     res_bind (with_timestamp E (aws_time_format C) (aws_add_timestamp C) now input) (\<lambda>payload.
       let kind = (case split_on slash (topic_name (mm_topic input)) of
               [_, _, _, _, _, k, _] \<Rightarrow> if k \<in> {''m'', ''e'', ''a''} then Some k else None
             | _ \<Rightarrow> None)
       in case kind of
            None \<Rightarrow> Some (Inr [])
          | Some k \<Rightarrow>
              let output = message_new (topic_new_unchecked
                    (aws_prefix C @ ''/td/'' @ normalize_name source @ ''/'' @ k @ ''/'' @ telemetry_type)) payload
              in res_bind (size_validate (aws_size_threshold C) output) (\<lambda>_. Some (Inr [output])))"

definition aws_convert_te ::
  "'t payload_env \<Rightarrow> aws_converter \<Rightarrow> 't \<Rightarrow> entity_topic_id \<Rightarrow> channel \<Rightarrow> mqtt_message
     \<Rightarrow> (mapping_error, mqtt_message list) res" where
  "aws_convert_te E C now source c input =
     (if source = ''device/main/service/mosquitto-aws-bridge'' then Some (Inr [])
      else case c of
             Measurement type_name \<Rightarrow> aws_telemetry_message E C now input source type_name
           | Event type_name \<Rightarrow> aws_telemetry_message E C now input source type_name
           | Alarm type_name \<Rightarrow> aws_telemetry_message E C now input source type_name
           | Health \<Rightarrow> aws_health_message E C now source input
           | _ \<Rightarrow> Some (Inr []))"

definition aws_try_convert ::
  "'t payload_env \<Rightarrow> aws_converter \<Rightarrow> 't \<Rightarrow> mqtt_message \<Rightarrow> (mapping_error, mqtt_message list) res" where
  "aws_try_convert E C now input =
     res_bind (case entity_channel_of (pe_mqtt E) (aws_schema C) (topic_name (mm_topic input)) of
                 Inr (source, c) \<Rightarrow> aws_convert_te E C now source c input
               | Inl _ \<Rightarrow> Some (Inr []))
       (\<lambda>messages. res_bind (validate_all (aws_size_threshold C) messages) (\<lambda>_. Some (Inr messages)))"

section \<open>Azure\<close>

record az_converter =
  az_add_timestamp :: bool
  az_size_threshold :: nat
  az_out_topic :: topic
  az_errors_topic :: topic
  az_time_format :: time_fmt
  az_schema :: mqtt_schema

definition az_converter_new :: "bool \<Rightarrow> mqtt_schema \<Rightarrow> time_fmt \<Rightarrow> string \<Rightarrow> nat \<Rightarrow> az_converter" where
  "az_converter_new add_timestamp schema fmt topic_prefix max_payload_size =
     \<lparr>az_add_timestamp = add_timestamp, az_size_threshold = max_payload_size,
      az_out_topic = topic_new_unchecked (topic_prefix @ ''/messages/events/''), az_errors_topic = error_topic schema,
      az_time_format = fmt, az_schema = schema_new\<rparr>"

definition az_with_threshold :: "nat \<Rightarrow> az_converter \<Rightarrow> az_converter" where
  "az_with_threshold threshold C = C\<lparr>az_size_threshold := threshold\<rparr>"

definition az_with_timestamp ::
  "'t payload_env \<Rightarrow> az_converter \<Rightarrow> 't \<Rightarrow> mqtt_message \<Rightarrow> (mapping_error, string) res" where
  "az_with_timestamp E C now input = with_timestamp E (az_time_format C) (az_add_timestamp C) now input"

definition az_convert_te ::
  "'t payload_env \<Rightarrow> az_converter \<Rightarrow> 't \<Rightarrow> entity_topic_id \<Rightarrow> channel \<Rightarrow> mqtt_message
     \<Rightarrow> (mapping_error, mqtt_message list) res" where
  "az_convert_te E C now entity c input =
     (if entity = ''device/main/service/mosquitto-az-bridge'' then Some (Inr [])
      else if (case c of Measurement _ \<Rightarrow> True | Event _ \<Rightarrow> True | Alarm _ \<Rightarrow> True | Health \<Rightarrow> True | _ \<Rightarrow> False)
      then res_bind (az_with_timestamp E C now input) (\<lambda>payload. Some (Inr [message_new (az_out_topic C) payload]))
      else Some (Inr []))"

definition az_try_convert ::
  "'t payload_env \<Rightarrow> az_converter \<Rightarrow> 't \<Rightarrow> mqtt_message \<Rightarrow> (mapping_error, mqtt_message list) res" where
  "az_try_convert E C now input =
     res_bind (case entity_channel_of (pe_mqtt E) (az_schema C) (topic_name (mm_topic input)) of
                 Inr (entity, c) \<Rightarrow> az_convert_te E C now entity c input
               | Inl _ \<Rightarrow> Some (Inr []))
       (\<lambda>messages. res_bind (validate_all (az_size_threshold C) messages) (\<lambda>_. Some (Inr messages)))"

text \<open>\<^verbatim>\<open>Converter::convert\<close>: an error becomes a message on the topic of errors.\<close>

definition wrap_errors ::
  "(mapping_error \<Rightarrow> string) \<Rightarrow> topic \<Rightarrow> (mapping_error, mqtt_message list) res \<Rightarrow> mqtt_message list panics" where
  "wrap_errors err_text errors_topic r =
     map_option (\<lambda>r. case r of Inr messages \<Rightarrow> messages | Inl err \<Rightarrow> [message_new errors_topic (err_text err)]) r"

definition aws_convert ::
  "(mapping_error \<Rightarrow> string) \<Rightarrow> 't payload_env \<Rightarrow> aws_converter \<Rightarrow> 't \<Rightarrow> mqtt_message \<Rightarrow> mqtt_message list panics" where
  "aws_convert err_text E C now input = wrap_errors err_text (error_topic (aws_schema C)) (aws_try_convert E C now input)"

definition az_convert ::
  "(mapping_error \<Rightarrow> string) \<Rightarrow> 't payload_env \<Rightarrow> az_converter \<Rightarrow> 't \<Rightarrow> mqtt_message \<Rightarrow> mqtt_message list panics" where
  "az_convert err_text E C now input = wrap_errors err_text (az_errors_topic C) (az_try_convert E C now input)"

section \<open>What is published\<close>

lemma res_bind_Inr_iff: "res_bind r f = Some (Inr y) \<longleftrightarrow> (\<exists>x. r = Some (Inr x) \<and> f x = Some (Inr y))"
  by (cases "(r, f)" rule: res_bind.cases) auto

text \<open>
  The time of a message that is published.  A time that already has the JSON type of the format is kept as it is, without any
  check; one of the other type is read and written in the format; a value that is neither a text nor a number is an error.  Without a time, the
  reading of the clock is added when the mapper is configured to do so.  The outer \<^term>\<open>None\<close> is the panic of a number out of range.
\<close>

definition time_result :: "json option \<Rightarrow> (mapping_error, json option) res" where
  "time_result v = Some (case v of None \<Rightarrow> Inl FromSerdeJson | Some v \<Rightarrow> Inr (Some v))"

fun expected_time ::
  "'t time_crate \<Rightarrow> (f64 \<Rightarrow> string) \<Rightarrow> time_fmt \<Rightarrow> bool \<Rightarrow> 't \<Rightarrow> json option \<Rightarrow> (mapping_error, json option) res" where
  "expected_time T P fmt add_timestamp now None =
     (if add_timestamp then time_result (time_to_json T P fmt now) else Some (Inr None))"
| "expected_time T P Rfc3339 add_timestamp now (Some (JString s)) = Some (Inr (Some (JString s)))"
| "expected_time T P Unix add_timestamp now (Some (JNumber n)) = Some (Inr (Some (JNumber n)))"
| "expected_time T P Unix add_timestamp now (Some (JString s)) =
     time_result (map_option (\<lambda>t. json_of_f64 P (f64_scale (f64_of_int (time_to_nanos T t)) 1 1000000000)) (time_of_str T s))"
| "expected_time T P Rfc3339 add_timestamp now (Some (JNumber n)) =
     (case iso_or_unix T (JNumber n) of
        None \<Rightarrow> None
      | Some t \<Rightarrow> time_result (map_option JString (t \<bind> time_format T)))"
| "expected_time T P fmt add_timestamp now (Some v) = Some (Inl FromSerdeJson)"

lemma time_result_Inr [simp]: "time_result v = Some (Inr w) \<longleftrightarrow> v \<noteq> None \<and> w = v"
  by (auto simp: time_result_def split: option.splits)

lemma expected_time_reformat:
  "expected_time T P fmt add_timestamp now (Some v) = (case reformat_json T P fmt v of None \<Rightarrow> None | Some t \<Rightarrow> time_result t)"
proof (cases v)
  case (JNumber n)
  show ?thesis
  proof (cases fmt)
    case Rfc3339
    have "t \<bind> time_to_json T P Rfc3339 = map_option JString (t \<bind> time_format T)" for t by (cases t) simp_all
    with JNumber Rfc3339 show ?thesis by (simp add: reformat_json_def split: option.split)
  qed (simp add: JNumber reformat_json_def time_result_def)
next
  case (JString s)
  have "t \<bind> time_to_json T P Unix = map_option (\<lambda>t. json_of_f64 P (f64_scale (f64_of_int (time_to_nanos T t)) 1 1000000000)) t" for t
    by (cases t) simp_all
  then show ?thesis by (cases fmt) (simp_all add: JString reformat_json_def time_of_text_def time_result_def)
qed (simp_all add: reformat_json_def time_result_def)

lemma expected_time_error: "expected_time T P fmt add_timestamp now v = Some (Inl err) \<Longrightarrow> err = FromSerdeJson"
  by (induction T P fmt add_timestamp now v rule: expected_time.induct)
    (auto simp: time_result_def split: option.splits if_splits)

lemma json_wf_time [simp]: "json_wf (json_of_f64 P f)"
  by (simp add: json_of_f64_def)

lemma expected_time_wf: "expected_time T P fmt add_timestamp now v = Some (Inr (Some w)) \<Longrightarrow> json_wf w"
  by (induction T P fmt add_timestamp now v rule: expected_time.induct)
    (auto simp: map_option_case time_to_json.simps split: option.splits if_splits time_fmt.splits elim!: time_to_json.elims)

text \<open>The payload with the time: all the other fields are kept.\<close>

definition with_time_field :: "json option \<Rightarrow> jmap \<Rightarrow> jmap" where
  "with_time_field time payload =
     (let payload = bt_remove ''time'' payload in case time of Some t \<Rightarrow> bt_insert ''time'' t payload | None \<Rightarrow> payload)"

lemma with_time_field_get [simp]:
  "bt_get (with_time_field time payload) k = (if k = ''time'' then time else bt_get payload k)"
  by (simp add: with_time_field_def Let_def split: option.split)

lemma with_timestamp_eq:
  "with_timestamp E fmt add_timestamp now input =
     (case json_of_text (pe_json E) (payload_bytes input) \<bind> as_object of
        None \<Rightarrow> Some (Inl FromSerdeJson)
      | Some payload \<Rightarrow>
          res_bind (expected_time (pe_time E) (pe_float E) fmt add_timestamp now (bt_get payload ''time''))
            (\<lambda>time. Some (Inr (json_to_text (pe_json E) (JObject (with_time_field time payload))))))"
proof (cases "json_of_text (pe_json E) (payload_bytes input) \<bind> as_object")
  case (Some payload)
  show ?thesis
  proof (cases "bt_get payload ''time''")
    case None
    then show ?thesis by (simp add: with_timestamp_def Some with_time_field_def time_result_def Let_def)
  next
    case (Some v)
    then show ?thesis
      by (simp add: with_timestamp_def \<open>_ \<bind> as_object = _\<close> expected_time_reformat with_time_field_def time_result_def map_option_case Let_def
          split: option.split)
  qed
qed (simp add: with_timestamp_def)

definition json_reader :: "serde \<Rightarrow> bool" where
  "json_reader J \<longleftrightarrow> serde_rule J \<and> (\<forall>s v. json_of_text J s = Some v \<longrightarrow> json_wf v)"

text \<open>What is sent for an input: the text of an object with the fields of the input and the time.\<close>

definition retimed :: "'t payload_env \<Rightarrow> time_fmt \<Rightarrow> bool \<Rightarrow> 't \<Rightarrow> jmap \<Rightarrow> string \<Rightarrow> bool" where
  "retimed E fmt add_timestamp now payload p \<longleftrightarrow>
     (\<exists>time out. expected_time (pe_time E) (pe_float E) fmt add_timestamp now (bt_get payload ''time'') = Some (Inr time)
        \<and> out = with_time_field time payload \<and> (\<forall>k. bt_get out k = (if k = ''time'' then time else bt_get payload k))
        \<and> p = json_to_text (pe_json E) (JObject out) \<and> json_of_text (pe_json E) p = Some (JObject out))"

lemma with_time_field_wf:
  assumes "jmap_wf payload" "expected_time T P fmt add_timestamp now v = Some (Inr time)"
  shows "jmap_wf (with_time_field time payload)"
  using assms by (auto simp: with_time_field_def Let_def split: option.splits intro: expected_time_wf)

lemma with_time_field_read:
  assumes "json_reader J" "json_of_text J s = Some (JObject payload)" "expected_time T P fmt add_timestamp now v = Some (Inr time)"
  shows "json_of_text J (json_to_text J (JObject (with_time_field time payload))) = Some (JObject (with_time_field time payload))"
proof -
  have "jmap_wf payload" using assms(1,2) unfolding json_reader_def jmap_wf_def by blast
  then have "jmap_wf (with_time_field time payload)" using assms(3) by (rule with_time_field_wf)
  then show ?thesis using assms(1) by (intro serde_roundtrip) (simp_all add: json_reader_def jmap_wf_def)
qed

lemma json_text_bytes: "serde_rule J \<Longrightarrow> payload_bytes (message_new t (json_to_text J v)) = json_to_text J v"
  using serde_text [of J] by (intro payload_bytes_text) simp_all

lemma with_timestamp_payload:
  assumes "json_reader (pe_json E)" "with_timestamp E fmt add_timestamp now input = Some (Inr p)"
  shows "\<exists>payload. json_of_text (pe_json E) (payload_bytes input) = Some (JObject payload)
      \<and> retimed E fmt add_timestamp now payload p"
    and "payload_bytes (message_new t p) = p"
proof -
  have J: "serde_rule (pe_json E)" using assms(1) by (simp add: json_reader_def)
  obtain payload time where obj: "json_of_text (pe_json E) (payload_bytes input) \<bind> as_object = Some payload"
    and time: "expected_time (pe_time E) (pe_float E) fmt add_timestamp now (bt_get payload ''time'') = Some (Inr time)"
    and p: "p = json_to_text (pe_json E) (JObject (with_time_field time payload))"
    using assms(2) by (auto simp: with_timestamp_eq res_bind_Inr_iff split: option.splits)
  have read: "json_of_text (pe_json E) (payload_bytes input) = Some (JObject payload)"
    using obj by (auto simp: bind_eq_Some_conv elim: as_object.elims)
  have "retimed E fmt add_timestamp now payload p"
    unfolding retimed_def p using time with_time_field_read [OF assms(1) read time]
    by (intro exI [of _ time] exI [of _ "with_time_field time payload"]) simp
  with read show "\<exists>payload. json_of_text (pe_json E) (payload_bytes input) = Some (JObject payload)
      \<and> retimed E fmt add_timestamp now payload p" by blast
  show "payload_bytes (message_new t p) = p" unfolding p by (rule json_text_bytes [OF J])
qed

lemma size_validate_eq: "size_validate n m =
    (if length (payload_bytes m) \<le> n then Some (Inr ())
     else Some (Inl (MappingSizeExceeded (topic_name (mm_topic m)) (length (payload_bytes m)) n)))"
  by (simp add: size_validate_def Let_def)

lemma validate_all_Inr: "validate_all n ms = Some (Inr u) \<Longrightarrow> m \<in> set ms \<Longrightarrow> length (payload_bytes m) \<le> n"
  by (induction ms) (auto simp: size_validate_eq split: if_splits)

subsection \<open>The contract of a mapper\<close>

text \<open>
  What a mapper of telemetry promises: a message it publishes is the input with a time, within the limit of the cloud.
\<close>

locale telemetry_mapper =
  fixes E :: "'t payload_env" and fmt :: time_fmt and add_timestamp :: bool and now :: 't and limit :: nat
    and convert :: "mqtt_message \<Rightarrow> (mapping_error, mqtt_message list) res"
  assumes at_most_one: "convert input = Some (Inr ms) \<Longrightarrow> length ms \<le> 1"
    and with_time: "convert input = Some (Inr ms) \<Longrightarrow> m \<in> set ms \<Longrightarrow>
      \<exists>t p. with_timestamp E fmt add_timestamp now input = Some (Inr p) \<and> m = message_new t p"
    and within: "convert input = Some (Inr ms) \<Longrightarrow> m \<in> set ms \<Longrightarrow> length (payload_bytes m) \<le> limit"
begin

lemma published:
  assumes "json_reader (pe_json E)" "convert input = Some (Inr ms)" "m \<in> set ms"
  shows "ms = [m] \<and> length (payload_bytes m) \<le> limit
    \<and> (\<exists>payload. json_of_text (pe_json E) (payload_bytes input) = Some (JObject payload)
        \<and> retimed E fmt add_timestamp now payload (payload_bytes m))"
proof -
  obtain t p where p: "with_timestamp E fmt add_timestamp now input = Some (Inr p)" "m = message_new t p"
    using with_time [OF assms(2,3)] by blast
  have "ms = [m]" using at_most_one [OF assms(2)] assms(3) by (cases ms) auto
  then show ?thesis
    using with_timestamp_payload [OF assms(1) p(1)] within [OF assms(2,3)] p(2) by simp
qed

end

text \<open>The messages for an input: none, or the input with a time.\<close>

definition time_added :: "'t payload_env \<Rightarrow> time_fmt \<Rightarrow> bool \<Rightarrow> 't \<Rightarrow> mqtt_message \<Rightarrow> mqtt_message list \<Rightarrow> bool" where
  "time_added E fmt add_timestamp now input ms \<longleftrightarrow>
     ms = [] \<or> (\<exists>t p. ms = [message_new t p] \<and> with_timestamp E fmt add_timestamp now input = Some (Inr p))"

lemma time_added_Nil [simp]: "time_added E fmt add_timestamp now input []"
  by (simp add: time_added_def)

lemma aws_telemetry_message_Inr:
  assumes "aws_telemetry_message E C now input source type_name = Some (Inr ms)"
  shows "time_added E (aws_time_format C) (aws_add_timestamp C) now input ms"
  using assms unfolding aws_telemetry_message_def Let_def res_bind_Inr_iff
  by (elim exE conjE) (rename_tac p, case_tac "case split_on slash (topic_name (mm_topic input)) of
      [_, _, _, _, _, k, _] \<Rightarrow> if k \<in> {''m'', ''e'', ''a''} then Some k else None | _ \<Rightarrow> None",
    auto simp: res_bind_Inr_iff time_added_def)

lemma aws_health_message_Inr:
  assumes "aws_health_message E C now source input = Some (Inr ms)"
  shows "time_added E (aws_time_format C) (aws_add_timestamp C) now input ms"
  using assms unfolding aws_health_message_def res_bind_Inr_iff
  by (elim exE conjE)
    (rename_tac p, case_tac "topic_new (pe_mqtt E) (aws_prefix C @ ''/td/'' @ normalize_name source @ ''/status/health'')",
      auto simp: time_added_def)

lemma aws_convert_te_Inr:
  assumes "aws_convert_te E C now source c input = Some (Inr ms)"
  shows "time_added E (aws_time_format C) (aws_add_timestamp C) now input ms"
proof (cases "source = ''device/main/service/mosquitto-aws-bridge''")
  case True
  with assms show ?thesis by (simp add: aws_convert_te_def time_added_def)
next
  case False
  with assms show ?thesis unfolding aws_convert_te_def
    by (cases c) (simp_all del: list.inject, (blast intro: aws_telemetry_message_Inr aws_health_message_Inr)+)
qed

lemma az_convert_te_Inr:
  assumes "az_convert_te E C now source c input = Some (Inr ms)"
  shows "time_added E (az_time_format C) (az_add_timestamp C) now input ms"
  using assms unfolding az_convert_te_def az_with_timestamp_def time_added_def
  by (auto simp: res_bind_Inr_iff split: if_splits)

interpretation aws: telemetry_mapper E "aws_time_format C" "aws_add_timestamp C" now "aws_size_threshold C"
  "aws_try_convert E C now"
  for E :: "'t payload_env" and C now
proof unfold_locales
  fix input ms m
  assume "aws_try_convert E C now input = Some (Inr ms)"
  then have v: "\<exists>u. validate_all (aws_size_threshold C) ms = Some (Inr u)"
    and "time_added E (aws_time_format C) (aws_add_timestamp C) now input ms"
    by (auto simp: aws_try_convert_def res_bind_Inr_iff split: sum.splits dest: aws_convert_te_Inr)
  then show "length ms \<le> 1"
    "m \<in> set ms \<Longrightarrow> \<exists>t p. with_timestamp E (aws_time_format C) (aws_add_timestamp C) now input = Some (Inr p)
      \<and> m = message_new t p" by (auto simp: time_added_def)
  show "m \<in> set ms \<Longrightarrow> length (payload_bytes m) \<le> aws_size_threshold C" using v validate_all_Inr by blast
qed

interpretation az: telemetry_mapper E "az_time_format C" "az_add_timestamp C" now "az_size_threshold C"
  "az_try_convert E C now"
  for E :: "'t payload_env" and C now
proof unfold_locales
  fix input ms m
  assume "az_try_convert E C now input = Some (Inr ms)"
  then have v: "\<exists>u. validate_all (az_size_threshold C) ms = Some (Inr u)"
    and "time_added E (az_time_format C) (az_add_timestamp C) now input ms"
    by (auto simp: az_try_convert_def res_bind_Inr_iff split: sum.splits dest: az_convert_te_Inr)
  then show "length ms \<le> 1"
    "m \<in> set ms \<Longrightarrow> \<exists>t p. with_timestamp E (az_time_format C) (az_add_timestamp C) now input = Some (Inr p)
      \<and> m = message_new t p" by (auto simp: time_added_def)
  show "m \<in> set ms \<Longrightarrow> length (payload_bytes m) \<le> az_size_threshold C" using v validate_all_Inr by blast
qed

section \<open>Properties\<close>

lemma join_with_char: "x \<in> set (join_with c ps) \<Longrightarrow> x = c \<or> (\<exists>p \<in> set ps. x \<in> set p)"
  by (induction c ps rule: join_with.induct) auto

lemma normalize_name_no_slash [simp]: "slash \<notin> set (normalize_name e)"
proof
  assume "slash \<in> set (normalize_name e)"
  then obtain p where "p \<in> set (split_on slash e)" "slash \<in> set p"
    unfolding normalize_name_def using join_with_char by fastforce
  then show False using split_on_parts by blast
qed

lemma telemetry_topic_split:
  assumes "wf_root r" "wf_entity_id e" "slash \<notin> set k" "slash \<notin> set ty"
  shows "\<exists>a b c d. split_on slash (r @ ''/'' @ e @ ''/'' @ k @ ''/'' @ ty) = [r, a, b, c, d, k, ty]"
proof -
  obtain a b c d where "e = a @ ''/'' @ b @ ''/'' @ c @ ''/'' @ d"
    "slash \<notin> set a" "slash \<notin> set b" "slash \<notin> set c" "slash \<notin> set d" by (rule wf_entity_id_split [OF assms(2)])
  with assms show ?thesis by (simp add: wf_root_def)
qed

text \<open>
  C23. A measurement, an event or an alarm of an entity other than the service \<^verbatim>\<open>mosquitto-aws-bridge\<close> of the main device is published to AWS
  as one message, on a topic with four separators more than the prefix has, whatever the name of the entity, because the cloud bounds their number.  The payload is
  the input, with all its fields and values, and its time given by \<^term>\<open>expected_time\<close>: a time that already has the type of
  the configured format is the same, unchecked for a text; one of the other type is the same time in the format; without one the clock is read if so configured.  A payload over the
  limit of the cloud, one that is not an object and a time that is not accepted are errors; a number that overflows as a time is a panic.
\<close>

theorem aws_telemetry_published:
  assumes "topic_rule (pe_mqtt E)" "json_reader (pe_json E)" "wf_root (root (aws_schema C))" "wf_entity_id e"
    and "e \<noteq> ''device/main/service/mosquitto-aws-bridge''" "slash \<notin> set ty"
    and "(k, c) \<in> {(''m'', Measurement ty), (''e'', Event ty), (''a'', Alarm ty)}"
    and "topic_name (mm_topic input) = topic_text (aws_schema C) e c"
    and "t = aws_prefix C @ ''/td/'' @ normalize_name e @ ''/'' @ k @ ''/'' @ ty"
  shows "count_list t slash = count_list (aws_prefix C) slash + 4
    \<and> (case json_of_text (pe_json E) (payload_bytes input) of
         Some (JObject payload) \<Rightarrow>
           (case expected_time (pe_time E) (pe_float E) (aws_time_format C) (aws_add_timestamp C) now (bt_get payload ''time'') of
              None \<Rightarrow> aws_try_convert E C now input = None
            | Some (Inl err) \<Rightarrow> err = FromSerdeJson \<and> aws_try_convert E C now input = Some (Inl FromSerdeJson)
            | Some (Inr time) \<Rightarrow>
                \<exists>p. retimed E (aws_time_format C) (aws_add_timestamp C) now payload p
                  \<and> (if aws_size_threshold C < length p
                     then aws_try_convert E C now input = Some (Inl (MappingSizeExceeded t (length p) (aws_size_threshold C)))
                     else \<exists>m. aws_try_convert E C now input = Some (Inr [m]) \<and> topic_name (mm_topic m) = t
                       \<and> payload_bytes m = p))
       | _ \<Rightarrow> aws_try_convert E C now input = Some (Inl FromSerdeJson))"
proof -
  let ?S = "aws_schema C" and ?w = "with_timestamp E (aws_time_format C) (aws_add_timestamp C) now input"
  let ?time = "\<lambda>payload. expected_time (pe_time E) (pe_float E) (aws_time_format C) (aws_add_timestamp C) now (bt_get payload ''time'')"
  have k: "slash \<notin> set k" "k \<in> {''m'', ''e'', ''a''}" using assms(7) by auto
  have "entity_channel_of (pe_mqtt E) ?S (topic_name (mm_topic input)) = Inr (e, c)"
    using assms by (auto simp: entity_channel_of_topic_text wf_root_def)
  then have "aws_try_convert E C now input = res_bind (aws_telemetry_message E C now input e ty)
      (\<lambda>ms. res_bind (validate_all (aws_size_threshold C) ms) (\<lambda>_. Some (Inr ms)))"
    using assms(5,7) by (auto simp: aws_try_convert_def aws_convert_te_def)
  moreover have "topic_name (mm_topic input) = root ?S @ ''/'' @ e @ ''/'' @ k @ ''/'' @ ty"
    using assms(7,8) by (auto simp: topic_text_def)
  ultimately have conv: "aws_try_convert E C now input = res_bind ?w (\<lambda>p.
      res_bind (size_validate (aws_size_threshold C) (message_new (topic_new_unchecked t) p)) (\<lambda>_.
        Some (Inr [message_new (topic_new_unchecked t) p])))"
    using telemetry_topic_split [OF assms(3,4) k(1) assms(6)] k(2)
    by (cases ?w; cases "the ?w") (auto simp: aws_telemetry_message_def size_validate_eq assms(9))
  have slashes: "count_list t slash = count_list (aws_prefix C) slash + 4"
    using k(1) assms(6) by (simp add: count_notin assms(9))
  show ?thesis
  proof (cases "\<exists>payload. json_of_text (pe_json E) (payload_bytes input) = Some (JObject payload)")
    case True
    then obtain payload where read: "json_of_text (pe_json E) (payload_bytes input) = Some (JObject payload)" by blast
    then have w: "?w = res_bind (?time payload)
        (\<lambda>time. Some (Inr (json_to_text (pe_json E) (JObject (with_time_field time payload)))))"
      by (simp add: with_timestamp_eq)
    show ?thesis
    proof (cases "\<exists>time. ?time payload = Some (Inr time)")
      case True
      then obtain time where time: "?time payload = Some (Inr time)" by blast
      with w obtain p where p: "?w = Some (Inr p)" by simp
      have "payload_bytes (message_new (topic_new_unchecked t) p) = p" by (rule with_timestamp_payload(2) [OF assms(2) p])
      moreover have "retimed E (aws_time_format C) (aws_add_timestamp C) now payload p"
        using with_timestamp_payload(1) [OF assms(2) p] read by simp
      ultimately have "retimed E (aws_time_format C) (aws_add_timestamp C) now payload p
          \<and> (if aws_size_threshold C < length p
             then aws_try_convert E C now input = Some (Inl (MappingSizeExceeded t (length p) (aws_size_threshold C)))
             else \<exists>m. aws_try_convert E C now input = Some (Inr [m]) \<and> topic_name (mm_topic m) = t \<and> payload_bytes m = p)"
        by (auto simp: conv p size_validate_eq topic_new_unchecked_def)
      then have "\<exists>p. retimed E (aws_time_format C) (aws_add_timestamp C) now payload p
          \<and> (if aws_size_threshold C < length p
             then aws_try_convert E C now input = Some (Inl (MappingSizeExceeded t (length p) (aws_size_threshold C)))
             else \<exists>m. aws_try_convert E C now input = Some (Inr [m]) \<and> topic_name (mm_topic m) = t \<and> payload_bytes m = p)" ..
      with slashes show ?thesis by (simp add: read time)
    next
      case False
      then show ?thesis using slashes expected_time_error
        by (cases "?time payload") (auto simp: read conv w split: sum.split)
    qed
  next
    case False
    then have "?w = Some (Inl FromSerdeJson)"
      by (auto simp: with_timestamp_eq bind_eq_Some_conv split: option.split elim: as_object.elims)
    with False slashes show ?thesis by (auto simp: conv split: option.split json.split)
  qed
qed

text \<open>A measurement of a child device, with a time in RFC 3339, sent as a number of seconds.\<close>

definition text_env :: "string payload_env" where
  "text_env = \<lparr>pe_mqtt = wildcard_free_mqtt, pe_json = code_serde,
     pe_time = \<lparr>time_of_str = Some, time_of_unix = (\<lambda>_. None), time_of_nanos = (\<lambda>_. None), time_to_nanos = (\<lambda>_. 0),
       time_format = Some\<rparr>, pe_float = (\<lambda>_. [])\<rparr>"

definition epoch_env :: "int payload_env" where
  "epoch_env = \<lparr>pe_mqtt = wildcard_free_mqtt, pe_json = code_serde,
     pe_time = \<lparr>time_of_str = (\<lambda>s. if s = ''1970-01-01T00:00:03Z'' then Some 3 else None), time_of_unix = Some,
       time_of_nanos = (\<lambda>i. Some (i div 1000000000)), time_to_nanos = (\<lambda>t. t * 1000000000),
       time_format = (\<lambda>t. if t = 3 then Some ''1970-01-01T00:00:03Z'' else None)\<rparr>,
     pe_float = (\<lambda>f. if f = f64_of_int 3 then ''3.0'' else ''0.0'')\<rparr>"

definition child_payload :: "json \<Rightarrow> jmap" where
  "child_payload time = [(''a'', JNull), (''time'', time)]"

definition child_measurement :: mqtt_message where
  "child_measurement = message_new (topic_new_unchecked ''te/device/c1///m/t'')
     (json_to_text code_serde (JObject (child_payload (JString ''1970-01-01T00:00:03Z''))))"

definition aws_example :: aws_converter where
  "aws_example = aws_converter_new True schema_new Unix ''aws'' 1000"

lemma json_reader_code [simp]: "json_reader code_serde"
  using code_serde_wf by (auto simp: json_reader_def)

lemma epoch_env_fields [simp]: "pe_mqtt epoch_env = wildcard_free_mqtt" "pe_json epoch_env = code_serde"
  by (simp_all add: epoch_env_def)

lemma aws_example_fields [simp]: "aws_schema aws_example = schema_new" "aws_time_format aws_example = Unix"
  "aws_size_threshold aws_example = 1000" "aws_prefix aws_example = ''aws''" "aws_add_timestamp aws_example = True"
  by (simp_all add: aws_example_def aws_converter_new_def)

lemma child_payload_read:
  "json_wf v \<Longrightarrow> json_of_text code_serde (json_to_text code_serde (JObject (child_payload v))) = Some (JObject (child_payload v))"
  by (intro serde_roundtrip code_serde_rule) (simp add: child_payload_def list_less_def)

lemma child_measurement_read:
  "json_of_text code_serde (payload_bytes child_measurement) = Some (JObject (child_payload (JString ''1970-01-01T00:00:03Z'')))"
  by (simp add: child_measurement_def json_text_bytes code_serde_rule child_payload_read)

lemma child_measurement_time:
  "expected_time (pe_time epoch_env) (pe_float epoch_env) Unix True 0
     (bt_get (child_payload (JString ''1970-01-01T00:00:03Z'')) ''time'') = Some (Inr (Some (JNumber (Float ''3.0''))))"
proof -
  have "f64_scale (f64_of_int 3000000000) 1 1000000000 = f64_of_int 3"
    by (simp add: f64_of_int_def f64_eval)
  moreover have "f64_is_finite (f64_of_int 3)" by (simp add: f64_of_int_def f64_eval)
  ultimately show ?thesis by (simp add: child_payload_def epoch_env_def json_of_f64_def time_result_def)
qed

theorem aws_telemetry_published_witness:
  "\<exists>m. aws_try_convert epoch_env aws_example 0 child_measurement = Some (Inr [m])
     \<and> topic_name (mm_topic m) = ''aws/td/device:c1/m/t''
     \<and> json_of_text code_serde (payload_bytes m) = Some (JObject (child_payload (JNumber (Float ''3.0''))))"
proof -
  let ?p = "json_to_text code_serde (JObject (child_payload (JNumber (Float ''3.0''))))"
  have sent: "retimed epoch_env Unix True 0 (child_payload (JString ''1970-01-01T00:00:03Z'')) p \<longleftrightarrow> p = ?p" for p
    using child_payload_read [of "JNumber (Float ''3.0'')"]
    by (auto simp: retimed_def child_measurement_time) (auto simp: with_time_field_def child_payload_def bt_remove_def)
  have "length ?p \<le> 1000" by code_simp
  moreover have "topic_name (mm_topic child_measurement) = topic_text schema_new ''device/c1//'' (Measurement ''t'')"
    by (simp add: child_measurement_def topic_new_unchecked_def topic_text_def schema_new_def with_root_def)
  moreover have "wf_root (root schema_new)" "wf_entity_id ''device/c1//''" "normalize_name ''device/c1//'' = ''device:c1''"
    by (simp_all add: wf_root_def wf_entity_id_def schema_new_def with_root_def normalize_name_def)
  ultimately show ?thesis
    using aws_telemetry_published [of epoch_env aws_example "''device/c1//''" "''t''" "''m''" "Measurement ''t''" child_measurement
        "''aws/td/device:c1/m/t''" 0]
    by (auto simp: child_measurement_read child_measurement_time child_payload_read sent)
qed

text \<open>
  The mapper of Azure ignores the topic root it is given: it keeps the default schema, so under any other root each message
  of each entity is converted to nothing.
\<close>

lemma azure_ignores_topic_root:
  assumes "wf_root (root S)" "root S \<noteq> root schema_new"
    and "topic_name (mm_topic input) = topic_text S e c"
  shows "az_try_convert E (az_converter_new add_timestamp S fmt topic_prefix limit) now input = Some (Inr [])"
  using assms by (auto simp: az_try_convert_def az_converter_new_def entity_channel_of_def topic_text_def wf_root_def)

lemma azure_ignores_topic_root_instance:
  "az_try_convert text_env (az_converter_new False (with_root ''site'') Unix ''az'' 1000) []
    (message_new (topic_new_unchecked ''site/device/main///m/t'') ''{}'') = Some (Inr [])"
  by (rule azure_ignores_topic_root [where S = "with_root ''site''" and e = "''device/main//''" and c = "Measurement ''t''"])
    (simp_all add: wf_root_def with_root_def schema_new_def topic_text_def topic_new_unchecked_def)

end
