(* ===== verification/Bridge_Rules.thy ===== *)
theory Bridge_Rules
  imports Smartrest
begin

text \<open>
  The rules of the MQTT bridge (\<^verbatim>\<open>tedge_mqtt_bridge/src/config.rs\<close>, \<^verbatim>\<open>topics.rs\<close>): which topics are forwarded between the
  local broker and the cloud, and under which names, with the rules of the three mappers (\<^verbatim>\<open>tedge_mapper/src\<close>).  The
  matching of filters is the \<^verbatim>\<open>rumqttc\<close> package.
\<close>

section \<open>Rules\<close>

text \<open>Slices of the first character panic on an empty text, and on a first character of several bytes.\<close>

definition matches_ignore_dollar_prefix :: "rumqttc \<Rightarrow> string \<Rightarrow> string \<Rightarrow> bool panics" where
  "matches_ignore_dollar_prefix L t f = do {
     t_first \<leftarrow> str_slice 0 1 t;
     f_first \<leftarrow> str_slice 0 1 f;
     if t_first = ''$'' \<and> f_first = ''$''
     then do { t_rest \<leftarrow> str_slice 1 (length t) t; f_rest \<leftarrow> str_slice 1 (length f) f; Some (matches L t_rest f_rest) }
     else Some (matches L t f) }"

record bridge_rule =
  br_topic_filter :: string
  br_prefix_to_remove :: string
  br_prefix_to_add :: string

datatype invalid_bridge_rule =
    MissingTrailingSlash string
  | EmptyRule bridge_rule
  | InvalidTopicPrefix string
  | InvalidTopicFilter string

definition validate_topic :: "rumqttc \<Rightarrow> string \<Rightarrow> invalid_bridge_rule + unit" where
  "validate_topic L t = (if valid_topic L t then Inr () else Inl (InvalidTopicPrefix t))"

definition validate_filter :: "rumqttc \<Rightarrow> string \<Rightarrow> invalid_bridge_rule + unit" where
  "validate_filter L t = (if valid_filter L t then Inr () else Inl (InvalidTopicFilter t))"

definition ends_with_slash :: "string \<Rightarrow> bool" where
  "ends_with_slash s \<longleftrightarrow> s \<noteq> [] \<and> last s = slash"

definition bridge_rule_try_new ::
  "rumqttc \<Rightarrow> string \<Rightarrow> string \<Rightarrow> string \<Rightarrow> invalid_bridge_rule + bridge_rule" where
  "bridge_rule_try_new L base_topic_filter prefix_to_remove prefix_to_add =
     (let r = \<lparr>br_topic_filter = prefix_to_remove @ base_topic_filter, br_prefix_to_remove = prefix_to_remove,
               br_prefix_to_add = prefix_to_add\<rparr> in
      case validate_topic L prefix_to_add of
        Inl err \<Rightarrow> Inl err
      | Inr _ \<Rightarrow> (case validate_topic L prefix_to_remove of
          Inl err \<Rightarrow> Inl err
        | Inr _ \<Rightarrow>
            if base_topic_filter = [] then
              (if prefix_to_add = [] \<or> prefix_to_remove = [] then Inl (EmptyRule (r\<lparr>br_topic_filter := base_topic_filter\<rparr>))
               else Inr r)
            else if \<not> (ends_with_slash prefix_to_remove \<or> prefix_to_remove = [])
            then Inl (MissingTrailingSlash prefix_to_remove)
            else if \<not> (ends_with_slash prefix_to_add \<or> prefix_to_add = [])
            then Inl (MissingTrailingSlash prefix_to_add)
            else (case validate_filter L base_topic_filter of Inl err \<Rightarrow> Inl err | Inr _ \<Rightarrow> Inr r)))"

definition bridge_rule_apply :: "rumqttc \<Rightarrow> bridge_rule \<Rightarrow> string \<Rightarrow> string option panics" where
  "bridge_rule_apply L r t = do {
     matched \<leftarrow> matches_ignore_dollar_prefix L t (br_topic_filter r);
     if matched then map_option (\<lambda>rest. Some (br_prefix_to_add r @ rest)) (strip_prefix (br_prefix_to_remove r) t)
     else Some None }"

fun convert_topic :: "rumqttc \<Rightarrow> bridge_rule list \<Rightarrow> string \<Rightarrow> string option panics" where
  "convert_topic L [] t = Some None"
| "convert_topic L (r # rs) t =
     (case bridge_rule_apply L r t of
        None \<Rightarrow> None
      | Some (Some t') \<Rightarrow> Some (Some t')
      | Some None \<Rightarrow> convert_topic L rs t)"

section \<open>Configurations\<close>

record bridge_config =
  local_to_remote :: "bridge_rule list"
  remote_to_local :: "bridge_rule list"
  bidirectional_topics :: "(string \<times> string) list"

definition bridge_config_new :: bridge_config where
  "bridge_config_new = \<lparr>local_to_remote = [], remote_to_local = [], bidirectional_topics = []\<rparr>"

definition forward_from_local ::
  "rumqttc \<Rightarrow> string \<Rightarrow> string \<Rightarrow> string \<Rightarrow> bridge_config \<Rightarrow> (invalid_bridge_rule + unit) \<times> bridge_config" where
  "forward_from_local L base local_prefix remote_prefix c =
     (case bridge_rule_try_new L base local_prefix remote_prefix of
        Inl err \<Rightarrow> (Inl err, c)
      | Inr r \<Rightarrow> (Inr (), c\<lparr>local_to_remote := local_to_remote c @ [r]\<rparr>))"

definition forward_from_remote ::
  "rumqttc \<Rightarrow> string \<Rightarrow> string \<Rightarrow> string \<Rightarrow> bridge_config \<Rightarrow> (invalid_bridge_rule + unit) \<times> bridge_config" where
  "forward_from_remote L base local_prefix remote_prefix c =
     (case bridge_rule_try_new L base remote_prefix local_prefix of
        Inl err \<Rightarrow> (Inl err, c)
      | Inr r \<Rightarrow> (Inr (), c\<lparr>remote_to_local := remote_to_local c @ [r]\<rparr>))"

definition forward_bidirectionally ::
  "rumqttc \<Rightarrow> string \<Rightarrow> string \<Rightarrow> string \<Rightarrow> bridge_config \<Rightarrow> (invalid_bridge_rule + unit) \<times> bridge_config" where
  "forward_bidirectionally L base local_prefix remote_prefix c =
     (let c = c\<lparr>bidirectional_topics := bidirectional_topics c @ [(local_prefix @ base, remote_prefix @ base)]\<rparr> in
      case forward_from_local L base local_prefix remote_prefix c of
        (Inl err, c) \<Rightarrow> (Inl err, c)
      | (Inr _, c) \<Rightarrow> forward_from_remote L base local_prefix remote_prefix c)"

definition local_subscriptions :: "bridge_config \<Rightarrow> string list" where
  "local_subscriptions c = map br_topic_filter (local_to_remote c)"

definition remote_subscriptions :: "bridge_config \<Rightarrow> string list" where
  "remote_subscriptions c = map br_topic_filter (remote_to_local c)"

definition converters_and_bidirectional_topic_filters ::
  "bridge_config \<Rightarrow> (bridge_rule list \<times> string list) \<times> (bridge_rule list \<times> string list)" where
  "converters_and_bidirectional_topic_filters c =
     ((local_to_remote c, map fst (bidirectional_topics c)), (remote_to_local c, map snd (bidirectional_topics c)))"

section \<open>The rules of the mappers\<close>

text \<open>A sequence of calls, up to the first error.\<close>

fun add_rules ::
  "(bridge_config \<Rightarrow> (invalid_bridge_rule + unit) \<times> bridge_config) list \<Rightarrow> bridge_config \<Rightarrow> invalid_bridge_rule + bridge_config" where
  "add_rules [] c = Inr c"
| "add_rules (f # fs) c = (case f c of (Inl err, _) \<Rightarrow> Inl err | (Inr _, c') \<Rightarrow> add_rules fs c')"

definition aws_bridge_rules :: "rumqttc \<Rightarrow> string \<Rightarrow> string \<Rightarrow> invalid_bridge_rule + bridge_config" where
  "aws_bridge_rules L remote_client_id topic_prefix =
     (let local_prefix = topic_prefix @ ''/'';
          device_id_prefix = ''thinedge/'' @ remote_client_id @ ''/'';
          things_prefix = ''$aws/things/'' @ remote_client_id @ ''/'';
          conn_check = ''thinedge/devices/'' @ remote_client_id @ ''/test-connection''
      in add_rules
           [forward_from_local L ''td/#'' local_prefix device_id_prefix,
            forward_from_remote L ''cmd/#'' local_prefix device_id_prefix,
            forward_bidirectionally L ''shadow/#'' local_prefix things_prefix,
            forward_from_local L [] (local_prefix @ ''test-connection'') conn_check,
            forward_from_remote L [] (local_prefix @ ''connection-success'') conn_check]
           bridge_config_new)"

definition az_bridge_rules :: "rumqttc \<Rightarrow> string \<Rightarrow> string \<Rightarrow> invalid_bridge_rule + bridge_config" where
  "az_bridge_rules L remote_clientid topic_prefix =
     (let local_prefix = topic_prefix @ ''/'';
          iothub_prefix = ''$iothub/'';
          device_id_prefix = ''devices/'' @ remote_clientid @ ''/''
      in add_rules
           [forward_from_local L ''messages/events/#'' local_prefix device_id_prefix,
            forward_from_remote L ''messages/devicebound/#'' local_prefix device_id_prefix,
            forward_from_local L ''methods/res/#'' local_prefix iothub_prefix,
            forward_from_remote L ''methods/POST/#'' local_prefix iothub_prefix,
            forward_from_local L ''twin/GET/#'' local_prefix iothub_prefix,
            forward_from_local L ''twin/PATCH/#'' local_prefix iothub_prefix,
            forward_from_remote L ''twin/res/#'' local_prefix iothub_prefix]
           bridge_config_new)"

definition c8y_bridge_rules ::
  "rumqttc \<Rightarrow> string list \<Rightarrow> string list \<Rightarrow> bool \<Rightarrow> string \<Rightarrow> invalid_bridge_rule + bridge_config" where
  "c8y_bridge_rules L smartrest1_templates smartrest_templates use_certificate topic_prefix =
     (let smartrest_1_topics = map (\<lambda>i. ''s/dl/'' @ i) smartrest1_templates;
          smartrest_2_topics = map (\<lambda>i. ''s/dc/'' @ i) smartrest_templates;
          cloud_topics = map fst (filter snd
            [(''s/dt'', True), (''s/ds'', True), (''s/dat'', use_certificate), (''s/e'', True),
             (''devicecontrol/notifications'', True), (''error'', True)]) @ smartrest_1_topics @ smartrest_2_topics;
          local_prefix = topic_prefix @ ''/'';
          from_local = (\<lambda>base. forward_from_local L base local_prefix [])
      in add_rules
           (map (\<lambda>base. forward_from_remote L base local_prefix []) cloud_topics
            @ map from_local ([''s/ut/#'', ''s/us/#'', ''t/us/#'', ''q/us/#'', ''c/us/#'']
                @ (if use_certificate then [] else [''s/ul/#'', ''t/ul/#'', ''q/ul/#'', ''c/ul/#''])
                @ [''s/uc/#'', ''t/uc/#'', ''q/uc/#'', ''c/uc/#'',
                   ''inventory/managedObjects/update/#'', ''measurement/measurements/create/#'',
                   ''measurement/measurements/createBulk/#'', ''event/events/create/#'', ''event/events/createBulk/#'',
                   ''alarm/alarms/create/#'', ''alarm/alarms/createBulk/#'']
                @ (if use_certificate then [''s/uat''] else [])))
           bridge_config_new)"

section \<open>Which topics a rule forwards\<close>

text \<open>
  The documented rule of \<^verbatim>\<open>matches\<close>: a filter matches level by level, \<open>+\<close> stands for one level and \<open>#\<close> for all the levels
  that are left, if any; a topic that starts with a dollar sign matches nothing.
\<close>

fun levels_match :: "string list \<Rightarrow> string list \<Rightarrow> bool" where
  "levels_match ts [] = (ts = [])"
| "levels_match ts (f # fs) =
     (f = ''#'' \<or> (case ts of [] \<Rightarrow> False | t # ts' \<Rightarrow> (f = ''+'' \<or> f = t) \<and> levels_match ts' fs))"

definition level_rule :: "rumqttc \<Rightarrow> bool" where
  "level_rule L \<longleftrightarrow> (\<forall>t f. no_wildcard t \<longrightarrow>
     (matches L t f \<longleftrightarrow> (t = [] \<or> hd t \<noteq> CHR ''$'') \<and> levels_match (split_on slash t) (split_on slash f)))"

definition level_mqtt :: rumqttc where
  "level_mqtt = \<lparr>valid_topic = no_wildcard, valid_filter = (\<lambda>f. f \<noteq> []),
     matches = (\<lambda>t f. (t = [] \<or> hd t \<noteq> CHR ''$'') \<and> levels_match (split_on slash t) (split_on slash f))\<rparr>"

lemma level_mqtt_rules [simp]: "level_rule level_mqtt" "topic_rule level_mqtt"
  by (simp_all add: level_rule_def level_mqtt_def topic_rule_def)

definition topic_matches :: "string \<Rightarrow> string \<Rightarrow> bool" where
  "topic_matches t f = levels_match (split_on slash t) (split_on slash f)"

lemma level_ruleD:
  "level_rule L \<Longrightarrow> no_wildcard t \<Longrightarrow> matches L t f \<longleftrightarrow> (t = [] \<or> hd t \<noteq> CHR ''$'') \<and> topic_matches t f"
  by (simp add: level_rule_def topic_matches_def)

definition level :: "string \<Rightarrow> bool" where
  "level s \<longleftrightarrow> slash \<notin> set s \<and> no_wildcard s"

definition levels_text :: "string list \<Rightarrow> string" where
  "levels_text ps = concat (map (\<lambda>s. s @ [slash]) ps)"

lemma levels_text_simps [simp]: "levels_text [] = []" "levels_text (s # ps) = s @ slash # levels_text ps"
  by (simp_all add: levels_text_def)

lemma levels_match_prefix:
  "\<forall>s \<in> set ps. level s \<Longrightarrow> levels_match ts (ps @ fs) \<longleftrightarrow> (\<exists>us. ts = ps @ us \<and> levels_match us fs)"
proof (induction ps arbitrary: ts)
  case (Cons s ps)
  then have "s \<noteq> ''#''" "s \<noteq> ''+''" by (auto simp: level_def no_wildcard_def)
  with Cons show ?case by (cases ts) auto
qed simp

lemma levels_match_exact: "\<forall>s \<in> set fs. level s \<Longrightarrow> levels_match ts fs \<longleftrightarrow> ts = fs"
  using levels_match_prefix [of fs ts "[]"] by auto

lemma split_levels_text: "\<forall>s \<in> set ps. level s \<Longrightarrow> split_on slash (levels_text ps @ f) = ps @ split_on slash f"
  by (induction ps) (auto simp: level_def)

lemma levels_text_join: "ps \<noteq> [] \<Longrightarrow> levels_text ps = join_with slash ps @ [slash]"
  by (induction slash ps rule: join_with.induct) auto

lemma level_parts: "no_wildcard p \<Longrightarrow> s \<in> set (split_on slash p) \<Longrightarrow> level s"
  using split_on_parts [of s slash p] set_split_on_parts [of s slash p] by (auto simp: level_def no_wildcard_def)

lemma levels_text_exists:
  assumes "p = [] \<or> ends_with_slash p" "no_wildcard p"
  obtains ps where "p = levels_text ps" "\<forall>s \<in> set ps. level s"
proof (cases "p = []")
  case True
  then show thesis using that [of "[]"] by simp
next
  case False
  then have p: "p = butlast p @ [slash]" using assms(1) by (metis append_butlast_last_id ends_with_slash_def)
  then have "p = levels_text (split_on slash (butlast p))" by (simp add: levels_text_join)
  moreover have "no_wildcard (butlast p)" using assms(2) by (metis no_wildcard_append p)
  ultimately show thesis using that level_parts by blast
qed

lemma topic_matches_prefix:
  assumes "p = [] \<or> ends_with_slash p" "no_wildcard p"
  shows "topic_matches t (p @ f) \<longleftrightarrow> (\<exists>t'. t = p @ t' \<and> topic_matches t' f)
    \<or> (p \<noteq> [] \<and> t @ [slash] = p \<and> hd (split_on slash f) = ''#'')"
proof -
  obtain ps where p: "p = levels_text ps" and ps: "\<forall>s \<in> set ps. level s" by (rule levels_text_exists [OF assms])
  have "topic_matches t (p @ f) \<longleftrightarrow> (\<exists>us. split_on slash t = ps @ us \<and> levels_match us (split_on slash f))"
    by (simp add: topic_matches_def p split_levels_text [OF ps] levels_match_prefix [OF ps])
  also have "\<dots> \<longleftrightarrow> (\<exists>us. us \<noteq> [] \<and> split_on slash t = ps @ us \<and> levels_match us (split_on slash f))
      \<or> (split_on slash t = ps \<and> levels_match [] (split_on slash f))"
    by auto
  also have "(\<exists>us. us \<noteq> [] \<and> split_on slash t = ps @ us \<and> levels_match us (split_on slash f))
      \<longleftrightarrow> (\<exists>t'. t = p @ t' \<and> topic_matches t' f)"
  proof
    assume "\<exists>us. us \<noteq> [] \<and> split_on slash t = ps @ us \<and> levels_match us (split_on slash f)"
    then obtain us where us: "us \<noteq> []" "split_on slash t = ps @ us" "levels_match us (split_on slash f)" by blast
    then have "\<forall>u \<in> set us. slash \<notin> set u" using split_on_parts [of _ slash t] by auto
    with us(1) have "split_on slash (join_with slash us) = us" by (simp add: split_join)
    moreover from this have "split_on slash (p @ join_with slash us) = split_on slash t"
      by (simp add: p split_levels_text [OF ps] us(2))
    then have "t = p @ join_with slash us" by (metis join_split)
    ultimately show "\<exists>t'. t = p @ t' \<and> topic_matches t' f" using us(3) by (auto simp: topic_matches_def)
  qed (auto simp: p split_levels_text [OF ps] topic_matches_def)
  also have "(split_on slash t = ps \<and> levels_match [] (split_on slash f))
      \<longleftrightarrow> (p \<noteq> [] \<and> t @ [slash] = p \<and> hd (split_on slash f) = ''#'')"
  proof -
    have "split_on slash t = ps \<longleftrightarrow> t @ [slash] = p"
    proof
      assume "split_on slash t = ps"
      then show "t @ [slash] = p" unfolding p by (metis join_split levels_text_join split_on_not_Nil)
    next
      assume "t @ [slash] = p"
      moreover from this have "ps \<noteq> []" using p by auto
      ultimately have "t = join_with slash ps" unfolding p by (simp add: levels_text_join)
      with \<open>ps \<noteq> []\<close> ps show "split_on slash t = ps" by (simp add: split_join level_def)
    qed
    moreover have "levels_match [] (split_on slash f) \<longleftrightarrow> hd (split_on slash f) = ''#''"
      by (cases "split_on slash f") auto
    ultimately show ?thesis by auto
  qed
  finally show ?thesis .
qed

lemma topic_matches_exact: "no_wildcard p \<Longrightarrow> topic_matches t p \<longleftrightarrow> t = p"
  using levels_match_exact [of "split_on slash p" "split_on slash t"] level_parts [of p]
  by (metis join_split topic_matches_def)

subsection \<open>Topics with a dollar sign\<close>

definition one_byte_start :: "string \<Rightarrow> bool" where
  "one_byte_start s \<longleftrightarrow> s \<noteq> [] \<and> (length s = 1 \<or> \<not> continuation (s ! 1))"

lemma str_slice_first: "str_slice 0 1 s = (if one_byte_start s then Some [hd s] else None)"
  by (cases s) (auto simp: str_slice_def is_char_boundary_def one_byte_start_def)

lemma str_slice_rest: "one_byte_start s \<Longrightarrow> str_slice 1 (length s) s = Some (tl s)"
  by (cases s) (auto simp: str_slice_def is_char_boundary_def one_byte_start_def)

lemma matches_ignore_dollar_prefix_eq:
  "one_byte_start t \<Longrightarrow> one_byte_start f \<Longrightarrow> matches_ignore_dollar_prefix L t f =
     Some (if hd t = CHR ''$'' \<and> hd f = CHR ''$'' then matches L (tl t) (tl f) else matches L t f)"
  unfolding matches_ignore_dollar_prefix_def by (simp add: str_slice_first str_slice_rest del: One_nat_def)

text \<open>A topic of a message, for a rule with this prefix: without the prefix, topics that start with a dollar sign are out.\<close>

definition bridge_topic :: "string \<Rightarrow> string \<Rightarrow> bool" where
  "bridge_topic p t \<longleftrightarrow> no_wildcard t \<and> one_byte_start t
     \<and> (hd t = CHR ''$'' \<longrightarrow> p \<noteq> [] \<and> (tl t = [] \<or> hd (tl t) \<noteq> CHR ''$''))"

lemma no_wildcard_tl: "no_wildcard t \<Longrightarrow> no_wildcard (tl t)"
  by (cases t) auto

lemma bridge_matches:
  assumes "level_rule L" "bridge_topic p t" "one_byte_start (p @ f)" "no_wildcard p"
    and same: "p \<noteq> [] \<Longrightarrow> hd t = CHR ''$'' \<Longrightarrow> hd p = CHR ''$'' \<Longrightarrow> topic_matches (tl t) (tl p @ f) = topic_matches t (p @ f)"
      "p \<noteq> [] \<Longrightarrow> hd p \<noteq> hd t \<Longrightarrow> \<not> topic_matches t (p @ f)"
  shows "matches_ignore_dollar_prefix L t (p @ f) = Some (topic_matches t (p @ f))"
proof (cases "hd t = CHR ''$''")
  case True
  then have "p \<noteq> []" using assms(2) by (simp add: bridge_topic_def)
  with True assms show ?thesis
    by (cases "hd p = hd t") (auto simp: matches_ignore_dollar_prefix_eq bridge_topic_def level_ruleD no_wildcard_tl hd_append)
next
  case False
  with assms show ?thesis
    by (auto simp: matches_ignore_dollar_prefix_eq bridge_topic_def level_ruleD hd_append)
qed

lemma bridge_matches_prefix:
  assumes "level_rule L" "bridge_topic p t" "one_byte_start (p @ f)" "no_wildcard p" "p = [] \<or> ends_with_slash p"
  shows "matches_ignore_dollar_prefix L t (p @ f) = Some (topic_matches t (p @ f))"
proof (rule bridge_matches [OF assms(1-4)])
  assume p: "p \<noteq> []"
  have t: "t \<noteq> []" using assms(2) by (auto simp: bridge_topic_def one_byte_start_def)
  have split: "topic_matches t (p @ f) \<longleftrightarrow> (\<exists>t'. t = p @ t' \<and> topic_matches t' f)
      \<or> (t @ [slash] = p \<and> hd (split_on slash f) = ''#'')"
    using topic_matches_prefix [of p] assms(4,5) p by simp
  show "\<not> topic_matches t (p @ f)" if "hd p \<noteq> hd t" using that p t split by auto
  show "topic_matches (tl t) (tl p @ f) = topic_matches t (p @ f)" if hd: "hd t = CHR ''$''" "hd p = CHR ''$''"
  proof -
    have rest: "tl p \<noteq> []" "ends_with_slash (tl p)"
      using assms(5) p hd by (cases p; auto simp: ends_with_slash_def split: if_splits)+
    then have "topic_matches (tl t) (tl p @ f) \<longleftrightarrow> (\<exists>t'. tl t = tl p @ t' \<and> topic_matches t' f)
        \<or> (tl t @ [slash] = tl p \<and> hd (split_on slash f) = ''#'')"
      using topic_matches_prefix [of "tl p"] assms(4) by (simp add: no_wildcard_tl)
    moreover have "(\<exists>t'. t = p @ t' \<and> topic_matches t' f) \<longleftrightarrow> (\<exists>t'. tl t = tl p @ t' \<and> topic_matches t' f)"
      "t @ [slash] = p \<longleftrightarrow> tl t @ [slash] = tl p" using hd p t by (cases p; cases t; auto)+
    ultimately show ?thesis using split by simp
  qed
qed

lemma bridge_matches_exact:
  assumes "level_rule L" "bridge_topic p t" "one_byte_start p" "no_wildcard p"
  shows "matches_ignore_dollar_prefix L t p = Some (t = p)"
proof -
  have "t \<noteq> []" "p \<noteq> []" using assms(2,3) by (auto simp: bridge_topic_def one_byte_start_def)
  then have "topic_matches (tl t) (tl p) = topic_matches t p" if "hd t = CHR ''$''" "hd p = CHR ''$''"
    using that assms(4) by (cases t; cases p) (auto simp: topic_matches_exact)
  then show ?thesis
    using bridge_matches [of L p t "[]"] assms by (auto simp: topic_matches_exact)
qed

section \<open>Properties\<close>

lemma bridge_rule_try_new_Inr:
  assumes "topic_rule L" "bridge_rule_try_new L base p q = Inr r"
  shows "r = \<lparr>br_topic_filter = p @ base, br_prefix_to_remove = p, br_prefix_to_add = q\<rparr>" "no_wildcard p" "no_wildcard q"
    "base = [] \<Longrightarrow> p \<noteq> [] \<and> q \<noteq> []"
    "base \<noteq> [] \<Longrightarrow> (p = [] \<or> ends_with_slash p) \<and> (q = [] \<or> ends_with_slash q) \<and> valid_filter L base"
  using assms by (auto simp: bridge_rule_try_new_def validate_topic_def validate_filter_def topic_ruleD Let_def split: if_splits)

text \<open>
  A rule of the bridge renames exactly the topics under its prefix that match its filter, or the one topic it is made for,
  and ignores the others.  There is one topic on which it panics: the prefix without its final slash, when the filter is
  \<open>#\<close>, which matches this topic while the prefix does not.
\<close>

lemma bridge_rule_forwards_eq:
  assumes "topic_rule L" "level_rule L" "bridge_rule_try_new L base p q = Inr r" "bridge_topic p t" "one_byte_start (p @ base)"
  shows "bridge_rule_apply L r t =
    (if base = [] then Some (if t = p then Some q else None)
     else if \<exists>t'. t = p @ t' \<and> topic_matches t' base then Some (Some (q @ drop (length p) t))
     else if p \<noteq> [] \<and> t @ ''/'' = p \<and> hd (split_on slash base) = ''#'' then None
     else Some None)"
proof (cases "base = []")
  case True
  note r = bridge_rule_try_new_Inr [OF assms(1,3)]
  have "matches_ignore_dollar_prefix L t p = Some (t = p)"
    using bridge_matches_exact [OF assms(2,4)] assms(5) r(2) True by simp
  then show ?thesis using True r(1) strip_prefix_append [of p "[]"] by (simp add: bridge_rule_apply_def)
next
  case False
  note r = bridge_rule_try_new_Inr [OF assms(1,3)]
  have m: "matches_ignore_dollar_prefix L t (br_topic_filter r) = Some (topic_matches t (p @ base))"
    using bridge_matches_prefix [OF assms(2,4,5)] r False by simp
  let ?in = "\<exists>t'. t = p @ t' \<and> topic_matches t' base" and ?parent = "p \<noteq> [] \<and> t @ ''/'' = p \<and> hd (split_on slash base) = ''#''"
  have split: "topic_matches t (p @ base) \<longleftrightarrow> ?in \<or> ?parent" using topic_matches_prefix [of p t base] r(2,5) False by simp
  have ap: "bridge_rule_apply L r t =
      (if topic_matches t (p @ base) then map_option (\<lambda>rest. Some (q @ rest)) (strip_prefix p t) else Some None)"
    using m by (simp add: bridge_rule_apply_def r(1))
  consider (A) ?in | (B) "\<not> ?in" ?parent | (C) "\<not> ?in" "\<not> ?parent" by blast
  then show ?thesis
  proof cases
    case A
    then obtain t' where "t = p @ t'" by blast
    then have "strip_prefix p t = Some t'" "drop (length p) t = t'" by simp_all
    with A show ?thesis unfolding ap split by (simp add: False)
  next
    case B
    then have "strip_prefix p t = None" by (cases "strip_prefix p t") (auto simp: strip_prefix_Some_iff)
    with B show ?thesis unfolding ap split if_not_P [OF B(1)] using False by simp
  next
    case C
    then show ?thesis unfolding ap split using False by (simp only: if_False simp_thms)
  qed
qed

lemma bridge_rule_forwards_instance:
  "\<exists>r. bridge_rule_try_new level_mqtt ''#'' ''c8y/'' [] = Inr r
    \<and> bridge_rule_apply level_mqtt r ''c8y/s/us'' = Some (Some ''s/us'') \<and> bridge_rule_apply level_mqtt r ''c8y'' = None"
proof -
  let ?r = "\<lparr>br_topic_filter = ''c8y/#'', br_prefix_to_remove = ''c8y/'', br_prefix_to_add = []\<rparr>"
  have r: "bridge_rule_try_new level_mqtt ''#'' ''c8y/'' [] = Inr ?r"
    by (simp add: bridge_rule_try_new_def validate_topic_def validate_filter_def level_mqtt_def ends_with_slash_def)
  have topics: "bridge_topic ''c8y/'' ''c8y/s/us''" "bridge_topic ''c8y/'' ''c8y''" "one_byte_start (''c8y/'' @ ''#'')"
    by (simp_all add: bridge_topic_def one_byte_start_def continuation_def)
  have "bridge_rule_apply level_mqtt ?r ''c8y/s/us'' = Some (Some ''s/us'')"
    using bridge_rule_forwards_eq [OF _ _ r topics(1,3)] by (auto simp: topic_matches_def)
  moreover have "bridge_rule_apply level_mqtt ?r ''c8y'' = None"
    using bridge_rule_forwards_eq [OF _ _ r topics(2,3)] by (auto simp: topic_matches_def)
  ultimately show ?thesis using r by blast
qed

text \<open>
  C29. A topic forwarded in both directions is renamed, and the new name renamed back to the old one; the filters that the
  detection of loops watches match both names.
\<close>

theorem bidirectional_topics_roundtrip:
  assumes "topic_rule L" "level_rule L" "forward_bidirectionally L base lp rp c = (Inr (), c')"
    and "base \<noteq> []" "topic_matches t base"
    and "bridge_topic lp (lp @ t)" "bridge_topic rp (rp @ t)" "one_byte_start (lp @ base)" "one_byte_start (rp @ base)"
  shows "\<exists>out inward. local_to_remote c' = local_to_remote c @ [out] \<and> remote_to_local c' = remote_to_local c @ [inward]
    \<and> bridge_rule_apply L out (lp @ t) = Some (Some (rp @ t)) \<and> bridge_rule_apply L inward (rp @ t) = Some (Some (lp @ t))
    \<and> (\<exists>f g. bidirectional_topics c' = bidirectional_topics c @ [(f, g)]
        \<and> matches_ignore_dollar_prefix L (lp @ t) f = Some True \<and> matches_ignore_dollar_prefix L (rp @ t) g = Some True)"
proof -
  obtain out inward where rules: "bridge_rule_try_new L base lp rp = Inr out" "bridge_rule_try_new L base rp lp = Inr inward"
    and c': "c' = c\<lparr>bidirectional_topics := bidirectional_topics c @ [(lp @ base, rp @ base)],
        local_to_remote := local_to_remote c @ [out], remote_to_local := remote_to_local c @ [inward]\<rparr>"
    using assms(3) by (auto simp: forward_bidirectionally_def forward_from_local_def forward_from_remote_def Let_def
        split: sum.splits)
  note props = bridge_rule_try_new_Inr [OF assms(1) rules(1)]
  have "bridge_rule_apply L out (lp @ t) = Some (Some (rp @ t))" "bridge_rule_apply L inward (rp @ t) = Some (Some (lp @ t))"
    using bridge_rule_forwards_eq [OF assms(1,2) rules(1) assms(6,8)] bridge_rule_forwards_eq [OF assms(1,2) rules(2) assms(7,9)] assms(4,5) by auto
  moreover have "topic_matches (lp @ t) (lp @ base)" "topic_matches (rp @ t) (rp @ base)"
    using topic_matches_prefix [of lp] topic_matches_prefix [of rp] props(2,3) props(5) [OF assms(4)] assms(5) by auto
  then have "matches_ignore_dollar_prefix L (lp @ t) (lp @ base) = Some True"
    "matches_ignore_dollar_prefix L (rp @ t) (rp @ base) = Some True"
    using bridge_matches_prefix [OF assms(2,6,8)] bridge_matches_prefix [OF assms(2,7,9)] props(2,3) props(5) [OF assms(4)] by auto
  ultimately show ?thesis by (simp add: c')
qed

text \<open>The shadow of an AWS device.\<close>

theorem bidirectional_topics_roundtrip_witness:
  "\<exists>c out inward. forward_bidirectionally level_mqtt ''shadow/#'' ''aws/'' ''$aws/things/d/'' bridge_config_new = (Inr (), c)
    \<and> local_to_remote c = [out] \<and> remote_to_local c = [inward]
    \<and> bridge_rule_apply level_mqtt out ''aws/shadow/get'' = Some (Some ''$aws/things/d/shadow/get'')
    \<and> bridge_rule_apply level_mqtt inward ''$aws/things/d/shadow/get'' = Some (Some ''aws/shadow/get'')"
proof -
  let ?c = "\<lparr>local_to_remote = [\<lparr>br_topic_filter = ''aws/shadow/#'', br_prefix_to_remove = ''aws/'', br_prefix_to_add = ''$aws/things/d/''\<rparr>],
      remote_to_local = [\<lparr>br_topic_filter = ''$aws/things/d/shadow/#'', br_prefix_to_remove = ''$aws/things/d/'', br_prefix_to_add = ''aws/''\<rparr>],
      bidirectional_topics = [(''aws/shadow/#'', ''$aws/things/d/shadow/#'')]\<rparr>"
  have c: "forward_bidirectionally level_mqtt ''shadow/#'' ''aws/'' ''$aws/things/d/'' bridge_config_new = (Inr (), ?c)"
    by (simp add: forward_bidirectionally_def forward_from_local_def forward_from_remote_def bridge_rule_try_new_def
        validate_topic_def validate_filter_def level_mqtt_def ends_with_slash_def bridge_config_new_def)
  have "topic_matches ''shadow/get'' ''shadow/#''" by (simp add: topic_matches_def)
  moreover have "bridge_topic ''aws/'' (''aws/'' @ ''shadow/get'')" "bridge_topic ''$aws/things/d/'' (''$aws/things/d/'' @ ''shadow/get'')"
    "one_byte_start (''aws/'' @ ''shadow/#'')" "one_byte_start (''$aws/things/d/'' @ ''shadow/#'')"
    by (simp_all add: bridge_topic_def one_byte_start_def continuation_def)
  ultimately show ?thesis
    using bidirectional_topics_roundtrip [OF _ _ c, of "''shadow/get''"] c by (auto simp: bridge_config_new_def)
qed

subsection \<open>The rules of the mappers\<close>

text \<open>The documented rule of \<^verbatim>\<open>valid_filter\<close> for the filters of the mappers: names without wildcards, and all that is below one.\<close>

definition filter_rule :: "rumqttc \<Rightarrow> bool" where
  "filter_rule L \<longleftrightarrow> (\<forall>s. no_wildcard s \<and> s \<noteq> [] \<longrightarrow> valid_filter L s \<and> valid_filter L (s @ ''/#''))"

lemma filter_ruleD:
  "filter_rule L \<Longrightarrow> no_wildcard s \<Longrightarrow> s \<noteq> [] \<Longrightarrow> f = s \<or> f = s @ ''/#'' \<Longrightarrow> valid_filter L f"
  by (auto simp: filter_rule_def)

definition plain_topic :: "string \<Rightarrow> bool" where
  "plain_topic t \<longleftrightarrow> no_wildcard t \<and> one_byte_start t \<and> \<not> (\<exists>r. t = CHR ''$'' # CHR ''$'' # r)"

definition never_panics :: "rumqttc \<Rightarrow> bridge_rule \<Rightarrow> bool" where
  "never_panics L r \<longleftrightarrow> (\<forall>t. plain_topic t \<longrightarrow> bridge_rule_apply L r t \<noteq> None)"

lemma bridge_rule_never_panics:
  assumes "topic_rule L" "level_rule L" "bridge_rule_try_new L base p q = Inr r" "one_byte_start (p @ base)"
    and "base = [] \<or> hd (split_on slash base) \<noteq> ''#''"
  shows "never_panics L r"
  unfolding never_panics_def
proof (intro allI impI)
  fix t
  assume t: "plain_topic t"
  show "bridge_rule_apply L r t \<noteq> None"
  proof (cases "p = []")
    case True
    with bridge_rule_try_new_Inr [OF assms(1,3)] t assms(4) show ?thesis
      by (simp add: bridge_rule_apply_def matches_ignore_dollar_prefix_eq plain_topic_def)
  next
    case False
    then have "bridge_topic p t" using t by (cases t; cases "tl t") (auto simp: bridge_topic_def plain_topic_def)
    then show ?thesis using bridge_rule_forwards_eq [OF assms(1-3) _ assms(4)] assms(5) by auto
  qed
qed

definition safe_config :: "rumqttc \<Rightarrow> bridge_config \<Rightarrow> bool" where
  "safe_config L c \<longleftrightarrow> (\<forall>r \<in> set (local_to_remote c) \<union> set (remote_to_local c). never_panics L r)"

definition good_rule :: "rumqttc \<Rightarrow> string \<Rightarrow> string \<Rightarrow> string \<Rightarrow> bool" where
  "good_rule L base p q \<longleftrightarrow> (\<exists>r. bridge_rule_try_new L base p q = Inr r) \<and> one_byte_start (p @ base)
     \<and> (base = [] \<or> hd (split_on slash base) \<noteq> ''#'')"

definition keeps_safe :: "rumqttc \<Rightarrow> (bridge_config \<Rightarrow> (invalid_bridge_rule + unit) \<times> bridge_config) \<Rightarrow> bool" where
  "keeps_safe L f \<longleftrightarrow> (\<forall>c. safe_config L c \<longrightarrow> (\<exists>c'. f c = (Inr (), c') \<and> safe_config L c'))"

lemma good_rule_new:
  "topic_rule L \<Longrightarrow> level_rule L \<Longrightarrow> good_rule L base p q \<Longrightarrow> \<exists>r. bridge_rule_try_new L base p q = Inr r \<and> never_panics L r"
  using bridge_rule_never_panics unfolding good_rule_def by blast

lemma forward_from_local_safe:
  "topic_rule L \<Longrightarrow> level_rule L \<Longrightarrow> good_rule L base lp rp \<Longrightarrow> keeps_safe L (forward_from_local L base lp rp)"
  by (drule (2) good_rule_new) (auto simp: keeps_safe_def forward_from_local_def safe_config_def)

lemma forward_from_remote_safe:
  "topic_rule L \<Longrightarrow> level_rule L \<Longrightarrow> good_rule L base rp lp \<Longrightarrow> keeps_safe L (forward_from_remote L base lp rp)"
  by (drule (2) good_rule_new) (auto simp: keeps_safe_def forward_from_remote_def safe_config_def)

lemma forward_bidirectionally_safe:
  assumes "topic_rule L" "level_rule L" "good_rule L base lp rp" "good_rule L base rp lp"
  shows "keeps_safe L (forward_bidirectionally L base lp rp)"
  unfolding keeps_safe_def
proof (intro allI impI)
  fix c
  assume "safe_config L c"
  let ?c = "c\<lparr>bidirectional_topics := bidirectional_topics c @ [(lp @ base, rp @ base)]\<rparr>"
  have "safe_config L ?c" using \<open>safe_config L c\<close> by (simp add: safe_config_def)
  then obtain d where d: "forward_from_local L base lp rp ?c = (Inr (), d)" "safe_config L d"
    using forward_from_local_safe [OF assms(1-3)] unfolding keeps_safe_def by blast
  then show "\<exists>c'. forward_bidirectionally L base lp rp c = (Inr (), c') \<and> safe_config L c'"
    using forward_from_remote_safe [OF assms(1,2,4)] unfolding keeps_safe_def forward_bidirectionally_def Let_def by auto
qed

lemmas forwards_safe = forward_from_local_safe forward_from_remote_safe forward_bidirectionally_safe

lemma add_rules_safe: "\<forall>f \<in> set fs. keeps_safe L f \<Longrightarrow> safe_config L c \<Longrightarrow> \<exists>c'. add_rules fs c = Inr c' \<and> safe_config L c'"
proof (induction fs arbitrary: c)
  case (Cons f fs)
  then obtain d where "f c = (Inr (), d)" "safe_config L d" unfolding keeps_safe_def by (meson list.set_intros(1))
  with Cons show ?case by simp
qed simp

lemma convert_topic_safe:
  "\<forall>r \<in> set rs. never_panics L r \<Longrightarrow> plain_topic t \<Longrightarrow> convert_topic L rs t \<noteq> None"
  by (induction rs) (auto simp: never_panics_def split: option.splits)

lemma one_byte_start_append:
  "one_byte_start (a @ ''/'') \<Longrightarrow> b \<noteq> [] \<Longrightarrow> \<not> continuation (hd b) \<Longrightarrow> one_byte_start (a @ slash # b)"
  by (cases a; cases "tl a"; cases b) (auto simp: one_byte_start_def continuation_def)

lemma good_ruleI:
  assumes "topic_rule L" "filter_rule L" "no_wildcard p" "no_wildcard q" "one_byte_start (p @ base)"
    and "base = [] \<and> p \<noteq> [] \<and> q \<noteq> [] \<or> (p = [] \<or> ends_with_slash p) \<and> (q = [] \<or> ends_with_slash q)
      \<and> (\<exists>s. no_wildcard s \<and> s \<noteq> [] \<and> (base = s \<or> base = s @ ''/#''))"
  shows "good_rule L base p q"
proof -
  have "hd (split_on slash base) \<noteq> ''#''" if "no_wildcard s" "s \<noteq> []" "base = s \<or> base = s @ ''/#''" for s
    using that by (cases s) (auto split: list.splits if_splits)
  then show ?thesis
    using assms by (auto simp: good_rule_def bridge_rule_try_new_def validate_topic_def validate_filter_def topic_ruleD
        dest: filter_ruleD)
qed

text \<open>A filter below a name, and the rules under a local prefix.\<close>

definition below :: "string \<Rightarrow> bool" where
  "below f \<longleftrightarrow> (let s = butlast (butlast f) in f = s @ ''/#'' \<and> no_wildcard s \<and> s \<noteq> [] \<and> \<not> continuation (hd s))"

lemma good_rule_below:
  assumes "topic_rule L" "filter_rule L" "no_wildcard a" "no_wildcard q" "one_byte_start (a @ ''/'')" "below f"
    and "q = [] \<or> ends_with_slash q"
  shows "good_rule L f (a @ ''/'') q"
proof -
  have "\<not> continuation (hd f)" "f \<noteq> []" "\<exists>s. no_wildcard s \<and> s \<noteq> [] \<and> f = s @ ''/#''"
    using assms(6) unfolding below_def Let_def by (metis hd_append append_is_Nil_conv)+
  with assms show ?thesis
    using one_byte_start_append [of a f] by (intro good_ruleI) (auto simp: ends_with_slash_def)
qed

lemma good_rule_topic:
  assumes "topic_rule L" "filter_rule L" "no_wildcard t" "t \<noteq> []" "one_byte_start t" "no_wildcard q" "q = [] \<or> ends_with_slash q"
  shows "good_rule L t [] q"
  using assms by (intro good_ruleI) auto

lemma rules_convert:
  assumes "\<forall>f \<in> set fs. keeps_safe L f" "rules = add_rules fs bridge_config_new"
  shows "\<exists>c. rules = Inr c \<and> (\<forall>t. plain_topic t \<longrightarrow>
    convert_topic L (local_to_remote c) t \<noteq> None \<and> convert_topic L (remote_to_local c) t \<noteq> None)"
proof -
  have "safe_config L bridge_config_new" by (simp add: safe_config_def bridge_config_new_def)
  then obtain c where "rules = Inr c" "safe_config L c" using add_rules_safe [OF assms(1)] assms(2) by blast
  then show ?thesis using convert_topic_safe by (auto simp: safe_config_def)
qed

lemma aws_rules_convert:
  assumes "topic_rule L" "level_rule L" "filter_rule L" "no_wildcard i" "no_wildcard a" "one_byte_start (a @ ''/'')"
  shows "\<exists>c. aws_bridge_rules L i a = Inr c \<and> (\<forall>t. plain_topic t \<longrightarrow>
    convert_topic L (local_to_remote c) t \<noteq> None \<and> convert_topic L (remote_to_local c) t \<noteq> None)"
proof (rule rules_convert [OF _ aws_bridge_rules_def [unfolded Let_def]])
  have starts: "one_byte_start ((''thinedge/'' @ i) @ ''/'')" "one_byte_start ((''$aws/things/'' @ i) @ ''/'')"
    "one_byte_start ((''thinedge/devices/'' @ i @ ''/test-connection'') @ [])" "one_byte_start (((a @ ''/'') @ ''test-connection'') @ [])"
    using one_byte_start_append [OF assms(6), of "''test-connection''"] by (simp_all add: one_byte_start_def continuation_def)
  have below: "below ''td/#''" "below ''cmd/#''" "below ''shadow/#''" by (simp_all add: below_def continuation_def)
  have rules: "good_rule L ''td/#'' (a @ ''/'') (''thinedge/'' @ i @ ''/'')"
    "good_rule L ''cmd/#'' ((''thinedge/'' @ i) @ ''/'') (a @ ''/'')"
    "good_rule L ''shadow/#'' (a @ ''/'') (''$aws/things/'' @ i @ ''/'')"
    "good_rule L ''shadow/#'' ((''$aws/things/'' @ i) @ ''/'') (a @ ''/'')"
    using assms below starts by (intro good_rule_below; simp add: ends_with_slash_def)+
  have checks: "good_rule L [] ((a @ ''/'') @ ''test-connection'') (''thinedge/devices/'' @ i @ ''/test-connection'')"
    "good_rule L [] (''thinedge/devices/'' @ i @ ''/test-connection'') ((a @ ''/'') @ ''connection-success'')"
    using assms starts by (intro good_ruleI; simp)+
  show "\<forall>f \<in> set [forward_from_local L ''td/#'' (a @ ''/'') (''thinedge/'' @ i @ ''/''),
      forward_from_remote L ''cmd/#'' (a @ ''/'') (''thinedge/'' @ i @ ''/''),
      forward_bidirectionally L ''shadow/#'' (a @ ''/'') (''$aws/things/'' @ i @ ''/''),
      forward_from_local L [] ((a @ ''/'') @ ''test-connection'') (''thinedge/devices/'' @ i @ ''/test-connection''),
      forward_from_remote L [] ((a @ ''/'') @ ''connection-success'') (''thinedge/devices/'' @ i @ ''/test-connection'')].
        keeps_safe L f"
    using rules checks by (simp add: forwards_safe assms(1,2))
qed

lemma az_rules_convert:
  assumes "topic_rule L" "level_rule L" "filter_rule L" "no_wildcard i" "no_wildcard a" "one_byte_start (a @ ''/'')"
  shows "\<exists>c. az_bridge_rules L i a = Inr c \<and> (\<forall>t. plain_topic t \<longrightarrow>
    convert_topic L (local_to_remote c) t \<noteq> None \<and> convert_topic L (remote_to_local c) t \<noteq> None)"
proof (rule rules_convert [OF _ az_bridge_rules_def [unfolded Let_def]])
  have starts: "one_byte_start ((''devices/'' @ i) @ ''/'')" "one_byte_start (''$iothub'' @ ''/'')"
    by (simp_all add: one_byte_start_def continuation_def)
  have below: "below ''messages/events/#''" "below ''messages/devicebound/#''" "below ''methods/res/#''"
    "below ''methods/POST/#''" "below ''twin/GET/#''" "below ''twin/PATCH/#''" "below ''twin/res/#''"
    by (simp_all add: below_def continuation_def)
  have rules: "good_rule L f (a @ ''/'') (''devices/'' @ i @ ''/'')" "good_rule L f ((''devices/'' @ i) @ ''/'') (a @ ''/'')"
    "good_rule L f (a @ ''/'') ''$iothub/''" "good_rule L f (''$iothub'' @ ''/'') (a @ ''/'')" if "below f" for f
    using assms starts that by (intro good_rule_below; simp add: ends_with_slash_def)+
  show "\<forall>f \<in> set [forward_from_local L ''messages/events/#'' (a @ ''/'') (''devices/'' @ i @ ''/''),
      forward_from_remote L ''messages/devicebound/#'' (a @ ''/'') (''devices/'' @ i @ ''/''),
      forward_from_local L ''methods/res/#'' (a @ ''/'') ''$iothub/'', forward_from_remote L ''methods/POST/#'' (a @ ''/'') ''$iothub/'',
      forward_from_local L ''twin/GET/#'' (a @ ''/'') ''$iothub/'', forward_from_local L ''twin/PATCH/#'' (a @ ''/'') ''$iothub/'',
      forward_from_remote L ''twin/res/#'' (a @ ''/'') ''$iothub/''].
        keeps_safe L f"
    using rules [OF below(1)] rules [OF below(2)] rules [OF below(3)] rules [OF below(4)] rules [OF below(5)] rules [OF below(6)]
      rules [OF below(7)] by (simp add: forwards_safe assms(1,2))
qed

lemma c8y_rules_convert:
  assumes "topic_rule L" "level_rule L" "filter_rule L" "no_wildcard a" "one_byte_start (a @ ''/'')"
    and "\<forall>i \<in> set (ids1 @ ids2). no_wildcard i"
  shows "\<exists>c. c8y_bridge_rules L ids1 ids2 use_certificate a = Inr c \<and> (\<forall>t. plain_topic t \<longrightarrow>
    convert_topic L (local_to_remote c) t \<noteq> None \<and> convert_topic L (remote_to_local c) t \<noteq> None)"
proof (rule rules_convert [OF _ c8y_bridge_rules_def [unfolded Let_def]])
  have remote: "keeps_safe L (forward_from_remote L t (a @ ''/'') [])" if "no_wildcard t" "one_byte_start t" for t
    using that assms by (intro forward_from_remote_safe good_rule_topic) (auto simp: ends_with_slash_def one_byte_start_def)
  have below: "keeps_safe L (forward_from_local L f (a @ ''/'') [])" if "below f" for f
    using that assms by (intro forward_from_local_safe good_rule_below) auto
  have "one_byte_start ((a @ ''/'') @ ''s/uat'')"
    using one_byte_start_append [OF assms(5), of "''s/uat''"] by (simp add: continuation_def)
  then have uat: "keeps_safe L (forward_from_local L ''s/uat'' (a @ ''/'') [])"
    using assms by (intro forward_from_local_safe good_ruleI) (auto simp: ends_with_slash_def)
  show "\<forall>f \<in> set (map (\<lambda>base. forward_from_remote L base (a @ ''/'') []) (map fst (filter snd
            [(''s/dt'', True), (''s/ds'', True), (''s/dat'', use_certificate), (''s/e'', True),
             (''devicecontrol/notifications'', True), (''error'', True)])
            @ map (\<lambda>i. ''s/dl/'' @ i) ids1 @ map (\<lambda>i. ''s/dc/'' @ i) ids2)
      @ map (\<lambda>base. forward_from_local L base (a @ ''/'') []) ([''s/ut/#'', ''s/us/#'', ''t/us/#'', ''q/us/#'', ''c/us/#'']
          @ (if use_certificate then [] else [''s/ul/#'', ''t/ul/#'', ''q/ul/#'', ''c/ul/#''])
          @ [''s/uc/#'', ''t/uc/#'', ''q/uc/#'', ''c/uc/#'',
             ''inventory/managedObjects/update/#'', ''measurement/measurements/create/#'',
             ''measurement/measurements/createBulk/#'', ''event/events/create/#'', ''event/events/createBulk/#'',
             ''alarm/alarms/create/#'', ''alarm/alarms/createBulk/#'']
          @ (if use_certificate then [''s/uat''] else []))). keeps_safe L f"
    using uat assms(6) by (auto intro!: remote below simp: below_def continuation_def one_byte_start_def)
qed

text \<open>
  The rules of the mappers of Cumulocity, AWS and Azure are accepted for every device id, topic prefix and template id
  without wildcards, and then convert any topic without panicking.
\<close>

lemma built_in_rules_convert:
  assumes "topic_rule L" "level_rule L" "filter_rule L" "no_wildcard device_id" "no_wildcard topic_prefix"
    and "one_byte_start (topic_prefix @ ''/'')" "\<forall>i \<in> set (ids1 @ ids2). no_wildcard i"
    and "rules \<in> {aws_bridge_rules L device_id topic_prefix, az_bridge_rules L device_id topic_prefix,
      c8y_bridge_rules L ids1 ids2 use_certificate topic_prefix}"
  shows "\<exists>c. rules = Inr c \<and> (\<forall>t. plain_topic t \<longrightarrow>
    convert_topic L (local_to_remote c) t \<noteq> None \<and> convert_topic L (remote_to_local c) t \<noteq> None)"
  using assms(8) aws_rules_convert [OF assms(1-6)] az_rules_convert [OF assms(1-6)] c8y_rules_convert [OF assms(1-3,5-7)]
  by blast

lemma built_in_rules_convert_instance:
  "\<exists>c. c8y_bridge_rules level_mqtt [] [''template''] True ''c8y'' = Inr c
    \<and> convert_topic level_mqtt (local_to_remote c) ''c8y'' \<noteq> None"
proof -
  have "filter_rule level_mqtt" by (simp add: filter_rule_def level_mqtt_def)
  moreover have "one_byte_start (''c8y'' @ ''/'')" "plain_topic ''c8y''"
    by (simp_all add: one_byte_start_def plain_topic_def continuation_def)
  ultimately show ?thesis
    using built_in_rules_convert [of level_mqtt "[]" "''c8y''" "[]" "[''template'']" "c8y_bridge_rules level_mqtt [] [''template''] True ''c8y''" True]
    by auto
qed

end
