(* ===== verification/Bridge.thy ===== *)
theory Bridge
  imports Bridge_Rules
begin

text \<open>
  The MQTT bridge (\<^verbatim>\<open>tedge_mqtt_bridge/src/lib.rs\<close>, \<^verbatim>\<open>health.rs\<close>, \<^verbatim>\<open>backoff.rs\<close>): the detection of loops, the health of the
  connections, the delays between two attempts, and the two halves that forward the messages of a broker to the other one.
  The MQTT client is the \<^verbatim>\<open>rumqttc\<close> package: its events are inputs.
\<close>

record publish =
  pb_dup :: bool
  pb_qos :: qos
  pb_retain :: bool
  pb_topic :: string
  pb_pkid :: nat
  pb_payload :: string

definition publish_new :: "string \<Rightarrow> qos \<Rightarrow> string \<Rightarrow> publish" where
  "publish_new t q payload =
     \<lparr>pb_dup = False, pb_qos = q, pb_retain = False, pb_topic = t, pb_pkid = 0, pb_payload = payload\<rparr>"

section \<open>The detection of loops\<close>

text \<open>Instants are in nanoseconds.\<close>

record loop_breaker =
  lb_forwarded_messages :: "(int \<times> publish) list"
  lb_bidirectional_topics :: "string list"

definition have_same_content :: "publish \<Rightarrow> publish \<Rightarrow> bool" where
  "have_same_content fwd_msg cmp \<longleftrightarrow> pb_topic fwd_msg = pb_topic cmp \<and> pb_qos fwd_msg = pb_qos cmp
     \<and> pb_retain fwd_msg = pb_retain cmp \<and> pb_payload fwd_msg = pb_payload cmp"

definition loop_breaker_new :: "string list \<Rightarrow> loop_breaker" where
  "loop_breaker_new filters = \<lparr>lb_forwarded_messages = [], lb_bidirectional_topics = filters\<rparr>"

definition clean_old_messages :: "int \<Rightarrow> loop_breaker \<Rightarrow> loop_breaker" where
  "clean_old_messages now b =
     b\<lparr>lb_forwarded_messages := dropWhile (\<lambda>(time, _). time < now - 100 * 1000000000) (lb_forwarded_messages b)\<rparr>"

text \<open>A message that is an echo is acknowledged and dropped: the result is \<^term>\<open>None\<close>.\<close>

definition ensure_not_looped :: "int \<Rightarrow> publish \<Rightarrow> loop_breaker \<Rightarrow> publish option \<times> loop_breaker" where
  "ensure_not_looped now received b =
     (let b = clean_old_messages now b in
      case lb_forwarded_messages b of
        (time, sent) # rest \<Rightarrow>
          if have_same_content sent received then (None, b\<lparr>lb_forwarded_messages := rest\<rparr>) else (Some received, b)
      | [] \<Rightarrow> (Some received, b))"

fun any_filter :: "rumqttc \<Rightarrow> string \<Rightarrow> string list \<Rightarrow> bool panics" where
  "any_filter L t [] = Some False"
| "any_filter L t (f # fs) =
     (case matches_ignore_dollar_prefix L t f of None \<Rightarrow> None | Some True \<Rightarrow> Some True | Some False \<Rightarrow> any_filter L t fs)"

definition is_bidirectional :: "rumqttc \<Rightarrow> string \<Rightarrow> loop_breaker \<Rightarrow> bool panics" where
  "is_bidirectional L t b = any_filter L t (lb_bidirectional_topics b)"

definition forward_on_topic :: "rumqttc \<Rightarrow> int \<Rightarrow> string \<Rightarrow> publish \<Rightarrow> loop_breaker \<Rightarrow> loop_breaker panics" where
  "forward_on_topic L now t p b = do {
     bidirectional \<leftarrow> is_bidirectional L t b;
     Some (if bidirectional
       then b\<lparr>lb_forwarded_messages := lb_forwarded_messages b @ [(now, (publish_new t (pb_qos p) (pb_payload p))\<lparr>pb_retain := pb_retain p\<rparr>)]\<rparr>
       else b) }"

section \<open>Health\<close>

datatype bridge_status = Up | Down

fun status_json :: "bridge_status \<Rightarrow> string" where
  "status_json Up = ''{\"status\":\"up\"}''"
| "status_json Down = ''{\"status\":\"down\"}''"

definition overall_status :: "bridge_status option \<Rightarrow> bridge_status option \<Rightarrow> bridge_status option" where
  "overall_status lhs rhs =
     (case lhs of None \<Rightarrow> None | Some l \<Rightarrow> (case rhs of None \<Rightarrow> None | Some r \<Rightarrow> Some (if l = Up \<and> r = Up then Up else Down)))"

record health_monitor =
  hm_topic :: string
  hm_statuses :: "(string, bridge_status option) hmap"
  hm_last_status :: "bridge_status option"

definition health_monitor_new :: "string \<Rightarrow> health_monitor" where
  "health_monitor_new t = \<lparr>hm_topic = t, hm_statuses = [(''local'', None), (''cloud'', None)], hm_last_status = None\<rparr>"

text \<open>One turn of the monitor: the message it publishes, if the overall status changed.\<close>

definition monitor_turn :: "string \<times> bridge_status \<Rightarrow> health_monitor \<Rightarrow> (publish option \<times> health_monitor) panics" where
  "monitor_turn update m =
     (let statuses = hm_insert (fst update) (Some (snd update)) (hm_statuses m);
          status = fold (\<lambda>s acc. overall_status acc s) (map snd statuses) (Some Up)
      in if hm_last_status m \<noteq> status then
           (case status of
              None \<Rightarrow> None
            | Some s \<Rightarrow> Some (Some ((publish_new (hm_topic m) AtLeastOnce (status_json s))\<lparr>pb_retain := True\<rparr>),
                m\<lparr>hm_statuses := statuses, hm_last_status := status\<rparr>))
         else Some (None, m\<lparr>hm_statuses := statuses\<rparr>))"

section \<open>Delays\<close>

text \<open>The exponential backoff is the \<^verbatim>\<open>backoff\<close> package: its state is abstract.\<close>

record 'e exponential =
  eb_reset :: "int \<Rightarrow> 'e \<Rightarrow> 'e"
  eb_next_backoff :: "int \<Rightarrow> 'e \<Rightarrow> int option \<times> 'e"

datatype backoff_state = Success | Failure

record 'e custom_backoff =
  cb_eb :: 'e
  cb_okay_since :: "int option"
  cb_reset_timeout :: int
  cb_last_state :: backoff_state

definition custom_backoff_new :: "'e \<Rightarrow> int \<Rightarrow> 'e custom_backoff" where
  "custom_backoff_new eb reset_timeout =
     \<lparr>cb_eb = eb, cb_okay_since = None, cb_reset_timeout = reset_timeout, cb_last_state = Success\<rparr>"

definition backoff :: "'e exponential \<Rightarrow> int \<Rightarrow> 'e custom_backoff \<Rightarrow> (int \<times> 'e custom_backoff) panics" where
  "backoff B now c =
     (let recent = (case cb_okay_since c of Some time \<Rightarrow> now - time < cb_reset_timeout c | None \<Rightarrow> False);
          eb = (if recent then cb_eb c else if cb_last_state c = Success then eb_reset B now (cb_eb c) else cb_eb c)
      in case eb_next_backoff B now eb of
           (None, _) \<Rightarrow> None
         | (Some time, eb) \<Rightarrow> Some (time, c\<lparr>cb_eb := eb, cb_last_state := Failure\<rparr>))"

definition mark_success :: "int \<Rightarrow> 'e custom_backoff \<Rightarrow> 'e custom_backoff" where
  "mark_success now c =
     (if cb_last_state c = Failure then c\<lparr>cb_last_state := Success, cb_okay_since := Some now\<rparr> else c)"

section \<open>Half a bridge\<close>

datatype mqtt_event =
    IncomingConnAck
  | IncomingPublish publish
  | IncomingPubAck nat
  | IncomingPubRec nat
  | IncomingDisconnect
  | OutgoingPublish nat
  | OutgoingAwaitAck nat
  | OtherEvent

datatype bridge_message = BridgePub string publish | BridgeAck publish | Pub publish

text \<open>
  The state of \<^verbatim>\<open>half_bridge\<close> with the channels of its target: the messages for the task that publishes to the target,
  and the messages this task's companion has published to the broker of this half.
\<close>

record 'e half_bridge =
  hb_rules :: "bridge_rule list"
  hb_breaker :: loop_breaker
  hb_last_err :: "string option"
  hb_backoff :: "'e custom_backoff"
  hb_waiting :: "(nat, publish) hmap"
  hb_received :: int
  hb_published :: int
  hb_acknowledged :: int
  hb_queue :: "bridge_message list"
  hb_rx :: "(string \<times> publish) option list"
  hb_subscriptions :: nat

text \<open>Counters are 32-bit integers, with overflow checks.\<close>

definition i32_succ :: "int \<Rightarrow> int panics" where
  "i32_succ n = (if n < 2147483647 then Some (n + 1) else None)"

text \<open>\<^verbatim>\<open>BridgeHealth::update\<close>: the new status, when it changed.\<close>

definition bridge_health_update :: "string + mqtt_event \<Rightarrow> 'e half_bridge \<Rightarrow> bridge_status option \<times> 'e half_bridge" where
  "bridge_health_update result h =
     (let err = (case result of Inr _ \<Rightarrow> None | Inl err \<Rightarrow> Some err) in
      if hb_last_err h \<noteq> err
      then (Some (case err of None \<Rightarrow> Up | Some _ \<Rightarrow> Down), h\<lparr>hb_last_err := err\<rparr>)
      else (None, h))"

text \<open>After an event the loop goes on, or waits to acknowledge a message, or waits for its companion.\<close>

datatype 'h outcome = Handled 'h | AckThen publish 'h | AwaitCompanion

definition bridge_ack :: "nat \<Rightarrow> 'e half_bridge \<Rightarrow> 'e half_bridge outcome panics" where
  "bridge_ack k h =
     (case hm_get (hb_waiting h) k of
        Some msg \<Rightarrow> do { n \<leftarrow> i32_succ (hb_acknowledged h);
          Some (Handled (h\<lparr>hb_waiting := hm_remove k (hb_waiting h), hb_acknowledged := n,
            hb_queue := hb_queue h @ [BridgeAck msg]\<rparr>)) }
      | None \<Rightarrow> Some (Handled h))"

fun half_event :: "rumqttc \<Rightarrow> int \<Rightarrow> mqtt_event \<Rightarrow> 'e half_bridge \<Rightarrow> 'e half_bridge outcome panics" where
  "half_event L now IncomingConnAck h = Some (Handled (h\<lparr>hb_subscriptions := Suc (hb_subscriptions h)\<rparr>))"
| "half_event L now (IncomingPublish p) h =
     (case ensure_not_looped now p (hb_breaker h) of
        (None, b) \<Rightarrow> Some (AckThen p (h\<lparr>hb_breaker := b\<rparr>))
      | (Some p, b) \<Rightarrow> do {
          target \<leftarrow> convert_topic L (hb_rules h) (pb_topic p);
          case target of
            Some t \<Rightarrow> do { n \<leftarrow> i32_succ (hb_received h);
              Some (Handled (h\<lparr>hb_breaker := b, hb_received := n, hb_queue := hb_queue h @ [BridgePub t p]\<rparr>)) }
          | None \<Rightarrow> Some (AckThen p (h\<lparr>hb_breaker := b\<rparr>)) })"
| "half_event L now (IncomingPubAck k) h = bridge_ack k h"
| "half_event L now (IncomingPubRec k) h = bridge_ack k h"
| "half_event L now (OutgoingPublish k) h =
     (if hm_contains (hb_waiting h) k then Some (Handled h)
      else case hb_rx h of
             [] \<Rightarrow> Some AwaitCompanion
           | Some (t, msg) # rx \<Rightarrow> do {
               n \<leftarrow> i32_succ (hb_published h);
               b \<leftarrow> forward_on_topic L now t msg (hb_breaker h);
               Some (Handled (h\<lparr>hb_rx := rx, hb_published := n, hb_breaker := b,
                 hb_waiting := (if k \<noteq> 0 then hm_insert k msg (hb_waiting h) else hb_waiting h)\<rparr>)) }
           | None # rx \<Rightarrow> Some (Handled (h\<lparr>hb_rx := rx\<rparr>)))"
| "half_event L now _ h = Some (Handled h)"

text \<open>One turn of the loop on the result of \<^verbatim>\<open>poll\<close>, with the status for the monitor of health.\<close>

definition half_turn ::
  "rumqttc \<Rightarrow> 'e exponential \<Rightarrow> int \<Rightarrow> string + mqtt_event \<Rightarrow> 'e half_bridge
     \<Rightarrow> (bridge_status option \<times> 'e half_bridge outcome) panics" where
  "half_turn L B now result h =
     (let (status, h) = bridge_health_update result h in
      case result of
        Inr event \<Rightarrow>
          map_option (Pair status) (half_event L now event (h\<lparr>hb_backoff := mark_success now (hb_backoff h)\<rparr>))
      | Inl _ \<Rightarrow> map_option (\<lambda>(_, c). (status, Handled (h\<lparr>hb_backoff := c\<rparr>))) (backoff B now (hb_backoff h)))"

definition half_bridge_new :: "bridge_rule list \<Rightarrow> string list \<Rightarrow> 'e custom_backoff \<Rightarrow> 'e half_bridge" where
  "half_bridge_new rules bidirectional_topic_filters c =
     \<lparr>hb_rules = rules, hb_breaker = loop_breaker_new bidirectional_topic_filters, hb_last_err = Some ''dummy error'',
      hb_backoff = c, hb_waiting = [], hb_received = 0, hb_published = 0, hb_acknowledged = 0, hb_queue = [], hb_rx = [],
      hb_subscriptions = 0\<rparr>"

section \<open>Echoes\<close>

text \<open>The echoes of the messages forwarded on bidirectional topics, handled in turn: those that are not recognised are left.\<close>

fun echoes :: "(int \<times> publish) list \<Rightarrow> loop_breaker \<Rightarrow> publish list \<times> loop_breaker" where
  "echoes [] b = ([], b)"
| "echoes ((now, p) # ps) b =
     (let (r, b) = ensure_not_looped now p b; (rs, b) = echoes ps b in ((case r of Some p \<Rightarrow> [p] | None \<Rightarrow> []) @ rs, b))"

lemma echoes_dropped:
  assumes "list_all2 (\<lambda>(time, sent) (now, p). have_same_content sent p \<and> now - 100 * 1000000000 \<le> time) (lb_forwarded_messages b) ps"
  shows "echoes ps b = ([], b\<lparr>lb_forwarded_messages := []\<rparr>)"
  using assms
proof (induction "lb_forwarded_messages b" ps arbitrary: b rule: list_all2_induct)
  case Nil
  then show ?case by (cases b) simp
next
  case (Cons x xs y ps)
  obtain time sent now p where xy: "x = (time, sent)" "y = (now, p)" by (cases x; cases y)
  then have "ensure_not_looped now p b = (None, b\<lparr>lb_forwarded_messages := xs\<rparr>)"
    using Cons.hyps by (simp add: ensure_not_looped_def clean_old_messages_def Cons.hyps(4) [symmetric])
  moreover have "echoes ps (b\<lparr>lb_forwarded_messages := xs\<rparr>) = ([], b\<lparr>lb_forwarded_messages := []\<rparr>)"
    using Cons.hyps(3) [of "b\<lparr>lb_forwarded_messages := xs\<rparr>"] by simp
  ultimately show ?case by (simp add: xy)
qed

text \<open>An echo that does not come back with the same content hides those of the messages after it, until it is too old.\<close>

lemma stale_echo_hides:
  assumes "lb_forwarded_messages b = (time, sent) # rest" "now - 100 * 1000000000 \<le> time" "\<not> have_same_content sent p"
  shows "fst (ensure_not_looped now p b) = Some p"
  using assms by (simp add: ensure_not_looped_def clean_old_messages_def)

section \<open>The published health\<close>

fun monitor_run :: "(string \<times> bridge_status) list \<Rightarrow> health_monitor \<Rightarrow> (publish list \<times> health_monitor) panics" where
  "monitor_run [] m = Some ([], m)"
| "monitor_run (u # us) m = do {
     (p, m) \<leftarrow> monitor_turn u m;
     (ps, m) \<leftarrow> monitor_run us m;
     Some ((case p of Some p \<Rightarrow> [p] | None \<Rightarrow> []) @ ps, m) }"

text \<open>The last status a connection reported.\<close>

definition last_reported :: "string \<Rightarrow> (string \<times> bridge_status) list \<Rightarrow> bridge_status option" where
  "last_reported name us = map_of (rev us) name"

definition monitor_state :: "string \<Rightarrow> bridge_status option \<Rightarrow> bridge_status option \<Rightarrow> health_monitor" where
  "monitor_state t a b = \<lparr>hm_topic = t, hm_statuses = [(''local'', a), (''cloud'', b)], hm_last_status = overall_status a b\<rparr>"

lemma overall_status_Up [simp]: "overall_status (Some Up) a = a"
  by (cases a; cases "the a") (simp_all add: overall_status_def)

text \<open>The status of a connection after some reports.\<close>

definition final :: "bridge_status option \<Rightarrow> string \<Rightarrow> (string \<times> bridge_status) list \<Rightarrow> bridge_status option" where
  "final a name us = (case last_reported name us of None \<Rightarrow> a | s \<Rightarrow> s)"

lemma final_simps [simp]: "final a name [] = a" "final a name ((n, s) # us) = final (if name = n then Some s else a) name us"
  by (auto simp: final_def last_reported_def map_add_def split: option.splits)

definition health_message :: "string \<Rightarrow> bridge_status \<Rightarrow> publish" where
  "health_message t s = (publish_new t AtLeastOnce (status_json s))\<lparr>pb_retain := True\<rparr>"

lemma monitor_turn_state:
  assumes "name \<in> {''local'', ''cloud''}" "a' = final a ''local'' [(name, s)]" "b' = final b ''cloud'' [(name, s)]"
  shows "\<exists>p. monitor_turn (name, s) (monitor_state t a b) = Some (p, monitor_state t a' b')
    \<and> (case p of Some p \<Rightarrow> (\<exists>r. overall_status a' b' = Some r \<and> p = health_message t r) | None \<Rightarrow> overall_status a' b' = overall_status a b)"
  using assms
  by (cases a; cases b) (auto simp: monitor_turn_def monitor_state_def overall_status_def health_message_def Let_def)

text \<open>
  The monitor never panics, and the last message it published tells the overall status, as the two connections reported it last.
\<close>

lemma monitor_run_state:
  assumes "\<forall>u \<in> set us. fst u \<in> {''local'', ''cloud''}"
  shows "\<exists>ps. monitor_run us (monitor_state t a b) = Some (ps, monitor_state t (final a ''local'' us) (final b ''cloud'' us))
    \<and> (if ps = [] then overall_status (final a ''local'' us) (final b ''cloud'' us) = overall_status a b
       else \<exists>r. overall_status (final a ''local'' us) (final b ''cloud'' us) = Some r \<and> last ps = health_message t r)"
  using assms
proof (induction us arbitrary: a b)
  case (Cons u us)
  obtain name s where u: "u = (name, s)" by (cases u)
  let ?a = "final a ''local'' [(name, s)]" and ?b = "final b ''cloud'' [(name, s)]"
  obtain p where p: "monitor_turn (name, s) (monitor_state t a b) = Some (p, monitor_state t ?a ?b)"
    "case p of Some p \<Rightarrow> (\<exists>r. overall_status ?a ?b = Some r \<and> p = health_message t r) | None \<Rightarrow> overall_status ?a ?b = overall_status a b"
    using monitor_turn_state [of name ?a a s ?b b t] Cons.prems u by auto
  obtain ps where ps: "monitor_run us (monitor_state t ?a ?b) = Some (ps, monitor_state t (final ?a ''local'' us) (final ?b ''cloud'' us))"
    "if ps = [] then overall_status (final ?a ''local'' us) (final ?b ''cloud'' us) = overall_status ?a ?b
       else \<exists>r. overall_status (final ?a ''local'' us) (final ?b ''cloud'' us) = Some r \<and> last ps = health_message t r"
    using Cons.IH [of ?a ?b] Cons.prems by auto
  have "final a ''local'' (u # us) = final ?a ''local'' us" "final b ''cloud'' (u # us) = final ?b ''cloud'' us" by (simp_all add: u)
  with p ps show ?case by (cases p) (auto simp: u split: if_splits)
qed simp

lemma health_monitor_truthful:
  assumes "\<forall>u \<in> set us. fst u \<in> {''local'', ''cloud''}" "last_reported ''local'' us = Some x" "last_reported ''cloud'' us = Some y"
  shows "\<exists>ps m. monitor_run us (health_monitor_new t) = Some (ps, m) \<and> ps \<noteq> []
    \<and> last ps = health_message t (if x = Up \<and> y = Up then Up else Down)"
  using monitor_run_state [OF assms(1), of t None None] assms(2,3)
  by (auto simp: monitor_state_def health_monitor_new_def final_def overall_status_def split: if_splits)

end
