(* ===== verification/Bridge_System.thy ===== *)
theory Bridge_System
  imports Bridge "HOL-Library.Multiset"
begin

text \<open>
  The two halves of the bridge with the tasks that publish for them (\<^verbatim>\<open>spawn_publisher\<close>), running at any pace, over two MQTT
  connections.  The steps of a connection are what \<^verbatim>\<open>rumqttc\<close> documents: requests are sent in order, each publication is
  notified with its packet identifier and acknowledged at most once, and sent again, with the same identifier, when the connection
  was lost before.
\<close>

section \<open>State\<close>

text \<open>
  The requests to an MQTT client.  The message a publication was received as is only used in the statements.
\<close>

datatype client_request =
    RequestPublish string qos bool string "publish option"
  | RequestAck publish
  | RequestSubscribe

text \<open>
  One side of the bridge: the half that receives from the broker of this side, what it waits for, the task that publishes for
  it to the other side, and the connection to the broker of this side.  The last fields record what happened: messages
  received, acknowledged without being forwarded, acknowledged through the other side; publications of quality of service 0
  that were sent to this side, and the others that its broker acknowledged; and if a publication of the bridge itself was sent again
  to this side, or a packet identifier was used again before its acknowledgement.
\<close>

record 'e side =
  sd_half :: "'e half_bridge"
  sd_acking :: "publish option"
  sd_task :: "client_request option"
  sd_published :: nat
  sd_acknowledged :: nat
  sd_requests :: "client_request list"
  sd_events :: "mqtt_event list"
  sd_inflight :: "(nat \<times> publish option) list"
  sd_released :: "nat list"
  sd_received :: "publish list"
  sd_dropped :: "publish list"
  sd_acked :: "publish list"
  sd_fired :: "publish list"
  sd_confirmed :: "publish list"
  sd_disturbed :: bool

definition side_new :: "'e half_bridge \<Rightarrow> 'e side" where
  "side_new h = \<lparr>sd_half = h, sd_acking = None, sd_task = None, sd_published = 0, sd_acknowledged = 0, sd_requests = [],
     sd_events = [], sd_inflight = [], sd_released = [], sd_received = [], sd_dropped = [], sd_acked = [], sd_fired = [],
     sd_confirmed = [], sd_disturbed = False\<rparr>"

section \<open>Steps\<close>

text \<open>
  A connection, while the half that polls it is not waiting: a message arrives, a request is sent, a publication is acknowledged,
  a publication is sent again after the connection was lost.  The packet identifier of a publication is a free one, or, as the
  comment in \<^verbatim>\<open>MqttBridgeActorBuilder::new\<close> describes, that of a publication that is not acknowledged yet.
\<close>

inductive connection_step :: "'e side \<Rightarrow> 'e side \<Rightarrow> bool" where
  conn_receive: "sd_acking s = None \<Longrightarrow>
    connection_step s (s\<lparr>sd_events := sd_events s @ [IncomingPublish p], sd_received := sd_received s @ [p]\<rparr>)"
| conn_fire: "sd_acking s = None \<Longrightarrow> sd_requests s = RequestPublish t AtMostOnce r payload origin # rs \<Longrightarrow>
    connection_step s (s\<lparr>sd_requests := rs, sd_events := sd_events s @ [OutgoingPublish 0],
      sd_fired := sd_fired s @ (case origin of Some p \<Rightarrow> [p] | None \<Rightarrow> [])\<rparr>)"
| conn_publish: "sd_acking s = None \<Longrightarrow> sd_requests s = RequestPublish t q r payload origin # rs \<Longrightarrow> q \<noteq> AtMostOnce \<Longrightarrow>
    k \<noteq> 0 \<Longrightarrow> k \<notin> fst ` set (sd_inflight s) \<Longrightarrow> k \<notin> set (sd_released s) \<Longrightarrow>
    connection_step s (s\<lparr>sd_requests := rs, sd_events := sd_events s @ [OutgoingPublish k],
      sd_inflight := (k, origin) # sd_inflight s\<rparr>)"
| conn_collision: "sd_acking s = None \<Longrightarrow> sd_requests s = RequestPublish t q r payload origin # rs \<Longrightarrow> q \<noteq> AtMostOnce \<Longrightarrow>
    k \<in> fst ` set (sd_inflight s) \<union> set (sd_released s) \<Longrightarrow>
    connection_step s (s\<lparr>sd_requests := rs, sd_events := sd_events s @ [OutgoingPublish k],
      sd_inflight := (k, origin) # sd_inflight s, sd_disturbed := True\<rparr>)"
| conn_request: "sd_acking s = None \<Longrightarrow> sd_requests s = req # rs \<Longrightarrow> req = RequestAck p \<or> req = RequestSubscribe \<Longrightarrow>
    connection_step s (s\<lparr>sd_requests := rs, sd_events := sd_events s @ [OtherEvent]\<rparr>)"
| conn_puback: "sd_acking s = None \<Longrightarrow> (k, origin) \<in> set (sd_inflight s) \<Longrightarrow>
    connection_step s (s\<lparr>sd_events := sd_events s @ [IncomingPubAck k],
      sd_inflight := remove1 (k, origin) (sd_inflight s),
      sd_confirmed := sd_confirmed s @ (case origin of Some p \<Rightarrow> [p] | None \<Rightarrow> [])\<rparr>)"
| conn_pubrec: "sd_acking s = None \<Longrightarrow> (k, origin) \<in> set (sd_inflight s) \<Longrightarrow>
    connection_step s (s\<lparr>sd_events := sd_events s @ [IncomingPubRec k],
      sd_inflight := remove1 (k, origin) (sd_inflight s), sd_released := k # sd_released s,
      sd_confirmed := sd_confirmed s @ (case origin of Some p \<Rightarrow> [p] | None \<Rightarrow> [])\<rparr>)"
| conn_pubcomp: "sd_acking s = None \<Longrightarrow>
    connection_step s (s\<lparr>sd_events := sd_events s @ [OtherEvent], sd_released := filter (\<lambda>x. x \<noteq> k) (sd_released s)\<rparr>)"
| conn_resend: "sd_acking s = None \<Longrightarrow> (k, origin) \<in> set (sd_inflight s) \<Longrightarrow>
    connection_step s (s\<lparr>sd_events := sd_events s @ [OutgoingPublish k], sd_disturbed := (sd_disturbed s \<or> origin = None)\<rparr>)"
| conn_notice: "sd_acking s = None \<Longrightarrow> e \<in> {IncomingConnAck, IncomingDisconnect, OtherEvent, OutgoingAwaitAck k} \<Longrightarrow>
    connection_step s (s\<lparr>sd_events := sd_events s @ [e]\<rparr>)"

text \<open>
  A half: it handles an event or a connection error, or ends waiting for the channel of its client, whose capacity is bounded,
  to accept an acknowledgement; its task for subscriptions runs; the monitor of health publishes.
\<close>

inductive half_step :: "rumqttc \<Rightarrow> 'e exponential \<Rightarrow> nat \<Rightarrow> 'e side \<Rightarrow> 'e side \<Rightarrow> bool"
  for L :: rumqttc and B :: "'e exponential" and cap :: nat where
  half_handle: "sd_acking s = None \<Longrightarrow> sd_events s = e # es \<Longrightarrow>
    half_turn L B now (Inr e) (sd_half s) = Some (status, Handled h) \<Longrightarrow>
    half_step L B cap s (s\<lparr>sd_half := h, sd_events := es\<rparr>)"
| half_ack: "sd_acking s = None \<Longrightarrow> sd_events s = e # es \<Longrightarrow>
    half_turn L B now (Inr e) (sd_half s) = Some (status, AckThen p h) \<Longrightarrow>
    half_step L B cap s (s\<lparr>sd_half := h, sd_events := es, sd_acking := Some p\<rparr>)"
| half_error: "sd_acking s = None \<Longrightarrow> half_turn L B now (Inl err) (sd_half s) = Some (status, Handled h) \<Longrightarrow>
    half_step L B cap s (s\<lparr>sd_half := h\<rparr>)"
| half_acked: "sd_acking s = Some p \<Longrightarrow> pb_qos p = AtMostOnce \<or> length (sd_requests s) < cap \<Longrightarrow>
    half_step L B cap s (s\<lparr>sd_acking := None, sd_dropped := sd_dropped s @ [p],
      sd_requests := (if pb_qos p = AtMostOnce then sd_requests s else sd_requests s @ [RequestAck p])\<rparr>)"
| half_subscribe: "hb_subscriptions (sd_half s) = Suc n \<Longrightarrow> length (sd_requests s) < cap \<Longrightarrow>
    half_step L B cap s (s\<lparr>sd_half := (sd_half s)\<lparr>hb_subscriptions := n\<rparr>, sd_requests := sd_requests s @ [RequestSubscribe]\<rparr>)"
| half_internal: "half_step L B cap s (s\<lparr>sd_half := (sd_half s)\<lparr>hb_queue := hb_queue (sd_half s) @ [Pub p]\<rparr>\<rparr>)"

text \<open>
  The task that publishes the messages of the side \<open>a\<close> on the side \<open>s\<close>: it tells the half of \<open>s\<close> which message it publishes,
  then publishes it; or acknowledges on \<open>s\<close> a message that was received there.
\<close>

definition usize_succ :: "nat \<Rightarrow> nat" where
  "usize_succ n = (n + 1) mod 2 ^ 64"

definition bridge_copy :: "string \<Rightarrow> publish \<Rightarrow> publish option \<Rightarrow> client_request" where
  "bridge_copy t p origin = RequestPublish t (pb_qos p) (pb_retain p) (pb_payload p) origin"

inductive publisher_step :: "nat \<Rightarrow> 'e side \<times> 'e side \<Rightarrow> 'e side \<times> 'e side \<Rightarrow> bool" for cap :: nat where
  task_bridge: "sd_task a = None \<Longrightarrow> hb_queue (sd_half a) = BridgePub t p # q \<Longrightarrow> length (hb_rx (sd_half s)) < cap \<Longrightarrow>
    publisher_step cap (a, s)
      (a\<lparr>sd_half := (sd_half a)\<lparr>hb_queue := q\<rparr>, sd_task := Some (bridge_copy t p (Some p))\<rparr>,
       s\<lparr>sd_half := (sd_half s)\<lparr>hb_rx := hb_rx (sd_half s) @ [Some (t, p)]\<rparr>\<rparr>)"
| task_internal: "sd_task a = None \<Longrightarrow> hb_queue (sd_half a) = Pub p # q \<Longrightarrow> length (hb_rx (sd_half s)) < cap \<Longrightarrow>
    publisher_step cap (a, s)
      (a\<lparr>sd_half := (sd_half a)\<lparr>hb_queue := q\<rparr>, sd_task := Some (bridge_copy (pb_topic p) p None)\<rparr>,
       s\<lparr>sd_half := (sd_half s)\<lparr>hb_rx := hb_rx (sd_half s) @ [None]\<rparr>\<rparr>)"
| task_publish: "sd_task a = Some (RequestPublish t q r payload origin) \<Longrightarrow> length (sd_requests s) < cap \<Longrightarrow>
    publisher_step cap (a, s)
      (a\<lparr>sd_task := None, sd_published := (if origin = None then sd_published a else usize_succ (sd_published a))\<rparr>,
       s\<lparr>sd_requests := sd_requests s @ [RequestPublish t q r payload origin]\<rparr>)"
| task_ack: "sd_task a = None \<Longrightarrow> hb_queue (sd_half a) = BridgeAck p # q \<Longrightarrow>
    pb_qos p = AtMostOnce \<or> length (sd_requests s) < cap \<Longrightarrow>
    publisher_step cap (a, s)
      (a\<lparr>sd_half := (sd_half a)\<lparr>hb_queue := q\<rparr>, sd_acknowledged := usize_succ (sd_acknowledged a)\<rparr>,
       s\<lparr>sd_requests := (if pb_qos p = AtMostOnce then sd_requests s else sd_requests s @ [RequestAck p]),
         sd_acked := sd_acked s @ [p]\<rparr>)"

datatype broker = Local | Cloud

fun companion :: "broker \<Rightarrow> broker" where
  "companion Local = Cloud"
| "companion Cloud = Local"

type_synonym 'e bridge = "broker \<Rightarrow> 'e side"

inductive bridge_step :: "rumqttc \<Rightarrow> 'e exponential \<Rightarrow> nat \<Rightarrow> 'e bridge \<Rightarrow> 'e bridge \<Rightarrow> bool"
  for L :: rumqttc and B :: "'e exponential" and cap :: nat where
  step_connection: "connection_step (b x) s \<Longrightarrow> bridge_step L B cap b (b(x := s))"
| step_half: "half_step L B cap (b x) s \<Longrightarrow> bridge_step L B cap b (b(x := s))"
| step_publisher: "publisher_step cap (b x, b (companion x)) (a, s) \<Longrightarrow>
    bridge_step L B cap b (b(x := a, companion x := s))"

definition bridge_new :: "bridge_config \<Rightarrow> 'e custom_backoff \<Rightarrow> 'e bridge" where
  "bridge_new rules c =
     (let ((convert_local, bidir_local), (convert_cloud, bidir_cloud)) = converters_and_bidirectional_topic_filters rules
      in (\<lambda>x. side_new (case x of Local \<Rightarrow> half_bridge_new convert_local bidir_local c
                                 | Cloud \<Rightarrow> half_bridge_new convert_cloud bidir_cloud c)))"

inductive bridge_run :: "rumqttc \<Rightarrow> 'e exponential \<Rightarrow> nat \<Rightarrow> bridge_config \<Rightarrow> 'e custom_backoff \<Rightarrow> 'e bridge \<Rightarrow> bool"
  for L :: rumqttc and B :: "'e exponential" and cap :: nat and rules :: bridge_config
    and c :: "'e custom_backoff" where
  run_start: "bridge_run L B cap rules c (bridge_new rules c)"
| run_step: "bridge_run L B cap rules c b \<Longrightarrow> bridge_step L B cap b b' \<Longrightarrow> bridge_run L B cap rules c b'"

section \<open>What a half does with its events\<close>

text \<open>The messages of the queues of a side.\<close>

fun pubs_of :: "bridge_message list \<Rightarrow> publish list" where
  "pubs_of [] = []"
| "pubs_of (BridgePub t p # q) = p # pubs_of q"
| "pubs_of (_ # q) = pubs_of q"

fun acks_of :: "bridge_message list \<Rightarrow> publish list" where
  "acks_of [] = []"
| "acks_of (BridgeAck p # q) = p # acks_of q"
| "acks_of (_ # q) = acks_of q"

fun incoming :: "mqtt_event list \<Rightarrow> publish list" where
  "incoming [] = []"
| "incoming (IncomingPublish p # es) = p # incoming es"
| "incoming (_ # es) = incoming es"

fun entries :: "client_request list \<Rightarrow> (string \<times> publish) option list" where
  "entries [] = []"
| "entries (RequestPublish t _ _ _ origin # rs) = map_option (Pair t) origin # entries rs"
| "entries (_ # rs) = entries rs"

definition origins :: "(string \<times> publish) option list \<Rightarrow> publish list" where
  "origins xs = concat (map (\<lambda>x. case x of Some (_, p) \<Rightarrow> [p] | None \<Rightarrow> []) xs)"

definition task_list :: "client_request option \<Rightarrow> client_request list" where
  "task_list task = (case task of Some r \<Rightarrow> [r] | None \<Rightarrow> [])"

lemma pubs_of_append [simp]: "pubs_of (q @ q') = pubs_of q @ pubs_of q'"
  by (induction q rule: pubs_of.induct) auto

lemma acks_of_append [simp]: "acks_of (q @ q') = acks_of q @ acks_of q'"
  by (induction q rule: acks_of.induct) auto

lemma incoming_append [simp]: "incoming (es @ es') = incoming es @ incoming es'"
  by (induction es rule: incoming.induct) auto

lemma entries_append [simp]: "entries (rs @ rs') = entries rs @ entries rs'"
  by (induction rs rule: entries.induct) auto

lemma origins_simps [simp]: "origins [] = []" "origins (Some (t, p) # xs) = p # origins xs" "origins (None # xs) = origins xs"
  "origins (xs @ ys) = origins xs @ origins ys"
  by (simp_all add: origins_def)

lemma task_list_simps [simp]: "task_list None = []" "task_list (Some r) = [r]"
  by (simp_all add: task_list_def)

text \<open>
  What the events of a connection do to the messages that wait for an acknowledgement and to the channel from the companion, with
  the messages that get acknowledged.  There is no result when a publication comes without its message.
\<close>

type_synonym pairing = "(nat, publish) hmap \<times> (string \<times> publish) option list"

fun walk_event :: "mqtt_event \<Rightarrow> pairing \<Rightarrow> (pairing \<times> publish list) option" where
  "walk_event (OutgoingPublish k) (w, rx) =
     (if hm_contains w k then Some ((w, rx), [])
      else case rx of
             [] \<Rightarrow> None
           | Some (_, msg) # rx' \<Rightarrow> Some ((if k \<noteq> 0 then hm_insert k msg w else w, rx'), [])
           | None # rx' \<Rightarrow> Some ((w, rx'), []))"
| "walk_event (IncomingPubAck k) (w, rx) =
     (case hm_get w k of Some msg \<Rightarrow> Some ((hm_remove k w, rx), [msg]) | None \<Rightarrow> Some ((w, rx), []))"
| "walk_event (IncomingPubRec k) (w, rx) =
     (case hm_get w k of Some msg \<Rightarrow> Some ((hm_remove k w, rx), [msg]) | None \<Rightarrow> Some ((w, rx), []))"
| "walk_event _ (w, rx) = Some ((w, rx), [])"

fun walk :: "mqtt_event list \<Rightarrow> pairing \<Rightarrow> (pairing \<times> publish list) option" where
  "walk [] x = Some (x, [])"
| "walk (e # es) x =
     (case walk_event e x of None \<Rightarrow> None
      | Some (y, ms) \<Rightarrow> (case walk es y of None \<Rightarrow> None | Some (z, ns) \<Rightarrow> Some (z, ms @ ns)))"

lemma walk_append:
  "walk (es @ es') x = (case walk es x of None \<Rightarrow> None
     | Some (y, ms) \<Rightarrow> (case walk es' y of None \<Rightarrow> None | Some (z, ns) \<Rightarrow> Some (z, ms @ ns)))"
  by (induction es x rule: walk.induct) (auto split: option.splits prod.splits)

lemma walk_event_more:
  "walk_event e (w, rx) = Some ((w', rx'), ms) \<Longrightarrow> walk_event e (w, rx @ ys) = Some ((w', rx' @ ys), ms)"
  by (cases e) (auto split: option.splits if_splits list.splits)

lemma walk_more: "walk es (w, rx) = Some ((w', rx'), ms) \<Longrightarrow> walk es (w, rx @ ys) = Some ((w', rx' @ ys), ms)"
proof (induction es arbitrary: w rx ms)
  case (Cons e es)
  then obtain w1 rx1 ms1 ns where "walk_event e (w, rx) = Some ((w1, rx1), ms1)" "walk es (w1, rx1) = Some ((w', rx'), ns)"
    "ms = ms1 @ ns" by (auto split: option.splits prod.splits)
  with Cons.IH walk_event_more show ?case by fastforce
qed simp

lemma half_event_Handled:
  assumes "half_event L now e h = Some (Handled h')"
  shows "\<exists>acks. walk_event e (hb_waiting h, hb_rx h) = Some ((hb_waiting h', hb_rx h'), acks)
      \<and> acks_of (hb_queue h') = acks_of (hb_queue h) @ acks"
    and "pubs_of (hb_queue h') = pubs_of (hb_queue h) @ incoming [e]"
    and "hb_rules h' = hb_rules h"
    and "\<forall>t p. BridgePub t p \<in> set (hb_queue h') \<longrightarrow>
      BridgePub t p \<in> set (hb_queue h) \<or> convert_topic L (hb_rules h) (pb_topic p) = Some (Some t)"
  using assms
  by (cases e; auto simp: bridge_ack_def ensure_not_looped_def Let_def bind_eq_Some_conv
      split: option.splits prod.splits list.splits if_splits)+

lemma half_event_AckThen:
  assumes "half_event L now e h = Some (AckThen p h')"
  shows "e = IncomingPublish p" "hb_waiting h' = hb_waiting h" "hb_rx h' = hb_rx h" "hb_queue h' = hb_queue h"
    "hb_rules h' = hb_rules h"
  using assms
  by (cases e; auto simp: bridge_ack_def ensure_not_looped_def Let_def bind_eq_Some_conv
      split: option.splits prod.splits list.splits if_splits)+

lemma half_event_AwaitCompanion: "half_event L now e h = Some AwaitCompanion \<Longrightarrow> walk_event e (hb_waiting h, hb_rx h) = None"
  by (cases e) (auto simp: bridge_ack_def ensure_not_looped_def Let_def bind_eq_Some_conv
      split: option.splits prod.splits list.splits if_splits)

text \<open>The fields of a half that matter for the flow of the messages.\<close>

definition same_flow :: "'e half_bridge \<Rightarrow> 'e half_bridge \<Rightarrow> bool" where
  "same_flow h h' \<longleftrightarrow> hb_waiting h' = hb_waiting h \<and> hb_rx h' = hb_rx h \<and> hb_queue h' = hb_queue h \<and> hb_rules h' = hb_rules h"

lemma half_turn_event:
  assumes "half_turn L B now (Inr e) h = Some (status, out)"
  obtains h0 where "same_flow h h0" "half_event L now e h0 = Some out"
proof (rule that)
  let ?h = "snd (bridge_health_update (Inr e) h)"
  show "same_flow h (?h\<lparr>hb_backoff := mark_success now (hb_backoff ?h)\<rparr>)"
    by (simp add: bridge_health_update_def same_flow_def)
  show "half_event L now e (?h\<lparr>hb_backoff := mark_success now (hb_backoff ?h)\<rparr>) = Some out"
    using assms by (auto simp: half_turn_def Let_def split: prod.splits)
qed

lemma half_turn_error:
  assumes "half_turn L B now (Inl err) h = Some (status, Handled h')"
  shows "same_flow h h'"
  using assms by (auto simp: half_turn_def bridge_health_update_def Let_def same_flow_def split: if_splits prod.splits)

section \<open>Invariant\<close>

text \<open>
  The flow of the messages from the side \<open>a\<close> to the side \<open>s\<close>.  The events of \<open>s\<close> pair each packet identifier in flight with the
  message it carries, and what is then left of the channel is what is still to be published.
\<close>

definition waiting_inv :: "(nat, publish) hmap \<Rightarrow> (nat \<times> publish option) list \<Rightarrow> bool" where
  "waiting_inv w inflight \<longleftrightarrow> distinct (map fst inflight) \<and> 0 \<notin> fst ` set inflight
     \<and> (\<forall>k. hm_get w k = (case map_of inflight k of Some origin \<Rightarrow> origin | None \<Rightarrow> None))"

definition pairing_inv :: "'e side \<Rightarrow> 'e side \<Rightarrow> bool" where
  "pairing_inv a s \<longleftrightarrow> (\<exists>w acks.
     walk (sd_events s) (hb_waiting (sd_half s), hb_rx (sd_half s))
       = Some ((w, entries (sd_requests s) @ entries (task_list (sd_task a))), acks)
     \<and> waiting_inv w (sd_inflight s)
     \<and> mset (sd_confirmed s) = mset acks + mset (acks_of (hb_queue (sd_half s))) + mset (sd_acked a))"

definition inflight_origins :: "(nat \<times> publish option) list \<Rightarrow> publish list" where
  "inflight_origins xs = List.map_filter snd xs"

definition conserved :: "'e side \<Rightarrow> 'e side \<Rightarrow> bool" where
  "conserved a s \<longleftrightarrow> mset (sd_received a) =
     mset (incoming (sd_events a)) + mset (case sd_acking a of Some p \<Rightarrow> [p] | None \<Rightarrow> []) + mset (sd_dropped a)
     + mset (pubs_of (hb_queue (sd_half a))) + mset (origins (entries (task_list (sd_task a))))
     + mset (origins (entries (sd_requests s))) + mset (inflight_origins (sd_inflight s)) + mset (sd_fired s) + mset (sd_confirmed s)"

text \<open>A publication that forwards a message has its content, on the topic the rules give.\<close>

definition faithful :: "rumqttc \<Rightarrow> bridge_rule list \<Rightarrow> client_request \<Rightarrow> bool" where
  "faithful L rules req \<longleftrightarrow>
     (case req of
        RequestPublish t q r payload (Some p) \<Rightarrow> req = bridge_copy t p (Some p) \<and> convert_topic L rules (pb_topic p) = Some (Some t)
      | _ \<Rightarrow> True)"

lemma faithful_simps [simp]: "faithful L rules (RequestAck p)" "faithful L rules RequestSubscribe"
  "faithful L rules (bridge_copy t p None)"
  "faithful L rules (bridge_copy t p (Some p)) \<longleftrightarrow> convert_topic L rules (pb_topic p) = Some (Some t)"
  by (simp_all add: faithful_def bridge_copy_def)

definition copies_inv :: "rumqttc \<Rightarrow> bridge_rule list \<Rightarrow> 'e side \<Rightarrow> 'e side \<Rightarrow> bool" where
  "copies_inv L rules a s \<longleftrightarrow> hb_rules (sd_half a) = rules
     \<and> (\<forall>t p. BridgePub t p \<in> set (hb_queue (sd_half a)) \<longrightarrow> convert_topic L rules (pb_topic p) = Some (Some t))
     \<and> (\<forall>req \<in> set (task_list (sd_task a)) \<union> set (sd_requests s). faithful L rules req)"

subsection \<open>Connections\<close>

lemma walk_snoc: "walk es x = Some (y, ms) \<Longrightarrow> walk (es @ [e]) x = (case walk_event e y of None \<Rightarrow> None | Some (z, ns) \<Rightarrow> Some (z, ms @ ns))"
  by (simp add: walk_append split: option.splits prod.splits)

lemma map_filter_simps [simp]: "inflight_origins [] = []"
  "inflight_origins ((k, origin) # xs) = (case origin of Some p \<Rightarrow> p # inflight_origins xs | None \<Rightarrow> inflight_origins xs)"
  by (auto simp: inflight_origins_def List.map_filter_def split: option.splits)

lemma waiting_inv_remove:
  assumes "waiting_inv w inflight" "(k, origin) \<in> set inflight"
  shows "remove1 (k, origin) inflight = filter (\<lambda>x. fst x \<noteq> k) inflight" "hm_get w k = origin" "waiting_inv (hm_remove k w) (filter (\<lambda>x. fst x \<noteq> k) inflight)"
    "waiting_inv w (filter (\<lambda>x. fst x \<noteq> k) inflight) \<or> origin \<noteq> None"
    "mset (inflight_origins inflight) =
       mset (case origin of Some p \<Rightarrow> [p] | None \<Rightarrow> []) + mset (inflight_origins (filter (\<lambda>x. fst x \<noteq> k) inflight))"
proof -
  have "distinct (map fst inflight)" using assms(1) by (simp add: waiting_inv_def)
  with assms(2) show "remove1 (k, origin) inflight = filter (\<lambda>x. fst x \<noteq> k) inflight"
    by (induction inflight) (auto simp: filter_id_conv image_iff intro!: filter_True [symmetric])
  have get: "map_of inflight k = Some origin" using assms by (simp add: waiting_inv_def)
  then show w: "hm_get w k = origin" using assms(1) by (simp add: waiting_inv_def)
  have filt: "map_of (filter (\<lambda>x. fst x \<noteq> k) inflight) j = (if j = k then None else map_of inflight j)" for j
    by (induction inflight) auto
  have dist: "distinct (map fst (filter (\<lambda>x. fst x \<noteq> k) inflight))" "0 \<notin> fst ` set (filter (\<lambda>x. fst x \<noteq> k) inflight)"
    using assms(1) by (auto simp: waiting_inv_def distinct_map_filter)
  show "waiting_inv (hm_remove k w) (filter (\<lambda>x. fst x \<noteq> k) inflight)"
    using assms(1) dist by (auto simp: waiting_inv_def filt delete_conv')
  show "waiting_inv w (filter (\<lambda>x. fst x \<noteq> k) inflight) \<or> origin \<noteq> None"
    using assms(1) dist w by (auto simp: waiting_inv_def filt get)
  show "mset (inflight_origins inflight) =
       mset (case origin of Some p \<Rightarrow> [p] | None \<Rightarrow> []) + mset (inflight_origins (filter (\<lambda>x. fst x \<noteq> k) inflight))"
    using assms(2) assms(1)[unfolded waiting_inv_def, THEN conjunct1]
  proof (induction inflight)
    case (Cons x xs)
    then show ?case
    proof (cases "fst x = k")
      case True
      then have "filter (\<lambda>y. fst y \<noteq> k) xs = xs" using Cons.prems(2) by (auto simp: filter_id_conv image_iff)
      moreover have "x = (k, origin)" using True Cons.prems by (auto simp: image_iff)
      ultimately show ?thesis by (auto split: option.splits)
    next
      case False
      with Cons show ?thesis by (cases x) (auto split: option.splits)
    qed
  qed simp
qed

lemma connection_pairing:
  assumes "connection_step s s'" "pairing_inv a s" "\<not> sd_disturbed s'"
  shows "pairing_inv a s'"
proof -
  obtain w acks where walk: "walk (sd_events s) (hb_waiting (sd_half s), hb_rx (sd_half s))
      = Some ((w, entries (sd_requests s) @ entries (task_list (sd_task a))), acks)"
    and w: "waiting_inv w (sd_inflight s)"
    and conf: "mset (sd_confirmed s) = mset acks + mset (acks_of (hb_queue (sd_half s))) + mset (sd_acked a)"
    using assms(2) unfolding pairing_inv_def by blast
  have zero: "hm_get w 0 = None" using w by (auto simp: waiting_inv_def split: option.splits dest: map_of_SomeD) force
  from assms(1) show ?thesis
  proof cases
    case (conn_receive p)
    then show ?thesis using walk w conf by (auto simp: pairing_inv_def walk_snoc)
  next
    case (conn_fire t r payload origin rs)
    then show ?thesis using walk w conf zero
      by (cases origin) (auto simp: pairing_inv_def walk_snoc hm_contains_iff dom_def)
  next
    case (conn_publish t q r payload origin rs k)
    have new: "hm_get w k = None" using w conn_publish by (auto simp: waiting_inv_def split: option.splits dest: map_of_SomeD) force
    have "waiting_inv (case origin of Some p \<Rightarrow> hm_insert k p w | None \<Rightarrow> w) ((k, origin) # sd_inflight s)"
      using w conn_publish new by (auto simp: waiting_inv_def update_conv' split: option.splits)
    then show ?thesis using walk conf conn_publish new
      by (cases origin) (auto simp: pairing_inv_def walk_snoc hm_contains_iff dom_def)
  next
    case (conn_collision t q r payload origin rs k)
    then show ?thesis using assms(3) by simp
  next
    case (conn_request req rs p)
    then show ?thesis using walk w conf by (auto simp: pairing_inv_def walk_snoc)
  next
    case (conn_puback k origin)
    note r = waiting_inv_remove [OF w conn_puback(3)]
    then show ?thesis using walk conf conn_puback by (cases origin) (auto simp: pairing_inv_def walk_snoc)
  next
    case (conn_pubrec k origin)
    note r = waiting_inv_remove [OF w conn_pubrec(3)]
    then show ?thesis using walk conf conn_pubrec by (cases origin) (auto simp: pairing_inv_def walk_snoc)
  next
    case (conn_pubcomp k)
    then show ?thesis using walk w conf by (auto simp: pairing_inv_def walk_snoc)
  next
    case (conn_resend k origin)
    note r = waiting_inv_remove(2) [OF w conn_resend(3)]
    then show ?thesis using walk w conf conn_resend assms(3) by (auto simp: pairing_inv_def walk_snoc hm_contains_iff dom_def)
  next
    case (conn_notice e k)
    then show ?thesis using walk w conf by (auto simp: pairing_inv_def walk_snoc)
  qed
qed

lemma connection_source:
  assumes "connection_step s s'"
  shows "sd_task s' = sd_task s" "sd_acked s' = sd_acked s" "sd_half s' = sd_half s" "set (sd_requests s') \<subseteq> set (sd_requests s)"
    "conserved s c \<Longrightarrow> conserved s' c" "sd_disturbed s \<Longrightarrow> sd_disturbed s'"
  using assms by (auto elim!: connection_step.cases simp: conserved_def)

lemma connection_conserved:
  assumes "connection_step s s'" "conserved a s" "pairing_inv a s"
  shows "conserved a s'"
proof -
  obtain w where w: "waiting_inv w (sd_inflight s)" using assms(3) by (auto simp: pairing_inv_def)
  from assms(1) show ?thesis
  proof cases
    case (conn_puback k origin)
    note r = waiting_inv_remove(1,5) [OF w conn_puback(3)]
    then show ?thesis using assms(2) conn_puback by (cases origin) (auto simp: conserved_def)
  next
    case (conn_pubrec k origin)
    note r = waiting_inv_remove(1,5) [OF w conn_pubrec(3)]
    then show ?thesis using assms(2) conn_pubrec by (cases origin) (auto simp: conserved_def)
  next
    case (conn_fire t r payload origin rs)
    then show ?thesis using assms(2) by (cases origin) (auto simp: conserved_def)
  next
    case (conn_publish t q r payload origin rs k)
    then show ?thesis using assms(2) by (cases origin) (auto simp: conserved_def)
  next
    case (conn_collision t q r payload origin rs k)
    then show ?thesis using assms(2) by (cases origin) (auto simp: conserved_def)
  next
    case (conn_request req rs p)
    then show ?thesis using assms(2) by (auto simp: conserved_def)
  qed (use assms(2) in \<open>simp_all add: conserved_def\<close>)
qed

subsection \<open>Halves\<close>

lemma half_pairing:
  assumes "half_step L B cap s s'" "pairing_inv a s"
  shows "pairing_inv a s'"
proof -
  obtain w acks where walk: "walk (sd_events s) (hb_waiting (sd_half s), hb_rx (sd_half s))
      = Some ((w, entries (sd_requests s) @ entries (task_list (sd_task a))), acks)"
    and w: "waiting_inv w (sd_inflight s)"
    and conf: "mset (sd_confirmed s) = mset acks + mset (acks_of (hb_queue (sd_half s))) + mset (sd_acked a)"
    using assms(2) unfolding pairing_inv_def by blast
  from assms(1) show ?thesis
  proof cases
    case (half_handle e es now status h)
    obtain h0 where h0: "same_flow (sd_half s) h0" "half_event L now e h0 = Some (Handled h)"
      by (rule half_turn_event [OF half_handle(4)])
    obtain new where new: "walk_event e (hb_waiting h0, hb_rx h0) = Some ((hb_waiting h, hb_rx h), new)"
      "acks_of (hb_queue h) = acks_of (hb_queue h0) @ new" using half_event_Handled(1) [OF h0(2)] by blast
    then obtain rest where "walk es (hb_waiting h, hb_rx h) = Some ((w, entries (sd_requests s) @ entries (task_list (sd_task a))), rest)"
      "acks = new @ rest"
      using walk h0(1) half_handle(3) by (auto simp: same_flow_def split: option.splits prod.splits)
    then show ?thesis using w conf half_handle(1) new(2) h0(1) by (auto simp: pairing_inv_def same_flow_def ac_simps)
  next
    case (half_ack e es now status p h)
    obtain h0 where h0: "same_flow (sd_half s) h0" "half_event L now e h0 = Some (AckThen p h)"
      by (rule half_turn_event [OF half_ack(4)])
    note same = half_event_AckThen [OF h0(2)]
    then have "walk es (hb_waiting h, hb_rx h) = Some ((w, entries (sd_requests s) @ entries (task_list (sd_task a))), acks)"
      using walk h0(1) half_ack(3) by (auto simp: same_flow_def split: option.splits prod.splits)
    then show ?thesis using w conf half_ack(1) same h0(1) by (auto simp: pairing_inv_def same_flow_def)
  next
    case (half_error now err status h)
    then show ?thesis using walk w conf half_turn_error [OF half_error(3)] by (auto simp: pairing_inv_def same_flow_def)
  qed (use walk w conf in \<open>auto simp: pairing_inv_def\<close>)
qed

lemma half_source:
  assumes "half_step L B cap s s'"
  shows "sd_task s' = sd_task s" "sd_acked s' = sd_acked s" "entries (sd_requests s') = entries (sd_requests s)"
    "\<forall>req \<in> set (sd_requests s'). req \<in> set (sd_requests s) \<or> faithful L rules req"
    "sd_inflight s' = sd_inflight s" "sd_fired s' = sd_fired s" "sd_confirmed s' = sd_confirmed s"
    "sd_disturbed s' = sd_disturbed s"
  using assms by (auto elim!: half_step.cases split: if_splits)

lemma half_conserved_source:
  assumes "half_step L B cap s s'" "conserved s c"
  shows "conserved s' c"
  using assms(1)
proof cases
  case (half_handle e es now status h)
  obtain h0 where h0: "same_flow (sd_half s) h0" "half_event L now e h0 = Some (Handled h)"
    by (rule half_turn_event [OF half_handle(4)])
  have "pubs_of (hb_queue h) = pubs_of (hb_queue (sd_half s)) @ incoming [e]" "incoming (sd_events s) = incoming [e] @ incoming es"
    using half_event_Handled(2) [OF h0(2)] h0(1) half_handle(3) incoming_append [of "[e]" es] by (auto simp: same_flow_def)
  then show ?thesis using assms(2) half_handle(1) by (auto simp: conserved_def ac_simps)
next
  case (half_ack e es now status p h)
  obtain h0 where h0: "same_flow (sd_half s) h0" "half_event L now e h0 = Some (AckThen p h)"
    by (rule half_turn_event [OF half_ack(4)])
  have "e = IncomingPublish p" "hb_queue h = hb_queue (sd_half s)"
    using half_event_AckThen [OF h0(2)] h0(1) by (auto simp: same_flow_def)
  then show ?thesis using assms(2) half_ack(1-3) by (auto simp: conserved_def ac_simps)
next
  case (half_error now err status h)
  then show ?thesis using assms(2) half_turn_error [OF half_error(3)] by (auto simp: conserved_def same_flow_def)
qed (use assms(2) in \<open>auto simp: conserved_def ac_simps\<close>)

lemma half_copies:
  assumes "half_step L B cap s s'" "hb_rules (sd_half s) = rules"
    and "\<forall>t p. BridgePub t p \<in> set (hb_queue (sd_half s)) \<longrightarrow> convert_topic L rules (pb_topic p) = Some (Some t)"
  shows "hb_rules (sd_half s') = rules
    \<and> (\<forall>t p. BridgePub t p \<in> set (hb_queue (sd_half s')) \<longrightarrow> convert_topic L rules (pb_topic p) = Some (Some t))"
  using assms(1)
proof cases
  case (half_handle e es now status h)
  obtain h0 where h0: "same_flow (sd_half s) h0" "half_event L now e h0 = Some (Handled h)"
    by (rule half_turn_event [OF half_handle(4)])
  then show ?thesis
    using half_event_Handled(3,4) [OF h0(2)] assms(2,3) half_handle(1) by (auto simp: same_flow_def)
next
  case (half_ack e es now status p h)
  obtain h0 where h0: "same_flow (sd_half s) h0" "half_event L now e h0 = Some (AckThen p h)"
    by (rule half_turn_event [OF half_ack(4)])
  then show ?thesis using half_event_AckThen [OF h0(2)] assms(2,3) half_ack(1) by (auto simp: same_flow_def)
next
  case (half_error now err status h)
  then show ?thesis using assms(2,3) half_turn_error [OF half_error(3)] by (auto simp: same_flow_def)
qed (use assms(2,3) in auto)

subsection \<open>Publishers\<close>

lemma publisher_pairing:
  assumes "publisher_step cap (a, s) (a', s')" "pairing_inv a s"
  shows "pairing_inv a' s'"
proof -
  obtain w acks where walk: "walk (sd_events s) (hb_waiting (sd_half s), hb_rx (sd_half s))
      = Some ((w, entries (sd_requests s) @ entries (task_list (sd_task a))), acks)"
    and w: "waiting_inv w (sd_inflight s)"
    and conf: "mset (sd_confirmed s) = mset acks + mset (acks_of (hb_queue (sd_half s))) + mset (sd_acked a)"
    using assms(2) unfolding pairing_inv_def by blast
  from assms(1) show ?thesis
    using w conf walk walk_more [OF walk] by cases (auto simp: pairing_inv_def bridge_copy_def)
qed

lemma publisher_back:
  assumes "publisher_step cap (a, s) (a', s')"
  shows "pairing_inv s a \<Longrightarrow> pairing_inv s' a'" "conserved s a \<Longrightarrow> conserved s' a'"
    "copies_inv L rules s a \<Longrightarrow> copies_inv L rules s' a'" "sd_disturbed a' = sd_disturbed a" "sd_disturbed s' = sd_disturbed s"
  using assms by (auto elim!: publisher_step.cases simp: pairing_inv_def conserved_def copies_inv_def)

lemma publisher_conserved: "publisher_step cap (a, s) (a', s') \<Longrightarrow> conserved a s \<Longrightarrow> conserved a' s'"
  by (auto elim!: publisher_step.cases simp: conserved_def bridge_copy_def split: option.splits)

lemma publisher_copies: "publisher_step cap (a, s) (a', s') \<Longrightarrow> copies_inv L rules a s \<Longrightarrow> copies_inv L rules a' s'"
  by (auto elim!: publisher_step.cases simp: copies_inv_def split: if_splits)

section \<open>Properties\<close>

lemma companion_simps [simp]: "companion (companion x) = x" "companion x \<noteq> x" "x \<noteq> companion x"
  by (cases x; simp)+

lemma broker_cases: "y = x \<or> y = companion x"
  by (cases x; cases y) auto

fun bridge_rules :: "bridge_config \<Rightarrow> broker \<Rightarrow> bridge_rule list" where
  "bridge_rules rules Local = local_to_remote rules"
| "bridge_rules rules Cloud = remote_to_local rules"

definition flow_inv :: "rumqttc \<Rightarrow> bridge_rule list \<Rightarrow> 'e side \<Rightarrow> 'e side \<Rightarrow> bool" where
  "flow_inv L rules a s \<longleftrightarrow> (\<not> sd_disturbed s \<longrightarrow> pairing_inv a s \<and> conserved a s) \<and> copies_inv L rules a s"

definition bridge_inv :: "rumqttc \<Rightarrow> bridge_config \<Rightarrow> 'e bridge \<Rightarrow> bool" where
  "bridge_inv L rules b \<longleftrightarrow> (\<forall>x. flow_inv L (bridge_rules rules x) (b x) (b (companion x)))"

lemma connection_flow:
  assumes "connection_step s s'"
  shows "flow_inv L rules a s \<Longrightarrow> flow_inv L rules a s'" "flow_inv L rules s c \<Longrightarrow> flow_inv L rules s' c"
proof -
  note same = connection_source [OF assms]
  show "flow_inv L rules a s'" if "flow_inv L rules a s"
    using that connection_pairing [OF assms] connection_conserved [OF assms] same(4,6)
    by (auto simp: flow_inv_def copies_inv_def)
  show "flow_inv L rules s' c" if "flow_inv L rules s c"
    using that same by (simp add: flow_inv_def pairing_inv_def copies_inv_def)
qed

lemma half_flow:
  assumes "half_step L B cap s s'"
  shows "flow_inv L rules a s \<Longrightarrow> flow_inv L rules a s'" "flow_inv L rules s c \<Longrightarrow> flow_inv L rules s' c"
proof -
  note same = half_source [OF assms]
  show "flow_inv L rules a s'" if "flow_inv L rules a s"
    using that half_pairing [OF assms] same(3,5-8) same(4) [of rules]
    by (auto simp: flow_inv_def copies_inv_def conserved_def)
  show "flow_inv L rules s' c" if "flow_inv L rules s c"
    using that same half_conserved_source [OF assms] half_copies [OF assms]
    by (simp add: flow_inv_def pairing_inv_def copies_inv_def)
qed

lemma publisher_flow:
  assumes "publisher_step cap (a, s) (a', s')"
  shows "flow_inv L rules a s \<Longrightarrow> flow_inv L rules a' s'" "flow_inv L rules s a \<Longrightarrow> flow_inv L rules s' a'"
  using publisher_pairing [OF assms] publisher_conserved [OF assms] publisher_copies [OF assms] publisher_back [OF assms]
  by (auto simp: flow_inv_def)

lemma bridge_step_inv:
  assumes "bridge_step L B cap b b'" "bridge_inv L rules b"
  shows "bridge_inv L rules b'"
  unfolding bridge_inv_def
proof
  fix y
  from assms(1) show "flow_inv L (bridge_rules rules y) (b' y) (b' (companion y))"
  proof cases
    case (step_connection x s)
    then show ?thesis using assms(2) broker_cases [of y x] connection_flow [OF step_connection(2)]
      by (auto simp: bridge_inv_def dest: spec [of _ "companion x"])
  next
    case (step_half x s)
    then show ?thesis using assms(2) broker_cases [of y x] half_flow [OF step_half(2)]
      by (auto simp: bridge_inv_def dest: spec [of _ "companion x"])
  next
    case (step_publisher x a s)
    then show ?thesis using assms(2) broker_cases [of y x] publisher_flow [OF step_publisher(2)]
      by (auto simp: bridge_inv_def dest: spec [of _ "companion x"])
  qed
qed

lemma bridge_new_inv: "bridge_inv L rules (bridge_new rules c)"
  unfolding bridge_inv_def
proof
  fix x
  show "flow_inv L (bridge_rules rules x) (bridge_new rules c x) (bridge_new rules c (companion x))"
    by (cases x) (auto simp: flow_inv_def pairing_inv_def conserved_def copies_inv_def waiting_inv_def bridge_new_def side_new_def
        half_bridge_new_def converters_and_bidirectional_topic_filters_def)
qed

lemma bridge_run_inv: "bridge_run L B cap rules c b \<Longrightarrow> bridge_inv L rules b"
  by (induction rule: bridge_run.induct) (auto intro: bridge_new_inv bridge_step_inv)

lemma bridge_run_flow: "bridge_run L B cap rules c b \<Longrightarrow> flow_inv L (bridge_rules rules x) (b x) (b (companion x))"
  using bridge_run_inv unfolding bridge_inv_def by blast

text \<open>Nothing is in progress on a side.\<close>

definition quiet :: "'e side \<Rightarrow> bool" where
  "quiet s \<longleftrightarrow> sd_acking s = None \<and> sd_task s = None \<and> sd_requests s = [] \<and> sd_events s = [] \<and> sd_inflight s = []
     \<and> hb_queue (sd_half s) = []"

text \<open>
  C28. Whatever the pace of the two connections and of the tasks of the bridge, a message is acknowledged to the broker it came from
  only once the other broker has acknowledged its copy, at most as many times as this one was, unless it is not to be
  forwarded; and when nothing is in progress each message received has been dropped as an echo or for want of
  a rule, or sent with quality of service 0, or acknowledged.  This holds as long as the connection to the other broker has neither sent a
  publication of the bridge itself again nor used a packet identifier that was still in use, and as long as this is so of its own connection
  no half waits for its companion in vain.  In any case the copy has the content of the message, on the topic given by the rules.
\<close>

theorem bridge_acks_after_delivery:
  assumes "bridge_run L B cap rules c b"
  shows "(\<not> sd_disturbed (b (companion x)) \<longrightarrow>
        mset (sd_acked (b x)) \<subseteq># mset (sd_confirmed (b (companion x)))
        \<and> (quiet (b x) \<and> quiet (b (companion x)) \<longrightarrow>
             mset (sd_received (b x)) = mset (sd_dropped (b x)) + mset (sd_fired (b (companion x))) + mset (sd_acked (b x))))
    \<and> (\<not> sd_disturbed (b x) \<longrightarrow> (\<forall>e es now status. sd_events (b x) = e # es \<longrightarrow>
         half_turn L B now (Inr e) (sd_half (b x)) \<noteq> Some (status, AwaitCompanion)))
    \<and> (\<forall>req \<in> set (sd_requests (b (companion x))). faithful L (bridge_rules rules x) req)"
proof (intro conjI allI impI)
  let ?a = "b x" and ?s = "b (companion x)"
  have inv: "\<not> sd_disturbed ?s \<Longrightarrow> pairing_inv ?a ?s" "\<not> sd_disturbed ?s \<Longrightarrow> conserved ?a ?s" "copies_inv L (bridge_rules rules x) ?a ?s"
    using bridge_run_flow [OF assms, of x] by (simp_all add: flow_inv_def)
  show "\<forall>req \<in> set (sd_requests ?s). faithful L (bridge_rules rules x) req" using inv(3) by (simp add: copies_inv_def)
  show "half_turn L B now (Inr e) (sd_half ?a) \<noteq> Some (status, AwaitCompanion)"
    if calm: "\<not> sd_disturbed ?a" and ev: "sd_events ?a = e # es" for e es now status
  proof
    assume "half_turn L B now (Inr e) (sd_half ?a) = Some (status, AwaitCompanion)"
    then obtain h0 where "same_flow (sd_half ?a) h0" "half_event L now e h0 = Some AwaitCompanion" by (rule half_turn_event)
    then have "walk_event e (hb_waiting (sd_half ?a), hb_rx (sd_half ?a)) = None"
      using half_event_AwaitCompanion by (fastforce simp: same_flow_def)
    moreover have "pairing_inv ?s ?a" using bridge_run_flow [OF assms, of "companion x"] calm by (simp add: flow_inv_def)
    ultimately show False using ev by (auto simp: pairing_inv_def)
  qed
  assume calm: "\<not> sd_disturbed ?s"
  obtain acks where conf: "mset (sd_confirmed ?s) = mset acks + mset (acks_of (hb_queue (sd_half ?s))) + mset (sd_acked ?a)"
    "sd_events ?s = [] \<Longrightarrow> acks = []" using inv(1) [OF calm] unfolding pairing_inv_def by fastforce
  then show "mset (sd_acked ?a) \<subseteq># mset (sd_confirmed ?s)" by simp
  assume "quiet ?a \<and> quiet ?s"
  then show "mset (sd_received ?a) = mset (sd_dropped ?a) + mset (sd_fired ?s) + mset (sd_acked ?a)"
    using inv(2) [OF calm] conf by (auto simp: quiet_def conserved_def)
qed

subsection \<open>A half that waits for its own client\<close>

definition turned :: "int \<Rightarrow> 'e half_bridge \<Rightarrow> 'e half_bridge" where
  "turned now h = h\<lparr>hb_last_err := None, hb_backoff := mark_success now (hb_backoff h)\<rparr>"

lemma half_turn_eq:
  "half_turn L B now (Inr e) h = map_option (Pair (if hb_last_err h = None then None else Some Up)) (half_event L now e (turned now h))"
proof (cases "hb_last_err h")
  case None
  then have "turned now h = h\<lparr>hb_backoff := mark_success now (hb_backoff h)\<rparr>" by (cases h) (simp add: turned_def)
  then show ?thesis unfolding half_turn_def bridge_health_update_def Let_def by (simp add: None)
next
  case (Some err)
  then show ?thesis by (simp add: half_turn_def bridge_health_update_def Let_def turned_def)
qed

lemma turned_simps [simp]: "hb_rules (turned now h) = hb_rules h" "hb_breaker (turned now h) = hb_breaker h"
  "hb_waiting (turned now h) = hb_waiting h" "hb_received (turned now h) = hb_received h" "hb_published (turned now h) = hb_published h"
  "hb_acknowledged (turned now h) = hb_acknowledged h" "hb_queue (turned now h) = hb_queue h" "hb_rx (turned now h) = hb_rx h"
  "hb_subscriptions (turned now h) = hb_subscriptions h"
  by (simp_all add: turned_def)

lemma half_event_publish:
  assumes "lb_forwarded_messages (hb_breaker h) = []" "convert_topic L (hb_rules h) (pb_topic p) = Some target"
    "hb_received h < 2147483647"
  shows "half_event L now (IncomingPublish p) h = Some (case target of
      Some t \<Rightarrow> Handled (h\<lparr>hb_received := hb_received h + 1, hb_queue := hb_queue h @ [BridgePub t p]\<rparr>) | None \<Rightarrow> AckThen p h)"
proof -
  have "ensure_not_looped now p (hb_breaker h) = (Some p, hb_breaker h)"
    using assms(1) by (cases "hb_breaker h") (simp add: ensure_not_looped_def clean_old_messages_def)
  moreover have "h\<lparr>hb_breaker := hb_breaker h\<rparr> = h" by (cases h) simp
  ultimately show ?thesis using assms(2,3) by (cases target) (simp_all add: i32_succ_def)
qed

definition stuck :: "nat \<Rightarrow> publish \<Rightarrow> 'e side \<Rightarrow> bool" where
  "stuck cap p s \<longleftrightarrow> sd_acking s = Some p \<and> pb_qos p \<noteq> AtMostOnce \<and> cap \<le> length (sd_requests s)"

lemma stuck_step:
  assumes "bridge_step L B cap b b'" "stuck cap p (b y)"
  shows "stuck cap p (b' y)"
  using assms(1)
proof cases
  case (step_connection x s)
  then show ?thesis using assms(2) by (cases "x = y") (auto simp: stuck_def elim!: connection_step.cases)
next
  case (step_half x s)
  then show ?thesis using assms(2) by (cases "x = y") (auto simp: stuck_def elim!: half_step.cases)
next
  case (step_publisher x a s)
  then show ?thesis using assms(2) broker_cases [of y x] by (auto simp: stuck_def elim!: publisher_step.cases)
qed

lemma stuck_forever: "(bridge_step L B cap)\<^sup>*\<^sup>* b b' \<Longrightarrow> stuck cap p (b y) \<Longrightarrow> stuck cap p (b' y)"
  by (induction rule: rtranclp_induct) (auto intro: stuck_step)

text \<open>The local broker is given \<open>n\<close> messages of the cloud that its connection does not send yet.\<close>

definition filled :: "bridge_config \<Rightarrow> nat \<Rightarrow> 'e bridge \<Rightarrow> bool" where
  "filled rules n b \<longleftrightarrow> (\<forall>x. sd_acking (b x) = None \<and> sd_task (b x) = None \<and> sd_events (b x) = [] \<and> hb_queue (sd_half (b x)) = []
       \<and> hb_rules (sd_half (b x)) = bridge_rules rules x \<and> lb_forwarded_messages (hb_breaker (sd_half (b x))) = [] \<and> \<not> sd_disturbed (b x))
     \<and> length (hb_rx (sd_half (b Local))) = n \<and> length (sd_requests (b Local)) = n
     \<and> hb_received (sd_half (b Cloud)) = int n \<and> hb_received (sd_half (b Local)) = 0"

lemma filled_new: "filled rules 0 (bridge_new rules c)"
proof -
  have "\<forall>x. sd_acking (bridge_new rules c x) = None \<and> sd_task (bridge_new rules c x) = None \<and> sd_events (bridge_new rules c x) = []
      \<and> hb_queue (sd_half (bridge_new rules c x)) = [] \<and> hb_rules (sd_half (bridge_new rules c x)) = bridge_rules rules x
      \<and> lb_forwarded_messages (hb_breaker (sd_half (bridge_new rules c x))) = [] \<and> \<not> sd_disturbed (bridge_new rules c x)"
    by (rule allI, rename_tac x, case_tac x) (simp_all add: bridge_new_def side_new_def half_bridge_new_def loop_breaker_new_def
        converters_and_bidirectional_topic_filters_def)
  then show ?thesis
    by (simp add: filled_def bridge_new_def side_new_def half_bridge_new_def converters_and_bidirectional_topic_filters_def)
qed

lemma run_connection:
  "bridge_run L B cap rules c b \<Longrightarrow> connection_step (b x) s \<Longrightarrow> bridge_run L B cap rules c (b(x := s))"
  by (erule run_step, rule step_connection)

lemma run_half: "bridge_run L B cap rules c b \<Longrightarrow> half_step L B cap (b x) s \<Longrightarrow> bridge_run L B cap rules c (b(x := s))"
  by (erule run_step, rule step_half)

lemma run_publisher:
  "bridge_run L B cap rules c b \<Longrightarrow> publisher_step cap (b x, b (companion x)) (a, s) \<Longrightarrow>
     bridge_run L B cap rules c (b(x := a, companion x := s))"
  by (erule run_step, rule step_publisher)

lemma run_turn:
  assumes "bridge_run L B cap rules c b" "sd_acking (b x) = None" "sd_events (b x) = e # es"
    and "half_event L now e (turned now (sd_half (b x))) = Some (Handled h)"
  shows "bridge_run L B cap rules c (b(x := (b x)\<lparr>sd_half := h, sd_events := es\<rparr>))"
  using assms by (intro run_half [OF assms(1)] half_handle [OF assms(2,3)]) (simp add: half_turn_eq)

text \<open>A message of the cloud is received and handed to the task that publishes it locally.\<close>

lemma run_forward:
  assumes "bridge_run L B cap rules c b" "sd_acking (b Cloud) = None" "sd_task (b Cloud) = None" "sd_events (b Cloud) = []"
    and "hb_queue (sd_half (b Cloud)) = []" "lb_forwarded_messages (hb_breaker (sd_half (b Cloud))) = []"
    and "convert_topic L (hb_rules (sd_half (b Cloud))) (pb_topic p) = Some (Some t)" "hb_received (sd_half (b Cloud)) < 2147483647"
    and "length (hb_rx (sd_half (b Local))) < cap"
  shows "bridge_run L B cap rules c (b(
      Cloud := (b Cloud)\<lparr>sd_half := (turned 0 (sd_half (b Cloud)))\<lparr>hb_received := hb_received (sd_half (b Cloud)) + 1\<rparr>,
        sd_received := sd_received (b Cloud) @ [p], sd_task := Some (bridge_copy t p (Some p))\<rparr>,
      Local := (b Local)\<lparr>sd_half := (sd_half (b Local))\<lparr>hb_rx := hb_rx (sd_half (b Local)) @ [Some (t, p)]\<rparr>\<rparr>))"
proof -
  define h where "h = sd_half (b Cloud)"
  define b1 where "b1 = b(Cloud := (b Cloud)\<lparr>sd_events := sd_events (b Cloud) @ [IncomingPublish p], sd_received := sd_received (b Cloud) @ [p]\<rparr>)"
  have "bridge_run L B cap rules c b1"
    unfolding b1_def by (intro run_connection [OF assms(1)] conn_receive assms(2))
  moreover have "half_turn L B 0 (Inr (IncomingPublish p)) (sd_half (b1 Cloud)) = Some (if hb_last_err h = None then None else Some Up,
      Handled ((turned 0 h)\<lparr>hb_received := hb_received h + 1, hb_queue := [BridgePub t p]\<rparr>))"
    using half_event_publish [of "turned 0 h" L p "Some t"] assms by (simp add: b1_def half_turn_eq h_def)
  ultimately have "bridge_run L B cap rules c (b1(Cloud := (b1 Cloud)\<lparr>
      sd_half := (turned 0 h)\<lparr>hb_received := hb_received h + 1, hb_queue := [BridgePub t p]\<rparr>, sd_events := []\<rparr>))"
    (is "bridge_run _ _ _ _ _ ?b2")
    using assms(2,4) by (intro run_half [where x = Cloud] half_handle) (simp_all add: b1_def)
  then have "bridge_run L B cap rules c (?b2(Cloud := (?b2 Cloud)\<lparr>sd_half := (sd_half (?b2 Cloud))\<lparr>hb_queue := []\<rparr>,
        sd_task := Some (bridge_copy t p (Some p))\<rparr>,
      companion Cloud := (?b2 (companion Cloud))\<lparr>sd_half := (sd_half (?b2 (companion Cloud)))\<lparr>
        hb_rx := hb_rx (sd_half (?b2 (companion Cloud))) @ [Some (t, p)]\<rparr>\<rparr>))"
    using assms(3,9) by (intro run_publisher task_bridge) (simp_all add: b1_def)
  also have "?b2(Cloud := (?b2 Cloud)\<lparr>sd_half := (sd_half (?b2 Cloud))\<lparr>hb_queue := []\<rparr>,
        sd_task := Some (bridge_copy t p (Some p))\<rparr>,
      companion Cloud := (?b2 (companion Cloud))\<lparr>sd_half := (sd_half (?b2 (companion Cloud)))\<lparr>
        hb_rx := hb_rx (sd_half (?b2 (companion Cloud))) @ [Some (t, p)]\<rparr>\<rparr>)
    = b(Cloud := (b Cloud)\<lparr>sd_half := (turned 0 (sd_half (b Cloud)))\<lparr>hb_received := hb_received (sd_half (b Cloud)) + 1\<rparr>,
        sd_received := sd_received (b Cloud) @ [p], sd_task := Some (bridge_copy t p (Some p))\<rparr>,
      Local := (b Local)\<lparr>sd_half := (sd_half (b Local))\<lparr>hb_rx := hb_rx (sd_half (b Local)) @ [Some (t, p)]\<rparr>\<rparr>)"
    using assms(4,5) by (simp add: b1_def h_def turned_def fun_eq_iff)
  finally show ?thesis .
qed

lemma filled_Suc:
  fixes p :: publish
  assumes "bridge_run L B cap rules c b" "filled rules n b" "n < cap" "n < 2147483647"
    and "convert_topic L (remote_to_local rules) (pb_topic p) = Some (Some t)"
  shows "\<exists>b'. bridge_run L B cap rules c b' \<and> filled rules (Suc n) b'"
proof -
  let ?b = "b(Cloud := (b Cloud)\<lparr>sd_half := (turned 0 (sd_half (b Cloud)))\<lparr>hb_received := hb_received (sd_half (b Cloud)) + 1\<rparr>,
        sd_received := sd_received (b Cloud) @ [p], sd_task := Some (bridge_copy t p (Some p))\<rparr>,
      Local := (b Local)\<lparr>sd_half := (sd_half (b Local))\<lparr>hb_rx := hb_rx (sd_half (b Local)) @ [Some (t, p)]\<rparr>\<rparr>)"
  have "bridge_run L B cap rules c ?b"
    using assms by (intro run_forward) (simp_all add: filled_def)
  then have "bridge_run L B cap rules c (?b(Cloud := (?b Cloud)\<lparr>sd_task := None, sd_published := usize_succ (sd_published (?b Cloud))\<rparr>,
      companion Cloud := (?b (companion Cloud))\<lparr>sd_requests := sd_requests (?b (companion Cloud)) @ [bridge_copy t p (Some p)]\<rparr>))"
    (is "bridge_run _ _ _ _ _ ?b'")
    using task_publish [of "?b Cloud" t "pb_qos p" "pb_retain p" "pb_payload p" "Some p" "?b (companion Cloud)" cap] assms(2,3)
    by (intro run_publisher) (simp_all add: bridge_copy_def filled_def)
  moreover have "sd_acking (?b' x) = None \<and> sd_task (?b' x) = None \<and> sd_events (?b' x) = [] \<and> hb_queue (sd_half (?b' x)) = []
      \<and> hb_rules (sd_half (?b' x)) = bridge_rules rules x \<and> lb_forwarded_messages (hb_breaker (sd_half (?b' x))) = []
      \<and> \<not> sd_disturbed (?b' x)" for x
    using assms(2) by (cases x) (simp_all add: filled_def)
  then have "filled rules (Suc n) ?b'" unfolding filled_def using assms(2) by (simp add: filled_def)
  ultimately show ?thesis by blast
qed

lemma filled_run:
  fixes p :: publish
  assumes "n \<le> cap" "n < 2147483647" "convert_topic L (remote_to_local rules) (pb_topic p) = Some (Some t)"
  shows "\<exists>b. bridge_run L B cap rules c b \<and> filled rules n b"
  using assms(1,2)
proof (induction n)
  case 0
  show ?case using run_start filled_new by blast
next
  case (Suc n)
  then obtain b where "bridge_run L B cap rules c b" "filled rules n b" by auto
  then show ?case using Suc.prems assms(3) by (intro filled_Suc) simp_all
qed

text \<open>
  C37. A half can wait forever.  It acknowledges a message that it does not forward through the client of the connection it polls
  itself; when the channel of this client is full of messages to publish, the acknowledgement waits for the channel, which
  only the polling empties.
\<close>

theorem bridge_can_deadlock:
  assumes "convert_topic L (remote_to_local rules) t = Some (Some t')" "convert_topic L (local_to_remote rules) u = Some None"
    and "cap < 2147483647"
  shows "\<exists>b p. bridge_run L B cap rules c b \<and> (\<forall>x. \<not> sd_disturbed (b x)) \<and> sd_acking (b Local) = Some p
    \<and> (\<forall>b'. (bridge_step L B cap)\<^sup>*\<^sup>* b b' \<longrightarrow> sd_acking (b' Local) = Some p)"
proof -
  define p where "p = publish_new u AtLeastOnce []"
  have "pb_topic (publish_new t AtLeastOnce []) = t" "pb_topic p = u" "pb_qos p = AtLeastOnce"
    by (simp_all add: publish_new_def p_def)
  with assms obtain b where b: "bridge_run L B cap rules c b" "filled rules cap b"
    using filled_run [of cap cap L rules "publish_new t AtLeastOnce []" t' B c] by auto
  define b1 where "b1 = b(Local := (b Local)\<lparr>sd_events := sd_events (b Local) @ [IncomingPublish p], sd_received := sd_received (b Local) @ [p]\<rparr>)"
  have "bridge_run L B cap rules c b1"
    unfolding b1_def using b(2) by (intro run_connection [OF b(1)] conn_receive) (simp add: filled_def)
  moreover have "half_turn L B 0 (Inr (IncomingPublish p)) (sd_half (b1 Local)) =
      Some (if hb_last_err (sd_half (b Local)) = None then None else Some Up, AckThen p (turned 0 (sd_half (b Local))))"
    using half_event_publish [of "turned 0 (sd_half (b Local))" L p None] b(2) assms(2) \<open>pb_topic p = u\<close>
    by (simp add: b1_def half_turn_eq filled_def)
  ultimately have run: "bridge_run L B cap rules c (b1(Local := (b1 Local)\<lparr>sd_half := turned 0 (sd_half (b Local)),
      sd_events := [], sd_acking := Some p\<rparr>))" (is "bridge_run _ _ _ _ _ ?b2")
    using b(2) by (intro run_half [where x = Local] half_ack) (simp_all add: b1_def filled_def)
  have "stuck cap p (?b2 Local)" using b(2) \<open>pb_qos p = AtLeastOnce\<close> by (simp add: stuck_def b1_def filled_def)
  then have "sd_acking (?b2 Local) = Some p \<and> (\<forall>b'. (bridge_step L B cap)\<^sup>*\<^sup>* ?b2 b' \<longrightarrow> sd_acking (b' Local) = Some p)"
    using stuck_forever unfolding stuck_def by blast
  moreover have "\<forall>x. \<not> sd_disturbed (?b2 x)" using b(2) by (simp add: filled_def b1_def)
  ultimately show ?thesis using run by blast
qed

subsection \<open>A publication of the bridge that is sent again\<close>

lemma half_event_outgoing:
  assumes "hm_get (hb_waiting h) k = None" "k \<noteq> 0" "lb_bidirectional_topics (hb_breaker h) = []" "hb_published h < 2147483647"
  shows "hb_rx h = None # rx \<Longrightarrow> half_event L now (OutgoingPublish k) h = Some (Handled (h\<lparr>hb_rx := rx\<rparr>))"
    "hb_rx h = Some (t, p) # rx \<Longrightarrow> half_event L now (OutgoingPublish k) h =
      Some (Handled (h\<lparr>hb_rx := rx, hb_published := hb_published h + 1, hb_waiting := hm_insert k p (hb_waiting h)\<rparr>))"
  using assms by (auto simp: hm_contains_iff dom_def i32_succ_def forward_on_topic_def is_bidirectional_def)

text \<open>A publication leaves the task of the cloud side, is sent with the packet identifier 1, and the local half is told.\<close>

lemma run_send:
  assumes "bridge_run L B cap rules c b" "sd_task (b Cloud) = Some (RequestPublish u AtLeastOnce r payload origin)"
    and "sd_requests (b Local) = []" "0 < cap" "sd_acking (b Local) = None" "sd_events (b Local) = []"
    and "sd_inflight (b Local) = []" "sd_released (b Local) = []"
    and ev: "half_event L 0 (OutgoingPublish 1) (turned 0 (sd_half (b Local))) = Some (Handled h)"
  shows "\<exists>n. bridge_run L B cap rules c (b(Cloud := (b Cloud)\<lparr>sd_task := None, sd_published := n\<rparr>,
    Local := (b Local)\<lparr>sd_half := h, sd_inflight := [(1, origin)]\<rparr>))"
proof -
  define n where "n = (if origin = None then sd_published (b Cloud) else usize_succ (sd_published (b Cloud)))"
  define b1 where "b1 = b(Cloud := (b Cloud)\<lparr>sd_task := None, sd_published := n\<rparr>,
      companion Cloud := (b (companion Cloud))\<lparr>sd_requests := sd_requests (b (companion Cloud)) @ [RequestPublish u AtLeastOnce r payload origin]\<rparr>)"
  have "bridge_run L B cap rules c b1" unfolding b1_def n_def
    by (intro run_publisher [OF assms(1)] task_publish [OF assms(2)]) (simp add: assms(3,4))
  then have "bridge_run L B cap rules c (b1(Local := (b1 Local)\<lparr>sd_requests := [], sd_events := sd_events (b1 Local) @ [OutgoingPublish 1],
      sd_inflight := (1, origin) # sd_inflight (b1 Local)\<rparr>))" (is "bridge_run _ _ _ _ _ ?b2")
    using assms by (intro run_connection conn_publish [where t = u and q = AtLeastOnce and r = r and payload = payload]) (simp_all add: b1_def)
  then have "bridge_run L B cap rules c (?b2(Local := (?b2 Local)\<lparr>sd_half := h, sd_events := []\<rparr>))"
    using assms by (intro run_turn [where now = 0 and e = "OutgoingPublish 1"]) (simp_all add: b1_def)
  also have "?b2(Local := (?b2 Local)\<lparr>sd_half := h, sd_events := []\<rparr>) = b(Cloud := (b Cloud)\<lparr>sd_task := None, sd_published := n\<rparr>,
      Local := (b Local)\<lparr>sd_half := h, sd_inflight := [(1, origin)]\<rparr>)"
    using assms(3,6,7) by (cases "b Local") (simp add: b1_def fun_eq_iff)
  finally show ?thesis by blast
qed

text \<open>The local broker acknowledges this publication, and so does the bridge the message its local half has paired it with.\<close>

lemma run_ack:
  assumes "bridge_run L B cap rules c b" "sd_acking (b Local) = None" "sd_events (b Local) = []" "sd_inflight (b Local) = [(1, origin)]"
    and ev: "half_event L 0 (IncomingPubAck 1) (turned 0 (sd_half (b Local))) = Some (Handled h)"
    and "hb_queue h = [BridgeAck p]" "pb_qos p = AtLeastOnce" "sd_task (b Local) = None" "sd_requests (b Cloud) = []" "0 < cap"
  shows "\<exists>n. bridge_run L B cap rules c (b(
    Local := (b Local)\<lparr>sd_half := h\<lparr>hb_queue := []\<rparr>, sd_acknowledged := n, sd_inflight := [],
      sd_confirmed := sd_confirmed (b Local) @ (case origin of Some p \<Rightarrow> [p] | None \<Rightarrow> [])\<rparr>,
    Cloud := (b Cloud)\<lparr>sd_requests := [RequestAck p], sd_acked := sd_acked (b Cloud) @ [p]\<rparr>))"
proof -
  define n where "n = usize_succ (sd_acknowledged (b Local))"
  define b1 where "b1 = b(Local := (b Local)\<lparr>sd_events := sd_events (b Local) @ [IncomingPubAck 1],
      sd_inflight := remove1 (1, origin) (sd_inflight (b Local)),
      sd_confirmed := sd_confirmed (b Local) @ (case origin of Some p \<Rightarrow> [p] | None \<Rightarrow> [])\<rparr>)"
  have "bridge_run L B cap rules c b1" unfolding b1_def
    by (intro run_connection [OF assms(1)] conn_puback assms(2)) (simp add: assms(4))
  then have "bridge_run L B cap rules c (b1(Local := (b1 Local)\<lparr>sd_half := h, sd_events := []\<rparr>))" (is "bridge_run _ _ _ _ _ ?b2")
    using assms by (intro run_turn [where now = 0 and e = "IncomingPubAck 1"]) (simp_all add: b1_def)
  moreover have "publisher_step cap (?b2 Local, ?b2 (companion Local))
      ((?b2 Local)\<lparr>sd_half := (sd_half (?b2 Local))\<lparr>hb_queue := []\<rparr>, sd_acknowledged := usize_succ (sd_acknowledged (?b2 Local))\<rparr>,
       (?b2 (companion Local))\<lparr>sd_requests := (if pb_qos p = AtMostOnce then sd_requests (?b2 (companion Local))
          else sd_requests (?b2 (companion Local)) @ [RequestAck p]), sd_acked := sd_acked (?b2 (companion Local)) @ [p]\<rparr>)"
    using assms(6-10) by (intro task_ack) (simp_all add: b1_def)
  ultimately have "bridge_run L B cap rules c (?b2(
      Local := (?b2 Local)\<lparr>sd_half := (sd_half (?b2 Local))\<lparr>hb_queue := []\<rparr>, sd_acknowledged := usize_succ (sd_acknowledged (?b2 Local))\<rparr>,
      companion Local := (?b2 (companion Local))\<lparr>sd_requests := (if pb_qos p = AtMostOnce then sd_requests (?b2 (companion Local))
          else sd_requests (?b2 (companion Local)) @ [RequestAck p]), sd_acked := sd_acked (?b2 (companion Local)) @ [p]\<rparr>))"
    (is "bridge_run _ _ _ _ _ ?b3") by (rule run_publisher)
  also have "?b3 = b(Local := (b Local)\<lparr>sd_half := h\<lparr>hb_queue := []\<rparr>, sd_acknowledged := n, sd_inflight := [],
      sd_confirmed := sd_confirmed (b Local) @ (case origin of Some p \<Rightarrow> [p] | None \<Rightarrow> [])\<rparr>,
    Cloud := (b Cloud)\<lparr>sd_requests := [RequestAck p], sd_acked := sd_acked (b Cloud) @ [p]\<rparr>)"
    using assms(3,4,7,9) by (cases "b Local") (simp add: b1_def n_def fun_eq_iff)
  finally show ?thesis by blast
qed

lemma bridge_new_side:
  "bidirectional_topics rules = [] \<Longrightarrow> bridge_new rules c x = side_new (half_bridge_new (bridge_rules rules x) [] c)"
  by (cases x) (simp_all add: bridge_new_def converters_and_bidirectional_topic_filters_def)

lemmas start_simps = bridge_new_side side_new_def half_bridge_new_def loop_breaker_new_def

text \<open>The local half has seen the publication 1 of the bridge itself, which is not acknowledged yet.\<close>

definition own_in_flight :: "bridge_config \<Rightarrow> 'e bridge \<Rightarrow> bool" where
  "own_in_flight rules b \<longleftrightarrow>
     sd_acking (b Cloud) = None \<and> sd_task (b Cloud) = None \<and> sd_events (b Cloud) = [] \<and> hb_queue (sd_half (b Cloud)) = []
     \<and> lb_forwarded_messages (hb_breaker (sd_half (b Cloud))) = [] \<and> hb_rules (sd_half (b Cloud)) = remote_to_local rules
     \<and> hb_received (sd_half (b Cloud)) = 0 \<and> sd_requests (b Cloud) = [] \<and> sd_acked (b Cloud) = []
     \<and> sd_acking (b Local) = None \<and> sd_task (b Local) = None \<and> sd_events (b Local) = [] \<and> hb_queue (sd_half (b Local)) = []
     \<and> hb_rx (sd_half (b Local)) = [] \<and> hb_waiting (sd_half (b Local)) = [] \<and> lb_bidirectional_topics (hb_breaker (sd_half (b Local))) = []
     \<and> hb_published (sd_half (b Local)) = 0 \<and> hb_acknowledged (sd_half (b Local)) = 0
     \<and> sd_requests (b Local) = [] \<and> sd_confirmed (b Local) = [] \<and> sd_inflight (b Local) = [(1, None)]"

lemma own_in_flight_run:
  assumes "bidirectional_topics rules = []" "0 < cap"
  shows "\<exists>b. bridge_run L B cap rules c b \<and> own_in_flight rules b"
proof -
  let ?p = "publish_new [] AtLeastOnce []"
  define b0 where "b0 = bridge_new rules c"
  have "bridge_run L B cap rules c (b0(Cloud := (b0 Cloud)\<lparr>sd_half := (sd_half (b0 Cloud))\<lparr>hb_queue := hb_queue (sd_half (b0 Cloud)) @ [Pub ?p]\<rparr>\<rparr>))"
    (is "bridge_run _ _ _ _ _ ?b1")
    unfolding b0_def by (intro run_half [OF run_start] half_internal)
  then have "bridge_run L B cap rules c (?b1(
      Cloud := (?b1 Cloud)\<lparr>sd_half := (sd_half (?b1 Cloud))\<lparr>hb_queue := []\<rparr>, sd_task := Some (bridge_copy (pb_topic ?p) ?p None)\<rparr>,
      companion Cloud := (?b1 (companion Cloud))\<lparr>sd_half := (sd_half (?b1 (companion Cloud)))\<lparr>hb_rx := hb_rx (sd_half (?b1 (companion Cloud))) @ [None]\<rparr>\<rparr>))"
    (is "bridge_run _ _ _ _ _ ?b2")
    using assms by (intro run_publisher task_internal) (simp_all add: b0_def start_simps)
  moreover have "half_event L 0 (OutgoingPublish 1) (turned 0 (sd_half (?b2 Local))) = Some (Handled ((turned 0 (sd_half (?b2 Local)))\<lparr>hb_rx := []\<rparr>))"
    using assms(1) by (intro half_event_outgoing(1)) (simp_all add: b0_def start_simps)
  ultimately obtain n where "bridge_run L B cap rules c (?b2(Cloud := (?b2 Cloud)\<lparr>sd_task := None, sd_published := n\<rparr>,
      Local := (?b2 Local)\<lparr>sd_half := (turned 0 (sd_half (?b2 Local)))\<lparr>hb_rx := []\<rparr>, sd_inflight := [(1, None)]\<rparr>))"
    (is "bridge_run _ _ _ _ _ ?b3")
    using run_send [of L B cap rules c ?b2 "[]" False "[]" None "(turned 0 (sd_half (?b2 Local)))\<lparr>hb_rx := []\<rparr>"] assms
    by (auto simp: b0_def start_simps bridge_copy_def publish_new_def)
  moreover have "own_in_flight rules ?b3" using assms(1) by (simp add: own_in_flight_def b0_def start_simps)
  ultimately show ?thesis by blast
qed

text \<open>
  C38. When the connection sends a publication of the bridge itself again, as it does after a reconnection, the half takes it for the next
  message of the cloud: this message is acknowledged to the cloud when the broker acknowledges the other publication, before its own
  copy is sent.
\<close>

theorem own_resend_acks_early:
  assumes "bidirectional_topics rules = []" "convert_topic L (remote_to_local rules) t = Some (Some t')" "0 < cap"
  shows "\<exists>b p. bridge_run L B cap rules c b \<and> sd_acked (b Cloud) = [p] \<and> pb_qos p = AtLeastOnce
    \<and> sd_confirmed (b Local) = [] \<and> sd_inflight (b Local) = [] \<and> sd_requests (b Local) = []"
proof -
  define p where "p = publish_new t AtLeastOnce []"
  have p: "pb_topic p = t" "pb_qos p = AtLeastOnce" by (simp_all add: p_def publish_new_def)
  obtain b0 where run: "bridge_run L B cap rules c b0" and "own_in_flight rules b0" using own_in_flight_run [OF assms(1,3)] by blast
  note own = this(2) [unfolded own_in_flight_def]
  define b1 where "b1 = b0(
      Cloud := (b0 Cloud)\<lparr>sd_half := (turned 0 (sd_half (b0 Cloud)))\<lparr>hb_received := hb_received (sd_half (b0 Cloud)) + 1\<rparr>,
        sd_received := sd_received (b0 Cloud) @ [p], sd_task := Some (bridge_copy t' p (Some p))\<rparr>,
      Local := (b0 Local)\<lparr>sd_half := (sd_half (b0 Local))\<lparr>hb_rx := hb_rx (sd_half (b0 Local)) @ [Some (t', p)]\<rparr>\<rparr>)"
  have "bridge_run L B cap rules c b1" unfolding b1_def
    using own assms(2,3) p(1) by (intro run_forward [OF run]) simp_all
  then have run2: "bridge_run L B cap rules c (b1(Local := (b1 Local)\<lparr>sd_events := sd_events (b1 Local) @ [OutgoingPublish 1],
      sd_disturbed := (sd_disturbed (b1 Local) \<or> None = (None :: publish option))\<rparr>))"
    (is "bridge_run _ _ _ _ _ ?b2") using own by (intro run_connection conn_resend [where origin = None]) (auto simp: b1_def)
  define h where "h = (turned 0 (sd_half (b1 Local)))\<lparr>hb_rx := [], hb_published := 1, hb_waiting := [(1, p)]\<rparr>"
  have ev: "half_event L 0 (OutgoingPublish 1) (turned 0 (sd_half (?b2 Local))) = Some (Handled h)"
    using half_event_outgoing(2) [of "turned 0 (sd_half (b1 Local))" 1 t' p "[]" L 0] own by (simp add: b1_def h_def)
  have run3: "bridge_run L B cap rules c (?b2(Local := (?b2 Local)\<lparr>sd_half := h, sd_events := []\<rparr>))" (is "bridge_run _ _ _ _ _ ?b3")
    using own by (intro run_turn [OF run2 _ _ ev]) (simp_all add: b1_def)
  define k where "k = (turned 0 h)\<lparr>hb_waiting := [], hb_acknowledged := 1, hb_queue := [BridgeAck p]\<rparr>"
  have "half_event L 0 (IncomingPubAck 1) (turned 0 h) = Some (Handled k)"
    using own by (simp add: bridge_ack_def i32_succ_def h_def k_def b1_def)
  then obtain n where "bridge_run L B cap rules c (?b3(
      Local := (?b3 Local)\<lparr>sd_half := k\<lparr>hb_queue := []\<rparr>, sd_acknowledged := n, sd_inflight := [], sd_confirmed := sd_confirmed (?b3 Local) @ []\<rparr>,
      Cloud := (?b3 Cloud)\<lparr>sd_requests := [RequestAck p], sd_acked := sd_acked (?b3 Cloud) @ [p]\<rparr>))" (is "bridge_run _ _ _ _ _ ?b4")
    using run_ack [OF run3, of None k p] own p(2) assms(3) by (auto simp: k_def b1_def)
  moreover have "sd_acked (?b4 Cloud) = [p] \<and> sd_confirmed (?b4 Local) = [] \<and> sd_inflight (?b4 Local) = [] \<and> sd_requests (?b4 Local) = []"
    using own by (simp add: b1_def)
  ultimately show ?thesis using p(2) by blast
qed

section \<open>Examples\<close>

text \<open>One rule from the cloud.\<close>

definition one_rule :: bridge_config where
  "one_rule = \<lparr>local_to_remote = [], remote_to_local = [\<lparr>br_topic_filter = ''in'', br_prefix_to_remove = [], br_prefix_to_add = ''out/''\<rparr>],
     bidirectional_topics = []\<rparr>"

definition no_delay :: "unit exponential" where
  "no_delay = \<lparr>eb_reset = (\<lambda>_ e. e), eb_next_backoff = (\<lambda>_ e. (Some 0, e))\<rparr>"

definition no_backoff :: "unit custom_backoff" where
  "no_backoff = custom_backoff_new () 0"

lemma one_rule_simps [simp]: "local_to_remote one_rule = []" "bidirectional_topics one_rule = []"
  "convert_topic level_mqtt (remote_to_local one_rule) ''in'' = Some (Some ''out/in'')"
  by (simp_all add: one_rule_def bridge_rule_apply_def matches_ignore_dollar_prefix_def str_slice_def is_char_boundary_def
      continuation_def level_mqtt_def)

theorem bridge_can_deadlock_witness:
  "\<exists>b p. bridge_run level_mqtt no_delay 100 one_rule no_backoff b \<and> (\<forall>x. \<not> sd_disturbed (b x)) \<and> sd_acking (b Local) = Some p
    \<and> (\<forall>b'. (bridge_step level_mqtt no_delay 100)\<^sup>*\<^sup>* b b' \<longrightarrow> sd_acking (b' Local) = Some p)"
  by (rule bridge_can_deadlock [where t = "''in''" and t' = "''out/in''" and u = "''x''"]) simp_all

theorem own_resend_acks_early_witness:
  "\<exists>b p. bridge_run level_mqtt no_delay 100 one_rule no_backoff b \<and> sd_acked (b Cloud) = [p] \<and> pb_qos p = AtLeastOnce
    \<and> sd_confirmed (b Local) = [] \<and> sd_inflight (b Local) = [] \<and> sd_requests (b Local) = []"
  by (rule own_resend_acks_early [where t = "''in''" and t' = "''out/in''"]) simp_all

text \<open>A message of the cloud on its way through the bridge and back.\<close>

lemma ack_sent_run:
  assumes run: "bridge_run L B cap rules c b" and idle: "sd_acking (b Cloud) = None" "sd_events (b Cloud) = []"
    "sd_requests (b Cloud) = [RequestAck p]" "sd_task (b Cloud) = None" "hb_queue (sd_half (b Cloud)) = []" "sd_inflight (b Cloud) = []"
    "sd_received (b Cloud) = [p]" "sd_acked (b Cloud) = [p]" "quiet (b Local)" "\<not> sd_disturbed (b Local)"
  shows "\<exists>b. bridge_run L B cap rules c b \<and> \<not> sd_disturbed (b Local) \<and> quiet (b Cloud) \<and> quiet (b Local) \<and> sd_received (b Cloud) = [p] \<and> sd_acked (b Cloud) = [p]"
proof -
  have run1: "bridge_run L B cap rules c (b(Cloud := (b Cloud)\<lparr>sd_requests := [], sd_events := sd_events (b Cloud) @ [OtherEvent]\<rparr>))"
    (is "bridge_run _ _ _ _ _ ?b1")
    by (intro run_connection [OF run] conn_request [OF idle(1,3)]) simp
  have ev: "half_event L 0 OtherEvent (turned 0 (sd_half (?b1 Cloud))) = Some (Handled (turned 0 (sd_half (?b1 Cloud))))" by simp
  have "bridge_run L B cap rules c (?b1(Cloud := (?b1 Cloud)\<lparr>sd_half := turned 0 (sd_half (?b1 Cloud)), sd_events := []\<rparr>))"
    (is "bridge_run _ _ _ _ _ ?b2") by (intro run_turn [OF run1 _ _ ev]) (simp_all add: idle)
  moreover have "\<not> sd_disturbed (?b2 Local) \<and> quiet (?b2 Cloud) \<and> quiet (?b2 Local) \<and> sd_received (?b2 Cloud) = [p] \<and> sd_acked (?b2 Cloud) = [p]"
    using idle by (simp add: quiet_def)
  ultimately show ?thesis by blast
qed

lemma delivery_run:
  assumes "bidirectional_topics rules = []" "convert_topic L (remote_to_local rules) t = Some (Some t')" "0 < cap"
    and p: "p = publish_new t AtLeastOnce []"
  shows "\<exists>b. bridge_run L B cap rules c b \<and> \<not> sd_disturbed (b Local) \<and> quiet (b Cloud) \<and> quiet (b Local) \<and> sd_received (b Cloud) = [p] \<and> sd_acked (b Cloud) = [p]"
proof -
  have q: "pb_qos p = AtLeastOnce" "pb_topic p = t" "pb_payload p = []" "pb_retain p = False" by (simp_all add: p publish_new_def)
  define b0 where "b0 = bridge_new rules c"
  have run: "bridge_run L B cap rules c (b0(
      Cloud := (b0 Cloud)\<lparr>sd_half := (turned 0 (sd_half (b0 Cloud)))\<lparr>hb_received := hb_received (sd_half (b0 Cloud)) + 1\<rparr>,
        sd_received := sd_received (b0 Cloud) @ [p], sd_task := Some (bridge_copy t' p (Some p))\<rparr>,
      Local := (b0 Local)\<lparr>sd_half := (sd_half (b0 Local))\<lparr>hb_rx := hb_rx (sd_half (b0 Local)) @ [Some (t', p)]\<rparr>\<rparr>))" (is "bridge_run _ _ _ _ _ ?b1")
    unfolding b0_def using assms(1-3) q by (intro run_forward [OF run_start]) (simp_all add: start_simps)
  define h where "h = (turned 0 (sd_half (?b1 Local)))\<lparr>hb_rx := [], hb_published := 1, hb_waiting := [(1, p)]\<rparr>"
  have "half_event L 0 (OutgoingPublish 1) (turned 0 (sd_half (?b1 Local))) = Some (Handled h)"
    using half_event_outgoing(2) [of "turned 0 (sd_half (?b1 Local))" 1 t' p "[]" L 0] assms(1) by (simp add: h_def b0_def start_simps)
  then obtain n where run2: "bridge_run L B cap rules c (?b1(Cloud := (?b1 Cloud)\<lparr>sd_task := None, sd_published := n\<rparr>,
      Local := (?b1 Local)\<lparr>sd_half := h, sd_inflight := [(1, Some p)]\<rparr>))" (is "bridge_run _ _ _ _ _ ?b2")
    using run_send [OF run, of t' False "[]" "Some p" h] assms(1,3) q by (auto simp: b0_def start_simps bridge_copy_def)
  define k where "k = (turned 0 h)\<lparr>hb_waiting := [], hb_acknowledged := 1, hb_queue := [BridgeAck p]\<rparr>"
  have "half_event L 0 (IncomingPubAck 1) (turned 0 h) = Some (Handled k)"
    using assms(1) by (simp add: bridge_ack_def i32_succ_def h_def k_def b0_def start_simps)
  moreover have "sd_acking (?b2 Local) = None" "sd_events (?b2 Local) = []" "sd_inflight (?b2 Local) = [(1, Some p)]" "sd_half (?b2 Local) = h"
    "sd_task (?b2 Local) = None" "sd_requests (?b2 Cloud) = []" "hb_queue k = [BridgeAck p]"
    using assms(1) by (simp_all add: b0_def start_simps k_def)
  ultimately obtain m where run3: "bridge_run L B cap rules c (?b2(
      Local := (?b2 Local)\<lparr>sd_half := k\<lparr>hb_queue := []\<rparr>, sd_acknowledged := m, sd_inflight := [], sd_confirmed := sd_confirmed (?b2 Local) @ [p]\<rparr>,
      Cloud := (?b2 Cloud)\<lparr>sd_requests := [RequestAck p], sd_acked := sd_acked (?b2 Cloud) @ [p]\<rparr>))" (is "bridge_run _ _ _ _ _ ?b3")
    using run_ack [OF run2, of "Some p" k p] assms(3) q(1) by (auto simp only: option.case)
  define b3 where "b3 = ?b3"
  have "bridge_run L B cap rules c b3" using run3 by (simp only: b3_def)
  moreover have "sd_acking (b3 Cloud) = None" "sd_events (b3 Cloud) = []" "sd_requests (b3 Cloud) = [RequestAck p]" "sd_task (b3 Cloud) = None"
    "hb_queue (sd_half (b3 Cloud)) = []" "sd_inflight (b3 Cloud) = []" "sd_received (b3 Cloud) = [p]" "sd_acked (b3 Cloud) = [p]"
    "quiet (b3 Local)" "\<not> sd_disturbed (b3 Local)"
    using assms(1) by (simp_all add: b3_def b0_def start_simps quiet_def)
  ultimately show ?thesis by (rule ack_sent_run)
qed

theorem bridge_acks_after_delivery_witness:
  "\<exists>b. bridge_run level_mqtt no_delay 100 one_rule no_backoff b \<and> \<not> sd_disturbed (b Local) \<and> quiet (b Cloud) \<and> quiet (b Local)
    \<and> publish_new ''in'' AtLeastOnce [] \<in># mset (sd_confirmed (b Local))
    \<and> mset (sd_received (b Cloud)) = mset (sd_dropped (b Cloud)) + mset (sd_fired (b Local)) + mset (sd_acked (b Cloud))"
proof -
  obtain b where b: "bridge_run level_mqtt no_delay 100 one_rule no_backoff b" "quiet (b Cloud)" "quiet (b Local)" "\<not> sd_disturbed (b Local)"
    "sd_acked (b Cloud) = [publish_new ''in'' AtLeastOnce []]"
    using delivery_run [of one_rule level_mqtt "''in''" "''out/in''" 100 "publish_new ''in'' AtLeastOnce []" no_delay no_backoff] by auto
  then show ?thesis using bridge_acks_after_delivery [OF b(1), of Cloud] by auto
qed

end
