(* ===== verification/Health.thy ===== *)
theory Health
  imports Telemetry_Mappers Cloud_Measurements Cloud_Alarms
begin

text \<open>
  The health of the services: the messages a service publishes and how they are read
  (\<^verbatim>\<open>tedge_api/src/health.rs\<close>), and what the Cumulocity mapper makes of them
  (\<^verbatim>\<open>c8y_mapper_ext/src/service_monitor.rs\<close>).  The bytes of a payload are read by \<^verbatim>\<open>serde_json\<close> into the derived
  deserializers of the source: the reader is a parameter that gives a value with the entries of its objects in
  the order of the text, repeated keys included.
\<close>

section \<open>Values as they are written\<close>

datatype jraw =
    RNull
  | RBool bool
  | RNumber jnumber
  | RString string
  | RArray "jraw list"
  | RObject "(string \<times> jraw) list"

fun raw_of_json :: "json \<Rightarrow> jraw" where
  "raw_of_json JNull = RNull"
| "raw_of_json (JBool b) = RBool b"
| "raw_of_json (JNumber n) = RNumber n"
| "raw_of_json (JString s) = RString s"
| "raw_of_json (JArray vs) = RArray (map raw_of_json vs)"
| "raw_of_json (JObject m) = RObject (map (\<lambda>(k, v). (k, raw_of_json v)) m)"

text \<open>The reader gives back the values that are printed, entry by entry.\<close>

definition raw_rule :: "serde \<Rightarrow> (string \<Rightarrow> jraw option) \<Rightarrow> bool" where
  "raw_rule J R \<longleftrightarrow> (\<forall>v. json_wf v \<longrightarrow> R (json_to_text J v) = Some (raw_of_json v))"

lemma raw_ruleD: "raw_rule J R \<Longrightarrow> json_wf v \<Longrightarrow> R (json_to_text J v) = Some (raw_of_json v)"
  by (simp add: raw_rule_def)

section \<open>Status\<close>

datatype status = Up | Down | Other string

definition status_default :: status where
  "status_default = Other ''unknown''"

text \<open>
  \<^verbatim>\<open>Deserialize for Status\<close>: a variant by its name, or as an object that maps its name to null; any other text is an
  \<^verbatim>\<open>Other\<close> value.
\<close>

fun status_of_variant :: "string \<Rightarrow> status option" where
  "status_of_variant v = (if v = ''up'' then Some Up else if v = ''down'' then Some Down else None)"

fun status_of_raw :: "jraw \<Rightarrow> status option" where
  "status_of_raw (RString s) = Some (case status_of_variant s of Some st \<Rightarrow> st | None \<Rightarrow> Other s)"
| "status_of_raw (RObject [(k, RNull)]) = status_of_variant k"
| "status_of_raw _ = None"

text \<open>\<^verbatim>\<open>Deserialize for HealthStatus\<close>: a structure with one field, as an object or as an array.\<close>

fun health_status_of_raw :: "jraw \<Rightarrow> status option" where
  "health_status_of_raw (RObject es) =
     (case filter (\<lambda>(k, v). k = ''status'') es of [(k, v)] \<Rightarrow> status_of_raw v | _ \<Rightarrow> None)"
| "health_status_of_raw (RArray [v]) = status_of_raw v"
| "health_status_of_raw _ = None"

definition read_health_status :: "(string \<Rightarrow> jraw option) \<Rightarrow> mqtt_message \<Rightarrow> status" where
  "read_health_status R m = (case R (mm_payload m) \<bind> health_status_of_raw of Some st \<Rightarrow> st | None \<Rightarrow> status_default)"

fun status_to_str :: "status \<Rightarrow> string" where
  "status_to_str Up = ''up''"
| "status_to_str Down = ''down''"
| "status_to_str (Other v) = (if v = [] then ''unknown'' else v)"

definition status_is_valid :: "status \<Rightarrow> bool" where
  "status_is_valid st \<longleftrightarrow> st = Up \<or> st = Down"

definition entity_is_mosquitto_bridge_service :: "entity_topic_id \<Rightarrow> bool" where
  "entity_is_mosquitto_bridge_service tid =
     (case default_service_name tid of
        None \<Rightarrow> False
      | Some name \<Rightarrow> strip_prefix ''mosquitto-'' name \<noteq> None \<and> strip_suffix ''-bridge'' name \<noteq> None)"

text \<open>\<^verbatim>\<open>HealthTopicError\<close> is \<^term>\<open>None\<close>.\<close>

definition try_from_health_status_message ::
  "rumqttc \<Rightarrow> (string \<Rightarrow> jraw option) \<Rightarrow> mqtt_message \<Rightarrow> mqtt_schema \<Rightarrow> status option" where
  "try_from_health_status_message L R m S =
     (case entity_channel_of L S (topic_name (mm_topic m)) of
        Inr (tid, Health) \<Rightarrow>
          Some (if entity_is_mosquitto_bridge_service tid
                then (case from_utf8 (payload_bytes m) of
                        Some p \<Rightarrow> if p = ''1'' then Up else if p = ''0'' then Down else status_default
                      | None \<Rightarrow> status_default)
                else read_health_status R m)
      | _ \<Rightarrow> None)"

section \<open>Messages of a service\<close>

definition service_health_topic :: "rumqttc \<Rightarrow> mqtt_schema \<Rightarrow> entity_topic_id \<Rightarrow> string \<Rightarrow> topic panics" where
  "service_health_topic L S device_topic_id service = do {
     tid \<leftarrow> default_service_for_device L device_topic_id service;
     topic_for L S tid Health }"

record health_topic =
  ht_topic :: string
  ht_time_format :: time_fmt

definition from_new_topic :: "rumqttc \<Rightarrow> entity_topic_id \<Rightarrow> mqtt_schema \<Rightarrow> time_fmt \<Rightarrow> health_topic panics" where
  "from_new_topic L service_topic_id S fmt =
     map_option (\<lambda>t. \<lparr>ht_topic = topic_name t, ht_time_format = fmt\<rparr>) (topic_for L S service_topic_id Health)"

definition down_message :: "serde \<Rightarrow> nat \<Rightarrow> health_topic \<Rightarrow> mqtt_message" where
  "down_message J pid h =
     \<lparr>mm_topic = topic_new_unchecked (ht_topic h),
      mm_payload = json_to_text J (JObject [(''pid'', JNumber (PosInt pid)), (''status'', JString ''down'')]),
      mm_qos = AtLeastOnce, mm_retain = True\<rparr>"

text \<open>The text of a time that has no RFC 3339 form is the one of the time itself.\<close>

definition up_message :: "'t payload_env \<Rightarrow> ('t \<Rightarrow> string) \<Rightarrow> 't \<Rightarrow> nat \<Rightarrow> health_topic \<Rightarrow> mqtt_message" where
  "up_message E display now pid h =
     (let timestamp = (case time_to_json (pe_time E) (pe_float E) (ht_time_format h) now of
                         Some v \<Rightarrow> v | None \<Rightarrow> JString (display now));
          health_status = json_to_text (pe_json E)
            (JObject [(''pid'', JNumber (PosInt pid)), (''status'', JString ''up''), (''time'', timestamp)])
      in with_retain (with_qos AtLeastOnce (message_new (topic_new_unchecked (ht_topic h)) health_status)))"

section \<open>Cumulocity\<close>

definition is_c8y_bridge_established ::
  "rumqttc \<Rightarrow> (string \<Rightarrow> jraw option) \<Rightarrow> mqtt_message \<Rightarrow> mqtt_schema \<Rightarrow> topic \<Rightarrow> bool" where
  "is_c8y_bridge_established L R m S bridge_service_topic =
     (case try_from_health_status_message L R m S of
        Some st \<Rightarrow> mm_topic m = bridge_service_topic \<and> status_is_valid st
      | None \<Rightarrow> False)"

definition create_get_pending_operations_message :: "csv_lib \<Rightarrow> string \<Rightarrow> mqtt_message panics" where
  "create_get_pending_operations_message C pfx =
     map_option (message_new (upstream_topic pfx)) (request_pending_operations C)"

definition convert_health_status_message ::
  "rumqttc \<Rightarrow> csv_lib \<Rightarrow> (string \<Rightarrow> jraw option) \<Rightarrow> mqtt_schema \<Rightarrow> cloud_entity \<Rightarrow> string option \<Rightarrow> string \<Rightarrow> mqtt_message
     \<Rightarrow> string \<Rightarrow> mqtt_message list panics" where
  "convert_health_status_message L C R S entity parent_xid main_device_xid m pfx =
     (if em_type (ce_metadata entity) \<noteq> Service then Some []
      else do {
        st \<leftarrow> try_from_health_status_message L R m S;
        let external_id = ce_external_id entity;
        let name = (case display_name (ce_metadata entity) of
                      Some n \<Rightarrow> n
                    | None \<Rightarrow> (case default_service_name (em_topic_id (ce_metadata entity)) of
                                 Some n \<Rightarrow> n | None \<Rightarrow> external_id));
        let type_name = (case display_type (ce_metadata entity) of Some t \<Rightarrow> t | None \<Rightarrow> ''service'');
        message \<leftarrow> service_creation_message L C external_id name type_name (status_to_str st) parent_xid main_device_xid pfx;
        (case message of
           Inl _ \<Rightarrow> Some []
         | Inr status_message \<Rightarrow>
             if name = ''mosquitto-'' @ pfx @ ''-bridge'' \<and> st = Up
             then map_option (\<lambda>p. [status_message, p]) (create_get_pending_operations_message C pfx)
             else Some [status_message]) })"

definition process_health_status_message ::
  "rumqttc \<Rightarrow> csv_lib \<Rightarrow> (string \<Rightarrow> jraw option) \<Rightarrow> mqtt_schema \<Rightarrow> string \<Rightarrow> entity_cache \<Rightarrow> entity_topic_id \<Rightarrow> mqtt_message
     \<Rightarrow> (cache_error + mqtt_message list) panics" where
  "process_health_status_message L C R S pfx cache entity_tid m =
     (case cache_try_get entity_tid cache of
        Inl err \<Rightarrow> Some (Inl err)
      | Inr entity \<Rightarrow> do {
          parent \<leftarrow> parent_external_id entity_tid cache;
          case parent of
            Inl err \<Rightarrow> Some (Inl err)
          | Inr parent_xid \<Rightarrow>
              map_option Inr (convert_health_status_message L C R S entity parent_xid (ec_main_xid cache) m pfx) })"

section \<open>Round trip\<close>

lemma time_to_json_wf: "time_to_json T P fmt t = Some v \<Longrightarrow> json_wf v"
  by (cases fmt) (auto simp: json_of_f64_def)

lemma health_topic_read:
  assumes "topic_rule L" "wf_root (root S)" "wf_entity_id tid" "from_new_topic L tid S fmt = Some h"
  shows "entity_channel_of L S (ht_topic h) = Inr (tid, Health)"
proof -
  have "ht_topic h = topic_text S tid Health"
    using assms(4) by (auto simp: from_new_topic_def topic_for_Some_iff [OF assms(1)])
  with entity_channel_of_topic_text [OF assms(1) _ assms(3), of S Health] assms(2) show ?thesis
    by (simp add: wf_root_def)
qed

text \<open>
  What a service publishes about its health is understood: the message it sends when it starts is read as the
  status up and its last will as the status down, and so are the bytes 1 and 0 that a mosquitto bridge publishes.
\<close>

lemma health_messages_read_back:
  assumes "topic_rule L" "wf_root (root S)" "wf_entity_id tid" "raw_rule (pe_json E) R"
    and "from_new_topic L tid S fmt = Some h"
  shows "if entity_is_mosquitto_bridge_service tid
    then try_from_health_status_message L R (message_new (topic_new_unchecked (ht_topic h)) ''1'') S = Some Up
      \<and> try_from_health_status_message L R (message_new (topic_new_unchecked (ht_topic h)) ''0'') S = Some Down
    else try_from_health_status_message L R (up_message E display now pid h) S = Some Up
      \<and> try_from_health_status_message L R (down_message (pe_json E) pid h) S = Some Down"
proof -
  note read = health_topic_read [OF assms(1-3,5)]
  have "from_utf8 ''1'' = Some ''1''" "from_utf8 ''0'' = Some ''0''"
    "\<And>t. payload_bytes (message_new t ''1'') = ''1''" "\<And>t. payload_bytes (message_new t ''0'') = ''0''"
    by (code_simp, code_simp, simp_all add: payload_bytes_text)
  moreover have "mm_topic (up_message E display now pid h) = topic_new_unchecked (ht_topic h)"
    "R (mm_payload (up_message E display now pid h)) \<bind> health_status_of_raw = Some Up"
    using time_to_json_wf [of "pe_time E" "pe_float E" "ht_time_format h" now]
    by (auto simp: up_message_def Let_def raw_ruleD [OF assms(4)] split: option.split)
  moreover have "R (mm_payload (down_message (pe_json E) pid h)) \<bind> health_status_of_raw = Some Down"
    by (simp add: down_message_def raw_ruleD [OF assms(4)])
  ultimately show ?thesis
    by (simp add: try_from_health_status_message_def read_health_status_def read topic_new_unchecked_def down_message_def)
qed

definition code_raw :: "string \<Rightarrow> jraw option" where
  "code_raw text = map_option raw_of_json (json_of_text code_serde text)"

lemma code_raw_rule [simp]: "raw_rule code_serde code_raw"
  by (simp add: raw_rule_def code_raw_def serde_roundtrip)

lemma health_messages_read_back_instance:
  "\<exists>h. from_new_topic wildcard_free_mqtt ''device/main/service/tedge-agent'' schema_new Rfc3339 = Some h
    \<and> try_from_health_status_message wildcard_free_mqtt code_raw (up_message text_env id ''now'' 7 h) schema_new = Some Up
    \<and> try_from_health_status_message wildcard_free_mqtt code_raw (down_message code_serde 7 h) schema_new = Some Down"
proof -
  have "from_new_topic wildcard_free_mqtt ''device/main/service/tedge-agent'' schema_new Rfc3339
      = Some \<lparr>ht_topic = ''te/device/main/service/tedge-agent/status/health'', ht_time_format = Rfc3339\<rparr>" (is "_ = Some ?h")
    by code_simp
  moreover have "\<not> entity_is_mosquitto_bridge_service ''device/main/service/tedge-agent''" by code_simp
  moreover have "wf_root (root schema_new)" "wf_entity_id ''device/main/service/tedge-agent''"
    by (simp_all add: wf_root_def schema_new_def with_root_def wf_entity_id_def no_wildcard_def)
  ultimately show ?thesis
    using health_messages_read_back [of wildcard_free_mqtt schema_new "''device/main/service/tedge-agent''" text_env
        code_raw Rfc3339 ?h id "''now''" 7] by (auto simp: text_env_def)
qed

end
