(* ===== verification/Availability.thy ===== *)
theory Availability
  imports Health Timers
begin

text \<open>
  The monitoring of the availability of the devices by the Cumulocity mapper
  (\<^verbatim>\<open>c8y_mapper_ext/src/availability\<close>): the actor keeps the health endpoint of each device and the last status of
  each service, and sends a heartbeat for a device on its timer when its endpoint is up.  The actor is composed with the
  timer actor at the end.  A duration is a number of nanoseconds.
\<close>

section \<open>State\<close>

record av_env =
  ae_mqtt :: rumqttc
  ae_json :: serde
  ae_csv :: csv_lib
  ae_raw :: "string \<Rightarrow> jraw option"

record av_config =
  ac_main_device_id :: string
  ac_schema :: mqtt_schema
  ac_prefix :: string
  ac_enable :: bool
  ac_interval :: int

record device_ids =
  di_health_topic_id :: entity_topic_id
  di_external_id :: string

text \<open>
  The actor, with the messages it has published and the timers it has started, each with its duration, in the order
  in which they are sent.
\<close>

record av_actor =
  av_device_ids :: "(entity_topic_id, device_ids) hmap"
  av_health_status :: "(entity_topic_id, status) hmap"
  av_published :: "mqtt_message list"
  av_timers :: "(int \<times> entity_topic_id) list"

datatype registration_result = NewDevice | UpdatedDevice | InvalidDevice | SkippedDevice

datatype av_input =
    AvRegistration registration
  | AvHealth entity_topic_id status
  | AvTimer entity_topic_id

definition av_actor_new :: av_actor where
  "av_actor_new = \<lparr>av_device_ids = [], av_health_status = [], av_published = [], av_timers = []\<rparr>"

section \<open>Messages\<close>

definition inventory_update_message :: "serde \<Rightarrow> string \<Rightarrow> json \<Rightarrow> string \<Rightarrow> mqtt_message" where
  "inventory_update_message J external_id payload pfx =
     message_new (topic_new_unchecked (pfx @ ''/inventory/managedObjects/update/'' @ external_id)) (json_to_text J payload)"

definition av_message_parser :: "av_env \<Rightarrow> av_config \<Rightarrow> mqtt_message \<Rightarrow> av_input option" where
  "av_message_parser E cfg m =
     (case entity_channel_of (ae_mqtt E) (ac_schema cfg) (topic_name (mm_topic m)) of
        Inr (source, EntityMetadata) \<Rightarrow> map_option AvRegistration (registration_of_message (ae_mqtt E) (ae_json E) m)
      | Inr (source, Health) \<Rightarrow> Some (AvHealth source (read_health_status (ae_raw E) m))
      | _ \<Rightarrow> None)"

section \<open>Operations\<close>

definition start_heartbeat_timer :: "av_config \<Rightarrow> entity_topic_id \<Rightarrow> av_actor \<Rightarrow> av_actor" where
  "start_heartbeat_timer cfg source a =
     (if ac_interval cfg \<noteq> 0 then a\<lparr>av_timers := av_timers a @ [(ac_interval cfg div 2, source)]\<rparr> else a)"

definition send_required_availability :: "av_env \<Rightarrow> av_config \<Rightarrow> c8y_topic \<Rightarrow> av_actor \<Rightarrow> av_actor panics" where
  "send_required_availability E cfg t a =
     map_option (\<lambda>m. a\<lparr>av_published := av_published a @ [m]\<rparr>)
       (set_interval_message (ae_mqtt E) (ae_csv E) t (nat (ac_interval cfg div 1000000000)) (ac_prefix cfg))"

definition required_availability_for_main_device :: "av_env \<Rightarrow> av_config \<Rightarrow> av_actor \<Rightarrow> av_actor panics" where
  "required_availability_for_main_device E cfg a = send_required_availability E cfg SmartRestResponse a"

definition required_availability_for_child_device ::
  "av_env \<Rightarrow> av_config \<Rightarrow> entity_topic_id \<Rightarrow> av_actor \<Rightarrow> av_actor panics" where
  "required_availability_for_child_device E cfg source a =
     (case hm_get (av_device_ids a) source of
        Some ids \<Rightarrow> send_required_availability E cfg (ChildSmartRestResponse (di_external_id ids)) a
      | None \<Rightarrow> Some a)"

definition av_init :: "av_env \<Rightarrow> av_config \<Rightarrow> av_actor \<Rightarrow> av_actor panics" where
  "av_init E cfg a = do {
     health_topic_id \<leftarrow> ok (default_main_service (ae_mqtt E) ''tedge-agent'');
     let a = a\<lparr>av_device_ids := hm_insert default_main_device
         \<lparr>di_health_topic_id = health_topic_id, di_external_id = ac_main_device_id cfg\<rparr> (av_device_ids a)\<rparr>;
     a \<leftarrow> required_availability_for_main_device E cfg a;
     Some (start_heartbeat_timer cfg default_main_device a) }"

definition health_endpoint :: "rumqttc \<Rightarrow> registration \<Rightarrow> entity_topic_id option" where
  "health_endpoint L r =
     (case bt_get (reg_twin_data r) ''@health'' of
        None \<Rightarrow> default_service_for_device L (reg_topic_id r) ''tedge-agent''
      | Some raw_value \<Rightarrow> (case as_str raw_value of
          None \<Rightarrow> None
        | Some maybe_entity_topic_id \<Rightarrow> ok (entity_id_of_str L maybe_entity_topic_id)))"

definition update_device_service_pair :: "rumqttc \<Rightarrow> registration \<Rightarrow> av_actor \<Rightarrow> registration_result \<times> av_actor" where
  "update_device_service_pair L r a =
     (case health_endpoint L r of
        None \<Rightarrow> (InvalidDevice, a)
      | Some health_topic_id \<Rightarrow> (case reg_external_id r of
          None \<Rightarrow> (SkippedDevice, a)
        | Some external_id \<Rightarrow>
            let former = hm_get (av_device_ids a) (reg_topic_id r) in
            if map_option di_health_topic_id former = Some health_topic_id then (SkippedDevice, a)
            else (if former = None then NewDevice else UpdatedDevice,
                  a\<lparr>av_device_ids := hm_insert (reg_topic_id r)
                      \<lparr>di_health_topic_id = health_topic_id, di_external_id = external_id\<rparr> (av_device_ids a)\<rparr>)))"

definition av_process_registration :: "av_env \<Rightarrow> av_config \<Rightarrow> registration \<Rightarrow> av_actor \<Rightarrow> av_actor panics" where
  "av_process_registration E cfg r a =
     (let source = reg_topic_id r in
      case reg_type r of
        MainDevice \<Rightarrow> (case update_device_service_pair (ae_mqtt E) r a of
            (NewDevice, a) \<Rightarrow> Some (start_heartbeat_timer cfg source a)
          | (UpdatedDevice, a) \<Rightarrow> Some (start_heartbeat_timer cfg source a)
          | (_, a) \<Rightarrow> Some a)
      | ChildDevice \<Rightarrow> (case update_device_service_pair (ae_mqtt E) r a of
            (NewDevice, a) \<Rightarrow> do {
              a \<leftarrow> required_availability_for_child_device E cfg source a;
              Some (start_heartbeat_timer cfg source a) }
          | (UpdatedDevice, a) \<Rightarrow> Some (start_heartbeat_timer cfg source a)
          | (_, a) \<Rightarrow> Some a)
      | Service \<Rightarrow> Some a)"

definition process_timer_complete :: "av_env \<Rightarrow> av_config \<Rightarrow> entity_topic_id \<Rightarrow> av_actor \<Rightarrow> av_actor" where
  "process_timer_complete E cfg tid a =
     (case hm_get (av_device_ids a) tid of
        None \<Rightarrow> a
      | Some ids \<Rightarrow>
          let a = (case hm_get (av_health_status a) (di_health_topic_id ids) of
                     Some Up \<Rightarrow> a\<lparr>av_published := av_published a @
                         [inventory_update_message (ae_json E) (di_external_id ids) (JObject []) (ac_prefix cfg)]\<rparr>
                   | _ \<Rightarrow> a)
          in start_heartbeat_timer cfg tid a)"

fun av_step :: "av_env \<Rightarrow> av_config \<Rightarrow> av_actor \<Rightarrow> av_input \<Rightarrow> av_actor panics" where
  "av_step E cfg a (AvRegistration r) = av_process_registration E cfg r a"
| "av_step E cfg a (AvHealth source health_status) =
     Some (a\<lparr>av_health_status := hm_insert source health_status (av_health_status a)\<rparr>)"
| "av_step E cfg a (AvTimer tid) = Some (process_timer_complete E cfg tid a)"

text \<open>The actor over the inputs it receives; it does nothing when the feature is disabled.\<close>

definition av_run :: "av_env \<Rightarrow> av_config \<Rightarrow> av_input list \<Rightarrow> av_actor panics" where
  "av_run E cfg inputs =
     (if ac_enable cfg then do { a \<leftarrow> av_init E cfg av_actor_new; run (av_step E cfg) a inputs }
      else Some av_actor_new)"

section \<open>What the actor knows\<close>

definition last_of :: "('a \<Rightarrow> 'b option) \<Rightarrow> 'a list \<Rightarrow> 'b option" where
  "last_of f xs = (case rev (List.map_filter f xs) of [] \<Rightarrow> None | x # _ \<Rightarrow> Some x)"

lemma last_of_Nil [simp]: "last_of f [] = None"
  by (simp add: last_of_def map_filter_simps)

lemma last_of_snoc [simp]: "last_of f (xs @ [x]) = (case f x of None \<Rightarrow> last_of f xs | Some y \<Rightarrow> Some y)"
  by (simp add: last_of_def List.map_filter_def split: option.split)

text \<open>The last status a service has reported, and the health endpoint a device has declared last.\<close>

definition reported :: "av_input list \<Rightarrow> entity_topic_id \<Rightarrow> status option" where
  "reported inputs e = last_of (\<lambda>i. case i of AvHealth source st \<Rightarrow> if source = e then Some st else None | _ \<Rightarrow> None) inputs"

definition declares :: "rumqttc \<Rightarrow> entity_topic_id \<Rightarrow> av_input \<Rightarrow> entity_topic_id option" where
  "declares L d i =
     (case i of
        AvRegistration r \<Rightarrow>
          if reg_topic_id r = d \<and> reg_type r \<noteq> Service \<and> reg_external_id r \<noteq> None then health_endpoint L r else None
      | _ \<Rightarrow> None)"

definition declared :: "rumqttc \<Rightarrow> av_input list \<Rightarrow> entity_topic_id \<Rightarrow> entity_topic_id option" where
  "declared L inputs d =
     (case last_of (declares L d) inputs of
        Some e \<Rightarrow> Some e
      | None \<Rightarrow> if d = default_main_device then Some ''device/main/service/tedge-agent'' else None)"

lemma reported_snoc:
  "reported (inputs @ [i]) e = (case i of AvHealth source st \<Rightarrow> if source = e then Some st else reported inputs e
     | _ \<Rightarrow> reported inputs e)"
  by (simp add: reported_def split: av_input.split)

lemma declared_snoc:
  "declared L (inputs @ [i]) d = (case declares L d i of Some e \<Rightarrow> Some e | None \<Rightarrow> declared L inputs d)"
  by (simp add: declared_def split: option.split)

lemma start_heartbeat_timer_fields [simp]:
  "av_device_ids (start_heartbeat_timer cfg tid a) = av_device_ids a"
  "av_health_status (start_heartbeat_timer cfg tid a) = av_health_status a"
  "av_published (start_heartbeat_timer cfg tid a) = av_published a"
  "av_timers (start_heartbeat_timer cfg tid a) = av_timers a @ (if ac_interval cfg = 0 then [] else [(ac_interval cfg div 2, tid)])"
  by (simp_all add: start_heartbeat_timer_def)

lemma send_required_availability_fields:
  assumes "send_required_availability E cfg t a = Some a'"
  shows "av_device_ids a' = av_device_ids a \<and> av_health_status a' = av_health_status a \<and> av_timers a' = av_timers a"
  using assms by (auto simp: send_required_availability_def)

lemma required_availability_fields:
  assumes "required_availability_for_child_device E cfg source a = Some a'"
  shows "av_device_ids a' = av_device_ids a \<and> av_health_status a' = av_health_status a \<and> av_timers a' = av_timers a"
  using assms
  by (cases "hm_get (av_device_ids a) source")
    (auto simp: required_availability_for_child_device_def dest: send_required_availability_fields)

text \<open>What a registration does to the pairs: nothing, or a new endpoint for its device.\<close>

lemma update_device_service_pair_cases:
  obtains (kept) res where "update_device_service_pair L r a = (res, a)" "res = InvalidDevice \<or> res = SkippedDevice"
      "\<And>e. health_endpoint L r = Some e \<Longrightarrow> reg_external_id r \<noteq> None \<Longrightarrow>
         map_option di_health_topic_id (hm_get (av_device_ids a) (reg_topic_id r)) = Some e"
  | (changed) res e xid where "health_endpoint L r = Some e" "reg_external_id r = Some xid"
      "map_option di_health_topic_id (hm_get (av_device_ids a) (reg_topic_id r)) \<noteq> Some e"
      "update_device_service_pair L r a = (res, a\<lparr>av_device_ids :=
         hm_insert (reg_topic_id r) \<lparr>di_health_topic_id = e, di_external_id = xid\<rparr> (av_device_ids a)\<rparr>)"
      "res = (if hm_get (av_device_ids a) (reg_topic_id r) = None then NewDevice else UpdatedDevice)"
proof (cases "health_endpoint L r")
  case None
  then show ?thesis by (intro kept [of InvalidDevice]) (simp_all add: update_device_service_pair_def)
next
  case (Some e)
  show ?thesis
  proof (cases "reg_external_id r")
    case None
    with Some show ?thesis by (intro kept [of SkippedDevice]) (simp_all add: update_device_service_pair_def)
  next
    case xid: (Some xid)
    show ?thesis
    proof (cases "map_option di_health_topic_id (hm_get (av_device_ids a) (reg_topic_id r)) = Some e")
      case True
      with Some xid show ?thesis by (intro kept [of SkippedDevice]) (simp_all add: update_device_service_pair_def Let_def)
    next
      case False
      with Some xid show ?thesis by (intro changed [of e xid]) (simp_all add: update_device_service_pair_def Let_def)
    qed
  qed
qed

text \<open>A registration changes the endpoint of its device, and starts a timer when the endpoint changes.\<close>

lemma registration_cases:
  assumes "av_process_registration E cfg r a = Some a'"
  obtains (kept) "a' = a" "\<And>e. declares (ae_mqtt E) (reg_topic_id r) (AvRegistration r) = Some e \<Longrightarrow>
      map_option di_health_topic_id (hm_get (av_device_ids a) (reg_topic_id r)) = Some e"
  | (changed) e ids where "declares (ae_mqtt E) (reg_topic_id r) (AvRegistration r) = Some e"
      "di_health_topic_id ids = e" "reg_external_id r = Some (di_external_id ids)"
      "map_option di_health_topic_id (hm_get (av_device_ids a) (reg_topic_id r)) \<noteq> Some e"
      "av_device_ids a' = hm_insert (reg_topic_id r) ids (av_device_ids a)" "av_health_status a' = av_health_status a"
      "av_timers a' = av_timers a @ (if ac_interval cfg = 0 then [] else [(ac_interval cfg div 2, reg_topic_id r)])"
proof (cases "reg_type r = Service")
  case True
  then show ?thesis using assms by (intro kept) (simp_all add: av_process_registration_def declares_def)
next
  case False
  show ?thesis
  proof (rule update_device_service_pair_cases [of "ae_mqtt E" r a])
    fix res
    assume kept: "update_device_service_pair (ae_mqtt E) r a = (res, a)" "res = InvalidDevice \<or> res = SkippedDevice"
      "\<And>e. health_endpoint (ae_mqtt E) r = Some e \<Longrightarrow> reg_external_id r \<noteq> None \<Longrightarrow>
         map_option di_health_topic_id (hm_get (av_device_ids a) (reg_topic_id r)) = Some e"
    with assms have "a' = a" by (cases "reg_type r") (auto simp: av_process_registration_def)
    then show ?thesis by (rule that(1)) (use kept(3) False in \<open>simp add: declares_def split: if_splits\<close>)
  next
    fix res e xid
    assume "health_endpoint (ae_mqtt E) r = Some e" "reg_external_id r = Some xid"
      "map_option di_health_topic_id (hm_get (av_device_ids a) (reg_topic_id r)) \<noteq> Some e"
      "update_device_service_pair (ae_mqtt E) r a = (res, a\<lparr>av_device_ids :=
         hm_insert (reg_topic_id r) \<lparr>di_health_topic_id = e, di_external_id = xid\<rparr> (av_device_ids a)\<rparr>)"
      "res = (if hm_get (av_device_ids a) (reg_topic_id r) = None then NewDevice else UpdatedDevice)"
    note changed = this
    define ids where "ids = \<lparr>di_health_topic_id = e, di_external_id = xid\<rparr>"
    define b where "b = a\<lparr>av_device_ids := hm_insert (reg_topic_id r) ids (av_device_ids a)\<rparr>"
    have b: "av_device_ids b = hm_insert (reg_topic_id r) ids (av_device_ids a)" "av_health_status b = av_health_status a"
      "av_timers b = av_timers a" by (simp_all add: b_def)
    have pair: "update_device_service_pair (ae_mqtt E) r a = (NewDevice, b) \<or>
        update_device_service_pair (ae_mqtt E) r a = (UpdatedDevice, b)"
      using changed(4,5) by (simp add: b_def ids_def)
    obtain c where "a' = start_heartbeat_timer cfg (reg_topic_id r) c"
      "c = b \<or> required_availability_for_child_device E cfg (reg_topic_id r) b = Some c"
      using assms False pair
      by (cases "reg_type r") (auto simp: av_process_registration_def Let_def split: bind_splits)
    then have a': "av_device_ids a' = av_device_ids b" "av_health_status a' = av_health_status b"
      "av_timers a' = av_timers b @ (if ac_interval cfg = 0 then [] else [(ac_interval cfg div 2, reg_topic_id r)])"
      using required_availability_fields [of E cfg "reg_topic_id r" b c] by auto
    show ?thesis
      by (rule that(2) [of e ids]) (use changed(1-3) False in \<open>simp_all add: a' b declares_def ids_def\<close>)
  qed
qed

text \<open>The actor knows what has been reported and declared.\<close>

lemma av_init_Some:
  assumes "av_init E cfg av_actor_new = Some a" "topic_rule (ae_mqtt E)"
  shows "av_device_ids a = [(default_main_device, \<lparr>di_health_topic_id = ''device/main/service/tedge-agent'',
      di_external_id = ac_main_device_id cfg\<rparr>)]"
    "av_health_status a = []"
    "av_timers a = (if ac_interval cfg = 0 then [] else [(ac_interval cfg div 2, default_main_device)])"
proof -
  have "default_main_service (ae_mqtt E) ''tedge-agent'' = Inr ''device/main/service/tedge-agent''"
    by (simp add: default_main_service_def entity_id_of_str_Inr topic_ruleD [OF assms(2)])
  with assms(1) have "\<exists>b. a = start_heartbeat_timer cfg default_main_device b \<and> av_device_ids b =
      [(default_main_device, \<lparr>di_health_topic_id = ''device/main/service/tedge-agent'', di_external_id = ac_main_device_id cfg\<rparr>)]
      \<and> av_health_status b = [] \<and> av_timers b = []"
    by (auto simp: av_init_def ok_def av_actor_new_def required_availability_for_main_device_def
        dest!: send_required_availability_fields split: bind_splits)
  then show "av_device_ids a = [(default_main_device, \<lparr>di_health_topic_id = ''device/main/service/tedge-agent'',
      di_external_id = ac_main_device_id cfg\<rparr>)]"
    "av_health_status a = []"
    "av_timers a = (if ac_interval cfg = 0 then [] else [(ac_interval cfg div 2, default_main_device)])"
    by auto
qed

lemma process_timer_complete_fields [simp]:
  "av_device_ids (process_timer_complete E cfg tid a) = av_device_ids a"
  "av_health_status (process_timer_complete E cfg tid a) = av_health_status a"
  "av_timers (process_timer_complete E cfg tid a) = av_timers a @
     (if hm_get (av_device_ids a) tid = None \<or> ac_interval cfg = 0 then [] else [(ac_interval cfg div 2, tid)])"
  by (auto simp: process_timer_complete_def Let_def split: option.split status.split)

lemma run_knows:
  assumes "topic_rule (ae_mqtt E)" "av_init E cfg av_actor_new = Some a0" "run (av_step E cfg) a0 inputs = Some a"
  shows "hm_get (av_health_status a) e = reported inputs e"
    "map_option di_health_topic_id (hm_get (av_device_ids a) d) = declared (ae_mqtt E) inputs d"
  using assms(3)
proof (induction inputs arbitrary: a rule: rev_induct)
  case Nil
  {
    case 1
    with av_init_Some [OF assms(2,1)] show ?case by (simp add: reported_def)
  next
    case 2
    with av_init_Some [OF assms(2,1)] show ?case by (simp add: declared_def)
  }
next
  case (snoc i inputs)
  {
    fix b assume b: "run (av_step E cfg) a0 (inputs @ [i]) = Some b"
    then obtain a' where "run (av_step E cfg) a0 inputs = Some a'" and step: "av_step E cfg a' i = Some b"
      by (auto simp: run_append split: option.splits)
    with snoc.IH have IH: "hm_get (av_health_status a') e = reported inputs e"
      "map_option di_health_topic_id (hm_get (av_device_ids a') d) = declared (ae_mqtt E) inputs d" by blast+
    have "hm_get (av_health_status b) e = reported (inputs @ [i]) e
      \<and> map_option di_health_topic_id (hm_get (av_device_ids b) d) = declared (ae_mqtt E) (inputs @ [i]) d"
    proof (cases i)
      case (AvRegistration r)
      with step have "av_process_registration E cfg r a' = Some b" by simp
      then show ?thesis
        by (cases rule: registration_cases)
          (use AvRegistration IH in \<open>auto simp: reported_snoc declared_snoc update_conv' declares_def split: if_splits option.splits\<close>)
    qed (use step IH in \<open>auto simp: reported_snoc declared_snoc declares_def update_conv'\<close>)
  }
  note step = this
  {
    case 1
    with step show ?case by blast
  next
    case 2
    with step show ?case by blast
  }
qed

text \<open>
  C24. When the heartbeat timer of a device completes, a heartbeat for the device is published if and only if the last
  status reported by the health endpoint it has declared last is up; the endpoint of the main device is its agent
  until it declares another one.  Nothing is published for a device that has declared none.
\<close>

theorem heartbeat_iff_up:
  assumes "topic_rule (ae_mqtt E)" "ac_enable cfg" "av_run E cfg inputs = Some a"
  shows "case declared (ae_mqtt E) inputs d of
      None \<Rightarrow> av_step E cfg a (AvTimer d) = Some a
    | Some e \<Rightarrow> \<exists>ids a'. hm_get (av_device_ids a) d = Some ids \<and> av_step E cfg a (AvTimer d) = Some a'
        \<and> av_published a' = av_published a @
            (if reported inputs e = Some Up
             then [inventory_update_message (ae_json E) (di_external_id ids) (JObject []) (ac_prefix cfg)] else [])"
proof -
  obtain a0 where "av_init E cfg av_actor_new = Some a0" "run (av_step E cfg) a0 inputs = Some a"
    using assms(2,3) by (auto simp: av_run_def split: bind_splits)
  note knows = run_knows [OF assms(1) this]
  have st: "hm_get (av_health_status a) e = reported inputs e" for e by (rule knows(1))
  have "map_option di_health_topic_id (hm_get (av_device_ids a) d) = declared (ae_mqtt E) inputs d" by (rule knows(2))
  then show ?thesis
    by (cases "hm_get (av_device_ids a) d")
      (auto simp: process_timer_complete_def Let_def st split: option.split status.split)
qed

section \<open>The actor does not stop\<close>

text \<open>The ids that a topic can hold; the mapper validates them before it forwards a registration.\<close>

fun valid_input :: "av_input \<Rightarrow> bool" where
  "valid_input (AvRegistration r) = (case reg_external_id r of None \<Rightarrow> True | Some xid \<Rightarrow> no_wildcard xid)"
| "valid_input _ = True"

definition interval_sent :: "av_env \<Rightarrow> av_config \<Rightarrow> bool" where
  "interval_sent E cfg \<longleftrightarrow> set_interval_message (ae_mqtt E) (ae_csv E) SmartRestResponse
     (nat (ac_interval cfg div 1000000000)) (ac_prefix cfg) \<noteq> None"

lemma set_interval_child:
  assumes "topic_rule (ae_mqtt E)" "interval_sent E cfg" "no_wildcard xid"
  shows "send_required_availability E cfg (ChildSmartRestResponse xid) a \<noteq> None"
  using assms
  by (auto simp: interval_sent_def send_required_availability_def set_interval_message_def c8y_to_topic_def topic_new_def
      ok_def topic_ruleD [OF assms(1)] split: bind_splits if_splits sum.splits)

lemma av_step_total:
  assumes "topic_rule (ae_mqtt E)" "interval_sent E cfg" "valid_input i"
  shows "av_step E cfg a i \<noteq> None"
proof (cases i)
  case (AvRegistration r)
  have req: "required_availability_for_child_device E cfg (reg_topic_id r) (a\<lparr>av_device_ids :=
      hm_insert (reg_topic_id r) \<lparr>di_health_topic_id = e, di_external_id = xid\<rparr> (av_device_ids a)\<rparr>) = None \<longrightarrow> False"
    if "reg_external_id r = Some xid" for e xid
    using set_interval_child [OF assms(1,2)] assms(3) AvRegistration that
    by (simp add: required_availability_for_child_device_def update_conv')
  show ?thesis
    by (cases rule: update_device_service_pair_cases [of "ae_mqtt E" r a]; cases "reg_type r")
      (auto simp: AvRegistration av_process_registration_def Let_def dest: req [rule_format] split: bind_splits)
qed simp_all

interpretation av_runs: total_step "av_step E cfg" valid_input "\<lambda>_. topic_rule (ae_mqtt E) \<and> interval_sent E cfg" for E cfg
  by unfold_locales (use av_step_total in auto)

text \<open>
  Once the first message with the required interval can be written, the actor handles every sequence of registrations
  whose ids have no wildcard, of health statuses and of timers, without a panic.
\<close>

lemma availability_never_stops:
  assumes "topic_rule (ae_mqtt E)" "interval_sent E cfg" "list_all valid_input inputs"
  shows "\<exists>a. av_run E cfg inputs = Some a"
proof (cases "ac_enable cfg")
  case True
  have "av_init E cfg av_actor_new \<noteq> None"
    using assms(1,2)
    by (auto simp: av_init_def default_main_service_def entity_id_of_str_def topic_new_def topic_ruleD ok_def interval_sent_def
        required_availability_for_main_device_def send_required_availability_def Let_def split: bind_splits)
  with True av_runs.run_total [of E cfg] assms show ?thesis by (fastforce simp: av_run_def)
qed (simp add: av_run_def)

text \<open>Without the validation by the mapper, the registration of a child device whose id has a wildcard stops the actor.\<close>

lemma unvalidated_id_panics:
  assumes "topic_rule (ae_mqtt E)" "reg_type r = ChildDevice" "reg_external_id r = Some xid" "\<not> no_wildcard xid"
    and "health_endpoint (ae_mqtt E) r \<noteq> None" "hm_get (av_device_ids a) (reg_topic_id r) = None"
  shows "av_step E cfg a (AvRegistration r) = None"
  using assms
  by (auto simp: av_process_registration_def update_device_service_pair_def Let_def required_availability_for_child_device_def
      update_conv' send_required_availability_def set_interval_message_def c8y_to_topic_def topic_new_def ok_def
      topic_ruleD [OF assms(1)])

section \<open>With the timer actor\<close>

text \<open>
  The actor and the timer actor run on their own: the requests of the one wait to be received by the other, and the
  timers that have fired wait to be handled.  The system counts what has been received and handled.
\<close>

record av_system =
  sy_actor :: av_actor
  sy_timers :: "(unit, entity_topic_id) timer_actor"
  sy_received :: nat
  sy_handled :: nat

datatype sy_event = FromMapper mqtt_message | TimerReceives instant | TimerElapses instant | TimerReplies

fun sy_step :: "av_env \<Rightarrow> av_config \<Rightarrow> av_system \<Rightarrow> sy_event \<Rightarrow> av_system panics" where
  "sy_step E cfg s (FromMapper m) =
     (case av_message_parser E cfg m of
        None \<Rightarrow> Some s
      | Some i \<Rightarrow> map_option (\<lambda>a. s\<lparr>sy_actor := a\<rparr>) (av_step E cfg (sy_actor s) i))"
| "sy_step E cfg s (TimerReceives now) =
     (if sy_received s < length (av_timers (sy_actor s)) then
        let (duration, tid) = av_timers (sy_actor s) ! sy_received s;
            request = \<lparr>st_duration = duration, st_event = tid, st_reply_to = ()\<rparr>
        in map_option (\<lambda>t. s\<lparr>sy_timers := t, sy_received := sy_received s + 1\<rparr>)
             (timer_step (\<lambda>_. True) (sy_timers s) (Request now request))
      else Some s)"
| "sy_step E cfg s (TimerElapses now) =
     map_option (\<lambda>t. s\<lparr>sy_timers := t\<rparr>) (timer_step (\<lambda>_. True) (sy_timers s) (TimeElapsed now))"
| "sy_step E cfg s TimerReplies =
     (if sy_handled s < length (ta_fired (sy_timers s)) then
        let (now, t) = ta_fired (sy_timers s) ! sy_handled s
        in map_option (\<lambda>a. s\<lparr>sy_actor := a, sy_handled := sy_handled s + 1\<rparr>)
             (av_step E cfg (sy_actor s) (AvTimer (te_event_id t)))
      else Some s)"

definition sy_start :: "av_env \<Rightarrow> av_config \<Rightarrow> av_system panics" where
  "sy_start E cfg = map_option
     (\<lambda>a. \<lparr>sy_actor = a, sy_timers = timer_actor_new, sy_received = 0, sy_handled = 0\<rparr>) (av_init E cfg av_actor_new)"

text \<open>The timers of a device: the requests that wait, the timers that run and those that have fired and wait.\<close>

definition heartbeat_timers :: "entity_topic_id \<Rightarrow> av_system \<Rightarrow> nat" where
  "heartbeat_timers d s =
     count_list (map snd (drop (sy_received s) (av_timers (sy_actor s)))) d
     + count (image_mset te_event_id (pending_timers (sy_timers s))) d
     + count_list (map (te_event_id \<circ> snd) (drop (sy_handled s) (ta_fired (sy_timers s)))) d"

definition sy_inv :: "av_system \<Rightarrow> bool" where
  "sy_inv s \<longleftrightarrow>
     timers_ok (sy_timers s) \<and> ta_mode (sy_timers s) = Running
     \<and> sy_received s \<le> length (av_timers (sy_actor s)) \<and> sy_handled s \<le> length (ta_fired (sy_timers s))
     \<and> (\<forall>d. if hm_get (av_device_ids (sy_actor s)) d = None then heartbeat_timers d s = 0 else 1 \<le> heartbeat_timers d s)"

text \<open>A timer that the timer actor receives or fires changes its place only.\<close>

lemma timer_receives:
  assumes "timers_ok t" "ta_mode t = Running" "timer_step (\<lambda>_. True) t (Request now request) = Some t'"
  shows "timers_ok t'" "ta_mode t' = Running" "ta_fired t' = ta_fired t"
    "image_mset te_event_id (pending_timers t') = add_mset (st_event request) (image_mset te_event_id (pending_timers t))"
proof -
  have "timer_push now request t = Some t'"
    using assms by (auto simp: start_timer_def restart_same split: option.splits)
  with timer_push_spec [OF assms(1,2), of now request] show "timers_ok t'" "ta_mode t' = Running" "ta_fired t' = ta_fired t"
    "image_mset te_event_id (pending_timers t') = add_mset (st_event request) (image_mset te_event_id (pending_timers t))"
    by (auto simp: new_entry_def Let_def)
qed

lemma timer_elapses:
  assumes "timers_ok t" "ta_mode t = Running" "timer_step (\<lambda>_. True) t (TimeElapsed now) = Some t'"
  obtains (waits) "t' = t"
  | (fires) e where "ta_fired t' = ta_fired t @ [(now, e)]" "pending_timers t = add_mset e (pending_timers t')"
      "timers_ok t'" "ta_mode t' = Running"
proof (cases "ta_current_timer t")
  case None
  with assms show ?thesis by (intro waits) simp
next
  case (Some e)
  show ?thesis
  proof (cases "te_deadline e \<le> now")
    case True
    let ?t = "t\<lparr>ta_current_timer := None, ta_fired := ta_fired t @ [(now, e)]\<rparr>"
    have "\<exists>a'. start_next_timer ?t = Some a' \<and> timers_ok a' \<and> pending_timers a' = pending_timers ?t
        \<and> ta_fired a' = ta_fired ?t \<and> ta_next_timer_id a' = ta_next_timer_id ?t \<and> ta_mode a' = ta_mode ?t"
      by (rule start_next_timer_spec) (use assms(1) True in \<open>auto simp: timers_ok_def\<close>)
    with assms Some True show ?thesis
      by (intro fires [of e]) (auto simp: trigger_def pending_timers_def)
  next
    case False
    with assms Some show ?thesis by (intro waits) simp
  qed
qed

lemma registration_timers:
  assumes "av_step E cfg a i = Some a'" "\<forall>tid. i \<noteq> AvTimer tid" "ac_interval cfg \<noteq> 0"
  shows "\<exists>ts. av_timers a' = av_timers a @ ts
    \<and> (\<forall>d. count_list (map snd ts) d = (if hm_get (av_device_ids a') d = hm_get (av_device_ids a) d then 0 else 1))
    \<and> (\<forall>d. hm_get (av_device_ids a) d \<noteq> None \<longrightarrow> hm_get (av_device_ids a') d \<noteq> None)"
proof (cases i)
  case (AvRegistration r)
  with assms(1) have "av_process_registration E cfg r a = Some a'" by simp
  then show ?thesis
  proof (cases rule: registration_cases)
    case (changed e ids)
    have "hm_get (av_device_ids a) (reg_topic_id r) \<noteq> Some ids" using changed(2,4) by auto
    with changed(5,7) assms(3) show ?thesis by (auto simp: update_conv')
  qed simp
qed (use assms in auto)

lemma sy_invD: "sy_inv s \<Longrightarrow> if hm_get (av_device_ids (sy_actor s)) d = None then heartbeat_timers d s = 0 else 1 \<le> heartbeat_timers d s"
  unfolding sy_inv_def by blast

lemma sy_step_timers:
  assumes "sy_inv s" "ac_interval cfg \<noteq> 0" "sy_step E cfg s e = Some s'"
  shows "timers_ok (sy_timers s') \<and> ta_mode (sy_timers s') = Running
      \<and> sy_received s' \<le> length (av_timers (sy_actor s')) \<and> sy_handled s' \<le> length (ta_fired (sy_timers s'))
      \<and> heartbeat_timers d s' = heartbeat_timers d s +
          (if hm_get (av_device_ids (sy_actor s')) d = hm_get (av_device_ids (sy_actor s)) d then 0 else 1)
      \<and> (hm_get (av_device_ids (sy_actor s)) d \<noteq> None \<longrightarrow> hm_get (av_device_ids (sy_actor s')) d \<noteq> None)"
proof -
  have inv: "timers_ok (sy_timers s)" "ta_mode (sy_timers s) = Running"
    "sy_received s \<le> length (av_timers (sy_actor s))" "sy_handled s \<le> length (ta_fired (sy_timers s))"
    using assms(1) by (simp_all add: sy_inv_def)
  show ?thesis
  proof (cases e)
    case (FromMapper m)
    show ?thesis
    proof (cases "av_message_parser E cfg m")
      case None
      with FromMapper assms(3) inv show ?thesis by simp
    next
      case (Some i)
      then obtain a where a: "av_step E cfg (sy_actor s) i = Some a" "s' = s\<lparr>sy_actor := a\<rparr>"
        using FromMapper assms(3) by auto
      have "\<forall>tid. i \<noteq> AvTimer tid"
        using Some by (auto simp: av_message_parser_def split: sum.splits prod.splits channel.splits)
      from registration_timers [OF a(1) this assms(2)] obtain ts where
        ts: "av_timers a = av_timers (sy_actor s) @ ts"
          "count_list (map snd ts) d = (if hm_get (av_device_ids a) d = hm_get (av_device_ids (sy_actor s)) d then 0 else 1)"
          "hm_get (av_device_ids (sy_actor s)) d \<noteq> None \<longrightarrow> hm_get (av_device_ids a) d \<noteq> None"
        by blast
      with inv a(2) show ?thesis by (simp add: heartbeat_timers_def)
    qed
  next
    case (TimerReceives now)
    show ?thesis
    proof (cases "sy_received s < length (av_timers (sy_actor s))")
      case True
      obtain dur tid where w: "av_timers (sy_actor s) ! sy_received s = (dur, tid)" by (rule prod.exhaust)
      obtain t where t: "timer_step (\<lambda>_. True) (sy_timers s) (Request now \<lparr>st_duration = dur, st_event = tid, st_reply_to = ()\<rparr>) = Some t"
        "s' = s\<lparr>sy_timers := t, sy_received := sy_received s + 1\<rparr>"
        using TimerReceives True w assms(3) by (auto simp del: timer_step.simps)
      have "drop (sy_received s) (av_timers (sy_actor s)) = (dur, tid) # drop (Suc (sy_received s)) (av_timers (sy_actor s))"
        using Cons_nth_drop_Suc [OF True] w by simp
      with timer_receives [OF inv(1,2) t(1)] inv True t(2) show ?thesis by (simp add: heartbeat_timers_def)
    qed (use TimerReceives assms(3) inv in simp)
  next
    case (TimerElapses now)
    then obtain t where t: "timer_step (\<lambda>_. True) (sy_timers s) (TimeElapsed now) = Some t" "s' = s\<lparr>sy_timers := t\<rparr>"
      using assms(3) by (auto simp del: timer_step.simps)
    from inv(1,2) t(1) show ?thesis
      by (cases rule: timer_elapses) (use inv t(2) in \<open>simp_all add: heartbeat_timers_def\<close>)
  next
    case TimerReplies
    show ?thesis
    proof (cases "sy_handled s < length (ta_fired (sy_timers s))")
      case True
      obtain now t where w: "ta_fired (sy_timers s) ! sy_handled s = (now, t)" by (rule prod.exhaust)
      have s': "s' = s\<lparr>sy_actor := process_timer_complete E cfg (te_event_id t) (sy_actor s), sy_handled := sy_handled s + 1\<rparr>"
        using TimerReplies True w assms(3) by simp
      have fired: "drop (sy_handled s) (ta_fired (sy_timers s)) = (now, t) # drop (Suc (sy_handled s)) (ta_fired (sy_timers s))"
        using Cons_nth_drop_Suc [OF True] w by simp
      then have "heartbeat_timers (te_event_id t) s \<noteq> 0" by (simp add: heartbeat_timers_def)
      then have "hm_get (av_device_ids (sy_actor s)) (te_event_id t) \<noteq> None"
        using sy_invD [OF assms(1), of "te_event_id t"] by (auto split: if_splits)
      with fired inv True s' assms(2) show ?thesis by (auto simp: heartbeat_timers_def)
    qed (use TimerReplies assms(3) inv in simp)
  qed
qed

lemma sy_step_inv:
  assumes "sy_inv s" "ac_interval cfg \<noteq> 0" "sy_step E cfg s e = Some s'"
  shows "sy_inv s'"
proof -
  note step = sy_step_timers [OF assms]
  have "if hm_get (av_device_ids (sy_actor s')) d = None then heartbeat_timers d s' = 0 else 1 \<le> heartbeat_timers d s'" for d
    using step [of d] sy_invD [OF assms(1), of d] by (auto split: if_splits)
  with step show ?thesis unfolding sy_inv_def by blast
qed

interpretation sy_runs: step_invariant "sy_step E cfg" "\<lambda>_. True" "\<lambda>s. sy_inv s \<and> ac_interval cfg \<noteq> 0" for E cfg
  by unfold_locales (use sy_step_inv in blast)

text \<open>
  C25. While the mapper runs, each device whose health endpoint is known has a heartbeat timer at every moment: requested, running
  or fired and not handled yet; the other devices have none.  No timer of a device ends: each step keeps their number, and
  a step that gives the device another endpoint adds one more.
\<close>

theorem heartbeat_timers_kept:
  assumes "topic_rule (ae_mqtt E)" "ac_interval cfg \<noteq> 0" "sy_start E cfg = Some s0" "run (sy_step E cfg) s0 events = Some s"
  shows "(if hm_get (av_device_ids (sy_actor s)) d = None then heartbeat_timers d s = 0 else 1 \<le> heartbeat_timers d s)
    \<and> (\<forall>e s'. sy_step E cfg s e = Some s' \<longrightarrow> heartbeat_timers d s' = heartbeat_timers d s +
         (if hm_get (av_device_ids (sy_actor s')) d = hm_get (av_device_ids (sy_actor s)) d then 0 else 1))"
proof -
  obtain a where a: "av_init E cfg av_actor_new = Some a"
    "s0 = \<lparr>sy_actor = a, sy_timers = timer_actor_new, sy_received = 0, sy_handled = 0\<rparr>"
    using assms(3) by (auto simp: sy_start_def)
  have "sy_inv s0"
    using av_init_Some [OF a(1) assms(1)] assms(2)
    by (simp add: a(2) sy_inv_def heartbeat_timers_def timer_actor_new_def timers_ok_def pending_timers_def)
  then have inv: "sy_inv s" using sy_runs.run_inv [OF _ _ assms(4)] assms(2) by (simp add: list_all_iff)
  with sy_step_timers [OF inv assms(2)] sy_invD [OF inv] show ?thesis by blast
qed

section \<open>An example\<close>

definition example_av_env :: av_env where
  "example_av_env = \<lparr>ae_mqtt = wildcard_free_mqtt, ae_json = code_serde, ae_csv = quoting_csv, ae_raw = code_raw\<rparr>"

definition example_av_config :: av_config where
  "example_av_config = \<lparr>ac_main_device_id = ''dev'', ac_schema = schema_new, ac_prefix = ''c8y'', ac_enable = True,
     ac_interval = 120000000000\<rparr>"

text \<open>A child device that has an agent, then a service of its own as its endpoint.\<close>

definition monitored_child :: "json option \<Rightarrow> registration" where
  "monitored_child endpoint = \<lparr>reg_topic_id = ''device/child1//'', reg_external_id = Some ''dev:child1'', reg_type = ChildDevice,
     reg_parent = Some ''device/main//'',
     reg_twin_data = (case endpoint of None \<Rightarrow> [] | Some v \<Rightarrow> [(''@health'', v)])\<rparr>"

definition example_av_inputs :: "av_input list" where
  "example_av_inputs =
     [AvRegistration (monitored_child None), AvHealth ''device/child1/service/app'' Up,
      AvRegistration (monitored_child (Some (JString ''device/child1/service/app'')))]"

theorem heartbeat_iff_up_witness:
  "\<exists>a a'. av_run example_av_env example_av_config example_av_inputs = Some a
    \<and> declared wildcard_free_mqtt example_av_inputs ''device/child1//'' = Some ''device/child1/service/app''
    \<and> av_step example_av_env example_av_config a (AvTimer ''device/child1//'') = Some a'
    \<and> (\<exists>xid. av_published a' = av_published a @ [inventory_update_message code_serde xid (JObject []) ''c8y''])"
proof -
  have "av_run example_av_env example_av_config example_av_inputs \<noteq> None" by code_simp
  then obtain a where a: "av_run example_av_env example_av_config example_av_inputs = Some a" by blast
  have "declared wildcard_free_mqtt example_av_inputs ''device/child1//'' = Some ''device/child1/service/app''"
    "reported example_av_inputs ''device/child1/service/app'' = Some Up" by code_simp+
  with heartbeat_iff_up [of example_av_env example_av_config example_av_inputs a "''device/child1//''"] a show ?thesis
    by (auto simp: example_av_env_def example_av_config_def)
qed

lemma availability_never_stops_instance:
  "\<exists>a. av_run example_av_env example_av_config example_av_inputs = Some a"
  by (rule availability_never_stops)
    (simp add: example_av_env_def, code_simp, simp add: example_av_inputs_def monitored_child_def no_wildcard_def)

definition monitored_child_message :: "json option \<Rightarrow> mqtt_message" where
  "monitored_child_message endpoint =
     message_new (topic_new_unchecked ''te/device/child1//'')
       (json_to_text code_serde (JObject (registration_props (monitored_child endpoint))))"

definition example_sy_events :: "sy_event list" where
  "example_sy_events = [FromMapper (monitored_child_message None), TimerReceives 0, TimerReceives 1, TimerElapses 60000000000,
     FromMapper (monitored_child_message (Some (JString ''device/child1/service/app'')))]"

text \<open>The change of the endpoint leaves the child device with two timers.\<close>

theorem heartbeat_timers_kept_witness:
  "\<exists>s0 s. sy_start example_av_env example_av_config = Some s0
    \<and> run (sy_step example_av_env example_av_config) s0 example_sy_events = Some s
    \<and> 1 \<le> heartbeat_timers ''device/child1//'' s"
proof -
  let ?E = example_av_env and ?cfg = example_av_config
  have "map_option (\<lambda>s. hm_contains (av_device_ids (sy_actor s)) ''device/child1//'')
      (sy_start ?E ?cfg \<bind> (\<lambda>s0. run (sy_step ?E ?cfg) s0 example_sy_events)) = Some True"
    by code_simp
  then obtain s0 s where s: "sy_start ?E ?cfg = Some s0" "run (sy_step ?E ?cfg) s0 example_sy_events = Some s"
    "hm_get (av_device_ids (sy_actor s)) ''device/child1//'' \<noteq> None"
    by (auto simp: hm_contains_iff split: bind_splits)
  have "topic_rule (ae_mqtt ?E)" "ac_interval ?cfg \<noteq> 0"
    by (simp_all add: example_av_env_def example_av_config_def)
  from heartbeat_timers_kept [OF this s(1,2), of "''device/child1//''"] s show ?thesis by auto
qed

lemma endpoint_change_adds_timer:
  "map_option (heartbeat_timers ''device/child1//'')
     (sy_start example_av_env example_av_config \<bind> (\<lambda>s0. run (sy_step example_av_env example_av_config) s0 example_sy_events))
   = Some 2"
  by code_simp

section \<open>What the monitoring misses\<close>

text \<open>
  A device that is deregistered is monitored for ever: the message that clears it gives no input, and no input removes a
  device.
\<close>

lemma deregistered_device_kept:
  assumes "json_of_text (ae_json E) [] = None" "mm_payload m = []"
    and "\<nexists>source. entity_channel_of (ae_mqtt E) (ac_schema cfg) (topic_name (mm_topic m)) = Inr (source, Health)"
  shows "av_message_parser E cfg m = None"
    "av_step E cfg a i = Some a' \<Longrightarrow> hm_get (av_device_ids a) d \<noteq> None \<Longrightarrow> hm_get (av_device_ids a') d \<noteq> None"
proof -
  have "payload_bytes m = []" by (rule payload_bytes_text) (use assms(2) in simp_all)
  then have "registration_of_message (ae_mqtt E) (ae_json E) m = None"
    using assms(1) by (simp add: registration_of_message_def parse_entity_register_payload_def)
  with assms(3) show "av_message_parser E cfg m = None"
    by (auto simp: av_message_parser_def split: sum.splits prod.splits channel.splits)
next
  assume step: "av_step E cfg a i = Some a'" "hm_get (av_device_ids a) d \<noteq> None"
  show "hm_get (av_device_ids a') d \<noteq> None"
  proof (cases i)
    case (AvRegistration r)
    with step have "av_process_registration E cfg r a = Some a'" by simp
    then show ?thesis by (cases rule: registration_cases) (use step(2) in \<open>auto simp: update_conv'\<close>)
  qed (use step in auto)
qed

text \<open>
  A mosquitto bridge that is the health endpoint of a device is never up for the monitoring, while the mapper reads its status.
\<close>

lemma availability_ignores_mosquitto_status:
  assumes "entity_channel_of (ae_mqtt E) (ac_schema cfg) (topic_name (mm_topic m)) = Inr (source, Health)"
    and "entity_is_mosquitto_bridge_service source" "mm_payload m = ''1''" "ae_raw E ''1'' = Some (RNumber (PosInt 1))"
  shows "try_from_health_status_message (ae_mqtt E) (ae_raw E) m (ac_schema cfg) = Some Up"
    "av_message_parser E cfg m = Some (AvHealth source (Other ''unknown''))"
proof -
  have "payload_bytes m = ''1''" by (rule payload_bytes_text) (use assms(3) in simp_all)
  moreover have "from_utf8 ''1'' = Some ''1''" by code_simp
  ultimately show "try_from_health_status_message (ae_mqtt E) (ae_raw E) m (ac_schema cfg) = Some Up"
    using assms by (simp add: try_from_health_status_message_def)
  show "av_message_parser E cfg m = Some (AvHealth source (Other ''unknown''))"
    using assms by (simp add: av_message_parser_def read_health_status_def status_default_def)
qed

end
