(* ===== verification/Cloud_Events.thy ===== *)
theory Cloud_Events
  imports Health
begin

text \<open>
  Events and inventory fragments, from thin-edge to Cumulocity: the payloads of events (\<^verbatim>\<open>tedge_api/src/event.rs\<close>), the events of
  Cumulocity (\<^verbatim>\<open>c8y_api/src/json_c8y.rs\<close>) and their conversion (\<^verbatim>\<open>c8y_mapper_ext/src/converter.rs\<close>), the twin data of the
  entities and the registrations (\<^verbatim>\<open>inventory.rs\<close>, \<^verbatim>\<open>fragments.rs\<close>, \<^verbatim>\<open>converter.rs\<close>).  The order in which a hash map is
  written and the outcome of a request over HTTP are parameters.
\<close>

section \<open>Values that are read\<close>

text \<open>The value of what is written: of the entries of an object with the same key, the last one counts.\<close>

fun raw_value :: "jraw \<Rightarrow> json" where
  "raw_value RNull = JNull"
| "raw_value (RBool b) = JBool b"
| "raw_value (RNumber n) = JNumber n"
| "raw_value (RString s) = JString s"
| "raw_value (RArray vs) = JArray (map raw_value vs)"
| "raw_value (RObject es) = JObject (bt_extend [] (map (\<lambda>(k, v). (k, raw_value v)) es))"

section \<open>Events\<close>

record 't event_data =
  evd_text :: "string option"
  evd_time :: "'t option"
  evd_extras :: "(string, json) hmap"

text \<open>
  \<^verbatim>\<open>Deserialize for ThinEdgeEventData\<close>: the entries are read one after the other, with the fields found so far.  A field that comes twice
  is an error, and so is a value of another type; the outer \<^term>\<open>None\<close> is the panic of a time out of range.
\<close>

fun event_data_fields ::
  "'t time_crate \<Rightarrow> (string \<times> jraw) list \<Rightarrow> string option option \<Rightarrow> 't option option \<Rightarrow> (string, json) hmap \<Rightarrow> 't event_data option panics" where
  "event_data_fields T [] txt time extras =
     Some (Some \<lparr>evd_text = (case txt of Some t \<Rightarrow> t | None \<Rightarrow> None),
                 evd_time = (case time of Some t \<Rightarrow> t | None \<Rightarrow> None), evd_extras = extras\<rparr>)"
| "event_data_fields T ((k, v) # es) txt time extras =
     (if k = ''text'' then
        (if txt \<noteq> None then Some None
         else case v of
                RNull \<Rightarrow> event_data_fields T es (Some None) time extras
              | RString s \<Rightarrow> event_data_fields T es (Some (Some s)) time extras
              | _ \<Rightarrow> Some None)
      else if k = ''time'' then
        (if time \<noteq> None then Some None
         else if v = RNull then event_data_fields T es txt (Some None) extras
         else case iso_or_unix T (raw_value v) of
                None \<Rightarrow> None
              | Some None \<Rightarrow> Some None
              | Some (Some t) \<Rightarrow> event_data_fields T es txt (Some (Some t)) extras)
      else event_data_fields T es txt time (hm_insert k (raw_value v) extras))"

fun event_data_of_raw :: "'t time_crate \<Rightarrow> jraw \<Rightarrow> 't event_data option panics" where
  "event_data_of_raw T (RObject es) = event_data_fields T es None None []"
| "event_data_of_raw T _ = Some None"

record 't tedge_event =
  tev_name :: string
  tev_data :: "'t event_data option"
  tev_source :: "string option"

definition tedge_event_try_from ::
  "(string \<Rightarrow> jraw option) \<Rightarrow> 't time_crate \<Rightarrow> string \<Rightarrow> entity_type \<Rightarrow> string \<Rightarrow> string \<Rightarrow> 't tedge_event option panics" where
  "tedge_event_try_from R T event_type ty external_id payload =
     (let source = (if ty = MainDevice then None else Some external_id);
          event = (\<lambda>d. \<lparr>tev_name = event_type, tev_data = d, tev_source = source\<rparr>)
      in if payload = [] then Some (Some (event None))
         else case R payload of
                None \<Rightarrow> Some None
              | Some v \<Rightarrow> map_option (map_option (\<lambda>d. event (Some d))) (event_data_of_raw T v))"

record 't c8y_create_event =
  cev_type :: string
  cev_time :: 't
  cev_text :: string
  cev_extras :: "(string, json) hmap"

definition update_the_external_source_event :: "string \<Rightarrow> (string, json) hmap \<Rightarrow> (string, json) hmap" where
  "update_the_external_source_event source extras =
     hm_insert ''externalSource'' (JObject [(''externalId'', JString source), (''type'', JString ''c8y_Serial'')]) extras"

definition c8y_event_from :: "'t \<Rightarrow> 't tedge_event \<Rightarrow> 't c8y_create_event" where
  "c8y_event_from now event =
     (let extras = (case tev_source event of Some source \<Rightarrow> update_the_external_source_event source [] | None \<Rightarrow> []) in
      case tev_data event of
        None \<Rightarrow> \<lparr>cev_type = tev_name event, cev_time = now, cev_text = tev_name event, cev_extras = extras\<rparr>
      | Some event_data \<Rightarrow>
          let extras = fold (\<lambda>(k, v). hm_insert k v) (evd_extras event_data) extras;
              event_type = (case hm_get extras ''type'' of
                              Some (JString new_type) \<Rightarrow> if new_type \<noteq> [] then new_type else tev_name event
                            | _ \<Rightarrow> tev_name event);
              extras = hm_remove ''type'' extras
          in \<lparr>cev_type = event_type,
              cev_time = (case evd_time event_data of Some t \<Rightarrow> t | None \<Rightarrow> now),
              cev_text = (case evd_text event_data of Some t \<Rightarrow> t | None \<Rightarrow> event_type),
              cev_extras = extras\<rparr>)"

text \<open>The JSON of an event, with its fields in the order of the struct and those of the map in the order of its iteration.\<close>

definition create_event_json ::
  "'t time_crate \<Rightarrow> ((string, json) hmap \<Rightarrow> (string \<times> json) list) \<Rightarrow> 't c8y_create_event \<Rightarrow> json option" where
  "create_event_json T order e = do {
     time \<leftarrow> time_format T (cev_time e);
     Some (JObject ([(''type'', JString (cev_type e)), (''time'', JString time), (''text'', JString (cev_text e))]
       @ order (cev_extras e))) }"

definition serialize_to_smartrest :: "'t time_crate \<Rightarrow> 't c8y_create_event \<Rightarrow> string option" where
  "serialize_to_smartrest T e =
     map_option (\<lambda>time. decimal 400 @ '','' @ cev_type e @ '','' @ [quote] @ cev_text e @ [quote] @ '','' @ time) (time_format T (cev_time e))"

section \<open>Conversion of events\<close>

record 't event_env =
  ee_raw :: "string \<Rightarrow> jraw option"
  ee_json :: serde
  ee_time :: "'t time_crate"
  ee_order :: "(string, json) hmap \<Rightarrow> (string \<times> json) list"
  ee_prefix :: string
  ee_threshold :: nat

datatype event_error = EventNotUtf8 string | EventNotJson string | EventTimeFormat | EventSerdeJson | EventHttp

record 't create_event =
  cre_type :: string
  cre_time :: 't
  cre_text :: string
  cre_extras :: "(string, json) hmap"
  cre_device_id :: string

text \<open>What a conversion gives: messages to publish, or an event that is sent over HTTP.\<close>

datatype 't event_output = PublishEvents "mqtt_message list" | SendEvent "'t create_event"

definition can_send_over_mqtt :: "nat \<Rightarrow> mqtt_message \<Rightarrow> bool" where
  "can_send_over_mqtt threshold message \<longleftrightarrow> length (payload_bytes message) < threshold"

definition event_message :: "'t event_env \<Rightarrow> 't c8y_create_event \<Rightarrow> event_error + mqtt_message" where
  "event_message E e =
     (if cev_extras e = [] then
        (case serialize_to_smartrest (ee_time E) e of
           None \<Rightarrow> Inl EventTimeFormat
         | Some smartrest_event \<Rightarrow> Inr (message_new (upstream_topic (ee_prefix E)) smartrest_event))
      else
        (case create_event_json (ee_time E) (ee_order E) e of
           None \<Rightarrow> Inl EventSerdeJson
         | Some v \<Rightarrow> Inr (message_new (topic_new_unchecked (ee_prefix E @ ''/event/events/create'')) (json_to_text (ee_json E) v))))"

definition try_convert_event ::
  "'t event_env \<Rightarrow> 't \<Rightarrow> entity_cache \<Rightarrow> entity_topic_id \<Rightarrow> mqtt_message \<Rightarrow> string \<Rightarrow> (event_error + 't event_output) panics" where
  "try_convert_event E now cache source input event_type =
     (let event_type = (if event_type = [] then ''ThinEdgeEvent'' else event_type) in
      case cache_get source cache of
        None \<Rightarrow> Some (Inr (PublishEvents []))
      | Some entity \<Rightarrow>
          (case from_utf8 (payload_bytes input) of
             None \<Rightarrow> Some (Inl (EventNotUtf8 (topic_name (mm_topic input))))
           | Some payload \<Rightarrow> do {
               tedge_event \<leftarrow> tedge_event_try_from (ee_raw E) (ee_time E) event_type (em_type (ce_metadata entity))
                 (ce_external_id entity) payload;
               Some (case tedge_event of
                       None \<Rightarrow> Inl (EventNotJson (topic_name (mm_topic input)))
                     | Some tedge_event \<Rightarrow>
                         let c8y_event = c8y_event_from now tedge_event in
                         case event_message E c8y_event of
                           Inl err \<Rightarrow> Inl err
                         | Inr message \<Rightarrow>
                             if can_send_over_mqtt (ee_threshold E) message then Inr (PublishEvents [message])
                             else Inr (SendEvent \<lparr>cre_type = cev_type c8y_event, cre_time = cev_time c8y_event,
                               cre_text = cev_text c8y_event, cre_extras = cev_extras c8y_event,
                               cre_device_id = ce_external_id entity\<rparr>)) }))"

section \<open>Inventory\<close>

datatype inventory_error = InventoryCache cache_error | InventorySerde | InventoryOption | InventoryValue

definition get_inventory_update_topic :: "string \<Rightarrow> entity_cache \<Rightarrow> entity_topic_id \<Rightarrow> cache_error + topic" where
  "get_inventory_update_topic pfx cache source =
     (case cache_try_get source cache of
        Inl err \<Rightarrow> Inl err
      | Inr e \<Rightarrow> Inr (topic_new_unchecked (pfx @ ''/inventory/managedObjects/update/'' @ ce_external_id e)))"

definition twin_inventory_message :: "serde \<Rightarrow> string \<Rightarrow> entity_cache \<Rightarrow> entity_topic_id \<Rightarrow> json \<Rightarrow> cache_error + mqtt_message" where
  "twin_inventory_message J pfx cache source fragment_value =
     (case get_inventory_update_topic pfx cache source of
        Inl err \<Rightarrow> Inl err
      | Inr t \<Rightarrow> Inr (message_new t (json_to_text J fragment_value)))"

definition inventory_key :: "entity_type \<Rightarrow> string \<Rightarrow> string" where
  "inventory_key ty fragment_key =
     (let fragment_key = (if fragment_key = ''firmware'' then ''c8y_Firmware'' else fragment_key) in
      if ty = Service \<and> fragment_key = ''type'' then ''serviceType'' else fragment_key)"

definition convert_twin_fragment ::
  "serde \<Rightarrow> string \<Rightarrow> entity_cache \<Rightarrow> entity_topic_id \<Rightarrow> entity_type \<Rightarrow> string \<Rightarrow> json \<Rightarrow> cache_error + mqtt_message list" where
  "convert_twin_fragment J pfx cache source ty fragment_key fragment_value =
     (case twin_inventory_message J pfx cache source (JObject [(inventory_key ty fragment_key, fragment_value)]) of
        Inl err \<Rightarrow> Inl err
      | Inr m \<Rightarrow> Inr [m])"

definition try_convert_twin_fragment ::
  "serde \<Rightarrow> string \<Rightarrow> entity_topic_id \<Rightarrow> entity_type \<Rightarrow> string \<Rightarrow> json \<Rightarrow> entity_cache
     \<Rightarrow> (cache_error + mqtt_message list) \<times> entity_cache" where
  "try_convert_twin_fragment J pfx source ty fragment_key fragment_value cache =
     (case cache_update_twin_data (twin_message_new source fragment_key fragment_value) cache of
        (Inl err, cache) \<Rightarrow> (Inl err, cache)
      | (Inr updated, cache) \<Rightarrow>
          (if \<not> updated then Inr [] else convert_twin_fragment J pfx cache source ty fragment_key fragment_value, cache))"

definition try_convert_entity_twin_data ::
  "serde \<Rightarrow> string \<Rightarrow> entity_topic_id \<Rightarrow> entity_type \<Rightarrow> mqtt_message \<Rightarrow> string \<Rightarrow> entity_cache
     \<Rightarrow> (inventory_error + mqtt_message list) \<times> entity_cache" where
  "try_convert_entity_twin_data J pfx source ty message fragment_key cache =
     (case (if payload_bytes message = [] then Some JNull else json_of_text J (payload_bytes message)) of
        None \<Rightarrow> (Inl InventorySerde, cache)
      | Some fragment_value \<Rightarrow>
          (case try_convert_twin_fragment J pfx source ty fragment_key fragment_value cache of
             (res, cache) \<Rightarrow> (map_sum InventoryCache id res, cache)))"

text \<open>The outcome of reading the file of the inventory: the failure to open or read it, or its text.\<close>

definition agent_fragment :: "string \<Rightarrow> json" where
  "agent_fragment version = JObject [(''name'', JString ''thin-edge.io''), (''url'', JString ''https://thin-edge.io''),
     (''version'', JString version)]"

definition get_inventory_fragments :: "serde \<Rightarrow> string \<Rightarrow> string option \<Rightarrow> inventory_error + json" where
  "get_inventory_fragments J version content =
     (let json_fragment = JObject [(''c8y_Agent'', agent_fragment version)] in
      case content \<bind> json_of_text J of
        Some v \<Rightarrow> (case as_object v of
                     None \<Rightarrow> Inl InventoryOption
                   | Some m \<Rightarrow> Inr (JObject (bt_insert ''c8y_Agent'' (agent_fragment version) m)))
      | None \<Rightarrow> Inr json_fragment)"

definition entity_twin_data_message ::
  "rumqttc \<Rightarrow> serde \<Rightarrow> mqtt_schema \<Rightarrow> entity_topic_id \<Rightarrow> string \<Rightarrow> json \<Rightarrow> mqtt_message panics" where
  "entity_twin_data_message L J S entity fragment_key fragment_value =
     map_option (\<lambda>t. with_retain (message_new t (json_to_text J fragment_value))) (topic_for L S entity (EntityTwinData fragment_key))"

fun twin_data_messages ::
  "rumqttc \<Rightarrow> serde \<Rightarrow> mqtt_schema \<Rightarrow> entity_topic_id \<Rightarrow> (string \<times> json) list \<Rightarrow> mqtt_message list panics" where
  "twin_data_messages L J S entity [] = Some []"
| "twin_data_messages L J S entity ((k, v) # m) = do {
     message \<leftarrow> entity_twin_data_message L J S entity k v;
     messages \<leftarrow> twin_data_messages L J S entity m;
     Some (message # messages) }"

definition insert_default :: "string \<Rightarrow> json \<Rightarrow> jmap \<Rightarrow> jmap" where
  "insert_default k v m = (if bt_get m k = None then bt_insert k v m else m)"

definition base_inventory_twin_data ::
  "rumqttc \<Rightarrow> serde \<Rightarrow> mqtt_schema \<Rightarrow> string \<Rightarrow> string option \<Rightarrow> string \<Rightarrow> string \<Rightarrow> entity_topic_id
     \<Rightarrow> (inventory_error + mqtt_message list) panics" where
  "base_inventory_twin_data L J S version content device_name device_type device_topic_id =
     (case get_inventory_fragments J version content of
        Inl err \<Rightarrow> Some (Inl err)
      | Inr inventory_base \<Rightarrow>
          (case as_object inventory_base of
             None \<Rightarrow> Some (Inr [])
           | Some m \<Rightarrow> map_option Inr (twin_data_messages L J S device_topic_id
               (insert_default ''type'' (JString device_type) (insert_default ''name'' (JString device_name) m)))))"

section \<open>Registrations\<close>

datatype registration_error = RegistrationCache cache_error | RegistrationValue invalid_value

fun convert_fragments ::
  "serde \<Rightarrow> string \<Rightarrow> entity_cache \<Rightarrow> entity_topic_id \<Rightarrow> entity_type \<Rightarrow> (string \<times> json) list \<Rightarrow> cache_error + mqtt_message list" where
  "convert_fragments J pfx cache tid ty [] = Inr []"
| "convert_fragments J pfx cache tid ty ((k, v) # m) =
     (if k = ''name'' \<or> k = ''type'' then convert_fragments J pfx cache tid ty m
      else case convert_twin_fragment J pfx cache tid ty k v of
             Inl err \<Rightarrow> Inl err
           | Inr twin_messages \<Rightarrow> map_sum id (\<lambda>ms. twin_messages @ ms) (convert_fragments J pfx cache tid ty m))"

definition creation_message ::
  "rumqttc \<Rightarrow> csv_lib \<Rightarrow> string \<Rightarrow> string \<Rightarrow> string \<Rightarrow> entity_cache \<Rightarrow> registration \<Rightarrow> string
     \<Rightarrow> (registration_error + mqtt_message option) panics" where
  "creation_message L C pfx device_name service_type cache input external_id =
     (let shown_name = bt_get (reg_twin_data input) ''name'' \<bind> as_str;
          shown_type = bt_get (reg_twin_data input) ''type'' \<bind> as_str;
          with_parent = (\<lambda>f. do {
            parent \<leftarrow> parent_external_id (reg_topic_id input) cache;
            case parent of
              Inl err \<Rightarrow> Some (Inl (RegistrationCache err))
            | Inr parent_xid \<Rightarrow> map_option (map_sum RegistrationValue Some) (f parent_xid) })
      in case reg_type input of
           MainDevice \<Rightarrow> Some (Inr None)
         | ChildDevice \<Rightarrow> with_parent (\<lambda>parent_xid. child_device_creation_message L C external_id
             (Some (case shown_name of Some n \<Rightarrow> n | None \<Rightarrow> external_id))
             (Some (case shown_type of Some t \<Rightarrow> t | None \<Rightarrow> ''thin-edge.io-child'')) parent_xid device_name pfx)
         | Service \<Rightarrow> with_parent (\<lambda>parent_xid. service_creation_message L C external_id
             (case shown_name of
                Some n \<Rightarrow> n
              | None \<Rightarrow> (case default_service_name (reg_topic_id input) of Some n \<Rightarrow> n | None \<Rightarrow> external_id))
             (case shown_type of Some t \<Rightarrow> t | None \<Rightarrow> service_type) ''up'' parent_xid device_name pfx))"

definition try_convert_entity_registration ::
  "rumqttc \<Rightarrow> csv_lib \<Rightarrow> serde \<Rightarrow> string \<Rightarrow> string \<Rightarrow> string \<Rightarrow> entity_cache \<Rightarrow> registration
     \<Rightarrow> (registration_error + mqtt_message list) panics" where
  "try_convert_entity_registration L C J pfx device_name service_type cache input =
     (case try_get_external_id (reg_topic_id input) cache of
        Inl err \<Rightarrow> Some (Inl (RegistrationCache err))
      | Inr external_id \<Rightarrow> do {
          reg_message \<leftarrow> creation_message L C pfx device_name service_type cache input external_id;
          Some (case reg_message of
                  Inl err \<Rightarrow> Inl err
                | Inr m \<Rightarrow> map_sum RegistrationCache (\<lambda>ms. (case m of Some m \<Rightarrow> [m] | None \<Rightarrow> []) @ ms)
                    (convert_fragments J pfx cache (reg_topic_id input) (reg_type input) (reg_twin_data input))) })"

text \<open>
  The messages of a registration: the one that creates the entity comes first, then one for each fragment except the name and the
  type, in order, on the inventory topic of the entity.
\<close>

lemma convert_fragments_registered:
  assumes "cache_get tid cache = Some e"
  shows "convert_fragments J pfx cache tid ty m = Inr
    (map (\<lambda>(k, v). message_new (topic_new_unchecked (pfx @ ''/inventory/managedObjects/update/'' @ ce_external_id e))
       (json_to_text J (JObject [(inventory_key ty k, v)])))
     (filter (\<lambda>(k, v). k \<noteq> ''name'' \<and> k \<noteq> ''type'') m))"
  using assms
  by (induction m) (auto simp: convert_twin_fragment_def twin_inventory_message_def get_inventory_update_topic_def cache_try_get_def)

lemma registration_messages:
  assumes "cache_get (reg_topic_id r) cache = Some e"
    and "creation_message L C pfx device_name service_type cache r (ce_external_id e) = Some (Inr m)"
  shows "try_convert_entity_registration L C J pfx device_name service_type cache r = Some (Inr
    ((case m of Some m \<Rightarrow> [m] | None \<Rightarrow> []) @
     map (\<lambda>(k, v). message_new (topic_new_unchecked (pfx @ ''/inventory/managedObjects/update/'' @ ce_external_id e))
       (json_to_text J (JObject [(inventory_key (reg_type r) k, v)])))
     (filter (\<lambda>(k, v). k \<noteq> ''name'' \<and> k \<noteq> ''type'') (reg_twin_data r))))"
  using assms
  by (simp add: try_convert_entity_registration_def try_get_external_id_def cache_try_get_def convert_fragments_registered
      del: convert_fragments.simps)

section \<open>The fields of an event\<close>

lemma event_data_fields_extras:
  assumes "event_data_fields T es seen time extras = Some (Some d)" "k \<noteq> ''text''" "k \<noteq> ''time''"
  shows "hm_get (evd_extras d) k = (case map_of (rev es) k of Some v \<Rightarrow> Some (raw_value v) | None \<Rightarrow> hm_get extras k)"
  using assms
proof (induction es arbitrary: seen time extras)
  case (Cons e es)
  obtain k' v where e: "e = (k', v)" by (cases e)
  have more: "map_of (rev (e # es)) k = (case map_of (rev es) k of Some v \<Rightarrow> Some v | None \<Rightarrow> if k = k' then Some v else None)"
    by (simp add: e map_add_def split: option.split)
  show ?case
  proof (cases "k' = ''text'' \<or> k' = ''time''")
    case True
    then have "\<exists>seen' time'. event_data_fields T es seen' time' extras = Some (Some d)"
      using Cons.prems(1) by (auto simp: e split: if_splits jraw.splits option.splits)
    with Cons.IH True Cons.prems(2,3) show ?thesis unfolding more by (auto split: option.split)
  next
    case False
    then have "event_data_fields T es seen time (hm_insert k' (raw_value v) extras) = Some (Some d)"
      using Cons.prems(1) by (simp add: e)
    with Cons.IH Cons.prems(2,3) show ?thesis unfolding more by (auto simp: update_conv' split: option.split)
  qed
qed auto

lemma fold_insert_get:
  "hm_get (fold (\<lambda>(k, v). hm_insert k v) kvs m) k = (case map_of (rev kvs) k of Some v \<Rightarrow> Some v | None \<Rightarrow> hm_get m k)"
  by (induction kvs arbitrary: m) (auto simp: update_conv' map_add_def split: option.split)

lemma event_data_fields_distinct:
  "event_data_fields T es seen time extras = Some (Some d) \<Longrightarrow> distinct (map fst extras) \<Longrightarrow> distinct (map fst (evd_extras d))"
  by (induction T es seen time extras rule: event_data_fields.induct)
    (auto simp: distinct_update split: if_splits jraw.splits option.splits)

text \<open>The device an event comes from, as an object of the event.\<close>

definition own_source :: "cloud_entity \<Rightarrow> json option" where
  "own_source entity = (if em_type (ce_metadata entity) = MainDevice then None
     else Some (JObject [(''externalId'', JString (ce_external_id entity)), (''type'', JString ''c8y_Serial'')]))"

definition event_of :: "string \<Rightarrow> cloud_entity \<Rightarrow> 't event_data option \<Rightarrow> 't tedge_event" where
  "event_of event_type entity d = \<lparr>tev_name = (if event_type = [] then ''ThinEdgeEvent'' else event_type), tev_data = d,
     tev_source = (if em_type (ce_metadata entity) = MainDevice then None else Some (ce_external_id entity))\<rparr>"

text \<open>The further fields of an event: those of the payload, the last one of those with the same key, and the device it comes from.\<close>

definition event_field :: "cloud_entity \<Rightarrow> (string \<times> jraw) list \<Rightarrow> string \<Rightarrow> json option" where
  "event_field entity es k =
     (if k \<in> {''text'', ''time'', ''type''} then None
      else case map_of (rev es) k of
             Some v \<Rightarrow> Some (raw_value v) | None \<Rightarrow> if k = ''externalSource'' then own_source entity else None)"

lemma event_data_fields_reserved:
  assumes "event_data_fields T es seen time extras = Some (Some d)" "k \<in> {''text'', ''time''}"
  shows "hm_get (evd_extras d) k = hm_get extras k"
  using assms
  by (induction T es seen time extras rule: event_data_fields.induct)
    (auto simp: update_conv' split: if_splits jraw.splits option.splits)

lemma event_data_fields_text:
  "event_data_fields T es seen time extras = Some (Some d) \<Longrightarrow> evd_text d =
     (case seen of Some t \<Rightarrow> t | None \<Rightarrow> (case map_of es ''text'' of Some (RString s) \<Rightarrow> Some s | _ \<Rightarrow> None))"
  by (induction T es seen time extras rule: event_data_fields.induct)
    (auto split: if_splits jraw.splits option.splits)

lemma event_data_fields_time:
  "event_data_fields T es seen time extras = Some (Some d) \<Longrightarrow>
     (case time of
        Some t \<Rightarrow> evd_time d = t
      | None \<Rightarrow> (case map_of es ''time'' of
           None \<Rightarrow> evd_time d = None
         | Some v \<Rightarrow> if v = RNull then evd_time d = None else iso_or_unix T (raw_value v) = Some (evd_time d) \<and> evd_time d \<noteq> None))"
  by (induction T es seen time extras rule: event_data_fields.induct)
    (auto split: if_splits jraw.splits option.splits)

lemma event_data_extras:
  assumes "event_data_of_raw T (RObject es) = Some (Some d)"
  shows "map_of (rev (evd_extras d)) k =
    (if k \<in> {''text'', ''time''} then None else map_option raw_value (map_of (rev es) k))"
proof -
  have "map_of (rev (evd_extras d)) k = hm_get (evd_extras d) k"
    using event_data_fields_distinct [of T es None None "[]" d] assms
      map_of_inject_set [of "rev (evd_extras d)" "evd_extras d"] by (simp add: rev_map [symmetric])
  then show ?thesis
    using event_data_fields_extras [of T es None None "[]" d k] event_data_fields_reserved [of T es None None "[]" d k] assms
    by (auto split: option.splits)
qed

text \<open>The event of Cumulocity, field by field.\<close>

lemma c8y_event_fields:
  assumes "event_data_of_raw T (RObject es) = Some (Some d)" "event = c8y_event_from now (event_of event_type entity (Some d))"
    and "name = (if event_type = [] then ''ThinEdgeEvent'' else event_type)"
  shows "hm_get (cev_extras event) k = event_field entity es k"
    and "distinct (map fst (cev_extras event))"
    and "cev_type event = (case map_of (rev es) ''type'' of Some (RString s) \<Rightarrow> if s = [] then name else s | _ \<Rightarrow> name)"
    and "cev_text event = (case map_of es ''text'' of Some (RString s) \<Rightarrow> s | _ \<Rightarrow> cev_type event)"
    and "cev_time event = (case evd_time d of Some t \<Rightarrow> t | None \<Rightarrow> now)"
proof -
  note more = event_data_extras [OF assms(1)]
  have distinct: "distinct (map fst (fold (\<lambda>(k, v). hm_insert k v) kvs m))" if "distinct (map fst m)" for kvs and m :: "(string, json) hmap"
    using that by (induction kvs arbitrary: m) (auto simp: distinct_update)
  show "distinct (map fst (cev_extras event))"
    by (auto simp: assms(2) c8y_event_from_def event_of_def Let_def update_the_external_source_event_def intro!: distinct_delete distinct)
  show "hm_get (cev_extras event) k = event_field entity es k"
    by (auto simp: assms(2) c8y_event_from_def event_of_def own_source_def event_field_def update_the_external_source_event_def Let_def
        delete_conv' fold_insert_get more split: option.split)
  show "cev_type event = (case map_of (rev es) ''type'' of Some (RString s) \<Rightarrow> if s = [] then name else s | _ \<Rightarrow> name)"
    by (auto simp: assms(2,3) c8y_event_from_def event_of_def update_the_external_source_event_def Let_def
        fold_insert_get more split: option.split jraw.split)
  have "evd_text d = (case map_of es ''text'' of Some (RString s) \<Rightarrow> Some s | _ \<Rightarrow> None)"
    using event_data_fields_text [of T es None None "[]" d] assms(1) by simp
  then show "cev_text event = (case map_of es ''text'' of Some (RString s) \<Rightarrow> s | _ \<Rightarrow> cev_type event)"
    by (auto simp: assms(2) c8y_event_from_def event_of_def Let_def split: option.split jraw.split)
  show "cev_time event = (case evd_time d of Some t \<Rightarrow> t | None \<Rightarrow> now)"
    by (simp add: assms(2) c8y_event_from_def event_of_def Let_def)
qed

text \<open>The JSON object of an event, as a list of its fields.\<close>

lemma event_json_fields:
  assumes "mset (order extras) = mset extras" "distinct (map fst extras)"
    and "\<And>k. k \<in> {''text'', ''time'', ''type''} \<Longrightarrow> hm_get extras k = None"
    and "body = [(''type'', v1), (''time'', v2), (''text'', v3)] @ order extras"
  shows "distinct (map fst body)"
    and "map_of body = (hm_get extras)(''type'' \<mapsto> v1, ''time'' \<mapsto> v2, ''text'' \<mapsto> v3)"
proof -
  have "mset (map fst (order extras)) = mset (map fst extras)" using assms(1) by simp
  then have d: "distinct (map fst (order extras))" using assms(2) by (metis mset_eq_imp_distinct_iff)
  have "set (order extras) = set extras" using assms(1) by (metis set_mset_mset)
  with d assms(2) have "map_of (order extras) = map_of extras" by (intro map_of_inject_set [THEN iffD2])
  moreover from this have "k \<notin> fst ` set (order extras)" if "k \<in> {''text'', ''time'', ''type''}" for k
    using assms(3) [OF that] by (metis map_of_eq_None_iff)
  ultimately show "distinct (map fst body)"
    "map_of body = (hm_get extras)(''type'' \<mapsto> v1, ''time'' \<mapsto> v2, ''text'' \<mapsto> v3)"
    using d by (auto simp: assms(4))
qed

lemma smartrest_event_text: "decimal 400 = ''400''"
  by code_simp

text \<open>
  C26. An event of a registered entity, with a payload that is accepted and a time that has a text, is never lost: it becomes one
  message below the size limit, or is sent over HTTP.  Its type is the one of the payload, unless that is empty or no text, or else the one
  of the topic; its text is the one of the payload or its type; its time is the one of the payload or the current one.  It keeps
  every further field of the payload, the last one of those with the same key, and names the child device or service it comes
  from, unless the payload itself has a field \<^verbatim>\<open>externalSource\<close>, which is sent as it is.  The message is the SmartREST record of
  the type, the text and the time when there is no further field, and else the JSON object of all the fields, each once.
\<close>

theorem events_converted:
  fixes E :: "'t event_env"
  assumes "cache_get source cache = Some entity" "from_utf8 (payload_bytes input) = Some payload" "payload \<noteq> []"
    and "ee_raw E payload = Some (RObject es)" "event_data_of_raw (ee_time E) (RObject es) = Some (Some d)"
    and "\<forall>m. mset (ee_order E m) = mset m"
    and "case map_of es ''time'' of Some v \<Rightarrow> if v = RNull then t = now else iso_or_unix (ee_time E) (raw_value v) = Some (Some t)
      | None \<Rightarrow> t = now"
    and "time_format (ee_time E) t = Some time"
    and "name = (if event_type = [] then ''ThinEdgeEvent'' else event_type)"
    and "ty = (case map_of (rev es) ''type'' of Some (RString s) \<Rightarrow> if s = [] then name else s | _ \<Rightarrow> name)"
    and "txt = (case map_of es ''text'' of Some (RString s) \<Rightarrow> s | _ \<Rightarrow> ty)"
  shows "\<exists>extras body m. try_convert_event E now cache source input event_type = Some (Inr
        (if length (payload_bytes m) < ee_threshold E then PublishEvents [m]
         else SendEvent \<lparr>cre_type = ty, cre_time = t, cre_text = txt, cre_extras = extras, cre_device_id = ce_external_id entity\<rparr>))
    \<and> m = (if extras = []
        then message_new (upstream_topic (ee_prefix E)) (''400,'' @ ty @ '','' @ [quote] @ txt @ [quote] @ '','' @ time)
        else message_new (topic_new_unchecked (ee_prefix E @ ''/event/events/create'')) (json_to_text (ee_json E) (JObject body)))
    \<and> (\<forall>k. hm_get extras k = event_field entity es k) \<and> distinct (map fst extras) \<and> distinct (map fst body)
    \<and> map_of body = (event_field entity es)(''type'' \<mapsto> JString ty, ''time'' \<mapsto> JString time, ''text'' \<mapsto> JString txt)"
proof -
  define ev where "ev = event_of event_type entity (Some d)"
  define e where "e = c8y_event_from now ev"
  note body = c8y_event_fields [OF assms(5) e_def [unfolded ev_def] assms(9)]
  have ty: "cev_type e = ty" using body(3) assms(10) by simp
  moreover have "cev_text e = txt" using body(4) assms(11) unfolding ty by simp
  ultimately have e: "cev_type e = ty" "cev_text e = txt" .
  have "cev_time e = t"
    using event_data_fields_time [of "ee_time E" es None None "[]" d] assms(5,7) body(5) by (auto split: option.splits if_splits)
  with assms(8) have time: "time_format (ee_time E) (cev_time e) = Some time" by simp
  let ?body = "[(''type'', JString ty), (''time'', JString time), (''text'', JString txt)] @ ee_order E (cev_extras e)"
  let ?m = "if cev_extras e = []
        then message_new (upstream_topic (ee_prefix E)) (''400,'' @ ty @ '','' @ [quote] @ txt @ [quote] @ '','' @ time)
        else message_new (topic_new_unchecked (ee_prefix E @ ''/event/events/create'')) (json_to_text (ee_json E) (JObject ?body))"
  have ev: "tedge_event_try_from (ee_raw E) (ee_time E) (if event_type = [] then ''ThinEdgeEvent'' else event_type)
      (em_type (ce_metadata entity)) (ce_external_id entity) payload = Some (Some ev)"
    using assms(3-5) by (simp add: tedge_event_try_from_def event_of_def ev_def Let_def del: event_data_of_raw.simps)
  have m: "event_message E e = Inr ?m"
    by (simp add: event_message_def serialize_to_smartrest_def create_event_json_def time e smartrest_event_text)
  have conv: "try_convert_event E now cache source input event_type = Some (Inr
        (if length (payload_bytes ?m) < ee_threshold E then PublishEvents [?m]
         else SendEvent \<lparr>cre_type = ty, cre_time = t, cre_text = txt, cre_extras = cev_extras e, cre_device_id = ce_external_id entity\<rparr>))"
    unfolding try_convert_event_def Let_def assms(1,2) option.case ev bind.bind_lunit e_def [symmetric] m sum.case
    by (simp add: can_send_over_mqtt_def e \<open>cev_time e = t\<close>)
  have none: "hm_get (cev_extras e) k = None" if "k \<in> {''text'', ''time'', ''type''}" for k
    using that by (simp add: body(1) event_field_def)
  have "hm_get (cev_extras e) = event_field entity es" using body(1) by blast
  then show ?thesis
    using conv body(1,2) event_json_fields [of "ee_order E", OF assms(6) [rule_format] body(2) none refl]
    by (intro exI [of _ "cev_extras e"] exI [of _ ?body] exI [of _ ?m] conjI) simp_all
qed

lemma payload_bytes_length: "length (payload_bytes m) \<le> length (mm_payload m)"
proof (cases "strip_suffix [CHR 0x00] (mm_payload m)")
  case (Some p)
  then have "mm_payload m = p @ [CHR 0x00]" by (simp add: strip_suffix_Some_iff)
  with Some show ?thesis by (simp add: payload_bytes_def)
qed (simp add: payload_bytes_def)

definition plain_text :: "string \<Rightarrow> bool" where
  "plain_text s \<longleftrightarrow> quote \<notin> set s \<and> newline \<notin> set s \<and> CHR 0x5C \<notin> set s"

lemma scan_quotes_plain_text: "plain_text s \<Longrightarrow> scan_quotes q s = Some q"
  by (induction s) (auto simp: plain_text_def)

text \<open>
  C27. The text of an event is not escaped in SmartREST: an event of the main device whose text has a quote and a line break sends
  whatever record the text contains next, as a message of its own, with the right of the device.
\<close>

theorem event_text_injects:
  assumes "cache_get source cache = Some entity" "em_type (ce_metadata entity) = MainDevice"
    and "from_utf8 (payload_bytes input) = Some payload" "payload \<noteq> []"
    and "ee_raw E payload = Some (RObject [(''text'', RString ([quote, newline] @ record @ [newline, quote]))])"
    and "scan_quotes False record = Some False"
    and "time_format (ee_time E) now = Some time" "plain_text time" "plain_text event_type" "event_type \<noteq> []"
    and "length event_type + length record + length time + 14 < ee_threshold E"
  shows "\<exists>m. try_convert_event E now cache source input event_type = Some (Inr (PublishEvents [m]))
    \<and> collect_smartrest_messages (mm_payload m) =
        [''400,'' @ event_type @ '','' @ [quote, quote], record, [quote, quote] @ '','' @ time]"
proof -
  let ?t = "[quote, newline] @ record @ [newline, quote]"
  let ?ms = "[''400,'' @ event_type @ '','' @ [quote, quote], record, [quote, quote] @ '','' @ time]"
  let ?m = "message_new (upstream_topic (ee_prefix E)) (join_with newline ?ms)"
  have four: "decimal 400 = ''400''" by code_simp
  have "event_data_of_raw (ee_time E) (RObject [(''text'', RString ?t)])
      = Some (Some \<lparr>evd_text = Some ?t, evd_time = None, evd_extras = []\<rparr>)" by simp
  then have "tedge_event_try_from (ee_raw E) (ee_time E) event_type MainDevice (ce_external_id entity) payload
      = Some (Some \<lparr>tev_name = event_type, tev_data = Some \<lparr>evd_text = Some ?t, evd_time = None, evd_extras = []\<rparr>, tev_source = None\<rparr>)"
    using assms(4,5) by (simp add: tedge_event_try_from_def)
  moreover have "event_message E (c8y_event_from now \<lparr>tev_name = event_type,
      tev_data = Some \<lparr>evd_text = Some ?t, evd_time = None, evd_extras = []\<rparr>, tev_source = None\<rparr>) = Inr ?m"
    using assms(7) by (simp add: c8y_event_from_def event_message_def serialize_to_smartrest_def four)
  moreover have "can_send_over_mqtt (ee_threshold E) ?m"
  proof -
    have "length (payload_bytes ?m) \<le> length (mm_payload ?m)" by (rule payload_bytes_length)
    also have "\<dots> < ee_threshold E" using assms(11) by simp
    finally show ?thesis by (simp add: can_send_over_mqtt_def)
  qed
  ultimately have "try_convert_event E now cache source input event_type = Some (Inr (PublishEvents [?m]))"
    using assms(1-3,10) by (simp add: try_convert_event_def Let_def)
  moreover have "list_all (\<lambda>m. scan_quotes False m = Some False) ?ms"
    using assms(6,8,9) by (simp add: scan_quotes_append scan_quotes_plain_text) (simp add: quote_def scan_quotes_plain_text)
  then have "collect_smartrest_messages (mm_payload ?m) = ?ms"
    using collect_joined [of ?ms "\<lparr>ss_stack = [], ss_messages = [], ss_is_inside = False, ss_maybe_escaped = False\<rparr>"]
    by (simp add: collect_smartrest_messages_def)
  ultimately show ?thesis by blast
qed

text \<open>The main device, and an event of it whose text registers a service.\<close>

definition example_event_env :: "string event_env" where
  "example_event_env = \<lparr>ee_raw = code_raw, ee_json = code_serde, ee_time = pe_time text_env, ee_order = id, ee_prefix = ''c8y'',
     ee_threshold = 200\<rparr>"

definition example_event :: "jmap \<Rightarrow> mqtt_message" where
  "example_event m = message_new (topic_new_unchecked ''te/device/main///e/login'') (json_to_text code_serde (JObject m))"

definition example_event_record :: string where
  "example_event_record = ''102,fake,type,name,up''"

definition injecting_text :: string where
  "injecting_text = [quote, newline] @ example_event_record @ [newline, quote]"

lemma example_events_read:
  "cache_get ''device/main//'' (c8y_entity_cache schema_new ''dev'') = Some \<lparr>ce_external_id = ''dev'', ce_metadata = metadata_main_device\<rparr>"
  "from_utf8 (payload_bytes (example_event [(''text'', JString injecting_text)]))
     = Some (json_to_text code_serde (JObject [(''text'', JString injecting_text)]))"
  "code_raw (json_to_text code_serde (JObject [(''text'', JString injecting_text)])) = Some (RObject [(''text'', RString injecting_text)])"
  "from_utf8 (payload_bytes (example_event [(''user'', JString ''a'')]))
     = Some (json_to_text code_serde (JObject [(''user'', JString ''a'')]))"
  "code_raw (json_to_text code_serde (JObject [(''user'', JString ''a'')])) = Some (RObject [(''user'', RString ''a'')])"
proof -
  show "cache_get ''device/main//'' (c8y_entity_cache schema_new ''dev'') = Some \<lparr>ce_external_id = ''dev'', ce_metadata = metadata_main_device\<rparr>"
    by code_simp
  show "from_utf8 (payload_bytes (example_event [(''text'', JString injecting_text)]))
     = Some (json_to_text code_serde (JObject [(''text'', JString injecting_text)]))" by code_simp
  show "from_utf8 (payload_bytes (example_event [(''user'', JString ''a'')]))
     = Some (json_to_text code_serde (JObject [(''user'', JString ''a'')]))" by code_simp
qed (simp_all add: code_raw_def serde_roundtrip [OF code_serde_rule])

theorem events_converted_witness:
  "\<exists>extras body m. try_convert_event example_event_env ''now'' (c8y_entity_cache schema_new ''dev'') ''device/main//''
        (example_event [(''user'', JString ''a'')]) ''login'' = Some (Inr
          (if length (payload_bytes m) < 200 then PublishEvents [m]
           else SendEvent \<lparr>cre_type = ''login'', cre_time = ''now'', cre_text = ''login'', cre_extras = extras,
                  cre_device_id = ''dev''\<rparr>))
    \<and> hm_get extras = [''user'' \<mapsto> JString ''a'']
    \<and> m = message_new (topic_new_unchecked ''c8y/event/events/create'') (json_to_text code_serde (JObject body))
    \<and> map_of body = [''user'' \<mapsto> JString ''a'', ''type'' \<mapsto> JString ''login'', ''time'' \<mapsto> JString ''now'', ''text'' \<mapsto> JString ''login'']"
proof -
  let ?c = "c8y_entity_cache schema_new ''dev''" and ?e = "\<lparr>ce_external_id = ''dev'', ce_metadata = metadata_main_device\<rparr>"
  have raw: "event_data_of_raw (ee_time example_event_env) (RObject [(''user'', RString ''a'')])
      = Some (Some \<lparr>evd_text = None, evd_time = None, evd_extras = [(''user'', JString ''a'')]\<rparr>)" by simp
  have env: "ee_raw example_event_env (json_to_text code_serde (JObject [(''user'', JString ''a'')])) = Some (RObject [(''user'', RString ''a'')])"
    "\<forall>m. mset (ee_order example_event_env m) = mset m" "time_format (ee_time example_event_env) ''now'' = Some ''now''"
    "ee_threshold example_event_env = 200" "ee_prefix example_event_env = ''c8y''" "ee_json example_event_env = code_serde"
    using example_events_read(5) by (simp_all add: example_event_env_def text_env_def)
  have field: "event_field ?e [(''user'', RString ''a'')] = [''user'' \<mapsto> JString ''a'']"
    by (auto simp: event_field_def own_source_def metadata_main_device_def)
  have "\<exists>extras body m. try_convert_event example_event_env ''now'' ?c ''device/main//''
        (example_event [(''user'', JString ''a'')]) ''login'' = Some (Inr
          (if length (payload_bytes m) < ee_threshold example_event_env then PublishEvents [m]
           else SendEvent \<lparr>cre_type = ''login'', cre_time = ''now'', cre_text = ''login'', cre_extras = extras,
                  cre_device_id = ce_external_id ?e\<rparr>))
    \<and> m = (if extras = []
        then message_new (upstream_topic (ee_prefix example_event_env)) (''400,'' @ ''login'' @ '','' @ [quote] @ ''login'' @ [quote] @ '','' @ ''now'')
        else message_new (topic_new_unchecked (ee_prefix example_event_env @ ''/event/events/create''))
          (json_to_text (ee_json example_event_env) (JObject body)))
    \<and> (\<forall>k. hm_get extras k = event_field ?e [(''user'', RString ''a'')] k) \<and> distinct (map fst extras) \<and> distinct (map fst body)
    \<and> map_of body = (event_field ?e [(''user'', RString ''a'')])
        (''type'' \<mapsto> JString ''login'', ''time'' \<mapsto> JString ''now'', ''text'' \<mapsto> JString ''login'')"
    by (rule events_converted [OF example_events_read(1,4) serde_text(1) [OF code_serde_rule] env(1) raw env(2) _ env(3) refl]) simp_all
  then obtain extras body m where conv: "try_convert_event example_event_env ''now'' ?c ''device/main//''
        (example_event [(''user'', JString ''a'')]) ''login'' = Some (Inr
          (if length (payload_bytes m) < ee_threshold example_event_env then PublishEvents [m]
           else SendEvent \<lparr>cre_type = ''login'', cre_time = ''now'', cre_text = ''login'', cre_extras = extras,
                  cre_device_id = ce_external_id ?e\<rparr>))"
    and rest: "m = (if extras = []
        then message_new (upstream_topic (ee_prefix example_event_env)) (''400,'' @ ''login'' @ '','' @ [quote] @ ''login'' @ [quote] @ '','' @ ''now'')
        else message_new (topic_new_unchecked (ee_prefix example_event_env @ ''/event/events/create''))
          (json_to_text (ee_json example_event_env) (JObject body)))"
      "\<forall>k. hm_get extras k = event_field ?e [(''user'', RString ''a'')] k"
      "map_of body = (event_field ?e [(''user'', RString ''a'')])
        (''type'' \<mapsto> JString ''login'', ''time'' \<mapsto> JString ''now'', ''text'' \<mapsto> JString ''login'')"
    by (elim exE conjE) (rule that)
  have "hm_get extras = [''user'' \<mapsto> JString ''a'']" using rest(2) field by (simp add: fun_eq_iff)
  moreover from this have "extras \<noteq> []" by (metis map_of.simps(1) map_upd_nonempty)
  ultimately have "m = message_new (topic_new_unchecked ''c8y/event/events/create'') (json_to_text code_serde (JObject body))"
    "hm_get extras = [''user'' \<mapsto> JString ''a'']" using rest(1) env(5,6) by simp_all
  then show ?thesis
    by (intro exI [where x = extras] exI [where x = body] exI [where x = m] conjI)
      (use conv [unfolded env(4) cloud_entity.simps] rest(3) [unfolded field] in simp_all)
qed

theorem event_text_injects_witness:
  "\<exists>m. try_convert_event example_event_env ''now'' (c8y_entity_cache schema_new ''dev'') ''device/main//''
        (example_event [(''text'', JString injecting_text)]) ''login'' = Some (Inr (PublishEvents [m]))
    \<and> collect_smartrest_messages (mm_payload m) =
        [''400,login,'' @ [quote, quote], ''102,fake,type,name,up'', [quote, quote] @ '',now'']"
proof -
  have "ee_raw example_event_env (json_to_text code_serde (JObject [(''text'', JString injecting_text)]))
      = Some (RObject [(''text'', RString ([quote, newline] @ example_event_record @ [newline, quote]))])"
    "time_format (ee_time example_event_env) ''now'' = Some ''now''"
    using example_events_read(3) by (simp_all add: example_event_env_def text_env_def injecting_text_def)
  moreover have "scan_quotes False example_event_record = Some False" "plain_text ''now''" "plain_text ''login''"
    "length ''login'' + length example_event_record + length ''now'' + 14 < ee_threshold example_event_env"
    by code_simp+
  moreover have "em_type (ce_metadata \<lparr>ce_external_id = ''dev'', ce_metadata = metadata_main_device\<rparr>) = MainDevice"
    "''login'' \<noteq> []" by (simp_all add: metadata_main_device_def)
  ultimately have "\<exists>m. try_convert_event example_event_env ''now'' (c8y_entity_cache schema_new ''dev'') ''device/main//''
        (example_event [(''text'', JString injecting_text)]) ''login'' = Some (Inr (PublishEvents [m]))
    \<and> collect_smartrest_messages (mm_payload m) =
        [''400,'' @ ''login'' @ '','' @ [quote, quote], example_event_record, [quote, quote] @ '','' @ ''now'']"
    by (intro event_text_injects [OF example_events_read(1) _ example_events_read(2) serde_text(1) [OF code_serde_rule]])
  then show ?thesis unfolding example_event_record_def append.simps .
qed

section \<open>The base inventory\<close>

text \<open>A file that is no JSON is ignored, but one that holds a JSON value other than an object is an error, which ends the initialisation.\<close>

lemma base_inventory_not_an_object:
  assumes "json_of_text J content = Some v" "as_object v = None"
  shows "base_inventory_twin_data L J S version (Some content) n t d = Some (Inl InventoryOption)"
  using assms by (simp add: base_inventory_twin_data_def get_inventory_fragments_def)

text \<open>A key of the file with a wildcard of MQTT stops the mapper.\<close>

lemma twin_data_messages_None:
  assumes "topic_rule L" "(k, v) \<in> set m" "\<not> no_wildcard k"
  shows "twin_data_messages L J S d m = None"
  using assms(2)
proof (induction m)
  case (Cons e m)
  have "entity_twin_data_message L J S d k v = None"
    using assms(1,3) by (simp add: entity_twin_data_message_def topic_for_None_iff topic_text_def)
  with Cons show ?case by (cases e) (auto split: bind_splits)
qed simp

end
