(* ===== verification/Spec2Isabelle.thy ===== *)
theory Spec2Isabelle
  imports Store_Persistence Store_Properties Actor_Invariant Batcher Timers Entity_Server Workflow_Toml Cloud_Alarms
    Cloud_Measurements Collectd Legacy_Topics Telemetry_Mappers Bridge_System Availability Cloud_Events
begin

text \<open>
  thin-edge.io connects devices to clouds.  Its processes exchange MQTT messages on the topics of a common
  schema: the agent keeps the tree of the entities (the device, its child devices and services) and runs the
  operations requested for the device, the mappers translate between the local messages and a cloud.  This
  development models the core library of that design, the crate \<^verbatim>\<open>tedge_api\<close>, with the topics and messages of
  the crate \<^verbatim>\<open>mqtt_channel\<close> it is built on; the actors of the agent that run the operations and serve the entities;
  timers and the batcher of telemetry; the part of the Cumulocity mapper that names the entities in the cloud and
  converts alarms, measurements, events and inventory fragments, with its SmartREST messages and its heartbeats; the mappers of collectd, AWS and Azure; the
  translation of the topics of former releases; and the bridge between the local MQTT broker and the one of a cloud.

  \<^bold>\<open>The parts, and the theories that model them.\<close>

  \<^item> \<^verbatim>\<open>Prelude\<close>: strings, hash maps and ordered maps as the standard library has them; runs of a component
    with its invariant and refinements of an abstract machine (locales \<open>map_model\<close>, \<open>step_invariant\<close>,
    \<open>total_step\<close>, \<open>simulation\<close>).
  \<^item> \<^verbatim>\<open>Json\<close>: the values of \<^verbatim>\<open>serde_json\<close>; printing and parsing are parameters, with an executable instance.
  \<^item> \<^verbatim>\<open>Mqtt_Channel\<close> (\<^verbatim>\<open>mqtt_channel/src/topics.rs\<close>, \<^verbatim>\<open>messages.rs\<close>): topics, topic filters, messages.
  \<^item> \<^verbatim>\<open>Topic_Schema\<close> (\<^verbatim>\<open>mqtt_topics.rs\<close>): the schema of topics, identifiers of entities, channels, operation
    names and command identifiers.
  \<^item> \<^verbatim>\<open>Entity\<close> (\<^verbatim>\<open>entity.rs\<close>, the messages of \<^verbatim>\<open>entity_store.rs\<close>): entities, registrations, twin data.
  \<^item> \<^verbatim>\<open>Ring_Buffer\<close>, \<^verbatim>\<open>Pending_Store\<close> (\<^verbatim>\<open>store/ring_buffer.rs\<close>, \<^verbatim>\<open>store/pending_entity_store.rs\<close>): the data and the
    registrations that wait for an entity.
  \<^item> \<^verbatim>\<open>Message_Log\<close> (\<^verbatim>\<open>store/message_log.rs\<close>): the log of the store, with the outcomes of the file operations
    as inputs.
  \<^item> \<^verbatim>\<open>Entity_Tree\<close>, \<^verbatim>\<open>Entity_Store\<close>, \<^verbatim>\<open>Store_Persistence\<close>, \<^verbatim>\<open>Store_Properties\<close> (\<^verbatim>\<open>entity_store.rs\<close>): the tree,
    every operation of the store, its invariant over runs, restarts from the log, and the functional properties
    that span the store, the log and the pending data.
  \<^item> \<^verbatim>\<open>Command_State\<close> (\<^verbatim>\<open>workflow/state.rs\<close>, \<^verbatim>\<open>substitution.rs\<close>, \<^verbatim>\<open>script.rs\<close>): the state of a command, its topic
    and its sub-commands, its updates, path expressions and scripts.
  \<^item> \<^verbatim>\<open>Exit_Handlers\<close> (\<^verbatim>\<open>workflow/handlers.rs\<close>): how the outcome of a script gives the next state.
  \<^item> \<^verbatim>\<open>Workflow\<close> (\<^verbatim>\<open>workflow/mod.rs\<close>): workflow definitions, actions, iterations, built-in operations.
  \<^item> \<^verbatim>\<open>Supervisor\<close>, \<^verbatim>\<open>Supervisor_Restart\<close> (\<^verbatim>\<open>workflow/supervisor.rs\<close>, \<^verbatim>\<open>workflow/on_disk.rs\<close>): versions of workflows,
    the board of pending commands, its format on disk, restarts.
  \<^item> \<^verbatim>\<open>Workflow_Repository\<close> (\<^verbatim>\<open>tedge_agent/src/operation_workflows/persist.rs\<close>): the workflow definitions on disk, their
    versions, and the copies of the versions that commands use.
  \<^item> \<^verbatim>\<open>Workflow_Actor\<close>, \<^verbatim>\<open>Actor_Invariant\<close> (\<^verbatim>\<open>operation_workflows/actor.rs\<close>, \<^verbatim>\<open>message_box.rs\<close>, the requests of
    \<^verbatim>\<open>tedge_script_ext\<close>): the actor that runs the actions of the workflows, one input after the other, and its
    invariant, which composes those of the repository, the supervisor and the states of the commands.
  \<^item> \<^verbatim>\<open>Batcher\<close> (\<^verbatim>\<open>common/batcher\<close>): the grouping of events that are close in time, and the loop that drives it.
  \<^item> \<^verbatim>\<open>Timers\<close> (\<^verbatim>\<open>extensions/tedge_timer_ext\<close>): the actor that fires timers, with its heap.
  \<^item> \<^verbatim>\<open>Entity_Server\<close> (\<^verbatim>\<open>tedge_agent/src/entity_manager/server.rs\<close>): the requests and messages that act on the entity store.
  \<^item> \<^verbatim>\<open>Workflow_Toml\<close> (\<^verbatim>\<open>workflow/toml_config.rs\<close>): the workflow definitions of the users, with their defaults and checks.
  \<^item> \<^verbatim>\<open>Cloud_Entities\<close> (\<^verbatim>\<open>c8y_mapper_ext/src/entity_cache.rs\<close>, the registrations of \<^verbatim>\<open>converter.rs\<close>, \<^verbatim>\<open>smartrest/topic.rs\<close>): the
    entities of the Cumulocity mapper, their external ids and topics (locale \<open>cache_contract\<close>).
  \<^item> \<^verbatim>\<open>Smartrest\<close> (\<^verbatim>\<open>c8y_api/src/smartrest\<close>): the messages to Cumulocity, with UTF-8 texts and slices as the standard
    library has them.
  \<^item> \<^verbatim>\<open>Cloud_Alarms\<close> (\<^verbatim>\<open>c8y_mapper_ext/src/alarm_converter.rs\<close>, \<^verbatim>\<open>tedge_api/src/alarm.rs\<close>, \<^verbatim>\<open>json_c8y.rs\<close>): alarms, and their
    reconciliation after a restart.
  \<^item> \<^verbatim>\<open>Timestamps\<close> (\<^verbatim>\<open>tedge_utils/src/timestamp.rs\<close>): the times of payloads, with the rounding of double precision numbers and
    the overflow checks of the release profile.
  \<^item> \<^verbatim>\<open>Measurements\<close> (\<^verbatim>\<open>tedge_api/src/measurement\<close>, \<^verbatim>\<open>json_writer\<close>): the parser of measurements, which drives a visitor (locale
    \<open>measurement_visitor\<close>, interpreted on the grouper and the serializers), the grouper, the serializer and the writer of JSON.
  \<^item> \<^verbatim>\<open>Cloud_Measurements\<close> (\<^verbatim>\<open>c8y_mapper_ext/src/serializer.rs\<close>, \<^verbatim>\<open>json.rs\<close>): the measurements sent to Cumulocity.
  \<^item> \<^verbatim>\<open>Collectd\<close> (\<^verbatim>\<open>extensions/collectd_ext\<close>): the messages of collectd, batched and translated into measurements.
  \<^item> \<^verbatim>\<open>Legacy_Topics\<close> (\<^verbatim>\<open>tedge_agent/src/tedge_to_te_converter\<close>): the translation of the topics of former releases.
  \<^item> \<^verbatim>\<open>Telemetry_Mappers\<close> (\<^verbatim>\<open>aws_mapper_ext\<close>, \<^verbatim>\<open>az_mapper_ext\<close>): the messages sent to AWS and Azure (locale \<open>telemetry_mapper\<close>,
    interpreted on both).
  \<^item> \<^verbatim>\<open>Health\<close> (\<^verbatim>\<open>tedge_api/src/health.rs\<close>, \<^verbatim>\<open>c8y_mapper_ext/src/service_monitor.rs\<close>): the health messages of the services.
  \<^item> \<^verbatim>\<open>Availability\<close> (\<^verbatim>\<open>c8y_mapper_ext/src/availability\<close>): the actor that sends the heartbeats of the devices, alone and composed with
    the timer actor.
  \<^item> \<^verbatim>\<open>Cloud_Events\<close> (\<^verbatim>\<open>tedge_api/src/event.rs\<close>, \<^verbatim>\<open>inventory.rs\<close> and \<^verbatim>\<open>fragments.rs\<close> of the mapper, events and registrations of
    \<^verbatim>\<open>converter.rs\<close>): the events, inventory fragments and registrations sent to Cumulocity.
  \<^item> \<^verbatim>\<open>Bridge_Rules\<close> (\<^verbatim>\<open>tedge_mqtt_bridge/src/config.rs\<close>, \<^verbatim>\<open>topics.rs\<close>, the rules in \<^verbatim>\<open>tedge_mapper/src\<close>): which topics the bridge
    forwards, and under which names.
  \<^item> \<^verbatim>\<open>Bridge\<close>, \<^verbatim>\<open>Bridge_System\<close> (\<^verbatim>\<open>lib.rs\<close>, \<^verbatim>\<open>health.rs\<close>, \<^verbatim>\<open>backoff.rs\<close> of the bridge): the half that handles the events of a connection,
    and the two halves with their publishers and MQTT clients as an inductive step relation, in which each of them moves at
    its own pace.

  \<^bold>\<open>How the code is represented.\<close>  A struct is a record with the fields of the source, an enum a datatype with its
  variants.  A method that mutates its receiver takes the state last and returns the new state.  A \<^verbatim>\<open>Result\<close> is a
  sum with the error on the left; a panic is \<^term>\<open>None\<close> (type \<open>'a panics\<close>).  Hash maps are association lists whose
  order is the order of iteration, so that statements about every list cover every order; where the order of a hash
  set matters it is a parameter with the hypothesis that it enumerates the set.  Strings are byte strings.  What is
  not in the repository is a parameter, with a named rule for what the code relies on: the check of topic names and
  the matching of filters by \<^verbatim>\<open>rumqttc\<close> (\<open>topic_rule\<close>, \<open>level_rule\<close>), its events (the steps of \<open>connection_step\<close>), the text of JSON values (\<open>serde_rule\<close>, \<open>raw_rule\<close>), the splitting of
  command lines, the calendar of the \<^verbatim>\<open>time\<close> package, the text of numbers, the text of CSV records (\<open>csv_rule\<close>).  Each rule has an executable instance, which the witnesses use.

  \<^bold>\<open>What is shown.\<close>  The store keeps its tree free of orphans through every run of its operations, whatever the
  outcomes of its log; with the topic root \<^verbatim>\<open>te\<close> restarts restore the tree of a run without deregistrations; registrations may arrive in any
  order, as long as an entity keeps its parent, and the orphans are registered with their parent, at any depth; the listing and the removal of subtrees return what they should.  Topics, registrations, twin data,
  commands and log entries survive their encoding.  A command and its payload agree on the status after every
  update; the handlers of a script decide the next status; iterations visit the items that are not skipped, and end;
  whatever the events of the supervisor are, it keeps the workflow version of a command it accepted until this version itself is unregistered, and it finds the
  root of a chain of sub-commands; the actor of the agent keeps it over every sequence of inputs (the condition \<open>files_ok\<close> on the definitions, and
  those on scripts and built-in operations, leave the property \<^verbatim>\<open>@version\<close> to the agent), and it survives changes of the definitions and
  restarts as long as its copy is there.  The batcher refines a bag of events with time limits, and its driver delivers them in time; timers fire
  once, the earliest first.  The entity server refines the store, with requests that may have any ids.  A workflow definition is accepted exactly when its
  states are sound.  Every entity of the mapper has a valid topic, its generated ids are unique, SmartREST messages are
  split into the records they were made of, sanitised texts fit, and alarms agree with the cloud after a restart.
  A measurement is accepted exactly when it has a translation, and the text sent to Cumulocity is this translation; a batch
  of collectd becomes one measurement with its values; a message to AWS keeps its fields and its time, within the limits of that cloud;
  the legacy messages reach the topics of their device.  A heartbeat is sent exactly for the devices whose
  endpoint is up, and no device loses its heartbeat timer; an event is published or sent over HTTP with all its fields.  The bridge acknowledges a message only once its copy was
  acknowledged, and loses none, as long as its clients neither repeat a message of the bridge itself nor reuse a packet identifier; the rules of the mappers are accepted and never panic.
  Some theorems document behaviour that is not what the code means to do: the telemetry cache loses its bound, a
  logged deregistration is not restored, an entity can become its own parent, an early registration that is repeated is listed twice and one that moves to another parent makes the
  first parent fail, another topic root than \<^verbatim>\<open>te\<close> restores nothing, one excerpt is always null, the copy
  of a workflow is removed while commands that were resumed by a restart still use it, services without a registered
  parent make the agent and the mapper panic, as a long alarm text and some times out of range do, trimmed results may lose
  half of an escaped quote, the mapper of Azure ignores the topic root, the text of an event can add
  records of its own to a message, heartbeat timers accumulate, and the bridge can wait for itself forever, or
  acknowledge a message too early when a client repeats a health message.

  \<^bold>\<open>Loops, bounds and fuel.\<close>  Loops are recursive functions with a termination proof, where every run of the loop
  ends.  Two may not end: the listing of a tree with a cycle, and the search of the root command on a board with a
  cycle of invoking topics; both are partial functions in the option monad, and theorems show on which states they
  return.  There is no fuel.

  \<^bold>\<open>What is not modelled.\<close>  Logging and tracing, and the entries of the command logs; the serialisation that
  \<^verbatim>\<open>serde\<close> derives, except where the code defines the format itself; file and network operations, whose outcomes
  are inputs where a component depends on them (a log that cannot be opened or written, a line of it that
  cannot be read; a reader that goes on failing is not modelled, the loader would repeat forever).  The runtime of the actors is a sequence of inputs: the workflow
  actor reads the clock once per input, and channels are not closed.  The instants of timers and batches have no bounds.  The other actors of the
  agent, the operations of the Cumulocity mapper, the command line and the configuration are not modelled; a
  bridge stops where one of its halves panics.
\<close>

end
